(* ===== verification/Prelude.thy ===== *)
theory Prelude
  imports Main "HOL-Library.Multiset"
begin

text \<open>
  The prelude of the development: what the TypeScript sources use of their language and
  standard library, and the lemmas the component theories share.

  \<^item> fallible code returns a value of a sum type, \<open>Inl\<close> for the thrown error;
    \<open>bindE\<close> is sequencing, with the rules \<open>bindE_eq_Inr\<close> and \<open>bindE_eq_Inl\<close> that invert it;
  \<^item> a JavaScript number is an integer (\<open>NumInt\<close>) or something else (\<open>NumOther\<close>: a fraction,
    an infinity or NaN), which every check of the modelled code rejects;
  \<^item> a JavaScript \<open>Map\<close> is an association list in insertion order with distinct keys
    (\<open>jm_set\<close>, \<open>jm_delete\<close>, \<open>jm_filter\<close>), and the interface the components use of it is the
    locale \<open>keyed_map\<close>;
  \<^item> a string is a list of characters, each one standing for one UTF-16 code unit below 256;
  \<^item> \<open>step_system\<close> is the induction principle of every state machine of the development, and
    \<open>lowest_free\<close> the contract of its lowest-free allocators.
\<close>

named_theorems err_simps
named_theorems inv_defs

subsection \<open>Results\<close>

definition bindE :: "'e + 'a \<Rightarrow> ('a \<Rightarrow> 'e + 'b) \<Rightarrow> 'e + 'b" where
  "bindE m f = (case m of Inl e \<Rightarrow> Inl e | Inr x \<Rightarrow> f x)"

definition requireE :: "bool \<Rightarrow> 'e \<Rightarrow> 'e + unit" where
  "requireE b e = (if b then Inr () else Inl e)"

definition is_ok :: "'e + 'a \<Rightarrow> bool" where
  "is_ok r = (case r of Inl _ \<Rightarrow> False | Inr _ \<Rightarrow> True)"

fun mapE :: "('a \<Rightarrow> 'e + 'b) \<Rightarrow> 'a list \<Rightarrow> 'e + 'b list" where
  "mapE f [] = Inr []"
| "mapE f (x # xs) = bindE (f x) (\<lambda>y. bindE (mapE f xs) (\<lambda>ys. Inr (y # ys)))"

lemma bindE_Inl [simp]: "bindE (Inl e) f = Inl e"
  by (simp add: bindE_def)

lemma bindE_Inr [simp]: "bindE (Inr x) f = f x"
  by (simp add: bindE_def)

lemma bindE_eq_Inr [err_simps]: "bindE m f = Inr y \<longleftrightarrow> (\<exists>x. m = Inr x \<and> f x = Inr y)"
  by (cases m) auto

lemma bindE_eq_Inl [err_simps]:
  "bindE m f = Inl e \<longleftrightarrow> m = Inl e \<or> (\<exists>x. m = Inr x \<and> f x = Inl e)"
  by (cases m) auto

lemma requireE_eq [simp, err_simps]:
  "requireE b e = Inr u \<longleftrightarrow> b"
  "requireE b e = Inl e' \<longleftrightarrow> \<not> b \<and> e' = e"
  by (auto simp: requireE_def)

lemma is_ok_simps [simp]: "is_ok (Inl e) = False" "is_ok (Inr x) = True"
  by (simp_all add: is_ok_def)

lemma is_ok_bindE [simp]: "is_ok (bindE m f) \<longleftrightarrow> (\<exists>x. m = Inr x \<and> is_ok (f x))"
  by (cases m) auto

lemma is_ok_requireE [simp]: "is_ok (requireE b e) \<longleftrightarrow> b"
  by (simp add: requireE_def)

lemma is_okE: "is_ok r \<Longrightarrow> (\<And>x. r = Inr x \<Longrightarrow> P) \<Longrightarrow> P"
  by (cases r) auto

lemma not_is_ok: "\<not> is_ok r \<longleftrightarrow> (\<exists>e. r = Inl e)"
  by (cases r) auto

lemma mapE_eq_Inr: "mapE f xs = Inr ys \<longleftrightarrow> list_all2 (\<lambda>x y. f x = Inr y) xs ys"
  by (induction xs arbitrary: ys) (auto simp: bindE_eq_Inr list_all2_Cons1)

lemma mapE_length: "mapE f xs = Inr ys \<Longrightarrow> length ys = length xs"
  by (auto simp: mapE_eq_Inr dest: list_all2_lengthD)

lemma mapE_mem:
  "mapE f xs = Inr ys \<Longrightarrow> y \<in> set ys \<Longrightarrow> \<exists>x \<in> set xs. f x = Inr y"
  by (induction xs arbitrary: ys) (auto simp: bindE_eq_Inr)

lemma mapE_map_Inr: "(\<And>x. x \<in> set xs \<Longrightarrow> f (g x) = Inr x) \<Longrightarrow> mapE f (map g xs) = Inr xs"
  by (induction xs) auto

lemma mapE_eq_Inl: "mapE f xs = Inl e \<Longrightarrow> \<exists>x \<in> set xs. f x = Inl e"
  by (induction xs) (auto simp: bindE_eq_Inl)

subsection \<open>Numbers\<close>

datatype js_number = NumInt int | NumOther

definition MAX_SAFE_INTEGER :: int where
  "MAX_SAFE_INTEGER = 9007199254740991"

fun isInteger :: "js_number \<Rightarrow> bool" where
  "isInteger (NumInt i) = True"
| "isInteger NumOther = False"

fun isSafeInteger :: "js_number \<Rightarrow> bool" where
  "isSafeInteger (NumInt i) = (\<bar>i\<bar> \<le> MAX_SAFE_INTEGER)"
| "isSafeInteger NumOther = False"

text \<open>The integer value of a number; only used behind one of the two checks.\<close>

fun int_of :: "js_number \<Rightarrow> int" where
  "int_of (NumInt i) = i"
| "int_of NumOther = 0"

subsection \<open>Optional values\<close>

text \<open>The operator \<open>??\<close> and a spread of an optional field.\<close>

definition orElse :: "'a option \<Rightarrow> 'a \<Rightarrow> 'a" where
  "orElse x d = (case x of None \<Rightarrow> d | Some y \<Rightarrow> y)"

lemma orElse_simps [simp]: "orElse None d = d" "orElse (Some y) d = y"
  by (simp_all add: orElse_def)

definition overlay :: "'a option \<Rightarrow> 'a option \<Rightarrow> 'a option" where
  "overlay patch old = (case patch of None \<Rightarrow> old | Some y \<Rightarrow> Some y)"

lemma overlay_simps [simp]: "overlay None old = old" "overlay (Some y) old = Some y"
  by (simp_all add: overlay_def)

subsection \<open>Sorting\<close>

text \<open>\<open>Array.sort\<close> is stable; the comparison is given as "not after".\<close>

fun insert_by :: "('a \<Rightarrow> 'a \<Rightarrow> bool) \<Rightarrow> 'a \<Rightarrow> 'a list \<Rightarrow> 'a list" where
  "insert_by le x [] = [x]"
| "insert_by le x (y # ys) = (if le x y then x # y # ys else y # insert_by le x ys)"

definition sort_by :: "('a \<Rightarrow> 'a \<Rightarrow> bool) \<Rightarrow> 'a list \<Rightarrow> 'a list" where
  "sort_by le xs = foldr (insert_by le) xs []"

lemma set_insert_by: "set (insert_by le x ys) = insert x (set ys)"
  by (induction ys) auto

lemma set_sort_by: "set (sort_by le xs) = set xs"
  by (induction xs) (simp_all add: sort_by_def set_insert_by)

lemma mset_insert_by: "mset (insert_by le x xs) = add_mset x (mset xs)"
  by (induction xs) auto

lemma mset_sort_by: "mset (sort_by le xs) = mset xs"
  by (induction xs) (simp_all add: sort_by_def mset_insert_by)

subsection \<open>JavaScript maps\<close>

type_synonym ('k, 'v) jsmap = "('k \<times> 'v) list"

text \<open>
  \<open>Map.set\<close> keeps the position of a key that is present and appends a new one;
  \<open>Map.delete\<close> drops the key; iteration is in insertion order.
\<close>

fun jm_set :: "'k \<Rightarrow> 'v \<Rightarrow> ('k, 'v) jsmap \<Rightarrow> ('k, 'v) jsmap" where
  "jm_set k v [] = [(k, v)]"
| "jm_set k v (e # m) = (if fst e = k then (k, v) # m else e # jm_set k v m)"

definition jm_get :: "('k, 'v) jsmap \<Rightarrow> 'k \<Rightarrow> 'v option" where
  "jm_get m = map_of m"

definition jm_has :: "('k, 'v) jsmap \<Rightarrow> 'k \<Rightarrow> bool" where
  "jm_has m k = (jm_get m k \<noteq> None)"

definition jm_delete :: "'k \<Rightarrow> ('k, 'v) jsmap \<Rightarrow> ('k, 'v) jsmap" where
  "jm_delete k m = filter (\<lambda>e. fst e \<noteq> k) m"

definition jm_filter :: "('v \<Rightarrow> bool) \<Rightarrow> ('k, 'v) jsmap \<Rightarrow> ('k, 'v) jsmap" where
  "jm_filter P m = filter (\<lambda>e. P (snd e)) m"

definition jm_ok :: "('k, 'v) jsmap \<Rightarrow> bool" where
  "jm_ok m = distinct (map fst m)"

text \<open>The interface the components use of a \<open>Map\<close>.\<close>

locale keyed_map =
  fixes lookup :: "'m \<Rightarrow> 'k \<Rightarrow> 'v option"
    and insert_at :: "'k \<Rightarrow> 'v \<Rightarrow> 'm \<Rightarrow> 'm"
    and remove_at :: "'k \<Rightarrow> 'm \<Rightarrow> 'm"
    and size_of :: "'m \<Rightarrow> nat"
    and ok :: "'m \<Rightarrow> bool"
  assumes lookup_insert: "lookup (insert_at k v m) = (lookup m)(k \<mapsto> v)"
    and lookup_remove: "lookup (remove_at k m) = (lookup m)(k := None)"
    and ok_insert: "ok m \<Longrightarrow> ok (insert_at k v m)"
    and ok_remove: "ok m \<Longrightarrow> ok (remove_at k m)"
    and finite_dom: "finite (dom (lookup m))"
    and size_card: "ok m \<Longrightarrow> size_of m = card (dom (lookup m))"
begin

lemma size_insert_fresh:
  "ok m \<Longrightarrow> lookup m k = None \<Longrightarrow> size_of (insert_at k v m) = Suc (size_of m)"
  by (simp add: size_card ok_insert lookup_insert finite_dom domIff)

lemma size_insert_present:
  "ok m \<Longrightarrow> lookup m k = Some u \<Longrightarrow> size_of (insert_at k v m) = size_of m"
  by (simp add: size_card ok_insert lookup_insert insert_absorb domI)

lemma size_remove_present:
  "ok m \<Longrightarrow> lookup m k = Some u \<Longrightarrow> Suc (size_of (remove_at k m)) = size_of m"
  using card_Suc_Diff1 [OF finite_dom, of k m]
  by (simp add: size_card ok_remove lookup_remove domI)

lemma size_remove_absent:
  "ok m \<Longrightarrow> lookup m k = None \<Longrightarrow> size_of (remove_at k m) = size_of m"
  by (simp add: size_card ok_remove lookup_remove domIff)

lemma remove_insert_lookup:
  "lookup (remove_at k (insert_at k v m)) = (lookup m)(k := None)"
  by (simp add: lookup_remove lookup_insert)

end

lemma jm_get_set: "jm_get (jm_set k v m) = (jm_get m)(k \<mapsto> v)"
  by (induction m) (auto simp: jm_get_def fun_eq_iff)

lemma jm_get_delete: "jm_get (jm_delete k m) = (jm_get m)(k := None)"
  by (induction m) (auto simp: jm_get_def jm_delete_def fun_eq_iff)

lemma fst_jm_set: "fst ` set (jm_set k v m) = insert k (fst ` set m)"
  by (induction m) auto

lemma length_jm_set: "length (jm_set k v m) \<le> Suc (length m)"
  by (induction m) auto

lemma jm_ok_set: "jm_ok m \<Longrightarrow> jm_ok (jm_set k v m)"
  by (induction m) (auto simp: jm_ok_def fst_jm_set)

lemma jm_ok_filter: "jm_ok m \<Longrightarrow> jm_ok (filter P m)"
  by (induction m) (auto simp: jm_ok_def)

lemma jm_ok_jm_filter: "jm_ok m \<Longrightarrow> jm_ok (jm_filter P m)"
  by (simp add: jm_filter_def jm_ok_filter)

lemma jm_ok_Nil [simp]: "jm_ok []"
  by (simp add: jm_ok_def)

lemma jm_get_Nil [simp]: "jm_get [] k = None"
  by (simp add: jm_get_def)

lemma jm_get_mem: "jm_ok m \<Longrightarrow> jm_get m k = Some v \<longleftrightarrow> (k, v) \<in> set m"
  by (simp add: jm_get_def jm_ok_def)

lemma jm_get_filter:
  "jm_ok m \<Longrightarrow> jm_get (jm_filter P m) k =
     (case jm_get m k of None \<Rightarrow> None | Some v \<Rightarrow> if P v then Some v else None)"
proof (induction m)
  case Nil
  then show ?case by (simp add: jm_filter_def)
next
  case (Cons e m)
  obtain k' v' where e: "e = (k', v')" by (cases e)
  from Cons.prems have ok: "jm_ok m" and fresh: "k' \<notin> fst ` set m"
    by (auto simp: jm_ok_def e)
  have none: "map_of m k' = None"
    using fresh by (simp add: map_of_eq_None_iff)
  have none': "map_of (filter (\<lambda>e. P (snd e)) m) k' = None"
    using fresh by (auto simp: map_of_eq_None_iff)
  show ?case
    using Cons.IH [OF ok] none none'
    by (auto simp: jm_get_def jm_filter_def e split: option.splits)
qed

interpretation jm: keyed_map jm_get jm_set jm_delete length jm_ok
proof
  fix m :: "('k \<times> 'v) list" and k :: 'k and v :: 'v
  show "jm_get (jm_set k v m) = (jm_get m)(k \<mapsto> v)" by (rule jm_get_set)
  show "jm_get (jm_delete k m) = (jm_get m)(k := None)" by (rule jm_get_delete)
  show "jm_ok m \<Longrightarrow> jm_ok (jm_set k v m)" by (rule jm_ok_set)
  show "jm_ok m \<Longrightarrow> jm_ok (jm_delete k m)" by (simp add: jm_delete_def jm_ok_filter)
  show "finite (dom (jm_get m))" by (simp add: jm_get_def finite_dom_map_of)
  show "jm_ok m \<Longrightarrow> length m = card (dom (jm_get m))"
  proof -
    assume "jm_ok m"
    moreover have "dom (jm_get m) = fst ` set m"
      by (simp add: jm_get_def dom_map_of_conv_image_fst fun_eq_iff [symmetric])
    ultimately show ?thesis
      using distinct_card [of "map fst m"] by (simp add: jm_ok_def)
  qed
qed

lemmas jm_simps = jm_get_set jm_get_delete jm.ok_insert jm.ok_remove

lemma jm_delete_set: "jm_delete k (jm_set k v m) = jm_delete k m"
  by (induction m) (auto simp: jm_delete_def)

lemma jm_mem_set:
  "jm_ok m \<Longrightarrow> (k', v') \<in> set (jm_set k v m) \<longleftrightarrow>
     (k' = k \<and> v' = v) \<or> (k' \<noteq> k \<and> (k', v') \<in> set m)"
  by (auto simp: jm_get_mem [symmetric] jm_get_set jm.ok_insert)

lemma jm_mem_delete: "e \<in> set (jm_delete k m) \<longleftrightarrow> e \<in> set m \<and> fst e \<noteq> k"
  by (simp add: jm_delete_def)

lemma mset_jm_delete:
  "jm_ok l \<Longrightarrow> jm_get l i = Some e \<Longrightarrow> mset l = add_mset (i, e) (mset (jm_delete i l))"
proof (induction l)
  case (Cons x l)
  obtain j u where x: "x = (j, u)" by (cases x)
  have "filter (\<lambda>e. fst e \<noteq> j) l = l"
    using Cons.prems x by (auto simp: jm_ok_def filter_id_conv)
  then have "mset (filter (\<lambda>e. fst e \<noteq> j) l) = mset l" by simp
  with Cons x show ?case
    by (auto simp: jm_get_def jm_delete_def jm_ok_def simp del: mset_filter split: if_splits)
qed simp

lemma jm_delete_absent: "jm_get l i = None \<Longrightarrow> jm_delete i l = l"
  by (induction l) (auto simp: jm_get_def jm_delete_def split: if_splits)

lemma mset_jm_set: "jm_ok l \<Longrightarrow> mset (jm_set i e l) = add_mset (i, e) (mset (jm_delete i l))"
  using mset_jm_delete [of "jm_set i e l" i e]
  by (simp add: jm_ok_set jm_get_set jm_delete_set)

lemma jm_set_fresh: "jm_get m k = None \<Longrightarrow> jm_set k v m = m @ [(k, v)]"
  by (induction m) (auto simp: jm_get_def split: if_splits)

text \<open>Totals over the values of a map.\<close>

definition jm_total :: "('v \<Rightarrow> 'a :: comm_monoid_add) \<Rightarrow> ('k, 'v) jsmap \<Rightarrow> 'a" where
  "jm_total f m = sum_list (map (\<lambda>e. f (snd e)) m)"

lemma jm_total_Nil [simp]: "jm_total f [] = 0"
  by (simp add: jm_total_def)

lemma jm_total_delete:
  assumes "jm_ok m" and "jm_get m k = Some v"
  shows "jm_total f m = f v + jm_total f (jm_delete k m)"
proof -
  have "mset m = add_mset (k, v) (mset (jm_delete k m))" using assms by (rule mset_jm_delete)
  then show ?thesis
    unfolding jm_total_def by (metis (no_types, lifting) image_mset_add_mset mset_map snd_conv
        sum_mset.add_mset sum_mset_sum_list)
qed

lemma jm_total_fresh: "jm_get m k = None \<Longrightarrow> jm_total f (jm_set k v m) = jm_total f m + f v"
  by (simp add: jm_total_def jm_set_fresh)

subsection \<open>Counted loops that look for a first element\<close>

text \<open>\<open>for (let x = lo; x < hi; x++) if (p(x)) return x;\<close>\<close>

fun scan :: "(int \<Rightarrow> bool) \<Rightarrow> int \<Rightarrow> nat \<Rightarrow> int option" where
  "scan p lo 0 = None"
| "scan p lo (Suc n) = (if p lo then Some lo else scan p (lo + 1) n)"

definition first_from :: "(int \<Rightarrow> bool) \<Rightarrow> int \<Rightarrow> int \<Rightarrow> int option" where
  "first_from p lo hi = scan p lo (nat (hi - lo))"

lemma scan_Some:
  "scan p lo n = Some x \<Longrightarrow> lo \<le> x \<and> x < lo + int n \<and> p x \<and> (\<forall>y. lo \<le> y \<and> y < x \<longrightarrow> \<not> p y)"
proof (induction n arbitrary: lo)
  case (Suc n)
  show ?case
  proof (cases "p lo")
    case False
    with Suc.prems have "scan p (lo + 1) n = Some x" by simp
    from Suc.IH [OF this] have "lo + 1 \<le> x" "x < lo + 1 + int n" "p x"
      and below: "\<And>y. lo + 1 \<le> y \<Longrightarrow> y < x \<Longrightarrow> \<not> p y" by auto
    moreover have "\<not> p y" if "lo \<le> y" "y < x" for y
      using that below [of y] False by (cases "y = lo") auto
    ultimately show ?thesis by auto
  qed (use Suc.prems in auto)
qed simp

lemma scan_None: "scan p lo n = None \<longleftrightarrow> (\<forall>y. lo \<le> y \<and> y < lo + int n \<longrightarrow> \<not> p y)"
proof (induction n arbitrary: lo)
  case (Suc n)
  show ?case
  proof (cases "p lo")
    case False
    have "scan p lo (Suc n) = None \<longleftrightarrow> (\<forall>y. lo + 1 \<le> y \<and> y < lo + 1 + int n \<longrightarrow> \<not> p y)"
      using Suc.IH [of "lo + 1"] False by simp
    also have "\<dots> \<longleftrightarrow> (\<forall>y. lo \<le> y \<and> y < lo + int (Suc n) \<longrightarrow> \<not> p y)"
    proof (intro iffI allI impI)
      fix y
      assume "\<forall>y. lo + 1 \<le> y \<and> y < lo + 1 + int n \<longrightarrow> \<not> p y" and "lo \<le> y \<and> y < lo + int (Suc n)"
      then show "\<not> p y" using False by (cases "y = lo") auto
    qed auto
    finally show ?thesis .
  qed auto
qed auto

lemma first_from_Some:
  "first_from p lo hi = Some x \<Longrightarrow> lo \<le> x \<and> x < hi \<and> p x \<and> (\<forall>y. lo \<le> y \<and> y < x \<longrightarrow> \<not> p y)"
  unfolding first_from_def by (drule scan_Some) (auto split: if_splits)

lemma first_from_None: "first_from p lo hi = None \<longleftrightarrow> (\<forall>y. lo \<le> y \<and> y < hi \<longrightarrow> \<not> p y)"
  unfolding first_from_def scan_None by (cases "lo \<le> hi") auto

text \<open>
  The contract of an allocator that hands out the lowest free index of a range: the host's
  forward ports and the subnet slots both meet it.
\<close>

locale lowest_free =
  fixes used :: "'s \<Rightarrow> int \<Rightarrow> bool"
    and alloc :: "'s \<Rightarrow> 'e + 's \<times> 'a"
    and index_of :: "'a \<Rightarrow> int"
    and free :: "int \<Rightarrow> 's \<Rightarrow> 's"
    and valid :: "'s \<Rightarrow> int \<Rightarrow> bool"
    and ok :: "'s \<Rightarrow> bool"
  assumes alloc_Inr: "ok s \<Longrightarrow> alloc s = Inr (s', a) \<Longrightarrow>
      valid s (index_of a) \<and> \<not> used s (index_of a)
      \<and> (\<forall>m. valid s m \<and> m < index_of a \<longrightarrow> used s m)
      \<and> used s' = (used s)(index_of a := True) \<and> valid s' = valid s \<and> ok s'"
    and alloc_Inl: "ok s \<Longrightarrow> alloc s = Inl e \<Longrightarrow> (\<forall>m. valid s m \<longrightarrow> used s m)"
    and free_used: "ok s \<Longrightarrow> valid s n \<Longrightarrow>
      used (free n s) = (used s)(n := False) \<and> valid (free n s) = valid s \<and> ok (free n s)"
begin

lemma alloc_iff_free: "ok s \<Longrightarrow> is_ok (alloc s) \<longleftrightarrow> (\<exists>m. valid s m \<and> \<not> used s m)"
  by (cases "alloc s") (auto dest: alloc_Inr alloc_Inl)

lemma alloc_alloc_distinct:
  assumes "ok s" and "alloc s = Inr (s', a)" and "alloc s' = Inr (s'', b)"
  shows "index_of a \<noteq> index_of b"
  using alloc_Inr [OF assms(1,2)] alloc_Inr [OF _ assms(3)] by auto

lemma free_alloc_reuses:
  assumes "ok s" and "valid s n"
  shows "\<exists>s' a. alloc (free n s) = Inr (s', a) \<and> index_of a \<le> n"
proof -
  note f = free_used [OF assms]
  have "is_ok (alloc (free n s))"
    using f assms(2) alloc_iff_free [of "free n s"] by auto
  then obtain s' a where eq: "alloc (free n s) = Inr (s', a)"
    by (cases "alloc (free n s)") auto
  have "\<forall>m. valid s m \<and> m < index_of a \<longrightarrow> used (free n s) m"
    using alloc_Inr [OF _ eq] f by metis
  then have "\<not> n < index_of a"
    using f assms(2) by (metis fun_upd_same)
  with eq show ?thesis by auto
qed

lemma free_undoes_alloc:
  assumes "ok s" and "alloc s = Inr (s', a)"
  shows "used (free (index_of a) s') = used s"
  using alloc_Inr [OF assms] free_used [of s' "index_of a"] by (auto simp: fun_eq_iff)

end

subsection \<open>Bounded retry loops\<close>

text \<open>
  \<open>for (let attempt = 0; attempt < n; attempt++) { ... }\<close> whose body either leaves the loop with a
  result or goes on. A body that changes the state only when it leaves, apart from what others do meanwhile
  (\<open>foreign\<close>), makes a loop that does the same: that is the contract of every compare-and-swap loop.
\<close>

fun attempt_loop :: "(nat \<Rightarrow> 's \<Rightarrow> 's \<times> 'a option) \<Rightarrow> nat \<Rightarrow> nat \<Rightarrow> 's \<Rightarrow> 's \<times> 'a option" where
  "attempt_loop body k 0 s = (s, None)"
| "attempt_loop body k (Suc n) s =
     (let r = body k s
      in case snd r of Some a \<Rightarrow> (fst r, Some a) | None \<Rightarrow> attempt_loop body (Suc k) n (fst r))"

locale retry_loop =
  fixes body :: "nat \<Rightarrow> 's \<Rightarrow> 's \<times> 'a option"
    and foreign :: "'s \<Rightarrow> 's \<Rightarrow> bool"
    and own :: "'s \<Rightarrow> 'a \<Rightarrow> 's \<Rightarrow> bool"
  assumes foreign_refl: "foreign s s"
    and foreign_trans: "foreign s t \<Longrightarrow> foreign t u \<Longrightarrow> foreign s u"
    and body_None: "body k s = (s', None) \<Longrightarrow> foreign s s'"
    and body_Some: "body k s = (s', Some a) \<Longrightarrow> \<exists>t. foreign s t \<and> own t a s'"
begin

lemma loop_Some: "attempt_loop body k n s = (s', Some a) \<Longrightarrow> \<exists>t. foreign s t \<and> own t a s'"
proof (induction n arbitrary: k s)
  case (Suc n)
  obtain t x where b: "body k s = (t, x)" by (cases "body k s")
  show ?case
  proof (cases x)
    case None
    with Suc b obtain u where "foreign t u" "own u a s'" by (fastforce simp: Let_def)
    moreover have "foreign s t" using b None body_None by simp
    ultimately show ?thesis using foreign_trans by blast
  next
    case (Some a')
    with Suc.prems b body_Some [of k s t a'] show ?thesis by (auto simp: Let_def)
  qed
qed simp

lemma loop_None: "attempt_loop body k n s = (s', None) \<Longrightarrow> foreign s s'"
proof (induction n arbitrary: k s)
  case (Suc n)
  obtain t x where b: "body k s = (t, x)" by (cases "body k s")
  with Suc.prems have x: "x = None" by (cases x) (auto simp: Let_def)
  with Suc b have "foreign t s'" by (auto simp: Let_def)
  moreover have "foreign s t" using b x body_None by simp
  ultimately show ?case using foreign_trans by blast
qed (simp add: foreign_refl)

lemma loop_first:
  "body k s = (s', Some a) \<Longrightarrow> attempt_loop body k (Suc n) s = (s', Some a)"
  by (simp add: Let_def)

end

subsection \<open>State machines\<close>

inductive reachable :: "('s \<Rightarrow> bool) \<Rightarrow> ('s \<Rightarrow> 'l \<Rightarrow> 's \<Rightarrow> bool) \<Rightarrow> 's \<Rightarrow> bool"
  for init :: "'s \<Rightarrow> bool" and step :: "'s \<Rightarrow> 'l \<Rightarrow> 's \<Rightarrow> bool" where
  reach_init: "init s \<Longrightarrow> reachable init step s"
| reach_step: "reachable init step s \<Longrightarrow> step s l t \<Longrightarrow> reachable init step t"

locale step_system =
  fixes init :: "'s \<Rightarrow> bool"
    and step :: "'s \<Rightarrow> 'l \<Rightarrow> 's \<Rightarrow> bool"
    and inv :: "'s \<Rightarrow> bool"
  assumes inv_init: "init s \<Longrightarrow> inv s"
    and inv_step: "inv s \<Longrightarrow> step s l t \<Longrightarrow> inv t"
begin

lemma reachable_inv: "reachable init step s \<Longrightarrow> inv s"
  by (induction rule: reachable.induct) (auto intro: inv_init inv_step)

end

end
