(* ===== verification/Js_Text.thy ===== *)
theory Js_Text
  imports Prelude "HOL-Library.Word"
begin

text \<open>
  Strings and bytes as the sources use them: character classes of their regular expressions,
  \<open>toString\<close> in a radix, \<open>padStart\<close>, \<open>split\<close>, \<open>join\<close>, \<open>startsWith\<close>, \<open>indexOf\<close>,
  \<open>toLowerCase\<close>, and \<open>TextEncoder\<close>.

  A \<open>string\<close> (a list of \<open>char\<close>) stands for a JavaScript string all of whose UTF-16 code units are
  below 256, one character for one unit; every function here is exact on those. Where the source
  promises something about every string (the nft table names), the model takes the full type
  \<open>utf16\<close>, a list of 16-bit code units, and \<open>utf8_encode\<close> is \<open>TextEncoder.encode\<close> on it, a lone
  surrogate becoming the replacement character U+FFFD.
\<close>

type_synonym byte = "8 word"
type_synonym bytes = "byte list"
type_synonym utf16 = "nat list"

subsection \<open>Character classes\<close>

definition code :: "char \<Rightarrow> nat" where
  "code c = of_char c"

definition is_digit :: "char \<Rightarrow> bool" where
  "is_digit c = (48 \<le> code c \<and> code c \<le> 57)"

definition is_lower :: "char \<Rightarrow> bool" where
  "is_lower c = (97 \<le> code c \<and> code c \<le> 122)"

definition is_upper :: "char \<Rightarrow> bool" where
  "is_upper c = (65 \<le> code c \<and> code c \<le> 90)"

definition is_alnum :: "char \<Rightarrow> bool" where
  "is_alnum c = (is_digit c \<or> is_lower c \<or> is_upper c)"

definition is_hex_lower :: "char \<Rightarrow> bool" where
  "is_hex_lower c = (is_digit c \<or> (97 \<le> code c \<and> code c \<le> 102))"

text \<open>
  \<open>toLowerCase\<close> on the code units below 256: ASCII letters, and the Latin-1 capitals
  U+00C0..U+00DE without the multiplication sign U+00D7.
\<close>

definition lower_char :: "char \<Rightarrow> char" where
  "lower_char c =
     (if is_upper c \<or> (192 \<le> code c \<and> code c \<le> 222 \<and> code c \<noteq> 215)
      then char_of (code c + 32) else c)"

definition toLowerCase :: "string \<Rightarrow> string" where
  "toLowerCase s = map lower_char s"

subsection \<open>Numbers as text\<close>

definition digit_char :: "nat \<Rightarrow> char" where
  "digit_char d = char_of (if d < 10 then 48 + d else 87 + d)"

fun to_radix :: "nat \<Rightarrow> nat \<Rightarrow> string" where
  "to_radix b n =
     (if b < 2 \<or> n < b then [digit_char n] else to_radix b (n div b) @ [digit_char (n mod b)])"

declare to_radix.simps [simp del]

definition padStart :: "nat \<Rightarrow> char \<Rightarrow> string \<Rightarrow> string" where
  "padStart w c s = replicate (w - length s) c @ s"

definition dec :: "nat \<Rightarrow> string" where
  "dec n = to_radix 10 n"

text \<open>\<open>n.toString(16).padStart(2, "0")\<close>\<close>

definition hex2 :: "nat \<Rightarrow> string" where
  "hex2 n = padStart 2 (CHR ''0'') (to_radix 16 n)"

text \<open>\<open>Number(s)\<close> on a string of decimal digits.\<close>

definition parse_dec :: "string \<Rightarrow> nat" where
  "parse_dec s = foldl (\<lambda>a c. 10 * a + (code c - 48)) 0 s"

definition toHex :: "bytes \<Rightarrow> string" where
  "toHex bs = concat (map (\<lambda>b. hex2 (unat b)) bs)"

lemma code_inject [simp]: "code c = code d \<longleftrightarrow> c = d"
  by (simp add: code_def)

lemma code_less [simp]: "code c < 256"
  by (simp add: code_def)

lemma code_char_of: "n < 256 \<Longrightarrow> code (char_of n) = n"
  by (simp add: code_def)

lemma char_of_code [simp]: "char_of (code c) = c"
  by (simp add: code_def)

lemma code_digit_char: "d < 36 \<Longrightarrow> code (digit_char d) = (if d < 10 then 48 + d else 87 + d)"
  by (simp add: digit_char_def code_char_of)

lemma digit_char_inject: "d < 36 \<Longrightarrow> e < 36 \<Longrightarrow> digit_char d = digit_char e \<longleftrightarrow> d = e"
  using code_inject [of "digit_char d" "digit_char e"]
  by (auto simp: code_digit_char split: if_splits)

lemma digit_char_0: "digit_char 0 = CHR ''0''"
  using char_of_code [of "CHR ''0''"] by (simp add: digit_char_def code_def)

lemma hex2_two: "n < 256 \<Longrightarrow> hex2 n = [digit_char (n div 16), digit_char (n mod 16)]"
proof -
  assume n: "n < 256"
  show ?thesis
  proof (cases "n < 16")
    case True
    then show ?thesis
      by (simp add: hex2_def padStart_def to_radix.simps [of 16 n] digit_char_0)
  next
    case False
    with n have "n div 16 < 16" by simp
    with False show ?thesis
      by (simp add: hex2_def padStart_def to_radix.simps [of 16 n]
          to_radix.simps [of 16 "n div 16"])
  qed
qed

lemma hex2_inject: "m < 256 \<Longrightarrow> n < 256 \<Longrightarrow> hex2 m = hex2 n \<longleftrightarrow> m = n"
proof
  assume m: "m < 256" and n: "n < 256" and "hex2 m = hex2 n"
  then have "m div 16 = n div 16" and "m mod 16 = n mod 16"
    by (auto simp: hex2_two digit_char_inject)
  then show "m = n" by (metis div_mult_mod_eq)
qed simp

lemma length_hex2 [simp]: "n < 256 \<Longrightarrow> length (hex2 n) = 2"
  by (simp add: hex2_two)

lemma unat_byte [simp]: "unat (z :: byte) < 256"
  using unsigned_less [of z] by simp

lemma toHex_inject: "toHex xs = toHex ys \<Longrightarrow> xs = ys"
proof (induction xs arbitrary: ys)
  case Nil
  then show ?case
    by (cases ys) (auto simp: toHex_def hex2_two)
next
  case (Cons x xs)
  obtain y ys' where ys: "ys = y # ys'"
    using Cons.prems by (cases ys) (auto simp: toHex_def hex2_two)
  have "hex2 (unat x) @ toHex xs = hex2 (unat y) @ toHex ys'"
    using Cons.prems by (simp add: toHex_def ys)
  then have "hex2 (unat x) = hex2 (unat y)" and "toHex xs = toHex ys'"
    by (simp_all add: append_eq_append_conv)
  then have "x = y" and "xs = ys'"
    using Cons.IH by (auto simp: hex2_inject word_unat_eq_iff)
  then show ?case by (simp add: ys)
qed

lemma toHex_eq_iff [simp]: "toHex xs = toHex ys \<longleftrightarrow> xs = ys"
  by (auto dest: toHex_inject)

lemma parse_dec_snoc: "parse_dec (s @ [c]) = 10 * parse_dec s + (code c - 48)"
  by (simp add: parse_dec_def)

lemma parse_dec_Nil [simp]: "parse_dec [] = 0"
  by (simp add: parse_dec_def)

lemma parse_dec_dec: "parse_dec (dec n) = n"
proof (induction n rule: less_induct)
  case (less n)
  show ?case
  proof (cases "n < 10")
    case True
    then show ?thesis
      using parse_dec_snoc [of "[]" "digit_char n"]
      by (simp add: dec_def to_radix.simps [of 10 n] code_digit_char)
  next
    case False
    then have "dec n = dec (n div 10) @ [digit_char (n mod 10)]"
      by (simp add: dec_def to_radix.simps [of 10 n])
    with less.IH [of "n div 10"] False show ?thesis
      by (simp add: parse_dec_snoc code_digit_char)
  qed
qed

lemma dec_inject [simp]: "dec m = dec n \<longleftrightarrow> m = n"
  by (metis parse_dec_dec)

lemma dec_digits: "c \<in> set (dec n) \<Longrightarrow> is_digit c"
proof (induction n rule: less_induct)
  case (less n)
  show ?case
  proof (cases "n < 10")
    case True
    with less.prems show ?thesis
      by (simp add: dec_def to_radix.simps [of 10 n] is_digit_def code_digit_char)
  next
    case False
    then have "dec n = dec (n div 10) @ [digit_char (n mod 10)]"
      by (simp add: dec_def to_radix.simps [of 10 n])
    moreover have "is_digit (digit_char (n mod 10))"
      by (simp add: is_digit_def code_digit_char)
    moreover have "n div 10 < n" using False by simp
    ultimately show ?thesis
      using less.IH [of "n div 10"] less.prems by auto
  qed
qed

lemma dec_nonempty [simp]: "dec n \<noteq> []"
  by (simp add: dec_def to_radix.simps [of 10 n])

subsection \<open>Searching and splitting\<close>

definition startsWith :: "string \<Rightarrow> string \<Rightarrow> bool" where
  "startsWith s pre = (take (length pre) s = pre)"

definition endsWith :: "string \<Rightarrow> string \<Rightarrow> bool" where
  "endsWith s suf = (length suf \<le> length s \<and> drop (length s - length suf) s = suf)"

text \<open>\<open>indexOf\<close> and \<open>lastIndexOf\<close> of a substring; \<open>None\<close> for \<open>-1\<close>.\<close>

fun indexOf :: "string \<Rightarrow> string \<Rightarrow> nat option" where
  "indexOf [] pat = (if pat = [] then Some 0 else None)"
| "indexOf (c # s) pat =
     (if startsWith (c # s) pat then Some 0 else map_option Suc (indexOf s pat))"

fun lastIndexOf :: "string \<Rightarrow> string \<Rightarrow> nat option" where
  "lastIndexOf [] pat = (if pat = [] then Some 0 else None)"
| "lastIndexOf (c # s) pat =
     (case lastIndexOf s pat of
        Some i \<Rightarrow> Some (Suc i)
      | None \<Rightarrow> if startsWith (c # s) pat then Some 0 else None)"

text \<open>\<open>s.split(sep)\<close> with a separator of one character.\<close>

fun split_on :: "char \<Rightarrow> string \<Rightarrow> string list" where
  "split_on sep [] = [[]]"
| "split_on sep (c # s) =
     (if c = sep then [] # split_on sep s
      else (case split_on sep s of [] \<Rightarrow> [[c]] | w # ws \<Rightarrow> (c # w) # ws))"

fun join :: "string \<Rightarrow> string list \<Rightarrow> string" where
  "join sep [] = []"
| "join sep [w] = w"
| "join sep (w # v # ws) = w @ sep @ join sep (v # ws)"

lemma split_on_nonempty [simp]: "split_on sep s \<noteq> []"
  by (cases s) (auto split: list.splits)

lemma join_Cons_Cons: "join sep ((c # w) # ws) = c # join sep (w # ws)"
  by (cases ws) auto

lemma join_Nil_Cons: "ws \<noteq> [] \<Longrightarrow> join sep ([] # ws) = sep @ join sep ws"
  by (cases ws) auto

lemma join_split_on: "join [sep] (split_on sep s) = s"
proof (induction s)
  case (Cons c s)
  then show ?case
    by (cases "split_on sep s") (auto simp: join_Cons_Cons join_Nil_Cons)
qed simp

lemma split_on_no_sep: "w \<in> set (split_on sep s) \<Longrightarrow> sep \<notin> set w"
  by (induction s arbitrary: w) (auto split: if_splits list.splits)

lemma split_on_fresh: "sep \<notin> set s \<Longrightarrow> split_on sep s = [s]"
  by (induction s) auto

lemma split_on_append:
  "sep \<notin> set w \<Longrightarrow> split_on sep (w @ sep # s) = w # split_on sep s"
  by (induction w) auto

subsection \<open>The order of strings\<close>

text \<open>\<open><\<close> and the default \<open>sort\<close> compare the code units.\<close>

fun units_le :: "utf16 \<Rightarrow> utf16 \<Rightarrow> bool" where
  "units_le [] v = True"
| "units_le (x # u) [] = False"
| "units_le (x # u) (y # v) = (x < y \<or> x = y \<and> units_le u v)"

definition text_le :: "string \<Rightarrow> string \<Rightarrow> bool" where
  "text_le a b = units_le (map code a) (map code b)"

end
