(* ===== verification/Utf8.thy ===== *)
theory Utf8
  imports Js_Text
begin

text \<open>
  \<open>TextEncoder.encode\<close>: UTF-16 code units to UTF-8 bytes. A surrogate pair is one code point; a
  lone surrogate is encoded as U+FFFD, so the encoding is injective exactly on the well-formed
  strings. \<open>latin1\<close> embeds the development's \<open>string\<close>s.
\<close>

definition is_high :: "nat \<Rightarrow> bool" where
  "is_high u = (55296 \<le> u \<and> u \<le> 56319)"

definition is_low :: "nat \<Rightarrow> bool" where
  "is_low u = (56320 \<le> u \<and> u \<le> 57343)"

definition utf8_cp :: "nat \<Rightarrow> nat list" where
  "utf8_cp c =
     (if c < 128 then [c]
      else if c < 2048 then [192 + c div 64, 128 + c mod 64]
      else if c < 65536 then [224 + c div 4096, 128 + (c div 64) mod 64, 128 + c mod 64]
      else [240 + c div 262144, 128 + (c div 4096) mod 64, 128 + (c div 64) mod 64,
            128 + c mod 64])"

fun code_points :: "utf16 \<Rightarrow> nat list" where
  "code_points [] = []"
| "code_points [u] = [if is_high u \<or> is_low u then 65533 else u]"
| "code_points (u # v # us) =
     (if is_high u \<and> is_low v then (65536 + (u - 55296) * 1024 + (v - 56320)) # code_points us
      else (if is_high u \<or> is_low u then 65533 else u) # code_points (v # us))"

definition utf8_encode :: "utf16 \<Rightarrow> nat list" where
  "utf8_encode us = concat (map utf8_cp (code_points us))"

fun well_formed :: "utf16 \<Rightarrow> bool" where
  "well_formed [] = True"
| "well_formed [u] = (u < 65536 \<and> \<not> is_high u \<and> \<not> is_low u)"
| "well_formed (u # v # us) =
     (if is_high u then is_low v \<and> well_formed us
      else u < 65536 \<and> \<not> is_low u \<and> well_formed (v # us))"

definition latin1 :: "string \<Rightarrow> utf16" where
  "latin1 s = map code s"

lemma div_mod_eqI: "(a::nat) div n = b div n \<Longrightarrow> a mod n = b mod n \<Longrightarrow> a = b"
  by (metis div_mult_mod_eq)

lemma utf8_cp_prefix:
  assumes "utf8_cp c @ xs = utf8_cp d @ ys" and "c < 1114112" and "d < 1114112"
  shows "c = d \<and> xs = ys"
proof -
  have four: "x = y" if "x div 262144 = y div 262144" "x div 4096 mod 64 = y div 4096 mod 64"
    "x div 64 mod 64 = y div 64 mod 64" "x mod 64 = y mod 64" for x y :: nat
  proof -
    have "x div 64 div 64 div 64 = y div 64 div 64 div 64" and
      "x div 64 div 64 mod 64 = y div 64 div 64 mod 64"
      using that by (simp_all add: div_mult2_eq [symmetric])
    then have "x div 64 div 64 = y div 64 div 64" by (rule div_mod_eqI)
    then have "x div 64 = y div 64" using that(3) by (rule div_mod_eqI)
    then show ?thesis using that(4) by (rule div_mod_eqI)
  qed
  have three: "x = y" if "x div 4096 = y div 4096"
    "x div 64 mod 64 = y div 64 mod 64" "x mod 64 = y mod 64" for x y :: nat
  proof -
    have "x div 64 div 64 = y div 64 div 64"
      using that by (simp add: div_mult2_eq [symmetric])
    then have "x div 64 = y div 64" using that(2) by (rule div_mod_eqI)
    then show ?thesis using that(3) by (rule div_mod_eqI)
  qed
  have lead: "c div 262144 < 8" "d div 262144 < 8"
    using assms(2,3) by auto
  have lead3: "c < 65536 \<Longrightarrow> c div 4096 < 16" "d < 65536 \<Longrightarrow> d div 4096 < 16" by auto
  have lead2: "c < 2048 \<Longrightarrow> c div 64 < 32" "d < 2048 \<Longrightarrow> d div 64 < 32" by auto
  show ?thesis
    using assms(1) lead lead2 lead3
    by (auto simp: utf8_cp_def split: if_splits intro: three four div_mod_eqI [of c 64 d])
qed

lemma utf8_cp_nonempty [simp]: "utf8_cp c \<noteq> []"
  by (simp add: utf8_cp_def)

lemma utf8_cps_inject:
  "concat (map utf8_cp cs) = concat (map utf8_cp ds) \<Longrightarrow>
   (\<forall>c \<in> set cs. c < 1114112) \<Longrightarrow> (\<forall>d \<in> set ds. d < 1114112) \<Longrightarrow> cs = ds"
proof (induction cs arbitrary: ds)
  case Nil
  then show ?case by (cases ds) auto
next
  case (Cons c cs)
  then obtain d ds' where ds: "ds = d # ds'"
    by (cases ds) auto
  have eq: "utf8_cp c @ concat (map utf8_cp cs) = utf8_cp d @ concat (map utf8_cp ds')"
    using Cons.prems(1) by (simp add: ds)
  have "c = d \<and> concat (map utf8_cp cs) = concat (map utf8_cp ds')"
    using utf8_cp_prefix [OF eq] Cons.prems(2,3) by (simp add: ds)
  with Cons show ?case by (simp add: ds)
qed

lemma code_points_range: "well_formed us \<Longrightarrow> c \<in> set (code_points us) \<Longrightarrow> c < 1114112"
  by (induction us rule: code_points.induct)
    (auto simp: is_high_def is_low_def split: if_splits)

text \<open>A pair decodes back to itself.\<close>

fun units_of_cp :: "nat \<Rightarrow> nat list" where
  "units_of_cp c =
     (if c < 65536 then [c] else [55296 + (c - 65536) div 1024, 56320 + (c - 65536) mod 1024])"

lemma units_of_code_points: "well_formed us \<Longrightarrow> concat (map units_of_cp (code_points us)) = us"
proof (induction us rule: code_points.induct)
  case (3 u v us)
  show ?case
  proof (cases "is_high u")
    case True
    with "3.prems" have v: "is_low v" "well_formed us" by simp_all
    let ?x = "(u - 55296) * 1024 + (v - 56320)"
    have "v - 56320 < 1024" using v by (auto simp: is_low_def)
    then have "?x div 1024 = u - 55296" "?x mod 1024 = v - 56320" by simp_all
    moreover have "units_of_cp (65536 + ?x) = [55296 + ?x div 1024, 56320 + ?x mod 1024]"
      by simp
    moreover have "55296 \<le> u" "56320 \<le> v"
      using True v by (simp_all add: is_high_def is_low_def)
    ultimately have "units_of_cp (65536 + ?x) = [u, v]" by simp
    moreover have "code_points (u # v # us) = (65536 + ?x) # code_points us"
      using True v by (simp add: add.assoc)
    ultimately show ?thesis
      using True v "3.IH"(1) by (simp del: units_of_cp.simps code_points.simps)
  next
    case False
    with "3.prems" have "\<not> is_low u" "u < 65536" "well_formed (v # us)" by simp_all
    with False "3.IH"(2) show ?thesis by auto
  qed
qed auto

lemma utf8_encode_inject:
  assumes "well_formed us" and "well_formed vs" and "utf8_encode us = utf8_encode vs"
  shows "us = vs"
proof -
  have "code_points us = code_points vs"
  proof (rule utf8_cps_inject)
    show "concat (map utf8_cp (code_points us)) = concat (map utf8_cp (code_points vs))"
      using assms(3) by (simp add: utf8_encode_def)
  qed (use assms(1,2) code_points_range in blast)+
  then show ?thesis
    using units_of_code_points [OF assms(1)] units_of_code_points [OF assms(2)] by metis
qed

lemma utf8_cp_byte: "c < 1114112 \<Longrightarrow> b \<in> set (utf8_cp c) \<Longrightarrow> b < 256"
proof -
  have "c mod 64 < 64" "c div 64 mod 64 < 64" "c div 4096 mod 64 < 64" by simp_all
  then show "c < 1114112 \<Longrightarrow> b \<in> set (utf8_cp c) \<Longrightarrow> b < 256"
    by (auto simp: utf8_cp_def split: if_splits)
qed

lemma latin1_code_points: "code_points (latin1 s) = latin1 s"
proof (induction s rule: induct_list012)
  case (3 c d s)
  have "\<not> is_high (code x)" "\<not> is_low (code x)" for x
    using code_less [of x] by (auto simp: is_high_def is_low_def simp del: code_less)
  with "3.IH" show ?case by (simp add: latin1_def)
next
  case (2 c)
  have "\<not> is_high (code c)" "\<not> is_low (code c)"
    using code_less [of c] by (auto simp: is_high_def is_low_def simp del: code_less)
  then show ?case by (simp add: latin1_def)
qed (simp add: latin1_def)

lemma latin1_well_formed: "well_formed (latin1 s)"
proof (induction s rule: induct_list012)
  case (3 c d s)
  have "\<not> is_high (code x)" "\<not> is_low (code x)" "code x < 65536" for x
    using code_less [of x] by (auto simp: is_high_def is_low_def simp del: code_less)
  with "3.IH" show ?case by (simp add: latin1_def)
next
  case (2 c)
  have "\<not> is_high (code c)" "\<not> is_low (code c)" "code c < 65536"
    using code_less [of c] by (auto simp: is_high_def is_low_def simp del: code_less)
  then show ?case by (simp add: latin1_def)
qed (simp add: latin1_def)

lemma latin1_inject: "latin1 s = latin1 t \<longleftrightarrow> s = t"
proof
  assume "latin1 s = latin1 t"
  then have "map char_of (latin1 s) = (map char_of (latin1 t) :: string)" by simp
  then show "s = t" by (simp add: latin1_def o_def)
qed simp

subsection \<open>Byte length of the development's strings\<close>

text \<open>\<open>new TextEncoder().encode(s).byteLength\<close>: one byte below U+0080, two up to U+00FF.\<close>

definition byteLength :: "string \<Rightarrow> nat" where
  "byteLength s = length (utf8_encode (latin1 s))"

lemma byteLength_Nil [simp]: "byteLength [] = 0"
  by (simp add: byteLength_def utf8_encode_def latin1_def)

lemma byteLength_Cons: "byteLength (c # s) = (if code c < 128 then 1 else 2) + byteLength s"
proof -
  have "code c < 2048" using code_less [of c] by (simp del: code_less)
  then have "length (utf8_cp (code c)) = (if code c < 128 then 1 else 2)"
    by (simp add: utf8_cp_def)
  then show ?thesis
    using latin1_code_points [of "c # s"] latin1_code_points [of s]
    by (simp add: byteLength_def utf8_encode_def latin1_def)
qed

lemma byteLength_append [simp]: "byteLength (s @ t) = byteLength s + byteLength t"
  by (induction s) (auto simp: byteLength_Cons)

lemma byteLength_bounds: "length s \<le> byteLength s \<and> byteLength s \<le> 2 * length s"
  by (induction s) (auto simp: byteLength_Cons)

end
