(* ===== verification/Tickets.thy ===== *)
theory Tickets
  imports Js_Text
begin

text \<open>
  \<^verbatim>\<open>src/security/tickets.ts\<close> (the single-use tunnel ticket store of hostd) and
  \<^verbatim>\<open>src/hostd/tunnel_authorizer.ts\<close> (which burns a ticket before rootd is contacted).

  The store is a record of its two limits and its \<open>Map\<close> from verifier to stored ticket. A clock
  reading is an argument of the operation that reads it. SHA-256 (\<open>crypto.subtle.digest\<close>) is the
  parameter \<open>digest\<close>, and the random draws of \<open>crypto.getRandomValues\<close> are the parameter \<open>draw\<close>,
  indexed by the attempt. An operation that can throw after it changed the store returns the new
  store beside its result.

  \<open>issue\<close> awaits the digest between its capacity check and its insertion, so it is given twice: as
  one atomic operation (\<open>issue\<close>) and as the two halves between which other calls may run
  (\<open>issue_admit\<close>, \<open>issue_loop\<close>).
\<close>

definition TUNNEL_TICKET_BYTES :: nat where
  "TUNNEL_TICKET_BYTES = 32"

definition DEFAULT_TUNNEL_TICKET_TTL_MS :: int where
  "DEFAULT_TUNNEL_TICKET_TTL_MS = 15000"

record tunnel_binding =
  tb_sessionId :: string
  tb_sandboxId :: string
  tb_bootNonce :: string
  tb_leaseGeneration :: js_number

record stored_ticket =
  tk_binding :: tunnel_binding
  tk_expiresAt :: int

record ticket_store =
  ts_ttlMs :: int
  ts_maxOutstanding :: int
  ts_tickets :: "(string, stored_ticket) jsmap"

datatype ticket_error =
    TicketRejectedError
  | TicketCapacityError int
  | InvalidBindingError
  | UniqueTicketError
  | TicketRangeError
  | TicketAborted
  | BridgeRequestError

definition new_ticket_store :: "js_number option \<Rightarrow> js_number option \<Rightarrow> ticket_error + ticket_store" where
  "new_ticket_store ttlMs maxOutstanding =
     (let ttl = orElse ttlMs (NumInt DEFAULT_TUNNEL_TICKET_TTL_MS);
          cap = orElse maxOutstanding (NumInt 4096)
      in if \<not> isSafeInteger ttl \<or> int_of ttl \<le> 0 then Inl TicketRangeError
         else if \<not> isSafeInteger cap \<or> int_of cap \<le> 0 then Inl TicketRangeError
         else Inr \<lparr>ts_ttlMs = int_of ttl, ts_maxOutstanding = int_of cap, ts_tickets = []\<rparr>)"

definition ticket_count :: "ticket_store \<Rightarrow> nat" where
  "ticket_count st = length (ts_tickets st)"

definition assertBinding :: "tunnel_binding \<Rightarrow> ticket_error + unit" where
  "assertBinding b = requireE
     (\<not> (tb_sessionId b = [] \<or> tb_sandboxId b = [] \<or> tb_bootNonce b = []
         \<or> \<not> isSafeInteger (tb_leaseGeneration b) \<or> int_of (tb_leaseGeneration b) < 0))
     InvalidBindingError"

definition sameBinding :: "tunnel_binding \<Rightarrow> tunnel_binding \<Rightarrow> bool" where
  "sameBinding l r =
     (tb_sessionId l = tb_sessionId r \<and> tb_sandboxId l = tb_sandboxId r
      \<and> tb_bootNonce l = tb_bootNonce r \<and> tb_leaseGeneration l = tb_leaseGeneration r)"

definition ticketVerifier :: "(bytes \<Rightarrow> bytes) \<Rightarrow> bytes \<Rightarrow> string" where
  "ticketVerifier digest ticket = toHex (digest ticket)"

text \<open>\<open>#revoke\<close>: delete every ticket the predicate holds of, and count them.\<close>

definition revoke_tickets :: "(stored_ticket \<Rightarrow> bool) \<Rightarrow> ticket_store \<Rightarrow> ticket_store \<times> nat" where
  "revoke_tickets P st =
     (st\<lparr>ts_tickets := jm_filter (\<lambda>t. \<not> P t) (ts_tickets st)\<rparr>,
      length (jm_filter P (ts_tickets st)))"

definition revokeSandbox :: "string \<Rightarrow> ticket_store \<Rightarrow> ticket_store \<times> nat" where
  "revokeSandbox sandboxId st =
     revoke_tickets (\<lambda>t. tb_sandboxId (tk_binding t) = sandboxId) st"

definition revokeSession :: "string \<Rightarrow> ticket_store \<Rightarrow> ticket_store \<times> nat" where
  "revokeSession sessionId st =
     revoke_tickets (\<lambda>t. tb_sessionId (tk_binding t) = sessionId) st"

definition sweepExpired :: "int \<Rightarrow> ticket_store \<Rightarrow> ticket_store \<times> nat" where
  "sweepExpired now st = revoke_tickets (\<lambda>t. tk_expiresAt t < now) st"

definition issue_admit :: "ticket_store \<Rightarrow> tunnel_binding \<Rightarrow> int \<Rightarrow> ticket_store \<times> (ticket_error + unit)" where
  "issue_admit st b now =
     (case assertBinding b of
        Inl e \<Rightarrow> (st, Inl e)
      | Inr _ \<Rightarrow>
          (let st1 = fst (sweepExpired now st)
           in (st1, requireE (\<not> ts_maxOutstanding st1 \<le> int (ticket_count st1))
                 (TicketCapacityError (ts_maxOutstanding st1)))))"

fun issue_loop :: "(bytes \<Rightarrow> bytes) \<Rightarrow> (nat \<Rightarrow> bytes) \<Rightarrow> ticket_store \<Rightarrow> tunnel_binding \<Rightarrow> int
    \<Rightarrow> nat \<Rightarrow> nat \<Rightarrow> ticket_store \<times> (ticket_error + bytes \<times> int)" where
  "issue_loop digest draw st b now attempt 0 = (st, Inl UniqueTicketError)"
| "issue_loop digest draw st b now attempt (Suc left) =
     (let ticket = draw attempt;
          verifier = ticketVerifier digest ticket
      in if jm_has (ts_tickets st) verifier then issue_loop digest draw st b now (Suc attempt) left
         else (let expiresAt = now + ts_ttlMs st
               in (st\<lparr>ts_tickets := jm_set verifier \<lparr>tk_binding = b, tk_expiresAt = expiresAt\<rparr>
                        (ts_tickets st)\<rparr>,
                   Inr (ticket, expiresAt))))"

definition issue :: "(bytes \<Rightarrow> bytes) \<Rightarrow> (nat \<Rightarrow> bytes) \<Rightarrow> ticket_store \<Rightarrow> tunnel_binding \<Rightarrow> int \<Rightarrow> int
    \<Rightarrow> ticket_store \<times> (ticket_error + bytes \<times> int)" where
  "issue digest draw st b now_sweep now_issue =
     (case issue_admit st b now_sweep of
        (st1, Inl e) \<Rightarrow> (st1, Inl e)
      | (st1, Inr _) \<Rightarrow> issue_loop digest draw st1 b now_issue 0 4)"

definition consume :: "(bytes \<Rightarrow> bytes) \<Rightarrow> ticket_store \<Rightarrow> bytes \<Rightarrow> tunnel_binding \<Rightarrow> int
    \<Rightarrow> ticket_store \<times> (ticket_error + unit)" where
  "consume digest st ticket b now =
     (case assertBinding b of
        Inl e \<Rightarrow> (st, Inl e)
      | Inr _ \<Rightarrow>
          if length ticket \<noteq> TUNNEL_TICKET_BYTES then (st, Inl TicketRejectedError)
          else
            (let verifier = ticketVerifier digest ticket;
                 stored = jm_get (ts_tickets st) verifier;
                 matchesEndpoint = (case stored of None \<Rightarrow> False | Some t \<Rightarrow> sameBinding (tk_binding t) b);
                 st1 = (if matchesEndpoint
                        then st\<lparr>ts_tickets := jm_delete verifier (ts_tickets st)\<rparr> else st)
             in (st1, case stored of
                        None \<Rightarrow> Inl TicketRejectedError
                      | Some t \<Rightarrow> requireE (\<not> (tk_expiresAt t < now \<or> \<not> matchesEndpoint))
                                   TicketRejectedError)))"

subsection \<open>The tunnel authorizer\<close>

record bridge_request =
  br_sandboxId :: string
  br_executionId :: string
  br_guestPort :: js_number

definition assertBridgeRequest :: "bridge_request \<Rightarrow> ticket_error + unit" where
  "assertBridgeRequest r =
     (if br_executionId r = [] \<or> length (br_executionId r) > 64 then Inl BridgeRequestError
      else requireE (\<not> (\<not> isSafeInteger (br_guestPort r) \<or> int_of (br_guestPort r) < 1
                         \<or> int_of (br_guestPort r) > 65535)) BridgeRequestError)"

text \<open>
  \<open>authorizeAndOpen\<close>: the result \<open>Inr r\<close> is the call \<open>openBridge(r)\<close> on the privileged factory.
  \<open>aborted\<close> is the caller's signal when it is read, after the ticket was consumed.
\<close>

definition authorizeAndOpen :: "(bytes \<Rightarrow> bytes) \<Rightarrow> ticket_store \<Rightarrow> bytes \<Rightarrow> tunnel_binding
    \<Rightarrow> bridge_request \<Rightarrow> bool \<Rightarrow> int \<Rightarrow> ticket_store \<times> (ticket_error + bridge_request)" where
  "authorizeAndOpen digest st ticket b r aborted now =
     (case consume digest st ticket b now of
        (st1, Inl e) \<Rightarrow> (st1, Inl e)
      | (st1, Inr _) \<Rightarrow>
          (st1, if aborted then Inl TicketAborted
                else if br_sandboxId r \<noteq> tb_sandboxId b then Inl TicketRejectedError
                else bindE (assertBridgeRequest r) (\<lambda>_. Inr r)))"

subsection \<open>Invariant and behaviour\<close>

definition tickets_ok :: "ticket_store \<Rightarrow> bool" where
  "tickets_ok st = (jm_ok (ts_tickets st) \<and> 0 < ts_maxOutstanding st)"

lemma revoke_tickets_get:
  "tickets_ok st \<Longrightarrow> jm_get (ts_tickets (fst (revoke_tickets P st))) v =
     (case jm_get (ts_tickets st) v of None \<Rightarrow> None | Some t \<Rightarrow> if P t then None else Some t)"
  by (auto simp: revoke_tickets_def tickets_ok_def jm_get_filter split: option.splits)

lemma revoke_tickets_ok: "tickets_ok st \<Longrightarrow> tickets_ok (fst (revoke_tickets P st))"
  by (simp add: revoke_tickets_def tickets_ok_def jm_ok_jm_filter)

lemma revoke_tickets_count:
  "ticket_count (fst (revoke_tickets P st)) + snd (revoke_tickets P st) = ticket_count st"
  using sum_length_filter_compl [of "\<lambda>e. P (snd e)" "ts_tickets st"]
  by (simp add: revoke_tickets_def ticket_count_def jm_filter_def)

lemmas revoke_defs = revokeSandbox_def revokeSession_def sweepExpired_def

lemma issue_loop_cases:
  "issue_loop digest draw st b now i n = (st', r) \<Longrightarrow>
     (st' = st \<and> r = Inl UniqueTicketError) \<or>
     (\<exists>j. i \<le> j \<and> j < i + n \<and> jm_get (ts_tickets st) (ticketVerifier digest (draw j)) = None
        \<and> r = Inr (draw j, now + ts_ttlMs st)
        \<and> st' = st\<lparr>ts_tickets := jm_set (ticketVerifier digest (draw j))
                     \<lparr>tk_binding = b, tk_expiresAt = now + ts_ttlMs st\<rparr> (ts_tickets st)\<rparr>)"
proof (induction n arbitrary: i)
  case (Suc n)
  show ?case
  proof (cases "jm_has (ts_tickets st) (ticketVerifier digest (draw i))")
    case True
    with Suc.prems have "issue_loop digest draw st b now (Suc i) n = (st', r)"
      by (simp add: Let_def)
    from Suc.IH [OF this] show ?thesis by force
  next
    case False
    with Suc.prems show ?thesis by (auto simp: Let_def jm_has_def)
  qed
qed simp

lemma issue_loop_fresh:
  "jm_get (ts_tickets st) (ticketVerifier digest (draw i)) = None \<Longrightarrow>
   issue_loop digest draw st b now i 4 =
     (st\<lparr>ts_tickets := jm_set (ticketVerifier digest (draw i))
           \<lparr>tk_binding = b, tk_expiresAt = now + ts_ttlMs st\<rparr> (ts_tickets st)\<rparr>,
      Inr (draw i, now + ts_ttlMs st))"
  by (simp add: numeral_eq_Suc jm_has_def Let_def)

lemma issue_loop_ok: "tickets_ok st \<Longrightarrow> tickets_ok (fst (issue_loop digest draw st b now i n))"
  using issue_loop_cases [of digest draw st b now i n]
  by (cases "issue_loop digest draw st b now i n") (auto simp: tickets_ok_def jm_ok_set)

lemma issue_admit_ok: "tickets_ok st \<Longrightarrow> tickets_ok (fst (issue_admit st b now))"
  by (auto simp: issue_admit_def sweepExpired_def Let_def revoke_tickets_ok split: sum.splits)

lemma issue_ok: "tickets_ok st \<Longrightarrow> tickets_ok (fst (issue digest draw st b t0 t1))"
  using issue_admit_ok [of st b t0]
  by (auto simp: issue_def issue_loop_ok split: prod.splits sum.splits)

lemma consume_ok: "tickets_ok st \<Longrightarrow> tickets_ok (fst (consume digest st ticket b now))"
  by (auto simp: consume_def Let_def tickets_ok_def jm.ok_remove split: sum.splits)

lemma consume_Inr_iff:
  "snd (consume digest st ticket b now) = Inr () \<longleftrightarrow>
     assertBinding b = Inr () \<and> length ticket = TUNNEL_TICKET_BYTES \<and>
     (\<exists>t. jm_get (ts_tickets st) (ticketVerifier digest ticket) = Some t
        \<and> sameBinding (tk_binding t) b \<and> now \<le> tk_expiresAt t)"
  by (auto simp: consume_def Let_def requireE_def split: sum.splits option.splits if_splits)

lemma consume_Inr_store:
  "snd (consume digest st ticket b now) = Inr () \<Longrightarrow>
   fst (consume digest st ticket b now) =
     st\<lparr>ts_tickets := jm_delete (ticketVerifier digest ticket) (ts_tickets st)\<rparr>"
  by (auto simp: consume_def Let_def split: sum.splits option.splits if_splits)

lemma issue_admit_count:
  assumes "tickets_ok st" and "issue_admit st b now = (st1, Inr ())"
  shows "int (ticket_count st1) < ts_maxOutstanding st1" and "ts_maxOutstanding st1 = ts_maxOutstanding st"
  using assms
  by (auto simp: issue_admit_def Let_def sweepExpired_def revoke_tickets_def requireE_def
      split: sum.splits if_splits)

lemma issue_loop_count:
  "ticket_count (fst (issue_loop digest draw st b now i n)) \<le> Suc (ticket_count st)"
  using issue_loop_cases [of digest draw st b now i n]
  by (cases "issue_loop digest draw st b now i n")
    (auto simp: ticket_count_def jm_get_def intro: length_jm_set)


subsection \<open>Runs of the store\<close>

text \<open>
  The store is shared by every sandbox of a host; a run is any sequence of calls, with the two
  halves of \<open>issue\<close> as separate steps, so that every interleaving at its await is a run.
\<close>

datatype ticket_op =
    OpAdmit tunnel_binding int
  | OpIssueLoop "nat \<Rightarrow> bytes" tunnel_binding int nat nat
  | OpConsume bytes tunnel_binding int
  | OpRevokeSandbox string
  | OpRevokeSession string
  | OpSweep int

fun ticket_step :: "(bytes \<Rightarrow> bytes) \<Rightarrow> ticket_store \<Rightarrow> ticket_op \<Rightarrow> ticket_store" where
  "ticket_step digest st (OpAdmit b now) = fst (issue_admit st b now)"
| "ticket_step digest st (OpIssueLoop draw b now i n) = fst (issue_loop digest draw st b now i n)"
| "ticket_step digest st (OpConsume ticket b now) = fst (consume digest st ticket b now)"
| "ticket_step digest st (OpRevokeSandbox sid) = fst (revokeSandbox sid st)"
| "ticket_step digest st (OpRevokeSession sid) = fst (revokeSession sid st)"
| "ticket_step digest st (OpSweep now) = fst (sweepExpired now st)"

definition ticket_run :: "(bytes \<Rightarrow> bytes) \<Rightarrow> ticket_store \<Rightarrow> ticket_op list \<Rightarrow> ticket_store" where
  "ticket_run digest st ops = foldl (ticket_step digest) st ops"

fun redraws :: "(bytes \<Rightarrow> bytes) \<Rightarrow> string \<Rightarrow> ticket_op \<Rightarrow> bool" where
  "redraws digest v (OpIssueLoop draw b now i n) = (\<exists>j. ticketVerifier digest (draw j) = v)"
| "redraws digest v _ = False"

lemma ticket_step_ok: "tickets_ok st \<Longrightarrow> tickets_ok (ticket_step digest st op)"
  by (cases op)
    (simp_all add: issue_admit_ok issue_loop_ok consume_ok revoke_defs revoke_tickets_ok)

lemma ticket_run_ok: "tickets_ok st \<Longrightarrow> tickets_ok (ticket_run digest st ops)"
  by (induction ops arbitrary: st) (auto simp: ticket_run_def ticket_step_ok)

lemma issue_admit_absent:
  "tickets_ok st \<Longrightarrow> jm_get (ts_tickets st) v = None \<Longrightarrow>
   jm_get (ts_tickets (fst (issue_admit st b now))) v = None"
  by (auto simp: issue_admit_def sweepExpired_def Let_def revoke_tickets_get
      split: sum.splits)

lemma ticket_step_absent:
  assumes "tickets_ok st" and "jm_get (ts_tickets st) v = None" and "\<not> redraws digest v op"
  shows "jm_get (ts_tickets (ticket_step digest st op)) v = None"
proof (cases op)
  case (OpIssueLoop draw b now i n)
  obtain st' r where eq: "issue_loop digest draw st b now i n = (st', r)"
    by (cases "issue_loop digest draw st b now i n")
  show ?thesis
    using issue_loop_cases [OF eq] assms OpIssueLoop eq by (auto simp: jm_get_set)
next
  case (OpConsume ticket b now)
  then show ?thesis
    using assms by (auto simp: consume_def Let_def jm_get_delete split: sum.splits)
qed (use assms in \<open>auto simp: revoke_defs revoke_tickets_get issue_admit_absent\<close>)

lemma ticket_run_absent:
  "tickets_ok st \<Longrightarrow> jm_get (ts_tickets st) v = None \<Longrightarrow> \<forall>op \<in> set ops. \<not> redraws digest v op \<Longrightarrow>
   jm_get (ts_tickets (ticket_run digest st ops)) v = None"
proof (induction ops arbitrary: st)
  case (Cons op ops)
  then show ?case
    using ticket_step_absent [of st v digest op] ticket_step_ok [of st digest op]
    by (simp add: ticket_run_def)
qed (simp add: ticket_run_def)

subsection \<open>Properties\<close>

definition example_binding :: tunnel_binding where
  "example_binding = \<lparr>tb_sessionId = ''lease-1'', tb_sandboxId = ''sbx_loc_a'',
     tb_bootNonce = ''00ff'', tb_leaseGeneration = NumInt 1\<rparr>"

definition example_ticket :: bytes where
  "example_ticket = replicate 32 7"

definition example_store :: ticket_store where
  "example_store = \<lparr>ts_ttlMs = 15000, ts_maxOutstanding = 4096,
     ts_tickets = [(toHex example_ticket, \<lparr>tk_binding = example_binding, tk_expiresAt = 15000\<rparr>)]\<rparr>"

lemma example_store_ok: "tickets_ok example_store"
  by (simp add: tickets_ok_def example_store_def jm_ok_def)

lemma example_consume: "snd (consume id example_store example_ticket example_binding 100) = Inr ()"
  by (simp add: consume_Inr_iff assertBinding_def requireE_def example_binding_def example_store_def
      example_ticket_def TUNNEL_TICKET_BYTES_def ticketVerifier_def sameBinding_def jm_get_def
      MAX_SAFE_INTEGER_def)

text \<open>
  C26. A tunnel ticket is single-use: once a presentation of it was accepted, no later presentation
  is accepted, by any endpoint, at any time and after any sequence of calls on the shared store
  (interleaved halves of \<open>issue\<close> included), as long as no random draw repeats the ticket's digest.
\<close>
theorem ticket_single_use:
  assumes "tickets_ok st"
    and "snd (consume digest st ticket b now) = Inr ()"
    and "\<forall>op \<in> set ops. \<not> redraws digest (ticketVerifier digest ticket) op"
  shows "snd (consume digest (ticket_run digest (fst (consume digest st ticket b now)) ops)
                ticket b' now') \<noteq> Inr ()"
proof -
  let ?v = "ticketVerifier digest ticket" and ?st = "fst (consume digest st ticket b now)"
  have "tickets_ok ?st" using assms(1) by (rule consume_ok)
  moreover have "jm_get (ts_tickets ?st) ?v = None"
    using consume_Inr_store [OF assms(2)] by (simp add: jm_get_delete)
  ultimately have "jm_get (ts_tickets (ticket_run digest ?st ops)) ?v = None"
    using assms(3) by (rule ticket_run_absent)
  then show ?thesis by (simp add: consume_Inr_iff)
qed

theorem ticket_single_use_witness:
  "snd (consume id (ticket_run id (fst (consume id example_store example_ticket example_binding 100))
          [OpSweep 101, OpRevokeSandbox ''other'']) example_ticket example_binding 102) \<noteq> Inr ()"
  by (rule ticket_single_use [OF example_store_ok example_consume]) simp

text \<open>
  Presenting a ticket at an endpoint it was not issued for is rejected and burns nothing: the
  store is unchanged, so the legitimate holder can still redeem it.
\<close>
theorem ticket_wrong_endpoint_not_burned:
  assumes "jm_get (ts_tickets st) (ticketVerifier digest ticket) = Some t"
    and "\<not> sameBinding (tk_binding t) b"
  shows "fst (consume digest st ticket b now) = st \<and> \<not> is_ok (snd (consume digest st ticket b now))"
  using assms by (auto simp: consume_def Let_def requireE_def split: sum.splits)

theorem ticket_wrong_endpoint_not_burned_witness:
  "fst (consume id example_store example_ticket (example_binding\<lparr>tb_sandboxId := ''sbx_loc_b''\<rparr>) 5)
     = example_store \<and>
   \<not> is_ok (snd (consume id example_store example_ticket
                  (example_binding\<lparr>tb_sandboxId := ''sbx_loc_b''\<rparr>) 5))"
  by (rule ticket_wrong_endpoint_not_burned [where t = "\<lparr>tk_binding = example_binding, tk_expiresAt = 15000\<rparr>"])
    (simp_all add: example_store_def ticketVerifier_def jm_get_def sameBinding_def example_binding_def)

lemma issue_Inr_stored:
  assumes "issue digest draw st b t0 t1 = (st', Inr (ticket, expiresAt))"
  shows "assertBinding b = Inr ()" and "expiresAt = t1 + ts_ttlMs st" and "\<exists>j. ticket = draw j"
    and "jm_get (ts_tickets st') (ticketVerifier digest ticket)
           = Some \<lparr>tk_binding = b, tk_expiresAt = expiresAt\<rparr>"
proof -
  obtain st1 where admit: "issue_admit st b t0 = (st1, Inr ())"
    and loop: "issue_loop digest draw st1 b t1 0 4 = (st', Inr (ticket, expiresAt))"
    using assms by (auto simp: issue_def split: prod.splits sum.splits)
  have "ts_ttlMs st1 = ts_ttlMs st" and bnd: "assertBinding b = Inr ()"
    using admit by (auto simp: issue_admit_def sweepExpired_def revoke_tickets_def Let_def
        split: sum.splits)
  with issue_loop_cases [OF loop]
  show "assertBinding b = Inr ()" "expiresAt = t1 + ts_ttlMs st" "\<exists>j. ticket = draw j"
    "jm_get (ts_tickets st') (ticketVerifier digest ticket)
       = Some \<lparr>tk_binding = b, tk_expiresAt = expiresAt\<rparr>"
    by (auto simp: jm_get_set)
qed

text \<open>
  Round trip: a ticket that \<open>issue\<close> returned is accepted when it is presented with the binding
  it was issued for, at any time up to and including its expiry, which is the issue time plus the
  store's time to live.
\<close>
theorem issue_then_consume:
  assumes "issue digest draw st b t0 t1 = (st', Inr (ticket, expiresAt))"
    and "\<forall>j. length (draw j) = TUNNEL_TICKET_BYTES"
    and "now \<le> t1 + ts_ttlMs st"
  shows "snd (consume digest st' ticket b now) = Inr ()"
  using issue_Inr_stored [OF assms(1)] assms(2,3) by (auto simp: consume_Inr_iff sameBinding_def)

theorem issue_then_consume_witness:
  "snd (consume id (fst (issue id (\<lambda>j. replicate 32 (of_nat j)) example_store example_binding 3 4))
          (replicate 32 0) example_binding 15004) = Inr ()"
proof -
  have "issue id (\<lambda>j. replicate 32 (of_nat j)) example_store example_binding 3 4
        = (fst (issue id (\<lambda>j. replicate 32 (of_nat j)) example_store example_binding 3 4),
           Inr (replicate 32 0, 15004))"
    by (simp add: issue_def issue_admit_def assertBinding_def requireE_def example_binding_def
        example_store_def sweepExpired_def revoke_tickets_def jm_filter_def ticket_count_def
        issue_loop_fresh jm_get_def ticketVerifier_def Let_def MAX_SAFE_INTEGER_def
        example_ticket_def)
  then show ?thesis
    by (rule issue_then_consume) (simp_all add: TUNNEL_TICKET_BYTES_def example_store_def)
qed

text \<open>
  The authorizer opens the privileged bridge only for a ticket that was in the store, unexpired
  and bound to this endpoint, and that is burned by then: no ticket with its digest is left.
\<close>
theorem bridge_needs_burned_ticket:
  assumes "authorizeAndOpen digest st ticket b r aborted now = (st', Inr r')"
  shows "r' = r \<and> br_sandboxId r = tb_sandboxId b
    \<and> (\<exists>t. jm_get (ts_tickets st) (ticketVerifier digest ticket) = Some t
          \<and> sameBinding (tk_binding t) b \<and> now \<le> tk_expiresAt t)
    \<and> jm_get (ts_tickets st') (ticketVerifier digest ticket) = None"
proof -
  obtain st1 where c: "consume digest st ticket b now = (st1, Inr ())"
    and rest: "st1 = st'" "\<not> aborted" "br_sandboxId r = tb_sandboxId b" "r' = r"
    using assms
    by (auto simp: authorizeAndOpen_def bindE_eq_Inr split: prod.splits sum.splits if_splits)
  from c have ok: "snd (consume digest st ticket b now) = Inr ()" by simp
  have "jm_get (ts_tickets st') (ticketVerifier digest ticket) = None"
    using consume_Inr_store [OF ok] c rest(1) by (simp add: jm_get_delete)
  with ok [unfolded consume_Inr_iff] rest show ?thesis by blast
qed

theorem bridge_needs_burned_ticket_witness:
  "jm_get (ts_tickets (fst (authorizeAndOpen id example_store example_ticket example_binding
      \<lparr>br_sandboxId = ''sbx_loc_a'', br_executionId = ''exec-a'', br_guestPort = NumInt 1024\<rparr> False 9)))
      (ticketVerifier id example_ticket) = None"
proof -
  let ?r = "\<lparr>br_sandboxId = ''sbx_loc_a'', br_executionId = ''exec-a'', br_guestPort = NumInt 1024\<rparr>"
  have c: "snd (consume id example_store example_ticket example_binding 9) = Inr ()"
    by (simp add: consume_Inr_iff assertBinding_def requireE_def example_binding_def
        example_store_def example_ticket_def TUNNEL_TICKET_BYTES_def ticketVerifier_def
        sameBinding_def jm_get_def MAX_SAFE_INTEGER_def)
  have "authorizeAndOpen id example_store example_ticket example_binding ?r False 9
        = (fst (authorizeAndOpen id example_store example_ticket example_binding ?r False 9), Inr ?r)"
    using c by (auto simp: authorizeAndOpen_def assertBridgeRequest_def requireE_def
        example_binding_def MAX_SAFE_INTEGER_def split: prod.splits sum.splits)
  from bridge_needs_burned_ticket [OF this] show ?thesis by blast
qed

lemma issue_count:
  assumes "tickets_ok st" and "int (ticket_count st) \<le> ts_maxOutstanding st"
  shows "int (ticket_count (fst (issue digest draw st b t0 t1))) \<le> ts_maxOutstanding st"
proof -
  obtain st1 r where eq: "issue_admit st b t0 = (st1, r)" by (cases "issue_admit st b t0")
  show ?thesis
  proof (cases r)
    case (Inl e)
    have "ticket_count st1 \<le> ticket_count st"
      using eq revoke_tickets_count [of "\<lambda>t. tk_expiresAt t < t0" st]
      by (auto simp: issue_admit_def sweepExpired_def Let_def split: sum.splits)
    then show ?thesis using Inl eq assms(2) by (simp add: issue_def)
  next
    case (Inr u)
    with eq have "issue_admit st b t0 = (st1, Inr ())" by simp
    from issue_admit_count [OF assms(1) this] show ?thesis
      using Inr eq issue_loop_count [of digest draw st1 b t1 0 4] by (simp add: issue_def)
  qed
qed

text \<open>
  The limit on outstanding tickets and where it ends: calls of \<open>issue\<close> that do not overlap never
  exceed it, but the limit is checked before the digest is awaited and not again, so two overlapping
  calls at one below the limit both insert and leave the store above it.
\<close>
theorem outstanding_limit_and_its_race:
  "(\<forall>st b t0 t1. tickets_ok st \<and> int (ticket_count st) \<le> ts_maxOutstanding st \<longrightarrow>
      int (ticket_count (fst (issue digest draw st b t0 t1))) \<le> ts_maxOutstanding st)
   \<and> (\<exists>st b x y. tickets_ok st \<and> snd (issue_admit st b 0) = Inr ()
        \<and> fst (issue_admit st b 0) = st
        \<and> int (ticket_count (ticket_run id st
              [OpAdmit b 0, OpAdmit b 0, OpIssueLoop x b 0 0 4, OpIssueLoop y b 0 0 4]))
            > ts_maxOutstanding st)"
proof
  let ?st = "\<lparr>ts_ttlMs = 15000, ts_maxOutstanding = 1, ts_tickets = []\<rparr>"
  show "\<exists>st b x y. tickets_ok st \<and> snd (issue_admit st b 0) = Inr ()
        \<and> fst (issue_admit st b 0) = st
        \<and> int (ticket_count (ticket_run id st
              [OpAdmit b 0, OpAdmit b 0, OpIssueLoop x b 0 0 4, OpIssueLoop y b 0 0 4]))
            > ts_maxOutstanding st"
    by (rule exI [of _ ?st], rule exI [of _ example_binding],
        rule exI [of _ "\<lambda>_. [1]"], rule exI [of _ "\<lambda>_. [2]"])
      (simp add: tickets_ok_def issue_admit_def assertBinding_def requireE_def example_binding_def
        sweepExpired_def revoke_tickets_def jm_filter_def ticket_count_def ticket_run_def
        issue_loop_fresh jm_get_def ticketVerifier_def Let_def MAX_SAFE_INTEGER_def)
qed (auto intro: issue_count)

theorem outstanding_limit_and_its_race_witness:
  "int (ticket_count (fst (issue id (\<lambda>_. [1]) example_store example_binding 0 0))) \<le> 4096"
proof -
  have "int (ticket_count example_store) \<le> ts_maxOutstanding example_store"
    by (simp add: ticket_count_def example_store_def)
  then show ?thesis
    using outstanding_limit_and_its_race [of id "\<lambda>_. [1]"] example_store_ok
    by (auto simp: example_store_def)
qed

end
