(* ===== verification/Leases.thy ===== *)
theory Leases
  imports Prelude
begin

text \<open>
  \<^verbatim>\<open>src/hostd/leases.ts\<close>: the lease manager of hostd.

  A lease entry carries, beside its fields in the source, what its \<open>cleanup\<close> closure owns: the
  armed timer (\<open>le_timer\<close>, the time it fires at), the connection signal its listener is attached to
  (\<open>le_signal\<close>) and the queued microtask of a signal that was already aborted (\<open>le_micro\<close>). A
  cancelled timer or a detached listener is one no entry holds any more. The callbacks of the clock
  and of the signals are the operations \<open>timer_fire\<close>, \<open>signal_abort\<close> and \<open>micro_run\<close>.

  Every operation returns the sandbox ids it passed to the \<open>onExpire\<close> hook, in order, beside the
  new manager. \<open>systemClock.setTimer\<close> reads the clock itself and calls back at once when the time has
  passed, so \<open>create\<close> and the extensions take the two readings they make.
\<close>

datatype lease_kind = SessionLease | DurationLease

datatype lease_timeout = TimeoutSession | TimeoutDuration js_number

datatype lease_error =
    SBX_LEASE_NOT_FOUND
  | SBX_LEASE_EXPIRED
  | SBX_LEASE_KIND
  | SBX_LEASE_INVALID

record lease_entry =
  le_id :: string
  le_sandboxId :: string
  le_kind :: lease_kind
  le_generation :: int
  le_deadlineUnixMs :: "int option"
  le_timer :: "int option"
  le_signal :: "nat option"
  le_micro :: bool
  le_settled :: bool

record lease_manager =
  lm_maxExtendMs :: int
  lm_leases :: "(string, lease_entry) jsmap"

record lease_spec =
  cs_sandboxId :: string
  cs_timeout :: lease_timeout
  cs_connectionSignal :: "nat option"
  cs_id :: "string option"

text \<open>The snapshot a caller sees (\<open>snapshot\<close>) drops the entry's internals.\<close>

record lease =
  ls_id :: string
  ls_sandboxId :: string
  ls_kind :: lease_kind
  ls_generation :: int
  ls_deadlineUnixMs :: "int option"

definition DEFAULT_MAX_EXTEND_MS :: int where
  "DEFAULT_MAX_EXTEND_MS = 30 * 60000"

definition new_lease_manager :: "js_number option \<Rightarrow> lease_manager option" where
  "new_lease_manager maxExtendMs =
     (let m = orElse maxExtendMs (NumInt DEFAULT_MAX_EXTEND_MS)
      in if \<not> isSafeInteger m \<or> int_of m \<le> 0 then None
         else Some \<lparr>lm_maxExtendMs = int_of m, lm_leases = []\<rparr>)"

definition snapshot :: "lease_entry \<Rightarrow> lease" where
  "snapshot e = \<lparr>ls_id = le_id e, ls_sandboxId = le_sandboxId e, ls_kind = le_kind e,
     ls_generation = le_generation e, ls_deadlineUnixMs = le_deadlineUnixMs e\<rparr>"

definition lease_get :: "lease_manager \<Rightarrow> string \<Rightarrow> lease option" where
  "lease_get m i = map_option snapshot (jm_get (lm_leases m) i)"

definition lease_list :: "lease_manager \<Rightarrow> lease list" where
  "lease_list m = map (\<lambda>e. snapshot (snd e)) (lm_leases m)"

definition settle :: "lease_manager \<Rightarrow> lease_entry \<Rightarrow> lease_manager \<times> string list" where
  "settle m e =
     (if le_settled e then (m, [])
      else (m\<lparr>lm_leases := jm_delete (le_id e) (lm_leases m)\<rparr>, [le_sandboxId e]))"

definition discard :: "lease_manager \<Rightarrow> lease_entry \<Rightarrow> lease_manager" where
  "discard m e =
     (if le_settled e then m else m\<lparr>lm_leases := jm_delete (le_id e) (lm_leases m)\<rparr>)"

text \<open>
  \<open>systemClock.setTimer\<close>: armed, or (\<open>True\<close>) called back before it returns.
\<close>

definition systemClock_setTimer :: "int \<Rightarrow> int \<Rightarrow> bool" where
  "systemClock_setTimer fireAt now = (fireAt - now \<le> 0)"

definition lease_create :: "lease_manager \<Rightarrow> lease_spec \<Rightarrow> string \<Rightarrow> (nat \<Rightarrow> bool) \<Rightarrow> int \<Rightarrow> int
    \<Rightarrow> lease_manager \<times> string list \<times> (lease_error + lease)" where
  "lease_create m spec fresh aborted now now2 =
     (let i = orElse (cs_id spec) fresh
      in if i = [] then (m, [], Inl SBX_LEASE_INVALID)
         else if jm_has (lm_leases m) i then (m, [], Inl SBX_LEASE_INVALID)
         else if cs_sandboxId spec = [] then (m, [], Inl SBX_LEASE_INVALID)
         else (case cs_timeout spec of
             TimeoutDuration d \<Rightarrow>
               if \<not> isSafeInteger d \<or> int_of d \<le> 0 then (m, [], Inl SBX_LEASE_INVALID)
               else
                 (let deadline = now + int_of d;
                      fired = systemClock_setTimer deadline now2;
                      e = \<lparr>le_id = i, le_sandboxId = cs_sandboxId spec, le_kind = DurationLease,
                           le_generation = 1, le_deadlineUnixMs = Some deadline,
                           le_timer = (if fired then None else Some deadline),
                           le_signal = None, le_micro = False, le_settled = fired\<rparr>
                  in (m\<lparr>lm_leases := jm_set i e (lm_leases m)\<rparr>,
                      (if fired then [cs_sandboxId spec] else []), Inr (snapshot e)))
           | TimeoutSession \<Rightarrow>
               (case cs_connectionSignal spec of
                  None \<Rightarrow> (m, [], Inl SBX_LEASE_INVALID)
                | Some sig \<Rightarrow>
                    (let e = \<lparr>le_id = i, le_sandboxId = cs_sandboxId spec, le_kind = SessionLease,
                              le_generation = 1, le_deadlineUnixMs = None, le_timer = None,
                              le_signal = (if aborted sig then None else Some sig),
                              le_micro = aborted sig, le_settled = False\<rparr>
                     in (m\<lparr>lm_leases := jm_set i e (lm_leases m)\<rparr>, [], Inr (snapshot e))))))"

text \<open>
  \<open>#requireExtendable\<close>: the entry extended and its timer re-armed. When the clock passed the new
  deadline before the timer was armed, the entry settles on the spot and its id comes back.
\<close>

definition requireExtendable :: "lease_manager \<Rightarrow> string \<Rightarrow> js_number \<Rightarrow> int \<Rightarrow> int
    \<Rightarrow> lease_error + lease_manager \<times> string list \<times> lease_entry" where
  "requireExtendable m i requestedMs now now2 =
     (if \<not> isSafeInteger requestedMs \<or> int_of requestedMs \<le> 0 then Inl SBX_LEASE_INVALID
      else (case jm_get (lm_leases m) i of
          None \<Rightarrow> Inl SBX_LEASE_NOT_FOUND
        | Some e \<Rightarrow>
            (case (le_kind e, le_deadlineUnixMs e) of
               (DurationLease, Some deadline) \<Rightarrow>
                 if deadline \<le> now then Inl SBX_LEASE_EXPIRED
                 else
                   (let deadline' = deadline + min (int_of requestedMs) (lm_maxExtendMs m);
                        fired = systemClock_setTimer deadline' now2;
                        e' = e\<lparr>le_deadlineUnixMs := Some deadline',
                               le_timer := (if fired then None else Some deadline')\<rparr>;
                        m' = m\<lparr>lm_leases := jm_set i e' (lm_leases m)\<rparr>
                    in if fired then (case settle m' e' of (m'', out) \<Rightarrow>
                            Inr (m'', out, e'\<lparr>le_settled := True\<rparr>))
                       else Inr (m', [], e'))
             | _ \<Rightarrow> Inl SBX_LEASE_KIND)))"

definition renew :: "lease_manager \<Rightarrow> string \<Rightarrow> js_number \<Rightarrow> int \<Rightarrow> int
    \<Rightarrow> lease_error + lease_manager \<times> string list \<times> (string \<times> int \<times> int)" where
  "renew m i requestedMs now now2 =
     bindE (requireExtendable m i requestedMs now now2) (\<lambda>(m', out, e).
       let e' = e\<lparr>le_generation := le_generation e + 1\<rparr>;
           m'' = (if jm_has (lm_leases m') i then m'\<lparr>lm_leases := jm_set i e' (lm_leases m')\<rparr> else m')
       in Inr (m'', out, (le_id e', le_generation e', orElse (le_deadlineUnixMs e') 0)))"

definition lease_extendTimeout :: "lease_manager \<Rightarrow> string \<Rightarrow> js_number \<Rightarrow> int \<Rightarrow> int
    \<Rightarrow> lease_error + lease_manager \<times> string list \<times> int" where
  "lease_extendTimeout m i requestedMs now now2 =
     bindE (requireExtendable m i requestedMs now now2) (\<lambda>(m', out, e).
       Inr (m', out, orElse (le_deadlineUnixMs e) 0))"

definition lease_release :: "lease_manager \<Rightarrow> string \<Rightarrow> lease_manager \<times> string list" where
  "lease_release m i =
     (case jm_get (lm_leases m) i of None \<Rightarrow> (m, []) | Some e \<Rightarrow> settle m e)"

definition lease_revoke :: "lease_manager \<Rightarrow> string \<Rightarrow> lease_manager" where
  "lease_revoke m i = (case jm_get (lm_leases m) i of None \<Rightarrow> m | Some e \<Rightarrow> discard m e)"

definition lease_revokeAll :: "lease_manager \<Rightarrow> lease_manager" where
  "lease_revokeAll m = foldl discard m (map snd (lm_leases m))"

text \<open>The callbacks: \<open>() => this.#settle(entry)\<close> run by the clock, a signal, a microtask.\<close>

definition timer_fire :: "lease_manager \<Rightarrow> string \<Rightarrow> int \<Rightarrow> lease_manager \<times> string list" where
  "timer_fire m i now =
     (case jm_get (lm_leases m) i of
        None \<Rightarrow> (m, [])
      | Some e \<Rightarrow> (case le_timer e of
            None \<Rightarrow> (m, [])
          | Some t \<Rightarrow> if t \<le> now then settle m e else (m, [])))"

fun settle_all :: "lease_manager \<Rightarrow> lease_entry list \<Rightarrow> lease_manager \<times> string list" where
  "settle_all m [] = (m, [])"
| "settle_all m (e # es) =
     (let r = settle m e; r' = settle_all (fst r) es in (fst r', snd r @ snd r'))"

definition signal_abort :: "lease_manager \<Rightarrow> nat \<Rightarrow> lease_manager \<times> string list" where
  "signal_abort m sig = settle_all m (filter (\<lambda>e. le_signal e = Some sig) (map snd (lm_leases m)))"

definition micro_run :: "lease_manager \<Rightarrow> lease_manager \<times> string list" where
  "micro_run m = settle_all m (filter le_micro (map snd (lm_leases m)))"

subsection \<open>Invariant\<close>

text \<open>
  A live entry is filed under its own id and is not settled; a duration lease has its timer armed at
  exactly its deadline, a session lease has no deadline and is tied to its connection.
\<close>

definition entry_wf :: "lease_entry \<Rightarrow> bool" where
  "entry_wf e = (\<not> le_settled e \<and>
     (case le_kind e of
        DurationLease \<Rightarrow> le_deadlineUnixMs e \<noteq> None \<and> le_timer e = le_deadlineUnixMs e
          \<and> le_signal e = None \<and> \<not> le_micro e
      | SessionLease \<Rightarrow> le_deadlineUnixMs e = None \<and> le_timer e = None
          \<and> (le_signal e = None) = le_micro e))"

definition filed :: "lease_manager \<Rightarrow> bool" where
  "filed m = (jm_ok (lm_leases m) \<and> (\<forall>(i, e) \<in> set (lm_leases m). le_id e = i))"

definition leases_wf :: "lease_manager \<Rightarrow> bool" where
  "leases_wf m = (filed m \<and> 0 < lm_maxExtendMs m \<and> (\<forall>(i, e) \<in> set (lm_leases m). entry_wf e))"

lemma filed_get: "filed m \<Longrightarrow> jm_get (lm_leases m) i = Some e \<Longrightarrow> le_id e = i"
  by (auto simp: filed_def jm_get_mem)

lemma leases_wf_get: "leases_wf m \<Longrightarrow> jm_get (lm_leases m) i = Some e \<Longrightarrow> entry_wf e"
  by (auto simp: leases_wf_def filed_def jm_get_mem)

lemma filed_delete: "filed m \<Longrightarrow> filed (m\<lparr>lm_leases := jm_delete i (lm_leases m)\<rparr>)"
  by (auto simp: filed_def jm.ok_remove jm_mem_delete)

lemma leases_wf_delete: "leases_wf m \<Longrightarrow> leases_wf (m\<lparr>lm_leases := jm_delete i (lm_leases m)\<rparr>)"
  using filed_delete [of m i] by (auto simp: leases_wf_def jm_mem_delete)

lemma filed_set:
  "filed m \<Longrightarrow> le_id e = i \<Longrightarrow> filed (m\<lparr>lm_leases := jm_set i e (lm_leases m)\<rparr>)"
  by (auto simp: filed_def jm.ok_insert jm_mem_set)

lemma leases_wf_set:
  "leases_wf m \<Longrightarrow> le_id e = i \<Longrightarrow> entry_wf e \<Longrightarrow>
   leases_wf (m\<lparr>lm_leases := jm_set i e (lm_leases m)\<rparr>)"
  using filed_set [of m e i] by (auto simp: leases_wf_def filed_def jm_mem_set)

lemma settle_wf: "leases_wf m \<Longrightarrow> leases_wf (fst (settle m e))"
  by (simp add: settle_def leases_wf_delete)

lemma settle_filed: "filed m \<Longrightarrow> filed (fst (settle m e))"
  by (simp add: settle_def filed_delete)

lemma discard_wf: "leases_wf m \<Longrightarrow> leases_wf (discard m e)"
  by (simp add: discard_def leases_wf_delete)

lemma discard_filed: "filed m \<Longrightarrow> filed (discard m e)"
  by (simp add: discard_def filed_delete)

lemma settle_all_wf: "leases_wf m \<Longrightarrow> leases_wf (fst (settle_all m es))"
  by (induction es arbitrary: m) (simp_all add: Let_def settle_wf)

lemma settle_all_filed: "filed m \<Longrightarrow> filed (fst (settle_all m es))"
  by (induction es arbitrary: m) (simp_all add: Let_def settle_filed)

lemma foldl_discard_wf: "leases_wf m \<Longrightarrow> leases_wf (foldl discard m es)"
  by (induction es arbitrary: m) (simp_all add: discard_wf)

lemma foldl_discard_filed: "filed m \<Longrightarrow> filed (foldl discard m es)"
  by (induction es arbitrary: m) (simp_all add: discard_filed)

text \<open>What a successful extension did: armed at the new deadline, or settled on the spot.\<close>

definition extended :: "lease_entry \<Rightarrow> int \<Rightarrow> int option \<Rightarrow> lease_entry" where
  "extended e d t = e\<lparr>le_deadlineUnixMs := Some d, le_timer := t\<rparr>"

lemma extended_simps [simp]:
  "le_id (extended e d t) = le_id e" "le_sandboxId (extended e d t) = le_sandboxId e"
  "le_kind (extended e d t) = le_kind e" "le_generation (extended e d t) = le_generation e"
  "le_deadlineUnixMs (extended e d t) = Some d" "le_timer (extended e d t) = t"
  "le_settled (extended e d t) = le_settled e"
  by (simp_all add: extended_def)

lemma requireExtendable_Inr:
  assumes "requireExtendable m i ms now now2 = Inr (m', out, e')"
  shows "\<exists>e d. jm_get (lm_leases m) i = Some e \<and> le_kind e = DurationLease
    \<and> le_deadlineUnixMs e = Some d \<and> now < d \<and> isSafeInteger ms \<and> 0 < int_of ms
    \<and> (let d' = d + min (int_of ms) (lm_maxExtendMs m) in
       if now2 < d' then out = [] \<and> e' = extended e d' (Some d')
         \<and> m' = m\<lparr>lm_leases := jm_set i e' (lm_leases m)\<rparr>
       else (m', out) = settle (m\<lparr>lm_leases := jm_set i (extended e d' None) (lm_leases m)\<rparr>)
                          (extended e d' None)
         \<and> e' = (extended e d' None)\<lparr>le_settled := True\<rparr>)"
proof (cases "jm_get (lm_leases m) i")
  case None
  with assms show ?thesis by (simp add: requireExtendable_def split: if_splits)
next
  case (Some e)
  show ?thesis
  proof (cases "le_kind e = DurationLease \<and> le_deadlineUnixMs e \<noteq> None")
    case False
    with assms Some show ?thesis
      by (auto simp: requireExtendable_def split: if_splits lease_kind.splits option.splits)
  next
    case True
    then obtain d where d: "le_kind e = DurationLease" "le_deadlineUnixMs e = Some d" by auto
    have *: "isSafeInteger ms" "0 < int_of ms" "now < d"
      using assms Some d by (auto simp: requireExtendable_def split: if_splits)
    let ?d = "d + min (int_of ms) (lm_maxExtendMs m)"
    have "if now2 < ?d then out = [] \<and> e' = extended e ?d (Some ?d)
         \<and> m' = m\<lparr>lm_leases := jm_set i e' (lm_leases m)\<rparr>
       else (m', out) = settle (m\<lparr>lm_leases := jm_set i (extended e ?d None) (lm_leases m)\<rparr>)
                          (extended e ?d None)
         \<and> e' = (extended e ?d None)\<lparr>le_settled := True\<rparr>"
      using assms Some d *
      by (auto simp: requireExtendable_def Let_def systemClock_setTimer_def extended_def
          split: if_splits prod.splits)
    with Some d * show ?thesis by (simp add: Let_def)
  qed
qed

lemma create_wf:
  assumes "leases_wf m" and "\<And>d. cs_timeout spec = TimeoutDuration d \<Longrightarrow> now2 < now + int_of d"
  shows "leases_wf (fst (lease_create m spec fresh aborted now now2))"
  using assms
  by (auto simp: lease_create_def Let_def systemClock_setTimer_def entry_wf_def intro!: leases_wf_set
      split: lease_timeout.splits option.splits)

lemma create_filed: "filed m \<Longrightarrow> filed (fst (lease_create m spec fresh aborted now now2))"
  by (auto simp: lease_create_def Let_def intro!: filed_set
      split: lease_timeout.splits option.splits)

lemma requireExtendable_filed:
  assumes "filed m" and "requireExtendable m i ms now now2 = Inr (m', out, e')"
  shows "filed m' \<and> le_id e' = i"
proof -
  from requireExtendable_Inr [OF assms(2)] obtain e d where
    e: "jm_get (lm_leases m) i = Some e" and
    r: "let d' = d + min (int_of ms) (lm_maxExtendMs m) in
       if now2 < d' then out = [] \<and> e' = extended e d' (Some d')
         \<and> m' = m\<lparr>lm_leases := jm_set i e' (lm_leases m)\<rparr>
       else (m', out) = settle (m\<lparr>lm_leases := jm_set i (extended e d' None) (lm_leases m)\<rparr>)
                          (extended e d' None)
         \<and> e' = (extended e d' None)\<lparr>le_settled := True\<rparr>" by blast
  have i: "le_id e = i" using filed_get [OF assms(1) e] .
  have fs: "filed (m\<lparr>lm_leases := jm_set i (extended e x t) (lm_leases m)\<rparr>)" for x t
    using filed_set [OF assms(1), of "extended e x t" i] i by simp
  show ?thesis
    using r i fs settle_filed [OF fs]
    by (simp add: Let_def split: if_splits) (metis fst_conv)
qed

lemma requireExtendable_wf:
  assumes "leases_wf m" and "requireExtendable m i ms now now2 = Inr (m', out, e')"
  shows "leases_wf m'"
proof -
  from requireExtendable_Inr [OF assms(2)] obtain e d where
    e: "jm_get (lm_leases m) i = Some e" "le_kind e = DurationLease" and
    r: "let d' = d + min (int_of ms) (lm_maxExtendMs m) in
       if now2 < d' then out = [] \<and> e' = extended e d' (Some d')
         \<and> m' = m\<lparr>lm_leases := jm_set i e' (lm_leases m)\<rparr>
       else (m', out) = settle (m\<lparr>lm_leases := jm_set i (extended e d' None) (lm_leases m)\<rparr>)
                          (extended e d' None)
         \<and> e' = (extended e d' None)\<lparr>le_settled := True\<rparr>" by blast
  have i: "le_id e = i" and w: "entry_wf e"
    using filed_get [of m i e] leases_wf_get [OF assms(1) e(1)] e(1) assms(1)
    by (auto simp: leases_wf_def)
  have armed: "entry_wf (extended e x (Some x))" for x
    using w e(2) by (simp add: entry_wf_def extended_def)
  have ws: "leases_wf (m\<lparr>lm_leases := jm_set i (extended e x (Some x)) (lm_leases m)\<rparr>)" for x
    using leases_wf_set [OF assms(1) _ armed [of x]] i by simp
  show ?thesis
    using r i w ws leases_wf_delete [OF assms(1), of i]
    by (simp add: Let_def settle_def entry_wf_def jm_delete_set split: if_splits)
qed


subsection \<open>Runs of the manager\<close>

datatype lease_op =
    LCreate lease_spec string "nat \<Rightarrow> bool" int int
  | LRenew string js_number int int
  | LExtend string js_number int int
  | LRelease string
  | LRevoke string
  | LRevokeAll
  | LTimer string int
  | LAbort nat
  | LMicro

text \<open>One call: the manager after it, the ids passed to \<open>onExpire\<close> and the lease created, if any.\<close>

fun lease_exec :: "lease_manager \<Rightarrow> lease_op \<Rightarrow> lease_manager \<times> string list \<times> string list" where
  "lease_exec m (LCreate spec fresh aborted now now2) =
     (let r = lease_create m spec fresh aborted now now2
      in (fst r, fst (snd r), if is_ok (snd (snd r)) then [cs_sandboxId spec] else []))"
| "lease_exec m (LRenew i ms now now2) =
     (case renew m i ms now now2 of Inl _ \<Rightarrow> (m, [], []) | Inr r \<Rightarrow> (fst r, fst (snd r), []))"
| "lease_exec m (LExtend i ms now now2) =
     (case lease_extendTimeout m i ms now now2 of
        Inl _ \<Rightarrow> (m, [], []) | Inr r \<Rightarrow> (fst r, fst (snd r), []))"
| "lease_exec m (LRelease i) = (let r = lease_release m i in (fst r, snd r, []))"
| "lease_exec m (LRevoke i) = (lease_revoke m i, [], [])"
| "lease_exec m LRevokeAll = (lease_revokeAll m, [], [])"
| "lease_exec m (LTimer i now) = (let r = timer_fire m i now in (fst r, snd r, []))"
| "lease_exec m (LAbort sig) = (let r = signal_abort m sig in (fst r, snd r, []))"
| "lease_exec m LMicro = (let r = micro_run m in (fst r, snd r, []))"

fun lease_run :: "lease_manager \<Rightarrow> lease_op list \<Rightarrow> lease_manager \<times> string list \<times> string list" where
  "lease_run m [] = (m, [], [])"
| "lease_run m (p # ps) =
     (let r = lease_exec m p; r' = lease_run (fst r) ps
      in (fst r', fst (snd r) @ fst (snd r'), snd (snd r) @ snd (snd r')))"

text \<open>The sandbox ids of the leases that can still fire, with multiplicity.\<close>

definition live_ids :: "lease_manager \<Rightarrow> string multiset" where
  "live_ids m = image_mset (\<lambda>x. le_sandboxId (snd x))
     (filter_mset (\<lambda>x. \<not> le_settled (snd x)) (mset (lm_leases m)))"

lemma live_ids_present:
  assumes "filed m" and "jm_get (lm_leases m) i = Some e"
  shows "live_ids m = (if le_settled e then {#} else {#le_sandboxId e#})
           + live_ids (m\<lparr>lm_leases := jm_delete i (lm_leases m)\<rparr>)"
proof -
  have "mset (lm_leases m) = add_mset (i, e) (mset (jm_delete i (lm_leases m)))"
    using assms by (auto simp: filed_def intro: mset_jm_delete)
  then show ?thesis by (simp add: live_ids_def)
qed

lemma live_ids_set:
  assumes "filed m"
  shows "live_ids (m\<lparr>lm_leases := jm_set i e (lm_leases m)\<rparr>)
    = (if le_settled e then {#} else {#le_sandboxId e#})
       + live_ids (m\<lparr>lm_leases := jm_delete i (lm_leases m)\<rparr>)"
  using assms by (simp add: live_ids_def filed_def mset_jm_set)

lemma live_ids_absent:
  "jm_get (lm_leases m) i = None \<Longrightarrow> m\<lparr>lm_leases := jm_delete i (lm_leases m)\<rparr> = m"
  by (simp add: jm_delete_absent)

lemma settle_account:
  assumes "filed m" and "jm_get (lm_leases m) (le_id e) = Some e"
  shows "mset (snd (settle m e)) + live_ids (fst (settle m e)) = live_ids m"
  using live_ids_present [OF assms] by (simp add: settle_def)

lemma settle_keeps_others:
  "jm_get (lm_leases m) j = Some u \<Longrightarrow> le_id e \<noteq> j \<Longrightarrow>
   jm_get (lm_leases (fst (settle m e))) j = Some u"
  by (simp add: settle_def jm_get_delete)

lemma settle_all_account:
  assumes "filed m" and "\<forall>e \<in> set es. jm_get (lm_leases m) (le_id e) = Some e"
    and "distinct (map le_id es)"
  shows "mset (snd (settle_all m es)) + live_ids (fst (settle_all m es)) = live_ids m"
  using assms
proof (induction es arbitrary: m)
  case (Cons e es)
  let ?m = "fst (settle m e)"
  have "jm_get (lm_leases ?m) (le_id u) = Some u" if "u \<in> set es" for u
  proof (rule settle_keeps_others)
    show "jm_get (lm_leases m) (le_id u) = Some u" using Cons.prems that by simp
    show "le_id e \<noteq> le_id u" using Cons.prems that by (metis distinct.simps(2) image_eqI list.simps(9) set_map)
  qed
  with Cons.IH [of ?m] Cons.prems
  have "mset (snd (settle_all ?m es)) + live_ids (fst (settle_all ?m es)) = live_ids ?m"
    by (simp add: settle_filed)
  with settle_account [of m e] Cons.prems show ?case
    by (simp add: Let_def add.assoc)
qed simp

lemma filed_entries:
  assumes "filed m"
  shows "\<forall>e \<in> set (filter P (map snd (lm_leases m))). jm_get (lm_leases m) (le_id e) = Some e"
    and "distinct (map le_id (filter P (map snd (lm_leases m))))"
proof -
  show "\<forall>e \<in> set (filter P (map snd (lm_leases m))). jm_get (lm_leases m) (le_id e) = Some e"
    using assms by (auto simp: filed_def jm_get_mem)
  have "map le_id (map snd (lm_leases m)) = map fst (lm_leases m)"
    using assms by (auto simp: filed_def)
  then have "distinct (map le_id (map snd (lm_leases m)))"
    using assms unfolding filed_def jm_ok_def by metis
  then show "distinct (map le_id (filter P (map snd (lm_leases m))))"
    by (rule distinct_map_filter)
qed

lemma discard_live: "live_ids (discard m e) \<subseteq># live_ids m"
proof -
  have "mset (jm_delete (le_id e) (lm_leases m)) \<subseteq># mset (lm_leases m)"
    by (simp add: jm_delete_def)
  then show ?thesis
    by (auto simp: discard_def live_ids_def intro!: image_mset_subseteq_mono multiset_filter_mono)
qed

lemma foldl_discard_live: "live_ids (foldl discard m es) \<subseteq># live_ids m"
  by (induction es arbitrary: m) (auto intro: subset_mset.order_trans discard_live)

lemma create_account:
  assumes "filed m"
  shows "mset (fst (snd (lease_exec m (LCreate spec fresh aborted now now2))))
    + live_ids (fst (lease_exec m (LCreate spec fresh aborted now now2)))
    = live_ids m + mset (snd (snd (lease_exec m (LCreate spec fresh aborted now now2))))"
proof -
  have "jm_get (lm_leases m) (orElse (cs_id spec) fresh) = None \<Longrightarrow>
    live_ids (m\<lparr>lm_leases := jm_set (orElse (cs_id spec) fresh) e (lm_leases m)\<rparr>)
     = (if le_settled e then {#} else {#le_sandboxId e#}) + live_ids m" for e
    using live_ids_set [OF assms] live_ids_absent [of m "orElse (cs_id spec) fresh"] by simp
  then show ?thesis
    by (simp add: lease_create_def Let_def jm_has_def split: lease_timeout.splits option.splits)
qed

lemma requireExtendable_account:
  assumes "filed m" and "requireExtendable m i ms now now2 = Inr (m', out, e')"
  shows "mset out + live_ids m' = live_ids m
    \<and> (jm_has (lm_leases m') i \<longrightarrow> jm_get (lm_leases m') i = Some e')"
proof -
  from requireExtendable_Inr [OF assms(2)] obtain e d where
    e: "jm_get (lm_leases m) i = Some e" and
    r: "let d' = d + min (int_of ms) (lm_maxExtendMs m) in
       if now2 < d' then out = [] \<and> e' = extended e d' (Some d')
         \<and> m' = m\<lparr>lm_leases := jm_set i e' (lm_leases m)\<rparr>
       else (m', out) = settle (m\<lparr>lm_leases := jm_set i (extended e d' None) (lm_leases m)\<rparr>)
                          (extended e d' None)
         \<and> e' = (extended e d' None)\<lparr>le_settled := True\<rparr>" by blast
  have i: "le_id e = i" using filed_get [OF assms(1) e] .
  have eq: "live_ids (m\<lparr>lm_leases := jm_set i (extended e x t) (lm_leases m)\<rparr>) = live_ids m" for x t
    using live_ids_set [OF assms(1), of i "extended e x t"] live_ids_present [OF assms(1) e] by simp
  have zombie: "le_settled e \<Longrightarrow> extended e x t\<lparr>le_settled := True\<rparr> = extended e x t" for x t
    by (cases e) (simp add: extended_def)
  show ?thesis
    using r i eq zombie live_ids_present [OF assms(1) e]
    by (auto simp: Let_def settle_def jm_get_set jm_delete_set jm_has_def jm_get_delete
        split: if_splits)
qed

lemma renew_filed_account:
  assumes "filed m" and "renew m i ms now now2 = Inr (m', out, res)"
  shows "filed m' \<and> mset out + live_ids m' = live_ids m"
proof -
  from assms(2) obtain m1 e1 where
    q: "requireExtendable m i ms now now2 = Inr (m1, out, e1)" and
    m': "m' = (if jm_has (lm_leases m1) i
       then m1\<lparr>lm_leases := jm_set i (e1\<lparr>le_generation := le_generation e1 + 1\<rparr>) (lm_leases m1)\<rparr>
       else m1)"
    by (auto simp: renew_def Let_def err_simps)
  note f = requireExtendable_filed [OF assms(1) q] and a = requireExtendable_account [OF assms(1) q]
  have "filed m'"
    using f m' filed_set [of m1 "e1\<lparr>le_generation := le_generation e1 + 1\<rparr>" i] by simp
  moreover have "live_ids m' = live_ids m1"
    using f a m' live_ids_set [of m1 i] live_ids_present [of m1 i e1] by auto
  ultimately show ?thesis using a by simp
qed

lemma extend_filed_account:
  assumes "filed m" and "lease_extendTimeout m i ms now now2 = Inr (m', out, res)"
  shows "filed m' \<and> mset out + live_ids m' = live_ids m"
  using assms requireExtendable_filed [OF assms(1)] requireExtendable_account [OF assms(1)]
  by (auto simp: lease_extendTimeout_def err_simps)

lemma lease_exec_account:
  assumes "filed m"
  shows "filed (fst (lease_exec m p))
    \<and> mset (fst (snd (lease_exec m p))) + live_ids (fst (lease_exec m p))
      \<subseteq># live_ids m + mset (snd (snd (lease_exec m p)))"
proof (cases p)
  case (LCreate spec fresh aborted now now2)
  then show ?thesis
    using create_account [OF assms, of spec fresh aborted now now2] create_filed [OF assms]
    by (simp add: Let_def)
next
  case (LRenew i ms now now2)
  then show ?thesis
    using assms renew_filed_account [OF assms, of i ms now now2]
    by (cases "renew m i ms now now2") auto
next
  case (LExtend i ms now now2)
  then show ?thesis
    using assms extend_filed_account [OF assms, of i ms now now2]
    by (cases "lease_extendTimeout m i ms now now2") auto
next
  case (LRelease i)
  then show ?thesis
    using assms settle_account [OF assms] filed_get [OF assms, of i]
    by (auto simp: lease_release_def Let_def settle_filed split: option.splits)
next
  case (LRevoke i)
  then show ?thesis
    using assms by (auto simp: lease_revoke_def discard_filed discard_live split: option.splits)
next
  case LRevokeAll
  then show ?thesis
    using assms by (simp add: lease_revokeAll_def foldl_discard_filed foldl_discard_live)
next
  case (LTimer i now)
  then show ?thesis
    using assms settle_account [OF assms] filed_get [OF assms, of i]
    by (auto simp: timer_fire_def Let_def settle_filed split: option.splits)
next
  case (LAbort sig)
  then show ?thesis
    using assms settle_all_account [OF assms filed_entries [OF assms]]
    by (simp add: signal_abort_def Let_def settle_all_filed)
next
  case LMicro
  then show ?thesis
    using assms settle_all_account [OF assms filed_entries [OF assms]]
    by (simp add: micro_run_def Let_def settle_all_filed)
qed

lemma lease_run_account:
  "filed m \<Longrightarrow> filed (fst (lease_run m ps))
    \<and> mset (fst (snd (lease_run m ps))) + live_ids (fst (lease_run m ps))
      \<subseteq># live_ids m + mset (snd (snd (lease_run m ps)))"
proof (induction ps arbitrary: m)
  case (Cons p ps)
  let ?r = "lease_exec m p"
  let ?r' = "lease_run (fst ?r) ps"
  note a = lease_exec_account [OF Cons.prems, of p]
  note b = Cons.IH [of "fst ?r"]
  have "mset (fst (snd ?r)) + (mset (fst (snd ?r')) + live_ids (fst ?r'))
    \<subseteq># mset (fst (snd ?r)) + (live_ids (fst ?r) + mset (snd (snd ?r')))"
    using a b by simp
  also have "\<dots> = (mset (fst (snd ?r)) + live_ids (fst ?r)) + mset (snd (snd ?r'))" by simp
  also have "\<dots> \<subseteq># (live_ids m + mset (snd (snd ?r))) + mset (snd (snd ?r'))"
    using a by (metis subset_mset.add_right_mono)
  finally show ?case using a b by (simp add: Let_def add.assoc)
qed simp

subsection \<open>Properties\<close>

text \<open>A call whose timer is armed before the deadline it is armed for.\<close>

fun timely :: "lease_op \<Rightarrow> bool" where
  "timely (LCreate spec fresh aborted now now2) =
     (case cs_timeout spec of TimeoutDuration d \<Rightarrow> now2 < now + int_of d | TimeoutSession \<Rightarrow> True)"
| "timely p = True"

lemma renew_wf:
  assumes "leases_wf m" and "renew m i ms now now2 = Inr (m', out, res)"
  shows "leases_wf m'"
proof -
  from assms(2) obtain m1 e1 where
    q: "requireExtendable m i ms now now2 = Inr (m1, out, e1)" and
    m': "m' = (if jm_has (lm_leases m1) i
       then m1\<lparr>lm_leases := jm_set i (e1\<lparr>le_generation := le_generation e1 + 1\<rparr>) (lm_leases m1)\<rparr>
       else m1)"
    by (auto simp: renew_def Let_def err_simps)
  have f: "filed m" using assms(1) by (simp add: leases_wf_def)
  note w = requireExtendable_wf [OF assms(1) q] and i = requireExtendable_filed [OF f q]
  have "jm_has (lm_leases m1) i \<Longrightarrow> entry_wf e1"
    using requireExtendable_account [OF f q] leases_wf_get [OF w, of i e1] by simp
  then have "jm_has (lm_leases m1) i \<Longrightarrow> entry_wf (e1\<lparr>le_generation := le_generation e1 + 1\<rparr>)"
    by (simp add: entry_wf_def split: lease_kind.splits)
  with w i m' show ?thesis
    using leases_wf_set [OF w, of "e1\<lparr>le_generation := le_generation e1 + 1\<rparr>" i] by simp
qed

lemma lease_exec_wf:
  assumes "leases_wf m" and "timely p"
  shows "leases_wf (fst (lease_exec m p))"
proof (cases p)
  case (LCreate spec fresh aborted now now2)
  then show ?thesis
    using assms create_wf [of m spec now2 now fresh aborted]
    by (cases "cs_timeout spec") (simp_all add: Let_def)
next
  case (LRenew i ms now now2)
  then show ?thesis
    using assms renew_wf [of m i ms now now2] by (cases "renew m i ms now now2") auto
next
  case (LExtend i ms now now2)
  then show ?thesis
    using assms requireExtendable_wf [of m i ms now now2]
    by (cases "requireExtendable m i ms now now2") (auto simp: lease_extendTimeout_def)
qed (use assms in \<open>auto simp: Let_def lease_release_def lease_revoke_def lease_revokeAll_def
      timer_fire_def signal_abort_def micro_run_def settle_wf discard_wf foldl_discard_wf
      settle_all_wf split: option.splits\<close>)

lemma lease_run_wf: "leases_wf m \<Longrightarrow> \<forall>p \<in> set ps. timely p \<Longrightarrow> leases_wf (fst (lease_run m ps))"
  by (induction ps arbitrary: m) (simp_all add: Let_def lease_exec_wf)

lemma new_manager_wf: "new_lease_manager cfg = Some m \<Longrightarrow> leases_wf m \<and> live_ids m = {#}"
  by (auto simp: new_lease_manager_def Let_def leases_wf_def filed_def live_ids_def split: if_splits)

definition example_manager :: lease_manager where
  "example_manager = \<lparr>lm_maxExtendMs = 1800000, lm_leases = []\<rparr>"

definition example_duration :: lease_spec where
  "example_duration = \<lparr>cs_sandboxId = ''sbx-1'', cs_timeout = TimeoutDuration (NumInt 5000),
     cs_connectionSignal = None, cs_id = Some ''lease-1''\<rparr>"

lemma example_manager_new: "new_lease_manager None = Some example_manager"
  by (simp add: new_lease_manager_def example_manager_def DEFAULT_MAX_EXTEND_MS_def
      MAX_SAFE_INTEGER_def Let_def)

text \<open>
  C27. \<open>onExpire\<close> fires at most once per lease. Over any run of calls and callbacks on a new
  manager, in any order and at any times, the sandbox ids passed to \<open>onExpire\<close> together with those of
  the leases that can still fire are contained, with multiplicity, in the ids the successful
  \<open>create\<close> calls were given: no lease fires twice and none fires without having been created.
\<close>

theorem lease_fires_at_most_once:
  assumes "new_lease_manager cfg = Some m"
  shows "mset (fst (snd (lease_run m ps))) + live_ids (fst (lease_run m ps))
    \<subseteq># mset (snd (snd (lease_run m ps)))"
  using new_manager_wf [OF assms] lease_run_account [of m ps] by (simp add: leases_wf_def)

definition example_ops :: "lease_op list" where
  "example_ops = [LCreate example_duration ''x'' (\<lambda>_. False) 100 100, LTimer ''lease-1'' 5000,
     LTimer ''lease-1'' 5100, LRelease ''lease-1'']"

theorem lease_fires_at_most_once_witness:
  "mset (fst (snd (lease_run example_manager example_ops)))
     + live_ids (fst (lease_run example_manager example_ops)) \<subseteq># {#''sbx-1''#}
   \<and> fst (snd (lease_run example_manager example_ops)) = [''sbx-1'']"
  using lease_fires_at_most_once [OF example_manager_new, of example_ops]
  by (simp add: example_ops_def example_manager_def example_duration_def lease_create_def Let_def
      jm_has_def jm_get_def MAX_SAFE_INTEGER_def systemClock_setTimer_def timer_fire_def settle_def
      jm_delete_def lease_release_def)

text \<open>
  C28. A duration lease expires at its deadline, no sooner. In every state a timely run reaches, a
  live duration lease holds an armed timer; the timer callback does nothing before the lease's
  deadline and at any time from the deadline on it drops the lease and passes its sandbox id, and
  only that, to \<open>onExpire\<close>.
\<close>

theorem duration_lease_expires_at_its_deadline:
  assumes "new_lease_manager cfg = Some m0" and "\<forall>p \<in> set ps. timely p"
    and "m = fst (lease_run m0 ps)"
    and "jm_get (lm_leases m) i = Some e" and "le_kind e = DurationLease"
  shows "\<exists>d. le_deadlineUnixMs e = Some d
    \<and> (\<forall>now. timer_fire m i now =
        (if now < d then (m, [])
         else (m\<lparr>lm_leases := jm_delete i (lm_leases m)\<rparr>, [le_sandboxId e])))"
proof -
  have w: "leases_wf m"
    using assms(1-3) new_manager_wf lease_run_wf by blast
  have "entry_wf e" using leases_wf_get [OF w assms(4)] .
  moreover have "le_id e = i" using w assms(4) filed_get by (auto simp: leases_wf_def)
  ultimately show ?thesis
    using assms(4,5) by (auto simp: entry_wf_def timer_fire_def settle_def split: option.splits)
qed

definition example_armed :: lease_entry where
  "example_armed = \<lparr>le_id = ''lease-1'', le_sandboxId = ''sbx-1'', le_kind = DurationLease,
     le_generation = 1, le_deadlineUnixMs = Some 5100, le_timer = Some 5100, le_signal = None,
     le_micro = False, le_settled = False\<rparr>"

theorem duration_lease_expires_at_its_deadline_witness:
  "\<exists>d. le_deadlineUnixMs example_armed = Some d
    \<and> (\<forall>now. timer_fire (example_manager\<lparr>lm_leases := [(''lease-1'', example_armed)]\<rparr>) ''lease-1'' now =
        (if now < d then (example_manager\<lparr>lm_leases := [(''lease-1'', example_armed)]\<rparr>, [])
         else (example_manager\<lparr>lm_leases := jm_delete ''lease-1'' [(''lease-1'', example_armed)]\<rparr>,
               [le_sandboxId example_armed])))"
  using duration_lease_expires_at_its_deadline [OF example_manager_new,
      of "[LCreate example_duration ''x'' (\<lambda>_. False) 100 100]" _ "''lease-1''" example_armed,
      OF _ refl]
  by (simp add: example_manager_def example_duration_def lease_create_def Let_def jm_has_def
      jm_get_def MAX_SAFE_INTEGER_def systemClock_setTimer_def example_armed_def)

text \<open>
  Extensions are bounded and cannot revive. A successful \<open>extendTimeout\<close> found a live duration
  lease whose deadline had not passed, moves that deadline later by at most the manager's cap, returns the
  new deadline, and leaves the lease armed at it alone: the old timer does not fire it any more. At or
  past the deadline the call is refused with \<open>SBX_LEASE_EXPIRED\<close> however much is asked for.
\<close>

theorem extension_is_capped_and_never_revives:
  assumes "leases_wf m" and "jm_get (lm_leases m) i = Some e" and "le_kind e = DurationLease"
    and "le_deadlineUnixMs e = Some d" and "isSafeInteger ms" and "0 < int_of ms"
    and "now \<le> now2" and "now2 < d + min (int_of ms) (lm_maxExtendMs m)"
  shows "(d \<le> now \<longrightarrow> lease_extendTimeout m i ms now now2 = Inl SBX_LEASE_EXPIRED)
    \<and> (now < d \<longrightarrow> (\<exists>m' d'. lease_extendTimeout m i ms now now2 = Inr (m', [], d')
        \<and> d < d' \<and> d' \<le> d + lm_maxExtendMs m \<and> d' \<le> d + int_of ms
        \<and> map_option ls_deadlineUnixMs (lease_get m' i) = Some (Some d')
        \<and> (\<forall>t. snd (timer_fire m' i t) = (if t < d' then [] else [le_sandboxId e]))
        \<and> (\<forall>j. j \<noteq> i \<longrightarrow> lease_get m' j = lease_get m j)))"
proof -
  have "\<not> le_settled e" "0 < lm_maxExtendMs m"
    using leases_wf_get [OF assms(1,2)] assms(1) by (auto simp: entry_wf_def leases_wf_def)
  then show ?thesis
    using assms(2-)
    by (auto simp: lease_extendTimeout_def requireExtendable_def Let_def systemClock_setTimer_def
        lease_get_def jm_get_set snapshot_def timer_fire_def settle_def)
qed

theorem extension_is_capped_and_never_revives_witness:
  "\<exists>m' d'. lease_extendTimeout (example_manager\<lparr>lm_leases := [(''lease-1'', example_armed)]\<rparr>)
       ''lease-1'' (NumInt 9000000) 200 201 = Inr (m', [], d')
     \<and> 5100 < d' \<and> d' \<le> 5100 + 1800000"
  using extension_is_capped_and_never_revives
      [of "example_manager\<lparr>lm_leases := [(''lease-1'', example_armed)]\<rparr>" "''lease-1''" example_armed
        5100 "NumInt 9000000" 200 201]
  by (fastforce simp: leases_wf_def filed_def entry_wf_def example_armed_def example_manager_def
      jm_get_def jm_ok_def MAX_SAFE_INTEGER_def)

lemma foldl_discard_leases:
  "\<forall>e \<in> set es. \<not> le_settled e \<Longrightarrow>
   lm_leases (foldl discard m es) = filter (\<lambda>x. fst x \<notin> le_id ` set es) (lm_leases m)"
  by (induction es arbitrary: m) (auto simp: discard_def jm_delete_def intro!: filter_cong)

lemma revokeAll_empty: "leases_wf m \<Longrightarrow> lm_leases (lease_revokeAll m) = []"
proof -
  assume w: "leases_wf m"
  have "\<forall>e \<in> set (map snd (lm_leases m)). \<not> le_settled e"
    using w by (auto simp: leases_wf_def entry_wf_def)
  from foldl_discard_leases [OF this] show ?thesis
    using w by (force simp: lease_revokeAll_def leases_wf_def filed_def filter_empty_conv)
qed

definition no_create :: "lease_op \<Rightarrow> bool" where
  "no_create p = (case p of LCreate _ _ _ _ _ \<Rightarrow> False | _ \<Rightarrow> True)"

lemma empty_exec:
  "lm_leases m = [] \<Longrightarrow> no_create p \<Longrightarrow> lease_exec m p = (m, [], [])"
  by (cases p) (auto simp: no_create_def Let_def renew_def lease_extendTimeout_def
      requireExtendable_def lease_release_def lease_revoke_def lease_revokeAll_def timer_fire_def
      signal_abort_def micro_run_def requireE_def bindE_def)

lemma empty_run:
  "lm_leases m = [] \<Longrightarrow> \<forall>p \<in> set ps. no_create p \<Longrightarrow> lease_run m ps = (m, [], [])"
  by (induction ps) (simp_all add: empty_exec Let_def)

text \<open>
  Silent revocation. \<open>revokeAll\<close> on a well-formed manager leaves no lease behind, and the
  sequence \<open>revokeAll\<close>, then any timer, abort, release or revoke, calls \<open>onExpire\<close> for none of the
  leases that were live.
\<close>

theorem revokeAll_is_silent:
  assumes "leases_wf m" and "\<forall>p \<in> set ps. no_create p"
  shows "lease_list (lease_revokeAll m) = []
    \<and> fst (snd (lease_run m (LRevokeAll # ps))) = []"
  using revokeAll_empty [OF assms(1)] empty_run [OF _ assms(2), of "lease_revokeAll m"]
  by (simp add: lease_list_def Let_def)

theorem revokeAll_is_silent_witness:
  "fst (snd (lease_run (example_manager\<lparr>lm_leases := [(''lease-1'', example_armed)]\<rparr>)
     [LRevokeAll, LTimer ''lease-1'' 9999, LRelease ''lease-1''])) = []"
  using revokeAll_is_silent [of "example_manager\<lparr>lm_leases := [(''lease-1'', example_armed)]\<rparr>"
      "[LTimer ''lease-1'' 9999, LRelease ''lease-1'']"]
  by (simp add: leases_wf_def filed_def entry_wf_def example_armed_def example_manager_def
      jm_ok_def no_create_def)

lemma foldl_discard_keeps_settled:
  "filed m \<Longrightarrow> jm_get (lm_leases m) i = Some e \<Longrightarrow> le_settled e \<Longrightarrow>
   \<forall>u \<in> set us. le_settled u \<or> le_id u \<noteq> i \<Longrightarrow>
   jm_get (lm_leases (foldl discard m us)) i = Some e"
  by (induction us arbitrary: m) (auto simp: discard_filed discard_def jm_get_delete filed_delete)

text \<open>
  A timer that is already due when it is armed. \<open>systemClock.setTimer\<close> then calls back before
  it returns, so \<open>create\<close> files the lease after it was settled: \<open>onExpire\<close> ran while the lease
  was unknown, the caller still gets the lease, and the entry cannot leave the table any more, neither by
  a timer nor by \<open>release\<close>, \<open>revoke\<close> or \<open>revokeAll\<close>, none of which calls \<open>onExpire\<close> for it again.
\<close>

theorem overdue_timer_leaves_a_settled_lease:
  assumes "leases_wf m" and "cs_timeout spec = TimeoutDuration d" and "now + int_of d \<le> now2"
    and "lease_create m spec fresh aborted now now2 = (m', out, Inr l)"
  shows "out = [cs_sandboxId spec] \<and> lease_get m' (ls_id l) = Some l
    \<and> lease_release m' (ls_id l) = (m', []) \<and> lease_revoke m' (ls_id l) = m'
    \<and> timer_fire m' (ls_id l) t = (m', [])
    \<and> lease_get (lease_revokeAll m') (ls_id l) = Some l"
proof -
  let ?i = "orElse (cs_id spec) fresh"
  let ?e = "\<lparr>le_id = ?i, le_sandboxId = cs_sandboxId spec, le_kind = DurationLease,
    le_generation = 1, le_deadlineUnixMs = Some (now + int_of d), le_timer = None,
    le_signal = None, le_micro = False, le_settled = True\<rparr>"
  from assms have m': "m' = m\<lparr>lm_leases := jm_set ?i ?e (lm_leases m)\<rparr>"
    and rest: "out = [cs_sandboxId spec]" "l = snapshot ?e" "\<not> jm_has (lm_leases m) ?i"
    by (auto simp: lease_create_def Let_def systemClock_setTimer_def split: if_splits)
  have f: "filed m'" using filed_set [of m ?e ?i] assms(1) m' by (simp add: leases_wf_def)
  have g: "jm_get (lm_leases m') ?i = Some ?e" by (simp add: m' jm_get_set)
  have "le_settled u \<or> le_id u \<noteq> ?i" if "u \<in> set (map snd (lm_leases m'))" for u
    using that f g by (force simp: filed_def jm_get_mem [symmetric])
  then have "jm_get (lm_leases (lease_revokeAll m')) ?i = Some ?e"
    using foldl_discard_keeps_settled [OF f g] unfolding lease_revokeAll_def by simp
  then show ?thesis
    using rest g by (simp add: lease_get_def snapshot_def lease_release_def lease_revoke_def
        timer_fire_def settle_def discard_def)
qed

definition example_late :: "lease_manager \<times> string list \<times> (lease_error + lease)" where
  "example_late = lease_create example_manager
     (example_duration\<lparr>cs_timeout := TimeoutDuration (NumInt 1)\<rparr>) ''x'' (\<lambda>_. False) 100 101"

theorem overdue_timer_leaves_a_settled_lease_witness:
  "lease_get (lease_revokeAll (fst example_late)) ''lease-1'' = Some \<lparr>ls_id = ''lease-1'',
     ls_sandboxId = ''sbx-1'', ls_kind = DurationLease, ls_generation = 1, ls_deadlineUnixMs = Some 101\<rparr>"
proof -
  have m: "leases_wf example_manager"
    by (simp add: leases_wf_def filed_def example_manager_def)
  have c: "example_late = (fst example_late, fst (snd example_late), Inr \<lparr>ls_id = ''lease-1'',
     ls_sandboxId = ''sbx-1'', ls_kind = DurationLease, ls_generation = 1, ls_deadlineUnixMs = Some 101\<rparr>)"
    by (simp add: example_late_def example_manager_def example_duration_def lease_create_def Let_def
        jm_has_def systemClock_setTimer_def MAX_SAFE_INTEGER_def snapshot_def)
  show ?thesis
    using overdue_timer_leaves_a_settled_lease [OF m _ _ c [unfolded example_late_def]]
    by (simp add: example_late_def)
qed

end
