(* ===== verification/Js_Number.thy ===== *)
theory Js_Number
  imports Complex_Main Prelude Js_Text "HOL-Library.Log_Nat"
begin

text \<open>
  Doubles and the conversion \<open>Number(text)\<close> of the language. \<open>rnd\<close> is rounding to nearest, ties to
  even, at 53 bits of precision; subnormal results are not rounded further, which no modelled check can
  tell. \<open>js_Number\<close> takes the whole grammar of numeric texts: surrounding white space, the empty text as
  zero, the prefixed radix forms, and decimal literals with sign, fraction and exponent.
\<close>

subsection \<open>Rounding\<close>

text \<open>The exponent \<open>e\<close> with \<open>2\<^sup>5\<^sup>2 \<le> x / 2\<^sup>e < 2\<^sup>5\<^sup>3\<close>, for a positive \<open>x\<close>.\<close>

definition ulp_exp :: "rat \<Rightarrow> int" where
  "ulp_exp x = (if 1 \<le> x then bitlen \<lfloor>x\<rfloor> - 53 else - bitlen (\<lceil>1 / x\<rceil> - 1) - 52)"

definition half_even :: "rat \<Rightarrow> int" where
  "half_even y = (let f = \<lfloor>y\<rfloor>; r = y - of_int f
     in if r < 1 / 2 \<or> (r = 1 / 2 \<and> even f) then f else f + 1)"

definition rnd :: "rat \<Rightarrow> rat" where
  "rnd x = (if x \<le> 0 then 0
     else of_int (half_even (x / 2 powi ulp_exp x)) * 2 powi ulp_exp x)"

lemma half_even_of_int [simp]: "half_even (of_int n) = n"
  by (simp add: half_even_def)

lemma rnd_of_int:
  assumes "0 \<le> n" and "n < 2 ^ 53"
  shows "rnd (of_int n) = of_int n"
proof (cases "n = 0")
  case False
  have "bitlen n \<le> 53"
  proof -
    have "\<not> 2 ^ nat 53 \<le> n" using assms(2) by simp
    then show ?thesis using assms bitlen_le_iff_power [of n 53] by simp
  qed
  then obtain k where k: "bitlen n - 53 = - int k"
    by (metis diff_le_0_iff_le minus_equation_iff zero_le_imp_eq_int neg_0_le_iff_le)
  have "(of_int n :: rat) / 2 powi (- int k) = of_int (n * 2 ^ k)"
    by (simp add: power_int_minus field_simps)
  then have "half_even ((of_int n :: rat) / 2 powi (- int k)) = n * 2 ^ k"
    by (metis half_even_of_int)
  then show ?thesis
    using False assms(1) k by (simp add: rnd_def ulp_exp_def power_int_minus)
qed (simp add: rnd_def)

subsection \<open>Numeric texts\<close>

definition is_space :: "char \<Rightarrow> bool" where
  "is_space c = ((9 \<le> code c \<and> code c \<le> 13) \<or> code c = 32 \<or> code c = 160)"

definition js_trim :: "string \<Rightarrow> string" where
  "js_trim s = rev (dropWhile is_space (rev (dropWhile is_space s)))"

text \<open>The value as a number: an integer, or something else when it has a fraction or is infinite.\<close>

definition to_js_number :: "rat \<Rightarrow> js_number" where
  "to_js_number q = (if 2 ^ 1024 \<le> \<bar>q\<bar> \<or> of_int \<lfloor>q\<rfloor> \<noteq> q then NumOther else NumInt \<lfloor>q\<rfloor>)"

definition digit_value :: "char \<Rightarrow> nat" where
  "digit_value c = (if is_digit c then code c - 48
     else if is_lower c then code c - 87 else if is_upper c then code c - 55 else 36)"

definition radix_literal :: "nat \<Rightarrow> string \<Rightarrow> rat option" where
  "radix_literal b s = (if s = [] \<or> \<not> list_all (\<lambda>c. digit_value c < b) s then None
     else Some (of_nat (foldl (\<lambda>a c. b * a + digit_value c) 0 s)))"

definition exponent_part :: "string \<Rightarrow> int option" where
  "exponent_part s = (case s of
      [] \<Rightarrow> Some 0
    | c # r \<Rightarrow>
        if c \<noteq> CHR ''e'' \<and> c \<noteq> CHR ''E'' then None
        else (let neg = (startsWith r ''-'');
                  ds = (if startsWith r ''-'' \<or> startsWith r ''+'' then drop 1 r else r)
              in if ds = [] \<or> \<not> list_all is_digit ds then None
                 else Some ((if neg then -1 else 1) * int (parse_dec ds))))"

definition decimal_literal :: "string \<Rightarrow> rat option" where
  "decimal_literal s =
     (let ds = takeWhile is_digit s; r = dropWhile is_digit s;
          fs = (if startsWith r ''.'' then takeWhile is_digit (drop 1 r) else []);
          r' = (if startsWith r ''.'' then dropWhile is_digit (drop 1 r) else r)
      in if ds = [] \<and> fs = [] then None
         else map_option (\<lambda>e. of_nat (parse_dec (ds @ fs)) / 10 ^ length fs * 10 powi e) (exponent_part r'))"

definition js_Number :: "string \<Rightarrow> js_number" where
  "js_Number s =
     (let t = js_trim s; pre = take 2 t
      in if t = [] then NumInt 0
         else if pre = ''0x'' \<or> pre = ''0X'' \<or> pre = ''0o'' \<or> pre = ''0O'' \<or> pre = ''0b'' \<or> pre = ''0B''
         then (let b = (if pre = ''0x'' \<or> pre = ''0X'' then 16
                        else if pre = ''0o'' \<or> pre = ''0O'' then 8 else 2)
               in case radix_literal b (drop 2 t) of None \<Rightarrow> NumOther | Some q \<Rightarrow> to_js_number (rnd q))
         else (let neg = startsWith t ''-'';
                   u = (if startsWith t ''-'' \<or> startsWith t ''+'' then drop 1 t else t)
               in case decimal_literal u of
                    None \<Rightarrow> NumOther
                  | Some q \<Rightarrow> to_js_number (if neg then - rnd q else rnd q)))"

lemma digit_not_space: "is_digit c \<Longrightarrow> \<not> is_space c"
  by (auto simp: is_digit_def is_space_def)

lemma js_trim_digits:
  assumes "list_all is_digit s"
  shows "js_trim s = s"
proof -
  have drop: "dropWhile is_space t = t" if "list_all is_digit t" for t
    using that by (cases t) (auto simp: digit_not_space)
  have "list_all is_digit (rev s)" using assms by (simp add: list_all_iff)
  then show ?thesis using drop [OF assms] drop [of "rev s"] by (simp add: js_trim_def)
qed

lemma not_digit_char [simp]:
  "\<not> is_digit (CHR ''x'')" "\<not> is_digit (CHR ''X'')" "\<not> is_digit (CHR ''o'')" "\<not> is_digit (CHR ''O'')"
  "\<not> is_digit (CHR ''b'')" "\<not> is_digit (CHR ''B'')" "\<not> is_digit (CHR ''-'')" "\<not> is_digit (CHR ''+'')"
  "\<not> is_digit (CHR ''.'')"
  by (simp_all add: is_digit_def code_def)

lemma take_digits: "list_all is_digit s \<Longrightarrow> \<not> is_digit c \<Longrightarrow> take 2 s \<noteq> [d, c]"
  by (cases s rule: list.exhaust; cases "tl s") auto

lemma decimal_literal_digits:
  assumes "list_all is_digit s" and "s \<noteq> []"
  shows "decimal_literal s = Some (of_nat (parse_dec s))"
proof -
  have td: "takeWhile is_digit s = s" "dropWhile is_digit s = []"
    using assms(1) by (auto simp: takeWhile_eq_all_conv list_all_iff)
  show ?thesis using assms(2) by (simp add: decimal_literal_def td Let_def startsWith_def exponent_part_def)
qed

lemma js_Number_digits:
  assumes d: "list_all is_digit s" and "s \<noteq> []"
  shows "js_Number s = to_js_number (rnd (of_nat (parse_dec s)))"
proof -
  have "\<not> startsWith s ''-''" "\<not> startsWith s ''+''"
    using assms by (cases s; auto simp: startsWith_def)+
  then show ?thesis
    using assms take_digits [OF d] by (simp add: js_Number_def js_trim_digits decimal_literal_digits Let_def)
qed

lemma to_js_number_int: "\<bar>i\<bar> < 2 ^ 1024 \<Longrightarrow> to_js_number (of_int i) = NumInt i"
  by (simp add: to_js_number_def flip: of_int_abs)

lemma js_Number_dec:
  assumes "int n < 2 ^ 53"
  shows "js_Number (dec n) = NumInt (int n)"
proof -
  have d: "list_all is_digit (dec n)" using dec_digits by (simp add: list_all_iff)
  have r: "rnd (of_nat n) = of_int (int n)" using rnd_of_int [of "int n"] assms by simp
  have "\<bar>int n\<bar> < 2 ^ 1024"
    using assms power_strict_increasing [of 53 1024 "2 :: int"] by linarith
  then have "to_js_number (of_int (int n)) = NumInt (int n)" by (rule to_js_number_int)
  then show ?thesis
    using js_Number_digits [OF d dec_nonempty] unfolding parse_dec_dec r by (rule trans [rotated])
qed

end
