(* ===== verification/Memory_Grammar.thy ===== *)
theory Memory_Grammar
  imports Js_Number
begin

text \<open>
  \<^verbatim>\<open>src/api/memory.ts\<close>: the memory size grammar and its 768 MiB to 4 GiB contract.

  Numbers are doubles: a rational, an infinity or NaN. \<open>Number(digits)\<close> and the multiplication by the
  unit round (\<open>rnd\<close>); the division by
  the power of two \<open>MEBIBYTE\<close> is exact. Overflow to an infinity and underflow are not modelled: both
  sides of either are far outside the accepted range.
\<close>

datatype js_double = Fin rat | PosInf | NegInf | NaN

datatype memory = MemNumber js_double | MemString string

datatype memory_error = InvalidMemoryError

definition MEBIBYTE :: rat where
  "MEBIBYTE = 1048576"

definition MIN_MEMORY_MIB :: int where
  "MIN_MEMORY_MIB = 768"

definition MAX_MEMORY_MIB :: int where
  "MAX_MEMORY_MIB = 4096"

definition UNITS :: "(string \<times> rat) list" where
  "UNITS = [(''GiB'', 1073741824), (''MiB'', 1048576), (''KiB'', 1024),
            (''GB'', 1000000000), (''MB'', 1000000), (''kB'', 1000)]"

text \<open>The digits of the pattern's first group, with an optional fraction.\<close>

definition literal_value :: "string \<Rightarrow> string \<Rightarrow> rat" where
  "literal_value ds fs = of_nat (parse_dec ds) + of_nat (parse_dec fs) / 10 ^ length fs"

text \<open>
  \<open>MEMORY_PATTERN\<close>: the value of the first group, rounded, and the second group.
\<close>

definition memory_match :: "string \<Rightarrow> (rat \<times> string) option" where
  "memory_match s =
     (let ds = takeWhile is_digit s; rest = dropWhile is_digit s
      in if ds = [] then None
         else (case rest of
             [] \<Rightarrow> None
           | c # tail \<Rightarrow>
               (if c = CHR ''.''
                then (let fs = takeWhile is_digit tail; u = dropWhile is_digit tail
                      in if fs = [] \<or> map_of UNITS u = None then None
                         else Some (rnd (literal_value ds fs), u))
                else if map_of UNITS rest = None then None
                else Some (rnd (literal_value ds []), rest))))"

definition floor_mib :: "js_double \<Rightarrow> js_double" where
  "floor_mib v = (case v of Fin x \<Rightarrow> Fin (of_int \<lfloor>x / MEBIBYTE\<rfloor>) | _ \<Rightarrow> v)"

text \<open>The range check: a NaN fails neither comparison. \<open>None\<close> is the NaN that then comes back.\<close>

definition check_mib :: "js_double \<Rightarrow> memory_error + int option" where
  "check_mib m = (case m of
      Fin x \<Rightarrow> if x < of_int MIN_MEMORY_MIB \<or> of_int MAX_MEMORY_MIB < x
              then Inl InvalidMemoryError else Inr (Some \<lfloor>x\<rfloor>)
    | NaN \<Rightarrow> Inr None
    | _ \<Rightarrow> Inl InvalidMemoryError)"

definition parseMemory :: "memory \<Rightarrow> memory_error + int option" where
  "parseMemory v = (case v of
      MemNumber x \<Rightarrow> check_mib (floor_mib x)
    | MemString s \<Rightarrow> (case memory_match s of
          None \<Rightarrow> Inl InvalidMemoryError
        | Some (n, u) \<Rightarrow> check_mib (floor_mib (Fin (rnd (n * orElse (map_of UNITS u) 0))))))"

subsection \<open>Properties\<close>

lemma check_mib_Inr: "check_mib m = Inr (Some i) \<Longrightarrow> MIN_MEMORY_MIB \<le> i \<and> i \<le> MAX_MEMORY_MIB"
  by (auto simp: check_mib_def le_floor_iff floor_le_iff split: js_double.splits if_splits)

lemma parseMemory_range:
  "parseMemory v = Inr (Some i) \<Longrightarrow> 768 \<le> i \<and> i \<le> 4096"
  using check_mib_Inr
  by (fastforce simp: parseMemory_def MIN_MEMORY_MIB_def MAX_MEMORY_MIB_def
      split: memory.splits option.splits prod.splits)

lemma check_mib_NaN: "check_mib m = Inr None \<longleftrightarrow> m = NaN"
  by (auto simp: check_mib_def split: js_double.splits)

lemma floor_mib_NaN [simp]: "floor_mib v = NaN \<longleftrightarrow> v = NaN"
  by (auto simp: floor_mib_def split: js_double.splits)

lemma parseMemory_NaN: "parseMemory v = Inr None \<longleftrightarrow> v = MemNumber NaN"
  by (auto simp: parseMemory_def check_mib_NaN split: memory.splits option.splits)

lemma check_floor_int:
  "768 \<le> n \<Longrightarrow> n \<le> 4096 \<Longrightarrow> check_mib (floor_mib (Fin (of_int (n * 1048576)))) = Inr (Some n)"
  by (simp add: check_mib_def floor_mib_def MEBIBYTE_def MIN_MEMORY_MIB_def MAX_MEMORY_MIB_def)

lemma parseMemory_bytes:
  "768 \<le> n \<Longrightarrow> n \<le> 4096 \<Longrightarrow> parseMemory (MemNumber (Fin (of_int (n * 1048576)))) = Inr (Some n)"
  by (simp only: parseMemory_def memory.case check_floor_int)

lemma take_drop_digits:
  assumes "\<not> is_digit c"
  shows "takeWhile is_digit (dec k @ c # s) = dec k \<and> dropWhile is_digit (dec k @ c # s) = c # s"
  using assms dec_digits [of _ k] by (simp add: takeWhile_append dropWhile_append)

lemma memory_match_MiB:
  assumes "int k < 2 ^ 53"
  shows "memory_match (dec k @ ''MiB'') = Some (of_nat k, ''MiB'')"
proof -
  have m: "\<not> is_digit (CHR ''M'')" by (simp add: is_digit_def code_def)
  have "rnd (of_nat k) = of_nat k"
    using rnd_of_int [of "int k"] assms by simp
  then show ?thesis
    using take_drop_digits [OF m, of k "''iB''"]
    by (simp add: memory_match_def Let_def UNITS_def literal_value_def parse_dec_dec)
qed

lemma parseMemory_MiB:
  assumes "768 \<le> k" and "k \<le> 4096"
  shows "parseMemory (MemString (dec k @ ''MiB'')) = Inr (Some (int k))"
proof -
  have "int k < 2 ^ 53" using assms by simp
  moreover have "rnd (of_nat k * 1048576) = of_nat k * 1048576"
    using rnd_of_int [of "int k * 1048576"] assms by simp
  ultimately show ?thesis
    using check_floor_int [of "int k"] assms
    by (simp add: parseMemory_def memory_match_MiB UNITS_def)
qed

text \<open>
  The memory contract. Whatever the value, number or text, an accepted size is an integer between
  768 and 4096 MiB, or the value was NaN, the one input that passes the range check and comes back as it
  is; and every such integer is accepted and comes back exact, as a byte count and as text with the unit
  MiB.
\<close>

theorem memory_contract:
  "(\<forall>v r. parseMemory v = Inr r \<longrightarrow>
      (case r of Some i \<Rightarrow> 768 \<le> i \<and> i \<le> 4096 | None \<Rightarrow> v = MemNumber NaN))
   \<and> parseMemory (MemNumber NaN) = Inr None
   \<and> (\<forall>k. 768 \<le> k \<and> k \<le> 4096 \<longrightarrow>
        parseMemory (MemString (dec k @ ''MiB'')) = Inr (Some (int k))
        \<and> parseMemory (MemNumber (Fin (of_int (int k * 1048576)))) = Inr (Some (int k)))"
proof (intro conjI allI impI)
  fix v r
  assume "parseMemory v = Inr r"
  then show "case r of Some i \<Rightarrow> 768 \<le> i \<and> i \<le> 4096 | None \<Rightarrow> v = MemNumber NaN"
    by (auto simp: parseMemory_NaN dest: parseMemory_range split: option.splits)
next
  fix k :: nat
  assume "768 \<le> k \<and> k \<le> 4096"
  then show "parseMemory (MemString (dec k @ ''MiB'')) = Inr (Some (int k))"
    and "parseMemory (MemNumber (Fin (of_int (int k * 1048576)))) = Inr (Some (int k))"
    by (auto intro: parseMemory_MiB parseMemory_bytes simp del: of_int_mult)
qed (simp add: parseMemory_NaN)

theorem memory_contract_witness:
  "parseMemory (MemString (dec 1024 @ ''MiB'')) = Inr (Some 1024)"
  using memory_contract [THEN conjunct2, THEN conjunct2, rule_format, of 1024] by simp

end
