(* ===== verification/Capacity.thy ===== *)
theory Capacity
  imports Memory_Grammar
begin

text \<open>
  \<^verbatim>\<open>src/hostd/capacity.ts\<close>: the host's capacity ledger.

  The ledger is a record of its private fields, the two collections in insertion order. A memory
  amount is an integer, or \<open>None\<close> for the NaN that \<open>parseMemory\<close> lets through; \<open>num_add\<close>, \<open>num_sub\<close> and
  \<open>num_gt\<close> are the arithmetic and the comparison on it. \<open>reserve\<close> is split where it waits: what runs
  before the lock (\<open>reserve_validate\<close>), the checks inside it (\<open>reserve_check\<close>) and the commit after the
  admission barrier (\<open>reserve_commit\<close>). The lock itself, \<open>#exclusive\<close>, is the queue of
  \<open>cap_machine\<close>, whose steps interleave with arrivals in any order.
\<close>

definition VCPUS_PER_SANDBOX :: int where
  "VCPUS_PER_SANDBOX = 2"

datatype capacity_dimension = DimMemory | DimVcpu | DimDisk | DimPorts | DimSandboxes

datatype capacity_error =
    HostCapacityExhausted capacity_dimension
  | CapacityRangeError
  | CapacityMemoryError memory_error
  | AdmissionFailed

record port_range =
  pr_start :: js_number
  pr_end :: js_number

record host_budget =
  hb_vcpus :: "js_number option"
  hb_memoryMiB :: "js_number option"
  hb_diskBytes :: "js_number option"
  hb_portRange :: "port_range option"

record host_headroom =
  hh_vcpus :: "js_number option"
  hh_memoryMiB :: "js_number option"
  hh_diskBytes :: "js_number option"

record reservation_request =
  rq_memory :: memory
  rq_diskBytes :: js_number
  rq_ports :: "js_number option"

record reservation =
  rs_id :: string
  rs_memoryMiB :: "int option"
  rs_vcpus :: int
  rs_diskBytes :: int
  rs_ports :: "int list"

record capacity_report =
  cr_memoryTotalMiB :: int
  cr_memoryCommittedMiB :: "int option"
  cr_vcpusTotal :: int
  cr_vcpusCommitted :: int
  cr_diskTotalBytes :: int
  cr_diskCommittedBytes :: int
  cr_portsTotal :: int
  cr_portsCommitted :: int
  cr_sandboxLimit :: int
  cr_sandboxCount :: int

record ledger =
  cl_vcpusTotal :: int
  cl_memoryTotalMiB :: int
  cl_diskTotalBytes :: int
  cl_portStart :: int
  cl_portEnd :: int
  cl_sandboxLimit :: int
  cl_vcpusCommitted :: int
  cl_memoryCommittedMiB :: "int option"
  cl_diskCommittedBytes :: int
  cl_allocatedPorts :: "int list"
  cl_reservations :: "(string, reservation) jsmap"

definition num_add :: "int option \<Rightarrow> int option \<Rightarrow> int option" where
  "num_add a b = (case (a, b) of (Some x, Some y) \<Rightarrow> Some (x + y) | _ \<Rightarrow> None)"

definition num_sub :: "int option \<Rightarrow> int option \<Rightarrow> int option" where
  "num_sub a b = (case (a, b) of (Some x, Some y) \<Rightarrow> Some (x - y) | _ \<Rightarrow> None)"

definition num_gt :: "int option \<Rightarrow> int \<Rightarrow> bool" where
  "num_gt a n = (case a of Some x \<Rightarrow> n < x | None \<Rightarrow> False)"

definition GIB :: int where
  "GIB = 1024 * (1024 * 1024)"

definition DEFAULT_BUDGET :: "js_number \<times> js_number \<times> js_number \<times> port_range" where
  "DEFAULT_BUDGET = (NumInt 4, NumInt (8 * 1024), NumInt (60 * GIB),
     \<lparr>pr_start = NumInt 20000, pr_end = NumInt 20128\<rparr>)"

definition DEFAULT_HEADROOM :: "js_number \<times> js_number \<times> js_number" where
  "DEFAULT_HEADROOM = (NumInt 0, NumInt 512, NumInt 0)"

definition nonNegativeInt :: "js_number \<Rightarrow> bool" where
  "nonNegativeInt n = (isSafeInteger n \<and> 0 \<le> int_of n)"

definition new_ledger :: "host_budget \<Rightarrow> host_headroom \<Rightarrow> js_number option
    \<Rightarrow> capacity_error + ledger" where
  "new_ledger budget headroom maxSandboxes =
     (case (DEFAULT_BUDGET, DEFAULT_HEADROOM) of ((dv, dm, dd, dr), (ev, em, ed)) \<Rightarrow>
      let bv = orElse (hb_vcpus budget) dv; bm = orElse (hb_memoryMiB budget) dm;
          bd = orElse (hb_diskBytes budget) dd; r = orElse (hb_portRange budget) dr;
          hv = orElse (hh_vcpus headroom) ev; hm = orElse (hh_memoryMiB headroom) em;
          hd = orElse (hh_diskBytes headroom) ed
      in if \<not> list_all nonNegativeInt [bv, bm, bd, hv, hm, hd, pr_start r, pr_end r]
         then Inl CapacityRangeError
         else if int_of (pr_end r) < int_of (pr_start r) then Inl CapacityRangeError
         else
           (let v = int_of bv - int_of hv; m = int_of bm - int_of hm; d = int_of bd - int_of hd
            in if v < 0 \<or> m < 0 \<or> d < 0 then Inl CapacityRangeError
               else
                 (let derived = v div VCPUS_PER_SANDBOX;
                      l = \<lparr>cl_vcpusTotal = v, cl_memoryTotalMiB = m, cl_diskTotalBytes = d,
                           cl_portStart = int_of (pr_start r), cl_portEnd = int_of (pr_end r),
                           cl_sandboxLimit = derived, cl_vcpusCommitted = 0,
                           cl_memoryCommittedMiB = Some 0, cl_diskCommittedBytes = 0,
                           cl_allocatedPorts = [], cl_reservations = []\<rparr>
                  in (case maxSandboxes of
                        None \<Rightarrow> Inr l
                      | Some n \<Rightarrow> if nonNegativeInt n
                          then Inr (l\<lparr>cl_sandboxLimit := min (int_of n) derived\<rparr>)
                          else Inl CapacityRangeError))))"

definition cl_portsTotal :: "ledger \<Rightarrow> int" where
  "cl_portsTotal l = cl_portEnd l - cl_portStart l"

definition reserve_validate :: "reservation_request \<Rightarrow> capacity_error + int option \<times> int \<times> int" where
  "reserve_validate q =
     (case parseMemory (rq_memory q) of
        Inl e \<Rightarrow> Inl (CapacityMemoryError e)
      | Inr mem \<Rightarrow>
          (let ports = orElse (rq_ports q) (NumInt 0)
           in if \<not> nonNegativeInt (rq_diskBytes q) then Inl CapacityRangeError
              else if \<not> nonNegativeInt ports then Inl CapacityRangeError
              else Inr (mem, int_of (rq_diskBytes q), int_of ports)))"

text \<open>The checks of the critical section, in the order of the source; \<open>None\<close> when all pass.\<close>

definition reserve_check :: "ledger \<Rightarrow> int option \<times> int \<times> int \<Rightarrow> capacity_dimension option" where
  "reserve_check l v = (case v of (mem, disk, ports) \<Rightarrow>
     if cl_vcpusTotal l < cl_vcpusCommitted l + VCPUS_PER_SANDBOX then Some DimVcpu
     else if num_gt (num_add (cl_memoryCommittedMiB l) mem) (cl_memoryTotalMiB l) then Some DimMemory
     else if cl_diskTotalBytes l < cl_diskCommittedBytes l + disk then Some DimDisk
     else if cl_portsTotal l - int (length (cl_allocatedPorts l)) < ports then Some DimPorts
     else if cl_sandboxLimit l < int (length (cl_reservations l)) + 1 then Some DimSandboxes
     else None)"

text \<open>\<open>#allocatePorts\<close>: the loop over the range, \<open>n\<close> ports of it left, \<open>k\<close> still wanted.\<close>

fun allocate_loop :: "int list \<Rightarrow> int \<Rightarrow> nat \<Rightarrow> nat \<Rightarrow> int list \<times> int list" where
  "allocate_loop used port 0 k = (used, [])"
| "allocate_loop used port (Suc n) k =
     (if k = 0 then (used, [])
      else if port \<in> set used then allocate_loop used (port + 1) n k
      else (let r = allocate_loop (used @ [port]) (port + 1) n (k - 1)
            in (fst r, port # snd r)))"

definition allocatePorts :: "ledger \<Rightarrow> int \<Rightarrow> ledger \<times> int list" where
  "allocatePorts l wanted =
     (let r = allocate_loop (cl_allocatedPorts l) (cl_portStart l) (nat (cl_portsTotal l)) (nat wanted)
      in (l\<lparr>cl_allocatedPorts := fst r\<rparr>, snd r))"

definition reserve_commit :: "ledger \<Rightarrow> int option \<times> int \<times> int \<Rightarrow> string \<Rightarrow> ledger \<times> reservation" where
  "reserve_commit l v fresh = (case v of (mem, disk, ports) \<Rightarrow>
     let r = allocatePorts l ports; l1 = fst r;
         res = \<lparr>rs_id = fresh, rs_memoryMiB = mem, rs_vcpus = VCPUS_PER_SANDBOX,
                rs_diskBytes = disk, rs_ports = snd r\<rparr>
     in (l1\<lparr>cl_vcpusCommitted := cl_vcpusCommitted l1 + VCPUS_PER_SANDBOX,
            cl_memoryCommittedMiB := num_add (cl_memoryCommittedMiB l1) mem,
            cl_diskCommittedBytes := cl_diskCommittedBytes l1 + disk,
            cl_reservations := jm_set fresh res (cl_reservations l1)\<rparr>, res))"

text \<open>
  \<open>reserve\<close> with the lock held throughout; \<open>barrier\<close> tells whether the admission barrier resolved.
\<close>

definition reserve :: "ledger \<Rightarrow> reservation_request \<Rightarrow> bool \<Rightarrow> string
    \<Rightarrow> ledger \<times> (capacity_error + reservation)" where
  "reserve l q barrier fresh =
     (case reserve_validate q of
        Inl e \<Rightarrow> (l, Inl e)
      | Inr v \<Rightarrow> (case reserve_check l v of
            Some d \<Rightarrow> (l, Inl (HostCapacityExhausted d))
          | None \<Rightarrow> if \<not> barrier then (l, Inl AdmissionFailed)
                    else (let r = reserve_commit l v fresh in (fst r, Inr (snd r)))))"

definition cap_release :: "ledger \<Rightarrow> string \<Rightarrow> ledger" where
  "cap_release l i = (case jm_get (cl_reservations l) i of
      None \<Rightarrow> l
    | Some held \<Rightarrow>
        l\<lparr>cl_reservations := jm_delete i (cl_reservations l),
          cl_vcpusCommitted := cl_vcpusCommitted l - rs_vcpus held,
          cl_memoryCommittedMiB := num_sub (cl_memoryCommittedMiB l) (rs_memoryMiB held),
          cl_diskCommittedBytes := cl_diskCommittedBytes l - rs_diskBytes held,
          cl_allocatedPorts := filter (\<lambda>p. p \<notin> set (rs_ports held)) (cl_allocatedPorts l)\<rparr>)"

definition capacity :: "ledger \<Rightarrow> capacity_report" where
  "capacity l = \<lparr>cr_memoryTotalMiB = cl_memoryTotalMiB l,
     cr_memoryCommittedMiB = cl_memoryCommittedMiB l, cr_vcpusTotal = cl_vcpusTotal l,
     cr_vcpusCommitted = cl_vcpusCommitted l, cr_diskTotalBytes = cl_diskTotalBytes l,
     cr_diskCommittedBytes = cl_diskCommittedBytes l, cr_portsTotal = cl_portsTotal l,
     cr_portsCommitted = int (length (cl_allocatedPorts l)), cr_sandboxLimit = cl_sandboxLimit l,
     cr_sandboxCount = int (length (cl_reservations l))\<rparr>"

definition cap_usage :: "ledger \<Rightarrow> string \<Rightarrow> (int option \<times> int \<times> int \<times> int list) option" where
  "cap_usage l i = map_option (\<lambda>h. (rs_memoryMiB h, rs_vcpus h, rs_diskBytes h, rs_ports h))
     (jm_get (cl_reservations l) i)"

subsection \<open>The port loop against its specification\<close>

lemma allocate_loop_filter:
  "allocate_loop used port n k =
     (used @ take k (filter (\<lambda>p. p \<notin> set used) [port..port + int n - 1]),
      take k (filter (\<lambda>p. p \<notin> set used) [port..port + int n - 1]))"
proof (induction used port n k rule: allocate_loop.induct)
  case (2 used port n k)
  have split: "[port..port + int (Suc n) - 1] = port # [port + 1..port + 1 + int n - 1]"
    by (simp add: upto_rec1 algebra_simps)
  have rest: "filter (\<lambda>p. p \<notin> set (used @ [port])) [port + 1..port + 1 + int n - 1]
    = filter (\<lambda>p. p \<notin> set used) [port + 1..port + 1 + int n - 1]"
    by (rule filter_cong) auto
  consider "k = 0" | "k \<noteq> 0" "port \<in> set used" | "k \<noteq> 0" "port \<notin> set used" by blast
  then show ?case
  proof cases
    case 3
    with 2(2) show ?thesis
      unfolding split using rest by (cases k) (simp_all add: Let_def)
  qed (use 2(1) in \<open>simp_all only: split allocate_loop.simps filter.simps if_True if_False
        simp_thms take_0 append_Nil2\<close>)
qed simp

text \<open>What the loop owes its caller: the lowest free ports of the range, as many as wanted.\<close>

definition free_ports :: "ledger \<Rightarrow> int list" where
  "free_ports l = filter (\<lambda>p. p \<notin> set (cl_allocatedPorts l)) [cl_portStart l..cl_portEnd l - 1]"

lemma allocatePorts_spec:
  assumes "cl_portStart l \<le> cl_portEnd l"
  shows "allocatePorts l wanted =
    (l\<lparr>cl_allocatedPorts := cl_allocatedPorts l @ take (nat wanted) (free_ports l)\<rparr>,
     take (nat wanted) (free_ports l))"
  using assms by (simp add: allocatePorts_def Let_def allocate_loop_filter free_ports_def cl_portsTotal_def)

lemma length_free_ports:
  assumes "distinct (cl_allocatedPorts l)"
    and "set (cl_allocatedPorts l) \<subseteq> {cl_portStart l..<cl_portEnd l}"
    and "cl_portStart l \<le> cl_portEnd l"
  shows "int (length (free_ports l)) = cl_portsTotal l - int (length (cl_allocatedPorts l))"
proof -
  have "length (free_ports l) = card (set (free_ports l))"
    unfolding free_ports_def by (rule distinct_card [symmetric]) simp
  also have "set (free_ports l) = {cl_portStart l..<cl_portEnd l} - set (cl_allocatedPorts l)"
    by (auto simp: free_ports_def)
  also have "card \<dots> = card {cl_portStart l..<cl_portEnd l} - length (cl_allocatedPorts l)"
    using assms by (simp add: card_Diff_subset distinct_card)
  finally have eq: "length (free_ports l)
    = nat (cl_portEnd l - cl_portStart l) - length (cl_allocatedPorts l)" by simp
  have "length (cl_allocatedPorts l) \<le> nat (cl_portEnd l - cl_portStart l)"
    using assms card_mono [OF _ assms(2)] by (simp add: distinct_card)
  then show ?thesis using eq assms(3) by (simp add: cl_portsTotal_def)
qed

subsection \<open>Invariant\<close>

definition resv_ok :: "ledger \<Rightarrow> reservation \<Rightarrow> bool" where
  "resv_ok l r = (rs_vcpus r = VCPUS_PER_SANDBOX \<and> 0 \<le> rs_diskBytes r
     \<and> set (rs_ports r) \<subseteq> {cl_portStart l..<cl_portEnd l}
     \<and> (\<forall>k. rs_memoryMiB r = Some k \<longrightarrow> 768 \<le> k \<and> k \<le> 4096))"

definition memory_ok :: "ledger \<Rightarrow> bool" where
  "memory_ok l = (case cl_memoryCommittedMiB l of
      None \<Rightarrow> True
    | Some c \<Rightarrow> c \<le> cl_memoryTotalMiB l \<and> c = jm_total (\<lambda>r. the (rs_memoryMiB r)) (cl_reservations l)
        \<and> (\<forall>(i, r) \<in> set (cl_reservations l). rs_memoryMiB r \<noteq> None))"

text \<open>
  The books balance: what is committed is the total over the reservations held, the allocated ports
  are theirs and no port is in two of them, and nothing exceeds the budget.
\<close>

definition ledger_ok :: "ledger \<Rightarrow> bool" where
  "ledger_ok l = (jm_ok (cl_reservations l) \<and> cl_portStart l \<le> cl_portEnd l
     \<and> (\<forall>(i, r) \<in> set (cl_reservations l). rs_id r = i \<and> resv_ok l r)
     \<and> cl_vcpusCommitted l = jm_total rs_vcpus (cl_reservations l)
     \<and> cl_vcpusCommitted l \<le> cl_vcpusTotal l
     \<and> cl_diskCommittedBytes l = jm_total rs_diskBytes (cl_reservations l)
     \<and> cl_diskCommittedBytes l \<le> cl_diskTotalBytes l
     \<and> distinct (cl_allocatedPorts l)
     \<and> mset (cl_allocatedPorts l) = jm_total (\<lambda>r. mset (rs_ports r)) (cl_reservations l)
     \<and> int (length (cl_reservations l)) \<le> cl_sandboxLimit l
     \<and> memory_ok l)"

lemma set_jm_total: "x \<in># jm_total (\<lambda>r. mset (f r)) m \<longleftrightarrow> (\<exists>(i, r) \<in> set m. x \<in> set (f r))"
  by (induction m) (auto simp: jm_total_def)

lemma allocated_iff:
  assumes "ledger_ok l"
  shows "p \<in> set (cl_allocatedPorts l) \<longleftrightarrow> (\<exists>(i, r) \<in> set (cl_reservations l). p \<in> set (rs_ports r))"
proof -
  have "mset (cl_allocatedPorts l) = jm_total (\<lambda>r. mset (rs_ports r)) (cl_reservations l)"
    using assms by (simp add: ledger_ok_def)
  then show ?thesis using set_jm_total [of p rs_ports "cl_reservations l"] by (simp flip: set_mset_mset)
qed

lemma allocated_range:
  "ledger_ok l \<Longrightarrow> set (cl_allocatedPorts l) \<subseteq> {cl_portStart l..<cl_portEnd l}"
proof
  fix p
  assume ok: "ledger_ok l" and "p \<in> set (cl_allocatedPorts l)"
  then obtain i r where "(i, r) \<in> set (cl_reservations l)" "p \<in> set (rs_ports r)"
    using allocated_iff [OF ok] by auto
  moreover from this(1) ok have "resv_ok l r" by (auto simp: ledger_ok_def)
  ultimately show "p \<in> {cl_portStart l..<cl_portEnd l}" by (auto simp: resv_ok_def)
qed

lemma ledger_get:
  "ledger_ok l \<Longrightarrow> jm_get (cl_reservations l) i = Some r \<Longrightarrow> rs_id r = i \<and> resv_ok l r"
  by (auto simp: ledger_ok_def jm_get_mem)

lemma new_ledger_ok: "new_ledger b h m = Inr l \<Longrightarrow> ledger_ok l"
  by (auto simp: new_ledger_def DEFAULT_BUDGET_def DEFAULT_HEADROOM_def Let_def ledger_ok_def
      memory_ok_def nonNegativeInt_def VCPUS_PER_SANDBOX_def split: if_splits option.splits)

definition validated :: "int option \<times> int \<times> int \<Rightarrow> bool" where
  "validated v = (case v of (mem, disk, ports) \<Rightarrow>
     0 \<le> disk \<and> 0 \<le> ports \<and> (\<forall>k. mem = Some k \<longrightarrow> 768 \<le> k \<and> k \<le> 4096))"

lemma reserve_validate_Inr: "reserve_validate q = Inr v \<Longrightarrow> validated v"
  by (auto simp: reserve_validate_def validated_def Let_def nonNegativeInt_def
      dest: parseMemory_range split: sum.splits if_splits)

lemma reserve_check_None:
  "reserve_check l (mem, disk, ports) = None \<longleftrightarrow>
     cl_vcpusCommitted l + VCPUS_PER_SANDBOX \<le> cl_vcpusTotal l
     \<and> (\<forall>k. num_add (cl_memoryCommittedMiB l) mem = Some k \<longrightarrow> k \<le> cl_memoryTotalMiB l)
     \<and> cl_diskCommittedBytes l + disk \<le> cl_diskTotalBytes l
     \<and> ports \<le> cl_portsTotal l - int (length (cl_allocatedPorts l))
     \<and> int (length (cl_reservations l)) + 1 \<le> cl_sandboxLimit l"
  by (auto simp: reserve_check_def num_gt_def split: option.splits)

lemma reserve_commit_ports:
  assumes "ledger_ok l" and "reserve_check l (mem, disk, ports) = None" and "0 \<le> ports"
    and "reserve_commit l (mem, disk, ports) i = (l', r)"
  shows "rs_ports r = take (nat ports) (free_ports l) \<and> int (length (rs_ports r)) = ports
    \<and> distinct (rs_ports r) \<and> set (rs_ports r) \<inter> set (cl_allocatedPorts l) = {}
    \<and> set (rs_ports r) \<subseteq> {cl_portStart l..<cl_portEnd l}"
proof -
  have le: "cl_portStart l \<le> cl_portEnd l" using assms(1) by (simp add: ledger_ok_def)
  have eq: "rs_ports r = take (nat ports) (free_ports l)"
    using assms(4) by (auto simp: reserve_commit_def Let_def allocatePorts_spec [OF le])
  have "int (length (free_ports l)) = cl_portsTotal l - int (length (cl_allocatedPorts l))"
    using assms(1) by (intro length_free_ports allocated_range le) (auto simp: ledger_ok_def)
  then have "int (length (rs_ports r)) = ports"
    using eq assms(2,3) by (auto simp: reserve_check_None)
  moreover have "distinct (free_ports l)" by (simp add: free_ports_def)
  moreover have "set (rs_ports r) \<subseteq> set (free_ports l)" using eq by (simp add: set_take_subset)
  ultimately show ?thesis using eq by (auto simp: free_ports_def)
qed

lemma reserve_commit_eq:
  assumes "cl_portStart l \<le> cl_portEnd l" and "reserve_commit l (mem, disk, ports) i = (l', r)"
  shows "r = \<lparr>rs_id = i, rs_memoryMiB = mem, rs_vcpus = VCPUS_PER_SANDBOX, rs_diskBytes = disk,
      rs_ports = take (nat ports) (free_ports l)\<rparr>"
    and "l' = l\<lparr>cl_vcpusCommitted := cl_vcpusCommitted l + VCPUS_PER_SANDBOX,
      cl_memoryCommittedMiB := num_add (cl_memoryCommittedMiB l) mem,
      cl_diskCommittedBytes := cl_diskCommittedBytes l + disk,
      cl_allocatedPorts := cl_allocatedPorts l @ take (nat ports) (free_ports l),
      cl_reservations := jm_set i r (cl_reservations l)\<rparr>"
  using assms(2) by (auto simp: reserve_commit_def Let_def allocatePorts_spec [OF assms(1)])

lemma reserve_commit_ok:
  assumes ok: "ledger_ok l" and check: "reserve_check l v = None" and v: "validated v"
    and fresh: "jm_get (cl_reservations l) i = None"
    and eq: "reserve_commit l v i = (l', r)"
  shows "ledger_ok l'"
proof -
  obtain mem disk ports where v3: "v = (mem, disk, ports)" by (cases v)
  note chk = check [unfolded v3] and eq' = eq [unfolded v3]
  have le: "cl_portStart l \<le> cl_portEnd l" using ok by (simp add: ledger_ok_def)
  have ports: "0 \<le> ports" using v v3 by (simp add: validated_def)
  note p = reserve_commit_ports [OF ok chk ports eq'] and l' = reserve_commit_eq [OF le eq']
  have fields: "rs_vcpus r = VCPUS_PER_SANDBOX" "rs_diskBytes r = disk" "rs_id r = i"
    "rs_memoryMiB r = mem"
    by (simp_all add: l'(1))
  have new: "resv_ok l' r"
    using p v by (auto simp: resv_ok_def fields l'(2) v3 validated_def)
  have old: "resv_ok l' = resv_ok l" by (simp add: fun_eq_iff resv_ok_def l'(2))
  have mem: "memory_ok l'"
  proof (cases "num_add (cl_memoryCommittedMiB l) mem")
    case None
    then show ?thesis by (simp add: memory_ok_def l'(2))
  next
    case (Some c)
    then obtain a b where ab: "cl_memoryCommittedMiB l = Some a" "mem = Some b" "c = a + b"
      by (auto simp: num_add_def split: option.splits)
    have r: "rs_memoryMiB r = Some b" by (simp add: ab fields)
    have "memory_ok l" using ok by (simp add: ledger_ok_def)
    moreover have "c \<le> cl_memoryTotalMiB l" using chk Some by (simp add: reserve_check_None)
    ultimately show ?thesis
      using r ab ok fresh
      by (auto simp: memory_ok_def l'(2) num_add_def jm_total_fresh ledger_ok_def jm_mem_set)
  qed
  have dist: "distinct (cl_allocatedPorts l')"
    using ok p l'(1) by (auto simp: ledger_ok_def l'(2))
  have ms: "mset (cl_allocatedPorts l') = jm_total (\<lambda>r. mset (rs_ports r)) (cl_reservations l')"
    using ok fresh p by (simp add: ledger_ok_def l'(2) jm_total_fresh)
  have ent: "\<forall>(j, u) \<in> set (cl_reservations l'). rs_id u = j \<and> resv_ok l' u"
    using ok new fields unfolding old
    by (auto simp: ledger_ok_def l'(2) jm_mem_set)
  have len: "length (cl_reservations l') = Suc (length (cl_reservations l))"
    using fresh by (simp add: l'(2) jm_set_fresh)
  show ?thesis
    unfolding ledger_ok_def
    using ok chk fresh fields mem dist ms ent len
    by (simp add: ledger_ok_def reserve_check_None l'(2) jm_total_fresh jm.ok_insert)
qed

lemma filter_disjoint_mset:
  assumes "distinct xs" and "mset xs = mset ys + M"
  shows "mset (filter (\<lambda>p. p \<notin> set ys) xs) = M"
proof -
  have "x \<notin># M" if "x \<in> set ys" for x
  proof
    assume "x \<in># M"
    then have "1 \<le> count M x" "1 \<le> count (mset ys) x"
      using that by (simp_all add: Suc_le_eq)
    then have "2 \<le> count (mset ys + M) x" by (simp only: count_union)
    then have "2 \<le> count (mset xs) x" by (simp only: assms(2))
    then show False using assms(1) by (simp add: distinct_count_atmost_1 split: if_splits)
  qed
  then have "filter_mset (\<lambda>p. p \<notin> set ys) M = M"
    by (metis (mono_tags, lifting) filter_mset_cong filter_mset_True)
  moreover have "filter_mset (\<lambda>p. p \<notin> set ys) (mset ys) = {#}" by simp
  ultimately show ?thesis using assms(2) by simp
qed

lemma cap_release_ok:
  assumes ok: "ledger_ok l"
  shows "ledger_ok (cap_release l i)"
proof (cases "jm_get (cl_reservations l) i")
  case None
  with ok show ?thesis by (simp add: cap_release_def)
next
  case (Some r)
  let ?l = "cap_release l i"
  have jm: "jm_ok (cl_reservations l)" using ok by (simp add: ledger_ok_def)
  have l': "?l = l\<lparr>cl_reservations := jm_delete i (cl_reservations l),
          cl_vcpusCommitted := cl_vcpusCommitted l - rs_vcpus r,
          cl_memoryCommittedMiB := num_sub (cl_memoryCommittedMiB l) (rs_memoryMiB r),
          cl_diskCommittedBytes := cl_diskCommittedBytes l - rs_diskBytes r,
          cl_allocatedPorts := filter (\<lambda>p. p \<notin> set (rs_ports r)) (cl_allocatedPorts l)\<rparr>"
    using Some by (simp add: cap_release_def)
  have old: "resv_ok ?l = resv_ok l" by (simp add: fun_eq_iff resv_ok_def l')
  note total = jm_total_delete [OF jm Some]
  note r = ledger_get [OF ok Some]
  have ms: "mset (filter (\<lambda>p. p \<notin> set (rs_ports r)) (cl_allocatedPorts l))
      = jm_total (\<lambda>r. mset (rs_ports r)) (jm_delete i (cl_reservations l))"
    using ok total [of "\<lambda>r. mset (rs_ports r)"] by (intro filter_disjoint_mset) (simp_all add: ledger_ok_def)
  have mem: "memory_ok ?l"
  proof (cases "num_sub (cl_memoryCommittedMiB l) (rs_memoryMiB r)")
    case None
    then show ?thesis by (simp add: memory_ok_def l')
  next
    case c: (Some c)
    then obtain a b where ab: "cl_memoryCommittedMiB l = Some a" "rs_memoryMiB r = Some b" "c = a - b"
      by (auto simp: num_sub_def split: option.splits)
    then show ?thesis
      using ok r total [of "\<lambda>r. the (rs_memoryMiB r)"]
      by (auto simp: memory_ok_def l' num_sub_def ledger_ok_def resv_ok_def jm_mem_delete)
  qed
  have len: "length (jm_delete i (cl_reservations l)) \<le> length (cl_reservations l)"
    by (simp add: jm_delete_def)
  show ?thesis
    unfolding ledger_ok_def old
    using ok r mem ms len total [of rs_vcpus] total [of rs_diskBytes]
    by (auto simp: ledger_ok_def l' jm.ok_remove jm_mem_delete resv_ok_def VCPUS_PER_SANDBOX_def)
qed

subsection \<open>The lock\<close>

text \<open>
  \<open>#exclusive\<close> chains every call behind the previous one. A call arrives at any time and waits in the
  queue; the head of the queue runs when the lock is free. A release runs to its end at once. A
  reserve runs its checks, then holds the lock while the admission barrier is pending, and commits, or
  fails with the barrier, when that settles. The id of the commit comes from \<open>crypto.randomUUID\<close>,
  which draws one that is not in use.
\<close>

datatype cap_call = CallReserve "int option \<times> int \<times> int" | CallRelease string

record cap_machine =
  cm_ledger :: ledger
  cm_queue :: "cap_call list"
  cm_running :: "(int option \<times> int \<times> int) option"

datatype cap_event =
    Arrived cap_call
  | Rejected capacity_dimension
  | Admitted
  | BarrierFailed
  | Committed reservation
  | Released string

inductive cap_step :: "cap_machine \<Rightarrow> cap_event \<Rightarrow> cap_machine \<Rightarrow> bool" where
  arrive_reserve: "reserve_validate q = Inr v \<Longrightarrow>
    cap_step c (Arrived (CallReserve v)) (c\<lparr>cm_queue := cm_queue c @ [CallReserve v]\<rparr>)"
| arrive_release:
    "cap_step c (Arrived (CallRelease i)) (c\<lparr>cm_queue := cm_queue c @ [CallRelease i]\<rparr>)"
| reject: "cm_running c = None \<Longrightarrow> cm_queue c = CallReserve v # cs \<Longrightarrow>
    reserve_check (cm_ledger c) v = Some d \<Longrightarrow> cap_step c (Rejected d) (c\<lparr>cm_queue := cs\<rparr>)"
| admit: "cm_running c = None \<Longrightarrow> cm_queue c = CallReserve v # cs \<Longrightarrow>
    reserve_check (cm_ledger c) v = None \<Longrightarrow>
    cap_step c Admitted (c\<lparr>cm_queue := cs, cm_running := Some v\<rparr>)"
| barrier_fail: "cm_running c = Some v \<Longrightarrow> cap_step c BarrierFailed (c\<lparr>cm_running := None\<rparr>)"
| commit: "cm_running c = Some v \<Longrightarrow> jm_get (cl_reservations (cm_ledger c)) i = None \<Longrightarrow>
    reserve_commit (cm_ledger c) v i = (l, r) \<Longrightarrow>
    cap_step c (Committed r) (c\<lparr>cm_ledger := l, cm_running := None\<rparr>)"
| release: "cm_running c = None \<Longrightarrow> cm_queue c = CallRelease i # cs \<Longrightarrow>
    cap_step c (Released i) (c\<lparr>cm_ledger := cap_release (cm_ledger c) i, cm_queue := cs\<rparr>)"

definition cap_init :: "cap_machine \<Rightarrow> bool" where
  "cap_init c = ((\<exists>b h m. new_ledger b h m = Inr (cm_ledger c)) \<and> cm_queue c = [] \<and> cm_running c = None)"

definition cap_inv :: "cap_machine \<Rightarrow> bool" where
  "cap_inv c = (ledger_ok (cm_ledger c)
     \<and> (\<forall>v. CallReserve v \<in> set (cm_queue c) \<longrightarrow> validated v)
     \<and> (\<forall>v. cm_running c = Some v \<longrightarrow> validated v \<and> reserve_check (cm_ledger c) v = None))"

lemma cap_inv_step: "cap_step c ev c' \<Longrightarrow> cap_inv c \<Longrightarrow> cap_inv c'"
  by (induction rule: cap_step.induct)
    (auto simp: cap_inv_def cap_release_ok dest: reserve_validate_Inr reserve_commit_ok)

interpretation capm: step_system cap_init cap_step cap_inv
proof
  show "cap_init c \<Longrightarrow> cap_inv c" for c
    by (auto simp: cap_init_def cap_inv_def new_ledger_ok)
  show "cap_inv c \<Longrightarrow> cap_step c ev c' \<Longrightarrow> cap_inv c'" for c ev c'
    by (rule cap_inv_step)
qed

subsection \<open>Properties\<close>

definition example_ledger :: ledger where
  "example_ledger = \<lparr>cl_vcpusTotal = 4, cl_memoryTotalMiB = 7680, cl_diskTotalBytes = 64424509440,
     cl_portStart = 20000, cl_portEnd = 20128, cl_sandboxLimit = 2, cl_vcpusCommitted = 0,
     cl_memoryCommittedMiB = Some 0, cl_diskCommittedBytes = 0, cl_allocatedPorts = [],
     cl_reservations = []\<rparr>"

definition example_defaults :: "host_budget \<times> host_headroom" where
  "example_defaults = (\<lparr>hb_vcpus = None, hb_memoryMiB = None, hb_diskBytes = None, hb_portRange = None\<rparr>,
     \<lparr>hh_vcpus = None, hh_memoryMiB = None, hh_diskBytes = None\<rparr>)"

lemma example_ledger_new:
  "new_ledger (fst example_defaults) (snd example_defaults) None = Inr example_ledger"
  by (simp add: new_ledger_def example_defaults_def DEFAULT_BUDGET_def DEFAULT_HEADROOM_def Let_def
      nonNegativeInt_def MAX_SAFE_INTEGER_def GIB_def VCPUS_PER_SANDBOX_def example_ledger_def)

definition example_machine :: cap_machine where
  "example_machine = \<lparr>cm_ledger = example_ledger, cm_queue = [], cm_running = None\<rparr>"

lemma example_machine_init: "cap_init example_machine"
  using example_ledger_new by (auto simp: cap_init_def example_machine_def)

text \<open>
  C29. The host is never oversubscribed. However calls arrive and interleave with pending admission
  barriers, in every reachable state of the ledger the committed vCPUs, memory (while it is a number) and
  disk are the totals over the reservations held and within the budget, the number of reservations is
  within the limit, and a port belongs to at most one reservation and to the range.
\<close>

theorem capacity_never_oversubscribed:
  assumes "reachable cap_init cap_step c" and "l = cm_ledger c"
  shows "cl_vcpusCommitted l = 2 * int (length (cl_reservations l)) \<and> cl_vcpusCommitted l \<le> cl_vcpusTotal l
    \<and> (\<forall>k. cl_memoryCommittedMiB l = Some k \<longrightarrow> k \<le> cl_memoryTotalMiB l
         \<and> k = jm_total (\<lambda>r. the (rs_memoryMiB r)) (cl_reservations l))
    \<and> cl_diskCommittedBytes l = jm_total rs_diskBytes (cl_reservations l)
    \<and> cl_diskCommittedBytes l \<le> cl_diskTotalBytes l
    \<and> int (length (cl_reservations l)) \<le> cl_sandboxLimit l
    \<and> (\<forall>i j r u p. jm_get (cl_reservations l) i = Some r \<and> jm_get (cl_reservations l) j = Some u
         \<and> p \<in> set (rs_ports r) \<and> p \<in> set (rs_ports u)
         \<longrightarrow> i = j \<and> cl_portStart l \<le> p \<and> p < cl_portEnd l)"
proof -
  have ok: "ledger_ok l" using capm.reachable_inv [OF assms(1)] assms(2) by (simp add: cap_inv_def)
  have "jm_total rs_vcpus m = 2 * int (length m)" if "\<forall>(i, r) \<in> set m. rs_vcpus r = 2" for m
    using that by (induction m) (auto simp: jm_total_def)
  then have vc: "cl_vcpusCommitted l = 2 * int (length (cl_reservations l))"
    using ok by (auto simp: ledger_ok_def resv_ok_def VCPUS_PER_SANDBOX_def)
  have ports: "i = j \<and> cl_portStart l \<le> p \<and> p < cl_portEnd l"
    if r: "jm_get (cl_reservations l) i = Some r" and u: "jm_get (cl_reservations l) j = Some u"
      and p: "p \<in> set (rs_ports r)" "p \<in> set (rs_ports u)" for i j r u p
  proof
    show "cl_portStart l \<le> p \<and> p < cl_portEnd l"
      using ledger_get [OF ok r] p(1) by (auto simp: resv_ok_def)
    show "i = j"
    proof (rule ccontr)
      assume "i \<noteq> j"
      have jm: "jm_ok (cl_reservations l)" using ok by (simp add: ledger_ok_def)
      have "mset (cl_allocatedPorts l) = mset (rs_ports r)
          + jm_total (\<lambda>r. mset (rs_ports r)) (jm_delete i (cl_reservations l))"
        using ok jm_total_delete [OF jm r, of "\<lambda>r. mset (rs_ports r)"] by (simp add: ledger_ok_def)
      moreover have "distinct (cl_allocatedPorts l)" using ok by (simp add: ledger_ok_def)
      ultimately have "mset (filter (\<lambda>p. p \<notin> set (rs_ports r)) (cl_allocatedPorts l))
          = jm_total (\<lambda>r. mset (rs_ports r)) (jm_delete i (cl_reservations l))"
        by (rule filter_disjoint_mset [rotated])
      moreover have "p \<in># jm_total (\<lambda>r. mset (rs_ports r)) (jm_delete i (cl_reservations l))"
        using u p(2) \<open>i \<noteq> j\<close> jm by (auto simp: set_jm_total jm_mem_delete jm_get_mem)
      ultimately show False using p(1) by (metis (no_types, lifting) mem_Collect_eq set_filter set_mset_mset)
    qed
  qed
  show ?thesis using ok vc ports by (auto simp: ledger_ok_def memory_ok_def)
qed

definition example_request :: reservation_request where
  "example_request = \<lparr>rq_memory = MemNumber (Fin (of_int (1280 * 1048576))), rq_diskBytes = NumInt 1024,
     rq_ports = Some (NumInt 2)\<rparr>"

lemma example_request_valid: "reserve_validate example_request = Inr (Some 1280, 1024, 2)"
  using parseMemory_bytes [of 1280]
  by (simp add: reserve_validate_def example_request_def nonNegativeInt_def MAX_SAFE_INTEGER_def Let_def)

lemma example_waiting:
  "reachable cap_init cap_step (example_machine\<lparr>cm_queue := [CallReserve (Some 1280, 1024, 2)]\<rparr>)"
  using reach_step [OF reach_init [of cap_init, OF example_machine_init],
      of cap_step, OF arrive_reserve [OF example_request_valid]]
  by (simp add: example_machine_def)

theorem capacity_never_oversubscribed_witness:
  "\<exists>c :: cap_machine. cm_queue c = [CallReserve (Some 1280, 1024, 2)]
     \<and> cl_diskCommittedBytes (cm_ledger c) \<le> cl_diskTotalBytes (cm_ledger c)
     \<and> int (length (cl_reservations (cm_ledger c))) \<le> cl_sandboxLimit (cm_ledger c)"
  by (rule exI [of _ "example_machine\<lparr>cm_queue := [CallReserve (Some 1280, 1024, 2)]\<rparr>"])
    (use capacity_never_oversubscribed [OF example_waiting refl] in simp)

text \<open>
  When \<open>reserve\<close> succeeds, and what it does. On a well-formed ledger with the lock held it succeeds
  exactly when the request is valid, the barrier resolves and every dimension still has room; otherwise
  the ledger is unchanged. On success the reservation is held under its id, it has the requested number
  of ports, and these are the lowest free ones.
\<close>

theorem reserve_succeeds_iff_it_fits:
  assumes "ledger_ok l"
  shows "(is_ok (snd (reserve l q barrier i)) \<longleftrightarrow>
      barrier \<and> (\<exists>mem disk ports. reserve_validate q = Inr (mem, disk, ports)
        \<and> cl_vcpusCommitted l + 2 \<le> cl_vcpusTotal l
        \<and> (\<forall>k. num_add (cl_memoryCommittedMiB l) mem = Some k \<longrightarrow> k \<le> cl_memoryTotalMiB l)
        \<and> cl_diskCommittedBytes l + disk \<le> cl_diskTotalBytes l
        \<and> ports \<le> int (length (free_ports l))
        \<and> int (length (cl_reservations l)) < cl_sandboxLimit l))
    \<and> (\<forall>e. snd (reserve l q barrier i) = Inl e \<longrightarrow> fst (reserve l q barrier i) = l)
    \<and> (\<forall>r mem disk ports. snd (reserve l q barrier i) = Inr r \<and> reserve_validate q = Inr (mem, disk, ports)
        \<longrightarrow> cap_usage (fst (reserve l q barrier i)) i = Some (mem, 2, disk, rs_ports r)
          \<and> int (length (rs_ports r)) = ports \<and> rs_ports r = take (nat ports) (free_ports l))"
proof -
  have free: "cl_portsTotal l - int (length (cl_allocatedPorts l)) = int (length (free_ports l))"
    using assms allocated_range [OF assms] by (subst length_free_ports) (auto simp: ledger_ok_def)
  have le: "cl_portStart l \<le> cl_portEnd l" using assms by (simp add: ledger_ok_def)
  show ?thesis
  proof (cases "reserve_validate q")
    case (Inl e)
    then show ?thesis by (simp add: reserve_def)
  next
    case (Inr v)
    obtain mem disk ports where v: "v = (mem, disk, ports)" by (cases v)
    obtain l' r where c: "reserve_commit l v i = (l', r)" by (cases "reserve_commit l v i")
    note eqs = reserve_commit_eq [OF le c [unfolded v]]
    have "0 \<le> ports" using reserve_validate_Inr [OF Inr] by (simp add: v validated_def)
    then have p: "reserve_check l v = None \<Longrightarrow>
        rs_ports r = take (nat ports) (free_ports l) \<and> int (length (rs_ports r)) = ports"
      using reserve_commit_ports [OF assms _ _ c [unfolded v]] unfolding v by blast
    have u: "cap_usage l' i = Some (mem, 2, disk, rs_ports r)"
      by (simp add: cap_usage_def eqs jm_get_set VCPUS_PER_SANDBOX_def)
    show ?thesis
    proof (cases "reserve_check l v")
      case None
      then show ?thesis
        using Inr c p [OF None] u free reserve_check_None [of l mem disk ports]
        by (auto simp add: reserve_def v VCPUS_PER_SANDBOX_def)
    next
      case (Some d)
      then show ?thesis
        using Inr free reserve_check_None [of l mem disk ports]
        by (auto simp add: reserve_def v VCPUS_PER_SANDBOX_def)
    qed
  qed
qed

lemma example_ledger_ok: "ledger_ok example_ledger"
  using new_ledger_ok [OF example_ledger_new] .

theorem reserve_succeeds_iff_it_fits_witness:
  "cap_usage (fst (reserve example_ledger example_request True ''r1'')) ''r1''
     = Some (Some 1280, 2, 1024, [20000, 20001])"
proof -
  have c: "reserve_check example_ledger (Some 1280, 1024, 2) = None"
    by (simp add: reserve_check_None example_ledger_def VCPUS_PER_SANDBOX_def num_add_def cl_portsTotal_def)
  obtain r where "snd (reserve example_ledger example_request True ''r1'') = Inr r"
    using c example_request_valid by (simp add: reserve_def Let_def)
  moreover have "take 2 (free_ports example_ledger) = [20000, 20001]"
    by (simp add: free_ports_def example_ledger_def upto_rec1 numeral_2_eq_2)
  ultimately show ?thesis
    using reserve_succeeds_iff_it_fits [OF example_ledger_ok, of example_request True "''r1''"]
      example_request_valid by simp
qed

text \<open>
  Releasing undoes reserving, once. Releasing the reservation that \<open>reserve\<close> returned gives back the
  ledger as it was before, and releasing it again, or releasing an id that is not held, changes nothing.
\<close>

theorem release_undoes_reserve_once:
  assumes "ledger_ok l" and "jm_get (cl_reservations l) i = None"
    and "reserve l q True i = (l', Inr r)" and "cl_memoryCommittedMiB l \<noteq> None"
    and "rq_memory q \<noteq> MemNumber NaN"
  shows "cap_release l' (rs_id r) = l \<and> cap_release (cap_release l' (rs_id r)) (rs_id r) = l
    \<and> cap_release l i = l"
proof -
  have le: "cl_portStart l \<le> cl_portEnd l" using assms(1) by (simp add: ledger_ok_def)
  from assms(3) obtain v where v: "reserve_validate q = Inr v" "reserve_check l v = None"
      "reserve_commit l v i = (l', r)"
    by (auto simp: reserve_def Let_def split: sum.splits option.splits)
  obtain mem disk ports where v3: "v = (mem, disk, ports)" by (cases v)
  have ports: "0 \<le> ports" using reserve_validate_Inr [OF v(1)] v3 by (simp add: validated_def)
  note p = reserve_commit_ports [OF assms(1) v(2) [unfolded v3] ports v(3) [unfolded v3]]
  note e = reserve_commit_eq [OF le v(3) [unfolded v3]]
  obtain a b where ab: "cl_memoryCommittedMiB l = Some a" "mem = Some b"
    using assms(4,5) v(1) v3 parseMemory_NaN [of "rq_memory q"]
    by (auto simp: reserve_validate_def Let_def split: sum.splits if_splits)
  have ports_back: "filter (\<lambda>p. p \<notin> set (rs_ports r)) (cl_allocatedPorts l @ rs_ports r) = cl_allocatedPorts l"
    using p by (auto simp: filter_id_conv)
  have "cap_release l' i = l"
    using ports_back assms(2) p ab
    by (simp add: cap_release_def e(2) jm_get_set jm_delete_set jm_delete_absent num_add_def num_sub_def)
      (simp add: e(1))
  moreover have "rs_id r = i" by (simp add: e(1))
  moreover have "cap_release l i = l" using assms(2) by (simp add: cap_release_def)
  ultimately show ?thesis by simp
qed

theorem release_undoes_reserve_once_witness:
  "cap_release (fst (reserve example_ledger example_request True ''r1'')) ''r1'' = example_ledger"
proof -
  have c: "reserve_check example_ledger (Some 1280, 1024, 2) = None"
    by (simp add: reserve_check_None example_ledger_def VCPUS_PER_SANDBOX_def num_add_def cl_portsTotal_def)
  obtain l' r where r: "reserve example_ledger example_request True ''r1'' = (l', Inr r)" "rs_id r = ''r1''"
    using c example_request_valid by (simp add: reserve_def Let_def reserve_commit_def)
  have "rq_memory example_request \<noteq> MemNumber NaN" by (simp add: example_request_def)
  moreover have "cl_memoryCommittedMiB example_ledger \<noteq> None"
    "jm_get (cl_reservations example_ledger) ''r1'' = None" by (simp_all add: example_ledger_def)
  ultimately show ?thesis
    using release_undoes_reserve_once [OF example_ledger_ok _ r(1)] r by simp
qed

text \<open>
  A NaN in the books. A reservation of NaN bytes of memory is admitted, and from then on the
  committed memory is NaN for good: releasing that reservation does not restore it, and however much memory
  later requests ask for, the memory dimension rejects none of them.
\<close>

theorem nan_memory_disables_the_memory_budget:
  assumes "ledger_ok l" and "rq_memory q = MemNumber NaN"
    and "reserve l q True i = (l', Inr r)"
  shows "cl_memoryCommittedMiB (cap_release l' i) = None
    \<and> (\<forall>v. reserve_check l' v \<noteq> Some DimMemory \<and> reserve_check (cap_release l' i) v \<noteq> Some DimMemory)"
proof -
  have le: "cl_portStart l \<le> cl_portEnd l" using assms(1) by (simp add: ledger_ok_def)
  from assms(3) obtain v where v: "reserve_validate q = Inr v" "reserve_commit l v i = (l', r)"
    by (auto simp: reserve_def Let_def split: sum.splits option.splits)
  obtain mem disk ports where v3: "v = (mem, disk, ports)" by (cases v)
  have "mem = None"
    using v(1) v3 assms(2) parseMemory_NaN [of "rq_memory q"]
    by (auto simp: reserve_validate_def Let_def split: sum.splits if_splits)
  then have "cl_memoryCommittedMiB l' = None"
    using reserve_commit_eq(2) [OF le v(2) [unfolded v3]] by (simp add: num_add_def split: option.splits)
  moreover from this have "cl_memoryCommittedMiB (cap_release l' i) = None"
    by (simp add: cap_release_def num_sub_def split: option.splits)
  ultimately show ?thesis
    by (auto simp: reserve_check_def num_add_def num_gt_def split: prod.splits if_splits)
qed

definition example_nan_request :: reservation_request where
  "example_nan_request = \<lparr>rq_memory = MemNumber NaN, rq_diskBytes = NumInt 0, rq_ports = None\<rparr>"

theorem nan_memory_disables_the_memory_budget_witness:
  "\<exists>l' r. reserve example_ledger example_nan_request True ''r1'' = (l', Inr r)
     \<and> (\<forall>v. reserve_check l' v \<noteq> Some DimMemory)"
proof -
  have "reserve_validate example_nan_request = Inr (None, 0, 0)"
    using parseMemory_NaN [of "MemNumber NaN"]
    by (simp add: reserve_validate_def example_nan_request_def nonNegativeInt_def MAX_SAFE_INTEGER_def Let_def)
  moreover have "reserve_check example_ledger (None, 0, 0) = None"
    by (simp add: reserve_check_None example_ledger_def VCPUS_PER_SANDBOX_def num_add_def cl_portsTotal_def)
  ultimately obtain l' r where r: "reserve example_ledger example_nan_request True ''r1'' = (l', Inr r)"
    by (simp add: reserve_def Let_def)
  then show ?thesis
    using nan_memory_disables_the_memory_budget [OF example_ledger_ok _ r] by (auto simp: example_nan_request_def)
qed

end
