(* ===== verification/Sandbox_Model.thy ===== *)
theory Sandbox_Model
  imports Prelude Js_Text Utf8
begin

text \<open>
  \<^verbatim>\<open>src/state/model.ts\<close>: the durable sandbox record and its validation.

  \<open>jsval\<close> is what \<open>unknown\<close> ranges over: the values \<open>JSON.parse\<close> makes, and \<open>JUndef\<close> for a field that
  is absent. The interfaces of the source are records; \<open>record_json\<close> is the value a typed record has
  as \<open>unknown\<close>, and \<open>validateSandboxRecord\<close> goes the other way, check by check in the order of the
  source, and returns the typed record the assertions establish. \<open>Date.parse\<close> is the parameter
  \<open>dateFinite\<close>, which tells the texts it gives a finite time for. An error carries the name of the field
  it reports.
\<close>

datatype jsval =
    JUndef
  | JNull
  | JBool bool
  | JNum js_number
  | JStr string
  | JArr "jsval list"
  | JObj "(string \<times> jsval) list"

datatype sandbox_phase =
    Allocating | Staging | Booting | Ready | Terminating | Terminated | Reconciling | Quarantined

datatype machine_phase = Reserved | Launching | Running | Reclaiming

datatype artifact_arch = Aarch64 | X86_64

record jail_record =
  jr_vmId :: string
  jr_pid :: "int option"
  jr_apiSocketPath :: string
  jr_stateDir :: string
  jr_ownsStateDir :: bool
  jr_vsockUdsPath :: "string option"
  jr_vsockListenerPaths :: "string list"
  jr_pidfilePath :: "string option"
  jr_chrootDir :: "string option"
  jr_createdAt :: string
  jr_metadata :: "(string \<times> string) list option"

record machine_journal =
  mj_executionId :: string
  mj_phase :: machine_phase
  mj_jailRecord :: "jail_record option"
  mj_cgroupPath :: "string option"
  mj_updatedAt :: string

record artifact_reference =
  ar_manifestHash :: string
  ar_arch :: artifact_arch

record exposed_port =
  ep_hostPort :: int
  ep_guestPort :: int

record sandbox_resources =
  sr_uid :: "int option"
  sr_gid :: "int option"
  sr_overlayPath :: "string option"
  sr_tapName :: "string option"
  sr_netnsPath :: "string option"
  sr_hostIp :: "string option"
  sr_guestIp :: "string option"
  sr_subnet :: "string option"
  sr_dnsmasqPidfile :: "string option"
  sr_exposedPorts :: "exposed_port list"

record sandbox_record =
  sb_schemaVersion :: int
  sb_id :: string
  sb_revision :: int
  sb_generation :: int
  sb_phase :: sandbox_phase
  sb_createdAt :: string
  sb_updatedAt :: string
  sb_machine :: "machine_journal option"
  sb_artifact :: "artifact_reference option"
  sb_templatePinned :: "bool option"
  sb_resources :: sandbox_resources
  sb_terminationReason :: "string option"

datatype model_error = ModelTypeError string

definition SANDBOX_RECORD_VERSION :: int where
  "SANDBOX_RECORD_VERSION = 2"

definition SANDBOX_PHASES :: "(string \<times> sandbox_phase) list" where
  "SANDBOX_PHASES = [(''allocating'', Allocating), (''staging'', Staging), (''booting'', Booting),
     (''ready'', Ready), (''terminating'', Terminating), (''terminated'', Terminated),
     (''reconciling'', Reconciling), (''quarantined'', Quarantined)]"

definition MACHINE_PHASES :: "(string \<times> machine_phase) list" where
  "MACHINE_PHASES = [(''reserved'', Reserved), (''launching'', Launching), (''running'', Running),
     (''reclaiming'', Reclaiming)]"

definition ARTIFACT_REFERENCE_ARCHES :: "(string \<times> artifact_arch) list" where
  "ARTIFACT_REFERENCE_ARCHES = [(''aarch64'', Aarch64), (''x86_64'', X86_64)]"

text \<open>The patterns \<open>SANDBOX_ID\<close>, \<open>EXECUTION_ID\<close> and \<open>SHA256_HEX\<close>.\<close>

definition sandbox_id_ok :: "string \<Rightarrow> bool" where
  "sandbox_id_ok s = (case s of
      [] \<Rightarrow> False
    | c # cs \<Rightarrow> is_alnum c \<and> length cs \<le> 127
        \<and> list_all (\<lambda>d. is_alnum d \<or> d = CHR ''_'' \<or> d = CHR ''-'') cs)"

definition execution_id_pattern :: "string \<Rightarrow> bool" where
  "execution_id_pattern s = (case s of
      [] \<Rightarrow> False
    | c # cs \<Rightarrow> is_alnum c \<and> length cs \<le> 63 \<and> list_all (\<lambda>d. is_alnum d \<or> d = CHR ''-'') cs)"

definition sha256_hex :: "string \<Rightarrow> bool" where
  "sha256_hex s = (length s = 64 \<and> list_all is_hex_lower s)"

definition assertSandboxId :: "string \<Rightarrow> model_error + unit" where
  "assertSandboxId i = requireE (sandbox_id_ok i) (ModelTypeError ''id'')"

subsection \<open>The assertions\<close>

definition fld :: "(string \<times> jsval) list \<Rightarrow> string \<Rightarrow> jsval" where
  "fld fs k = orElse (map_of fs k) JUndef"

definition assertRecord :: "jsval \<Rightarrow> string \<Rightarrow> model_error + (string \<times> jsval) list" where
  "assertRecord v field = (case v of JObj fs \<Rightarrow> Inr fs | _ \<Rightarrow> Inl (ModelTypeError field))"

definition assertKeys :: "(string \<times> jsval) list \<Rightarrow> string list \<Rightarrow> string \<Rightarrow> model_error + unit" where
  "assertKeys fs allowed field =
     requireE (list_all (\<lambda>e. fst e \<in> set allowed) fs) (ModelTypeError field)"

definition assertUnsignedInteger :: "jsval \<Rightarrow> string \<Rightarrow> int \<Rightarrow> int \<Rightarrow> model_error + int" where
  "assertUnsignedInteger v field maximum minimum = (case v of
      JNum n \<Rightarrow> if isSafeInteger n \<and> minimum \<le> int_of n \<and> int_of n \<le> maximum then Inr (int_of n)
                else Inl (ModelTypeError field)
    | _ \<Rightarrow> Inl (ModelTypeError field))"

definition assertNonNegativeInteger :: "jsval \<Rightarrow> string \<Rightarrow> model_error + int" where
  "assertNonNegativeInteger v field = assertUnsignedInteger v field MAX_SAFE_INTEGER 0"

definition assertTimestamp :: "(string \<Rightarrow> bool) \<Rightarrow> jsval \<Rightarrow> string \<Rightarrow> model_error + string" where
  "assertTimestamp dateFinite v field = (case v of
      JStr s \<Rightarrow> if length s \<le> 64 \<and> dateFinite s then Inr s else Inl (ModelTypeError field)
    | _ \<Rightarrow> Inl (ModelTypeError field))"

definition assertText :: "jsval \<Rightarrow> string \<Rightarrow> nat \<Rightarrow> bool \<Rightarrow> model_error + string" where
  "assertText v field maximumBytes allowEmpty = (case v of
      JStr s \<Rightarrow> if (s = [] \<and> \<not> allowEmpty) \<or> maximumBytes < byteLength s
                then Inl (ModelTypeError field) else Inr s
    | _ \<Rightarrow> Inl (ModelTypeError field))"

definition assertBool :: "jsval \<Rightarrow> string \<Rightarrow> model_error + bool" where
  "assertBool v field = (case v of JBool b \<Rightarrow> Inr b | _ \<Rightarrow> Inl (ModelTypeError field))"

definition assertOneOf :: "(string \<times> 'a) list \<Rightarrow> jsval \<Rightarrow> string \<Rightarrow> model_error + 'a" where
  "assertOneOf table v field = (case v of
      JStr s \<Rightarrow> (case map_of table s of Some x \<Rightarrow> Inr x | None \<Rightarrow> Inl (ModelTypeError field))
    | _ \<Rightarrow> Inl (ModelTypeError field))"

definition assertString :: "(string \<Rightarrow> bool) \<Rightarrow> jsval \<Rightarrow> string \<Rightarrow> model_error + string" where
  "assertString pattern v field = (case v of
      JStr s \<Rightarrow> if pattern s then Inr s else Inl (ModelTypeError field)
    | _ \<Rightarrow> Inl (ModelTypeError field))"

definition assertVersion :: "jsval \<Rightarrow> model_error + int" where
  "assertVersion v =
     (if v \<noteq> JNum (NumInt SANDBOX_RECORD_VERSION) \<and> v \<noteq> JNum (NumInt 1)
      then Inl (ModelTypeError ''schemaVersion'')
      else Inr (if v = JNum (NumInt 1) then 1 else SANDBOX_RECORD_VERSION))"

text \<open>\<open>if (x !== undefined) assert...(x)\<close>\<close>

definition ifDefined :: "(jsval \<Rightarrow> model_error + 'a) \<Rightarrow> jsval \<Rightarrow> model_error + 'a option" where
  "ifDefined check v = (if v = JUndef then Inr None else bindE (check v) (\<lambda>x. Inr (Some x)))"

definition assertArray :: "jsval \<Rightarrow> string \<Rightarrow> model_error + jsval list" where
  "assertArray v field = (case v of JArr xs \<Rightarrow> Inr xs | _ \<Rightarrow> Inl (ModelTypeError field))"

subsection \<open>Validation\<close>

definition validateArtifactReference :: "jsval \<Rightarrow> model_error + artifact_reference" where
  "validateArtifactReference v =
     bindE (assertRecord v ''artifact reference'') (\<lambda>a.
     bindE (assertKeys a [''manifestHash'', ''arch''] ''artifact reference'') (\<lambda>_.
     bindE (assertString sha256_hex (fld a ''manifestHash'') ''manifestHash'') (\<lambda>h.
     bindE (assertOneOf ARTIFACT_REFERENCE_ARCHES (fld a ''arch'') ''arch'') (\<lambda>arch.
       Inr \<lparr>ar_manifestHash = h, ar_arch = arch\<rparr>))))"

fun validatePorts :: "int set \<Rightarrow> jsval list \<Rightarrow> model_error + exposed_port list" where
  "validatePorts hostPorts [] = Inr []"
| "validatePorts hostPorts (v # vs) =
     bindE (assertRecord v ''exposed port'') (\<lambda>p.
     bindE (assertKeys p [''hostPort'', ''guestPort''] ''exposed port'') (\<lambda>_.
     bindE (assertUnsignedInteger (fld p ''hostPort'') ''exposed hostPort'' 40199 40100) (\<lambda>h.
     bindE (assertUnsignedInteger (fld p ''guestPort'') ''exposed guestPort'' 65535 1) (\<lambda>g.
     if h \<in> hostPorts then Inl (ModelTypeError ''hostPort'')
     else bindE (validatePorts (insert h hostPorts) vs) (\<lambda>ps.
       Inr (\<lparr>ep_hostPort = h, ep_guestPort = g\<rparr> # ps))))))"

definition validateResources :: "jsval \<Rightarrow> model_error + sandbox_resources" where
  "validateResources v =
     bindE (assertRecord v ''sandbox resources'') (\<lambda>r.
     bindE (assertKeys r [''uid'', ''gid'', ''overlayPath'', ''tapName'', ''netnsPath'', ''hostIp'',
       ''guestIp'', ''subnet'', ''dnsmasqPidfile'', ''exposedPorts''] ''sandbox resources'') (\<lambda>_.
     bindE (ifDefined (\<lambda>x. assertUnsignedInteger x ''uid'' 4294967295 0) (fld r ''uid'')) (\<lambda>uid.
     bindE (ifDefined (\<lambda>x. assertUnsignedInteger x ''gid'' 4294967295 0) (fld r ''gid'')) (\<lambda>gid.
     bindE (ifDefined (\<lambda>x. assertText x ''overlayPath'' 4096 False) (fld r ''overlayPath'')) (\<lambda>overlay.
     bindE (ifDefined (\<lambda>x. assertText x ''tapName'' 4096 False) (fld r ''tapName'')) (\<lambda>tap.
     bindE (ifDefined (\<lambda>x. assertText x ''netnsPath'' 4096 False) (fld r ''netnsPath'')) (\<lambda>netns.
     bindE (ifDefined (\<lambda>x. assertText x ''hostIp'' 4096 False) (fld r ''hostIp'')) (\<lambda>hostIp.
     bindE (ifDefined (\<lambda>x. assertText x ''guestIp'' 4096 False) (fld r ''guestIp'')) (\<lambda>guestIp.
     bindE (ifDefined (\<lambda>x. assertText x ''subnet'' 4096 False) (fld r ''subnet'')) (\<lambda>subnet.
     bindE (ifDefined (\<lambda>x. assertText x ''dnsmasqPidfile'' 4096 False) (fld r ''dnsmasqPidfile'')) (\<lambda>pidfile.
     bindE (assertArray (fld r ''exposedPorts'') ''exposedPorts'') (\<lambda>vs.
     bindE (validatePorts {} vs) (\<lambda>ps.
       Inr \<lparr>sr_uid = uid, sr_gid = gid, sr_overlayPath = overlay, sr_tapName = tap,
            sr_netnsPath = netns, sr_hostIp = hostIp, sr_guestIp = guestIp, sr_subnet = subnet,
            sr_dnsmasqPidfile = pidfile, sr_exposedPorts = ps\<rparr>)))))))))))))"

fun validateMetadata :: "(string \<times> jsval) list \<Rightarrow> model_error + (string \<times> string) list" where
  "validateMetadata [] = Inr []"
| "validateMetadata ((k, v) # es) =
     bindE (assertText (JStr k) ''jail metadata key'' 128 False) (\<lambda>k'.
     bindE (assertText v ''jail metadata value'' 1024 True) (\<lambda>v'.
     bindE (validateMetadata es) (\<lambda>es'. Inr ((k', v') # es'))))"

definition assertPid :: "jsval \<Rightarrow> model_error + int option" where
  "assertPid v = (if v = JNull then Inr None
     else bindE (assertUnsignedInteger v ''jail pid'' 2147483647 1) (\<lambda>p. Inr (Some p)))"

definition assertIdentity :: "jsval \<Rightarrow> jsval \<Rightarrow> string \<Rightarrow> model_error + unit" where
  "assertIdentity version vmId executionId =
     requireE (version = JNum (NumInt 1) \<and> vmId = JStr executionId) (ModelTypeError ''jail record identity'')"

definition validateJailRecord :: "(string \<Rightarrow> bool) \<Rightarrow> jsval \<Rightarrow> string \<Rightarrow> model_error + jail_record" where
  "validateJailRecord dateFinite v executionId =
     bindE (assertRecord v ''jail record'') (\<lambda>j.
     bindE (assertKeys j [''version'', ''vmId'', ''pid'', ''apiSocketPath'', ''stateDir'', ''ownsStateDir'',
       ''vsockUdsPath'', ''vsockListenerPaths'', ''pidfilePath'', ''chrootDir'', ''createdAt'', ''metadata'']
       ''jail record'') (\<lambda>_.
     bindE (assertIdentity (fld j ''version'') (fld j ''vmId'') executionId) (\<lambda>_.
     bindE (assertPid (fld j ''pid'')) (\<lambda>pid.
     bindE (assertText (fld j ''apiSocketPath'') ''jail.apiSocketPath'' 4096 False) (\<lambda>sock.
     bindE (assertText (fld j ''stateDir'') ''jail.stateDir'' 4096 False) (\<lambda>dir.
     bindE (assertBool (fld j ''ownsStateDir'') ''jail.ownsStateDir'') (\<lambda>owns.
     bindE (ifDefined (\<lambda>x. assertText x ''jail.vsockUdsPath'' 4096 False) (fld j ''vsockUdsPath'')) (\<lambda>uds.
     bindE (ifDefined (\<lambda>x. assertText x ''jail.pidfilePath'' 4096 False) (fld j ''pidfilePath'')) (\<lambda>pidfile.
     bindE (ifDefined (\<lambda>x. assertText x ''jail.chrootDir'' 4096 False) (fld j ''chrootDir'')) (\<lambda>chroot.
     bindE (assertArray (fld j ''vsockListenerPaths'') ''jail.vsockListenerPaths'') (\<lambda>ls.
     bindE (mapE (\<lambda>x. assertText x ''jail.vsockListenerPath'' 4096 False) ls) (\<lambda>listeners.
     bindE (assertTimestamp dateFinite (fld j ''createdAt'') ''jail.createdAt'') (\<lambda>created.
     bindE (ifDefined (\<lambda>x. bindE (assertRecord x ''jail metadata'') (\<lambda>es.
              if 64 < length es then Inl (ModelTypeError ''jail metadata'') else validateMetadata es))
            (fld j ''metadata'')) (\<lambda>metadata.
       Inr \<lparr>jr_vmId = executionId, jr_pid = pid, jr_apiSocketPath = sock, jr_stateDir = dir,
            jr_ownsStateDir = owns, jr_vsockUdsPath = uds, jr_vsockListenerPaths = listeners,
            jr_pidfilePath = pidfile, jr_chrootDir = chroot, jr_createdAt = created,
            jr_metadata = metadata\<rparr>))))))))))))))"

definition validateMachine :: "(string \<Rightarrow> bool) \<Rightarrow> jsval \<Rightarrow> model_error + machine_journal" where
  "validateMachine dateFinite v =
     bindE (assertRecord v ''machine journal'') (\<lambda>m.
     bindE (assertKeys m [''executionId'', ''phase'', ''jailRecord'', ''cgroupPath'', ''updatedAt'']
       ''machine journal'') (\<lambda>_.
     bindE (assertString execution_id_pattern (fld m ''executionId'') ''executionId'') (\<lambda>e.
         bindE (assertOneOf MACHINE_PHASES (fld m ''phase'') ''machine journal phase'') (\<lambda>phase.
         bindE (assertTimestamp dateFinite (fld m ''updatedAt'') ''machine.updatedAt'') (\<lambda>updated.
         bindE (ifDefined (\<lambda>x. assertText x ''machine.cgroupPath'' 4096 False) (fld m ''cgroupPath'')) (\<lambda>cgroup.
         bindE (ifDefined (\<lambda>x. validateJailRecord dateFinite x e) (fld m ''jailRecord'')) (\<lambda>jail.
           Inr \<lparr>mj_executionId = e, mj_phase = phase, mj_jailRecord = jail, mj_cgroupPath = cgroup,
                mj_updatedAt = updated\<rparr>)))))))"

definition validateSandboxRecord :: "(string \<Rightarrow> bool) \<Rightarrow> jsval \<Rightarrow> model_error + sandbox_record" where
  "validateSandboxRecord dateFinite v =
     bindE (assertRecord v ''sandbox record'') (\<lambda>r.
     bindE (assertKeys r [''schemaVersion'', ''id'', ''revision'', ''generation'', ''phase'', ''createdAt'',
       ''updatedAt'', ''machine'', ''artifact'', ''templatePinned'', ''resources'', ''terminationReason'']
       ''sandbox record'') (\<lambda>_.
     bindE (assertVersion (fld r ''schemaVersion'')) (\<lambda>version.
     bindE (assertString (\<lambda>_. True) (fld r ''id'') ''id'') (\<lambda>i.
     bindE (assertSandboxId i) (\<lambda>_.
     bindE (assertNonNegativeInteger (fld r ''revision'') ''revision'') (\<lambda>revision.
     bindE (assertNonNegativeInteger (fld r ''generation'') ''generation'') (\<lambda>generation.
     bindE (assertOneOf SANDBOX_PHASES (fld r ''phase'') ''phase'') (\<lambda>phase.
     bindE (assertTimestamp dateFinite (fld r ''createdAt'') ''createdAt'') (\<lambda>created.
     bindE (assertTimestamp dateFinite (fld r ''updatedAt'') ''updatedAt'') (\<lambda>updated.
     bindE (ifDefined (\<lambda>x. assertText x ''terminationReason'' 512 False) (fld r ''terminationReason'')) (\<lambda>reason.
     bindE (validateResources (fld r ''resources'')) (\<lambda>resources.
     bindE (ifDefined (validateMachine dateFinite) (fld r ''machine'')) (\<lambda>machine.
     bindE (ifDefined (\<lambda>x. if version = 1 then Inl (ModelTypeError ''artifact'')
       else validateArtifactReference x) (fld r ''artifact'')) (\<lambda>artifact.
     bindE (ifDefined (\<lambda>x. if version = 1 then Inl (ModelTypeError ''templatePinned'')
       else assertBool x ''templatePinned'') (fld r ''templatePinned'')) (\<lambda>pinned.
       Inr \<lparr>sb_schemaVersion = version, sb_id = i, sb_revision = revision,
            sb_generation = generation, sb_phase = phase, sb_createdAt = created,
            sb_updatedAt = updated, sb_machine = machine, sb_artifact = artifact,
            sb_templatePinned = pinned, sb_resources = resources,
            sb_terminationReason = reason\<rparr>)))))))))))))))"

definition newSandboxRecord :: "(string \<Rightarrow> bool) \<Rightarrow> string \<Rightarrow> string option \<Rightarrow> js_number option \<Rightarrow> string
    \<Rightarrow> model_error + sandbox_record" where
  "newSandboxRecord dateFinite i createdAt generation now =
     bindE (assertSandboxId i) (\<lambda>_.
     bindE (assertTimestamp dateFinite (JStr (orElse createdAt now)) ''createdAt'') (\<lambda>timestamp.
     bindE (assertNonNegativeInteger (JNum (orElse generation (NumInt 0))) ''generation'') (\<lambda>gen.
       Inr \<lparr>sb_schemaVersion = SANDBOX_RECORD_VERSION, sb_id = i, sb_revision = 0, sb_generation = gen,
            sb_phase = Allocating, sb_createdAt = timestamp, sb_updatedAt = timestamp,
            sb_machine = None, sb_artifact = None, sb_templatePinned = None,
            sb_resources = \<lparr>sr_uid = None, sr_gid = None, sr_overlayPath = None, sr_tapName = None,
              sr_netnsPath = None, sr_hostIp = None, sr_guestIp = None, sr_subnet = None,
              sr_dnsmasqPidfile = None, sr_exposedPorts = []\<rparr>,
            sb_terminationReason = None\<rparr>)))"

subsection \<open>Typed records as values\<close>

definition optf :: "string \<Rightarrow> ('a \<Rightarrow> jsval) \<Rightarrow> 'a option \<Rightarrow> (string \<times> jsval) list" where
  "optf k enc x = (case x of None \<Rightarrow> [] | Some a \<Rightarrow> [(k, enc a)])"

definition jint :: "int \<Rightarrow> jsval" where
  "jint i = JNum (NumInt i)"

fun phase_name :: "sandbox_phase \<Rightarrow> string" where
  "phase_name Allocating = ''allocating''"
| "phase_name Staging = ''staging''"
| "phase_name Booting = ''booting''"
| "phase_name Ready = ''ready''"
| "phase_name Terminating = ''terminating''"
| "phase_name Terminated = ''terminated''"
| "phase_name Reconciling = ''reconciling''"
| "phase_name Quarantined = ''quarantined''"

fun machine_phase_name :: "machine_phase \<Rightarrow> string" where
  "machine_phase_name Reserved = ''reserved''"
| "machine_phase_name Launching = ''launching''"
| "machine_phase_name Running = ''running''"
| "machine_phase_name Reclaiming = ''reclaiming''"

fun arch_name :: "artifact_arch \<Rightarrow> string" where
  "arch_name Aarch64 = ''aarch64''"
| "arch_name X86_64 = ''x86_64''"

definition jail_json :: "jail_record \<Rightarrow> jsval" where
  "jail_json j = JObj ([(''version'', jint 1), (''vmId'', JStr (jr_vmId j)),
     (''pid'', case jr_pid j of None \<Rightarrow> JNull | Some p \<Rightarrow> jint p),
     (''apiSocketPath'', JStr (jr_apiSocketPath j)), (''stateDir'', JStr (jr_stateDir j)),
     (''ownsStateDir'', JBool (jr_ownsStateDir j))]
     @ optf ''vsockUdsPath'' JStr (jr_vsockUdsPath j)
     @ [(''vsockListenerPaths'', JArr (map JStr (jr_vsockListenerPaths j)))]
     @ optf ''pidfilePath'' JStr (jr_pidfilePath j) @ optf ''chrootDir'' JStr (jr_chrootDir j)
     @ [(''createdAt'', JStr (jr_createdAt j))]
     @ optf ''metadata'' (\<lambda>m. JObj (map (\<lambda>e. (fst e, JStr (snd e))) m)) (jr_metadata j))"

definition machine_json :: "machine_journal \<Rightarrow> jsval" where
  "machine_json m = JObj ([(''executionId'', JStr (mj_executionId m)),
     (''phase'', JStr (machine_phase_name (mj_phase m)))]
     @ optf ''jailRecord'' jail_json (mj_jailRecord m) @ optf ''cgroupPath'' JStr (mj_cgroupPath m)
     @ [(''updatedAt'', JStr (mj_updatedAt m))])"

definition artifact_json :: "artifact_reference \<Rightarrow> jsval" where
  "artifact_json a = JObj [(''manifestHash'', JStr (ar_manifestHash a)), (''arch'', JStr (arch_name (ar_arch a)))]"

definition port_json :: "exposed_port \<Rightarrow> jsval" where
  "port_json p = JObj [(''hostPort'', jint (ep_hostPort p)), (''guestPort'', jint (ep_guestPort p))]"

definition resources_json :: "sandbox_resources \<Rightarrow> jsval" where
  "resources_json r = JObj (optf ''uid'' jint (sr_uid r) @ optf ''gid'' jint (sr_gid r)
     @ optf ''overlayPath'' JStr (sr_overlayPath r) @ optf ''tapName'' JStr (sr_tapName r)
     @ optf ''netnsPath'' JStr (sr_netnsPath r) @ optf ''hostIp'' JStr (sr_hostIp r)
     @ optf ''guestIp'' JStr (sr_guestIp r) @ optf ''subnet'' JStr (sr_subnet r)
     @ optf ''dnsmasqPidfile'' JStr (sr_dnsmasqPidfile r)
     @ [(''exposedPorts'', JArr (map port_json (sr_exposedPorts r)))])"

definition record_json :: "sandbox_record \<Rightarrow> jsval" where
  "record_json r = JObj ([(''schemaVersion'', jint (sb_schemaVersion r)), (''id'', JStr (sb_id r)),
     (''revision'', jint (sb_revision r)), (''generation'', jint (sb_generation r)),
     (''phase'', JStr (phase_name (sb_phase r))), (''createdAt'', JStr (sb_createdAt r)),
     (''updatedAt'', JStr (sb_updatedAt r))]
     @ optf ''machine'' machine_json (sb_machine r) @ optf ''artifact'' artifact_json (sb_artifact r)
     @ optf ''templatePinned'' JBool (sb_templatePinned r)
     @ [(''resources'', resources_json (sb_resources r))]
     @ optf ''terminationReason'' JStr (sb_terminationReason r))"

subsection \<open>The contract of a valid record\<close>

definition text_ok :: "nat \<Rightarrow> string \<Rightarrow> bool" where
  "text_ok n s = (s \<noteq> [] \<and> byteLength s \<le> n)"

definition stamp_ok :: "(string \<Rightarrow> bool) \<Rightarrow> string \<Rightarrow> bool" where
  "stamp_ok dateFinite s = (length s \<le> 64 \<and> dateFinite s)"

definition ports_ok :: "exposed_port list \<Rightarrow> bool" where
  "ports_ok ps = (distinct (map ep_hostPort ps) \<and>
     list_all (\<lambda>p. 40100 \<le> ep_hostPort p \<and> ep_hostPort p \<le> 40199
       \<and> 1 \<le> ep_guestPort p \<and> ep_guestPort p \<le> 65535) ps)"

definition resources_ok :: "sandbox_resources \<Rightarrow> bool" where
  "resources_ok r = (pred_option (\<lambda>u. 0 \<le> u \<and> u \<le> 4294967295) (sr_uid r)
     \<and> pred_option (\<lambda>u. 0 \<le> u \<and> u \<le> 4294967295) (sr_gid r)
     \<and> list_all (pred_option (text_ok 4096)) [sr_overlayPath r, sr_tapName r, sr_netnsPath r,
         sr_hostIp r, sr_guestIp r, sr_subnet r, sr_dnsmasqPidfile r]
     \<and> ports_ok (sr_exposedPorts r))"

definition metadata_ok :: "(string \<times> string) list \<Rightarrow> bool" where
  "metadata_ok m = (length m \<le> 64 \<and> list_all (\<lambda>e. text_ok 128 (fst e) \<and> byteLength (snd e) \<le> 1024) m)"

definition jail_ok :: "(string \<Rightarrow> bool) \<Rightarrow> string \<Rightarrow> jail_record \<Rightarrow> bool" where
  "jail_ok dateFinite e j = (jr_vmId j = e \<and> pred_option (\<lambda>p. 1 \<le> p \<and> p \<le> 2147483647) (jr_pid j)
     \<and> text_ok 4096 (jr_apiSocketPath j) \<and> text_ok 4096 (jr_stateDir j)
     \<and> list_all (pred_option (text_ok 4096)) [jr_vsockUdsPath j, jr_pidfilePath j, jr_chrootDir j]
     \<and> list_all (text_ok 4096) (jr_vsockListenerPaths j) \<and> stamp_ok dateFinite (jr_createdAt j)
     \<and> pred_option metadata_ok (jr_metadata j))"

definition machine_ok :: "(string \<Rightarrow> bool) \<Rightarrow> machine_journal \<Rightarrow> bool" where
  "machine_ok dateFinite m = (execution_id_pattern (mj_executionId m) \<and> stamp_ok dateFinite (mj_updatedAt m)
     \<and> pred_option (text_ok 4096) (mj_cgroupPath m)
     \<and> pred_option (jail_ok dateFinite (mj_executionId m)) (mj_jailRecord m))"

definition record_ok :: "(string \<Rightarrow> bool) \<Rightarrow> sandbox_record \<Rightarrow> bool" where
  "record_ok dateFinite r = ((sb_schemaVersion r = 1 \<or> sb_schemaVersion r = 2) \<and> sandbox_id_ok (sb_id r)
     \<and> 0 \<le> sb_revision r \<and> sb_revision r \<le> MAX_SAFE_INTEGER
     \<and> 0 \<le> sb_generation r \<and> sb_generation r \<le> MAX_SAFE_INTEGER
     \<and> stamp_ok dateFinite (sb_createdAt r) \<and> stamp_ok dateFinite (sb_updatedAt r)
     \<and> pred_option (text_ok 512) (sb_terminationReason r) \<and> resources_ok (sb_resources r)
     \<and> pred_option (machine_ok dateFinite) (sb_machine r)
     \<and> pred_option (\<lambda>a. sha256_hex (ar_manifestHash a)) (sb_artifact r)
     \<and> (sb_schemaVersion r = 1 \<longrightarrow> sb_artifact r = None \<and> sb_templatePinned r = None))"

subsection \<open>Soundness of each check\<close>

lemma assertUnsignedInteger_Inr:
  "assertUnsignedInteger v f mx mn = Inr i \<longleftrightarrow>
     (\<bar>i\<bar> \<le> MAX_SAFE_INTEGER \<and> mn \<le> i \<and> i \<le> mx \<and> v = jint i)"
  by (auto simp: assertUnsignedInteger_def jint_def split: jsval.splits if_splits elim!: isSafeInteger.elims)

lemma assertNonNegativeInteger_Inr:
  "assertNonNegativeInteger v f = Inr i \<longleftrightarrow> (0 \<le> i \<and> i \<le> MAX_SAFE_INTEGER \<and> v = jint i)"
  by (auto simp: assertNonNegativeInteger_def assertUnsignedInteger_Inr)

lemma assertText_Inr:
  "assertText v f n e = Inr s \<longleftrightarrow> (v = JStr s \<and> byteLength s \<le> n \<and> (s \<noteq> [] \<or> e))"
  by (auto simp: assertText_def split: jsval.splits if_splits)

lemma assertTimestamp_Inr:
  "assertTimestamp df v f = Inr s \<longleftrightarrow> (v = JStr s \<and> stamp_ok df s)"
  by (auto simp: assertTimestamp_def stamp_ok_def split: jsval.splits if_splits)

lemma assertBool_Inr: "assertBool v f = Inr b \<longleftrightarrow> v = JBool b"
  by (auto simp: assertBool_def split: jsval.splits)

lemma assertArray_Inr: "assertArray v f = Inr xs \<longleftrightarrow> v = JArr xs"
  by (auto simp: assertArray_def split: jsval.splits)

lemma assertRecord_Inr: "assertRecord v f = Inr fs \<longleftrightarrow> v = JObj fs"
  by (auto simp: assertRecord_def split: jsval.splits)

lemma assertKeys_Inr: "assertKeys fs ks f = Inr u \<longleftrightarrow> fst ` set fs \<subseteq> set ks"
  by (auto simp: assertKeys_def list_all_iff)

lemma ifDefined_pred:
  "ifDefined f v = Inr x \<Longrightarrow> (\<And>a. f v = Inr a \<Longrightarrow> P a) \<Longrightarrow> pred_option P x"
  by (auto simp: ifDefined_def err_simps split: if_splits)

lemma assertString_Inr: "assertString p v f = Inr s \<longleftrightarrow> (v = JStr s \<and> p s)"
  by (auto simp: assertString_def split: jsval.splits if_splits)

lemma assertVersion_Inr: "assertVersion v = Inr n \<longleftrightarrow> ((n = 1 \<or> n = 2) \<and> v = jint n)"
  by (auto simp: assertVersion_def jint_def SANDBOX_RECORD_VERSION_def)

lemmas assert_simps = assertString_Inr assertVersion_Inr assertUnsignedInteger_Inr assertNonNegativeInteger_Inr assertText_Inr
  assertTimestamp_Inr assertBool_Inr assertArray_Inr assertRecord_Inr assertKeys_Inr

lemma ifDefined_text:
  "ifDefined (\<lambda>x. assertText x f n False) v = Inr x \<Longrightarrow> pred_option (text_ok n) x"
  by (erule ifDefined_pred) (auto simp: assert_simps text_ok_def)

lemma ifDefined_int:
  "ifDefined (\<lambda>x. assertUnsignedInteger x f mx mn) v = Inr x \<Longrightarrow> pred_option (\<lambda>u. mn \<le> u \<and> u \<le> mx) x"
  by (erule ifDefined_pred) (auto simp: assert_simps)

lemma validatePorts_sound:
  "validatePorts H vs = Inr ps \<Longrightarrow> ports_ok ps \<and> ep_hostPort ` set ps \<inter> H = {}"
  by (induction H vs arbitrary: ps rule: validatePorts.induct)
    (fastforce simp: err_simps assert_simps ports_ok_def split: if_splits)+

lemma validateResources_sound:
  assumes "validateResources v = Inr r"
  shows "resources_ok r"
proof -
  from assms obtain fs vs where
    "ifDefined (\<lambda>x. assertUnsignedInteger x ''uid'' 4294967295 0) (fld fs ''uid'') = Inr (sr_uid r)"
    "ifDefined (\<lambda>x. assertUnsignedInteger x ''gid'' 4294967295 0) (fld fs ''gid'') = Inr (sr_gid r)"
    "ifDefined (\<lambda>x. assertText x ''overlayPath'' 4096 False) (fld fs ''overlayPath'') = Inr (sr_overlayPath r)"
    "ifDefined (\<lambda>x. assertText x ''tapName'' 4096 False) (fld fs ''tapName'') = Inr (sr_tapName r)"
    "ifDefined (\<lambda>x. assertText x ''netnsPath'' 4096 False) (fld fs ''netnsPath'') = Inr (sr_netnsPath r)"
    "ifDefined (\<lambda>x. assertText x ''hostIp'' 4096 False) (fld fs ''hostIp'') = Inr (sr_hostIp r)"
    "ifDefined (\<lambda>x. assertText x ''guestIp'' 4096 False) (fld fs ''guestIp'') = Inr (sr_guestIp r)"
    "ifDefined (\<lambda>x. assertText x ''subnet'' 4096 False) (fld fs ''subnet'') = Inr (sr_subnet r)"
    "ifDefined (\<lambda>x. assertText x ''dnsmasqPidfile'' 4096 False) (fld fs ''dnsmasqPidfile'') = Inr (sr_dnsmasqPidfile r)"
    "validatePorts {} vs = Inr (sr_exposedPorts r)"
    unfolding validateResources_def bindE_eq_Inr by auto
  then show ?thesis
    unfolding resources_ok_def list.pred_inject
    by (intro conjI TrueI) (auto dest: ifDefined_text ifDefined_int validatePorts_sound)
qed

lemma validateMetadata_sound: "validateMetadata es = Inr m \<Longrightarrow>
   length m = length es \<and> list_all (\<lambda>e. text_ok 128 (fst e) \<and> byteLength (snd e) \<le> 1024) m"
  by (induction es arbitrary: m rule: validateMetadata.induct)
    (auto simp: err_simps assert_simps text_ok_def)

lemma validateJailRecord_sound:
  assumes "validateJailRecord df v e = Inr j"
  shows "jail_ok df e j"
proof -
  from assms obtain fs ls where
    id: "jr_vmId j = e" and
    pid: "assertPid (fld fs ''pid'') = Inr (jr_pid j)" and
    paths: "assertText (fld fs ''apiSocketPath'') ''jail.apiSocketPath'' 4096 False = Inr (jr_apiSocketPath j)"
    "assertText (fld fs ''stateDir'') ''jail.stateDir'' 4096 False = Inr (jr_stateDir j)" and
    opts: "ifDefined (\<lambda>x. assertText x ''jail.vsockUdsPath'' 4096 False) (fld fs ''vsockUdsPath'') = Inr (jr_vsockUdsPath j)"
    "ifDefined (\<lambda>x. assertText x ''jail.pidfilePath'' 4096 False) (fld fs ''pidfilePath'') = Inr (jr_pidfilePath j)"
    "ifDefined (\<lambda>x. assertText x ''jail.chrootDir'' 4096 False) (fld fs ''chrootDir'') = Inr (jr_chrootDir j)" and
    ls: "mapE (\<lambda>x. assertText x ''jail.vsockListenerPath'' 4096 False) ls = Inr (jr_vsockListenerPaths j)" and
    created: "assertTimestamp df (fld fs ''createdAt'') ''jail.createdAt'' = Inr (jr_createdAt j)" and
    meta: "ifDefined (\<lambda>x. bindE (assertRecord x ''jail metadata'') (\<lambda>es.
              if 64 < length es then Inl (ModelTypeError ''jail metadata'') else validateMetadata es))
            (fld fs ''metadata'') = Inr (jr_metadata j)"
    unfolding validateJailRecord_def bindE_eq_Inr by auto
  have "pred_option (\<lambda>p. 1 \<le> p \<and> p \<le> 2147483647) (jr_pid j)"
    using pid by (cases "jr_pid j") (auto simp: assertPid_def err_simps assert_simps split: if_splits)
  moreover have "list_all (text_ok 4096) (jr_vsockListenerPaths j)"
    using mapE_mem [OF ls] by (auto simp: list_all_iff assert_simps text_ok_def)
  moreover have "pred_option metadata_ok (jr_metadata j)"
    using meta by (rule ifDefined_pred)
      (auto simp: err_simps metadata_ok_def split: if_splits dest: validateMetadata_sound)
  ultimately show ?thesis
    using id paths created ifDefined_text [OF opts(1)] ifDefined_text [OF opts(2)] ifDefined_text [OF opts(3)]
    by (simp add: jail_ok_def assert_simps text_ok_def)
qed

lemma validateMachine_sound:
  assumes "validateMachine df v = Inr m"
  shows "machine_ok df m"
proof -
  from assms obtain fs where
    e: "assertString execution_id_pattern (fld fs ''executionId'') ''executionId'' = Inr (mj_executionId m)" and
    u: "assertTimestamp df (fld fs ''updatedAt'') ''machine.updatedAt'' = Inr (mj_updatedAt m)" and
    c: "ifDefined (\<lambda>x. assertText x ''machine.cgroupPath'' 4096 False) (fld fs ''cgroupPath'') = Inr (mj_cgroupPath m)" and
    j: "ifDefined (\<lambda>x. validateJailRecord df x (mj_executionId m)) (fld fs ''jailRecord'') = Inr (mj_jailRecord m)"
    unfolding validateMachine_def bindE_eq_Inr by auto
  have "pred_option (jail_ok df (mj_executionId m)) (mj_jailRecord m)"
    using j by (rule ifDefined_pred) (rule validateJailRecord_sound)
  then show ?thesis
    using e u ifDefined_text [OF c] by (simp add: machine_ok_def assert_simps)
qed

lemma validateArtifactReference_sound:
  "validateArtifactReference v = Inr a \<Longrightarrow> sha256_hex (ar_manifestHash a)"
  by (auto simp: validateArtifactReference_def err_simps assert_simps)

lemma validateSandboxRecord_sound:
  assumes "validateSandboxRecord df v = Inr r"
  shows "record_ok df r"
proof -
  from assms obtain fs where
    ver: "assertVersion (fld fs ''schemaVersion'') = Inr (sb_schemaVersion r)" and
    i: "assertSandboxId (sb_id r) = Inr ()" and
    nums: "assertNonNegativeInteger (fld fs ''revision'') ''revision'' = Inr (sb_revision r)"
    "assertNonNegativeInteger (fld fs ''generation'') ''generation'' = Inr (sb_generation r)" and
    stamps: "assertTimestamp df (fld fs ''createdAt'') ''createdAt'' = Inr (sb_createdAt r)"
    "assertTimestamp df (fld fs ''updatedAt'') ''updatedAt'' = Inr (sb_updatedAt r)" and
    reason: "ifDefined (\<lambda>x. assertText x ''terminationReason'' 512 False) (fld fs ''terminationReason'')
      = Inr (sb_terminationReason r)" and
    res: "validateResources (fld fs ''resources'') = Inr (sb_resources r)" and
    mach: "ifDefined (validateMachine df) (fld fs ''machine'') = Inr (sb_machine r)" and
    art: "ifDefined (\<lambda>x. if sb_schemaVersion r = 1 then Inl (ModelTypeError ''artifact'')
       else validateArtifactReference x) (fld fs ''artifact'') = Inr (sb_artifact r)" and
    pin: "ifDefined (\<lambda>x. if sb_schemaVersion r = 1 then Inl (ModelTypeError ''templatePinned'')
       else assertBool x ''templatePinned'') (fld fs ''templatePinned'') = Inr (sb_templatePinned r)"
    unfolding validateSandboxRecord_def bindE_eq_Inr by auto
  have a: "pred_option (\<lambda>a. sha256_hex (ar_manifestHash a)) (sb_artifact r)"
    using art by (rule ifDefined_pred) (auto dest: validateArtifactReference_sound split: if_splits)
  have one: "sb_schemaVersion r = 1 \<longrightarrow> sb_artifact r = None \<and> sb_templatePinned r = None"
    using art pin by (auto simp: ifDefined_def split: if_splits)
  have m: "pred_option (machine_ok df) (sb_machine r)"
    using mach by (rule ifDefined_pred) (rule validateMachine_sound)
  show ?thesis
    using ver i nums stamps ifDefined_text [OF reason] validateResources_sound [OF res] a one m
    by (simp add: record_ok_def assert_simps assertSandboxId_def)
qed

subsection \<open>A valid record reads back\<close>

definition optv :: "('a \<Rightarrow> jsval) \<Rightarrow> 'a option \<Rightarrow> jsval option \<Rightarrow> jsval option" where
  "optv enc x d = (case x of None \<Rightarrow> d | Some a \<Rightarrow> Some (enc a))"

lemma map_of_optf: "map_of (optf k enc x @ fs) k' =
   (if k' = k then optv enc x (map_of fs k') else map_of fs k')"
  by (cases x) (auto simp: optf_def optv_def)

lemma map_of_optf_end: "map_of (optf k enc x) k' = (if k' = k then optv enc x None else None)"
  by (cases x) (auto simp: optf_def optv_def)

lemma json_defined [simp]: "jail_json j \<noteq> JUndef" "machine_json m \<noteq> JUndef" "artifact_json a \<noteq> JUndef"
  by (simp_all add: jail_json_def machine_json_def artifact_json_def)

lemma keys_optf: "fst ` set (optf k enc x) \<subseteq> K \<longleftrightarrow> (x \<noteq> None \<longrightarrow> k \<in> K)"
  by (cases x) (auto simp: optf_def)

lemma ifDefined_Undef [simp]: "ifDefined f JUndef = Inr None"
  by (simp add: ifDefined_def)

lemma ifDefined_field:
  assumes "\<And>a. x = Some a \<Longrightarrow> enc a \<noteq> JUndef \<and> f (enc a) = Inr a"
  shows "ifDefined f (orElse (optv enc x None) JUndef) = Inr x"
  using assms by (cases x) (simp_all add: ifDefined_def optv_def)

lemmas field_simps_js = fld_def map_of_optf map_of_optf_end

lemma validatePorts_json:
  "ports_ok ps \<Longrightarrow> ep_hostPort ` set ps \<inter> H = {} \<Longrightarrow> validatePorts H (map port_json ps) = Inr ps"
proof (induction ps arbitrary: H)
  case (Cons p ps)
  then have "validatePorts (insert (ep_hostPort p) H) (map port_json ps) = Inr ps"
    by (auto simp: ports_ok_def)
  with Cons.prems show ?case
    by (simp add: port_json_def [of p] assertRecord_def assertKeys_def requireE_def fld_def
        assertUnsignedInteger_def jint_def ports_ok_def MAX_SAFE_INTEGER_def)
qed simp

lemma assertText_json [simp]: "text_ok n s \<Longrightarrow> assertText (JStr s) f n False = Inr s"
  by (simp add: assertText_Inr text_ok_def)

lemma assertInt_json [simp]:
  "mn \<le> i \<Longrightarrow> i \<le> mx \<Longrightarrow> - MAX_SAFE_INTEGER \<le> mn \<Longrightarrow> mx \<le> MAX_SAFE_INTEGER \<Longrightarrow>
   assertUnsignedInteger (jint i) f mx mn = Inr i"
  by (simp add: assertUnsignedInteger_Inr abs_le_iff)

lemma jint_defined [simp]: "jint i \<noteq> JUndef" "jint i \<noteq> JNull"
  by (simp_all add: jint_def)

lemma validateResources_json:
  assumes "resources_ok r"
  shows "validateResources (resources_json r) = Inr r"
proof -
  let ?fs = "case resources_json r of JObj fs \<Rightarrow> fs | _ \<Rightarrow> []"
  have obj: "resources_json r = JObj ?fs" by (simp add: resources_json_def)
  have keys: "assertKeys ?fs [''uid'', ''gid'', ''overlayPath'', ''tapName'', ''netnsPath'', ''hostIp'',
       ''guestIp'', ''subnet'', ''dnsmasqPidfile'', ''exposedPorts''] f = Inr ()" for f
    by (simp add: resources_json_def assertKeys_Inr image_Un keys_optf)
  have strs: "ifDefined (\<lambda>x. assertText x f 4096 False)
      (orElse (optv JStr x None) JUndef) = Inr x"
    if "pred_option (text_ok 4096) x" for x f
    using that by (intro ifDefined_field) (auto simp: assertText_Inr text_ok_def)
  have num: "ifDefined (\<lambda>x. assertUnsignedInteger x f 4294967295 0)
      (orElse (optv jint x None) JUndef) = Inr x"
    if "pred_option (\<lambda>u. 0 \<le> u \<and> u \<le> 4294967295) x" for x f
    using that by (intro ifDefined_field) (auto simp: MAX_SAFE_INTEGER_def)
  have ports: "validatePorts {} (map port_json (sr_exposedPorts r)) = Inr (sr_exposedPorts r)"
    using assms by (intro validatePorts_json) (auto simp: resources_ok_def)
  show ?thesis
    unfolding validateResources_def using assms
    by (subst obj) (simp add: assertRecord_def keys, simp add: resources_json_def field_simps_js
        strs num ports assertArray_def resources_ok_def del: map_of_append)
qed

lemma validateMetadata_json:
  "list_all (\<lambda>e. text_ok 128 (fst e) \<and> byteLength (snd e) \<le> 1024) m \<Longrightarrow>
   validateMetadata (map (\<lambda>e. (fst e, JStr (snd e))) m) = Inr m"
  by (induction m) (auto simp: assertText_def text_ok_def)

lemma validateJailRecord_json:
  assumes "jail_ok df e j"
  shows "validateJailRecord df (jail_json j) e = Inr j"
proof -
  let ?fs = "case jail_json j of JObj fs \<Rightarrow> fs | _ \<Rightarrow> []"
  have obj: "jail_json j = JObj ?fs" by (simp add: jail_json_def)
  have keys: "assertKeys ?fs [''version'', ''vmId'', ''pid'', ''apiSocketPath'', ''stateDir'',
       ''ownsStateDir'', ''vsockUdsPath'', ''vsockListenerPaths'', ''pidfilePath'', ''chrootDir'',
       ''createdAt'', ''metadata''] f = Inr ()" for f
    by (simp add: jail_json_def assertKeys_Inr image_Un keys_optf)
  have strs: "ifDefined (\<lambda>x. assertText x f 4096 False)
      (orElse (optv JStr x None) JUndef) = Inr x"
    if "pred_option (text_ok 4096) x" for x f
    using that by (intro ifDefined_field) (auto simp: assertText_Inr text_ok_def)
  have pid: "assertPid (case jr_pid j of None \<Rightarrow> JNull | Some p \<Rightarrow> jint p) = Inr (jr_pid j)"
    using assms by (auto simp: jail_ok_def assertPid_def MAX_SAFE_INTEGER_def split: option.splits)
  have ls: "mapE (\<lambda>x. assertText x f 4096 False) (map JStr (jr_vsockListenerPaths j))
      = Inr (jr_vsockListenerPaths j)" for f
    using assms by (intro mapE_map_Inr) (auto simp: jail_ok_def list_all_iff)
  have meta: "ifDefined (\<lambda>x. bindE (assertRecord x ''jail metadata'') (\<lambda>es.
              if 64 < length es then Inl (ModelTypeError ''jail metadata'') else validateMetadata es))
      (orElse (optv (\<lambda>m. JObj (map (\<lambda>e. (fst e, JStr (snd e))) m)) (jr_metadata j) None) JUndef)
      = Inr (jr_metadata j)"
    using assms by (intro ifDefined_field) (auto simp: jail_ok_def metadata_ok_def assertRecord_def
        validateMetadata_json)
  have "assertTimestamp df (JStr (jr_createdAt j)) f = Inr (jr_createdAt j)" for f
    using assms by (simp add: assertTimestamp_Inr jail_ok_def)
  with assms show ?thesis
    unfolding validateJailRecord_def
    by (subst obj) (simp add: assertRecord_def [of _ "''jail record''"] keys, simp add: jail_json_def
        field_simps_js strs pid ls meta assertArray_def assertBool_def assertIdentity_def requireE_def
        jint_def [of 1] jail_ok_def del: map_of_append)
qed

lemma assertOneOf_phase [simp]: "assertOneOf SANDBOX_PHASES (JStr (phase_name p)) f = Inr p"
  by (cases p) (simp_all add: assertOneOf_def SANDBOX_PHASES_def)

lemma assertOneOf_machine [simp]: "assertOneOf MACHINE_PHASES (JStr (machine_phase_name p)) f = Inr p"
  by (cases p) (simp_all add: assertOneOf_def MACHINE_PHASES_def)

lemma assertOneOf_arch [simp]: "assertOneOf ARTIFACT_REFERENCE_ARCHES (JStr (arch_name a)) f = Inr a"
  by (cases a) (simp_all add: assertOneOf_def ARTIFACT_REFERENCE_ARCHES_def)

lemma validateMachine_json:
  assumes "machine_ok df m"
  shows "validateMachine df (machine_json m) = Inr m"
proof -
  let ?fs = "case machine_json m of JObj fs \<Rightarrow> fs | _ \<Rightarrow> []"
  have obj: "machine_json m = JObj ?fs" by (simp add: machine_json_def)
  have keys: "assertKeys ?fs [''executionId'', ''phase'', ''jailRecord'', ''cgroupPath'', ''updatedAt''] f
      = Inr ()" for f
    by (simp add: machine_json_def assertKeys_Inr image_Un keys_optf)
  have cg: "ifDefined (\<lambda>x. assertText x f 4096 False)
      (orElse (optv JStr (mj_cgroupPath m) None) JUndef) = Inr (mj_cgroupPath m)" for f
    using assms by (intro ifDefined_field) (auto simp: assertText_Inr text_ok_def machine_ok_def)
  have jail: "ifDefined (\<lambda>x. validateJailRecord df x (mj_executionId m))
      (orElse (optv jail_json (mj_jailRecord m) None) JUndef) = Inr (mj_jailRecord m)"
    using assms by (intro ifDefined_field) (auto simp: machine_ok_def validateJailRecord_json)
  have "assertTimestamp df (JStr (mj_updatedAt m)) f = Inr (mj_updatedAt m)"
    "assertString execution_id_pattern (JStr (mj_executionId m)) f = Inr (mj_executionId m)" for f
    using assms by (simp_all add: assert_simps machine_ok_def)
  then show ?thesis
    unfolding validateMachine_def
    by (subst obj) (simp add: assertRecord_def keys, simp add: machine_json_def field_simps_js cg jail
        del: map_of_append)
qed

lemma validateArtifactReference_json:
  "sha256_hex (ar_manifestHash a) \<Longrightarrow> validateArtifactReference (artifact_json a) = Inr a"
  by (simp add: validateArtifactReference_def artifact_json_def assertRecord_def assertKeys_def
      requireE_def fld_def assertString_def)

lemma validateSandboxRecord_json:
  assumes "record_ok df r"
  shows "validateSandboxRecord df (record_json r) = Inr r"
proof -
  let ?fs = "case record_json r of JObj fs \<Rightarrow> fs | _ \<Rightarrow> []"
  have obj: "record_json r = JObj ?fs" by (simp add: record_json_def)
  have keys: "assertKeys ?fs [''schemaVersion'', ''id'', ''revision'', ''generation'', ''phase'',
       ''createdAt'', ''updatedAt'', ''machine'', ''artifact'', ''templatePinned'', ''resources'',
       ''terminationReason''] f = Inr ()" for f
    by (simp add: record_json_def assertKeys_Inr image_Un keys_optf)
  have reason: "ifDefined (\<lambda>x. assertText x f 512 False)
      (orElse (optv JStr (sb_terminationReason r) None) JUndef) = Inr (sb_terminationReason r)" for f
    using assms by (intro ifDefined_field) (auto simp: assertText_Inr text_ok_def record_ok_def)
  have mach: "ifDefined (validateMachine df)
      (orElse (optv machine_json (sb_machine r) None) JUndef) = Inr (sb_machine r)"
    using assms by (intro ifDefined_field) (auto simp: record_ok_def validateMachine_json)
  have art: "ifDefined (\<lambda>x. if sb_schemaVersion r = 1 then Inl (ModelTypeError ''artifact'')
       else validateArtifactReference x)
      (orElse (optv artifact_json (sb_artifact r) None) JUndef) = Inr (sb_artifact r)"
    using assms by (intro ifDefined_field)
      (auto simp: record_ok_def validateArtifactReference_json)
  have pin: "ifDefined (\<lambda>x. if sb_schemaVersion r = 1 then Inl (ModelTypeError ''templatePinned'')
       else assertBool x ''templatePinned'')
      (orElse (optv JBool (sb_templatePinned r) None) JUndef) = Inr (sb_templatePinned r)"
    using assms by (intro ifDefined_field) (auto simp: record_ok_def assertBool_def)
  have base: "assertVersion (jint (sb_schemaVersion r)) = Inr (sb_schemaVersion r)"
    "assertSandboxId (sb_id r) = Inr ()" "assertString (\<lambda>_. True) (JStr (sb_id r)) f = Inr (sb_id r)"
    "assertNonNegativeInteger (jint (sb_revision r)) f = Inr (sb_revision r)"
    "assertNonNegativeInteger (jint (sb_generation r)) f = Inr (sb_generation r)"
    "assertTimestamp df (JStr (sb_createdAt r)) f = Inr (sb_createdAt r)"
    "assertTimestamp df (JStr (sb_updatedAt r)) f = Inr (sb_updatedAt r)"
    "validateResources (resources_json (sb_resources r)) = Inr (sb_resources r)" for f
    using assms by (simp_all add: assert_simps record_ok_def assertSandboxId_def validateResources_json)
  show ?thesis
    unfolding validateSandboxRecord_def
    by (subst obj) (simp add: assertRecord_def keys, simp add: record_json_def field_simps_js base
        reason mach art pin del: map_of_append)
qed

subsection \<open>Validation never alters a record\<close>

lemma ifDefined_field_unique:
  assumes "ifDefined f (orElse (optv enc x None) JUndef) = Inr y"
    and "\<And>a. enc a \<noteq> JUndef" and "\<And>a b. f (enc a) = Inr b \<Longrightarrow> a = b"
  shows "x = y"
  using assms by (cases x) (auto simp: ifDefined_def optv_def err_simps split: if_splits)

lemma ifDefined_text_unique:
  "ifDefined (\<lambda>x. assertText x f n e) (orElse (optv JStr x None) JUndef) = Inr y \<Longrightarrow> x = y"
  by (erule ifDefined_field_unique) (simp_all add: assertText_Inr)

lemma jint_inject [simp]: "jint i = jint j \<longleftrightarrow> i = j"
  by (simp add: jint_def)

lemma ifDefined_int_unique:
  "ifDefined (\<lambda>x. assertUnsignedInteger x f mx mn) (orElse (optv jint x None) JUndef) = Inr y \<Longrightarrow> x = y"
  by (erule ifDefined_field_unique) (simp_all add: assertUnsignedInteger_Inr)

lemmas unique_rules = ifDefined_text_unique ifDefined_int_unique

lemma validatePorts_unique: "validatePorts H (map port_json ps) = Inr qs \<Longrightarrow> qs = ps"
  by (induction ps arbitrary: H qs)
    (auto simp: err_simps assert_simps port_json_def [of "_ :: exposed_port"] fld_def split: if_splits)

lemma validateResources_unique:
  assumes "validateResources (resources_json r) = Inr r'"
  shows "r' = r"
proof -
  from assms obtain
    "ifDefined (\<lambda>x. assertUnsignedInteger x ''uid'' 4294967295 0) (orElse (optv jint (sr_uid r) None) JUndef) = Inr (sr_uid r')"
    "ifDefined (\<lambda>x. assertUnsignedInteger x ''gid'' 4294967295 0) (orElse (optv jint (sr_gid r) None) JUndef) = Inr (sr_gid r')"
    "ifDefined (\<lambda>x. assertText x ''overlayPath'' 4096 False) (orElse (optv JStr (sr_overlayPath r) None) JUndef) = Inr (sr_overlayPath r')"
    "ifDefined (\<lambda>x. assertText x ''tapName'' 4096 False) (orElse (optv JStr (sr_tapName r) None) JUndef) = Inr (sr_tapName r')"
    "ifDefined (\<lambda>x. assertText x ''netnsPath'' 4096 False) (orElse (optv JStr (sr_netnsPath r) None) JUndef) = Inr (sr_netnsPath r')"
    "ifDefined (\<lambda>x. assertText x ''hostIp'' 4096 False) (orElse (optv JStr (sr_hostIp r) None) JUndef) = Inr (sr_hostIp r')"
    "ifDefined (\<lambda>x. assertText x ''guestIp'' 4096 False) (orElse (optv JStr (sr_guestIp r) None) JUndef) = Inr (sr_guestIp r')"
    "ifDefined (\<lambda>x. assertText x ''subnet'' 4096 False) (orElse (optv JStr (sr_subnet r) None) JUndef) = Inr (sr_subnet r')"
    "ifDefined (\<lambda>x. assertText x ''dnsmasqPidfile'' 4096 False) (orElse (optv JStr (sr_dnsmasqPidfile r) None) JUndef) = Inr (sr_dnsmasqPidfile r')"
    "validatePorts {} (map port_json (sr_exposedPorts r)) = Inr (sr_exposedPorts r')"
    unfolding validateResources_def bindE_eq_Inr assertRecord_Inr
    by (auto simp: resources_json_def field_simps_js assertArray_Inr simp del: map_of_append)
  then have "sr_uid r = sr_uid r'" "sr_gid r = sr_gid r'" "sr_overlayPath r = sr_overlayPath r'"
    "sr_tapName r = sr_tapName r'" "sr_netnsPath r = sr_netnsPath r'" "sr_hostIp r = sr_hostIp r'"
    "sr_guestIp r = sr_guestIp r'" "sr_subnet r = sr_subnet r'"
    "sr_dnsmasqPidfile r = sr_dnsmasqPidfile r'" "sr_exposedPorts r' = sr_exposedPorts r"
    by (auto dest!: ifDefined_int_unique ifDefined_text_unique validatePorts_unique)
  then show ?thesis by (cases r, cases r') simp
qed

lemma validateMetadata_unique:
  "validateMetadata (map (\<lambda>e. (fst e, JStr (snd e))) m) = Inr m' \<Longrightarrow> m' = m"
  by (induction m arbitrary: m') (auto simp: err_simps assert_simps)

lemma assertPid_unique: "assertPid (case p of None \<Rightarrow> JNull | Some i \<Rightarrow> jint i) = Inr q \<Longrightarrow> p = q"
  by (auto simp: assertPid_def err_simps assert_simps split: option.splits)

lemma mapE_text_unique: "mapE (\<lambda>x. assertText x f n e) (map JStr ls) = Inr ms \<Longrightarrow> ls = ms"
  by (induction ls arbitrary: ms) (auto simp: err_simps assert_simps)

lemma validateJailRecord_unique:
  assumes "validateJailRecord df (jail_json j) e = Inr j'"
  shows "j = j'"
proof -
  from assms obtain
    "JStr (jr_vmId j) = JStr e" "jr_vmId j' = e" and
    a: "assertPid (case jr_pid j of None \<Rightarrow> JNull | Some p \<Rightarrow> jint p) = Inr (jr_pid j')"
    "jr_apiSocketPath j = jr_apiSocketPath j'" "jr_stateDir j = jr_stateDir j'"
    "jr_ownsStateDir j = jr_ownsStateDir j'" "jr_createdAt j = jr_createdAt j'"
    "ifDefined (\<lambda>x. assertText x ''jail.vsockUdsPath'' 4096 False) (orElse (optv JStr (jr_vsockUdsPath j) None) JUndef) = Inr (jr_vsockUdsPath j')"
    "ifDefined (\<lambda>x. assertText x ''jail.pidfilePath'' 4096 False) (orElse (optv JStr (jr_pidfilePath j) None) JUndef) = Inr (jr_pidfilePath j')"
    "ifDefined (\<lambda>x. assertText x ''jail.chrootDir'' 4096 False) (orElse (optv JStr (jr_chrootDir j) None) JUndef) = Inr (jr_chrootDir j')"
    "mapE (\<lambda>x. assertText x ''jail.vsockListenerPath'' 4096 False) (map JStr (jr_vsockListenerPaths j)) = Inr (jr_vsockListenerPaths j')"
    "ifDefined (\<lambda>x. bindE (assertRecord x ''jail metadata'') (\<lambda>es.
              if 64 < length es then Inl (ModelTypeError ''jail metadata'') else validateMetadata es))
      (orElse (optv (\<lambda>m. JObj (map (\<lambda>e. (fst e, JStr (snd e))) m)) (jr_metadata j) None) JUndef)
      = Inr (jr_metadata j')"
    unfolding validateJailRecord_def bindE_eq_Inr assertRecord_Inr [of _ "''jail record''"]
    by (auto simp: jail_json_def field_simps_js assertArray_Inr assertText_Inr assertTimestamp_Inr
        assertBool_Inr assertIdentity_def simp del: map_of_append)
  moreover have "jr_metadata j = jr_metadata j'"
    using a(10) by (rule ifDefined_field_unique)
      (auto simp: assertRecord_def err_simps split: if_splits dest: validateMetadata_unique)
  moreover have "jr_pid j = jr_pid j'" using a(1) by (rule assertPid_unique)
  moreover have "jr_vsockUdsPath j = jr_vsockUdsPath j'" using a(6) by (rule ifDefined_text_unique)
  moreover have "jr_pidfilePath j = jr_pidfilePath j'" using a(7) by (rule ifDefined_text_unique)
  moreover have "jr_chrootDir j = jr_chrootDir j'" using a(8) by (rule ifDefined_text_unique)
  moreover have "jr_vsockListenerPaths j = jr_vsockListenerPaths j'" using a(9) by (rule mapE_text_unique)
  ultimately show ?thesis by (cases j, cases j') simp
qed

lemma validateMachine_unique:
  assumes "validateMachine df (machine_json m) = Inr m'"
  shows "m = m'"
proof -
  from assms obtain
    "mj_executionId m = mj_executionId m'" "mj_phase m = mj_phase m'" "mj_updatedAt m = mj_updatedAt m'" and
    a: "ifDefined (\<lambda>x. assertText x ''machine.cgroupPath'' 4096 False) (orElse (optv JStr (mj_cgroupPath m) None) JUndef) = Inr (mj_cgroupPath m')"
    "ifDefined (\<lambda>x. validateJailRecord df x (mj_executionId m')) (orElse (optv jail_json (mj_jailRecord m) None) JUndef) = Inr (mj_jailRecord m')"
    unfolding validateMachine_def bindE_eq_Inr assertRecord_Inr
    by (auto simp: machine_json_def field_simps_js assertString_Inr assertTimestamp_Inr
        simp del: map_of_append)
  moreover have "mj_jailRecord m = mj_jailRecord m'"
    using a(2) by (rule ifDefined_field_unique) (auto dest: validateJailRecord_unique)
  moreover have "mj_cgroupPath m = mj_cgroupPath m'" using a(1) by (rule ifDefined_text_unique)
  ultimately show ?thesis by (cases m, cases m') simp
qed

lemma validateArtifactReference_unique:
  "validateArtifactReference (artifact_json a) = Inr b \<Longrightarrow> a = b"
  by (cases a) (auto simp: validateArtifactReference_def artifact_json_def err_simps assert_simps fld_def)

lemma validateSandboxRecord_unique:
  assumes "validateSandboxRecord df (record_json r) = Inr r'"
  shows "r' = r"
proof -
  from assms obtain
    "sb_schemaVersion r = sb_schemaVersion r'" "sb_id r = sb_id r'" "sb_revision r = sb_revision r'"
    "sb_generation r = sb_generation r'" "sb_phase r = sb_phase r'" "sb_createdAt r = sb_createdAt r'"
    "sb_updatedAt r = sb_updatedAt r'" and
    a: "ifDefined (\<lambda>x. assertText x ''terminationReason'' 512 False) (orElse (optv JStr (sb_terminationReason r) None) JUndef) = Inr (sb_terminationReason r')"
    "validateResources (resources_json (sb_resources r)) = Inr (sb_resources r')"
    "ifDefined (validateMachine df) (orElse (optv machine_json (sb_machine r) None) JUndef) = Inr (sb_machine r')"
    "ifDefined (\<lambda>x. if sb_schemaVersion r' = 1 then Inl (ModelTypeError ''artifact'')
       else validateArtifactReference x) (orElse (optv artifact_json (sb_artifact r) None) JUndef) = Inr (sb_artifact r')"
    "ifDefined (\<lambda>x. if sb_schemaVersion r' = 1 then Inl (ModelTypeError ''templatePinned'')
       else assertBool x ''templatePinned'') (orElse (optv JBool (sb_templatePinned r) None) JUndef) = Inr (sb_templatePinned r')"
    unfolding validateSandboxRecord_def bindE_eq_Inr assertRecord_Inr
    by (auto simp: record_json_def field_simps_js assertString_Inr assertTimestamp_Inr
        assertVersion_Inr assertNonNegativeInteger_Inr simp del: map_of_append)
  moreover have "sb_terminationReason r = sb_terminationReason r'" using a(1) by (rule ifDefined_text_unique)
  moreover have "sb_resources r' = sb_resources r" using a(2) by (rule validateResources_unique)
  moreover have "sb_machine r = sb_machine r'"
    using a(3) by (rule ifDefined_field_unique) (auto dest: validateMachine_unique)
  moreover have "sb_artifact r = sb_artifact r'"
    using a(4) by (rule ifDefined_field_unique) (auto dest: validateArtifactReference_unique split: if_splits)
  moreover have "sb_templatePinned r = sb_templatePinned r'"
    using a(5) by (rule ifDefined_field_unique) (auto simp: assertBool_def split: if_splits)
  ultimately show ?thesis by (cases r, cases r') simp
qed

lemma validate_record_json:
  "validateSandboxRecord df (record_json r) = Inr r' \<longleftrightarrow> r' = r \<and> record_ok df r"
  using validateSandboxRecord_json validateSandboxRecord_unique validateSandboxRecord_sound by metis

subsection \<open>Properties\<close>

definition example_resources :: sandbox_resources where
  "example_resources = \<lparr>sr_uid = None, sr_gid = None, sr_overlayPath = None, sr_tapName = Some ''sbxtap3'',
     sr_netnsPath = None, sr_hostIp = None, sr_guestIp = Some ''10.201.0.14'', sr_subnet = None,
     sr_dnsmasqPidfile = None, sr_exposedPorts = [\<lparr>ep_hostPort = 40100, ep_guestPort = 8000\<rparr>]\<rparr>"

definition example_record :: sandbox_record where
  "example_record = \<lparr>sb_schemaVersion = 2, sb_id = ''sbx-1'', sb_revision = 0, sb_generation = 0,
     sb_phase = Allocating, sb_createdAt = ''2026-01-01'', sb_updatedAt = ''2026-01-01'',
     sb_machine = None, sb_artifact = None, sb_templatePinned = None, sb_resources = example_resources,
     sb_terminationReason = None\<rparr>"

lemma example_record_ok: "record_ok (\<lambda>_. True) example_record"
  by (simp add: record_ok_def example_record_def example_resources_def sandbox_id_ok_def is_alnum_def
      is_digit_def is_lower_def is_upper_def code_def stamp_ok_def resources_ok_def ports_ok_def text_ok_def
      byteLength_Cons MAX_SAFE_INTEGER_def)

lemma new_record_ok: "newSandboxRecord df i createdAt generation now = Inr r \<Longrightarrow> record_ok df r"
  by (auto simp: newSandboxRecord_def err_simps assert_simps assertSandboxId_def record_ok_def
      resources_ok_def ports_ok_def SANDBOX_RECORD_VERSION_def MAX_SAFE_INTEGER_def)

text \<open>
  C32. What validation accepts and what it returns. Every value it accepts gives a record that meets the
  contract: identifiers in their patterns, bounded texts and numbers, distinct forward ports in the
  reserved range, a jail record that names its own execution, and no artifact or template pin in a
  version-1 record. A typed record written out and validated again is accepted exactly when it meets the
  contract, and comes back unchanged.
\<close>

theorem sandbox_record_validation:
  "(\<forall>v r. validateSandboxRecord df v = Inr r \<longrightarrow> record_ok df r)
   \<and> (\<forall>r r'. validateSandboxRecord df (record_json r) = Inr r' \<longleftrightarrow> r' = r \<and> record_ok df r)"
  by (simp add: validateSandboxRecord_sound validate_record_json)

theorem sandbox_record_validation_witness:
  "validateSandboxRecord (\<lambda>_. True) (record_json example_record) = Inr example_record"
  using sandbox_record_validation [of "\<lambda>_. True"] example_record_ok by blast

text \<open>
  A new record is valid. \<open>newSandboxRecord\<close> succeeds exactly on an id in the pattern, a bounded
  timestamp and a safe non-negative generation; the record it returns passes validation and is at revision
  zero, allocating, with no machine and no artifact.
\<close>

theorem new_record_is_valid:
  "(is_ok (newSandboxRecord df i createdAt generation now) \<longleftrightarrow>
      sandbox_id_ok i \<and> stamp_ok df (orElse createdAt now)
      \<and> isSafeInteger (orElse generation (NumInt 0)) \<and> 0 \<le> int_of (orElse generation (NumInt 0)))
   \<and> (\<forall>r. newSandboxRecord df i createdAt generation now = Inr r \<longrightarrow>
        validateSandboxRecord df (record_json r) = Inr r \<and> sb_revision r = 0 \<and> sb_phase r = Allocating
        \<and> sb_machine r = None \<and> sb_artifact r = None \<and> sb_id r = i)"
proof -
  have n: "assertNonNegativeInteger (JNum n) f = (if isSafeInteger n \<and> 0 \<le> int_of n then Inr (int_of n)
      else Inl (ModelTypeError f))" for n f
    by (cases n) (auto simp: assertNonNegativeInteger_def assertUnsignedInteger_def abs_le_iff)
  have t: "assertTimestamp df (JStr s) f = (if stamp_ok df s then Inr s else Inl (ModelTypeError f))" for s f
    by (simp add: assertTimestamp_def stamp_ok_def)
  show ?thesis
    using new_record_ok by (auto simp: validate_record_json newSandboxRecord_def n t err_simps assertSandboxId_def requireE_def
        split: if_splits)
qed

theorem new_record_is_valid_witness:
  "\<exists>r. newSandboxRecord (\<lambda>_. True) ''sbx-1'' (Some ''2026-01-01'') None ''now'' = Inr r
     \<and> validateSandboxRecord (\<lambda>_. True) (record_json r) = Inr r"
proof -
  have "is_ok (newSandboxRecord (\<lambda>_. True) ''sbx-1'' (Some ''2026-01-01'') None ''now'')"
    using new_record_is_valid [of "\<lambda>_. True" "''sbx-1''" "Some ''2026-01-01''" None "''now''"]
    by (simp add: sandbox_id_ok_def is_alnum_def is_digit_def is_lower_def is_upper_def code_def stamp_ok_def
        MAX_SAFE_INTEGER_def)
  then show ?thesis
    using new_record_is_valid [of "\<lambda>_. True" "''sbx-1''" "Some ''2026-01-01''" None "''now''"]
    by (auto elim: is_okE)
qed

end
