(* ===== verification/State_Store.thy ===== *)
theory State_Store
  imports Sandbox_Model
begin

text \<open>
  \<^verbatim>\<open>src/state/store.ts\<close>: the crash-safe JSON store of the sandbox records.

  The state file is missing, holds text that is not JSON, or holds a value; the text layer
  (\<open>JSON.stringify\<close> and \<open>JSON.parse\<close>) is the identity on values. The in-memory \<open>records\<close> object is a
  \<open>jsmap\<close>. Every operation reads the file, works on the map and writes it back, under the store's lock; \<open>io\<close>
  tells whether the write went through. The write itself, with its temporary file, is the list of steps
  \<open>WRITE_STEPS\<close>, each of which can fail or be the last one before a crash. The collation of \<open>list\<close> is a
  parameter.
\<close>

datatype state_file = Missing | Unparsable | Content jsval

type_synonym record_map = "(string, sandbox_record) jsmap"

datatype 'e store_error =
    StateConflict
  | StateCorrupt
  | StoreTypeError model_error
  | StoreIoError
  | UpdateThrew 'e

definition liftModel :: "model_error + 'a \<Rightarrow> 'e store_error + 'a" where
  "liftModel r = (case r of Inl e \<Rightarrow> Inl (StoreTypeError e) | Inr x \<Rightarrow> Inr x)"

text \<open>\<open>Object.entries\<close> of the \<open>records\<close> value: an object, or an array by its indices.\<close>

definition entries_of :: "jsval \<Rightarrow> (string \<times> jsval) list option" where
  "entries_of v = (case v of
      JObj fs \<Rightarrow> Some fs
    | JArr xs \<Rightarrow> Some (zip (map dec [0..<length xs]) xs)
    | _ \<Rightarrow> None)"

fun read_entries :: "(string \<Rightarrow> bool) \<Rightarrow> record_map \<Rightarrow> (string \<times> jsval) list \<Rightarrow> record_map option" where
  "read_entries df acc [] = Some acc"
| "read_entries df acc ((i, v) # es) =
     (case validateSandboxRecord df v of
        Inl _ \<Rightarrow> None
      | Inr r \<Rightarrow> if i \<noteq> sb_id r then None else read_entries df (jm_set i r acc) es)"

definition store_read :: "(string \<Rightarrow> bool) \<Rightarrow> state_file \<Rightarrow> 'e store_error + record_map" where
  "store_read df f = (case f of
      Missing \<Rightarrow> Inr []
    | Unparsable \<Rightarrow> Inl StateCorrupt
    | Content (JObj fs) \<Rightarrow>
        (if fld fs ''schemaVersion'' \<noteq> JNum (NumInt 1) then Inl StateCorrupt
         else (case entries_of (fld fs ''records'') of
             None \<Rightarrow> Inl StateCorrupt
           | Some es \<Rightarrow> (case read_entries df [] es of
                 None \<Rightarrow> Inl StateCorrupt | Some m \<Rightarrow> Inr m)))
    | Content _ \<Rightarrow> Inl StateCorrupt)"

definition state_json :: "record_map \<Rightarrow> jsval" where
  "state_json m = JObj [(''schemaVersion'', JNum (NumInt 1)),
     (''records'', JObj (map (\<lambda>e. (fst e, record_json (snd e))) m))]"

text \<open>\<open>#write\<close> seen from its caller: the file replaced, or an error and the file as it was.\<close>

definition store_write :: "bool \<Rightarrow> state_file \<Rightarrow> record_map \<Rightarrow> 'a \<Rightarrow> state_file \<times> ('e store_error + 'a)" where
  "store_write io f m x = (if io then (Content (state_json m), Inr x) else (f, Inl StoreIoError))"

definition store_create :: "(string \<Rightarrow> bool) \<Rightarrow> bool \<Rightarrow> state_file \<Rightarrow> sandbox_record
    \<Rightarrow> state_file \<times> ('e store_error + unit)" where
  "store_create df io f r = (case store_read df f of
      Inl e \<Rightarrow> (f, Inl e)
    | Inr m \<Rightarrow>
        if jm_has m (sb_id r) then (f, Inl StateConflict)
        else (case liftModel (validateSandboxRecord df (record_json r)) of
            Inl e \<Rightarrow> (f, Inl e)
          | Inr v \<Rightarrow> if sb_revision v \<noteq> 0 then (f, Inl StateConflict)
                      else store_write io f (jm_set (sb_id v) v m) ()))"

definition store_get :: "(string \<Rightarrow> bool) \<Rightarrow> state_file \<Rightarrow> string \<Rightarrow> 'e store_error + sandbox_record option" where
  "store_get df f i = bindE (store_read df f) (\<lambda>m. Inr (jm_get m i))"

definition store_list :: "(string \<Rightarrow> bool) \<Rightarrow> (string \<Rightarrow> string \<Rightarrow> bool) \<Rightarrow> state_file
    \<Rightarrow> 'e store_error + sandbox_record list" where
  "store_list df collate f = bindE (store_read df f) (\<lambda>m.
     Inr (sort_by (\<lambda>a b. collate (sb_id a) (sb_id b)) (map snd m)))"

definition compareAndSwap :: "(string \<Rightarrow> bool) \<Rightarrow> bool \<Rightarrow> string \<Rightarrow> state_file \<Rightarrow> string \<Rightarrow> int
    \<Rightarrow> (sandbox_record \<Rightarrow> 'e + sandbox_record) \<Rightarrow> state_file \<times> ('e store_error + sandbox_record)" where
  "compareAndSwap df io now f i expectedRevision update = (case store_read df f of
      Inl e \<Rightarrow> (f, Inl e)
    | Inr m \<Rightarrow> (case jm_get m i of
          None \<Rightarrow> (f, Inl StateConflict)
        | Some current \<Rightarrow>
            if sb_revision current \<noteq> expectedRevision then (f, Inl StateConflict)
            else (case update current of
                Inl e \<Rightarrow> (f, Inl (UpdateThrew e))
              | Inr candidate \<Rightarrow>
                  if sb_id candidate \<noteq> i then (f, Inl StateConflict)
                  else (case liftModel (validateSandboxRecord df (record_json
                      (candidate\<lparr>sb_revision := expectedRevision + 1, sb_updatedAt := now\<rparr>))) of
                      Inl e \<Rightarrow> (f, Inl e)
                    | Inr nxt \<Rightarrow> store_write io f (jm_set i nxt m) nxt))))"

definition store_remove :: "(string \<Rightarrow> bool) \<Rightarrow> bool \<Rightarrow> state_file \<Rightarrow> string \<Rightarrow> int
    \<Rightarrow> state_file \<times> ('e store_error + unit)" where
  "store_remove df io f i expectedRevision = (case store_read df f of
      Inl e \<Rightarrow> (f, Inl e)
    | Inr m \<Rightarrow> (case jm_get m i of
          None \<Rightarrow> (f, Inl StateConflict)
        | Some current \<Rightarrow>
            if sb_revision current \<noteq> expectedRevision then (f, Inl StateConflict)
            else store_write io f (jm_delete i m) ()))"

subsection \<open>The file and the map it stands for\<close>

text \<open>A map the store may hold: every record valid and filed under its own id.\<close>

definition map_ok :: "(string \<Rightarrow> bool) \<Rightarrow> record_map \<Rightarrow> bool" where
  "map_ok df m = (jm_ok m \<and> (\<forall>(i, r) \<in> set m. sb_id r = i \<and> record_ok df r))"

definition holds :: "(string \<Rightarrow> bool) \<Rightarrow> state_file \<Rightarrow> record_map \<Rightarrow> bool" where
  "holds df f m = (store_read df f = (Inr m :: unit store_error + record_map))"

lemma store_read_type:
  "store_read df f = (Inr m :: 'a store_error + record_map) \<longleftrightarrow> holds df f m"
  by (auto simp: holds_def store_read_def split: state_file.splits jsval.splits option.splits if_splits)

lemma map_ok_set: "map_ok df m \<Longrightarrow> record_ok df r \<Longrightarrow> sb_id r = i \<Longrightarrow> map_ok df (jm_set i r m)"
  by (auto simp: map_ok_def jm_mem_set jm.ok_insert)

lemma read_entries_ok:
  "read_entries df acc es = Some m \<Longrightarrow> map_ok df acc \<Longrightarrow> map_ok df m"
  by (induction df acc es rule: read_entries.induct)
    (auto simp: map_ok_set validateSandboxRecord_sound split: sum.splits if_splits)

lemma holds_map_ok: "holds df f m \<Longrightarrow> map_ok df m"
proof -
  have nil: "map_ok df []" by (simp add: map_ok_def)
  assume "holds df f m"
  then show ?thesis
    using nil by (auto simp: holds_def store_read_def read_entries_ok split: state_file.splits
        jsval.splits option.splits if_splits)
qed

lemma read_entries_json:
  "map_ok df (acc @ m) \<Longrightarrow>
   read_entries df acc (map (\<lambda>e. (fst e, record_json (snd e))) m) = Some (acc @ m)"
proof (induction m arbitrary: acc)
  case (Cons e m)
  obtain i r where e: "e = (i, r)" by (cases e)
  have r: "sb_id r = i" "record_ok df r" using Cons.prems by (auto simp: map_ok_def e)
  have "jm_get acc i = None"
    using Cons.prems by (auto simp: map_ok_def jm_ok_def e jm_get_def map_of_eq_None_iff)
  then have "jm_set i r acc = acc @ [(i, r)]" by (rule jm_set_fresh)
  then show ?case
    using Cons.IH [of "acc @ [(i, r)]"] Cons.prems r
    by (simp add: e validateSandboxRecord_json)
qed simp

lemma holds_write: "map_ok df m \<Longrightarrow> holds df (Content (state_json m)) m"
  using read_entries_json [of df "[]" m]
  by (simp add: holds_def store_read_def state_json_def fld_def entries_of_def)

lemma holds_unique: "holds df f m \<Longrightarrow> holds df f m' \<Longrightarrow> m = m'"
  by (simp add: holds_def)

lemma map_ok_get: "map_ok df m \<Longrightarrow> jm_get m i = Some r \<Longrightarrow> sb_id r = i \<and> record_ok df r"
  by (auto simp: map_ok_def jm_get_mem)

lemma map_ok_delete: "map_ok df m \<Longrightarrow> map_ok df (jm_delete i m)"
  by (auto simp: map_ok_def jm_mem_delete jm.ok_remove)

lemma liftModel_record:
  "liftModel (validateSandboxRecord df (record_json r)) =
     (if record_ok df r then Inr r
      else Inl (StoreTypeError (projl (validateSandboxRecord df (record_json r)))))"
  using validate_record_json [of df r]
  by (cases "validateSandboxRecord df (record_json r)") (auto simp: liftModel_def)

lemma holds_read: "holds df f m \<Longrightarrow> store_read df f = Inr m"
  by (simp add: store_read_type)

lemma store_write_eq:
  "store_write io f m x = (f', Inr y) \<longleftrightarrow> io \<and> f' = Content (state_json m) \<and> y = x"
  "store_write io f m x = (f', Inl e) \<longleftrightarrow> \<not> io \<and> f' = f \<and> e = StoreIoError"
  by (auto simp: store_write_def)

subsection \<open>Operations on the file as operations on the map\<close>

lemma create_holds:
  assumes "holds df f m"
  shows "store_create df io f r = (f', Inr u) \<longleftrightarrow>
     io \<and> jm_get m (sb_id r) = None \<and> record_ok df r \<and> sb_revision r = 0
     \<and> f' = Content (state_json (jm_set (sb_id r) r m))"
  by (auto simp: store_create_def holds_read [OF assms] liftModel_record jm_has_def store_write_eq)

lemma create_fails: "store_create df io f r = (f', Inl e) \<Longrightarrow> f' = f"
  by (auto simp: store_create_def store_write_eq split: sum.splits if_splits)

lemma cas_holds:
  assumes "holds df f m"
  shows "compareAndSwap df io now f i n update = (f', Inr r') \<longleftrightarrow>
     io \<and> (\<exists>r c. jm_get m i = Some r \<and> sb_revision r = n \<and> update r = Inr c \<and> sb_id c = i
       \<and> r' = c\<lparr>sb_revision := n + 1, sb_updatedAt := now\<rparr> \<and> record_ok df r'
       \<and> f' = Content (state_json (jm_set i r' m)))"
proof (cases "jm_get m i")
  case None
  then show ?thesis by (simp add: compareAndSwap_def holds_read [OF assms])
next
  case (Some cur)
  then show ?thesis
    by (cases "update cur")
      (auto simp: compareAndSwap_def holds_read [OF assms] liftModel_record store_write_eq)
qed

lemma cas_fails: "compareAndSwap df io now f i n update = (f', Inl e) \<Longrightarrow> f' = f"
  by (auto simp: compareAndSwap_def store_write_eq split: sum.splits option.splits if_splits)

lemma remove_holds:
  assumes "holds df f m"
  shows "store_remove df io f i n = (f', Inr u) \<longleftrightarrow>
     io \<and> (\<exists>r. jm_get m i = Some r \<and> sb_revision r = n) \<and> f' = Content (state_json (jm_delete i m))"
  by (auto simp: store_remove_def holds_read [OF assms] store_write_eq split: option.splits)

lemma remove_fails: "store_remove df io f i n = (f', Inl e) \<Longrightarrow> f' = f"
  by (auto simp: store_remove_def store_write_eq split: sum.splits option.splits if_splits)

subsection \<open>The atomic write\<close>

record dir_entry =
  de_isFile :: bool
  de_mtime :: "int option"
  de_content :: state_file

type_synonym directory = "(string, dir_entry) jsmap"

definition ABANDONED_TEMP_MAX_AGE_MS :: int where
  "ABANDONED_TEMP_MAX_AGE_MS = 60 * 60 * 1000"

definition sweep_candidate :: "string \<Rightarrow> string \<Rightarrow> dir_entry \<Rightarrow> bool" where
  "sweep_candidate base name e =
     (de_isFile e \<and> startsWith name (base @ ''.'') \<and> endsWith name ''.tmp'')"

definition sweepAbandonedTempFiles :: "string \<Rightarrow> int \<Rightarrow> directory \<Rightarrow> directory" where
  "sweepAbandonedTempFiles base now d = filter (\<lambda>x. \<not> (sweep_candidate base (fst x) (snd x)
     \<and> (case de_mtime (snd x) of None \<Rightarrow> False | Some t \<Rightarrow> ABANDONED_TEMP_MAX_AGE_MS \<le> now - t))) d"






text \<open>
  A failed step inside the \<open>try\<close> has the temporary file removed. When that removal is refused for another reason than that
  the file is gone, its error takes the place of the step's and the file stays.
\<close>

datatype temp_removal = RemovalDone | RemovalNotFound | RemovalRefused





lemma jm_get_filter_key:
  "(\<And>e. P (k, e)) \<Longrightarrow> jm_get (filter P d) k = jm_get d k"
  by (induction d) (auto simp: jm_get_def)

lemma sweep_keeps_base:
  "jm_get (sweepAbandonedTempFiles base now d) base = jm_get d base"
  unfolding sweepAbandonedTempFiles_def
  by (rule jm_get_filter_key) (simp add: sweep_candidate_def startsWith_def)



subsection \<open>Properties\<close>

lemma create_refines:
  assumes "holds df f m"
  shows "case (store_create df io f r :: state_file \<times> ('e store_error + unit)) of
         (f', Inr _) \<Rightarrow> io \<and> jm_get m (sb_id r) = None \<and> record_ok df r \<and> sb_revision r = 0
           \<and> holds df f' (jm_set (sb_id r) r m)
       | (f', Inl _) \<Rightarrow> f' = f \<and> \<not> (io \<and> jm_get m (sb_id r) = None \<and> record_ok df r \<and> sb_revision r = 0)"
proof -
  obtain f' and x :: "'e store_error + unit" where eq: "store_create df io f r = (f', x)"
    by (metis surj_pair)
  show ?thesis
  proof (cases x)
    case (Inl e)
    have "(store_create df io f r :: state_file \<times> ('e store_error + unit)) =
        (Content (state_json (jm_set (sb_id r) r m)), Inr ())"
      if "io \<and> jm_get m (sb_id r) = None \<and> record_ok df r \<and> sb_revision r = 0"
      using that by (simp add: create_holds [OF assms])
    then show ?thesis using eq Inl create_fails [of df io f r f'] by auto
  next
    case (Inr u)
    then show ?thesis
      using eq create_holds [OF assms, of io r f' u] holds_write [OF map_ok_set [OF holds_map_ok [OF assms]]]
      by auto
  qed
qed

lemma cas_refines:
  assumes "holds df f m"
  shows "case compareAndSwap df io now f i n update of
         (f', Inr r') \<Rightarrow> io \<and> (\<exists>r c. jm_get m i = Some r \<and> sb_revision r = n \<and> update r = Inr c \<and> sb_id c = i
           \<and> r' = c\<lparr>sb_revision := n + 1, sb_updatedAt := now\<rparr> \<and> holds df f' (jm_set i r' m))
       | (f', Inl _) \<Rightarrow> f' = f \<and> \<not> (io \<and> (\<exists>r c. jm_get m i = Some r \<and> sb_revision r = n \<and> update r = Inr c
           \<and> sb_id c = i \<and> record_ok df (c\<lparr>sb_revision := n + 1, sb_updatedAt := now\<rparr>)))"
proof -
  obtain f' x where eq: "compareAndSwap df io now f i n update = (f', x)"
    by (cases "compareAndSwap df io now f i n update")
  show ?thesis
  proof (cases x)
    case (Inl e)
    have "f' = f" using eq Inl cas_fails by blast
    moreover have "\<not> (io \<and> jm_get m i = Some r \<and> sb_revision r = n \<and> update r = Inr c \<and> sb_id c = i
        \<and> record_ok df (c\<lparr>sb_revision := n + 1, sb_updatedAt := now\<rparr>))" for r c
      using eq Inl cas_holds [OF assms, of io now i n update _ "c\<lparr>sb_revision := n + 1, sb_updatedAt := now\<rparr>"]
      by auto
    ultimately show ?thesis using eq Inl by simp
  next
    case (Inr r')
    then obtain r c where rc: "io" "jm_get m i = Some r" "sb_revision r = n" "update r = Inr c" "sb_id c = i"
      "r' = c\<lparr>sb_revision := n + 1, sb_updatedAt := now\<rparr>" "record_ok df r'"
      "f' = Content (state_json (jm_set i r' m))"
      using eq cas_holds [OF assms, of io now i n update f' r'] by auto
    then have "holds df f' (jm_set i r' m)"
      using holds_write [OF map_ok_set [OF holds_map_ok [OF assms]], of r' i] by simp
    with rc eq Inr show ?thesis by auto
  qed
qed

lemma remove_refines:
  assumes "holds df f m"
  shows "case (store_remove df io f i n :: state_file \<times> ('e store_error + unit)) of
         (f', Inr _) \<Rightarrow> io \<and> map_option sb_revision (jm_get m i) = Some n \<and> holds df f' (jm_delete i m)
       | (f', Inl _) \<Rightarrow> f' = f \<and> \<not> (io \<and> map_option sb_revision (jm_get m i) = Some n)"
proof -
  obtain f' and x :: "'e store_error + unit" where eq: "store_remove df io f i n = (f', x)"
    by (metis surj_pair)
  show ?thesis
  proof (cases x)
    case (Inl e)
    have "(store_remove df io f i n :: state_file \<times> ('e store_error + unit)) =
        (Content (state_json (jm_delete i m)), Inr ())"
      if "io \<and> map_option sb_revision (jm_get m i) = Some n"
      using that by (auto simp: remove_holds [OF assms])
    then show ?thesis using eq Inl remove_fails [of df io f i n f'] by auto
  next
    case (Inr u)
    then show ?thesis
      using eq remove_holds [OF assms, of io i n f' u] holds_write [OF map_ok_delete [OF holds_map_ok [OF assms]]]
      by auto
  qed
qed

text \<open>
  C30. The store refines a map. On a state file that holds a map of records, \<open>get\<close> is lookup; \<open>create\<close>
  succeeds exactly when the id is free, the record valid and at revision zero and the write goes through,
  and then the file holds the map with that record added; \<open>compareAndSwap\<close> succeeds exactly when the
  record is at the expected revision, the update returns a record of the same id that is valid once it is
  stamped, and then the file holds the map with that record replaced; \<open>remove\<close> deletes exactly a record at
  the expected revision. An operation that fails leaves the file as it was.
\<close>

theorem store_refines_map:
  assumes "holds df f m"
  shows "store_get df f i = Inr (jm_get m i)
    \<and> (case store_create df io f r of
         (f', Inr _) \<Rightarrow> io \<and> jm_get m (sb_id r) = None \<and> record_ok df r \<and> sb_revision r = 0
           \<and> holds df f' (jm_set (sb_id r) r m)
       | (f', Inl _) \<Rightarrow> f' = f \<and> \<not> (io \<and> jm_get m (sb_id r) = None \<and> record_ok df r \<and> sb_revision r = 0))
    \<and> (case compareAndSwap df io now f i n update of
         (f', Inr r') \<Rightarrow> io \<and> (\<exists>r c. jm_get m i = Some r \<and> sb_revision r = n \<and> update r = Inr c \<and> sb_id c = i
           \<and> r' = c\<lparr>sb_revision := n + 1, sb_updatedAt := now\<rparr> \<and> holds df f' (jm_set i r' m))
       | (f', Inl _) \<Rightarrow> f' = f \<and> \<not> (io \<and> (\<exists>r c. jm_get m i = Some r \<and> sb_revision r = n \<and> update r = Inr c
           \<and> sb_id c = i \<and> record_ok df (c\<lparr>sb_revision := n + 1, sb_updatedAt := now\<rparr>))))
    \<and> (case store_remove df io f i n of
         (f', Inr _) \<Rightarrow> io \<and> map_option sb_revision (jm_get m i) = Some n \<and> holds df f' (jm_delete i m)
       | (f', Inl _) \<Rightarrow> f' = f \<and> \<not> (io \<and> map_option sb_revision (jm_get m i) = Some n))"
  using create_refines [OF assms, where io = io and r = r]
    cas_refines [OF assms, where io = io and now = now and i = i and n = n and update = update]
    remove_refines [OF assms, where io = io and i = i and n = n]
  by (intro conjI) (simp_all add: store_get_def holds_read [OF assms])

definition example_file :: state_file where
  "example_file = Content (state_json [(''sbx-1'', example_record)])"

lemma example_file_holds: "holds (\<lambda>_. True) example_file [(''sbx-1'', example_record)]"
proof -
  have "map_ok (\<lambda>_. True) [(''sbx-1'', example_record)]"
    using example_record_ok by (simp add: map_ok_def jm_ok_def) (simp add: example_record_def)
  then show ?thesis unfolding example_file_def by (rule holds_write)
qed

definition example_update :: "sandbox_record \<Rightarrow> unit + sandbox_record" where
  "example_update r = Inr (r\<lparr>sb_phase := Staging\<rparr>)"

lemma example_staged_ok:
  "record_ok (\<lambda>_. True) (example_record\<lparr>sb_phase := Staging, sb_revision := 1, sb_updatedAt := ''2026-01-02''\<rparr>)"
  using example_record_ok by (simp add: record_ok_def example_record_def stamp_ok_def MAX_SAFE_INTEGER_def)

theorem store_refines_map_witness:
  "store_get (\<lambda>_. True) example_file ''sbx-1'' = (Inr (Some example_record) :: unit store_error + _)
   \<and> is_ok (snd (compareAndSwap (\<lambda>_. True) True ''2026-01-02'' example_file ''sbx-1'' 0 example_update))"
  using store_refines_map [OF example_file_holds, where i = "''sbx-1''" and io = True and r = example_record
      and now = "''2026-01-02''" and n = 0 and update = example_update] example_staged_ok
  by (auto simp: example_update_def jm_get_def example_record_def split: prod.splits sum.splits)

text \<open>
  Optimistic concurrency. Of two \<open>compareAndSwap\<close> calls that expect the same revision, once the first
  went through the second fails with a conflict and leaves the file to the first; each success raises the
  revision by exactly one and touches no other record.
\<close>

theorem cas_admits_one_writer:
  assumes "holds df f m" and "compareAndSwap df io now f i n update = (f', Inr r')"
  shows "sb_revision r' = n + 1
    \<and> (\<forall>io' now' (update' :: sandbox_record \<Rightarrow> 'e + sandbox_record).
         compareAndSwap df io' now' f' i n update' = (f', Inl StateConflict))
    \<and> (\<forall>j. j \<noteq> i \<longrightarrow> store_get df f' j = (store_get df f j :: unit store_error + sandbox_record option))"
proof -
  from cas_refines [OF assms(1), where io = io and now = now and i = i and n = n and update = update] assms(2) obtain c where
    c: "r' = c\<lparr>sb_revision := n + 1, sb_updatedAt := now\<rparr>" and h: "holds df f' (jm_set i r' m)"
    by auto
  have "compareAndSwap df io' now' f' i n update' = (f', Inl StateConflict)"
    for io' now' and update' :: "sandbox_record \<Rightarrow> 'e + sandbox_record"
    by (simp add: compareAndSwap_def holds_read [OF h] jm_get_set c)
  then show ?thesis
    by (simp add: c store_get_def holds_read [OF h [unfolded c]] holds_read [OF h] holds_read [OF assms(1)]
        jm_get_set del: sandbox_record.update_convs)
qed

definition example_swapped :: "state_file \<times> (unit store_error + sandbox_record)" where
  "example_swapped = compareAndSwap (\<lambda>_. True) True ''2026-01-02'' example_file ''sbx-1'' 0 example_update"

lemma example_swapped_ok: "\<exists>r'. example_swapped = (fst example_swapped, Inr r')"
proof -
  let ?r = "example_record\<lparr>sb_phase := Staging, sb_revision := 1, sb_updatedAt := ''2026-01-02''\<rparr>"
  have "example_swapped = (Content (state_json (jm_set ''sbx-1'' ?r [(''sbx-1'', example_record)])), Inr ?r)"
    using example_staged_ok unfolding example_swapped_def
    by (subst cas_holds [OF example_file_holds]) (simp add: example_update_def jm_get_def example_record_def)
  then show ?thesis by (metis fst_conv)
qed

theorem cas_admits_one_writer_witness:
  "compareAndSwap (\<lambda>_. True) True ''2026-01-03'' (fst example_swapped) ''sbx-1'' 0 example_update
     = (fst example_swapped, Inl StateConflict)"
  using example_swapped_ok cas_admits_one_writer [OF example_file_holds, of True "''2026-01-02''" "''sbx-1''" 0
      example_update] unfolding example_swapped_def by blast





text \<open>
  The sweep of abandoned temporaries removes exactly the regular files of the pattern
  \<open><state>.*.tmp\<close> whose modification time is known and at least an hour old: never the state file, never
  a file of another name, never one without a time and never a fresh one.
\<close>

theorem sweep_removes_exactly_the_abandoned:
  "(x \<in> set (sweepAbandonedTempFiles base now d) \<longleftrightarrow> x \<in> set d \<and>
      \<not> (de_isFile (snd x) \<and> startsWith (fst x) (base @ ''.'') \<and> endsWith (fst x) ''.tmp''
         \<and> (\<exists>t. de_mtime (snd x) = Some t \<and> t + 3600000 \<le> now)))
   \<and> jm_get (sweepAbandonedTempFiles base now d) base = jm_get d base"
  by (auto simp: sweep_keeps_base) (auto simp: sweepAbandonedTempFiles_def sweep_candidate_def
      ABANDONED_TEMP_MAX_AGE_MS_def split: option.splits)

end
