(* ===== verification/Firecracker.thy ===== *)
theory Firecracker
  imports Sandbox_Model
begin

text \<open>
  \<^verbatim>\<open>src/rootd/firecracker/errors.ts\<close>, \<^verbatim>\<open>execution_id.ts\<close> and the launch, restore and reconcile
  paths of \<^verbatim>\<open>adapter.ts\<close>: the boundary around the Firecracker package.

  What the package throws is a \<open>thrown\<close> value: an error of this boundary that passed through it (the
  registry it calls back throws these), or any other value. What the package returns, from a launch, a
  restore or a reconcile, is an argument of the operation that calls it. Messages are part of the error;
  causes and stack traces are not modelled. A dependency code that is the name of an inherited property of
  objects is not distinguished from an unknown code.
\<close>

datatype fc_code =
    SBX_FC_API | SBX_FC_CANCELED | SBX_FC_CLEANUP | SBX_FC_EXECUTION_CONFLICT | SBX_FC_HOST
  | SBX_FC_JAILER | SBX_FC_SHUTDOWN | SBX_FC_STATE | SBX_FC_TIMEOUT | SBX_FC_TRANSPORT
  | SBX_FC_VMM_EXITED | SBX_FC_VSOCK_DIAL

record fc_details =
  fd_dependencyCode :: "string option"
  fd_status :: "js_number option"
  fd_reason :: "string option"
  fd_attempts :: "js_number option"
  fd_failureCount :: "nat option"
  fd_leakedPathCount :: "nat option"
  fd_exitCode :: "js_number option option"
  fd_exitSignal :: "string option option"
  fd_observedVia :: "string option"

record fc_error =
  fe_code :: fc_code
  fe_operation :: string
  fe_message :: string
  fe_retryable :: bool
  fe_details :: fc_details

datatype thrown = AdapterError fc_error | OtherThrown jsval

definition no_details :: fc_details where
  "no_details = \<lparr>fd_dependencyCode = None, fd_status = None, fd_reason = None, fd_attempts = None,
     fd_failureCount = None, fd_leakedPathCount = None, fd_exitCode = None, fd_exitSignal = None,
     fd_observedVia = None\<rparr>"

fun message_suffix :: "fc_code \<Rightarrow> string" where
  "message_suffix SBX_FC_API = ''was rejected by the VMM''"
| "message_suffix SBX_FC_CANCELED = ''was canceled''"
| "message_suffix SBX_FC_CLEANUP = ''left resources requiring reconciliation''"
| "message_suffix SBX_FC_EXECUTION_CONFLICT = ''used a duplicate execution id''"
| "message_suffix SBX_FC_HOST = ''failed at the host boundary''"
| "message_suffix SBX_FC_JAILER = ''failed jail validation or staging''"
| "message_suffix SBX_FC_SHUTDOWN = ''did not stop the VMM cleanly''"
| "message_suffix SBX_FC_STATE = ''was invalid for the current VMM state''"
| "message_suffix SBX_FC_TIMEOUT = ''exceeded its deadline''"
| "message_suffix SBX_FC_TRANSPORT = ''could not reach the VMM API''"
| "message_suffix SBX_FC_VMM_EXITED = ''was interrupted by VMM exit''"
| "message_suffix SBX_FC_VSOCK_DIAL = ''could not connect to the guest agent''"

definition messageFor :: "fc_code \<Rightarrow> string \<Rightarrow> string" where
  "messageFor c operation = operation @ '' '' @ message_suffix c"

definition adapterError :: "fc_code \<Rightarrow> string \<Rightarrow> bool \<Rightarrow> fc_error" where
  "adapterError c operation retryable = \<lparr>fe_code = c, fe_operation = operation,
     fe_message = messageFor c operation, fe_retryable = retryable, fe_details = no_details\<rparr>"

definition ExecutionIdConflictError :: fc_error where
  "ExecutionIdConflictError = \<lparr>fe_code = SBX_FC_EXECUTION_CONFLICT, fe_operation = ''journal execution'',
     fe_message = ''the Firecracker execution id is already journaled'', fe_retryable = False,
     fe_details = no_details\<rparr>"

definition StaleExecutionIdError :: "string \<Rightarrow> fc_error" where
  "StaleExecutionIdError operation = \<lparr>fe_code = SBX_FC_STATE, fe_operation = operation,
     fe_message = operation @ '' was invalid for the current VMM state'', fe_retryable = False,
     fe_details = no_details\<rparr>"

definition DEPENDENCY_CODE_MAP :: "(string \<times> fc_code \<times> bool) list" where
  "DEPENDENCY_CODE_MAP = [(''FC_API'', SBX_FC_API, False), (''FC_TRANSPORT'', SBX_FC_TRANSPORT, True),
     (''FC_VMM_EXITED'', SBX_FC_VMM_EXITED, False), (''FC_TIMEOUT'', SBX_FC_TIMEOUT, True),
     (''FC_SHUTDOWN'', SBX_FC_SHUTDOWN, True), (''FC_VSOCK_DIAL'', SBX_FC_VSOCK_DIAL, True),
     (''FC_JAILER'', SBX_FC_JAILER, False), (''FC_STATE'', SBX_FC_STATE, False),
     (''FC_CLEANUP'', SBX_FC_CLEANUP, True)]"

definition asRecord :: "jsval \<Rightarrow> (string \<times> jsval) list option" where
  "asRecord v = (case v of JObj fs \<Rightarrow> Some fs | JArr _ \<Rightarrow> Some [] | _ \<Rightarrow> None)"

definition jnum :: "jsval \<Rightarrow> js_number option" where
  "jnum v = (case v of JNum n \<Rightarrow> Some n | _ \<Rightarrow> None)"

definition jstr :: "jsval \<Rightarrow> string option" where
  "jstr v = (case v of JStr s \<Rightarrow> Some s | _ \<Rightarrow> None)"

definition jlen :: "jsval \<Rightarrow> nat option" where
  "jlen v = (case v of JArr xs \<Rightarrow> Some (length xs) | _ \<Rightarrow> None)"

definition orNull :: "(jsval \<Rightarrow> 'a option) \<Rightarrow> jsval \<Rightarrow> 'a option option" where
  "orNull g v = (if v = JNull then Some None else map_option Some (g v))"

definition safeDependencyDetails :: "string \<Rightarrow> (string \<times> jsval) list \<Rightarrow> fc_details" where
  "safeDependencyDetails c v =
     (if c = ''FC_API'' then no_details\<lparr>fd_status := jnum (fld v ''status'')\<rparr>
      else if c = ''FC_VSOCK_DIAL''
      then no_details\<lparr>fd_reason := jstr (fld v ''reason''), fd_attempts := jnum (fld v ''attempts'')\<rparr>
      else if c = ''FC_CLEANUP''
      then no_details\<lparr>fd_failureCount := jlen (fld v ''failures''), fd_leakedPathCount := jlen (fld v ''leaked'')\<rparr>
      else if c = ''FC_VMM_EXITED''
      then (case asRecord (fld v ''exit'') of
          None \<Rightarrow> no_details
        | Some e \<Rightarrow> no_details\<lparr>fd_exitCode := orNull jnum (fld e ''code''),
            fd_exitSignal := orNull jstr (fld e ''signal''), fd_observedVia := jstr (fld e ''observedVia'')\<rparr>)
      else no_details)"

record normalize_options =
  no_operation :: string
  no_aborted :: bool
  no_deadlineExpired :: bool
  no_cleanupIncomplete :: bool

definition normalizeFirecrackerError :: "thrown \<Rightarrow> normalize_options \<Rightarrow> fc_error" where
  "normalizeFirecrackerError error opts = (case error of
      AdapterError e \<Rightarrow> e
    | OtherThrown v \<Rightarrow>
        let operation = no_operation opts
        in if no_cleanupIncomplete opts then adapterError SBX_FC_CLEANUP operation True
           else if no_aborted opts then adapterError SBX_FC_CANCELED operation False
           else if no_deadlineExpired opts then adapterError SBX_FC_TIMEOUT operation True
           else
             (let value = orElse (asRecord v) []
              in case jstr (fld value ''code'') of
                   None \<Rightarrow> adapterError SBX_FC_HOST operation False
                 | Some dependencyCode \<Rightarrow>
                     (case map_of DEPENDENCY_CODE_MAP dependencyCode of
                        None \<Rightarrow> adapterError SBX_FC_HOST operation False
                      | Some (c, retryable) \<Rightarrow>
                          (adapterError c operation retryable)\<lparr>fe_details :=
                            (safeDependencyDetails dependencyCode value)\<lparr>fd_dependencyCode := Some dependencyCode\<rparr>\<rparr>)))"

text \<open>\<open>EXECUTION_ID_PATTERN\<close> of the adapter, which lets an id start with a hyphen.\<close>

definition jail_id_ok :: "string \<Rightarrow> bool" where
  "jail_id_ok s = (1 \<le> length s \<and> length s \<le> 64 \<and> list_all (\<lambda>c. is_alnum c \<or> c = CHR ''-'') s)"

definition assertExecutionId :: "string \<Rightarrow> fc_error + unit" where
  "assertExecutionId e = requireE (jail_id_ok e) \<lparr>fe_code = SBX_FC_JAILER,
     fe_operation = ''validate execution id'',
     fe_message = ''validate execution id failed jail validation or staging'', fe_retryable = False,
     fe_details = no_details\<rparr>"

definition createExecutionId :: "string \<Rightarrow> string" where
  "createExecutionId uuid = ''sbx-'' @ filter (\<lambda>c. c \<noteq> CHR ''-'') uuid"

text \<open>What a reconcile of the package reports: the failures and the machines still running, or a throw.\<close>

type_synonym reconcile_result = "thrown + string list \<times> string list"

definition cleanup_incomplete :: "reconcile_result \<Rightarrow> bool" where
  "cleanup_incomplete r = (case r of
      Inl _ \<Rightarrow> True
    | Inr (failures, stillRunning) \<Rightarrow> 0 < length failures \<or> 0 < length stillRunning)"

definition boot_failure :: "string \<Rightarrow> bool \<Rightarrow> thrown \<Rightarrow> reconcile_result \<Rightarrow> fc_error" where
  "boot_failure operation aborted error reconciled =
     normalizeFirecrackerError error \<lparr>no_operation = operation, no_aborted = aborted,
       no_deadlineExpired = False, no_cleanupIncomplete = cleanup_incomplete reconciled\<rparr>"

definition adapter_launch :: "string \<Rightarrow> bool \<Rightarrow> thrown + 'm \<Rightarrow> reconcile_result \<Rightarrow> fc_error + 'm" where
  "adapter_launch executionId aborted launched reconciled =
     bindE (assertExecutionId executionId) (\<lambda>_. case launched of
       Inr m \<Rightarrow> Inr m
     | Inl error \<Rightarrow> Inl (boot_failure ''launch Firecracker'' aborted error reconciled))"

definition adapter_restore :: "string \<Rightarrow> bool \<Rightarrow> thrown + 'm \<Rightarrow> reconcile_result \<Rightarrow> fc_error + 'm" where
  "adapter_restore executionId aborted restored reconciled =
     bindE (assertExecutionId executionId) (\<lambda>_. case restored of
       Inr m \<Rightarrow> Inr m
     | Inl error \<Rightarrow> Inl (boot_failure ''restore Firecracker'' aborted error reconciled))"

definition reconcileAfterSupervisorRestart :: "bool \<Rightarrow> reconcile_result
    \<Rightarrow> fc_error + string list \<times> string list" where
  "reconcileAfterSupervisorRestart aborted reconciled = (case reconciled of
      Inr r \<Rightarrow> Inr r
    | Inl error \<Rightarrow> Inl (normalizeFirecrackerError error
        \<lparr>no_operation = ''reconcile Firecracker after supervisor restart'', no_aborted = aborted,
         no_deadlineExpired = False, no_cleanupIncomplete = True\<rparr>))"

subsection \<open>Properties\<close>

text \<open>
  Cleanup is the stronger condition, except behind an error of the boundary itself. When the boot
  failed with a value of the package and the scoped reconcile threw, failed or left a machine running, the
  adapter reports \<open>SBX_FC_CLEANUP\<close>, whether or not the caller cancelled and whatever code the value has;
  when the reconcile finished the cleanup, it never does so for a cancelled boot. But when the value thrown
  is already an adapter error, which is what the registry throws through the package, that error comes out
  unchanged and the incomplete cleanup is not reported.
\<close>

theorem incomplete_cleanup_is_reported_unless_masked:
  assumes "jail_id_ok x"
  shows "(cleanup_incomplete rec \<longrightarrow>
       adapter_launch x aborted (Inl (OtherThrown v)) rec
         = (Inl (adapterError SBX_FC_CLEANUP ''launch Firecracker'' True) :: fc_error + 'm)
       \<and> adapter_restore x aborted (Inl (OtherThrown v)) rec
         = (Inl (adapterError SBX_FC_CLEANUP ''restore Firecracker'' True) :: fc_error + 'm))
    \<and> (\<not> cleanup_incomplete rec \<longrightarrow>
       adapter_launch x True (Inl (OtherThrown v)) rec
         = (Inl (adapterError SBX_FC_CANCELED ''launch Firecracker'' False) :: fc_error + 'm))
    \<and> adapter_launch x aborted (Inl (AdapterError e)) rec = (Inl e :: fc_error + 'm)"
  using assms by (auto simp: adapter_launch_def adapter_restore_def assertExecutionId_def requireE_def
      boot_failure_def normalizeFirecrackerError_def Let_def)

theorem incomplete_cleanup_is_reported_unless_masked_witness:
  "adapter_launch ''sbx-1'' True (Inl (OtherThrown JNull)) (Inr ([], [''sbx-1'']))
     = (Inl (adapterError SBX_FC_CLEANUP ''launch Firecracker'' True) :: fc_error + unit)
   \<and> adapter_launch ''sbx-1'' True (Inl (AdapterError ExecutionIdConflictError)) (Inr ([], [''sbx-1'']))
     = (Inl ExecutionIdConflictError :: fc_error + unit)"
  using incomplete_cleanup_is_reported_unless_masked [where 'm = unit, of "''sbx-1''" "Inr ([], [''sbx-1''])"
      True JNull ExecutionIdConflictError]
  by (simp add: jail_id_ok_def is_alnum_def is_digit_def is_lower_def is_upper_def code_def
      cleanup_incomplete_def)

end
