(* ===== verification/Jail_Registry.thy ===== *)
theory Jail_Registry
  imports State_Store Firecracker
begin

text \<open>
  \<^verbatim>\<open>src/rootd/firecracker/registry.ts\<close>: the package's VM registry, kept inside the sandbox records.

  Each operation is a bounded compare-and-swap loop over the state store. \<open>store_env\<close> is what surrounds a
  call: whether each write goes through, the timestamps, and \<open>se_other\<close>, what everyone else did to the state file
  before each of the call's accesses (access \<open>2k\<close> is the read of attempt \<open>k\<close> and \<open>2k+1\<close> its swap). The
  registry's own lock keeps its calls apart; it is not enough against the supervisor, which swaps the same
  records.
\<close>

record store_env =
  se_dateFinite :: "string \<Rightarrow> bool"
  se_collate :: "string \<Rightarrow> string \<Rightarrow> bool"
  se_io :: "nat \<Rightarrow> bool"
  se_now :: "nat \<Rightarrow> string"
  se_other :: "nat \<Rightarrow> state_file \<Rightarrow> state_file"

datatype journal_error = JournalFc fc_error | JournalStore "fc_error store_error"

definition SANDBOX_ID_METADATA :: string where
  "SANDBOX_ID_METADATA = ''studiobox.sandbox-id''"

definition EXECUTION_ID_METADATA :: string where
  "EXECUTION_ID_METADATA = ''studiobox.execution-id''"

definition sandboxIdFrom :: "jail_record \<Rightarrow> fc_error + string" where
  "sandboxIdFrom r =
     (let meta = map_of (orElse (jr_metadata r) [])
      in case meta SANDBOX_ID_METADATA of
           None \<Rightarrow> Inl (StaleExecutionIdError ''journal execution'')
         | Some i \<Rightarrow> if meta EXECUTION_ID_METADATA \<noteq> Some (jr_vmId r)
                      then Inl (StaleExecutionIdError ''journal execution'') else Inr i)"

definition executionOf :: "sandbox_record \<Rightarrow> string option" where
  "executionOf r = map_option mj_executionId (sb_machine r)"

definition jailOf :: "sandbox_record \<Rightarrow> jail_record option" where
  "jailOf r = Option.bind (sb_machine r) mj_jailRecord"

subsection \<open>The updates\<close>

definition attach_machine :: "jail_record \<Rightarrow> string \<Rightarrow> sandbox_record \<Rightarrow> fc_error + sandbox_record" where
  "attach_machine record now current =
     (if sb_machine current \<noteq> None then Inl ExecutionIdConflictError
      else Inr (current\<lparr>sb_machine := Some \<lparr>mj_executionId = jr_vmId record, mj_phase = Launching,
        mj_jailRecord = Some record, mj_cgroupPath = None, mj_updatedAt = now\<rparr>\<rparr>))"

text \<open>A patch of the package: the fields it sets.\<close>

record jail_patch =
  jp_pid :: "int option option"
  jp_apiSocketPath :: "string option"
  jp_stateDir :: "string option"
  jp_ownsStateDir :: "bool option"
  jp_vsockUdsPath :: "string option"
  jp_vsockListenerPaths :: "string list option"
  jp_pidfilePath :: "string option"
  jp_chrootDir :: "string option"
  jp_createdAt :: "string option"
  jp_metadata :: "(string \<times> string) list option"

definition merge_jail :: "jail_record \<Rightarrow> jail_patch \<Rightarrow> string \<Rightarrow> jail_record" where
  "merge_jail j p executionId = \<lparr>jr_vmId = executionId, jr_pid = orElse (jp_pid p) (jr_pid j),
     jr_apiSocketPath = orElse (jp_apiSocketPath p) (jr_apiSocketPath j),
     jr_stateDir = orElse (jp_stateDir p) (jr_stateDir j),
     jr_ownsStateDir = orElse (jp_ownsStateDir p) (jr_ownsStateDir j),
     jr_vsockUdsPath = overlay (jp_vsockUdsPath p) (jr_vsockUdsPath j),
     jr_vsockListenerPaths = orElse (jp_vsockListenerPaths p) (jr_vsockListenerPaths j),
     jr_pidfilePath = overlay (jp_pidfilePath p) (jr_pidfilePath j),
     jr_chrootDir = overlay (jp_chrootDir p) (jr_chrootDir j),
     jr_createdAt = orElse (jp_createdAt p) (jr_createdAt j),
     jr_metadata = overlay (jp_metadata p) (jr_metadata j)\<rparr>"

definition merge_machine :: "string \<Rightarrow> jail_patch \<Rightarrow> string \<Rightarrow> sandbox_record \<Rightarrow> fc_error + sandbox_record" where
  "merge_machine executionId patch now current = (case sb_machine current of
      None \<Rightarrow> Inl (StaleExecutionIdError ''update execution journal'')
    | Some m \<Rightarrow> (case mj_jailRecord m of
          None \<Rightarrow> Inl (StaleExecutionIdError ''update execution journal'')
        | Some j \<Rightarrow>
            if mj_executionId m \<noteq> executionId then Inl (StaleExecutionIdError ''update execution journal'')
            else Inr (current\<lparr>sb_machine := Some (m\<lparr>mj_jailRecord := Some (merge_jail j patch executionId),
                   mj_updatedAt := now\<rparr>)\<rparr>)))"

definition detach_jail :: "string \<Rightarrow> string \<Rightarrow> sandbox_record \<Rightarrow> fc_error + sandbox_record" where
  "detach_jail executionId now current = (case sb_machine current of
      None \<Rightarrow> Inl (StaleExecutionIdError ''remove execution journal'')
    | Some m \<Rightarrow>
        if mj_executionId m \<noteq> executionId then Inl (StaleExecutionIdError ''remove execution journal'')
        else Inr (current\<lparr>sb_machine := Some (m\<lparr>mj_jailRecord := None, mj_phase := Reclaiming,
               mj_updatedAt := now\<rparr>)\<rparr>))"

subsection \<open>The loops\<close>

text \<open>
  The part of an attempt after the read: swap, and tell success (\<open>done\<close>), a conflict to retry (\<open>None\<close>), an
  error of the update itself (\<open>lost\<close>) and any other error.
\<close>

definition swap_attempt :: "store_env \<Rightarrow> nat \<Rightarrow> state_file \<Rightarrow> sandbox_record
    \<Rightarrow> (sandbox_record \<Rightarrow> fc_error + sandbox_record) \<Rightarrow> 'a \<Rightarrow> 'a
    \<Rightarrow> state_file \<times> (journal_error + 'a) option" where
  "swap_attempt E k f1 sandbox update ok lost =
     (let f2 = se_other E (2 * k + 1) f1;
          r = compareAndSwap (se_dateFinite E) (se_io E k) (se_now E (2 * k + 1)) f2 (sb_id sandbox)
                (sb_revision sandbox) update
      in (fst r, case snd r of
            Inr _ \<Rightarrow> Some (Inr ok)
          | Inl StateConflict \<Rightarrow> None
          | Inl (UpdateThrew _) \<Rightarrow> Some (Inr lost)
          | Inl e \<Rightarrow> Some (Inl (JournalStore e))))"

definition jail_create_body :: "store_env \<Rightarrow> jail_record \<Rightarrow> string \<Rightarrow> nat \<Rightarrow> state_file
    \<Rightarrow> state_file \<times> (journal_error + bool) option" where
  "jail_create_body E record sandboxId k f =
     (let f1 = se_other E (2 * k) f
      in case store_list (se_dateFinite E) (se_collate E) f1 of
           Inl e \<Rightarrow> (f1, Some (Inl (JournalStore e)))
         | Inr records \<Rightarrow>
             if list_ex (\<lambda>r. executionOf r = Some (jr_vmId record)) records then (f1, Some (Inr False))
             else (case find (\<lambda>r. sb_id r = sandboxId) records of
                 None \<Rightarrow> (f1, Some (Inl (JournalFc (StaleExecutionIdError ''journal execution''))))
               | Some sandbox \<Rightarrow>
                   if sb_machine sandbox \<noteq> None then (f1, Some (Inr False))
                   else swap_attempt E k f1 sandbox (attach_machine record (se_now E (2 * k))) True False))"

definition jail_update_body :: "store_env \<Rightarrow> string \<Rightarrow> jail_patch \<Rightarrow> nat \<Rightarrow> state_file
    \<Rightarrow> state_file \<times> (journal_error + bool) option" where
  "jail_update_body E executionId patch k f =
     (let f1 = se_other E (2 * k) f
      in case store_list (se_dateFinite E) (se_collate E) f1 of
           Inl e \<Rightarrow> (f1, Some (Inl (JournalStore e)))
         | Inr records \<Rightarrow> (case find (\<lambda>r. executionOf r = Some executionId) records of
               None \<Rightarrow> (f1, Some (Inr False))
             | Some sandbox \<Rightarrow>
                 if jailOf sandbox = None then (f1, Some (Inr False))
                 else swap_attempt E k f1 sandbox (merge_machine executionId patch (se_now E (2 * k))) True False))"

definition jail_remove_body :: "store_env \<Rightarrow> string \<Rightarrow> nat \<Rightarrow> state_file
    \<Rightarrow> state_file \<times> (journal_error + bool) option" where
  "jail_remove_body E executionId k f =
     (let f1 = se_other E (2 * k) f
      in case store_list (se_dateFinite E) (se_collate E) f1 of
           Inl e \<Rightarrow> (f1, Some (Inl (JournalStore e)))
         | Inr records \<Rightarrow> (case find (\<lambda>r. executionOf r = Some executionId) records of
               None \<Rightarrow> (f1, Some (Inr False))
             | Some sandbox \<Rightarrow>
                 if jailOf sandbox = None then (f1, Some (Inr False))
                 else swap_attempt E k f1 sandbox (detach_jail executionId (se_now E (2 * k))) True False))"

definition finish_loop :: "state_file \<times> (journal_error + 'a) option \<Rightarrow> state_file \<times> (journal_error + 'a)" where
  "finish_loop r = (fst r, case snd r of Some x \<Rightarrow> x | None \<Rightarrow> Inl (JournalStore StateConflict))"

definition jail_create :: "store_env \<Rightarrow> nat \<Rightarrow> jail_record \<Rightarrow> state_file \<Rightarrow> state_file \<times> (journal_error + bool)" where
  "jail_create E maxCasAttempts record f = (case sandboxIdFrom record of
      Inl e \<Rightarrow> (f, Inl (JournalFc e))
    | Inr sandboxId \<Rightarrow> finish_loop (attempt_loop (jail_create_body E record sandboxId) 0 maxCasAttempts f))"

definition jail_update :: "store_env \<Rightarrow> nat \<Rightarrow> string \<Rightarrow> jail_patch \<Rightarrow> state_file
    \<Rightarrow> state_file \<times> (journal_error + bool)" where
  "jail_update E maxCasAttempts executionId patch f =
     finish_loop (attempt_loop (jail_update_body E executionId patch) 0 maxCasAttempts f)"

text \<open>\<open>remove\<close> returns nothing: the flag, which tells whether it swapped, is dropped by its caller.\<close>

definition jail_remove :: "store_env \<Rightarrow> nat \<Rightarrow> string \<Rightarrow> state_file \<Rightarrow> state_file \<times> (journal_error + bool)" where
  "jail_remove E maxCasAttempts executionId f =
     finish_loop (attempt_loop (jail_remove_body E executionId) 0 maxCasAttempts f)"

definition jail_list :: "store_env \<Rightarrow> state_file \<Rightarrow> journal_error + jail_record list" where
  "jail_list E f = (case store_list (se_dateFinite E) (se_collate E) f of
      Inl e \<Rightarrow> Inl (JournalStore e)
    | Inr records \<Rightarrow> Inr (sort_by (\<lambda>a b. se_collate E (jr_vmId a) (jr_vmId b))
        (concat (map (\<lambda>r. case jailOf r of None \<Rightarrow> [] | Some j \<Rightarrow> [j]) records))))"

text \<open>\<open>CreateOnlyVmRegistry\<close>: the results as errors.\<close>

definition registry_put :: "store_env \<Rightarrow> nat \<Rightarrow> jail_record \<Rightarrow> state_file \<Rightarrow> state_file \<times> (journal_error + unit)" where
  "registry_put E n record f = (let r = jail_create E n record f
     in (fst r, bindE (snd r) (\<lambda>ok. if ok then Inr () else Inl (JournalFc ExecutionIdConflictError))))"

definition registry_update :: "store_env \<Rightarrow> nat \<Rightarrow> string \<Rightarrow> jail_patch \<Rightarrow> state_file
    \<Rightarrow> state_file \<times> (journal_error + unit)" where
  "registry_update E n executionId patch f = (let r = jail_update E n executionId patch f
     in (fst r, bindE (snd r) (\<lambda>ok. if ok then Inr ()
          else Inl (JournalFc (StaleExecutionIdError ''update execution journal'')))))"

definition registry_remove :: "store_env \<Rightarrow> nat \<Rightarrow> string \<Rightarrow> state_file \<Rightarrow> state_file \<times> (journal_error + unit)" where
  "registry_remove E n executionId f = (let r = jail_remove E n executionId f
     in (fst r, bindE (snd r) (\<lambda>_. Inr ())))"

text \<open>\<open>scopeRegistry\<close>: \<open>None\<close> when the scope rejects the call.\<close>

definition scoped_put :: "string \<Rightarrow> store_env \<Rightarrow> nat \<Rightarrow> jail_record \<Rightarrow> state_file
    \<Rightarrow> state_file \<times> (journal_error + unit) option" where
  "scoped_put scope E n record f = (if jr_vmId record \<noteq> scope then (f, None)
     else (let r = registry_put E n record f in (fst r, Some (snd r))))"

definition scoped_update :: "string \<Rightarrow> store_env \<Rightarrow> nat \<Rightarrow> string \<Rightarrow> jail_patch \<Rightarrow> state_file
    \<Rightarrow> state_file \<times> (journal_error + unit) option" where
  "scoped_update scope E n vmId patch f = (if vmId \<noteq> scope then (f, None)
     else (let r = registry_update E n vmId patch f in (fst r, Some (snd r))))"

definition scoped_remove :: "string \<Rightarrow> store_env \<Rightarrow> nat \<Rightarrow> string \<Rightarrow> state_file
    \<Rightarrow> state_file \<times> (journal_error + unit) option" where
  "scoped_remove scope E n vmId f = (if vmId \<noteq> scope then (f, None)
     else (let r = registry_remove E n vmId f in (fst r, Some (snd r))))"

definition scoped_list :: "string \<Rightarrow> store_env \<Rightarrow> state_file \<Rightarrow> journal_error + jail_record list" where
  "scoped_list scope E f = bindE (jail_list E f) (\<lambda>rs. Inr (filter (\<lambda>r. jr_vmId r = scope) rs))"

subsection \<open>What an operation does to the store\<close>

text \<open>What the others did between two accesses of one call.\<close>

definition foreign :: "store_env \<Rightarrow> state_file \<Rightarrow> state_file \<Rightarrow> bool" where
  "foreign E f f' = (\<exists>ks. f' = foldl (\<lambda>g k. se_other E k g) f ks)"

lemma foreign_refl: "foreign E f f"
  unfolding foreign_def by (rule exI [of _ "[]"]) simp

lemma foreign_trans: "foreign E f g \<Longrightarrow> foreign E g h \<Longrightarrow> foreign E f h"
  unfolding foreign_def by (metis foldl_append)

lemma foreign_step: "foreign E f (se_other E k f)"
  unfolding foreign_def by (rule exI [of _ "[k]"]) simp

text \<open>
  A call that reports success swapped one record, in one step, under an update that allowed it; any other call
  left the file alone.
\<close>

definition swapped :: "store_env \<Rightarrow> (sandbox_record \<Rightarrow> sandbox_record \<Rightarrow> bool) \<Rightarrow> state_file
    \<Rightarrow> journal_error + bool \<Rightarrow> state_file \<Rightarrow> bool" where
  "swapped E R f a f' =
     (if a = Inr True
      then \<exists>m i r r'. holds (se_dateFinite E) f m \<and> jm_get m i = Some r \<and> R r r'
             \<and> sb_id r' = i \<and> sb_revision r' = sb_revision r + 1
             \<and> holds (se_dateFinite E) f' (jm_set i r' m)
      else f' = f)"

lemma cas_holds_before:
  fixes update :: "sandbox_record \<Rightarrow> 'a + sandbox_record"
  assumes "compareAndSwap df io now f i n update = (f', Inr r')"
  shows "\<exists>m. holds df f m"
  using assms
proof (cases "store_read df f :: 'a store_error + record_map")
  case (Inr m)
  then show ?thesis using store_read_type by blast
qed (auto simp: compareAndSwap_def)

lemma swap_attempt_result:
  assumes "swap_attempt E k f1 sandbox update True False = (f', a)"
    and R: "\<And>r c now. sb_id r = sb_id sandbox \<Longrightarrow> update r = Inr c \<Longrightarrow>
        R r (c\<lparr>sb_revision := sb_revision r + 1, sb_updatedAt := now\<rparr>)"
  shows "case a of None \<Rightarrow> f' = se_other E (2 * k + 1) f1
    | Some b \<Rightarrow> swapped E R (se_other E (2 * k + 1) f1) b f'"
proof -
  let ?f = "se_other E (2 * k + 1) f1"
  let ?now = "se_now E (2 * k + 1)"
  obtain g x where cas: "compareAndSwap (se_dateFinite E) (se_io E k) ?now ?f (sb_id sandbox)
      (sb_revision sandbox) update = (g, x)" by (metis surj_pair)
  show ?thesis
  proof (cases x)
    case (Inl e)
    then have "g = ?f" using cas cas_fails by blast
    then show ?thesis
      using assms(1) cas Inl by (auto simp: swap_attempt_def swapped_def split: store_error.splits)
  next
    case (Inr r')
    obtain m where m: "holds (se_dateFinite E) ?f m" using cas cas_holds_before Inr by blast
    from cas_refines [OF m, where io = "se_io E k" and now = ?now and i = "sb_id sandbox"
        and n = "sb_revision sandbox" and update = update] cas Inr
    obtain r c where r: "jm_get m (sb_id sandbox) = Some r" "sb_revision r = sb_revision sandbox"
        "update r = Inr c" "sb_id c = sb_id sandbox"
        "r' = c\<lparr>sb_revision := sb_revision sandbox + 1, sb_updatedAt := ?now\<rparr>"
      and h: "holds (se_dateFinite E) g (jm_set (sb_id sandbox) r' m)" by auto
    have "sb_id r = sb_id sandbox" using map_ok_get [OF holds_map_ok [OF m] r(1)] by simp
    then have "R r r'" using R [OF _ r(3), of ?now] r(2,5) by simp
    moreover have "sb_revision r' = sb_revision r + 1" "sb_id r' = sb_id sandbox" using r by simp_all
    ultimately have "swapped E R ?f (Inr True) g"
      using m r(1) h unfolding swapped_def by auto
    then show ?thesis using assms(1) cas Inr by (auto simp: swap_attempt_def)
  qed
qed

lemma attempt_result:
  assumes eq: "swap_attempt E k (se_other E (2 * k) f) sandbox update True False = (f', a)"
    and R: "\<And>r c now. sb_id r = sb_id sandbox \<Longrightarrow> update r = Inr c \<Longrightarrow>
        R r (c\<lparr>sb_revision := sb_revision r + 1, sb_updatedAt := now\<rparr>)"
  shows "(a = None \<longrightarrow> foreign E f f')
    \<and> (\<forall>b. a = Some b \<longrightarrow> (\<exists>t. foreign E f t \<and> swapped E R t b f'))"
proof -
  have "foreign E f (se_other E (2 * k + 1) (se_other E (2 * k) f))"
    by (rule foreign_trans [OF foreign_step foreign_step])
  then show ?thesis using swap_attempt_result [of E k "se_other E (2 * k) f" sandbox update f' a R, OF eq R]
    by (auto split: option.splits)
qed

lemma unswapped: "b \<noteq> Inr True \<Longrightarrow> \<exists>t. foreign E f t \<and> swapped E R t b (se_other E k f)"
  by (rule exI [of _ "se_other E k f"]) (simp add: foreign_step swapped_def)

definition attaches :: "jail_record \<Rightarrow> string \<Rightarrow> sandbox_record \<Rightarrow> sandbox_record \<Rightarrow> bool" where
  "attaches record i r r' = (sb_id r = i \<and> sb_machine r = None \<and> executionOf r' = Some (jr_vmId record)
     \<and> jailOf r' = Some record \<and> sb_phase r' = sb_phase r \<and> sb_resources r' = sb_resources r)"

definition merges :: "string \<Rightarrow> sandbox_record \<Rightarrow> sandbox_record \<Rightarrow> bool" where
  "merges e r r' = (executionOf r = Some e \<and> jailOf r \<noteq> None \<and> executionOf r' = Some e
     \<and> map_option jr_vmId (jailOf r') = Some e \<and> sb_phase r' = sb_phase r \<and> sb_resources r' = sb_resources r)"

definition detaches :: "string \<Rightarrow> sandbox_record \<Rightarrow> sandbox_record \<Rightarrow> bool" where
  "detaches e r r' = (executionOf r = Some e \<and> executionOf r' = Some e \<and> jailOf r' = None
     \<and> map_option mj_phase (sb_machine r') = Some Reclaiming
     \<and> sb_phase r' = sb_phase r \<and> sb_resources r' = sb_resources r)"

lemma attach_machine_attaches:
  "sb_id r = i \<Longrightarrow> attach_machine record t r = Inr c \<Longrightarrow>
   attaches record i r (c\<lparr>sb_revision := n, sb_updatedAt := now\<rparr>)"
  by (auto simp: attach_machine_def attaches_def executionOf_def jailOf_def split: if_splits)

lemma merge_machine_merges:
  "merge_machine e p t r = Inr c \<Longrightarrow> merges e r (c\<lparr>sb_revision := n, sb_updatedAt := now\<rparr>)"
  by (auto simp: merge_machine_def merges_def executionOf_def jailOf_def merge_jail_def
      split: if_splits option.splits)

lemma detach_jail_detaches:
  "detach_jail e t r = Inr c \<Longrightarrow> detaches e r (c\<lparr>sb_revision := n, sb_updatedAt := now\<rparr>)"
  by (auto simp: detach_jail_def detaches_def executionOf_def jailOf_def split: if_splits option.splits)

lemma jail_create_body_result:
  assumes "jail_create_body E record i k f = (f', a)"
  shows "(a = None \<longrightarrow> foreign E f f')
    \<and> (\<forall>b. a = Some b \<longrightarrow> (\<exists>t. foreign E f t \<and> swapped E (attaches record i) t b f'))"
proof -
  let ?f1 = "se_other E (2 * k) f"
  consider (early) b where "b \<noteq> Inr True" "a = Some b" "f' = ?f1"
    | (swap) sandbox where "swap_attempt E k ?f1 sandbox (attach_machine record (se_now E (2 * k))) True False = (f', a)"
        "sb_id sandbox = i"
    using assms by (auto simp: jail_create_body_def Let_def find_Some_iff split: sum.splits if_splits option.splits)
  then show ?thesis
  proof cases
    case early
    then show ?thesis using unswapped by blast
  next
    case swap
    show ?thesis using swap(1) by (rule attempt_result) (simp add: attach_machine_attaches swap(2))
  qed
qed

lemma jail_update_body_result:
  assumes "jail_update_body E e p k f = (f', a)"
  shows "(a = None \<longrightarrow> foreign E f f')
    \<and> (\<forall>b. a = Some b \<longrightarrow> (\<exists>t. foreign E f t \<and> swapped E (merges e) t b f'))"
proof -
  let ?f1 = "se_other E (2 * k) f"
  consider (early) b where "b \<noteq> Inr True" "a = Some b" "f' = ?f1"
    | (swap) sandbox where "swap_attempt E k ?f1 sandbox (merge_machine e p (se_now E (2 * k))) True False = (f', a)"
    using assms by (auto simp: jail_update_body_def Let_def split: sum.splits if_splits option.splits)
  then show ?thesis
  proof cases
    case early
    then show ?thesis using unswapped by blast
  next
    case swap
    then show ?thesis by (rule attempt_result) (simp add: merge_machine_merges)
  qed
qed

lemma jail_remove_body_result:
  assumes "jail_remove_body E e k f = (f', a)"
  shows "(a = None \<longrightarrow> foreign E f f')
    \<and> (\<forall>b. a = Some b \<longrightarrow> (\<exists>t. foreign E f t \<and> swapped E (detaches e) t b f'))"
proof -
  let ?f1 = "se_other E (2 * k) f"
  consider (early) b where "b \<noteq> Inr True" "a = Some b" "f' = ?f1"
    | (swap) sandbox where "swap_attempt E k ?f1 sandbox (detach_jail e (se_now E (2 * k))) True False = (f', a)"
    using assms by (auto simp: jail_remove_body_def Let_def split: sum.splits if_splits option.splits)
  then show ?thesis
  proof cases
    case early
    then show ?thesis using unswapped by blast
  next
    case swap
    then show ?thesis by (rule attempt_result) (simp add: detach_jail_detaches)
  qed
qed

interpretation create_loop: retry_loop "jail_create_body E j i" "foreign E" "swapped E (attaches j i)"
  for E j i
  by unfold_locales (auto intro: foreign_refl foreign_trans dest: jail_create_body_result)

interpretation update_loop: retry_loop "jail_update_body E e p" "foreign E" "swapped E (merges e)"
  for E e p
  by unfold_locales (auto intro: foreign_refl foreign_trans dest: jail_update_body_result)

interpretation remove_loop: retry_loop "jail_remove_body E e" "foreign E" "swapped E (detaches e)"
  for E e
  by unfold_locales (auto intro: foreign_refl foreign_trans dest: jail_remove_body_result)

lemma finish_loop_eq:
  "finish_loop r = (f', a) \<Longrightarrow>
     (snd r = None \<and> f' = fst r \<and> a = Inl (JournalStore StateConflict)) \<or> (r = (f', Some a))"
  by (cases r) (auto simp: finish_loop_def split: option.splits)

lemma jail_create_result:
  assumes "jail_create E n j f = (f', a)"
  shows "\<exists>t i. foreign E f t \<and> sandboxIdFrom j = (if a = Inr True then Inr i else sandboxIdFrom j)
    \<and> swapped E (attaches j i) t a f'"
proof (cases "sandboxIdFrom j")
  case (Inl e)
  then show ?thesis using assms foreign_refl [of E f] by (auto simp: jail_create_def swapped_def)
next
  case (Inr i)
  obtain g x where l: "attempt_loop (jail_create_body E j i) 0 n f = (g, x)" by (metis surj_pair)
  with assms Inr have fin: "finish_loop (g, x) = (f', a)" by (simp add: jail_create_def)
  show ?thesis
  proof (cases x)
    case None
    then have "foreign E f f'" "a \<noteq> Inr True"
      using create_loop.loop_None [of E j i 0 n f g] l fin by (auto simp: finish_loop_def)
    then show ?thesis by (auto simp: swapped_def)
  next
    case (Some b)
    then have "\<exists>t. foreign E f t \<and> swapped E (attaches j i) t a f'"
      using create_loop.loop_Some [of E j i 0 n f g b] l fin by (auto simp: finish_loop_def)
    then show ?thesis using Inr by auto
  qed
qed

lemma jail_update_result:
  assumes "jail_update E n e p f = (f', a)"
  shows "\<exists>t. foreign E f t \<and> swapped E (merges e) t a f'"
proof -
  obtain g x where l: "attempt_loop (jail_update_body E e p) 0 n f = (g, x)" by (metis surj_pair)
  with assms have fin: "finish_loop (g, x) = (f', a)" by (simp add: jail_update_def)
  show ?thesis
  proof (cases x)
    case None
    then show ?thesis
      using update_loop.loop_None [of E e p 0 n f g] l fin by (auto simp: finish_loop_def swapped_def)
  next
    case (Some b)
    then show ?thesis using update_loop.loop_Some [of E e p 0 n f g b] l fin by (auto simp: finish_loop_def)
  qed
qed

lemma jail_remove_result:
  assumes "jail_remove E n e f = (f', a)"
  shows "\<exists>t. foreign E f t \<and> swapped E (detaches e) t a f'"
proof -
  obtain g x where l: "attempt_loop (jail_remove_body E e) 0 n f = (g, x)" by (metis surj_pair)
  with assms have fin: "finish_loop (g, x) = (f', a)" by (simp add: jail_remove_def)
  show ?thesis
  proof (cases x)
    case None
    then show ?thesis
      using remove_loop.loop_None [of E e 0 n f g] l fin by (auto simp: finish_loop_def swapped_def)
  next
    case (Some b)
    then show ?thesis using remove_loop.loop_Some [of E e 0 n f g b] l fin by (auto simp: finish_loop_def)
  qed
qed

subsection \<open>A call that nobody disturbs\<close>

definition quiet :: "store_env \<Rightarrow> bool" where
  "quiet E = (se_other E = (\<lambda>_ f. f) \<and> se_io E = (\<lambda>_. True))"

lemma store_list_holds:
  assumes "holds df f m"
  shows "\<exists>rs. store_list df collate f = Inr rs \<and> set rs = snd ` set m"
  by (simp add: store_list_def holds_read [OF assms] set_sort_by)

lemma find_by_id:
  assumes "map_ok df m" and "set rs = snd ` set m"
  shows "find (\<lambda>r. sb_id r = i) rs = jm_get m i"
proof (cases "jm_get m i")
  case None
  have "sb_id u \<noteq> i" if "u \<in> set rs" for u
  proof
    assume "sb_id u = i"
    with that assms have "(i, u) \<in> set m" by (auto simp: map_ok_def)
    then have "jm_get m i = Some u" using assms(1) by (simp add: map_ok_def jm_get_mem)
    with None show False by simp
  qed
  then show ?thesis using None by (simp add: find_None_iff)
next
  case (Some r)
  then have r: "(i, r) \<in> set m" "sb_id r = i" using assms(1) by (auto simp: map_ok_def jm_get_mem)
  then have "find (\<lambda>r. sb_id r = i) rs \<noteq> None"
    using assms(2) by (auto simp: find_None_iff image_iff)
  then obtain u where u: "find (\<lambda>r. sb_id r = i) rs = Some u" by auto
  then have "u \<in> snd ` set m" "sb_id u = i" using assms(2) by (auto simp: find_Some_iff)
  then have "jm_get m i = Some u" using assms(1) by (auto simp: map_ok_def jm_get_mem)
  with u Some show ?thesis by simp
qed

definition attached :: "jail_record \<Rightarrow> store_env \<Rightarrow> sandbox_record \<Rightarrow> sandbox_record" where
  "attached j E r = r\<lparr>sb_machine := Some \<lparr>mj_executionId = jr_vmId j, mj_phase = Launching,
     mj_jailRecord = Some j, mj_cgroupPath = None, mj_updatedAt = se_now E 0\<rparr>,
     sb_revision := sb_revision r + 1, sb_updatedAt := se_now E 1\<rparr>"

lemma quiet_create:
  assumes "quiet E" and h: "holds (se_dateFinite E) f m" and "sandboxIdFrom j = Inr i" and "0 < n"
    and "jm_get m i = Some r" and "sb_machine r = None"
    and "\<forall>(k, u) \<in> set m. executionOf u \<noteq> Some (jr_vmId j)"
    and "record_ok (se_dateFinite E) (attached j E r)"
  shows "jail_create E n j f = (Content (state_json (jm_set i (attached j E r) m)), Inr True)"
proof -
  obtain rs where rs: "store_list (se_dateFinite E) (se_collate E) f = (Inr rs :: fc_error store_error + _)"
      "set rs = snd ` set m"
    using store_list_holds [OF h] by blast
  have none: "\<not> list_ex (\<lambda>u. executionOf u = Some (jr_vmId j)) rs"
    using assms(7) rs(2) by (auto simp: list_ex_iff)
  have fnd: "find (\<lambda>u. sb_id u = i) rs = Some r"
    using find_by_id [OF holds_map_ok [OF h] rs(2)] assms(5) by simp
  have i: "sb_id r = i" using map_ok_get [OF holds_map_ok [OF h] assms(5)] by simp
  have cas: "compareAndSwap (se_dateFinite E) True (se_now E 1) f i (sb_revision r) (attach_machine j (se_now E 0))
      = (Content (state_json (jm_set i (attached j E r) m)), Inr (attached j E r))"
    using assms(5,6,8) i by (subst cas_holds [OF h]) (simp add: attach_machine_def attached_def)
  have "jail_create_body E j i 0 f = (Content (state_json (jm_set i (attached j E r) m)), Some (Inr True))"
    using assms(1,6) rs(1) none fnd cas i by (simp add: jail_create_body_def swap_attempt_def quiet_def)
  with assms(3,4) create_loop.loop_first [of E j i 0 f _ "Inr True"] show ?thesis
    by (cases n) (simp_all add: jail_create_def finish_loop_def)
qed

subsection \<open>Properties\<close>

definition example_jail :: jail_record where
  "example_jail = \<lparr>jr_vmId = ''sbx-e1'', jr_pid = None, jr_apiSocketPath = ''/a'', jr_stateDir = ''/s'',
     jr_ownsStateDir = True, jr_vsockUdsPath = None, jr_vsockListenerPaths = [], jr_pidfilePath = None,
     jr_chrootDir = None, jr_createdAt = ''2026-01-01'',
     jr_metadata = Some [(''studiobox.sandbox-id'', ''sbx-1''), (''studiobox.execution-id'', ''sbx-e1'')]\<rparr>"

definition example_env :: store_env where
  "example_env = \<lparr>se_dateFinite = (\<lambda>_. True), se_collate = (\<lambda>_ _. True), se_io = (\<lambda>_. True),
     se_now = (\<lambda>_. ''2026-01-02''), se_other = (\<lambda>_ f. f)\<rparr>"

lemma example_attached_ok: "record_ok (\<lambda>_. True) (attached example_jail example_env example_record)"
  using example_record_ok
  by (simp add: record_ok_def attached_def example_jail_def example_env_def example_record_def machine_ok_def
      jail_ok_def execution_id_pattern_def is_alnum_def is_digit_def is_lower_def is_upper_def code_def
      stamp_ok_def text_ok_def metadata_ok_def byteLength_Cons MAX_SAFE_INTEGER_def)

lemma example_jail_id: "sandboxIdFrom example_jail = Inr ''sbx-1''"
  by (simp add: sandboxIdFrom_def example_jail_def SANDBOX_ID_METADATA_def EXECUTION_ID_METADATA_def)

text \<open>
  C33. Journalling an execution. Undisturbed, \<open>put\<close> of a record whose sandbox exists without a machine, whose
  execution id no sandbox has and which gives a valid sandbox record succeeds at its first attempt, and the
  state file then holds that machine as launching, under the next revision. And whatever others do to the file meanwhile,
  a call of \<open>create\<close> that reports success replaced, in one step, a record of the sandbox the metadata names that had no machine,
  leaving its phase, its resources and every other record as they were; a call that reports anything else
  changed nothing itself.
\<close>

theorem journal_create_is_create_only:
  "(quiet E \<and> holds (se_dateFinite E) f m \<and> sandboxIdFrom j = Inr i \<and> 0 < n \<and> jm_get m i = Some r
      \<and> sb_machine r = None \<and> (\<forall>(k, u) \<in> set m. executionOf u \<noteq> Some (jr_vmId j))
      \<and> record_ok (se_dateFinite E) (attached j E r) \<longrightarrow>
      (\<exists>f'. registry_put E n j f = (f', Inr ()) \<and> holds (se_dateFinite E) f' (jm_set i (attached j E r) m)))
   \<and> (\<forall>f' a. jail_create E n j f = (f', a) \<longrightarrow>
        (if a = Inr True
         then \<exists>t m i r r'. foreign E f t \<and> sandboxIdFrom j = Inr i \<and> holds (se_dateFinite E) t m
           \<and> jm_get m i = Some r \<and> sb_machine r = None \<and> jailOf r' = Some j \<and> executionOf r' = Some (jr_vmId j)
           \<and> sb_phase r' = sb_phase r \<and> sb_resources r' = sb_resources r \<and> sb_revision r' = sb_revision r + 1
           \<and> holds (se_dateFinite E) f' (jm_set i r' m)
         else foreign E f f'))"
proof (intro conjI impI allI)
  assume a: "quiet E \<and> holds (se_dateFinite E) f m \<and> sandboxIdFrom j = Inr i \<and> 0 < n \<and> jm_get m i = Some r
      \<and> sb_machine r = None \<and> (\<forall>(k, u) \<in> set m. executionOf u \<noteq> Some (jr_vmId j))
      \<and> record_ok (se_dateFinite E) (attached j E r)"
  then have "jail_create E n j f = (Content (state_json (jm_set i (attached j E r) m)), Inr True)"
    using quiet_create by blast
  moreover have "sb_id (attached j E r) = i"
    using a map_ok_get [OF holds_map_ok] by (fastforce simp: attached_def)
  then have "holds (se_dateFinite E) (Content (state_json (jm_set i (attached j E r) m))) (jm_set i (attached j E r) m)"
    using a by (intro holds_write map_ok_set) (auto intro: holds_map_ok)
  ultimately show "\<exists>f'. registry_put E n j f = (f', Inr ())
      \<and> holds (se_dateFinite E) f' (jm_set i (attached j E r) m)"
    by (simp add: registry_put_def)
next
  fix f' a
  assume "jail_create E n j f = (f', a)"
  from jail_create_result [OF this] obtain t i where
    t: "foreign E f t" "sandboxIdFrom j = (if a = Inr True then Inr i else sandboxIdFrom j)"
      "swapped E (attaches j i) t a f'" by blast
  show "if a = Inr True
         then \<exists>t m i r r'. foreign E f t \<and> sandboxIdFrom j = Inr i \<and> holds (se_dateFinite E) t m
           \<and> jm_get m i = Some r \<and> sb_machine r = None \<and> jailOf r' = Some j \<and> executionOf r' = Some (jr_vmId j)
           \<and> sb_phase r' = sb_phase r \<and> sb_resources r' = sb_resources r \<and> sb_revision r' = sb_revision r + 1
           \<and> holds (se_dateFinite E) f' (jm_set i r' m)
         else foreign E f f'"
  proof (cases "a = Inr True")
    case True
    with t(3) obtain m k r r' where s: "holds (se_dateFinite E) t m" "jm_get m k = Some r" "attaches j i r r'"
        "sb_revision r' = sb_revision r + 1" "holds (se_dateFinite E) f' (jm_set k r' m)"
      by (auto simp: swapped_def)
    have "sb_id r = k" using map_ok_get [OF holds_map_ok [OF s(1)] s(2)] by simp
    then have "k = i" using s(3) by (simp add: attaches_def)
    then show ?thesis using True t(1,2) s unfolding attaches_def by (simp, blast)
  next
    case False
    then show ?thesis using t by (simp add: swapped_def)
  qed
qed

theorem journal_create_is_create_only_witness:
  "\<exists>f'. registry_put example_env 16 example_jail example_file = (f', Inr ())
     \<and> holds (\<lambda>_. True) f' (jm_set ''sbx-1'' (attached example_jail example_env example_record)
         [(''sbx-1'', example_record)])"
  using journal_create_is_create_only [of example_env example_file "[(''sbx-1'', example_record)]" example_jail
      "''sbx-1''" 16 example_record] example_file_holds example_jail_id example_attached_ok
  by (simp add: quiet_def example_env_def executionOf_def jm_get_def) (simp add: example_record_def)

text \<open>
  A stale execution cannot touch its successor. Whatever others do meanwhile, \<open>update\<close> and \<open>remove\<close> for
  an execution change a record only in one step at which that execution owned the record's machine; \<open>remove\<close>
  then leaves the execution in place as reclaiming, without its jail record, with the phase and resources of
  the sandbox untouched. A call that does not report a swap changed nothing itself.
\<close>

theorem stale_execution_leaves_its_successor_alone:
  assumes "jail_update E n e p f = (f1, a1)" and "jail_remove E n e f = (f2, a2)"
  shows "(if a1 = Inr True
      then \<exists>t m i r r'. foreign E f t \<and> holds (se_dateFinite E) t m \<and> jm_get m i = Some r
        \<and> executionOf r = Some e \<and> executionOf r' = Some e \<and> map_option jr_vmId (jailOf r') = Some e
        \<and> sb_phase r' = sb_phase r \<and> sb_resources r' = sb_resources r \<and> holds (se_dateFinite E) f1 (jm_set i r' m)
      else foreign E f f1)
    \<and> (if a2 = Inr True
      then \<exists>t m i r r'. foreign E f t \<and> holds (se_dateFinite E) t m \<and> jm_get m i = Some r
        \<and> executionOf r = Some e \<and> executionOf r' = Some e \<and> jailOf r' = None
        \<and> map_option mj_phase (sb_machine r') = Some Reclaiming
        \<and> sb_phase r' = sb_phase r \<and> sb_resources r' = sb_resources r \<and> holds (se_dateFinite E) f2 (jm_set i r' m)
      else foreign E f f2)"
proof
  obtain t where t: "foreign E f t" "swapped E (merges e) t a1 f1"
    using jail_update_result [OF assms(1)] by blast
  show "if a1 = Inr True
      then \<exists>t m i r r'. foreign E f t \<and> holds (se_dateFinite E) t m \<and> jm_get m i = Some r
        \<and> executionOf r = Some e \<and> executionOf r' = Some e \<and> map_option jr_vmId (jailOf r') = Some e
        \<and> sb_phase r' = sb_phase r \<and> sb_resources r' = sb_resources r \<and> holds (se_dateFinite E) f1 (jm_set i r' m)
      else foreign E f f1"
    using t unfolding swapped_def merges_def by (cases "a1 = Inr True") (simp, blast, simp)
  obtain u where u: "foreign E f u" "swapped E (detaches e) u a2 f2"
    using jail_remove_result [OF assms(2)] by blast
  show "if a2 = Inr True
      then \<exists>t m i r r'. foreign E f t \<and> holds (se_dateFinite E) t m \<and> jm_get m i = Some r
        \<and> executionOf r = Some e \<and> executionOf r' = Some e \<and> jailOf r' = None
        \<and> map_option mj_phase (sb_machine r') = Some Reclaiming
        \<and> sb_phase r' = sb_phase r \<and> sb_resources r' = sb_resources r \<and> holds (se_dateFinite E) f2 (jm_set i r' m)
      else foreign E f f2"
    using u unfolding swapped_def detaches_def by (cases "a2 = Inr True") (simp, blast, simp)
qed

definition example_patch :: jail_patch where
  "example_patch = \<lparr>jp_pid = Some (Some 42), jp_apiSocketPath = None, jp_stateDir = None, jp_ownsStateDir = None,
     jp_vsockUdsPath = None, jp_vsockListenerPaths = None, jp_pidfilePath = None, jp_chrootDir = None,
     jp_createdAt = None, jp_metadata = None\<rparr>"

lemma example_no_execution:
  "jail_update example_env 16 ''sbx-e9'' example_patch example_file = (example_file, Inr False)
   \<and> jail_remove example_env 16 ''sbx-e9'' example_file = (example_file, Inr False)"
proof -
  obtain rs where rs: "store_list (\<lambda>_. True) (\<lambda>_ _. True) example_file = (Inr rs :: fc_error store_error + _)"
      "set rs = {example_record}"
    using store_list_holds [OF example_file_holds] by fastforce
  have "find (\<lambda>u. executionOf u = Some ''sbx-e9'') rs = None"
    using rs(2) by (auto simp: find_None_iff executionOf_def example_record_def)
  then show ?thesis
    using rs(1) by (simp add: jail_update_def jail_remove_def finish_loop_def jail_update_body_def
        jail_remove_body_def example_env_def Let_def eval_nat_numeral)
qed

theorem stale_execution_leaves_its_successor_alone_witness:
  "foreign example_env example_file (fst (jail_remove example_env 16 ''sbx-e9'' example_file))"
  using stale_execution_leaves_its_successor_alone
      [OF example_no_execution [THEN conjunct1] example_no_execution [THEN conjunct2]]
    example_no_execution by simp

end
