(* ===== verification/Subnet_Allocator.thy ===== *)
theory Subnet_Allocator
  imports Js_Number
begin

unbundle bit_operations_syntax

text \<open>
  \<^verbatim>\<open>src/rootd/network/allocator.ts\<close> and \<open>slotOfTapName\<close> of \<^verbatim>\<open>reclaim_hook.ts\<close>: the pool of /30
  subnets.

  The byte array \<open>#used\<close> is a function from slots to bytes, beside the count \<open>#inUse\<close>. The slot
  arithmetic is on the bits of an integer, as in the source.
\<close>

definition TAP_NAME_PREFIX :: string where
  "TAP_NAME_PREFIX = ''sbxtap''"

definition DEFAULT_POOL_CIDR :: string where
  "DEFAULT_POOL_CIDR = ''10.201.0.0/16''"

definition SUBNET_PREFIX :: nat where
  "SUBNET_PREFIX = 30"

definition POOL_PREFIX :: nat where
  "POOL_PREFIX = 16"

definition SLOT_COUNT :: int where
  "SLOT_COUNT = push_bit (SUBNET_PREFIX - POOL_PREFIX) 1"

record subnet_allocation =
  sn_slot :: int
  sn_tapName :: string
  sn_subnet :: string
  sn_hostIp :: string
  sn_guestIp :: string
  sn_guestCidr :: string
  sn_guestMac :: string

datatype net_error = NetRangeError | SBX_NET_EXHAUSTED

definition parsePoolPrefix :: "string \<Rightarrow> net_error + int \<times> int" where
  "parsePoolPrefix poolCidr = (case split_on (CHR ''/'') poolCidr of
      [network, prefixText] \<Rightarrow>
        if js_Number prefixText \<noteq> NumInt (int POOL_PREFIX) then Inl NetRangeError
        else (let octets = split_on (CHR ''.'') network
              in if length octets \<noteq> 4 then Inl NetRangeError
                 else (let parsed = map js_Number octets
                       in if \<not> list_all (\<lambda>o'. isInteger o' \<and> 0 \<le> int_of o' \<and> int_of o' \<le> 255) parsed
                          then Inl NetRangeError
                          else Inr (int_of (parsed ! 0), int_of (parsed ! 1))))
    | _ \<Rightarrow> Inl NetRangeError)"

definition octet :: "int \<Rightarrow> string" where
  "octet i = dec (nat i)"

definition dotted :: "int \<Rightarrow> int \<Rightarrow> int \<Rightarrow> int \<Rightarrow> string" where
  "dotted a b c d = octet a @ ''.'' @ octet b @ ''.'' @ octet c @ ''.'' @ octet d"

definition computeAllocation :: "int \<Rightarrow> int \<Rightarrow> int \<Rightarrow> subnet_allocation" where
  "computeAllocation slot octet1 octet2 =
     (let third = drop_bit 6 slot;
          base4 = push_bit 2 (slot AND 63);
          network = dotted octet1 octet2 third base4;
          hostIp = dotted octet1 octet2 third (base4 + 1);
          guestIp = dotted octet1 octet2 third (base4 + 2)
      in \<lparr>sn_slot = slot, sn_tapName = TAP_NAME_PREFIX @ octet slot,
          sn_subnet = network @ ''/'' @ dec SUBNET_PREFIX, sn_hostIp = hostIp, sn_guestIp = guestIp,
          sn_guestCidr = guestIp @ ''/'' @ dec SUBNET_PREFIX,
          sn_guestMac = ''02:00:'' @ hex2 (nat octet1) @ '':'' @ hex2 (nat octet2) @ '':''
            @ hex2 (nat third) @ '':'' @ hex2 (nat (base4 + 2))\<rparr>)"

definition slot_in_range :: "js_number \<Rightarrow> bool" where
  "slot_in_range slot = (isInteger slot \<and> 0 \<le> int_of slot \<and> int_of slot < SLOT_COUNT)"

definition subnetForSlot :: "js_number \<Rightarrow> string \<Rightarrow> net_error + subnet_allocation" where
  "subnetForSlot slot poolCidr =
     (if \<not> slot_in_range slot then Inl NetRangeError
      else bindE (parsePoolPrefix poolCidr) (\<lambda>(octet1, octet2).
        Inr (computeAllocation (int_of slot) octet1 octet2)))"

record subnet_allocator =
  sa_octet1 :: int
  sa_octet2 :: int
  sa_used :: "int \<Rightarrow> nat"
  sa_inUse :: int

definition new_allocator :: "string option \<Rightarrow> net_error + subnet_allocator" where
  "new_allocator poolCidr = bindE (parsePoolPrefix (orElse poolCidr DEFAULT_POOL_CIDR)) (\<lambda>(octet1, octet2).
     Inr \<lparr>sa_octet1 = octet1, sa_octet2 = octet2, sa_used = (\<lambda>_. 0), sa_inUse = 0\<rparr>)"

definition allocate :: "subnet_allocator \<Rightarrow> net_error + subnet_allocator \<times> subnet_allocation" where
  "allocate a = (case first_from (\<lambda>slot. sa_used a slot = 0) 0 SLOT_COUNT of
      None \<Rightarrow> Inl SBX_NET_EXHAUSTED
    | Some slot \<Rightarrow> Inr (a\<lparr>sa_used := (sa_used a)(slot := 1), sa_inUse := sa_inUse a + 1\<rparr>,
        computeAllocation slot (sa_octet1 a) (sa_octet2 a)))"

definition release_slot :: "subnet_allocator \<Rightarrow> js_number \<Rightarrow> net_error + subnet_allocator" where
  "release_slot a slot =
     (if \<not> slot_in_range slot then Inl NetRangeError
      else if sa_used a (int_of slot) = 1
      then Inr (a\<lparr>sa_used := (sa_used a)(int_of slot := 0), sa_inUse := sa_inUse a - 1\<rparr>)
      else Inr a)"

definition reserve_slot :: "subnet_allocator \<Rightarrow> js_number \<Rightarrow> net_error + subnet_allocator" where
  "reserve_slot a slot =
     (if \<not> slot_in_range slot then Inl NetRangeError
      else if sa_used a (int_of slot) = 0
      then Inr (a\<lparr>sa_used := (sa_used a)(int_of slot := 1), sa_inUse := sa_inUse a + 1\<rparr>)
      else Inr a)"

definition slotOfTapName :: "string \<Rightarrow> net_error + int" where
  "slotOfTapName tapName =
     (if \<not> startsWith tapName TAP_NAME_PREFIX then Inl NetRangeError
      else (let suffix = drop (length TAP_NAME_PREFIX) tapName; slot = js_Number suffix
            in if suffix = [] \<or> \<not> list_all is_digit suffix \<or> \<not> isInteger slot then Inl NetRangeError
               else Inr (int_of slot)))"

subsection \<open>The slot arithmetic\<close>

lemma SLOT_COUNT_eq: "SLOT_COUNT = 16384"
  by (simp add: SLOT_COUNT_def SUBNET_PREFIX_def POOL_PREFIX_def push_bit_eq_mult)

lemma third_eq: "drop_bit 6 (slot :: int) = slot div 64"
  by (simp add: drop_bit_eq_div)

lemma base4_eq: "push_bit 2 ((slot :: int) AND 63) = 4 * (slot mod 64)"
proof -
  have "mask 6 = (63 :: int)" by (simp add: mask_eq_exp_minus_1)
  then have "slot AND 63 = take_bit 6 slot" by (simp add: take_bit_eq_mask)
  then show ?thesis by (simp add: push_bit_eq_mult take_bit_eq_mod)
qed

lemma computeAllocation_eq:
  "computeAllocation slot o1 o2 = \<lparr>sn_slot = slot, sn_tapName = TAP_NAME_PREFIX @ octet slot,
     sn_subnet = dotted o1 o2 (slot div 64) (4 * (slot mod 64)) @ ''/'' @ dec 30,
     sn_hostIp = dotted o1 o2 (slot div 64) (4 * (slot mod 64) + 1),
     sn_guestIp = dotted o1 o2 (slot div 64) (4 * (slot mod 64) + 2),
     sn_guestCidr = dotted o1 o2 (slot div 64) (4 * (slot mod 64) + 2) @ ''/'' @ dec 30,
     sn_guestMac = ''02:00:'' @ hex2 (nat o1) @ '':'' @ hex2 (nat o2) @ '':''
       @ hex2 (nat (slot div 64)) @ '':'' @ hex2 (nat (4 * (slot mod 64) + 2))\<rparr>"
  by (simp only: computeAllocation_def Let_def third_eq base4_eq SUBNET_PREFIX_def)

text \<open>The dotted form determines its octets.\<close>

lemma dec_no_dot: "CHR ''.'' \<notin> set (dec n)"
  using dec_digits [of "CHR ''.''" n] by auto

lemma split_dotted: "split_on (CHR ''.'') (dotted a b c d) = [octet a, octet b, octet c, octet d]"
  by (simp add: dotted_def octet_def split_on_append split_on_fresh dec_no_dot)

lemma dotted_inject:
  assumes "dotted a b c d = dotted a' b' c' d'"
    and "0 \<le> a" "0 \<le> b" "0 \<le> c" "0 \<le> d" "0 \<le> a'" "0 \<le> b'" "0 \<le> c'" "0 \<le> d'"
  shows "a = a' \<and> b = b' \<and> c = c' \<and> d = d'"
proof -
  have "[octet a, octet b, octet c, octet d] = [octet a', octet b', octet c', octet d']"
    using assms(1) by (metis split_dotted)
  then show ?thesis using assms(2-) by (simp add: octet_def eq_nat_nat_iff)
qed

lemma slot_parts:
  assumes "0 \<le> slot" "slot < SLOT_COUNT"
  shows "0 \<le> slot div 64" "slot div 64 \<le> 255" "0 \<le> slot mod 64" "4 * (slot mod 64) \<le> 252"
    "slot = 64 * (slot div 64) + slot mod 64"
  using assms pos_mod_bound [of 64 slot] by (auto simp: SLOT_COUNT_eq)

definition allocation_at :: "int \<Rightarrow> int \<Rightarrow> int \<Rightarrow> int \<Rightarrow> subnet_allocation" where
  "allocation_at t m o1 o2 = \<lparr>sn_slot = 64 * t + m, sn_tapName = TAP_NAME_PREFIX @ octet (64 * t + m),
     sn_subnet = dotted o1 o2 t (4 * m) @ ''/'' @ dec 30, sn_hostIp = dotted o1 o2 t (4 * m + 1),
     sn_guestIp = dotted o1 o2 t (4 * m + 2), sn_guestCidr = dotted o1 o2 t (4 * m + 2) @ ''/'' @ dec 30,
     sn_guestMac = ''02:00:'' @ hex2 (nat o1) @ '':'' @ hex2 (nat o2) @ '':'' @ hex2 (nat t) @ '':''
       @ hex2 (nat (4 * m + 2))\<rparr>"

lemma allocation_parts:
  assumes "0 \<le> s" "s < 16384"
  shows "\<exists>t m. 0 \<le> t \<and> t \<le> 255 \<and> 0 \<le> m \<and> m \<le> 63 \<and> s = 64 * t + m
    \<and> computeAllocation s o1 o2 = allocation_at t m o1 o2"
proof (intro exI conjI)
  show "s = 64 * (s div 64) + s mod 64" by simp
  show "computeAllocation s o1 o2 = allocation_at (s div 64) (s mod 64) o1 o2"
    unfolding computeAllocation_eq allocation_at_def by simp
qed (use slot_parts [of s] assms in \<open>simp_all add: SLOT_COUNT_eq\<close>)

subsection \<open>The allocator meets the contract of a lowest-free allocator\<close>

definition slots_in_use :: "subnet_allocator \<Rightarrow> int set" where
  "slots_in_use a = {s. 0 \<le> s \<and> s < SLOT_COUNT \<and> sa_used a s \<noteq> 0}"

definition allocator_ok :: "subnet_allocator \<Rightarrow> bool" where
  "allocator_ok a = ((\<forall>s. sa_used a s \<le> 1) \<and> sa_inUse a = int (card (slots_in_use a))
     \<and> 0 \<le> sa_octet1 a \<and> sa_octet1 a \<le> 255 \<and> 0 \<le> sa_octet2 a \<and> sa_octet2 a \<le> 255)"

definition slot_used :: "subnet_allocator \<Rightarrow> int \<Rightarrow> bool" where
  "slot_used a s = (sa_used a s \<noteq> 0)"

definition slot_valid :: "subnet_allocator \<Rightarrow> int \<Rightarrow> bool" where
  "slot_valid a s = (0 \<le> s \<and> s < SLOT_COUNT)"

definition free_slot :: "int \<Rightarrow> subnet_allocator \<Rightarrow> subnet_allocator" where
  "free_slot s a = (case release_slot a (NumInt s) of Inr a' \<Rightarrow> a' | Inl _ \<Rightarrow> a)"

lemma finite_slots: "finite (slots_in_use a)"
  by (rule finite_subset [of _ "{0..<SLOT_COUNT}"]) (auto simp: slots_in_use_def)

lemma slots_in_use_set:
  assumes "0 \<le> s" "s < SLOT_COUNT"
  shows "slots_in_use (a\<lparr>sa_used := (sa_used a)(s := 1), sa_inUse := n\<rparr>) = insert s (slots_in_use a)"
    and "slots_in_use (a\<lparr>sa_used := (sa_used a)(s := 0), sa_inUse := n\<rparr>) = slots_in_use a - {s}"
  using assms by (auto simp: slots_in_use_def)

lemma allocate_Inr:
  assumes "allocator_ok a" and "allocate a = Inr (a', x)"
  shows "slot_valid a (sn_slot x) \<and> \<not> slot_used a (sn_slot x)
    \<and> (\<forall>m. slot_valid a m \<and> m < sn_slot x \<longrightarrow> slot_used a m)
    \<and> slot_used a' = (slot_used a)(sn_slot x := True) \<and> slot_valid a' = slot_valid a \<and> allocator_ok a'"
proof -
  from assms(2) obtain s where s: "first_from (\<lambda>slot. sa_used a slot = 0) 0 SLOT_COUNT = Some s"
    and a': "a' = a\<lparr>sa_used := (sa_used a)(s := 1), sa_inUse := sa_inUse a + 1\<rparr>"
    and x: "x = computeAllocation s (sa_octet1 a) (sa_octet2 a)"
    by (auto simp: allocate_def split: option.splits)
  note f = first_from_Some [OF s]
  have "s \<notin> slots_in_use a" using f by (simp add: slots_in_use_def)
  then have "allocator_ok a'"
    using assms(1) f slots_in_use_set(1) [of s] finite_slots [of a]
    by (auto simp: allocator_ok_def a')
  then show ?thesis
    using f by (auto simp: x computeAllocation_eq slot_valid_def slot_used_def a' fun_eq_iff)
qed

lemma allocate_Inl:
  "allocate a = Inl e \<Longrightarrow> slot_valid a m \<Longrightarrow> slot_used a m"
  by (auto simp: allocate_def first_from_None slot_valid_def slot_used_def split: option.splits)

lemma free_slot_used:
  assumes "allocator_ok a" and "slot_valid a s"
  shows "slot_used (free_slot s a) = (slot_used a)(s := False) \<and> slot_valid (free_slot s a) = slot_valid a
    \<and> allocator_ok (free_slot s a)"
proof (cases "sa_used a s = 1")
  case True
  then have "s \<in> slots_in_use a" using assms(2) by (simp add: slots_in_use_def slot_valid_def)
  then have "int (card (slots_in_use a)) - 1 = int (card (slots_in_use a - {s}))"
    using finite_slots [of a] by (simp add: card_Diff_singleton) (metis One_nat_def Suc_pred card_gt_0_iff
        empty_iff of_nat_1 of_nat_Suc add_diff_cancel_left' plus_1_eq_Suc of_nat_add)
  then show ?thesis
    using True assms slots_in_use_set(2) [of s]
    by (auto simp: free_slot_def release_slot_def slot_in_range_def slot_valid_def slot_used_def
        allocator_ok_def fun_eq_iff)
next
  case False
  then have "sa_used a s = 0" using assms(1) by (auto simp: allocator_ok_def le_Suc_eq)
  then show ?thesis
    using assms by (auto simp: free_slot_def release_slot_def slot_in_range_def slot_valid_def slot_used_def
        fun_eq_iff)
qed

interpretation subnets: lowest_free slot_used allocate sn_slot free_slot slot_valid allocator_ok
proof
  fix a a' :: subnet_allocator and x e s
  show "allocator_ok a \<Longrightarrow> allocate a = Inr (a', x) \<Longrightarrow>
      slot_valid a (sn_slot x) \<and> \<not> slot_used a (sn_slot x)
      \<and> (\<forall>m. slot_valid a m \<and> m < sn_slot x \<longrightarrow> slot_used a m)
      \<and> slot_used a' = (slot_used a)(sn_slot x := True) \<and> slot_valid a' = slot_valid a \<and> allocator_ok a'"
    by (rule allocate_Inr)
  show "allocator_ok a \<Longrightarrow> allocate a = Inl e \<Longrightarrow> \<forall>m. slot_valid a m \<longrightarrow> slot_used a m"
    using allocate_Inl by blast
  show "allocator_ok a \<Longrightarrow> slot_valid a s \<Longrightarrow>
      slot_used (free_slot s a) = (slot_used a)(s := False) \<and> slot_valid (free_slot s a) = slot_valid a
      \<and> allocator_ok (free_slot s a)"
    by (rule free_slot_used)
qed

subsection \<open>Runs of the allocator\<close>

datatype net_op = NAllocate | NRelease js_number | NReserve js_number

text \<open>A call; one that throws leaves the allocator as it was.\<close>

fun net_exec :: "subnet_allocator \<Rightarrow> net_op \<Rightarrow> subnet_allocator" where
  "net_exec a NAllocate = (case allocate a of Inr r \<Rightarrow> fst r | Inl _ \<Rightarrow> a)"
| "net_exec a (NRelease s) = (case release_slot a s of Inr a' \<Rightarrow> a' | Inl _ \<Rightarrow> a)"
| "net_exec a (NReserve s) = (case reserve_slot a s of Inr a' \<Rightarrow> a' | Inl _ \<Rightarrow> a)"

lemma release_slot_free: "release_slot a s = Inr a' \<Longrightarrow> a' = free_slot (int_of s) a \<and> slot_valid a (int_of s)"
  by (auto simp: release_slot_def free_slot_def slot_in_range_def slot_valid_def split: if_splits)

lemma reserve_slot_ok:
  assumes "allocator_ok a" and "reserve_slot a s = Inr a'"
  shows "allocator_ok a' \<and> slot_used a' = (slot_used a)(int_of s := True)"
proof (cases "sa_used a (int_of s) = 0")
  case True
  have v: "0 \<le> int_of s" "int_of s < SLOT_COUNT"
    using assms(2) by (auto simp: reserve_slot_def slot_in_range_def split: if_splits)
  have "int_of s \<notin> slots_in_use a" using True by (simp add: slots_in_use_def)
  then show ?thesis
    using True assms v finite_slots [of a] slots_in_use_set(1) [OF v]
    by (auto simp: reserve_slot_def allocator_ok_def slot_used_def fun_eq_iff split: if_splits)
next
  case False
  then show ?thesis
    using assms by (auto simp: reserve_slot_def slot_used_def fun_eq_iff split: if_splits)
qed

lemma net_exec_ok: "allocator_ok a \<Longrightarrow> allocator_ok (net_exec a p)"
  by (cases p) (auto split: sum.splits dest: allocate_Inr release_slot_free reserve_slot_ok
      simp: free_slot_used)

lemma net_exec_keeps:
  assumes "allocator_ok a" and "slot_used a s" and "\<forall>n. p = NRelease n \<longrightarrow> int_of n \<noteq> s"
  shows "slot_used (net_exec a p) s"
proof (cases p)
  case NAllocate
  then show ?thesis using assms allocate_Inr [OF assms(1)] by (auto split: sum.splits)
next
  case (NRelease n)
  then show ?thesis
    using assms release_slot_free [of a n] free_slot_used [OF assms(1), of "int_of n"]
    by (auto split: sum.splits)
next
  case (NReserve n)
  then show ?thesis using assms reserve_slot_ok [OF assms(1), of n] by (auto split: sum.splits)
qed

lemma net_run_keeps:
  "allocator_ok a \<Longrightarrow> slot_used a s \<Longrightarrow> \<forall>n. NRelease n \<in> set ps \<longrightarrow> int_of n \<noteq> s \<Longrightarrow>
   slot_used (foldl net_exec a ps) s \<and> allocator_ok (foldl net_exec a ps)"
  by (induction ps arbitrary: a) (auto simp: net_exec_ok net_exec_keeps)

lemma parsePoolPrefix_range:
  assumes "parsePoolPrefix c = Inr (o1, o2)"
  shows "0 \<le> o1 \<and> o1 \<le> 255 \<and> 0 \<le> o2 \<and> o2 \<le> 255"
proof -
  from assms obtain os where "length os = 4"
    and "list_all (\<lambda>o'. isInteger o' \<and> 0 \<le> int_of o' \<and> int_of o' \<le> 255) (map js_Number os)"
    and "o1 = int_of (map js_Number os ! 0)" "o2 = int_of (map js_Number os ! 1)"
    by (auto simp: parsePoolPrefix_def Let_def split: list.splits if_splits)
  then show ?thesis by (simp add: list_all_length)
qed

lemma new_allocator_ok:
  "new_allocator c = Inr a \<Longrightarrow> allocator_ok a \<and> sa_inUse a = 0 \<and> (\<forall>s. \<not> slot_used a s)"
  using parsePoolPrefix_range [of "orElse c DEFAULT_POOL_CIDR"]
  by (auto simp: new_allocator_def err_simps allocator_ok_def slots_in_use_def slot_used_def)

lemma js_Number_lits:
  "js_Number ''10'' = NumInt 10" "js_Number ''201'' = NumInt 201" "js_Number ''0'' = NumInt 0"
  "js_Number ''16'' = NumInt 16" "js_Number ''7'' = NumInt 7"
proof -
  have "''10'' = dec 10" "''201'' = dec 201" "''0'' = dec 0" "''16'' = dec 16" "''7'' = dec 7"
    by code_simp+
  then show "js_Number ''10'' = NumInt 10" "js_Number ''201'' = NumInt 201" "js_Number ''0'' = NumInt 0"
    "js_Number ''16'' = NumInt 16" "js_Number ''7'' = NumInt 7"
    by (simp_all add: js_Number_dec)
qed

lemma default_pool: "parsePoolPrefix DEFAULT_POOL_CIDR = Inr (10, 201)"
  by (simp add: parsePoolPrefix_def DEFAULT_POOL_CIDR_def js_Number_lits POOL_PREFIX_def Let_def)

lemma octet_inject: "0 \<le> i \<Longrightarrow> 0 \<le> j \<Longrightarrow> octet i = octet j \<longleftrightarrow> i = j"
  by (auto simp: octet_def)

lemma length_to_radix: "n < 10 ^ Suc k \<Longrightarrow> length (to_radix 10 n) \<le> Suc k"
proof (induction k arbitrary: n)
  case (Suc k)
  then have "n div 10 < 10 ^ Suc k" by (simp add: div_less_iff_less_mult)
  with Suc.IH [of "n div 10"] show ?case
    using to_radix.simps [of 10 n] by (cases "n < 10") auto
qed (simp add: to_radix.simps)

subsection \<open>Properties\<close>

definition example_pool :: subnet_allocator where
  "example_pool = \<lparr>sa_octet1 = 10, sa_octet2 = 201, sa_used = (\<lambda>_. 0), sa_inUse = 0\<rparr>"

lemma example_pool_new: "new_allocator None = Inr example_pool"
  by (simp add: new_allocator_def default_pool example_pool_def)

text \<open>
  C39. Addressing is exact and collision-free. The subnet of a slot is the block of four addresses that
  starts at offset four times the slot in the pool, cut at octet boundaries into valid octets; the host
  has the second address of the block and the guest the third. Two slots of a pool share neither subnet nor
  host address, guest address, guest MAC or TAP name, no host address is another slot's guest address, and
  a TAP name fits the kernel's fifteen characters.
\<close>

theorem slot_addressing_is_injective:
  assumes "0 \<le> s" "s < 16384" "0 \<le> s'" "s' < 16384" "s \<noteq> s'"
    and "0 \<le> o1" "o1 \<le> 255" "0 \<le> o2" "o2 \<le> 255"
    and "x = computeAllocation s o1 o2" "x' = computeAllocation s' o1 o2"
  shows "(\<exists>t b. 256 * t + b = 4 * s \<and> 0 \<le> t \<and> t \<le> 255 \<and> 0 \<le> b \<and> b + 3 \<le> 255
      \<and> sn_subnet x = dotted o1 o2 t b @ ''/30'' \<and> sn_hostIp x = dotted o1 o2 t (b + 1)
      \<and> sn_guestIp x = dotted o1 o2 t (b + 2))
    \<and> sn_subnet x \<noteq> sn_subnet x' \<and> sn_hostIp x \<noteq> sn_hostIp x' \<and> sn_guestIp x \<noteq> sn_guestIp x'
    \<and> sn_hostIp x \<noteq> sn_guestIp x' \<and> sn_guestMac x \<noteq> sn_guestMac x' \<and> sn_tapName x \<noteq> sn_tapName x'
    \<and> length (sn_tapName x) \<le> 15"
proof -
  obtain t m where x: "0 \<le> t" "t \<le> 255" "0 \<le> m" "m \<le> 63" "s = 64 * t + m"
      "computeAllocation s o1 o2 = allocation_at t m o1 o2"
    using allocation_parts [OF assms(1,2)] by blast
  obtain t' m' where x': "0 \<le> t'" "t' \<le> 255" "0 \<le> m'" "m' \<le> 63" "s' = 64 * t' + m'"
      "computeAllocation s' o1 o2 = allocation_at t' m' o1 o2"
    using allocation_parts [OF assms(3,4)] by blast
  have ne: "\<not> (t = t' \<and> m = m')" using x(5) x'(5) assms(5) by auto
  have dec30: "dec 30 = ''30''" by code_simp
  have dist: "dotted o1 o2 t (4 * m + k) \<noteq> dotted o1 o2 t' (4 * m' + k')"
    if "0 \<le> k" "k \<le> 3" "0 \<le> k'" "k' \<le> 3" for k k'
  proof
    assume "dotted o1 o2 t (4 * m + k) = dotted o1 o2 t' (4 * m' + k')"
    from dotted_inject [OF this] have "t = t'" "4 * m + k = 4 * m' + k'"
      using assms(6-9) x(1,3) x'(1,3) that by simp_all
    then show False using ne that by presburger
  qed
  have mac: "sn_guestMac x \<noteq> sn_guestMac x'"
  proof
    assume "sn_guestMac x = sn_guestMac x'"
    then have "hex2 (nat t) = hex2 (nat t')" "hex2 (nat (4 * m + 2)) = hex2 (nat (4 * m' + 2))"
      using x(1-4) x'(1-4) unfolding assms(10,11) x(6) x'(6) allocation_at_def by simp_all
    then have "nat t = nat t'" "nat (4 * m + 2) = nat (4 * m' + 2)"
      using hex2_inject [of "nat t" "nat t'"] hex2_inject [of "nat (4 * m + 2)" "nat (4 * m' + 2)"]
        x(1-4) x'(1-4) by auto
    then show False using ne x(1,3) x'(1,3) by auto
  qed
  have "nat s < 10 ^ Suc 4" using assms(1,2) by simp
  then have tap: "length (sn_tapName x) \<le> 15"
    using length_to_radix [of "nat s" 4]
    by (simp add: assms(10) computeAllocation_eq octet_def dec_def TAP_NAME_PREFIX_def)
  have "sn_tapName x \<noteq> sn_tapName x'"
    using assms(1-5) by (simp add: assms(10,11) computeAllocation_eq octet_inject)
  moreover have "\<exists>t b. 256 * t + b = 4 * s \<and> 0 \<le> t \<and> t \<le> 255 \<and> 0 \<le> b \<and> b + 3 \<le> 255
      \<and> sn_subnet x = dotted o1 o2 t b @ ''/30'' \<and> sn_hostIp x = dotted o1 o2 t (b + 1)
      \<and> sn_guestIp x = dotted o1 o2 t (b + 2)"
    unfolding assms(10) x(6)
  proof (rule exI [of _ t], rule exI [of _ "4 * m"])
    show "256 * t + 4 * m = 4 * s \<and> 0 \<le> t \<and> t \<le> 255 \<and> 0 \<le> 4 * m \<and> 4 * m + 3 \<le> 255
      \<and> sn_subnet (allocation_at t m o1 o2) = dotted o1 o2 t (4 * m) @ ''/30''
      \<and> sn_hostIp (allocation_at t m o1 o2) = dotted o1 o2 t (4 * m + 1)
      \<and> sn_guestIp (allocation_at t m o1 o2) = dotted o1 o2 t (4 * m + 2)"
      using x(1-5) by (simp add: allocation_at_def dec30)
  qed
  moreover have "sn_subnet x \<noteq> sn_subnet x'" "sn_hostIp x \<noteq> sn_hostIp x'" "sn_guestIp x \<noteq> sn_guestIp x'"
      "sn_hostIp x \<noteq> sn_guestIp x'"
    using dist [of 0 0] dist [of 1 1] dist [of 2 2] dist [of 1 2]
    by (simp_all add: assms(10,11) x(6) x'(6) allocation_at_def)
  ultimately show ?thesis using mac tap by blast
qed

theorem slot_addressing_is_injective_witness:
  "sn_guestIp (computeAllocation 63 10 201) \<noteq> sn_guestIp (computeAllocation 64 10 201)"
  using slot_addressing_is_injective [of 63 64 10 201, OF _ _ _ _ _ _ _ _ _ refl refl] by simp

text \<open>
  A subnet belongs to one execution until it is released. On any allocator a run produced, \<open>allocate\<close>
  succeeds exactly while a slot is free and hands out the lowest one; whatever calls follow, as long as none
  of them releases that slot, no later \<open>allocate\<close> hands it out again; and releasing it at once restores
  the set of slots in use.
\<close>

theorem slot_is_exclusive_until_released:
  assumes "new_allocator c = Inr a0" and "a = foldl net_exec a0 ps" and "allocate a = Inr (a', x)"
    and "\<forall>n. NRelease n \<in> set qs \<longrightarrow> int_of n \<noteq> sn_slot x"
    and "allocate (foldl net_exec a' qs) = Inr (b, y)"
  shows "sn_slot y \<noteq> sn_slot x \<and> \<not> slot_used a (sn_slot x)
    \<and> (\<forall>m. 0 \<le> m \<and> m < sn_slot x \<longrightarrow> slot_used a m)
    \<and> (\<exists>r. release_slot a' (NumInt (sn_slot x)) = Inr r \<and> slot_used r = slot_used a \<and> sa_inUse r = sa_inUse a)"
proof -
  have ok: "allocator_ok a"
    unfolding assms(2) using new_allocator_ok [OF assms(1)]
    by (induction ps rule: rev_induct) (auto simp: net_exec_ok)
  note al = allocate_Inr [OF ok assms(3)]
  have "slot_used (foldl net_exec a' qs) (sn_slot x) \<and> allocator_ok (foldl net_exec a' qs)"
    using al net_run_keeps [OF _ _ assms(4)] by simp
  then have ne: "sn_slot y \<noteq> sn_slot x" using allocate_Inr [OF _ assms(5)] by auto
  have "sn_slot x < SLOT_COUNT \<and> 0 \<le> sn_slot x" using al by (simp add: slot_valid_def)
  then have low: "\<forall>m. 0 \<le> m \<and> m < sn_slot x \<longrightarrow> slot_used a m"
    using al by (auto simp: slot_valid_def)
  have "slot_used (free_slot (sn_slot x) a') = slot_used a"
    using subnets.free_undoes_alloc [OF ok assms(3)] .
  moreover have "sa_used a' (sn_slot x) = 1" "sa_inUse a' = sa_inUse a + 1"
    using assms(3) by (auto simp: allocate_def computeAllocation_eq split: option.splits)
  ultimately have "\<exists>r. release_slot a' (NumInt (sn_slot x)) = Inr r \<and> slot_used r = slot_used a
      \<and> sa_inUse r = sa_inUse a"
    using al by (simp add: free_slot_def release_slot_def slot_in_range_def slot_valid_def)
  then show ?thesis using ne al low by blast
qed

lemma example_first_slot:
  "allocate example_pool = Inr (example_pool\<lparr>sa_used := (\<lambda>_. 0)(0 := 1), sa_inUse := 1\<rparr>,
     computeAllocation 0 10 201)"
proof -
  have "nat 16384 = Suc 16383" by simp
  then have "first_from (\<lambda>slot. sa_used example_pool slot = 0) 0 SLOT_COUNT = Some 0"
    by (simp only: first_from_def SLOT_COUNT_eq scan.simps diff_0_right) (simp add: example_pool_def)
  then show ?thesis by (simp add: allocate_def example_pool_def)
qed

theorem slot_is_exclusive_until_released_witness:
  "\<exists>b y. allocate (fst (projr (allocate example_pool))) = Inr (b, y) \<and> sn_slot y \<noteq> 0"
proof -
  let ?a = "example_pool\<lparr>sa_used := (\<lambda>_. 0)(0 := 1), sa_inUse := 1\<rparr>"
  have ok: "allocator_ok ?a"
    using allocate_Inr [OF _ example_first_slot] new_allocator_ok [OF example_pool_new] by simp
  have "slot_valid ?a 1 \<and> \<not> slot_used ?a 1" by (simp add: slot_valid_def slot_used_def SLOT_COUNT_eq)
  then have "is_ok (allocate ?a)" using subnets.alloc_iff_free [OF ok] by blast
  then obtain b y where "allocate ?a = Inr (b, y)" by (cases "allocate ?a") auto
  then show ?thesis
    using slot_is_exclusive_until_released [OF example_pool_new, of example_pool "[]", OF _ example_first_slot,
        of "[]" b y] example_first_slot by (simp add: computeAllocation_eq)
qed

lemma slotOfTapName_dec:
  assumes "n < 16384"
  shows "slotOfTapName (TAP_NAME_PREFIX @ dec n) = Inr (int n)"
proof -
  have "list_all is_digit (dec n)" using dec_digits by (simp add: list_all_iff)
  moreover have "js_Number (dec n) = NumInt (int n)" using js_Number_dec [of n] assms by simp
  ultimately show ?thesis by (simp add: slotOfTapName_def startsWith_def Let_def)
qed

text \<open>
  A TAP name leads back to its allocation, in the default pool only. The slot parsed from an allocated
  TAP name is the slot it was made for. But the supervisor's \<open>exposeHttp\<close> and the reclaim hook then rebuild the
  addresses with \<open>subnetForSlot(slot)\<close>, which uses the default pool: when the allocator was configured with
  another one, the rebuilt guest address is not the address the sandbox was given.
\<close>

theorem tap_name_roundtrip_and_pool_mismatch:
  assumes "new_allocator (Some c) = Inr a0" and "a = foldl net_exec a0 ps" and "allocate a = Inr (a', x)"
  shows "slotOfTapName (sn_tapName x) = Inr (sn_slot x)
    \<and> (\<exists>y. subnetForSlot (NumInt (sn_slot x)) c = Inr y \<and> y = x)
    \<and> (parsePoolPrefix c \<noteq> Inr (10, 201) \<longrightarrow>
        (\<exists>y. subnetForSlot (NumInt (sn_slot x)) DEFAULT_POOL_CIDR = Inr y
          \<and> sn_tapName y = sn_tapName x \<and> sn_guestIp y \<noteq> sn_guestIp x))"
proof -
  obtain o1 o2 where o: "parsePoolPrefix c = Inr (o1, o2)"
    using assms(1) by (auto simp: new_allocator_def err_simps)
  note or = parsePoolPrefix_range [OF o]
  have oct: "sa_octet1 (foldl net_exec a0 qs) = o1 \<and> sa_octet2 (foldl net_exec a0 qs) = o2" for qs
  proof (induction qs rule: rev_induct)
    case Nil
    show ?case using assms(1) o by (auto simp: new_allocator_def)
  next
    case (snoc q qs)
    then show ?case
      by (cases q) (auto simp: allocate_def release_slot_def reserve_slot_def split: sum.splits option.splits if_splits)
  qed
  have ok: "allocator_ok a"
    unfolding assms(2) using new_allocator_ok [OF assms(1)]
    by (induction ps rule: rev_induct) (auto simp: net_exec_ok)
  have sl: "0 \<le> sn_slot x" "sn_slot x < SLOT_COUNT"
    using allocate_Inr [OF ok assms(3)] by (auto simp: slot_valid_def)
  have x: "x = computeAllocation (sn_slot x) o1 o2"
    using assms(2,3) oct [of ps] by (auto simp: allocate_def computeAllocation_eq split: option.splits)
  have tap: "sn_tapName x = TAP_NAME_PREFIX @ dec (nat (sn_slot x))"
    by (subst x) (simp add: computeAllocation_eq octet_def)
  have gx: "sn_guestIp x = dotted o1 o2 (sn_slot x div 64) (4 * (sn_slot x mod 64) + 2)"
    by (subst x) (simp add: computeAllocation_eq)
  have "slotOfTapName (sn_tapName x) = Inr (sn_slot x)"
    using slotOfTapName_dec [of "nat (sn_slot x)"] sl by (simp add: tap SLOT_COUNT_eq)
  moreover have "subnetForSlot (NumInt (sn_slot x)) c = Inr x"
    using sl x o by (simp add: subnetForSlot_def slot_in_range_def)
  moreover have "subnetForSlot (NumInt (sn_slot x)) DEFAULT_POOL_CIDR = Inr (computeAllocation (sn_slot x) 10 201)"
    using sl by (simp add: subnetForSlot_def slot_in_range_def default_pool)
  moreover have "sn_guestIp (computeAllocation (sn_slot x) 10 201) \<noteq> sn_guestIp x" if "(o1, o2) \<noteq> (10, 201)"
  proof
    assume "sn_guestIp (computeAllocation (sn_slot x) 10 201) = sn_guestIp x"
    then have "dotted 10 201 (sn_slot x div 64) (4 * (sn_slot x mod 64) + 2)
        = dotted o1 o2 (sn_slot x div 64) (4 * (sn_slot x mod 64) + 2)"
      by (simp add: computeAllocation_eq gx)
    from dotted_inject [OF this] or slot_parts [OF sl] that show False by simp
  qed
  moreover have "sn_tapName (computeAllocation (sn_slot x) 10 201) = sn_tapName x"
    by (simp add: tap computeAllocation_eq octet_def)
  ultimately show ?thesis using o by auto
qed

theorem tap_name_roundtrip_and_pool_mismatch_witness:
  "\<exists>a' x y. allocate \<lparr>sa_octet1 = 10, sa_octet2 = 7, sa_used = (\<lambda>_. 0), sa_inUse = 0\<rparr> = Inr (a', x)
     \<and> subnetForSlot (NumInt (sn_slot x)) DEFAULT_POOL_CIDR = Inr y \<and> sn_guestIp y \<noteq> sn_guestIp x"
proof -
  let ?a = "\<lparr>sa_octet1 = 10, sa_octet2 = 7, sa_used = (\<lambda>_. 0), sa_inUse = 0\<rparr>"
  have c: "parsePoolPrefix ''10.7.0.0/16'' = Inr (10, 7)"
    by (simp add: parsePoolPrefix_def js_Number_lits POOL_PREFIX_def Let_def)
  then have n: "new_allocator (Some ''10.7.0.0/16'') = Inr ?a" by (simp add: new_allocator_def)
  have "slot_valid ?a 0 \<and> \<not> slot_used ?a 0" by (simp add: slot_valid_def slot_used_def SLOT_COUNT_eq)
  then have "is_ok (allocate ?a)" using subnets.alloc_iff_free new_allocator_ok [OF n] by blast
  then obtain a' x where "allocate ?a = Inr (a', x)" by (cases "allocate ?a") auto
  then show ?thesis
    using tap_name_roundtrip_and_pool_mismatch [OF n, of ?a "[]" a' x] c by auto
qed

end
