(* ===== verification/Host_Control.thy ===== *)
theory Host_Control
  imports Tickets Leases Capacity
begin

text \<open>
  \<^verbatim>\<open>src/hostd/control_core.ts\<close>: the host control plane, which composes the capacity ledger, the lease
  manager, the ticket store and the gateway to rootd.

  The core is a record of its private fields; the four components in it are the models of their own
  theories. The asynchronous operations (\<open>create\<close>, \<open>exposeHttp\<close>, \<open>openTunnel\<close>, the terminal reclaim) are
  cut at their awaits: each piece here runs without interruption, and \<open>Host_Machine\<close> puts the pieces
  together so that other calls run in between. What a piece asks of the world outside (the gateway to
  rootd, the tunnel router, the bridge reserver) is a \<open>host_call\<close> it returns; how the world answers is an
  argument of the next piece. Clock readings, random draws and the abort state of a connection are
  arguments.
\<close>

subsection \<open>The forward port allocator\<close>

definition FORWARD_PORT_MIN :: int where
  "FORWARD_PORT_MIN = 40100"

definition FORWARD_PORT_MAX :: int where
  "FORWARD_PORT_MAX = 40199"

datatype host_error_code =
    SBX_HOST_NOT_FOUND
  | SBX_HOST_PERMISSION
  | SBX_HOST_VALIDATION
  | SBX_HOST_STATE
  | SBX_HOST_UNIMPLEMENTED

text \<open>What an operation may throw: the core's own error, or the error of a component it calls.\<close>

datatype host_error =
    HostControlError host_error_code
  | HostCapacityError capacity_error
  | HostLeaseError lease_error
  | HostTicketError ticket_error
  | HostRangeError
  | HostGatewayError

record forward_ports =
  fp_min :: int
  fp_max :: int
  fp_used :: "int list"

definition new_forward_ports :: "js_number option \<Rightarrow> js_number option \<Rightarrow> host_error + forward_ports" where
  "new_forward_ports mn mx =
     (let lo = orElse mn (NumInt FORWARD_PORT_MIN); hi = orElse mx (NumInt FORWARD_PORT_MAX)
      in if \<not> isInteger lo \<or> \<not> isInteger hi \<or> int_of lo < 1 \<or> int_of hi > 65535 \<or> int_of hi < int_of lo
         then Inl HostRangeError
         else Inr \<lparr>fp_min = int_of lo, fp_max = int_of hi, fp_used = []\<rparr>)"

definition port_allocate :: "forward_ports \<Rightarrow> host_error + forward_ports \<times> int" where
  "port_allocate a = (case first_from (\<lambda>port. port \<notin> set (fp_used a)) (fp_min a) (fp_max a + 1) of
      Some port \<Rightarrow> Inr (a\<lparr>fp_used := fp_used a @ [port]\<rparr>, port)
    | None \<Rightarrow> Inl (HostControlError SBX_HOST_STATE))"

definition port_release :: "int \<Rightarrow> forward_ports \<Rightarrow> forward_ports" where
  "port_release port a = a\<lparr>fp_used := filter (\<lambda>q. q \<noteq> port) (fp_used a)\<rparr>"

subsection \<open>The core's data\<close>

definition MIB :: rat where
  "MIB = 1024 * 1024"

definition DEFAULT_MEMORY_MIB :: rat where
  "DEFAULT_MEMORY_MIB = 1280"

definition DEFAULT_OVERLAY_DISK_BYTES :: int where
  "DEFAULT_OVERLAY_DISK_BYTES = 2 * 1024 * (1024 * 1024)"

definition ID_ALPHABET :: string where
  "ID_ALPHABET = ''0123456789abcdefghjkmnpqrstuvwxyz''"

definition ID_SUFFIX_LEN :: nat where
  "ID_SUFFIX_LEN = 20"

definition IDEMPOTENCY_KEY_BYTES :: nat where
  "IDEMPOTENCY_KEY_BYTES = 16"

definition LEASE_RENEW_MS :: int where
  "LEASE_RENEW_MS = 30 * 60000"

datatype sandbox_state = Creating | Running | Stopping | Terminated | CleanupPending

datatype host_region = Ord | Ams | Loc

type_synonym label = "string \<times> string"

record create_input =
  ci_timeout :: lease_timeout
  ci_memoryMiB :: js_double
  ci_region :: host_region
  ci_labels :: "label list"
  ci_idempotencyKey :: bytes
  ci_allowNet :: "string list option"
  ci_netless :: "bool option"
  ci_vcpus :: "js_number option"

record sandbox_entry =
  se_id :: string
  se_rootdSandboxId :: string
  se_executionId :: string
  se_state :: sandbox_state
  se_createdAtUnixMs :: int
  se_labels :: "label list"
  se_region :: host_region
  se_bootNonce :: bytes
  se_reservation :: reservation
  se_ownerSecret :: bytes
  se_currentLeaseId :: string
  se_liveLeases :: int
  se_timeout :: lease_timeout
  se_terminationReason :: string

record sandbox_snapshot =
  ss_id :: string
  ss_state :: sandbox_state
  ss_createdAtUnixMs :: int
  ss_deadlineUnixMs :: int
  ss_labels :: "label list"
  ss_region :: host_region
  ss_bootNonce :: bytes
  ss_liveLeases :: int
  ss_terminationReason :: string

record lease_snapshot =
  lsn_id :: string
  lsn_generation :: int
  lsn_resumeSecret :: bytes
  lsn_expiresAtUnixMs :: int
  lsn_timeout :: lease_timeout

record launch_args =
  la_sandboxId :: string
  la_executionId :: string
  la_artifactId :: string
  la_allocationId :: string
  la_bootNonce :: bytes
  la_idempotencyKey :: bytes
  la_allowNet :: "string list option"
  la_netless :: "bool option"
  la_vcpus :: "js_number option"

datatype host_call =
    CallLaunch launch_args
  | CallKill string
  | CallExposeHttp string js_number int
  | CallReserveBridge bridge_request
  | CallCloseBridge nat
  | CallCloseRoute nat

text \<open>
  The terminal reclaim, and the rollback of a failed create: give the reservation back, then kill the
  execution if there is one to kill.
\<close>

datatype reclaim_job =
    ReleaseThen string "string option"
  | KillOnly string

record host_core =
  hc_capacity :: ledger
  hc_tickets :: ticket_store
  hc_forwardPorts :: forward_ports
  hc_leases :: lease_manager
  hc_overlayDiskBytes :: js_number
  hc_bridgeFactory :: bool
  hc_agentVsockPort :: js_number
  hc_tunnels :: "(string, nat list) jsmap"
  hc_sandboxes :: "(string, sandbox_entry) jsmap"
  hc_leaseToSandbox :: "(string, string) jsmap"
  hc_forwardLeases :: "(string, int list) jsmap"
  hc_pending :: "reclaim_job list"
  hc_epoch :: int

definition new_host_core :: "ledger \<Rightarrow> ticket_store \<Rightarrow> forward_ports \<Rightarrow> js_number option \<Rightarrow> bool
    \<Rightarrow> js_number \<Rightarrow> host_core" where
  "new_host_core cap tks ports overlayDiskBytes bridge vsockPort =
     \<lparr>hc_capacity = cap, hc_tickets = tks, hc_forwardPorts = ports,
      hc_leases = \<lparr>lm_maxExtendMs = DEFAULT_MAX_EXTEND_MS, lm_leases = []\<rparr>,
      hc_overlayDiskBytes = orElse overlayDiskBytes (NumInt DEFAULT_OVERLAY_DISK_BYTES),
      hc_bridgeFactory = bridge, hc_agentVsockPort = vsockPort, hc_tunnels = [], hc_sandboxes = [],
      hc_leaseToSandbox = [], hc_forwardLeases = [], hc_pending = [], hc_epoch = 0\<rparr>"

subsection \<open>Helpers\<close>

definition isTerminal :: "sandbox_state \<Rightarrow> bool" where
  "isTerminal s = (s = Terminated)"

definition requireEntry :: "host_core \<Rightarrow> string \<Rightarrow> host_error + sandbox_entry" where
  "requireEntry c i = (case jm_get (hc_sandboxes c) i of
      None \<Rightarrow> Inl (HostControlError SBX_HOST_NOT_FOUND)
    | Some e \<Rightarrow> Inr e)"

definition validateTimeout :: "lease_timeout \<Rightarrow> host_error + unit" where
  "validateTimeout t = (case t of
      TimeoutDuration d \<Rightarrow> requireE (\<not> (\<not> isSafeInteger d \<or> int_of d \<le> 0)) (HostControlError SBX_HOST_VALIDATION)
    | TimeoutSession \<Rightarrow> Inr ())"

definition deadlineOf :: "sandbox_entry \<Rightarrow> int" where
  "deadlineOf e = (case se_timeout e of
      TimeoutDuration d \<Rightarrow> se_createdAtUnixMs e + int_of d
    | TimeoutSession \<Rightarrow> 0)"

definition snapshotSandbox :: "sandbox_entry \<Rightarrow> sandbox_snapshot" where
  "snapshotSandbox e = \<lparr>ss_id = se_id e, ss_state = se_state e, ss_createdAtUnixMs = se_createdAtUnixMs e,
     ss_deadlineUnixMs = deadlineOf e, ss_labels = se_labels e, ss_region = se_region e,
     ss_bootNonce = se_bootNonce e, ss_liveLeases = se_liveLeases e,
     ss_terminationReason = se_terminationReason e\<rparr>"

definition snapshotLease :: "lease \<Rightarrow> lease_timeout \<Rightarrow> bytes \<Rightarrow> lease_snapshot" where
  "snapshotLease l t secret = \<lparr>lsn_id = ls_id l, lsn_generation = ls_generation l,
     lsn_resumeSecret = secret, lsn_expiresAtUnixMs = orElse (ls_deadlineUnixMs l) 0, lsn_timeout = t\<rparr>"

text \<open>\<open>defaultIdSuffix\<close> on the bytes it drew.\<close>

definition defaultIdSuffix :: "bytes \<Rightarrow> string" where
  "defaultIdSuffix bs = map (\<lambda>z. ID_ALPHABET ! (unat z mod length ID_ALPHABET)) bs"

text \<open>The loop \<open>diff |= left[i] ^ right[i]\<close>, with \<open>i\<close> running up to the length.\<close>

fun diff_loop :: "bytes \<Rightarrow> bytes \<Rightarrow> byte \<Rightarrow> byte" where
  "diff_loop (x # xs) (y # ys) diff = diff_loop xs ys (or diff (xor x y))"
| "diff_loop _ _ diff = diff"

definition constantTimeEqual :: "bytes \<Rightarrow> bytes \<Rightarrow> bool" where
  "constantTimeEqual l r = (if length l \<noteq> length r then False else diff_loop l r 0 = 0)"

definition mapLeaseError :: "lease_error + 'a \<Rightarrow> host_error + 'a" where
  "mapLeaseError r = (case r of
      Inr x \<Rightarrow> Inr x
    | Inl SBX_LEASE_NOT_FOUND \<Rightarrow> Inl (HostControlError SBX_HOST_NOT_FOUND)
    | Inl SBX_LEASE_EXPIRED \<Rightarrow> Inl (HostControlError SBX_HOST_STATE)
    | Inl SBX_LEASE_KIND \<Rightarrow> Inl (HostControlError SBX_HOST_STATE)
    | Inl SBX_LEASE_INVALID \<Rightarrow> Inl (HostControlError SBX_HOST_VALIDATION))"

subsection \<open>Forward leases and tunnels of a sandbox\<close>

definition releaseForwardPorts :: "string \<Rightarrow> host_core \<Rightarrow> host_core" where
  "releaseForwardPorts sandboxId c = (case jm_get (hc_forwardLeases c) sandboxId of
      None \<Rightarrow> c
    | Some ports \<Rightarrow> c\<lparr>hc_forwardLeases := jm_delete sandboxId (hc_forwardLeases c),
        hc_forwardPorts := fold port_release ports (hc_forwardPorts c)\<rparr>)"

definition recordForwardLease :: "string \<Rightarrow> int \<Rightarrow> host_core \<Rightarrow> host_core" where
  "recordForwardLease sandboxId hostPort c =
     (let leased = orElse (jm_get (hc_forwardLeases c) sandboxId) []
      in c\<lparr>hc_forwardLeases := jm_set sandboxId
             (if hostPort \<in> set leased then leased else leased @ [hostPort]) (hc_forwardLeases c)\<rparr>)"

definition releaseForwardLease :: "string \<Rightarrow> int \<Rightarrow> host_core \<Rightarrow> host_core" where
  "releaseForwardLease sandboxId hostPort c = (case jm_get (hc_forwardLeases c) sandboxId of
      None \<Rightarrow> c
    | Some leased \<Rightarrow>
        if hostPort \<notin> set leased then c
        else (let rest = filter (\<lambda>q. q \<noteq> hostPort) leased
              in c\<lparr>hc_forwardLeases := (if rest = [] then jm_delete sandboxId (hc_forwardLeases c)
                     else jm_set sandboxId rest (hc_forwardLeases c)),
                   hc_forwardPorts := port_release hostPort (hc_forwardPorts c)\<rparr>))"

definition closeTunnels :: "string \<Rightarrow> host_core \<Rightarrow> host_core \<times> host_call list" where
  "closeTunnels sandboxId c = (case jm_get (hc_tunnels c) sandboxId of
      None \<Rightarrow> (c, [])
    | Some handles \<Rightarrow> (c\<lparr>hc_tunnels := jm_delete sandboxId (hc_tunnels c)\<rparr>, map CallCloseRoute handles))"

definition trackTunnel :: "string \<Rightarrow> nat \<Rightarrow> host_core \<Rightarrow> host_core" where
  "trackTunnel sandboxId handle c =
     (let hs = orElse (jm_get (hc_tunnels c) sandboxId) []
      in c\<lparr>hc_tunnels := jm_set sandboxId (if handle \<in> set hs then hs else hs @ [handle]) (hc_tunnels c)\<rparr>)"

text \<open>The callback \<open>forget\<close> of a route that finished.\<close>

definition forgetTunnel :: "string \<Rightarrow> nat \<Rightarrow> host_core \<Rightarrow> host_core" where
  "forgetTunnel sandboxId handle c = (case jm_get (hc_tunnels c) sandboxId of
      None \<Rightarrow> c
    | Some hs \<Rightarrow>
        (let rest = filter (\<lambda>h. h \<noteq> handle) hs
         in c\<lparr>hc_tunnels := (if rest = [] then jm_delete sandboxId (hc_tunnels c)
                else jm_set sandboxId rest (hc_tunnels c))\<rparr>))"

subsection \<open>The single kill path\<close>

definition onLeaseExpire :: "string \<Rightarrow> host_core \<Rightarrow> host_core \<times> host_call list" where
  "onLeaseExpire sandboxId c = (case jm_get (hc_sandboxes c) sandboxId of
      None \<Rightarrow> (c, [])
    | Some e \<Rightarrow>
        if isTerminal (se_state e) then (c, [])
        else
          (let e' = e\<lparr>se_state := Terminated, se_liveLeases := 0,
                 se_terminationReason := (if se_terminationReason e = [] then ''lease-expired''
                   else se_terminationReason e)\<rparr>;
               c1 = c\<lparr>hc_sandboxes := jm_set sandboxId e' (hc_sandboxes c),
                      hc_leaseToSandbox := jm_delete (se_currentLeaseId e) (hc_leaseToSandbox c),
                      hc_tickets := fst (revokeSandbox (se_id e) (hc_tickets c))\<rparr>;
               r = closeTunnels (se_id e) c1;
               c2 = releaseForwardPorts (se_id e) (fst r)
           in (c2\<lparr>hc_pending := hc_pending c2 @ [ReleaseThen (rs_id (se_reservation e)) (Some (se_executionId e))]\<rparr>,
               snd r)))"

fun expire_all :: "string list \<Rightarrow> host_core \<Rightarrow> host_core \<times> host_call list" where
  "expire_all [] c = (c, [])"
| "expire_all (s # ss) c =
     (let r = onLeaseExpire s c; r' = expire_all ss (fst r) in (fst r', snd r @ snd r'))"

text \<open>A new lease manager and the sandboxes it passed to the hook.\<close>

definition with_leases :: "host_core \<Rightarrow> lease_manager \<times> string list \<Rightarrow> host_core \<times> host_call list" where
  "with_leases c r = expire_all (snd r) (c\<lparr>hc_leases := fst r\<rparr>)"

subsection \<open>create\<close>

record create_frame =
  cf_input :: create_input
  cf_connectionSignal :: "nat option"
  cf_suffix :: string
  cf_bootNonce :: bytes
  cf_idempotencyKey :: bytes
  cf_epoch :: int
  cf_request :: reservation_request

definition sandbox_id :: "string \<Rightarrow> string" where
  "sandbox_id suffix = ''sbx_loc_'' @ suffix"

definition execution_id :: "string \<Rightarrow> string" where
  "execution_id suffix = ''exec-'' @ suffix"

definition positive :: "js_double \<Rightarrow> bool" where
  "positive x = (case x of Fin q \<Rightarrow> 0 < q | PosInf \<Rightarrow> True | _ \<Rightarrow> False)"

definition times_mib :: "js_double \<Rightarrow> js_double" where
  "times_mib x = (case x of Fin q \<Rightarrow> Fin (q * MIB) | _ \<Rightarrow> x)"

text \<open>Up to the reservation: nothing is committed yet.\<close>

definition create_begin :: "host_core \<Rightarrow> create_input \<Rightarrow> nat option \<Rightarrow> string \<Rightarrow> bytes \<Rightarrow> bytes
    \<Rightarrow> host_error + create_frame" where
  "create_begin c input signal suffix bootNonce drawnKey =
     bindE (validateTimeout (ci_timeout input)) (\<lambda>_.
       if ci_timeout input = TimeoutSession \<and> signal = None then Inl (HostControlError SBX_HOST_VALIDATION)
       else
         (let memoryMiB = (if positive (ci_memoryMiB input) then ci_memoryMiB input else Fin DEFAULT_MEMORY_MIB)
          in Inr \<lparr>cf_input = input, cf_connectionSignal = signal, cf_suffix = suffix, cf_bootNonce = bootNonce,
                  cf_idempotencyKey = (if IDEMPOTENCY_KEY_BYTES \<le> length (ci_idempotencyKey input)
                     then ci_idempotencyKey input else drawnKey),
                  cf_epoch = hc_epoch c,
                  cf_request = \<lparr>rq_memory = MemNumber (times_mib memoryMiB),
                     rq_diskBytes = hc_overlayDiskBytes c, rq_ports = None\<rparr>\<rparr>))"

text \<open>After the reservation: the call to rootd, unless hostd restarted meanwhile.\<close>

definition create_launch :: "host_core \<Rightarrow> create_frame \<Rightarrow> host_error + launch_args" where
  "create_launch c f =
     (if hc_epoch c \<noteq> cf_epoch f then Inl (HostControlError SBX_HOST_STATE)
      else Inr \<lparr>la_sandboxId = ''sbx-loc-'' @ cf_suffix f, la_executionId = execution_id (cf_suffix f),
                la_artifactId = ''artifact-loc'', la_allocationId = ''alloc-'' @ cf_suffix f,
                la_bootNonce = cf_bootNonce f, la_idempotencyKey = cf_idempotencyKey f,
                la_allowNet = ci_allowNet (cf_input f), la_netless = ci_netless (cf_input f),
                la_vcpus = ci_vcpus (cf_input f)\<rparr>)"

text \<open>What the piece after the launch reads and draws.\<close>

record create_env =
  ce_ownerSecret :: bytes
  ce_createdAt :: int
  ce_leaseId :: string
  ce_aborted :: "nat \<Rightarrow> bool"
  ce_now :: int
  ce_timerNow :: int
  ce_resumeSecret :: bytes

definition create_entry :: "create_frame \<Rightarrow> reservation \<Rightarrow> create_env \<Rightarrow> sandbox_entry" where
  "create_entry f r v = \<lparr>se_id = sandbox_id (cf_suffix f), se_rootdSandboxId = ''sbx-loc-'' @ cf_suffix f,
     se_executionId = execution_id (cf_suffix f), se_state = Running, se_createdAtUnixMs = ce_createdAt v,
     se_labels = ci_labels (cf_input f), se_region = ci_region (cf_input f), se_bootNonce = cf_bootNonce f,
     se_reservation = r, se_ownerSecret = ce_ownerSecret v, se_currentLeaseId = [], se_liveLeases = 1,
     se_timeout = ci_timeout (cf_input f), se_terminationReason = []\<rparr>"

definition create_register :: "host_core \<Rightarrow> create_frame \<Rightarrow> reservation \<Rightarrow> create_env
    \<Rightarrow> (host_core \<times> host_call list) \<times> (host_error + sandbox_snapshot \<times> bytes \<times> lease_snapshot)" where
  "create_register c f r v =
     (if hc_epoch c \<noteq> cf_epoch f then ((c, []), Inl (HostControlError SBX_HOST_STATE))
      else
        (let i = sandbox_id (cf_suffix f);
             entry = create_entry f r v;
             made = lease_create (hc_leases c)
               \<lparr>cs_sandboxId = i, cs_timeout = ci_timeout (cf_input f),
                cs_connectionSignal = cf_connectionSignal f, cs_id = None\<rparr>
               (ce_leaseId v) (ce_aborted v) (ce_now v) (ce_timerNow v);
             w = with_leases c (fst made, fst (snd made))
         in case snd (snd made) of
              Inl e \<Rightarrow> (w, Inl (HostLeaseError e))
            | Inr l \<Rightarrow>
                (let entry' = entry\<lparr>se_currentLeaseId := ls_id l\<rparr>
                 in (((fst w)\<lparr>hc_sandboxes := jm_set i entry' (hc_sandboxes (fst w)),
                         hc_leaseToSandbox := jm_set (ls_id l) i (hc_leaseToSandbox (fst w))\<rparr>, snd w),
                     Inr (snapshotSandbox entry', ce_ownerSecret v,
                          snapshotLease l (ci_timeout (cf_input f)) (ce_resumeSecret v))))))"

text \<open>The handler of a failure after the reservation: what it schedules.\<close>

definition create_rollback :: "host_core \<Rightarrow> create_frame \<Rightarrow> reservation \<Rightarrow> bool \<Rightarrow> reclaim_job" where
  "create_rollback c f r launched =
     (let restarted = (hc_epoch c \<noteq> cf_epoch f)
      in ReleaseThen (rs_id r) (if launched \<and> \<not> restarted then Some (execution_id (cf_suffix f)) else None))"

subsection \<open>attach, list, metadata, usage\<close>

definition attach :: "host_core \<Rightarrow> string \<Rightarrow> bytes \<Rightarrow> host_error + sandbox_snapshot \<times> lease_snapshot" where
  "attach c i ownerSecret =
     bindE (requireEntry c i) (\<lambda>e.
       if \<not> constantTimeEqual ownerSecret (se_ownerSecret e) then Inl (HostControlError SBX_HOST_PERMISSION)
       else if isTerminal (se_state e) then Inl (HostControlError SBX_HOST_STATE)
       else (case lease_get (hc_leases c) (se_currentLeaseId e) of
           None \<Rightarrow> Inl (HostControlError SBX_HOST_STATE)
         | Some l \<Rightarrow> Inr (snapshotSandbox e, snapshotLease l (se_timeout e) [])))"

definition host_list :: "host_core \<Rightarrow> sandbox_snapshot list" where
  "host_list c = map (\<lambda>x. snapshotSandbox (snd x)) (hc_sandboxes c)"

definition metadata :: "host_core \<Rightarrow> string \<Rightarrow> host_error + sandbox_snapshot" where
  "metadata c i = bindE (requireEntry c i) (\<lambda>e. Inr (snapshotSandbox e))"

subsection \<open>exposeHttp\<close>

record expose_frame =
  ef_sandboxId :: string
  ef_executionId :: string
  ef_guestPort :: js_number
  ef_hostPort :: int

definition expose_begin :: "host_core \<Rightarrow> string \<Rightarrow> js_number \<Rightarrow> host_error + host_core \<times> expose_frame" where
  "expose_begin c i guestPort =
     bindE (requireEntry c i) (\<lambda>e.
       if isTerminal (se_state e) then Inl (HostControlError SBX_HOST_STATE)
       else if lease_get (hc_leases c) (se_currentLeaseId e) = None then Inl (HostControlError SBX_HOST_STATE)
       else if \<not> isInteger guestPort \<or> int_of guestPort < 1 \<or> int_of guestPort > 65535
       then Inl (HostControlError SBX_HOST_VALIDATION)
       else bindE (port_allocate (hc_forwardPorts c)) (\<lambda>(ports, hostPort).
         Inr (recordForwardLease i hostPort (c\<lparr>hc_forwardPorts := ports\<rparr>),
              \<lparr>ef_sandboxId = i, ef_executionId = se_executionId e, ef_guestPort = guestPort,
               ef_hostPort = hostPort\<rparr>)))"

definition expose_call :: "expose_frame \<Rightarrow> host_call" where
  "expose_call f = CallExposeHttp (ef_executionId f) (ef_guestPort f) (ef_hostPort f)"

definition expose_failed :: "expose_frame \<Rightarrow> host_core \<Rightarrow> host_core" where
  "expose_failed f c = releaseForwardLease (ef_sandboxId f) (ef_hostPort f) c"

definition expose_result :: "expose_frame \<Rightarrow> js_number \<times> int \<times> string" where
  "expose_result f = (ef_guestPort f, ef_hostPort f, ''http://127.0.0.1:'' @ dec (nat (ef_hostPort f)))"

subsection \<open>openTunnel\<close>

text \<open>
  The pieces of \<open>openTunnel\<close>: the checks, then (router bound, bridge reserved) the ticket, then the
  registration of the route. A bridge reservation and a route are numbers the other side chose.
\<close>

record tunnel_frame =
  tf_sandboxId :: string
  tf_request :: bridge_request
  tf_binding :: tunnel_binding
  tf_bridge :: nat
  tf_ticket :: "bytes \<times> int"

record tunnel_grant =
  tg_ticket :: bytes
  tg_guestPort :: js_number
  tg_expiresAtUnixMs :: int
  tg_sandboxId :: string
  tg_bootNonce :: bytes
  tg_leaseId :: string
  tg_leaseGeneration :: js_number
  tg_agentCredential :: bytes

definition tunnel_begin :: "host_core \<Rightarrow> string \<Rightarrow> host_error + bridge_request \<times> tunnel_binding" where
  "tunnel_begin c i =
     bindE (requireEntry c i) (\<lambda>e.
       if \<not> hc_bridgeFactory c then Inl (HostControlError SBX_HOST_UNIMPLEMENTED)
       else if isTerminal (se_state e) then Inl (HostControlError SBX_HOST_STATE)
       else (case lease_get (hc_leases c) (se_currentLeaseId e) of
           None \<Rightarrow> Inl (HostControlError SBX_HOST_STATE)
         | Some l \<Rightarrow> Inr
             (\<lparr>br_sandboxId = se_id e, br_executionId = se_executionId e, br_guestPort = hc_agentVsockPort c\<rparr>,
              \<lparr>tb_sessionId = se_currentLeaseId e, tb_sandboxId = se_id e, tb_bootNonce = toHex (se_bootNonce e),
               tb_leaseGeneration = NumInt (ls_generation l)\<rparr>)))"

definition tunnel_issue :: "(bytes \<Rightarrow> bytes) \<Rightarrow> (nat \<Rightarrow> bytes) \<Rightarrow> host_core \<Rightarrow> bridge_request \<Rightarrow> tunnel_binding
    \<Rightarrow> nat \<Rightarrow> int \<Rightarrow> int \<Rightarrow> (host_core \<times> host_call list) \<times> (host_error + tunnel_frame)" where
  "tunnel_issue digest draw c q b bridge now1 now2 =
     (let r = issue digest draw (hc_tickets c) b now1 now2; c' = c\<lparr>hc_tickets := fst r\<rparr>
      in case snd r of
           Inl e \<Rightarrow> ((c', [CallCloseBridge bridge]), Inl (HostTicketError e))
         | Inr t \<Rightarrow> ((c', []), Inr \<lparr>tf_sandboxId = br_sandboxId q, tf_request = q, tf_binding = b,
              tf_bridge = bridge, tf_ticket = t\<rparr>))"

definition tunnel_register :: "host_core \<Rightarrow> tunnel_frame \<Rightarrow> nat option \<Rightarrow> bytes \<Rightarrow> bytes
    \<Rightarrow> (host_core \<times> host_call list) \<times> (host_error + tunnel_grant)" where
  "tunnel_register c f handle nonce credential = (case handle of
      None \<Rightarrow> ((c\<lparr>hc_tickets := fst (revokeSandbox (tf_sandboxId f) (hc_tickets c))\<rparr>,
               [CallCloseBridge (tf_bridge f)]), Inl HostGatewayError)
    | Some h \<Rightarrow> ((trackTunnel (tf_sandboxId f) h c, []),
        Inr \<lparr>tg_ticket = fst (tf_ticket f), tg_guestPort = br_guestPort (tf_request f),
             tg_expiresAtUnixMs = snd (tf_ticket f), tg_sandboxId = tf_sandboxId f, tg_bootNonce = nonce,
             tg_leaseId = tb_sessionId (tf_binding f), tg_leaseGeneration = tb_leaseGeneration (tf_binding f),
             tg_agentCredential = credential\<rparr>))"

subsection \<open>Leases, kill and restart\<close>

definition extendTimeout :: "host_core \<Rightarrow> string \<Rightarrow> js_number \<Rightarrow> int \<Rightarrow> int
    \<Rightarrow> host_error + (host_core \<times> host_call list) \<times> (int \<times> int)" where
  "extendTimeout c i ms now now2 =
     bindE (requireEntry c i) (\<lambda>e.
       bindE (mapLeaseError (lease_extendTimeout (hc_leases c) (se_currentLeaseId e) ms now now2)) (\<lambda>(m, out, d).
         let r = with_leases c (m, out); l = lease_get (hc_leases (fst r)) (se_currentLeaseId e)
         in Inr (r, (d, orElse (map_option ls_generation l) 1))))"

definition renewLease :: "host_core \<Rightarrow> string \<Rightarrow> int \<Rightarrow> int
    \<Rightarrow> host_error + (host_core \<times> host_call list) \<times> (int \<times> int)" where
  "renewLease c leaseId now now2 =
     bindE (mapLeaseError (renew (hc_leases c) leaseId (NumInt LEASE_RENEW_MS) now now2)) (\<lambda>(m, out, (_, g, d)).
       Inr (with_leases c (m, out), (g, d)))"

definition mark_reason :: "string \<Rightarrow> string \<Rightarrow> host_core \<Rightarrow> host_core" where
  "mark_reason reason sandboxId c = (case jm_get (hc_sandboxes c) sandboxId of
      Some e \<Rightarrow> if se_terminationReason e = []
        then c\<lparr>hc_sandboxes := jm_set sandboxId (e\<lparr>se_terminationReason := reason\<rparr>) (hc_sandboxes c)\<rparr> else c
    | None \<Rightarrow> c)"

definition releaseLease :: "host_core \<Rightarrow> string \<Rightarrow> host_core \<times> host_call list" where
  "releaseLease c leaseId =
     (let c1 = (case jm_get (hc_leaseToSandbox c) leaseId of
                  Some sandboxId \<Rightarrow> mark_reason ''released'' sandboxId c
                | None \<Rightarrow> c)
      in with_leases c1 (lease_release (hc_leases c1) leaseId))"

definition killSandbox :: "host_core \<Rightarrow> string \<Rightarrow> host_error + host_core \<times> host_call list" where
  "killSandbox c i =
     bindE (requireEntry c i) (\<lambda>e.
       if isTerminal (se_state e) then Inr (c, [])
       else (let c1 = mark_reason ''killed'' i c
             in Inr (with_leases c1 (lease_release (hc_leases c1) (se_currentLeaseId e)))))"

fun revoke_entries :: "sandbox_entry list \<Rightarrow> host_core \<Rightarrow> host_core \<times> host_call list" where
  "revoke_entries [] c = (c, [])"
| "revoke_entries (e # es) c =
     (let c1 = c\<lparr>hc_tickets := fst (revokeSandbox (se_id e) (hc_tickets c))\<rparr>;
          r = closeTunnels (se_id e) c1;
          r' = revoke_entries es (releaseForwardPorts (se_id e) (fst r))
      in (fst r', snd r @ snd r'))"

definition revokeAll :: "host_core \<Rightarrow> host_core \<times> host_call list" where
  "revokeAll c =
     (let c1 = c\<lparr>hc_epoch := hc_epoch c + 1, hc_leases := lease_revokeAll (hc_leases c)\<rparr>;
          r = revoke_entries (map snd (hc_sandboxes c1)) c1
      in ((fst r)\<lparr>hc_leaseToSandbox := []\<rparr>, snd r))"

text \<open>The core's side of \<open>closeAllTunnels\<close>; the router closes its routes itself.\<close>

definition closeAllTunnels :: "host_core \<Rightarrow> host_core" where
  "closeAllTunnels c = c\<lparr>hc_tunnels := []\<rparr>"

text \<open>The callbacks of the lease manager, run by the clock, a closing connection or a microtask.\<close>

definition host_timer :: "host_core \<Rightarrow> string \<Rightarrow> int \<Rightarrow> host_core \<times> host_call list" where
  "host_timer c leaseId now = with_leases c (timer_fire (hc_leases c) leaseId now)"

definition host_abort :: "host_core \<Rightarrow> nat \<Rightarrow> host_core \<times> host_call list" where
  "host_abort c sig = with_leases c (signal_abort (hc_leases c) sig)"

definition host_micro :: "host_core \<Rightarrow> host_core \<times> host_call list" where
  "host_micro c = with_leases c (micro_run (hc_leases c))"

subsection \<open>The forward port allocator meets its contract\<close>

definition port_used :: "forward_ports \<Rightarrow> int \<Rightarrow> bool" where
  "port_used a p = (p \<in> set (fp_used a))"

definition port_valid :: "forward_ports \<Rightarrow> int \<Rightarrow> bool" where
  "port_valid a p = (fp_min a \<le> p \<and> p \<le> fp_max a)"

definition forward_ports_ok :: "forward_ports \<Rightarrow> bool" where
  "forward_ports_ok a = (distinct (fp_used a) \<and> (\<forall>p \<in> set (fp_used a). port_valid a p))"

lemma port_allocate_Inr:
  assumes "port_allocate a = Inr (a', p)"
  shows "port_valid a p \<and> \<not> port_used a p \<and> (\<forall>q. port_valid a q \<and> q < p \<longrightarrow> port_used a q)
    \<and> a' = a\<lparr>fp_used := fp_used a @ [p]\<rparr>"
proof -
  from assms have f: "first_from (\<lambda>port. port \<notin> set (fp_used a)) (fp_min a) (fp_max a + 1) = Some p"
    and a': "a' = a\<lparr>fp_used := fp_used a @ [p]\<rparr>"
    by (auto simp: port_allocate_def split: option.splits)
  from first_from_Some [OF f] a' show ?thesis by (auto simp: port_valid_def port_used_def)
qed

lemma port_allocate_step:
  assumes "forward_ports_ok a" and "port_allocate a = Inr (a', p)"
  shows "port_valid a p \<and> \<not> port_used a p \<and> (\<forall>q. port_valid a q \<and> q < p \<longrightarrow> port_used a q)
    \<and> port_used a' = (port_used a)(p := True) \<and> port_valid a' = port_valid a \<and> forward_ports_ok a'"
proof (intro conjI)
  note p = port_allocate_Inr [OF assms(2)]
  show "port_valid a p" and "\<not> port_used a p" and "\<forall>q. port_valid a q \<and> q < p \<longrightarrow> port_used a q"
    using p by blast+
  have a': "a' = a\<lparr>fp_used := fp_used a @ [p]\<rparr>" using p by blast
  show "port_used a' = (port_used a)(p := True)" by (auto simp: a' port_used_def fun_eq_iff)
  show v: "port_valid a' = port_valid a" by (simp add: a' port_valid_def fun_eq_iff)
  show "forward_ports_ok a'" using assms(1) p v by (auto simp: a' forward_ports_ok_def port_used_def)
qed

interpretation fwd: lowest_free port_used port_allocate "\<lambda>p. p" port_release port_valid forward_ports_ok
proof
  fix a a' :: forward_ports and p e n
  show "forward_ports_ok a \<Longrightarrow> port_allocate a = Inr (a', p) \<Longrightarrow>
      port_valid a p \<and> \<not> port_used a p \<and> (\<forall>m. port_valid a m \<and> m < p \<longrightarrow> port_used a m)
      \<and> port_used a' = (port_used a)(p := True) \<and> port_valid a' = port_valid a \<and> forward_ports_ok a'"
    by (rule port_allocate_step)
  show "forward_ports_ok a \<Longrightarrow> port_allocate a = Inl e \<Longrightarrow> \<forall>m. port_valid a m \<longrightarrow> port_used a m"
    by (auto simp: port_allocate_def first_from_None port_valid_def port_used_def split: option.splits)
  show "forward_ports_ok a \<Longrightarrow> port_valid a n \<Longrightarrow>
      port_used (port_release n a) = (port_used a)(n := False)
      \<and> port_valid (port_release n a) = port_valid a \<and> forward_ports_ok (port_release n a)"
    by (auto simp: forward_ports_ok_def port_release_def port_used_def port_valid_def fun_eq_iff)
qed

lemma new_ports_ok: "new_forward_ports mn mx = Inr a \<Longrightarrow> forward_ports_ok a \<and> fp_used a = []"
  by (auto simp: new_forward_ports_def Let_def forward_ports_ok_def split: if_splits)

lemma fold_port_release:
  "fold port_release ps a = a\<lparr>fp_used := filter (\<lambda>q. q \<notin> set ps) (fp_used a)\<rparr>"
proof (induction ps arbitrary: a)
  case (Cons p ps)
  have "filter (\<lambda>q. q \<notin> set ps) (filter (\<lambda>q. q \<noteq> p) (fp_used a)) = filter (\<lambda>q. q \<notin> set (p # ps)) (fp_used a)"
    by (simp only: filter_filter) (rule filter_cong, auto)
  then show ?case by (simp only: fold_simps o_apply Cons.IH) (simp add: port_release_def)
qed (simp add: filter_True)

text \<open>
  The ports in use are exactly those recorded for the sandboxes, each one once, and every sandbox that
  holds one is known and not terminated.
\<close>

definition forward_ok :: "host_core \<Rightarrow> bool" where
  "forward_ok c = (forward_ports_ok (hc_forwardPorts c) \<and> jm_ok (hc_forwardLeases c)
     \<and> mset (fp_used (hc_forwardPorts c)) = jm_total mset (hc_forwardLeases c))"

definition forward_live :: "host_core \<Rightarrow> bool" where
  "forward_live c = (\<forall>s. jm_get (hc_forwardLeases c) s \<noteq> None \<longrightarrow>
     (\<exists>e. jm_get (hc_sandboxes c) s = Some e \<and> \<not> isTerminal (se_state e)))"

lemma releaseForwardPorts_get:
  "jm_get (hc_forwardLeases (releaseForwardPorts s c)) = (jm_get (hc_forwardLeases c))(s := None)"
  by (auto simp: releaseForwardPorts_def jm_get_delete fun_eq_iff split: option.split)

lemma ports_ok_filter: "forward_ports_ok a \<Longrightarrow> forward_ports_ok (a\<lparr>fp_used := filter P (fp_used a)\<rparr>)"
  by (auto simp: forward_ports_ok_def port_valid_def)

lemma releaseForwardPorts_ok:
  assumes "forward_ok c"
  shows "forward_ok (releaseForwardPorts s c)"
proof (cases "jm_get (hc_forwardLeases c) s")
  case None
  with assms show ?thesis by (simp add: releaseForwardPorts_def)
next
  case (Some ps)
  from assms have ok: "jm_ok (hc_forwardLeases c)" "distinct (fp_used (hc_forwardPorts c))"
    and ms: "mset (fp_used (hc_forwardPorts c)) = jm_total mset (hc_forwardLeases c)"
    by (auto simp: forward_ok_def forward_ports_ok_def)
  have "mset (fp_used (hc_forwardPorts c)) = mset ps + jm_total mset (jm_delete s (hc_forwardLeases c))"
    using ms jm_total_delete [OF ok(1) Some, of mset] by simp
  from filter_disjoint_mset [OF ok(2) this] show ?thesis
    using assms ok(1) by (simp add: releaseForwardPorts_def Some forward_ok_def fold_port_release
        ports_ok_filter jm.ok_remove)
qed

lemma jm_total_set:
  "jm_ok m \<Longrightarrow> jm_total f (jm_set k v m) = f v + jm_total f (jm_delete k m)"
  using jm_total_delete [of "jm_set k v m" k v f] by (simp add: jm_ok_set jm_get_set jm_delete_set)

lemma recordForwardLease_ok:
  assumes "forward_ok c" and "port_allocate (hc_forwardPorts c) = Inr (a, p)"
  shows "forward_ok (recordForwardLease s p (c\<lparr>hc_forwardPorts := a\<rparr>))"
proof -
  let ?l = "hc_forwardLeases c" and ?ps = "orElse (jm_get (hc_forwardLeases c) s) []"
  have ok: "jm_ok ?l" "forward_ports_ok (hc_forwardPorts c)"
    and ms: "mset (fp_used (hc_forwardPorts c)) = jm_total mset ?l"
    using assms(1) by (auto simp: forward_ok_def)
  note p = port_allocate_Inr [OF assms(2)]
  have old: "jm_total mset ?l = mset ?ps + jm_total mset (jm_delete s ?l)"
    by (cases "jm_get ?l s") (simp_all add: jm_delete_absent jm_total_delete [OF ok(1)])
  have "p \<notin># mset (fp_used (hc_forwardPorts c))" using p by (simp add: port_used_def)
  then have "p \<notin> set ?ps" unfolding ms old by auto
  then have "jm_total mset (jm_set s (if p \<in> set ?ps then ?ps else ?ps @ [p]) ?l)
      = add_mset p (jm_total mset ?l)"
    using jm_total_set [OF ok(1), of mset s] old by simp
  moreover have "forward_ports_ok a" using fwd.alloc_Inr [OF ok(2) assms(2)] by simp
  ultimately show ?thesis
    using ok p ms by (simp add: forward_ok_def recordForwardLease_def Let_def jm.ok_insert)
qed

lemma releaseForwardLease_ok:
  assumes "forward_ok c"
  shows "forward_ok (releaseForwardLease s p c)"
proof (cases "jm_get (hc_forwardLeases c) s")
  case (Some ps)
  let ?l = "hc_forwardLeases c" and ?rest = "filter (\<lambda>q. q \<noteq> p) ps"
  from assms have ok: "jm_ok ?l" "distinct (fp_used (hc_forwardPorts c))"
    and ms: "mset (fp_used (hc_forwardPorts c)) = mset ps + jm_total mset (jm_delete s ?l)"
    using jm_total_delete [OF _ Some, of mset] by (auto simp: forward_ok_def forward_ports_ok_def)
  show ?thesis
  proof (cases "p \<in> set ps")
    case True
    have "distinct ps"
      using ok(2) ms by (metis distinct_append mset_append ex_mset distinct_count_atmost_1 mset_eq_imp_distinct_iff)
    then have "remove1 p ps = ?rest"
      by (simp add: distinct_remove1_removeAll removeAll_filter_not_eq eq_commute)
    then have ps: "mset ps = add_mset p (mset ?rest)"
      using True by (metis insert_DiffM mset_remove1 set_mset_mset)
    then have "mset (fp_used (hc_forwardPorts c)) = mset [p] + (mset ?rest + jm_total mset (jm_delete s ?l))"
      using ms by simp
    from filter_disjoint_mset [OF ok(2) this]
    have "mset (filter (\<lambda>q. q \<noteq> p) (fp_used (hc_forwardPorts c)))
        = mset ?rest + jm_total mset (jm_delete s ?l)" by (simp only: set_simps singleton_iff)
    moreover have "jm_total mset (if ?rest = [] then jm_delete s ?l else jm_set s ?rest ?l)
        = mset ?rest + jm_total mset (jm_delete s ?l)"
      by (simp add: jm_total_set [OF ok(1)] del: mset_filter)
    ultimately show ?thesis
      using assms True ok(1)
      by (simp add: releaseForwardLease_def Some Let_def forward_ok_def port_release_def ports_ok_filter
          jm.ok_remove jm.ok_insert del: mset_filter)
  qed (use assms Some in \<open>simp add: releaseForwardLease_def\<close>)
qed (use assms in \<open>simp add: releaseForwardLease_def\<close>)

end
