(* ===== verification/Host_Machine.thy ===== *)
theory Host_Machine
  imports Host_Control
begin

text \<open>
  The host control plane as a state machine: the pieces of \<open>Host_Control\<close> interleave in any order, with
  the creates, the exposures and the tunnels that are in flight and the reclaims that are pending.

  \<open>hm_calls\<close> is the sequence of calls the core made to rootd and the router, \<open>hm_drawn\<close> the sandbox id
  suffixes drawn so far. The draws are taken to be fresh: a sandbox id suffix was not drawn before
  (twenty random characters), the id of a reservation is not in use (\<open>crypto.randomUUID\<close>).
\<close>

subsection \<open>The machine\<close>

datatype create_stage = AwaitReserve | Reserved reservation | AwaitLaunch reservation

datatype tunnel_stage =
    AwaitRouter bridge_request tunnel_binding
  | AwaitBridge bridge_request tunnel_binding
  | AwaitRegister tunnel_frame

record host_machine =
  hm_core :: host_core
  hm_creates :: "(create_frame \<times> create_stage) list"
  hm_exposes :: "expose_frame list"
  hm_tunnels :: "tunnel_stage list"
  hm_calls :: "host_call list"
  hm_drawn :: "string list"

definition apply_core :: "host_machine \<Rightarrow> host_core \<times> host_call list \<Rightarrow> host_machine" where
  "apply_core m r = m\<lparr>hm_core := fst r, hm_calls := hm_calls m @ snd r\<rparr>"

definition enqueue :: "reclaim_job \<Rightarrow> host_core \<Rightarrow> host_core" where
  "enqueue j c = c\<lparr>hc_pending := hc_pending c @ [j]\<rparr>"

text \<open>The calls that run to their end at once: on leases and sandboxes, and the callbacks.\<close>

inductive core_step :: "host_core \<Rightarrow> host_core \<times> host_call list \<Rightarrow> bool" where
  extend: "extendTimeout c i ms now now2 = Inr (r, x) \<Longrightarrow> core_step c r"
| renew: "renewLease c l now now2 = Inr (r, x) \<Longrightarrow> core_step c r"
| release: "core_step c (releaseLease c l)"
| kill: "killSandbox c i = Inr r \<Longrightarrow> core_step c r"
| timer: "core_step c (host_timer c l now)"
| abort: "core_step c (host_abort c sig)"
| micro: "core_step c (host_micro c)"
| authorize: "authorizeAndOpen digest (hc_tickets c) ticket b q aborted now = (st, x) \<Longrightarrow>
    core_step c (c\<lparr>hc_tickets := st\<rparr>, [])"
| route_end: "core_step c (forgetTunnel i h c, [])"
| close_all: "core_step c (closeAllTunnels c, [])"

datatype host_event =
    HCreate create_frame
  | HReserve create_frame
  | HLaunch create_frame
  | HCreated create_frame
  | HCreateFailed create_frame
  | HExpose expose_frame
  | HExposed expose_frame
  | HExposeFailed expose_frame
  | HTunnel string
  | HSync
  | HRestart
  | HReclaim reclaim_job

inductive host_step :: "host_machine \<Rightarrow> host_event \<Rightarrow> host_machine \<Rightarrow> bool" where
  create: "create_begin (hm_core m) input sig suffix nonce key = Inr f \<Longrightarrow> suffix \<notin> set (hm_drawn m) \<Longrightarrow>
    host_step m (HCreate f)
      (m\<lparr>hm_creates := hm_creates m @ [(f, AwaitReserve)], hm_drawn := hm_drawn m @ [suffix]\<rparr>)"
| reserve_ok: "hm_creates m = xs @ (f, AwaitReserve) # ys \<Longrightarrow>
    jm_get (cl_reservations (hc_capacity (hm_core m))) fresh = None \<Longrightarrow>
    reserve (hc_capacity (hm_core m)) (cf_request f) barrier fresh = (l, Inr r) \<Longrightarrow>
    host_step m (HReserve f)
      (m\<lparr>hm_core := (hm_core m)\<lparr>hc_capacity := l\<rparr>, hm_creates := xs @ (f, Reserved r) # ys\<rparr>)"
| reserve_fail: "hm_creates m = xs @ (f, AwaitReserve) # ys \<Longrightarrow>
    reserve (hc_capacity (hm_core m)) (cf_request f) barrier fresh = (l, Inl e) \<Longrightarrow>
    host_step m (HCreateFailed f)
      (m\<lparr>hm_core := (hm_core m)\<lparr>hc_capacity := l\<rparr>, hm_creates := xs @ ys\<rparr>)"
| launch: "hm_creates m = xs @ (f, Reserved r) # ys \<Longrightarrow> create_launch (hm_core m) f = Inr a \<Longrightarrow>
    host_step m (HLaunch f)
      (m\<lparr>hm_creates := xs @ (f, AwaitLaunch r) # ys, hm_calls := hm_calls m @ [CallLaunch a]\<rparr>)"
| launch_refused: "hm_creates m = xs @ (f, Reserved r) # ys \<Longrightarrow> create_launch (hm_core m) f = Inl e \<Longrightarrow>
    host_step m (HCreateFailed f)
      (m\<lparr>hm_core := enqueue (create_rollback (hm_core m) f r False) (hm_core m), hm_creates := xs @ ys\<rparr>)"
| launch_fail: "hm_creates m = xs @ (f, AwaitLaunch r) # ys \<Longrightarrow>
    host_step m (HCreateFailed f)
      (m\<lparr>hm_core := enqueue (create_rollback (hm_core m) f r False) (hm_core m), hm_creates := xs @ ys\<rparr>)"
| created: "hm_creates m = xs @ (f, AwaitLaunch r) # ys \<Longrightarrow>
    create_register (hm_core m) f r v = (w, Inr x) \<Longrightarrow>
    host_step m (HCreated f) ((apply_core m w)\<lparr>hm_creates := xs @ ys\<rparr>)"
| create_fail: "hm_creates m = xs @ (f, AwaitLaunch r) # ys \<Longrightarrow>
    create_register (hm_core m) f r v = (w, Inl e) \<Longrightarrow>
    host_step m (HCreateFailed f)
      ((apply_core m (enqueue (create_rollback (fst w) f r True) (fst w), snd w))\<lparr>hm_creates := xs @ ys\<rparr>)"
| expose: "expose_begin (hm_core m) i p = Inr (c, f) \<Longrightarrow>
    host_step m (HExpose f)
      (m\<lparr>hm_core := c, hm_exposes := hm_exposes m @ [f], hm_calls := hm_calls m @ [expose_call f]\<rparr>)"
| exposed: "hm_exposes m = xs @ f # ys \<Longrightarrow> host_step m (HExposed f) (m\<lparr>hm_exposes := xs @ ys\<rparr>)"
| expose_fail: "hm_exposes m = xs @ f # ys \<Longrightarrow>
    host_step m (HExposeFailed f)
      (m\<lparr>hm_core := expose_failed f (hm_core m), hm_exposes := xs @ ys\<rparr>)"
| tunnel: "tunnel_begin (hm_core m) i = Inr (q, b) \<Longrightarrow>
    host_step m (HTunnel i) (m\<lparr>hm_tunnels := hm_tunnels m @ [AwaitRouter q b]\<rparr>)"
| tunnel_router: "hm_tunnels m = xs @ AwaitRouter q b # ys \<Longrightarrow>
    host_step m (HTunnel (br_sandboxId q)) (m\<lparr>hm_tunnels := xs @ AwaitBridge q b # ys,
      hm_calls := hm_calls m @ [CallReserveBridge q]\<rparr>)"
| tunnel_fail: "hm_tunnels m = xs @ t # ys \<Longrightarrow> t = AwaitRouter q b \<or> t = AwaitBridge q b \<Longrightarrow>
    host_step m (HTunnel (br_sandboxId q)) (m\<lparr>hm_tunnels := xs @ ys\<rparr>)"
| tunnel_ticket: "hm_tunnels m = xs @ AwaitBridge q b # ys \<Longrightarrow>
    tunnel_issue digest draw (hm_core m) q b bridge now now2 = (w, Inr f) \<Longrightarrow>
    host_step m (HTunnel (br_sandboxId q))
      ((apply_core m w)\<lparr>hm_tunnels := xs @ AwaitRegister f # ys\<rparr>)"
| tunnel_no_ticket: "hm_tunnels m = xs @ AwaitBridge q b # ys \<Longrightarrow>
    tunnel_issue digest draw (hm_core m) q b bridge now now2 = (w, Inl e) \<Longrightarrow>
    host_step m (HTunnel (br_sandboxId q)) ((apply_core m w)\<lparr>hm_tunnels := xs @ ys\<rparr>)"
| tunnel_done: "hm_tunnels m = xs @ AwaitRegister f # ys \<Longrightarrow>
    tunnel_register (hm_core m) f handle nonce credential = (w, x) \<Longrightarrow>
    host_step m (HTunnel (tf_sandboxId f)) ((apply_core m w)\<lparr>hm_tunnels := xs @ ys\<rparr>)"
| sync: "core_step (hm_core m) r \<Longrightarrow> host_step m HSync (apply_core m r)"
| restart: "host_step m HRestart (apply_core m (revokeAll (hm_core m)))"
| reclaim_release: "hc_pending (hm_core m) = xs @ ReleaseThen i k # ys \<Longrightarrow>
    host_step m (HReclaim (ReleaseThen i k)) (m\<lparr>hm_core := (hm_core m)\<lparr>
      hc_capacity := cap_release (hc_capacity (hm_core m)) i,
      hc_pending := xs @ (case k of Some x \<Rightarrow> [KillOnly x] | None \<Rightarrow> []) @ ys\<rparr>\<rparr>)"
| reclaim_kill: "hc_pending (hm_core m) = xs @ KillOnly x # ys \<Longrightarrow>
    host_step m (HReclaim (KillOnly x)) (m\<lparr>hm_core := (hm_core m)\<lparr>hc_pending := xs @ ys\<rparr>,
      hm_calls := hm_calls m @ [CallKill x]\<rparr>)"

definition host_init :: "host_machine \<Rightarrow> bool" where
  "host_init m = (\<exists>b h n cap mn mx ports tks ov br vs.
     new_ledger b h n = Inr cap \<and> new_forward_ports mn mx = Inr ports \<and> tickets_ok tks
     \<and> m = \<lparr>hm_core = new_host_core cap tks ports ov br vs, hm_creates = [], hm_exposes = [],
            hm_tunnels = [], hm_calls = [], hm_drawn = []\<rparr>)"

subsection \<open>Accounting\<close>

text \<open>
  What the core answers for, of one kind: something for every sandbox that is not terminated and
  something for every pending job. Terminating a sandbox turns the one into the other, so the account
  does not change. It is used for reservations and for executions.
\<close>

definition account :: "(sandbox_entry \<Rightarrow> 'a multiset) \<Rightarrow> (reclaim_job \<Rightarrow> 'a multiset) \<Rightarrow> host_core \<Rightarrow> 'a multiset" where
  "account f g c = jm_total (\<lambda>e. if isTerminal (se_state e) then {#} else f e) (hc_sandboxes c)
     + sum_list (map g (hc_pending c))"

definition job_of :: "sandbox_entry \<Rightarrow> reclaim_job" where
  "job_of e = ReleaseThen (rs_id (se_reservation e)) (Some (se_executionId e))"

fun job_reservation :: "reclaim_job \<Rightarrow> string multiset" where
  "job_reservation (ReleaseThen i k) = {#i#}"
| "job_reservation (KillOnly x) = {#}"

fun job_kill :: "reclaim_job \<Rightarrow> string multiset" where
  "job_kill (ReleaseThen i k) = (case k of Some x \<Rightarrow> {#x#} | None \<Rightarrow> {#})"
| "job_kill (KillOnly x) = {#x#}"

definition held :: "host_core \<Rightarrow> string multiset" where
  "held c = account (\<lambda>e. {#rs_id (se_reservation e)#}) job_reservation c"

definition alive :: "host_core \<Rightarrow> string multiset" where
  "alive c = account (\<lambda>e. {#se_executionId e#}) job_kill c"

text \<open>What the helpers of the kill path leave alone.\<close>

lemma closeTunnels_simps [simp]:
  "hc_sandboxes (fst (closeTunnels i c)) = hc_sandboxes c"
  "hc_pending (fst (closeTunnels i c)) = hc_pending c"
  "hc_capacity (fst (closeTunnels i c)) = hc_capacity c"
  "hc_epoch (fst (closeTunnels i c)) = hc_epoch c"
  "hc_leases (fst (closeTunnels i c)) = hc_leases c"
  "hc_tickets (fst (closeTunnels i c)) = hc_tickets c"
  "hc_forwardLeases (fst (closeTunnels i c)) = hc_forwardLeases c"
  "hc_forwardPorts (fst (closeTunnels i c)) = hc_forwardPorts c"
  by (simp_all add: closeTunnels_def split: option.split)

lemma closeTunnels_calls: "x \<in> set (snd (closeTunnels i c)) \<Longrightarrow> \<exists>h. x = CallCloseRoute h"
  by (auto simp: closeTunnels_def split: option.splits)

lemma closeTunnels_get: "jm_get (hc_tunnels (fst (closeTunnels i c))) = (jm_get (hc_tunnels c))(i := None)"
  by (auto simp: closeTunnels_def jm_get_delete fun_eq_iff split: option.split)

lemma releaseForwardPorts_simps [simp]:
  "hc_sandboxes (releaseForwardPorts i c) = hc_sandboxes c"
  "hc_pending (releaseForwardPorts i c) = hc_pending c"
  "hc_capacity (releaseForwardPorts i c) = hc_capacity c"
  "hc_epoch (releaseForwardPorts i c) = hc_epoch c"
  "hc_leases (releaseForwardPorts i c) = hc_leases c"
  "hc_tickets (releaseForwardPorts i c) = hc_tickets c"
  "hc_tunnels (releaseForwardPorts i c) = hc_tunnels c"
  by (simp_all add: releaseForwardPorts_def split: option.split)

definition expired :: "sandbox_entry \<Rightarrow> sandbox_entry" where
  "expired e = e\<lparr>se_state := Terminated, se_liveLeases := 0,
     se_terminationReason := (if se_terminationReason e = [] then ''lease-expired'' else se_terminationReason e)\<rparr>"

lemma expired_simps [simp]:
  "se_id (expired e) = se_id e" "se_state (expired e) = Terminated"
  "se_executionId (expired e) = se_executionId e" "se_reservation (expired e) = se_reservation e"
  "se_currentLeaseId (expired e) = se_currentLeaseId e" "se_liveLeases (expired e) = 0"
  by (simp_all add: expired_def)

lemma isTerminal_Terminated [simp]: "isTerminal Terminated"
  by (simp add: isTerminal_def)

definition dies :: "string \<Rightarrow> host_core \<Rightarrow> sandbox_entry \<Rightarrow> bool" where
  "dies s c e = (jm_get (hc_sandboxes c) s = Some e \<and> \<not> isTerminal (se_state e))"

lemma onLeaseExpire_idle: "(\<And>e. \<not> dies s c e) \<Longrightarrow> onLeaseExpire s c = (c, [])"
  by (auto simp: onLeaseExpire_def dies_def split: option.split)

lemma onLeaseExpire_dies:
  assumes "dies s c e"
  shows "hc_sandboxes (fst (onLeaseExpire s c)) = jm_set s (expired e) (hc_sandboxes c)"
    "hc_pending (fst (onLeaseExpire s c)) = hc_pending c @ [job_of e]"
    "hc_tickets (fst (onLeaseExpire s c)) = fst (revokeSandbox (se_id e) (hc_tickets c))"
    "jm_get (hc_tunnels (fst (onLeaseExpire s c))) = (jm_get (hc_tunnels c))(se_id e := None)"
    "hc_forwardLeases (fst (onLeaseExpire s c)) = hc_forwardLeases (releaseForwardPorts (se_id e) c)"
    "hc_forwardPorts (fst (onLeaseExpire s c)) = hc_forwardPorts (releaseForwardPorts (se_id e) c)"
  using assms
  by (auto simp: onLeaseExpire_def dies_def Let_def expired_def job_of_def closeTunnels_get
      releaseForwardPorts_def split: option.split)

lemma onLeaseExpire_simps [simp]:
  "hc_capacity (fst (onLeaseExpire s c)) = hc_capacity c"
  "hc_epoch (fst (onLeaseExpire s c)) = hc_epoch c"
  "hc_leases (fst (onLeaseExpire s c)) = hc_leases c"
  by (simp_all add: onLeaseExpire_def Let_def split: option.split)

lemma onLeaseExpire_calls: "x \<in> set (snd (onLeaseExpire s c)) \<Longrightarrow> \<exists>h. x = CallCloseRoute h"
  by (auto simp: onLeaseExpire_def Let_def split: option.splits if_splits dest: closeTunnels_calls)

locale account_law =
  fixes f :: "sandbox_entry \<Rightarrow> 'a multiset" and g :: "reclaim_job \<Rightarrow> 'a multiset"
  assumes job: "g (job_of e) = f e"
    and same: "se_reservation e' = se_reservation e \<Longrightarrow> se_executionId e' = se_executionId e \<Longrightarrow> f e' = f e"
begin

lemma account_set:
  assumes "jm_ok (hc_sandboxes c)" and "jm_get (hc_sandboxes c) s = Some e"
    and "(if isTerminal (se_state e') then {#} else f e') + x = (if isTerminal (se_state e) then {#} else f e)"
  shows "jm_total (\<lambda>e. if isTerminal (se_state e) then {#} else f e) (jm_set s e' (hc_sandboxes c)) + x
    = jm_total (\<lambda>e. if isTerminal (se_state e) then {#} else f e) (hc_sandboxes c)"
proof -
  let ?g = "\<lambda>e. if isTerminal (se_state e) then {#} else f e"
  have 1: "jm_total ?g (jm_set s e' (hc_sandboxes c)) = ?g e' + jm_total ?g (jm_delete s (hc_sandboxes c))"
    using jm_total_delete [of "jm_set s e' (hc_sandboxes c)" s e' ?g] assms(1)
    by (simp add: jm_ok_set jm_get_set jm_delete_set)
  have 2: "jm_total ?g (hc_sandboxes c) = ?g e + jm_total ?g (jm_delete s (hc_sandboxes c))"
    by (rule jm_total_delete [OF assms(1,2)])
  have "jm_total ?g (jm_set s e' (hc_sandboxes c)) + x
      = (?g e' + x) + jm_total ?g (jm_delete s (hc_sandboxes c))"
    unfolding 1 by (simp add: ac_simps)
  then show ?thesis unfolding 2 assms(3) by simp
qed

lemma account_expire:
  assumes "jm_ok (hc_sandboxes c)"
  shows "account f g (fst (onLeaseExpire s c)) = account f g c"
proof (cases "\<exists>e. dies s c e")
  case True
  then obtain e where e: "dies s c e" by blast
  then have "jm_get (hc_sandboxes c) s = Some e" and "\<not> isTerminal (se_state e)" by (auto simp: dies_def)
  then show ?thesis
    using account_set [OF assms, of s e "expired e" "f e"]
    by (simp add: account_def onLeaseExpire_dies [OF e] job ac_simps)
next
  case False
  then show ?thesis by (simp add: onLeaseExpire_idle)
qed

end

interpretation held: account_law "\<lambda>e. {#rs_id (se_reservation e)#}" job_reservation
  by unfold_locales (simp_all add: job_of_def)

interpretation alive: account_law "\<lambda>e. {#se_executionId e#}" job_kill
  by unfold_locales (simp_all add: job_of_def)

subsection \<open>What every synchronous call keeps\<close>

definition core_ok :: "host_core \<Rightarrow> bool" where
  "core_ok c = (jm_ok (hc_sandboxes c) \<and> (\<forall>i e. jm_get (hc_sandboxes c) i = Some e \<longrightarrow> se_id e = i)
     \<and> forward_ok c \<and> forward_live c)"

definition pending_kills :: "host_core \<Rightarrow> string multiset" where
  "pending_kills c = sum_list (map job_kill (hc_pending c))"

text \<open>A sandbox stays what it was, or it was terminated and its kill is pending.\<close>

definition entry_goes_on :: "host_core \<Rightarrow> sandbox_entry \<Rightarrow> sandbox_entry \<Rightarrow> bool" where
  "entry_goes_on c' e e' = (se_executionId e' = se_executionId e
     \<and> (isTerminal (se_state e) \<longrightarrow> isTerminal (se_state e'))
     \<and> (isTerminal (se_state e') \<longrightarrow> isTerminal (se_state e) \<or> se_executionId e' \<in># pending_kills c'))"

definition goes_on :: "host_core \<Rightarrow> host_core \<Rightarrow> bool" where
  "goes_on c c' = (pending_kills c \<subseteq># pending_kills c' \<and>
     (\<forall>i e'. jm_get (hc_sandboxes c') i = Some e' \<longrightarrow>
       (\<exists>e. jm_get (hc_sandboxes c) i = Some e \<and> entry_goes_on c' e e')))"

lemma goes_on_trans:
  assumes "goes_on c d" and "goes_on d e"
  shows "goes_on c e"
  unfolding goes_on_def
proof (intro conjI allI impI)
  show "pending_kills c \<subseteq># pending_kills e"
    using assms by (auto simp: goes_on_def intro: subset_mset.order_trans)
  fix i x
  assume "jm_get (hc_sandboxes e) i = Some x"
  then obtain y where y: "jm_get (hc_sandboxes d) i = Some y" "entry_goes_on e y x"
    using assms(2) by (auto simp: goes_on_def)
  then obtain z where z: "jm_get (hc_sandboxes c) i = Some z" "entry_goes_on d z y"
    using assms(1) by (auto simp: goes_on_def)
  have "se_executionId y \<in># pending_kills e" if "se_executionId y \<in># pending_kills d"
    using that assms(2) by (auto simp: goes_on_def dest: mset_subset_eqD)
  then have "entry_goes_on e z x" using y(2) z(2) by (auto simp: entry_goes_on_def)
  with z(1) show "\<exists>z. jm_get (hc_sandboxes c) i = Some z \<and> entry_goes_on e z x" by blast
qed

lemma goes_onD:
  "goes_on c c' \<Longrightarrow> jm_get (hc_sandboxes c') i = Some e' \<Longrightarrow>
   \<exists>e. jm_get (hc_sandboxes c) i = Some e \<and> entry_goes_on c' e e'"
  by (simp add: goes_on_def)

lemma goes_on_same: "hc_sandboxes c' = hc_sandboxes c \<Longrightarrow> hc_pending c' = hc_pending c \<Longrightarrow> goes_on c c'"
  by (auto simp: goes_on_def pending_kills_def entry_goes_on_def)

definition keeps :: "host_core \<Rightarrow> host_core \<Rightarrow> bool" where
  "keeps c c' = (core_ok c \<longrightarrow> core_ok c' \<and> held c' = held c \<and> alive c' = alive c
     \<and> hc_capacity c' = hc_capacity c \<and> hc_epoch c \<le> hc_epoch c'
     \<and> map fst (hc_sandboxes c') = map fst (hc_sandboxes c) \<and> goes_on c c')"

lemma keeps_trans [trans]: "keeps c d \<Longrightarrow> keeps d e \<Longrightarrow> keeps c e"
  unfolding keeps_def using goes_on_trans [of c d e] by auto

lemma keeps_same:
  assumes "hc_sandboxes c' = hc_sandboxes c" "hc_pending c' = hc_pending c" "hc_capacity c' = hc_capacity c"
    "hc_epoch c \<le> hc_epoch c'" "hc_forwardLeases c' = hc_forwardLeases c" "hc_forwardPorts c' = hc_forwardPorts c"
  shows "keeps c c'"
  using assms by (auto simp: keeps_def core_ok_def goes_on_same held_def alive_def account_def forward_ok_def forward_live_def)

lemma map_fst_jm_set: "jm_get m k = Some v \<Longrightarrow> map fst (jm_set k w m) = map fst m"
  by (induction m) (auto simp: jm_get_def split: if_splits)

lemma keeps_expire: "keeps c (fst (onLeaseExpire s c))"
proof (cases "\<exists>e. dies s c e")
  case False
  then show ?thesis by (simp add: onLeaseExpire_idle keeps_same)
next
  case True
  then obtain e where e: "dies s c e" by blast
  then have get: "jm_get (hc_sandboxes c) s = Some e" by (simp add: dies_def)
  note d = onLeaseExpire_dies [OF e]
  let ?c = "fst (onLeaseExpire s c)"
  show ?thesis
    unfolding keeps_def
  proof (intro impI conjI)
    assume ok: "core_ok c"
    then have jm: "jm_ok (hc_sandboxes c)" and id: "se_id e = s" using get by (auto simp: core_ok_def)
    show "held ?c = held c" "alive ?c = alive c"
      unfolding held_def alive_def by (rule held.account_expire [OF jm], rule alive.account_expire [OF jm])
    have "forward_ok ?c"
      using ok releaseForwardPorts_ok [of c s] by (simp add: core_ok_def forward_ok_def d id)
    moreover have "forward_live ?c"
      using ok by (auto simp: core_ok_def forward_live_def d id jm_get_set releaseForwardPorts_get)
    ultimately show "core_ok ?c"
      using ok get id by (auto simp: core_ok_def d jm.ok_insert jm_get_set)
    have "se_executionId e \<in># job_kill (job_of e)" by (simp add: job_of_def)
    then show "goes_on c ?c"
      using get by (auto simp: goes_on_def d jm_get_set entry_goes_on_def pending_kills_def)
    show "map fst (hc_sandboxes ?c) = map fst (hc_sandboxes c)" using get by (simp add: d map_fst_jm_set)
  qed simp_all
qed

lemma keeps_expire_all: "keeps c (fst (expire_all ss c))"
proof (induction ss arbitrary: c)
  case (Cons s ss)
  have "keeps (fst (onLeaseExpire s c)) (fst (expire_all ss (fst (onLeaseExpire s c))))" by (rule Cons.IH)
  with keeps_expire [of c s] show ?case by (auto simp: Let_def intro: keeps_trans)
qed (simp add: keeps_same)

lemma keeps_with_leases: "keeps c (fst (with_leases c r))"
  unfolding with_leases_def
  by (rule keeps_trans [OF keeps_same keeps_expire_all]) simp_all

lemma with_leases_calls: "x \<in> set (snd (with_leases c r)) \<Longrightarrow> \<exists>h. x = CallCloseRoute h"
proof -
  have "x \<in> set (snd (expire_all ss c)) \<Longrightarrow> \<exists>h. x = CallCloseRoute h" for ss and c :: host_core
    by (induction ss arbitrary: c) (auto simp: Let_def dest: onLeaseExpire_calls)
  then show "x \<in> set (snd (with_leases c r)) \<Longrightarrow> \<exists>h. x = CallCloseRoute h" by (simp add: with_leases_def)
qed

lemma with_leases_out: "with_leases c r = (d, xs) \<Longrightarrow> x \<in> set xs \<Longrightarrow> \<exists>h. x = CallCloseRoute h"
  using with_leases_calls [of x c r] by simp

lemma keeps_mark_reason: "keeps c (mark_reason reason s c)"
proof (cases "jm_get (hc_sandboxes c) s")
  case (Some e)
  let ?e = "e\<lparr>se_terminationReason := reason\<rparr>" and ?c = "mark_reason reason s c"
  show ?thesis
  proof (cases "se_terminationReason e = []")
    case True
    have c: "?c = c\<lparr>hc_sandboxes := jm_set s ?e (hc_sandboxes c)\<rparr>"
      using Some True by (simp add: mark_reason_def)
    show ?thesis
      unfolding keeps_def
    proof (intro impI conjI)
      assume ok: "core_ok c"
      then have jm: "jm_ok (hc_sandboxes c)" and id: "se_id e = s" using Some by (auto simp: core_ok_def)
      show "held ?c = held c" "alive ?c = alive c"
        using held.account_set [OF jm Some, of ?e "{#}"] alive.account_set [OF jm Some, of ?e "{#}"]
        by (simp_all add: c held_def alive_def account_def)
      have "forward_live ?c"
        using ok Some by (auto simp: core_ok_def forward_live_def c jm_get_set)
      then show "core_ok ?c"
        using ok Some by (auto simp: core_ok_def c jm.ok_insert jm_get_set forward_ok_def)
      show "goes_on c ?c"
        using Some by (auto simp: goes_on_def c jm_get_set entry_goes_on_def pending_kills_def)
      show "map fst (hc_sandboxes ?c) = map fst (hc_sandboxes c)" using Some by (simp add: c map_fst_jm_set)
    qed (simp_all add: c)
  qed (simp add: mark_reason_def Some keeps_same)
qed (simp add: mark_reason_def keeps_same)

lemma core_step_keeps: "core_step c r \<Longrightarrow> keeps c (fst r)"
proof (induction rule: core_step.induct)
  case (extend c i ms now now2 r x)
  then show ?case by (auto simp: extendTimeout_def bindE_eq_Inr Let_def keeps_with_leases)
next
  case (renew c l now now2 r x)
  then show ?case by (auto simp: renewLease_def bindE_eq_Inr keeps_with_leases)
next
  case (release c l)
  then show ?case
    by (auto simp: releaseLease_def Let_def keeps_with_leases
        intro: keeps_trans [OF keeps_mark_reason keeps_with_leases] split: option.split)
next
  case (kill c i r)
  then show ?case
    by (auto simp: killSandbox_def bindE_eq_Inr Let_def keeps_same
        intro: keeps_trans [OF keeps_mark_reason keeps_with_leases] split: if_splits)
next
  case (route_end c i h)
  then show ?case by (auto simp: forgetTunnel_def Let_def intro!: keeps_same split: option.splits)
qed (auto simp: host_timer_def host_abort_def host_micro_def closeAllTunnels_def keeps_with_leases intro: keeps_same)

lemma core_step_calls: "core_step c r \<Longrightarrow> x \<in> set (snd r) \<Longrightarrow> \<exists>h. x = CallCloseRoute h"
  by (induction rule: core_step.induct)
    (auto simp: extendTimeout_def renewLease_def releaseLease_def killSandbox_def bindE_eq_Inr Let_def
      host_timer_def host_abort_def host_micro_def dest!: with_leases_calls dest: with_leases_out split: if_splits)

subsection \<open>The invariant of the machine\<close>

fun stage_reservation :: "create_stage \<Rightarrow> string multiset" where
  "stage_reservation AwaitReserve = {#}"
| "stage_reservation (Reserved r) = {#rs_id r#}"
| "stage_reservation (AwaitLaunch r) = {#rs_id r#}"

definition in_flight :: "host_machine \<Rightarrow> string multiset" where
  "in_flight m = mset (map (\<lambda>x. cf_suffix (fst x)) (hm_creates m))"

definition in_flight_held :: "host_machine \<Rightarrow> string multiset" where
  "in_flight_held m = sum_list (map (\<lambda>x. stage_reservation (snd x)) (hm_creates m))"

definition kills :: "host_call list \<Rightarrow> string multiset" where
  "kills calls = mset (concat (map (\<lambda>x. case x of CallKill y \<Rightarrow> [y] | _ \<Rightarrow> []) calls))"

definition launched :: "host_call list \<Rightarrow> string \<Rightarrow> bool" where
  "launched calls x = (\<exists>a. CallLaunch a \<in> set calls \<and> la_executionId a = x)"

definition named :: "host_core \<Rightarrow> bool" where
  "named c = (\<forall>i e. jm_get (hc_sandboxes c) i = Some e \<longrightarrow>
     (\<exists>x. i = sandbox_id x \<and> se_executionId e = execution_id x))"

text \<open>The parts of the invariant: reservations, ids, executions, terminations, launches and epochs.\<close>

definition reserved_ok :: "host_machine \<Rightarrow> bool" where
  "reserved_ok m = (ledger_ok (hc_capacity (hm_core m))
     \<and> mset (map fst (cl_reservations (hc_capacity (hm_core m)))) = held (hm_core m) + in_flight_held m)"

definition ids_ok :: "host_machine \<Rightarrow> bool" where
  "ids_ok m = (distinct (hm_drawn m) \<and> named (hm_core m)
     \<and> mset (map fst (hc_sandboxes (hm_core m))) + image_mset sandbox_id (in_flight m)
         \<subseteq># image_mset sandbox_id (mset (hm_drawn m)))"

definition executions_ok :: "host_machine \<Rightarrow> bool" where
  "executions_ok m = (kills (hm_calls m) + alive (hm_core m) + image_mset execution_id (in_flight m)
     \<subseteq># image_mset execution_id (mset (hm_drawn m)))"

definition terminated_killed :: "host_machine \<Rightarrow> bool" where
  "terminated_killed m = (\<forall>i e. jm_get (hc_sandboxes (hm_core m)) i = Some e \<and> isTerminal (se_state e) \<longrightarrow>
     se_executionId e \<in># kills (hm_calls m) + pending_kills (hm_core m))"

definition launches_ok :: "host_machine \<Rightarrow> bool" where
  "launches_ok m = ((\<forall>x. x \<in># kills (hm_calls m) + alive (hm_core m) \<longrightarrow> launched (hm_calls m) x)
     \<and> (\<forall>f r. (f, AwaitLaunch r) \<in> set (hm_creates m) \<longrightarrow> launched (hm_calls m) (execution_id (cf_suffix f))))"

definition epochs_ok :: "host_machine \<Rightarrow> bool" where
  "epochs_ok m = (\<forall>(f, s) \<in> set (hm_creates m). cf_epoch f \<le> hc_epoch (hm_core m))"

definition host_inv :: "host_machine \<Rightarrow> bool" where
  "host_inv m = (core_ok (hm_core m) \<and> reserved_ok m \<and> ids_ok m \<and> executions_ok m \<and> terminated_killed m
     \<and> launches_ok m \<and> epochs_ok m)"

lemma keeps_forward_ports:
  assumes "hc_sandboxes c' = hc_sandboxes c" "hc_pending c' = hc_pending c" "hc_capacity c' = hc_capacity c"
    "hc_epoch c \<le> hc_epoch c'" "forward_ok c \<Longrightarrow> forward_ok c'" "forward_live c \<Longrightarrow> forward_live c'"
  shows "keeps c c'"
  using assms by (auto simp: keeps_def core_ok_def goes_on_same held_def alive_def account_def)

lemma expose_begin_Inr:
  assumes "expose_begin c i p = Inr (c', f)"
  obtains e a q where "jm_get (hc_sandboxes c) i = Some e" and "\<not> isTerminal (se_state e)"
    and "lease_get (hc_leases c) (se_currentLeaseId e) \<noteq> None"
    and "port_allocate (hc_forwardPorts c) = Inr (a, q)"
    and "c' = recordForwardLease i q (c\<lparr>hc_forwardPorts := a\<rparr>)"
    and "f = \<lparr>ef_sandboxId = i, ef_executionId = se_executionId e, ef_guestPort = p, ef_hostPort = q\<rparr>"
  using assms by (auto simp: expose_begin_def requireEntry_def bindE_eq_Inr split: option.splits if_splits)

lemma recordForwardLease_simps [simp]:
  "hc_sandboxes (recordForwardLease i q c) = hc_sandboxes c"
  "hc_pending (recordForwardLease i q c) = hc_pending c"
  "hc_capacity (recordForwardLease i q c) = hc_capacity c"
  "hc_epoch (recordForwardLease i q c) = hc_epoch c"
  by (simp_all add: recordForwardLease_def Let_def)

lemma expose_begin_keeps:
  assumes "expose_begin c i p = Inr (c', f)"
  shows "keeps c c'"
proof -
  from assms obtain e a q where e: "jm_get (hc_sandboxes c) i = Some e" "\<not> isTerminal (se_state e)"
    and a: "port_allocate (hc_forwardPorts c) = Inr (a, q)"
    and c': "c' = recordForwardLease i q (c\<lparr>hc_forwardPorts := a\<rparr>)"
    by (rule expose_begin_Inr)
  show ?thesis
  proof (rule keeps_forward_ports)
    show "forward_ok c \<Longrightarrow> forward_ok c'" unfolding c' by (rule recordForwardLease_ok [OF _ a])
    show "forward_live c \<Longrightarrow> forward_live c'"
      using e by (auto simp: c' forward_live_def recordForwardLease_def Let_def jm_get_set)
  qed (simp_all add: c')
qed

lemma expose_failed_keeps: "keeps c (expose_failed f c)"
proof (rule keeps_forward_ports)
  show "forward_ok c \<Longrightarrow> forward_ok (expose_failed f c)"
    unfolding expose_failed_def by (rule releaseForwardLease_ok)
  show "forward_live c \<Longrightarrow> forward_live (expose_failed f c)"
    by (auto simp: expose_failed_def releaseForwardLease_def forward_live_def Let_def jm_get_delete jm_get_set
        split: option.split)
qed (simp_all add: expose_failed_def releaseForwardLease_def Let_def split: option.split)

lemma keeps_release_ports: "keeps c (releaseForwardPorts i c)"
  by (rule keeps_forward_ports) (auto simp: releaseForwardPorts_ok forward_live_def releaseForwardPorts_get)

lemma revoke_entries_keeps: "keeps c (fst (revoke_entries es c))"
proof (induction es arbitrary: c)
  case (Cons e es)
  let ?c1 = "c\<lparr>hc_tickets := fst (revokeSandbox (se_id e) (hc_tickets c))\<rparr>"
  let ?c2 = "fst (closeTunnels (se_id e) ?c1)"
  have "keeps c ?c2" by (rule keeps_same) simp_all
  also have "keeps ?c2 (releaseForwardPorts (se_id e) ?c2)" by (rule keeps_release_ports)
  also note Cons.IH
  finally show ?case by (simp add: Let_def)
qed (simp add: keeps_same)

lemma revoke_entries_simps [simp]:
  "hc_epoch (fst (revoke_entries es c)) = hc_epoch c"
  "hc_leases (fst (revoke_entries es c)) = hc_leases c"
  "hc_pending (fst (revoke_entries es c)) = hc_pending c"
  "hc_sandboxes (fst (revoke_entries es c)) = hc_sandboxes c"
  by (induction es arbitrary: c) (simp_all add: Let_def)

lemma revokeAll_keeps: "keeps c (fst (revokeAll c))"
proof -
  let ?c1 = "c\<lparr>hc_epoch := hc_epoch c + 1, hc_leases := lease_revokeAll (hc_leases c)\<rparr>"
  let ?c2 = "fst (revoke_entries (map snd (hc_sandboxes ?c1)) ?c1)"
  have "keeps c ?c1" by (rule keeps_same) simp_all
  also have "keeps ?c1 ?c2" by (rule revoke_entries_keeps)
  also have "keeps ?c2 (?c2\<lparr>hc_leaseToSandbox := []\<rparr>)" by (rule keeps_same) simp_all
  finally show ?thesis by (simp add: revokeAll_def Let_def)
qed

lemma revokeAll_calls: "x \<in> set (snd (revokeAll c)) \<Longrightarrow> \<exists>h. x = CallCloseRoute h"
proof -
  have "x \<in> set (snd (revoke_entries es c)) \<Longrightarrow> \<exists>h. x = CallCloseRoute h" for es and c :: host_core
    by (induction es arbitrary: c) (auto simp: Let_def dest: closeTunnels_calls)
  then show "x \<in> set (snd (revokeAll c)) \<Longrightarrow> \<exists>h. x = CallCloseRoute h" by (simp add: revokeAll_def Let_def)
qed

lemma kills_append [simp]: "kills (xs @ ys) = kills xs + kills ys"
  by (simp add: kills_def)

lemma kills_none: "(\<And>x y. x \<in> set xs \<Longrightarrow> x \<noteq> CallKill y) \<Longrightarrow> kills xs = {#}"
  by (auto simp: kills_def split: host_call.splits)

lemma launched_append: "launched xs x \<Longrightarrow> launched (xs @ ys) x"
  by (auto simp: launched_def)

lemma terminated_killed_keeps:
  assumes "terminated_killed m" and go: "goes_on (hm_core m) (hm_core m')"
    and calls: "kills (hm_calls m) \<subseteq># kills (hm_calls m')"
  shows "terminated_killed m'"
  unfolding terminated_killed_def
proof (intro allI impI, elim conjE)
  fix i e'
  assume e': "jm_get (hc_sandboxes (hm_core m')) i = Some e'" "isTerminal (se_state e')"
  have sub: "pending_kills (hm_core m) \<subseteq># pending_kills (hm_core m')" using go by (simp add: goes_on_def)
  from goes_onD [OF go e'(1)] e'(2)
  obtain e where e: "jm_get (hc_sandboxes (hm_core m)) i = Some e" "se_executionId e' = se_executionId e"
    and d: "isTerminal (se_state e) \<or> se_executionId e' \<in># pending_kills (hm_core m')"
    unfolding entry_goes_on_def by blast
  from d show "se_executionId e' \<in># kills (hm_calls m') + pending_kills (hm_core m')"
  proof
    assume "isTerminal (se_state e)"
    then have "se_executionId e' \<in># kills (hm_calls m) + pending_kills (hm_core m)"
      using assms(1) e by (simp add: terminated_killed_def)
    then show ?thesis using mset_subset_eqD [OF sub] mset_subset_eqD [OF calls] by auto
  qed simp
qed

text \<open>A step that keeps the core's account, starts and ends no create and kills nothing.\<close>

lemma quiet_inv:
  assumes inv: "host_inv m" and k: "keeps (hm_core m) (hm_core m')" and cr: "hm_creates m' = hm_creates m"
    and dr: "hm_drawn m' = hm_drawn m" and ca: "hm_calls m' = hm_calls m @ ys" and ys: "kills ys = {#}"
  shows "host_inv m'"
proof -
  let ?c = "hm_core m" and ?c' = "hm_core m'"
  have "core_ok ?c" using inv by (simp add: host_inv_def)
  then have k': "core_ok ?c'" "held ?c' = held ?c" "alive ?c' = alive ?c" "hc_capacity ?c' = hc_capacity ?c"
    "hc_epoch ?c \<le> hc_epoch ?c'" "map fst (hc_sandboxes ?c') = map fst (hc_sandboxes ?c)"
    and go: "goes_on ?c ?c'"
    using k by (auto simp: keeps_def)
  have fl: "in_flight m' = in_flight m" "in_flight_held m' = in_flight_held m"
    by (simp_all add: in_flight_def in_flight_held_def cr)
  have ki: "kills (hm_calls m') = kills (hm_calls m)" by (simp add: ca ys)
  have "named ?c" using inv by (simp add: host_inv_def ids_ok_def)
  then have nm: "named ?c'" using go unfolding named_def goes_on_def entry_goes_on_def by metis
  have "terminated_killed m'"
    using inv go by (auto simp: host_inv_def ki intro: terminated_killed_keeps)
  moreover have "reserved_ok m'" using inv k' fl by (simp add: host_inv_def reserved_ok_def)
  moreover have "ids_ok m'" using inv k'(6) fl nm by (simp add: host_inv_def ids_ok_def dr)
  moreover have "executions_ok m'" using inv k' fl by (simp add: host_inv_def executions_ok_def dr ki)
  moreover have "launches_ok m'"
    using inv k' by (auto simp: host_inv_def launches_ok_def ki cr) (auto simp: ca intro: launched_append)
  moreover have "epochs_ok m'" using inv k'(5) by (fastforce simp: host_inv_def epochs_ok_def cr)
  ultimately show ?thesis using k'(1) by (simp add: host_inv_def)
qed

subsection \<open>The steps of a create and of a reclaim\<close>

lemma reserve_Inl: "reserve l q b i = (l', Inl e) \<Longrightarrow> l' = l"
  by (auto simp: reserve_def Let_def split: sum.splits option.splits if_splits)

lemma reserve_Inr:
  assumes "ledger_ok l" and "jm_get (cl_reservations l) i = None" and "reserve l q b i = (l', Inr r)"
  shows "ledger_ok l' \<and> rs_id r = i
    \<and> mset (map fst (cl_reservations l')) = add_mset i (mset (map fst (cl_reservations l)))"
proof -
  from assms(3) obtain v where v: "reserve_validate q = Inr v" "reserve_check l v = None"
    and c: "reserve_commit l v i = (l', r)"
    by (auto simp: reserve_def Let_def split: sum.splits option.splits if_splits)
  have "ledger_ok l'"
    by (rule reserve_commit_ok [OF assms(1) v(2) reserve_validate_Inr [OF v(1)] assms(2) c])
  with c assms(2) show ?thesis
    by (auto simp: reserve_commit_def allocatePorts_def Let_def jm_set_fresh split: prod.splits)
qed

lemma cap_release_keys:
  assumes "ledger_ok l" and "i \<in># mset (map fst (cl_reservations l))"
  shows "add_mset i (mset (map fst (cl_reservations (cap_release l i)))) = mset (map fst (cl_reservations l))"
proof -
  have ok: "jm_ok (cl_reservations l)" using assms(1) by (simp add: ledger_ok_def)
  have "jm_get (cl_reservations l) i \<noteq> None"
    using assms(2) by (auto simp: jm_get_def map_of_eq_None_iff)
  then obtain r where r: "jm_get (cl_reservations l) i = Some r" by blast
  have "mset (cl_reservations l) = add_mset (i, r) (mset (jm_delete i (cl_reservations l)))"
    by (rule mset_jm_delete [OF ok r])
  then show ?thesis by (simp add: cap_release_def r)
qed

lemma enqueue_simps [simp]:
  "hc_sandboxes (enqueue j c) = hc_sandboxes c" "hc_capacity (enqueue j c) = hc_capacity c"
  "hc_epoch (enqueue j c) = hc_epoch c" "hc_pending (enqueue j c) = hc_pending c @ [j]"
  "held (enqueue j c) = held c + job_reservation j" "alive (enqueue j c) = alive c + job_kill j"
  "core_ok (enqueue j c) = core_ok c" "named (enqueue j c) = named c"
  by (simp_all add: enqueue_def held_def alive_def account_def core_ok_def forward_ok_def forward_live_def
      named_def)

lemma goes_on_enqueue: "goes_on c (enqueue j c)"
  by (auto simp: goes_on_def pending_kills_def entry_goes_on_def)

lemma create_begin_Inr:
  "create_begin c input sig suffix nonce key = Inr f \<Longrightarrow> cf_suffix f = suffix \<and> cf_epoch f = hc_epoch c"
  by (auto simp: create_begin_def Let_def bindE_eq_Inr split: if_splits)

lemma create_register_Inl:
  assumes "create_register c f r v = (w, Inl e)"
  shows "keeps c (fst w) \<and> kills (snd w) = {#}"
proof -
  have "w = (c, []) \<or> (\<exists>x. w = with_leases c x)"
    using assms by (auto simp: create_register_def Let_def split: if_splits sum.splits)
  then show ?thesis
    using keeps_with_leases with_leases_calls by (fastforce intro: keeps_same kills_none)
qed

lemma create_register_Inr:
  assumes "create_register c f r v = (w, Inr x)"
  obtains c1 l e where "hc_epoch c = cf_epoch f" and "keeps c c1"
    and "fst w = c1\<lparr>hc_sandboxes := jm_set (sandbox_id (cf_suffix f)) e (hc_sandboxes c1),
      hc_leaseToSandbox := jm_set l (sandbox_id (cf_suffix f)) (hc_leaseToSandbox c1)\<rparr>"
    and "e = (create_entry f r v)\<lparr>se_currentLeaseId := l\<rparr>" and "kills (snd w) = {#}"
proof -
  have ep: "hc_epoch c = cf_epoch f" using assms by (auto simp: create_register_def split: if_splits)
  obtain y l where y: "fst w = (fst (with_leases c y))\<lparr>
      hc_sandboxes := jm_set (sandbox_id (cf_suffix f)) ((create_entry f r v)\<lparr>se_currentLeaseId := l\<rparr>)
        (hc_sandboxes (fst (with_leases c y))),
      hc_leaseToSandbox := jm_set l (sandbox_id (cf_suffix f)) (hc_leaseToSandbox (fst (with_leases c y)))\<rparr>"
    and calls: "snd w = snd (with_leases c y)"
    using assms ep by (auto simp: create_register_def Let_def split: sum.splits)
  have "kills (snd w) = {#}" unfolding calls by (rule kills_none) (auto dest: with_leases_calls)
  from that [OF ep keeps_with_leases y refl this] show ?thesis .
qed

text \<open>A create that is in flight is one that no sandbox and no kill is of.\<close>

lemma in_flight_split:
  assumes "hm_creates m = xs @ (f, s) # ys"
  shows "in_flight m = add_mset (cf_suffix f) (mset (map (\<lambda>x. cf_suffix (fst x)) (xs @ ys)))"
    and "in_flight_held m = stage_reservation s + sum_list (map (\<lambda>x. stage_reservation (snd x)) (xs @ ys))"
  using assms by (simp_all add: in_flight_def in_flight_held_def ac_simps)

lemma sandbox_id_inject [simp]: "sandbox_id x = sandbox_id y \<longleftrightarrow> x = y"
  by (simp add: sandbox_id_def)

lemma execution_id_inject [simp]: "execution_id x = execution_id y \<longleftrightarrow> x = y"
  by (simp add: execution_id_def)

lemma inj_ids: "inj sandbox_id" "inj execution_id"
  by (simp_all add: inj_def)

lemma count_drawn:
  assumes "distinct xs" and "inj g"
  shows "count (image_mset g (mset xs)) y \<le> 1"
proof -
  have "distinct (map g xs)" using assms by (simp add: distinct_map inj_on_subset [of g UNIV])
  then show ?thesis by (metis distinct_count_atmost_1 mset_map le_eq_less_or_eq nat_le_linear zero_le_one)
qed

lemma split_once:
  assumes "A + B \<subseteq># image_mset g (mset xs)" and "distinct xs" and "inj g" and "y \<in># B"
  shows "y \<notin># A"
proof
  assume "y \<in># A"
  then have "1 \<le> count A y" "1 \<le> count B y" using assms(4) by (simp_all add: Suc_le_eq)
  moreover have "count (A + B) y \<le> count (image_mset g (mset xs)) y" using assms(1) by (rule mset_subset_eq_count)
  ultimately show False using count_drawn [OF assms(2,3), of y] by (simp only: count_union)
qed

lemma in_flight_fresh:
  assumes "ids_ok m" and "hm_creates m = xs @ (f, s) # ys"
  shows "jm_get (hc_sandboxes (hm_core m)) (sandbox_id (cf_suffix f)) = None"
proof -
  have "sandbox_id (cf_suffix f) \<in># image_mset sandbox_id (in_flight m)"
    by (simp add: in_flight_split [OF assms(2)])
  moreover have "distinct (hm_drawn m)"
    and "mset (map fst (hc_sandboxes (hm_core m))) + image_mset sandbox_id (in_flight m)
      \<subseteq># image_mset sandbox_id (mset (hm_drawn m))"
    using assms(1) by (simp_all add: ids_ok_def)
  ultimately have "sandbox_id (cf_suffix f) \<notin># mset (map fst (hc_sandboxes (hm_core m)))"
    by (intro split_once [OF _ _ inj_ids(1)])
  then show ?thesis by (force simp: jm_get_def map_of_eq_None_iff)
qed

text \<open>The frame of a create leaves, with its reservation in a job, and maybe a kill.\<close>

lemma sub_add_left: "A + B \<subseteq># C \<Longrightarrow> A \<subseteq># (C :: 'a multiset)"
  by (metis mset_subset_eq_add_left subset_mset.order_trans)

lemma sub_swap:
  assumes "add_mset x (A + B + D) \<subseteq># C" and "J \<subseteq># {#x#}"
  shows "A + (B + J) + D \<subseteq># (C :: 'a multiset)"
proof -
  have "A + (B + J) + D = (A + B + D) + J" by (simp add: ac_simps)
  also have "\<dots> \<subseteq># (A + B + D) + {#x#}" using assms(2) by (rule subset_mset.add_left_mono)
  also have "\<dots> = add_mset x (A + B + D)" by simp
  also note assms(1)
  finally show ?thesis .
qed

lemma rollback_inv:
  assumes inv: "host_inv m" and cr: "hm_creates m = xs @ (f, s) # ys"
    and st: "stage_reservation s = {#rs_id r#}"
    and k: "keeps (hm_core m) c" and ca: "kills calls = {#}"
    and j: "job_kill (create_rollback c f r l) \<noteq> {#} \<Longrightarrow> launched (hm_calls m) (execution_id (cf_suffix f))"
  shows "host_inv (m\<lparr>hm_core := enqueue (create_rollback c f r l) c, hm_calls := hm_calls m @ calls,
    hm_creates := xs @ ys\<rparr>)"
proof -
  let ?m1 = "m\<lparr>hm_core := c, hm_calls := hm_calls m @ calls\<rparr>"
  let ?j = "create_rollback c f r l"
  let ?m = "m\<lparr>hm_core := enqueue ?j c, hm_calls := hm_calls m @ calls, hm_creates := xs @ ys\<rparr>"
  have inv1: "host_inv ?m1" by (rule quiet_inv [OF inv _ _ _ _ ca]) (simp_all add: k)
  have cr1: "hm_creates ?m1 = xs @ (f, s) # ys" by (simp add: cr)
  note split = in_flight_split [OF cr1]
  have fl: "in_flight ?m1 = add_mset (cf_suffix f) (in_flight ?m)"
    "in_flight_held ?m1 = add_mset (rs_id r) (in_flight_held ?m)"
    using split st by (simp_all add: in_flight_def in_flight_held_def)
  have jr: "job_reservation ?j = {#rs_id r#}" by (simp add: create_rollback_def Let_def)
  have jk: "job_kill ?j \<subseteq># {#execution_id (cf_suffix f)#}" by (simp add: create_rollback_def Let_def)
  have "core_ok (hm_core ?m)" using inv1 by (simp add: host_inv_def)
  moreover have "reserved_ok ?m"
    using inv1 fl jr by (simp add: host_inv_def reserved_ok_def)
  moreover have "ids_ok ?m"
  proof -
    have "mset (map fst (hc_sandboxes c)) + image_mset sandbox_id (in_flight ?m1)
        \<subseteq># image_mset sandbox_id (mset (hm_drawn m))" and "named c" and "distinct (hm_drawn m)"
      using inv1 by (simp_all add: host_inv_def ids_ok_def)
    then show ?thesis
      using sub_add_left [of "mset (map fst (hc_sandboxes c)) + image_mset sandbox_id (in_flight ?m)"
          "{#sandbox_id (cf_suffix f)#}"]
      by (simp add: ids_ok_def fl)
  qed
  moreover have "executions_ok ?m"
  proof -
    have "kills (hm_calls ?m) + alive c + {#execution_id (cf_suffix f)#} + image_mset execution_id (in_flight ?m)
        \<subseteq># image_mset execution_id (mset (hm_drawn m))"
      using inv1 by (simp add: host_inv_def executions_ok_def fl ca)
    then have "kills (hm_calls ?m) + (alive c + job_kill ?j) + image_mset execution_id (in_flight ?m)
        \<subseteq># image_mset execution_id (mset (hm_drawn m))"
      by (intro sub_swap [OF _ jk]) (simp add: ac_simps)
    then show ?thesis by (simp add: executions_ok_def)
  qed
  moreover have "terminated_killed ?m"
    by (rule terminated_killed_keeps [of ?m1])
      (use inv1 in \<open>simp_all add: host_inv_def goes_on_enqueue\<close>)
  moreover have "launches_ok ?m"
  proof -
    have "launched (hm_calls m @ calls) x" if x: "x \<in># job_kill ?j" for x
    proof -
      have "x = execution_id (cf_suffix f)" using mset_subset_eqD [OF jk x] by simp
      moreover have "launched (hm_calls m) (execution_id (cf_suffix f))" by (rule j) (use x in auto)
      ultimately show ?thesis by (simp add: launched_append)
    qed
    then show ?thesis using inv1 by (auto simp: host_inv_def launches_ok_def cr)
  qed
  moreover have "epochs_ok ?m" using inv1 by (auto simp: host_inv_def epochs_ok_def cr)
  ultimately show ?thesis by (simp only: host_inv_def)
qed

lemma created_inv:
  assumes inv: "host_inv m" and cr: "hm_creates m = xs @ (f, AwaitLaunch r) # ys"
    and reg: "create_register (hm_core m) f r v = (w, Inr x)"
  shows "host_inv ((apply_core m w)\<lparr>hm_creates := xs @ ys\<rparr>)"
proof -
  from reg obtain c l e where k: "keeps (hm_core m) c"
    and w: "fst w = c\<lparr>hc_sandboxes := jm_set (sandbox_id (cf_suffix f)) e (hc_sandboxes c),
      hc_leaseToSandbox := jm_set l (sandbox_id (cf_suffix f)) (hc_leaseToSandbox c)\<rparr>"
    and e: "e = (create_entry f r v)\<lparr>se_currentLeaseId := l\<rparr>" and ca: "kills (snd w) = {#}"
    by (rule create_register_Inr)
  let ?i = "sandbox_id (cf_suffix f)" and ?x = "execution_id (cf_suffix f)"
  let ?m1 = "m\<lparr>hm_core := c, hm_calls := hm_calls m @ snd w\<rparr>"
  let ?m = "(apply_core m w)\<lparr>hm_creates := xs @ ys\<rparr>"
  have inv1: "host_inv ?m1" by (rule quiet_inv [OF inv _ _ _ _ ca]) (simp_all add: k)
  have cr1: "hm_creates ?m1 = xs @ (f, AwaitLaunch r) # ys" by (simp add: cr)
  have fl: "in_flight ?m1 = add_mset (cf_suffix f) (in_flight ?m)"
    "in_flight_held ?m1 = add_mset (rs_id r) (in_flight_held ?m)"
    using in_flight_split [OF cr1] by (simp_all add: in_flight_def in_flight_held_def)
  have fresh: "jm_get (hc_sandboxes c) ?i = None"
    using in_flight_fresh [OF _ cr1] inv1 by (simp add: host_inv_def)
  have entry: "se_executionId e = ?x" "\<not> isTerminal (se_state e)" "se_reservation e = r" "se_id e = ?i"
    by (simp_all add: e create_entry_def isTerminal_def)
  have books: "held (fst w) = add_mset (rs_id r) (held c)" "alive (fst w) = add_mset ?x (alive c)"
    using entry fresh by (simp_all add: w held_def alive_def account_def jm_total_fresh)
  have ok: "core_ok c" using inv1 by (simp add: host_inv_def)
  have "core_ok (fst w)"
    using ok entry fresh
    by (auto simp: w core_ok_def forward_ok_def forward_live_def jm_get_set jm.ok_insert)
  moreover have "reserved_ok ?m"
    using inv1 fl by (simp add: host_inv_def reserved_ok_def apply_core_def books) (simp add: w)
  moreover have "ids_ok ?m"
  proof -
    have "named (fst w)" using inv1 entry by (auto simp: host_inv_def ids_ok_def named_def w jm_get_set)
    moreover have "map fst (hc_sandboxes (fst w)) = map fst (hc_sandboxes c) @ [?i]"
      using fresh by (simp add: w jm_set_fresh)
    ultimately show ?thesis
      using inv1 by (simp add: host_inv_def ids_ok_def apply_core_def fl)
  qed
  moreover have "executions_ok ?m"
    using inv1 by (simp add: host_inv_def executions_ok_def apply_core_def fl books)
  moreover have "terminated_killed ?m"
    using inv1 entry
    by (auto simp: host_inv_def terminated_killed_def apply_core_def w jm_get_set pending_kills_def)
  moreover have "launches_ok ?m"
  proof -
    have "launched (hm_calls m @ snd w) ?x"
      using inv1 by (auto simp: host_inv_def launches_ok_def cr)
    then show ?thesis using inv1 by (auto simp: host_inv_def launches_ok_def cr apply_core_def books)
  qed
  moreover have "epochs_ok ?m"
    using inv1 by (auto simp: host_inv_def epochs_ok_def cr apply_core_def w)
  ultimately show ?thesis by (simp add: host_inv_def apply_core_def)
qed

lemma reclaim_release_inv:
  assumes inv: "host_inv m" and pd: "hc_pending (hm_core m) = xs @ ReleaseThen i k # ys"
  shows "host_inv (m\<lparr>hm_core := (hm_core m)\<lparr>hc_capacity := cap_release (hc_capacity (hm_core m)) i,
    hc_pending := xs @ (case k of Some x \<Rightarrow> [KillOnly x] | None \<Rightarrow> []) @ ys\<rparr>\<rparr>)" (is "host_inv ?m")
proof -
  let ?c = "hm_core m" and ?c' = "hm_core ?m"
  have held: "held ?c = add_mset i (held ?c')"
    by (simp add: held_def account_def pd split: option.split)
  have al: "alive ?c' = alive ?c" "pending_kills ?c' = pending_kills ?c"
    by (simp_all add: alive_def account_def pending_kills_def pd ac_simps split: option.split)
  have fl: "in_flight ?m = in_flight m" "in_flight_held ?m = in_flight_held m"
    by (simp_all add: in_flight_def in_flight_held_def)
  have res: "ledger_ok (hc_capacity ?c)"
    "mset (map fst (cl_reservations (hc_capacity ?c))) = held ?c + in_flight_held m"
    using inv by (simp_all add: host_inv_def reserved_ok_def)
  then have "i \<in># mset (map fst (cl_reservations (hc_capacity ?c)))" by (simp add: held)
  from cap_release_keys [OF res(1) this] res(2)
  have "mset (map fst (cl_reservations (hc_capacity ?c'))) = held ?c' + in_flight_held m" by (simp add: held)
  then have "reserved_ok ?m" using cap_release_ok [OF res(1)] by (simp add: reserved_ok_def fl)
  moreover have "core_ok ?c'"
    using inv by (simp add: host_inv_def core_ok_def forward_ok_def forward_live_def)
  moreover have "ids_ok ?m" "executions_ok ?m" "launches_ok ?m" "epochs_ok ?m"
    using inv al fl
    by (simp_all add: host_inv_def ids_ok_def named_def executions_ok_def launches_ok_def epochs_ok_def)
  moreover have "terminated_killed ?m"
    using inv unfolding host_inv_def terminated_killed_def al by auto
  ultimately show ?thesis by (simp only: host_inv_def)
qed

lemma reclaim_kill_inv:
  assumes inv: "host_inv m" and pd: "hc_pending (hm_core m) = xs @ KillOnly x # ys"
  shows "host_inv (m\<lparr>hm_core := (hm_core m)\<lparr>hc_pending := xs @ ys\<rparr>, hm_calls := hm_calls m @ [CallKill x]\<rparr>)"
    (is "host_inv ?m")
proof -
  let ?c = "hm_core m" and ?c' = "hm_core ?m"
  have al: "alive ?c = add_mset x (alive ?c')" "pending_kills ?c = add_mset x (pending_kills ?c')"
    by (simp_all add: alive_def account_def pending_kills_def pd)
  have he: "held ?c' = held ?c" by (simp add: held_def account_def pd)
  have fl: "in_flight ?m = in_flight m" "in_flight_held ?m = in_flight_held m"
    by (simp_all add: in_flight_def in_flight_held_def)
  have ki: "kills (hm_calls ?m) = add_mset x (kills (hm_calls m))" by (simp add: kills_def)
  have "core_ok ?c'" using inv by (simp add: host_inv_def core_ok_def forward_ok_def forward_live_def)
  moreover have "reserved_ok ?m" using inv he fl by (simp add: host_inv_def reserved_ok_def)
  moreover have "ids_ok ?m" using inv fl by (simp add: host_inv_def ids_ok_def named_def)
  moreover have "executions_ok ?m"
    using inv fl ki al by (simp add: host_inv_def executions_ok_def)
  moreover have "terminated_killed ?m"
    using inv ki al by (auto simp: host_inv_def terminated_killed_def)
  moreover have "launches_ok ?m"
    using inv ki al by (auto simp: host_inv_def launches_ok_def intro: launched_append)
  moreover have "epochs_ok ?m" using inv by (simp add: host_inv_def epochs_ok_def)
  ultimately show ?thesis by (simp only: host_inv_def)
qed

lemma create_inv:
  assumes inv: "host_inv m" and b: "create_begin (hm_core m) input sig suffix nonce key = Inr f"
    and fresh: "suffix \<notin> set (hm_drawn m)"
  shows "host_inv (m\<lparr>hm_creates := hm_creates m @ [(f, AwaitReserve)], hm_drawn := hm_drawn m @ [suffix]\<rparr>)"
    (is "host_inv ?m")
proof -
  note f = create_begin_Inr [OF b]
  have fl: "in_flight ?m = add_mset suffix (in_flight m)" "in_flight_held ?m = in_flight_held m"
    using f by (simp_all add: in_flight_def in_flight_held_def)
  have "executions_ok ?m" using inv fl by (simp add: host_inv_def executions_ok_def add.assoc)
  moreover have "ids_ok ?m" using inv fl fresh by (simp add: host_inv_def ids_ok_def add.assoc)
  ultimately show ?thesis
    using inv fl f
    by (auto simp: host_inv_def reserved_ok_def terminated_killed_def launches_ok_def epochs_ok_def)
qed

lemma reserve_inv:
  assumes inv: "host_inv m" and cr: "hm_creates m = xs @ (f, AwaitReserve) # ys"
    and fresh: "jm_get (cl_reservations (hc_capacity (hm_core m))) i = None"
    and res: "reserve (hc_capacity (hm_core m)) (cf_request f) barrier i = (l, Inr r)"
  shows "host_inv (m\<lparr>hm_core := (hm_core m)\<lparr>hc_capacity := l\<rparr>, hm_creates := xs @ (f, Reserved r) # ys\<rparr>)"
    (is "host_inv ?m")
proof -
  have ro: "ledger_ok (hc_capacity (hm_core m))"
    "mset (map fst (cl_reservations (hc_capacity (hm_core m)))) = held (hm_core m) + in_flight_held m"
    using inv by (simp_all add: host_inv_def reserved_ok_def)
  note l = reserve_Inr [OF ro(1) fresh res]
  have same: "held (hm_core ?m) = held (hm_core m)" "alive (hm_core ?m) = alive (hm_core m)"
    "pending_kills (hm_core ?m) = pending_kills (hm_core m)"
    by (simp_all add: held_def alive_def account_def pending_kills_def)
  have fl: "in_flight ?m = in_flight m" "in_flight_held ?m = add_mset (rs_id r) (in_flight_held m)"
    using in_flight_split [OF cr] by (simp_all add: in_flight_def in_flight_held_def)
  have "reserved_ok ?m" using l ro(2) same fl by (simp add: reserved_ok_def)
  moreover have "core_ok (hm_core ?m)"
    using inv by (simp add: host_inv_def core_ok_def forward_ok_def forward_live_def)
  moreover have "ids_ok ?m" using inv fl by (simp add: host_inv_def ids_ok_def named_def)
  moreover have "executions_ok ?m" using inv fl same by (simp add: host_inv_def executions_ok_def)
  moreover have "terminated_killed ?m"
    using inv unfolding host_inv_def terminated_killed_def same by auto
  moreover have "launches_ok ?m" "epochs_ok ?m"
    using inv same by (auto simp: host_inv_def launches_ok_def epochs_ok_def cr)
  ultimately show ?thesis by (simp only: host_inv_def)
qed

lemma reserve_fail_inv:
  assumes inv: "host_inv m" and cr: "hm_creates m = xs @ (f, AwaitReserve) # ys"
    and res: "reserve (hc_capacity (hm_core m)) (cf_request f) barrier i = (l, Inl e)"
  shows "host_inv (m\<lparr>hm_core := (hm_core m)\<lparr>hc_capacity := l\<rparr>, hm_creates := xs @ ys\<rparr>)" (is "host_inv ?m")
proof -
  have l: "(hm_core m)\<lparr>hc_capacity := l\<rparr> = hm_core m" using reserve_Inl [OF res] by simp
  have fl: "in_flight m = add_mset (cf_suffix f) (in_flight ?m)" "in_flight_held m = in_flight_held ?m"
    using in_flight_split [OF cr] by (simp_all add: in_flight_def in_flight_held_def)
  have "ids_ok ?m"
    using inv sub_add_left [of "mset (map fst (hc_sandboxes (hm_core m))) + image_mset sandbox_id (in_flight ?m)"
        "{#sandbox_id (cf_suffix f)#}"]
    by (simp add: host_inv_def ids_ok_def fl l)
  moreover have "executions_ok ?m"
    using inv sub_add_left [of "kills (hm_calls m) + alive (hm_core m) + image_mset execution_id (in_flight ?m)"
        "{#execution_id (cf_suffix f)#}"]
    by (simp add: host_inv_def executions_ok_def fl l)
  moreover have "reserved_ok ?m" using inv fl by (simp add: host_inv_def reserved_ok_def l)
  moreover have "terminated_killed ?m" "launches_ok ?m" "epochs_ok ?m"
    using inv by (auto simp: host_inv_def terminated_killed_def launches_ok_def epochs_ok_def l cr)
  ultimately show ?thesis using inv by (simp only: host_inv_def) (simp add: l)
qed

lemma launch_inv:
  assumes inv: "host_inv m" and cr: "hm_creates m = xs @ (f, Reserved r) # ys"
    and la: "create_launch (hm_core m) f = Inr a"
  shows "host_inv (m\<lparr>hm_creates := xs @ (f, AwaitLaunch r) # ys, hm_calls := hm_calls m @ [CallLaunch a]\<rparr>)"
    (is "host_inv ?m")
proof -
  have fl: "in_flight ?m = in_flight m" "in_flight_held ?m = in_flight_held m"
    using in_flight_split [OF cr] by (simp_all add: in_flight_def in_flight_held_def)
  have ki: "kills (hm_calls ?m) = kills (hm_calls m)" by (simp add: kills_def)
  have "la_executionId a = execution_id (cf_suffix f)"
    using la by (auto simp: create_launch_def split: if_splits)
  then have "launched (hm_calls ?m) (execution_id (cf_suffix f))" by (auto simp: launched_def)
  then have "launches_ok ?m"
    using inv ki by (auto simp: host_inv_def launches_ok_def cr intro: launched_append)
  moreover have "reserved_ok ?m" "ids_ok ?m" "executions_ok ?m"
    using inv fl ki by (simp_all add: host_inv_def reserved_ok_def ids_ok_def executions_ok_def)
  moreover have "terminated_killed ?m"
    using inv unfolding host_inv_def terminated_killed_def ki by auto
  moreover have "epochs_ok ?m" using inv by (auto simp: host_inv_def epochs_ok_def cr)
  ultimately show ?thesis using inv by (simp add: host_inv_def)
qed

lemma tunnel_issue_keeps: "tunnel_issue dg dr c q b h t u = (w, x) \<Longrightarrow> keeps c (fst w) \<and> kills (snd w) = {#}"
  by (auto simp: tunnel_issue_def Let_def kills_def intro: keeps_same split: sum.splits)

lemma tunnel_register_keeps: "tunnel_register c f h n k = (w, x) \<Longrightarrow> keeps c (fst w) \<and> kills (snd w) = {#}"
  by (auto simp: tunnel_register_def trackTunnel_def Let_def kills_def intro: keeps_same split: option.splits)

lemma quiet_calls: "(\<And>x. x \<in> set xs \<Longrightarrow> \<exists>h. x = CallCloseRoute h) \<Longrightarrow> kills xs = {#}"
  by (rule kills_none) auto

lemma apply_core_inv:
  "host_inv m \<Longrightarrow> keeps (hm_core m) (fst w) \<Longrightarrow> kills (snd w) = {#} \<Longrightarrow> host_inv (apply_core m w)"
  by (rule quiet_inv [of m _ "snd w"]) (simp_all add: apply_core_def)

lemma tunnels_inv: "host_inv m \<Longrightarrow> host_inv (m\<lparr>hm_tunnels := t\<rparr>)"
  by (rule quiet_inv [of m _ "[]"]) (simp_all add: keeps_same kills_def)

lemma apply_core_tunnels_inv:
  "host_inv m \<Longrightarrow> keeps (hm_core m) (fst w) \<and> kills (snd w) = {#} \<Longrightarrow> host_inv ((apply_core m w)\<lparr>hm_tunnels := t\<rparr>)"
  by (simp add: tunnels_inv apply_core_inv)

lemma host_step_inv: "host_step m ev m' \<Longrightarrow> host_inv m \<Longrightarrow> host_inv m'"
proof (induction rule: host_step.induct)
  case (launch_refused m xs f r ys e)
  have "hc_epoch (hm_core m) \<noteq> cf_epoch f"
    using launch_refused.hyps(2) by (auto simp: create_launch_def split: if_splits)
  then show ?case
    using rollback_inv [OF launch_refused.prems launch_refused.hyps(1), of r "hm_core m" "[]" False]
    by (simp add: keeps_same kills_def create_rollback_def)
next
  case (launch_fail m xs f r ys)
  then show ?case
    using rollback_inv [of m xs f "AwaitLaunch r" ys r "hm_core m" "[]" False]
    by (simp add: keeps_same kills_def create_rollback_def)
next
  case (create_fail m xs f r ys v w e)
  have "launched (hm_calls m) (execution_id (cf_suffix f))"
    using create_fail.prems create_fail.hyps(1) by (auto simp: host_inv_def launches_ok_def)
  then show ?case
    using rollback_inv [OF create_fail.prems create_fail.hyps(1), of r "fst w" "snd w" True]
      create_register_Inl [OF create_fail.hyps(2)]
    by (simp add: apply_core_def)
next
  case (expose m i p c f)
  show ?case
    by (rule quiet_inv [OF expose.prems, where ys = "[expose_call f]"])
      (simp_all add: kills_def expose_call_def expose_begin_keeps [OF expose.hyps])
next
  case (exposed m xs f ys)
  show ?case by (rule quiet_inv [OF exposed.prems, where ys = "[]"]) (simp_all add: keeps_same kills_def)
next
  case (expose_fail m xs f ys)
  show ?case by (rule quiet_inv [OF expose_fail.prems, where ys = "[]"]) (simp_all add: expose_failed_keeps kills_def)
next
  case (tunnel_router m xs q b ys)
  show ?case by (rule quiet_inv [OF tunnel_router.prems, where ys = "[CallReserveBridge q]"]) (simp_all add: keeps_same kills_def)
next
  case (sync m r)
  then show ?case by (auto intro: apply_core_inv core_step_keeps quiet_calls core_step_calls)
next
  case (tunnel_ticket m xs q b ys digest draw bridge now now2 w f)
  show ?case by (rule apply_core_tunnels_inv [OF tunnel_ticket.prems tunnel_issue_keeps [OF tunnel_ticket.hyps(2)]])
next
  case (tunnel_no_ticket m xs q b ys digest draw bridge now now2 w e)
  show ?case
    by (rule apply_core_tunnels_inv [OF tunnel_no_ticket.prems tunnel_issue_keeps [OF tunnel_no_ticket.hyps(2)]])
next
  case (tunnel_done m xs f ys handle nonce credential w x)
  show ?case by (rule apply_core_tunnels_inv [OF tunnel_done.prems tunnel_register_keeps [OF tunnel_done.hyps(2)]])
next
  case (restart m)
  then show ?case by (auto intro: apply_core_inv revokeAll_keeps quiet_calls revokeAll_calls)
qed (auto intro: create_inv reserve_inv reserve_fail_inv launch_inv created_inv tunnels_inv
    reclaim_release_inv reclaim_kill_inv)

lemma new_ledger_empty: "new_ledger b h n = Inr l \<Longrightarrow> cl_reservations l = []"
  by (auto simp: new_ledger_def DEFAULT_BUDGET_def DEFAULT_HEADROOM_def Let_def split: if_splits option.splits)

lemma host_init_inv: "host_init m \<Longrightarrow> host_inv m"
  by (auto simp: host_init_def new_host_core_def host_inv_def core_ok_def forward_ok_def forward_live_def
      reserved_ok_def ids_ok_def named_def executions_ok_def terminated_killed_def launches_ok_def epochs_ok_def
      held_def alive_def account_def in_flight_def in_flight_held_def kills_def pending_kills_def
      dest: new_ports_ok new_ledger_ok new_ledger_empty)

interpretation host: step_system host_init host_step host_inv
  by unfold_locales (auto intro: host_init_inv host_step_inv)

subsection \<open>A create that a restart overtook\<close>

definition overtaken :: "string \<Rightarrow> host_machine \<Rightarrow> bool" where
  "overtaken x m = (x \<in> set (hm_drawn m)
     \<and> (\<forall>(f, s) \<in> set (hm_creates m). cf_suffix f = x \<longrightarrow> cf_epoch f < hc_epoch (hm_core m))
     \<and> sandbox_id x \<notin> set (map fst (hc_sandboxes (hm_core m)))
     \<and> execution_id x \<notin># kills (hm_calls m) + alive (hm_core m))"

lemma overtaken_quiet:
  assumes "overtaken x m" and "core_ok (hm_core m)" and "keeps (hm_core m) (hm_core m')"
    and "set (hm_creates m') \<subseteq> set (hm_creates m)"
    and "hm_drawn m' = hm_drawn m" and "hm_calls m' = hm_calls m @ ys" and "kills ys = {#}"
  shows "overtaken x m'"
proof -
  have k: "alive (hm_core m') = alive (hm_core m)" "hc_epoch (hm_core m) \<le> hc_epoch (hm_core m')"
    "map fst (hc_sandboxes (hm_core m')) = map fst (hc_sandboxes (hm_core m))"
    using assms(2,3) by (auto simp: keeps_def)
  have "cf_epoch f < hc_epoch (hm_core m')" if "(f, s) \<in> set (hm_creates m')" "cf_suffix f = x" for f s
    using that assms(1,4) k(2) unfolding overtaken_def by fastforce
  then show ?thesis using assms k(1,3) by (auto simp: overtaken_def)
qed

lemma overtaken_core:
  assumes "overtaken x m" and "core_ok (hm_core m)" and "keeps (hm_core m) (fst w)" and "kills (snd w) = {#}"
  shows "overtaken x (apply_core m w)"
  by (rule overtaken_quiet [OF assms(1,2) _ _ _ _ assms(4)]) (simp_all add: apply_core_def assms(3))

lemma overtaken_tunnels [simp]: "overtaken x (m\<lparr>hm_tunnels := t\<rparr>) = overtaken x m"
  by (simp add: overtaken_def)

lemma overtaken_rollback:
  assumes o: "overtaken x m" and ok: "core_ok (hm_core m)" and cr: "hm_creates m = xs @ (f, s) # ys"
    and k: "keeps (hm_core m) c" and ca: "kills calls = {#}"
  shows "overtaken x (m\<lparr>hm_core := enqueue (create_rollback c f r l) c, hm_calls := hm_calls m @ calls,
    hm_creates := xs @ ys\<rparr>)"
proof -
  let ?m = "m\<lparr>hm_core := c, hm_calls := hm_calls m @ calls\<rparr>"
  have o1: "overtaken x ?m" by (rule overtaken_quiet [OF o ok _ _ _ _ ca]) (simp_all add: k)
  have "execution_id x \<notin># job_kill (create_rollback c f r l)"
    using o1 by (auto simp: overtaken_def create_rollback_def Let_def cr)
  with o1 show ?thesis by (auto simp: overtaken_def cr)
qed

lemma overtaken_created:
  assumes o: "overtaken x m" and ok: "core_ok (hm_core m)" and cr: "hm_creates m = xs @ (f, AwaitLaunch r) # ys"
    and reg: "create_register (hm_core m) f r v = (w, Inr y)" and inv: "host_inv m"
  shows "overtaken x ((apply_core m w)\<lparr>hm_creates := xs @ ys\<rparr>)"
proof -
  from reg obtain c l e where ep: "hc_epoch (hm_core m) = cf_epoch f" and k: "keeps (hm_core m) c"
    and w: "fst w = c\<lparr>hc_sandboxes := jm_set (sandbox_id (cf_suffix f)) e (hc_sandboxes c),
      hc_leaseToSandbox := jm_set l (sandbox_id (cf_suffix f)) (hc_leaseToSandbox c)\<rparr>"
    and e: "e = (create_entry f r v)\<lparr>se_currentLeaseId := l\<rparr>" and ca: "kills (snd w) = {#}"
    by (rule create_register_Inr)
  let ?m = "m\<lparr>hm_core := c, hm_calls := hm_calls m @ snd w\<rparr>"
  have o1: "overtaken x ?m" by (rule overtaken_quiet [OF o ok _ _ _ _ ca]) (simp_all add: k)
  have ne: "cf_suffix f \<noteq> x" using o ep by (auto simp: overtaken_def cr)
  have "ids_ok ?m" using quiet_inv [OF inv, of ?m "snd w"] k ca by (simp add: host_inv_def)
  then have fresh: "jm_get (hc_sandboxes c) (sandbox_id (cf_suffix f)) = None"
    using in_flight_fresh [of ?m xs f "AwaitLaunch r" ys] cr by simp
  have "alive (fst w) = add_mset (execution_id (cf_suffix f)) (alive c)"
    using fresh by (simp add: w alive_def account_def jm_total_fresh e create_entry_def isTerminal_def)
  with o1 ne show ?thesis
    using fresh by (auto simp: overtaken_def apply_core_def cr w jm_set_fresh)
qed

lemma alive_capacity: "alive (c\<lparr>hc_capacity := l\<rparr>) = alive c"
  by (simp add: alive_def account_def)

lemma overtaken_step:
  "host_step m ev m' \<Longrightarrow> host_inv m \<Longrightarrow> overtaken x m \<Longrightarrow> overtaken x m'"
proof (induction rule: host_step.induct)
  case (create m input sig suffix nonce key f)
  then show ?case using create_begin_Inr [OF create.hyps(1)] by (auto simp: overtaken_def)
next
  case (reserve_ok m xs f ys fresh barrier l r)
  then show ?case by (auto simp: overtaken_def alive_capacity)
next
  case (reserve_fail m xs f ys barrier fresh l e)
  then show ?case by (auto simp: overtaken_def alive_capacity)
next
  case (launch m xs f r ys a)
  then show ?case by (auto simp: overtaken_def kills_def)
next
  case (launch_refused m xs f r ys e)
  then show ?case
    using overtaken_rollback [of x m xs f "Reserved r" ys "hm_core m" "[]"]
    by (simp add: host_inv_def keeps_same kills_def)
next
  case (launch_fail m xs f r ys)
  then show ?case
    using overtaken_rollback [of x m xs f "AwaitLaunch r" ys "hm_core m" "[]"]
    by (simp add: host_inv_def keeps_same kills_def)
next
  case (created m xs f r ys v w y)
  then show ?case by (intro overtaken_created) (simp_all add: host_inv_def)
next
  case (create_fail m xs f r ys v w e)
  then show ?case
    using overtaken_rollback [of x m xs f "AwaitLaunch r" ys "fst w" "snd w"] create_register_Inl [of "hm_core m"]
    by (auto simp: host_inv_def apply_core_def)
next
  case (expose m i p c f)
  show ?case
    by (rule overtaken_quiet [where ys = "[expose_call f]", OF expose.prems(2)])
      (use expose.prems(1) in \<open>simp_all add: host_inv_def kills_def expose_call_def
        expose_begin_keeps [OF expose.hyps]\<close>)
next
  case (expose_fail m xs f ys)
  show ?case
    by (rule overtaken_quiet [where ys = "[]", OF expose_fail.prems(2)])
      (use expose_fail.prems(1) in \<open>simp_all add: host_inv_def kills_def expose_failed_keeps\<close>)
next
  case (tunnel_router m xs q b ys)
  then show ?case by (simp add: overtaken_def kills_def)
next
  case (tunnel_ticket m xs q b ys digest draw bridge now now2 w f)
  then show ?case using tunnel_issue_keeps [OF tunnel_ticket.hyps(2)] by (simp add: host_inv_def overtaken_core)
next
  case (tunnel_no_ticket m xs q b ys digest draw bridge now now2 w e)
  then show ?case using tunnel_issue_keeps [OF tunnel_no_ticket.hyps(2)] by (simp add: host_inv_def overtaken_core)
next
  case (tunnel_done m xs f ys handle nonce credential w y)
  then show ?case using tunnel_register_keeps [OF tunnel_done.hyps(2)] by (simp add: host_inv_def overtaken_core)
next
  case (sync m r)
  then show ?case
    using core_step_keeps [of "hm_core m" r] quiet_calls core_step_calls [of "hm_core m" r]
    by (auto simp: host_inv_def intro!: overtaken_core)
next
  case (restart m)
  then show ?case
    using revokeAll_keeps [of "hm_core m"] quiet_calls revokeAll_calls [of _ "hm_core m"]
    by (auto simp: host_inv_def intro!: overtaken_core)
next
  case (reclaim_release m xs i k ys)
  then show ?case
    by (auto simp: overtaken_def alive_def account_def split: option.splits)
next
  case (reclaim_kill m xs y ys)
  then show ?case by (auto simp: overtaken_def alive_def account_def kills_def)
qed (simp_all add: overtaken_def)

text \<open>A restart overtakes every create that is in flight.\<close>

lemma restart_overtakes:
  assumes inv: "host_inv m" and f: "(f, s) \<in> set (hm_creates m)" and step: "host_step m HRestart m'"
  shows "overtaken (cf_suffix f) m'"
proof -
  from step have m': "m' = apply_core m (revokeAll (hm_core m))"
    by (cases rule: host_step.cases) auto
  have ep: "hc_epoch (hm_core m') = hc_epoch (hm_core m) + 1"
    by (simp add: m' apply_core_def revokeAll_def Let_def)
  have inv': "host_inv m'" by (rule host_step_inv [OF step inv])
  from f have f': "(f, s) \<in> set (hm_creates m')" by (simp add: m' apply_core_def)
  then have fl: "cf_suffix f \<in># in_flight m'" by (force simp: in_flight_def)
  have ids: "distinct (hm_drawn m')"
    "mset (map fst (hc_sandboxes (hm_core m'))) + image_mset sandbox_id (in_flight m')
      \<subseteq># image_mset sandbox_id (mset (hm_drawn m'))"
    "kills (hm_calls m') + alive (hm_core m') + image_mset execution_id (in_flight m')
      \<subseteq># image_mset execution_id (mset (hm_drawn m'))"
    using inv' by (simp_all add: host_inv_def ids_ok_def executions_ok_def)
  have "sandbox_id (cf_suffix f) \<notin># mset (map fst (hc_sandboxes (hm_core m')))"
    by (rule split_once [OF ids(2,1) inj_ids(1)]) (use fl in simp)
  moreover have "execution_id (cf_suffix f) \<notin># kills (hm_calls m') + alive (hm_core m')"
    by (rule split_once [OF ids(3,1) inj_ids(2)]) (use fl in simp)
  moreover have "sandbox_id (cf_suffix f) \<in># image_mset sandbox_id (mset (hm_drawn m'))"
    using mset_subset_eqD [OF ids(2), of "sandbox_id (cf_suffix f)"] fl by simp
  then have "cf_suffix f \<in> set (hm_drawn m')" by auto
  moreover have "cf_epoch g < hc_epoch (hm_core m')" if "(g, u) \<in> set (hm_creates m')" for g u
  proof -
    have "(g, u) \<in> set (hm_creates m)" using that by (simp add: m' apply_core_def)
    then have "cf_epoch g \<le> hc_epoch (hm_core m)" using inv by (auto simp: host_inv_def epochs_ok_def)
    then show ?thesis by (simp add: ep)
  qed
  ultimately show ?thesis by (auto simp: overtaken_def)
qed

end
