(* ===== verification/Host_Properties.thy ===== *)
theory Host_Properties
  imports Host_Machine
begin

text \<open>
  The properties of the host control plane, over every interleaving of \<open>host_step\<close>, and a run of it: a
  sandbox is created, a port of it exposed, a tunnel to it begun, and it is killed while the tunnel waits
  for its bridge.
\<close>

subsection \<open>A run\<close>

definition example_input :: create_input where
  "example_input = \<lparr>ci_timeout = TimeoutDuration (NumInt 60000), ci_memoryMiB = Fin 0, ci_region = Loc,
     ci_labels = [], ci_idempotencyKey = [], ci_allowNet = None, ci_netless = None, ci_vcpus = None\<rparr>"

definition example_frame :: create_frame where
  "example_frame = \<lparr>cf_input = example_input, cf_connectionSignal = None, cf_suffix = ''a'', cf_bootNonce = [7],
     cf_idempotencyKey = [1], cf_epoch = 0,
     cf_request = \<lparr>rq_memory = MemNumber (Fin 1342177280), rq_diskBytes = NumInt 2147483648, rq_ports = None\<rparr>\<rparr>"

definition example_core :: host_core where
  "example_core = new_host_core
     \<lparr>cl_vcpusTotal = 4, cl_memoryTotalMiB = 7680, cl_diskTotalBytes = 64424509440, cl_portStart = 20000,
      cl_portEnd = 20128, cl_sandboxLimit = 2, cl_vcpusCommitted = 0, cl_memoryCommittedMiB = Some 0,
      cl_diskCommittedBytes = 0, cl_allocatedPorts = [], cl_reservations = []\<rparr>
     \<lparr>ts_ttlMs = 15000, ts_maxOutstanding = 4096, ts_tickets = []\<rparr>
     \<lparr>fp_min = 40100, fp_max = 40199, fp_used = []\<rparr> None True (NumInt 52)"

definition example_start :: host_machine where
  "example_start = \<lparr>hm_core = example_core, hm_creates = [], hm_exposes = [], hm_tunnels = [], hm_calls = [],
     hm_drawn = []\<rparr>"

definition example_reservation :: reservation where
  "example_reservation = \<lparr>rs_id = ''r'', rs_memoryMiB = Some 1280, rs_vcpus = 2, rs_diskBytes = 2147483648,
     rs_ports = []\<rparr>"

definition example_held :: ledger where
  "example_held = fst (reserve (hc_capacity example_core) (cf_request example_frame) True ''r'')"

definition example_create_env :: create_env where
  "example_create_env = \<lparr>ce_ownerSecret = [9], ce_createdAt = 1000, ce_leaseId = ''l'', ce_aborted = (\<lambda>_. False),
     ce_now = 1000, ce_timerNow = 1000, ce_resumeSecret = [8]\<rparr>"

definition example_creating :: host_machine where
  "example_creating = example_start\<lparr>hm_creates := [(example_frame, AwaitReserve)], hm_drawn := [''a'']\<rparr>"

definition example_launching :: host_machine where
  "example_launching = example_creating\<lparr>hm_core := example_core\<lparr>hc_capacity := example_held\<rparr>,
     hm_creates := [(example_frame, AwaitLaunch example_reservation)],
     hm_calls := [CallLaunch \<lparr>la_sandboxId = ''sbx-loc-a'', la_executionId = ''exec-a'',
        la_artifactId = ''artifact-loc'', la_allocationId = ''alloc-a'', la_bootNonce = [7],
        la_idempotencyKey = [1], la_allowNet = None, la_netless = None, la_vcpus = None\<rparr>]\<rparr>"

definition example_running :: host_machine where
  "example_running = (apply_core example_launching
     (fst (create_register (hm_core example_launching) example_frame example_reservation example_create_env)))
     \<lparr>hm_creates := []\<rparr>"

text \<open>The states of the run, evaluated.\<close>

definition example_entry :: sandbox_entry where
  "example_entry = \<lparr>se_id = ''sbx_loc_a'', se_rootdSandboxId = ''sbx-loc-a'', se_executionId = ''exec-a'',
     se_state = Running, se_createdAtUnixMs = 1000, se_labels = [], se_region = Loc, se_bootNonce = [7],
     se_reservation = example_reservation, se_ownerSecret = [9], se_currentLeaseId = ''l'', se_liveLeases = 1,
     se_timeout = TimeoutDuration (NumInt 60000), se_terminationReason = []\<rparr>"

lemma example_held_eval [code]: "example_held = (hc_capacity example_core)\<lparr>cl_vcpusCommitted := 2,
    cl_memoryCommittedMiB := Some 1280, cl_diskCommittedBytes := 2147483648,
    cl_reservations := [(''r'', example_reservation)]\<rparr>"
  by code_simp

lemma example_running_eval [code]: "example_running = example_launching\<lparr>hm_creates := [],
    hm_core := (hm_core example_launching)\<lparr>
      hc_leases := \<lparr>lm_maxExtendMs = 1800000, lm_leases = [(''l'', \<lparr>le_id = ''l'', le_sandboxId = ''sbx_loc_a'',
        le_kind = DurationLease, le_generation = 1, le_deadlineUnixMs = Some 61000, le_timer = Some 61000,
        le_signal = None, le_micro = False, le_settled = False\<rparr>)]\<rparr>,
      hc_sandboxes := [(''sbx_loc_a'', example_entry)], hc_leaseToSandbox := [(''l'', ''sbx_loc_a'')]\<rparr>\<rparr>"
  by code_simp

definition example_expose :: expose_frame where
  "example_expose = \<lparr>ef_sandboxId = ''sbx_loc_a'', ef_executionId = ''exec-a'', ef_guestPort = NumInt 80,
     ef_hostPort = 40100\<rparr>"

definition example_exposed :: host_machine where
  "example_exposed = (case expose_begin (hm_core example_running) ''sbx_loc_a'' (NumInt 80) of
      Inr (c, f) \<Rightarrow> example_running\<lparr>hm_core := c, hm_exposes := [f],
        hm_calls := hm_calls example_running @ [expose_call f]\<rparr>
    | Inl _ \<Rightarrow> example_running)"

lemma example_exposed_eval [code]: "example_exposed = example_running\<lparr>hm_exposes := [example_expose],
    hm_calls := hm_calls example_running @ [expose_call example_expose],
    hm_core := (hm_core example_running)\<lparr>
      hc_forwardPorts := \<lparr>fp_min = 40100, fp_max = 40199, fp_used = [40100]\<rparr>,
      hc_forwardLeases := [(''sbx_loc_a'', [40100])]\<rparr>\<rparr>"
  by code_simp

definition example_bridge_request :: bridge_request where
  "example_bridge_request = \<lparr>br_sandboxId = ''sbx_loc_a'', br_executionId = ''exec-a'', br_guestPort = NumInt 52\<rparr>"

definition example_tunnel_binding :: tunnel_binding where
  "example_tunnel_binding = \<lparr>tb_sessionId = ''l'', tb_sandboxId = ''sbx_loc_a'', tb_bootNonce = ''07'',
     tb_leaseGeneration = NumInt 1\<rparr>"

definition example_waiting_tunnel :: host_machine where
  "example_waiting_tunnel = example_exposed\<lparr>hm_tunnels := [AwaitBridge example_bridge_request example_tunnel_binding],
     hm_calls := hm_calls example_exposed @ [CallReserveBridge example_bridge_request]\<rparr>"

definition example_killed :: host_machine where
  "example_killed = (case killSandbox (hm_core example_waiting_tunnel) ''sbx_loc_a'' of
      Inr r \<Rightarrow> apply_core example_waiting_tunnel r
    | Inl _ \<Rightarrow> example_waiting_tunnel)"

lemma example_killed_eval [code]: "example_killed = example_waiting_tunnel\<lparr>
    hm_core := (hm_core example_running)\<lparr>hc_leases := \<lparr>lm_maxExtendMs = 1800000, lm_leases = []\<rparr>,
      hc_sandboxes := [(''sbx_loc_a'', example_entry\<lparr>se_state := Terminated, se_liveLeases := 0,
        se_terminationReason := ''killed''\<rparr>)], hc_leaseToSandbox := [],
      hc_pending := [ReleaseThen ''r'' (Some ''exec-a'')]\<rparr>\<rparr>"
  by code_simp

lemma example_start_init: "host_init example_start"
proof -
  have "new_ledger \<lparr>hb_vcpus = None, hb_memoryMiB = None, hb_diskBytes = None, hb_portRange = None\<rparr>
      \<lparr>hh_vcpus = None, hh_memoryMiB = None, hh_diskBytes = None\<rparr> None = Inr (hc_capacity example_core)"
    by code_simp
  moreover have "new_forward_ports None None = Inr (hc_forwardPorts example_core)" by code_simp
  moreover have "tickets_ok (hc_tickets example_core)"
    by (simp add: example_core_def new_host_core_def tickets_ok_def)
  moreover have "example_start = \<lparr>hm_core = new_host_core (hc_capacity example_core) (hc_tickets example_core)
      (hc_forwardPorts example_core) None True (NumInt 52), hm_creates = [], hm_exposes = [], hm_tunnels = [],
      hm_calls = [], hm_drawn = []\<rparr>"
    by (simp add: example_start_def example_core_def new_host_core_def)
  ultimately show ?thesis unfolding host_init_def by blast
qed

lemma example_creating_reachable: "reachable host_init host_step example_creating"
proof -
  have 0: "reachable host_init host_step example_start" by (rule reach_init) (rule example_start_init)
  have b: "create_begin example_core example_input None ''a'' [7] [1] = Inr example_frame" by code_simp
  have "host_step example_start (HCreate example_frame) example_creating"
    using host_step.create [of example_start example_input None "''a''" "[7]" "[1]" example_frame] b
    by (simp add: example_start_def example_creating_def)
  then show ?thesis by (rule reach_step [OF 0])
qed

lemma example_launching_reachable: "reachable host_init host_step example_launching"
proof -
  let ?r = "example_creating\<lparr>hm_core := example_core\<lparr>hc_capacity := example_held\<rparr>,
    hm_creates := [(example_frame, Reserved example_reservation)]\<rparr>"
  have r: "reserve (hc_capacity example_core) (cf_request example_frame) True ''r'' = (example_held, Inr example_reservation)"
    by code_simp
  have "host_step example_creating (HReserve example_frame) ?r"
    using host_step.reserve_ok [of example_creating "[]" example_frame "[]" "''r''" True example_held example_reservation] r
    by (simp add: example_creating_def example_start_def example_core_def new_host_core_def jm_get_def)
  then have 1: "reachable host_init host_step ?r" by (rule reach_step [OF example_creating_reachable])
  have "create_launch (hm_core ?r) example_frame = Inr \<lparr>la_sandboxId = ''sbx-loc-a'', la_executionId = ''exec-a'',
      la_artifactId = ''artifact-loc'', la_allocationId = ''alloc-a'', la_bootNonce = [7],
      la_idempotencyKey = [1], la_allowNet = None, la_netless = None, la_vcpus = None\<rparr>" by code_simp
  from host_step.launch [of ?r "[]" example_frame example_reservation "[]", OF _ this]
  have "host_step ?r (HLaunch example_frame) example_launching"
    by (simp add: example_launching_def example_creating_def example_start_def)
  then show ?thesis by (rule reach_step [OF 1])
qed

lemma example_running_reachable: "reachable host_init host_step example_running"
proof (rule reach_step [OF example_launching_reachable])
  let ?r = "create_register (hm_core example_launching) example_frame example_reservation example_create_env"
  have "is_ok (snd ?r)" by code_simp
  then obtain x where "?r = (fst ?r, Inr x)" by (cases "snd ?r") (auto simp: prod_eq_iff)
  from host_step.created [of example_launching "[]" example_frame example_reservation "[]", OF _ this]
  show "host_step example_launching (HCreated example_frame) example_running"
    by (simp add: example_launching_def example_running_def)
qed

lemma example_exposed_reachable: "reachable host_init host_step example_exposed"
proof -
  let ?r = "expose_begin (hm_core example_running) ''sbx_loc_a'' (NumInt 80)"
  have "is_ok ?r" by code_simp
  then obtain c f where r: "?r = Inr (c, f)" by (cases ?r) auto
  have "hm_exposes example_running = []" by code_simp
  with host_step.expose [OF r] r have "host_step example_running (HExpose f) example_exposed"
    by (simp add: example_exposed_def)
  then show ?thesis by (rule reach_step [OF example_running_reachable])
qed

lemma example_waiting_reachable: "reachable host_init host_step example_waiting_tunnel"
proof -
  let ?t = "example_exposed\<lparr>hm_tunnels := [AwaitRouter example_bridge_request example_tunnel_binding]\<rparr>"
  have b: "tunnel_begin (hm_core example_exposed) ''sbx_loc_a'' = Inr (example_bridge_request, example_tunnel_binding)" by code_simp
  have "hm_tunnels example_exposed = []" by code_simp
  with host_step.tunnel [OF b] have "host_step example_exposed (HTunnel ''sbx_loc_a'') ?t" by simp
  then have 1: "reachable host_init host_step ?t" by (rule reach_step [OF example_exposed_reachable])
  from host_step.tunnel_router [of ?t "[]" example_bridge_request example_tunnel_binding "[]"]
  have "host_step ?t (HTunnel (br_sandboxId example_bridge_request)) example_waiting_tunnel"
    by (simp add: example_waiting_tunnel_def)
  then show ?thesis by (rule reach_step [OF 1])
qed

lemma example_killed_reachable: "reachable host_init host_step example_killed"
proof (rule reach_step [OF example_waiting_reachable])
  let ?r = "killSandbox (hm_core example_waiting_tunnel) ''sbx_loc_a''"
  have "is_ok ?r" by code_simp
  then obtain r where r: "?r = Inr r" by (cases ?r) auto
  have "core_step (hm_core example_waiting_tunnel) r" by (rule core_step.kill [OF r])
  then show "host_step example_waiting_tunnel HSync example_killed"
    by (simp add: example_killed_def r host_step.sync)
qed

subsection \<open>Properties\<close>

lemma running_total:
  "jm_total (\<lambda>e. if isTerminal (se_state e) then {#} else {#g e#}) xs
   = mset (map (\<lambda>x. g (snd x)) (filter (\<lambda>x. se_state (snd x) \<noteq> Terminated) xs))"
  by (induction xs) (simp_all add: jm_total_def isTerminal_def)

text \<open>
  C34. A forward port belongs to one live sandbox. In every state the host reaches, whatever calls, expiries
  and restarts interleave with exposures in flight, the ports in use are exactly the ports recorded for some
  sandbox; no port is recorded for two; every one is in the configured range; and the sandbox it is recorded
  for is known and not terminated, so a termination has freed all its ports.
\<close>

theorem forward_port_has_one_live_owner:
  assumes "reachable host_init host_step m" and "c = hm_core m"
  shows "(\<forall>p. p \<in> set (fp_used (hc_forwardPorts c)) \<longleftrightarrow>
        (\<exists>s ps. jm_get (hc_forwardLeases c) s = Some ps \<and> p \<in> set ps))
    \<and> (\<forall>p s ps t qs. jm_get (hc_forwardLeases c) s = Some ps \<and> p \<in> set ps
        \<and> jm_get (hc_forwardLeases c) t = Some qs \<and> p \<in> set qs \<longrightarrow> s = t)
    \<and> (\<forall>s ps p. jm_get (hc_forwardLeases c) s = Some ps \<and> p \<in> set ps \<longrightarrow>
        fp_min (hc_forwardPorts c) \<le> p \<and> p \<le> fp_max (hc_forwardPorts c)
        \<and> (\<exists>e. jm_get (hc_sandboxes c) s = Some e \<and> se_state e \<noteq> Terminated))"
proof -
  have "core_ok c" using host.reachable_inv [OF assms(1)] assms(2) by (simp add: host_inv_def)
  then have ok: "jm_ok (hc_forwardLeases c)" "forward_ports_ok (hc_forwardPorts c)" "forward_live c"
    and ms: "mset (fp_used (hc_forwardPorts c)) = jm_total mset (hc_forwardLeases c)"
    by (simp_all add: core_ok_def forward_ok_def)
  have iff: "p \<in> set (fp_used (hc_forwardPorts c)) \<longleftrightarrow>
      (\<exists>s ps. jm_get (hc_forwardLeases c) s = Some ps \<and> p \<in> set ps)" for p
  proof -
    have "p \<in># mset (fp_used (hc_forwardPorts c)) \<longleftrightarrow> (\<exists>(s, ps) \<in> set (hc_forwardLeases c). p \<in> set ps)"
      unfolding ms by (rule set_jm_total [of p "\<lambda>ps. ps"])
    then show ?thesis by (auto simp: jm_get_mem [OF ok(1)])
  qed
  have one: "s = t" if s: "jm_get (hc_forwardLeases c) s = Some ps" "p \<in> set ps"
    and t: "jm_get (hc_forwardLeases c) t = Some qs" "p \<in> set qs" for p s ps t qs
  proof (rule ccontr)
    assume "s \<noteq> t"
    have del: "jm_get (jm_delete s (hc_forwardLeases c)) t = Some qs" using t(1) \<open>s \<noteq> t\<close> by (simp add: jm_get_delete)
    have "mset (fp_used (hc_forwardPorts c)) = mset ps + (mset qs +
        jm_total mset (jm_delete t (jm_delete s (hc_forwardLeases c))))"
      using ms jm_total_delete [OF ok(1) s(1), of mset] jm_total_delete [OF _ del, of mset]
      by (simp add: jm.ok_remove ok(1))
    from filter_disjoint_mset [OF _ this] ok(2)
    have "mset (filter (\<lambda>q. q \<notin> set ps) (fp_used (hc_forwardPorts c))) = mset qs +
        jm_total mset (jm_delete t (jm_delete s (hc_forwardLeases c)))" by (simp add: forward_ports_ok_def)
    moreover have "p \<in># mset qs" using t(2) by simp
    ultimately have "p \<in># mset (filter (\<lambda>q. q \<notin> set ps) (fp_used (hc_forwardPorts c)))" by simp
    then show False using s(2) by simp
  qed
  show ?thesis
  proof (intro conjI allI impI)
    fix s ps p
    assume "jm_get (hc_forwardLeases c) s = Some ps \<and> p \<in> set ps"
    then have "jm_get (hc_forwardLeases c) s \<noteq> None" and "p \<in> set (fp_used (hc_forwardPorts c))"
      using iff by auto
    then show "fp_min (hc_forwardPorts c) \<le> p" "p \<le> fp_max (hc_forwardPorts c)"
      "\<exists>e. jm_get (hc_sandboxes c) s = Some e \<and> se_state e \<noteq> Terminated"
      using ok(2,3) by (auto simp: forward_ports_ok_def port_valid_def forward_live_def isTerminal_def)
  qed (use iff one in blast)+
qed

theorem forward_port_has_one_live_owner_witness:
  "fp_used (hc_forwardPorts (hm_core example_exposed)) = [40100]
   \<and> (\<exists>s ps. jm_get (hc_forwardLeases (hm_core example_exposed)) s = Some ps \<and> (40100 :: int) \<in> set ps)"
proof -
  have "fp_used (hc_forwardPorts (hm_core example_exposed)) = [40100]" by code_simp
  then show ?thesis using forward_port_has_one_live_owner [OF example_exposed_reachable refl] by auto
qed

text \<open>
  C35. Capacity is neither leaked nor given back twice. In every reachable state the reservations the ledger
  holds are, one for one, those of the sandboxes that are not terminated, of the creates in flight and of the
  releases that are still pending. So when no create is in flight and no release is pending, a reservation is
  held exactly for each sandbox that is not terminated: whatever creates failed, were overtaken by a restart
  or were killed, their capacity is back.
\<close>

theorem capacity_held_exactly_by_the_living:
  assumes "reachable host_init host_step m" and "c = hm_core m"
  shows "mset (map fst (cl_reservations (hc_capacity c))) = held c + in_flight_held m
    \<and> (hm_creates m = [] \<and> hc_pending c = [] \<longrightarrow>
        (\<forall>i. jm_get (cl_reservations (hc_capacity c)) i \<noteq> None \<longleftrightarrow>
          (\<exists>s e. jm_get (hc_sandboxes c) s = Some e \<and> se_state e \<noteq> Terminated \<and> rs_id (se_reservation e) = i))
        \<and> length (cl_reservations (hc_capacity c))
            = length (filter (\<lambda>x. se_state (snd x) \<noteq> Terminated) (hc_sandboxes c)))"
proof (intro conjI impI allI)
  have inv: "host_inv m" by (rule host.reachable_inv [OF assms(1)])
  then have eq: "mset (map fst (cl_reservations (hc_capacity c))) = held c + in_flight_held m"
    and jm: "jm_ok (hc_sandboxes c)" and lok: "jm_ok (cl_reservations (hc_capacity c))"
    using assms(2) by (simp_all add: host_inv_def reserved_ok_def core_ok_def ledger_ok_def)
  show "mset (map fst (cl_reservations (hc_capacity c))) = held c + in_flight_held m" by (rule eq)
  assume "hm_creates m = [] \<and> hc_pending c = []"
  then have "mset (map fst (cl_reservations (hc_capacity c)))
      = jm_total (\<lambda>e. if isTerminal (se_state e) then {#} else {#rs_id (se_reservation e)#}) (hc_sandboxes c)"
    using eq by (simp add: held_def account_def in_flight_held_def)
  also have "\<dots> = mset (map (\<lambda>x. rs_id (se_reservation (snd x)))
      (filter (\<lambda>x. se_state (snd x) \<noteq> Terminated) (hc_sandboxes c)))"
    by (rule running_total)
  finally have eq': "mset (map fst (cl_reservations (hc_capacity c))) = mset (map (\<lambda>x. rs_id (se_reservation (snd x)))
      (filter (\<lambda>x. se_state (snd x) \<noteq> Terminated) (hc_sandboxes c)))" .
  from mset_eq_length [OF this] show "length (cl_reservations (hc_capacity c))
      = length (filter (\<lambda>x. se_state (snd x) \<noteq> Terminated) (hc_sandboxes c))"
    by (simp only: length_map)
  fix i
  have "jm_get (cl_reservations (hc_capacity c)) i \<noteq> None \<longleftrightarrow> i \<in> set (map fst (cl_reservations (hc_capacity c)))"
    by (auto simp: jm_get_def map_of_eq_None_iff)
  also have "\<dots> \<longleftrightarrow> (\<exists>x \<in> set (hc_sandboxes c). se_state (snd x) \<noteq> Terminated \<and> rs_id (se_reservation (snd x)) = i)"
    using arg_cong [OF eq', of set_mset] by auto
  also have "\<dots> \<longleftrightarrow> (\<exists>s e. jm_get (hc_sandboxes c) s = Some e \<and> se_state e \<noteq> Terminated
      \<and> rs_id (se_reservation e) = i)"
    unfolding jm_get_mem [OF jm] by force
  finally show "jm_get (cl_reservations (hc_capacity c)) i \<noteq> None \<longleftrightarrow>
      (\<exists>s e. jm_get (hc_sandboxes c) s = Some e \<and> se_state e \<noteq> Terminated \<and> rs_id (se_reservation e) = i)" .
qed

theorem capacity_held_exactly_by_the_living_witness:
  "length (cl_reservations (hc_capacity (hm_core example_running)))
     = length (filter (\<lambda>x. se_state (snd x) \<noteq> Terminated) (hc_sandboxes (hm_core example_running)))
   \<and> length (hc_sandboxes (hm_core example_running)) = 1"
proof -
  have "hm_creates example_running = []" "hc_pending (hm_core example_running) = []"
    "length (hc_sandboxes (hm_core example_running)) = 1" by code_simp+
  then show ?thesis using capacity_held_exactly_by_the_living [OF example_running_reachable refl] by simp
qed

text \<open>
  C36. One kill per execution. In every reachable state at most one kill was sent for an execution, and only
  after its launch was; for a sandbox that is not terminated none was sent and none is pending; for a
  terminated one exactly one was sent or is pending.
\<close>

theorem one_kill_per_terminated_sandbox:
  assumes "reachable host_init host_step m" and "c = hm_core m"
  shows "(\<forall>x. count (kills (hm_calls m)) x \<le> 1)
    \<and> (\<forall>x. CallKill x \<in> set (hm_calls m) \<longrightarrow> (\<exists>a. CallLaunch a \<in> set (hm_calls m) \<and> la_executionId a = x))
    \<and> (\<forall>i e. jm_get (hc_sandboxes c) i = Some e \<longrightarrow>
        count (kills (hm_calls m) + pending_kills c) (se_executionId e) = (if se_state e = Terminated then 1 else 0))"
proof -
  let ?run = "jm_total (\<lambda>e. if isTerminal (se_state e) then {#} else {#se_executionId e#}) (hc_sandboxes c)"
  have inv: "host_inv m" by (rule host.reachable_inv [OF assms(1)])
  have al: "alive c = ?run + pending_kills c" by (simp add: alive_def account_def pending_kills_def)
  have le: "count (kills (hm_calls m)) x + count ?run x + count (pending_kills c) x \<le> 1" for x
  proof -
    have "kills (hm_calls m) + alive c \<subseteq># image_mset execution_id (mset (hm_drawn m))"
      using inv assms(2) sub_add_left by (auto simp: host_inv_def executions_ok_def)
    from mset_subset_eq_count [OF this, of x] count_drawn [OF _ inj_ids(2), of "hm_drawn m" x]
    show ?thesis using inv by (simp add: host_inv_def ids_ok_def al)
  qed
  have kill_mem: "x \<in># kills (hm_calls m) \<longleftrightarrow> CallKill x \<in> set (hm_calls m)" for x
    by (force simp: kills_def split: host_call.splits)
  have jm: "jm_ok (hc_sandboxes c)" using inv assms(2) by (simp add: host_inv_def core_ok_def)
  have sb: "count (kills (hm_calls m) + pending_kills c) (se_executionId e) = (if se_state e = Terminated then 1 else 0)"
    if e: "jm_get (hc_sandboxes c) i = Some e" for i e
  proof (cases "se_state e = Terminated")
    case True
    then have "se_executionId e \<in># kills (hm_calls m) + pending_kills c"
      using inv e assms(2) by (auto simp: host_inv_def terminated_killed_def)
    then have "1 \<le> count (kills (hm_calls m) + pending_kills c) (se_executionId e)" by (simp only: count_greater_eq_one_iff)
    then show ?thesis using le [of "se_executionId e"] True by simp
  next
    case False
    then have "1 \<le> count ?run (se_executionId e)"
      using jm_total_delete [OF jm e, of "\<lambda>e. if isTerminal (se_state e) then {#} else {#se_executionId e#}"]
      by (simp add: isTerminal_def)
    with le [of "se_executionId e"]
    have "count (kills (hm_calls m)) (se_executionId e) + count (pending_kills c) (se_executionId e) = 0" by linarith
    then show ?thesis using False by simp
  qed
  show ?thesis
  proof (intro conjI allI impI)
    fix x
    show "count (kills (hm_calls m)) x \<le> 1" using le [of x] by linarith
    show "\<exists>a. CallLaunch a \<in> set (hm_calls m) \<and> la_executionId a = x" if "CallKill x \<in> set (hm_calls m)"
      using inv that by (auto simp: host_inv_def launches_ok_def launched_def kill_mem [symmetric])
  qed (rule sb)
qed

theorem one_kill_per_terminated_sandbox_witness:
  "\<exists>e. jm_get (hc_sandboxes (hm_core example_killed)) ''sbx_loc_a'' = Some e
     \<and> count (kills (hm_calls example_killed) + pending_kills (hm_core example_killed)) (se_executionId e) = 1"
proof -
  have "map_option se_state (jm_get (hc_sandboxes (hm_core example_killed)) ''sbx_loc_a'') = Some Terminated"
    by code_simp
  then show ?thesis
    using one_kill_per_terminated_sandbox [OF example_killed_reachable refl] by auto
qed

lemma revoke_entries_clears:
  "jm_get (hc_forwardLeases (fst (revoke_entries es c))) s
     = (if s \<in> se_id ` set es then None else jm_get (hc_forwardLeases c) s)"
  "jm_get (hc_tunnels (fst (revoke_entries es c))) s
     = (if s \<in> se_id ` set es then None else jm_get (hc_tunnels c) s)"
  "v \<in> set (ts_tickets (hc_tickets (fst (revoke_entries es c)))) \<longleftrightarrow>
     v \<in> set (ts_tickets (hc_tickets c)) \<and> tb_sandboxId (tk_binding (snd v)) \<notin> se_id ` set es"
  by (induction es arbitrary: c)
    (auto simp: Let_def releaseForwardPorts_get closeTunnels_get revokeSandbox_def revoke_tickets_def jm_filter_def)

text \<open>
  C37. A restart silences what was in flight. A create that is in flight when \<open>revokeAll\<close> runs never becomes a
  sandbox and no kill is ever sent for its execution, whatever happens afterwards; the restart itself sends no
  kill, leaves no ticket, route or forward port of a known sandbox and no armed lease behind.
\<close>

theorem restart_rolls_back_creates_in_flight:
  assumes "reachable host_init host_step m" and "(f, s) \<in> set (hm_creates m)"
    and "host_step m HRestart m'" and "reachable (\<lambda>x. x = m') host_step m''"
  shows "jm_get (hc_sandboxes (hm_core m'')) (sandbox_id (cf_suffix f)) = None
    \<and> CallKill (execution_id (cf_suffix f)) \<notin> set (hm_calls m'')
    \<and> kills (hm_calls m') = kills (hm_calls m) \<and> hc_pending (hm_core m') = hc_pending (hm_core m)
    \<and> (\<forall>i e. jm_get (hc_sandboxes (hm_core m')) i = Some e \<longrightarrow>
        jm_get (hc_forwardLeases (hm_core m')) i = None \<and> jm_get (hc_tunnels (hm_core m')) i = None
        \<and> (\<forall>(v, t) \<in> set (ts_tickets (hc_tickets (hm_core m'))). tb_sandboxId (tk_binding t) \<noteq> i))"
proof -
  let ?x = "cf_suffix f"
  have inv: "host_inv m" by (rule host.reachable_inv [OF assms(1)])
  from assms(4) have "host_inv m'' \<and> overtaken ?x m''"
  proof (induction rule: reachable.induct)
    case (reach_init t)
    then show ?case using host_step_inv [OF assms(3) inv] restart_overtakes [OF inv assms(2,3)] by simp
  next
    case (reach_step t l u)
    then show ?case by (auto intro: host_step_inv overtaken_step)
  qed
  then have "sandbox_id ?x \<notin> fst ` set (hc_sandboxes (hm_core m''))" and "execution_id ?x \<notin># kills (hm_calls m'')"
    by (auto simp: overtaken_def)
  moreover have "CallKill (execution_id ?x) \<in> set (hm_calls m'') \<Longrightarrow> execution_id ?x \<in># kills (hm_calls m'')"
    by (force simp: kills_def)
  moreover have m': "m' = apply_core m (revokeAll (hm_core m))"
    using assms(3) by (cases rule: host_step.cases) auto
  moreover have "kills (snd (revokeAll (hm_core m))) = {#}" by (rule quiet_calls) (rule revokeAll_calls)
  moreover have "jm_get (hc_forwardLeases (hm_core m')) i = None \<and> jm_get (hc_tunnels (hm_core m')) i = None
      \<and> (\<forall>(v, t) \<in> set (ts_tickets (hc_tickets (hm_core m'))). tb_sandboxId (tk_binding t) \<noteq> i)"
    if i: "jm_get (hc_sandboxes (hm_core m')) i = Some e" for i e
  proof -
    have "jm_get (hc_sandboxes (hm_core m)) i = Some e"
      using i by (simp add: m' apply_core_def revokeAll_def Let_def)
    then have "(i, e) \<in> set (hc_sandboxes (hm_core m))" "se_id e = i"
      using inv by (auto simp: host_inv_def core_ok_def jm_get_mem)
    then have mem: "i \<in> se_id ` snd ` set (hc_sandboxes (hm_core m))" by force
    have "tb_sandboxId (tk_binding (snd v)) \<noteq> i" if "v \<in> set (ts_tickets (hc_tickets (hm_core m')))" for v
      using that mem by (simp add: m' apply_core_def revokeAll_def Let_def revoke_entries_clears(3)) metis
    moreover have "jm_get (hc_forwardLeases (hm_core m')) i = None" "jm_get (hc_tunnels (hm_core m')) i = None"
      using mem by (simp_all add: m' apply_core_def revokeAll_def Let_def revoke_entries_clears(1,2))
    ultimately show ?thesis by fastforce
  qed
  ultimately show ?thesis
    by (auto simp: jm_get_def map_of_eq_None_iff apply_core_def revokeAll_def Let_def)
qed

theorem restart_rolls_back_creates_in_flight_witness:
  "jm_get (hc_sandboxes (hm_core (apply_core example_creating (revokeAll (hm_core example_creating))))) ''sbx_loc_a''
   = None"
proof -
  let ?m = "apply_core example_creating (revokeAll (hm_core example_creating))"
  have "(example_frame, AwaitReserve) \<in> set (hm_creates example_creating)" by (simp add: example_creating_def)
  moreover have "reachable (\<lambda>x. x = ?m) host_step ?m" by (rule reach_init) simp
  ultimately have "jm_get (hc_sandboxes (hm_core ?m)) (sandbox_id (cf_suffix example_frame)) = None"
    using restart_rolls_back_creates_in_flight [OF example_creating_reachable _ host_step.restart] by blast
  then show ?thesis by (simp add: example_frame_def sandbox_id_def)
qed

text \<open>
  C38. A deadline takes the sandbox down. When the timer of a running sandbox's lease fires at or after its
  deadline, the sandbox is terminated with its lease gone; it has no ticket, no route and no forward port left;
  the release of its reservation followed by the kill of its execution is queued; and every other sandbox is
  as it was.
\<close>

theorem deadline_terminates_the_sandbox:
  assumes "reachable host_init host_step m" and "c = hm_core m"
    and "jm_get (hc_sandboxes c) i = Some e" and "se_state e \<noteq> Terminated"
    and "jm_get (lm_leases (hc_leases c)) (se_currentLeaseId e) = Some l" and "le_sandboxId l = i"
    and "le_id l = se_currentLeaseId e" and "\<not> le_settled l" and "le_timer l = Some t" and "t \<le> now"
    and "c' = fst (host_timer c (se_currentLeaseId e) now)"
  shows "(\<exists>e'. jm_get (hc_sandboxes c') i = Some e' \<and> se_state e' = Terminated \<and> se_liveLeases e' = 0)
    \<and> lease_get (hc_leases c') (se_currentLeaseId e) = None
    \<and> jm_get (hc_forwardLeases c') i = None \<and> jm_get (hc_tunnels c') i = None
    \<and> (\<forall>(v, k) \<in> set (ts_tickets (hc_tickets c')). tb_sandboxId (tk_binding k) \<noteq> i)
    \<and> hc_pending c' = hc_pending c @ [ReleaseThen (rs_id (se_reservation e)) (Some (se_executionId e))]
    \<and> (\<forall>j. j \<noteq> i \<longrightarrow> jm_get (hc_sandboxes c') j = jm_get (hc_sandboxes c) j)"
proof -
  have ok: "core_ok c" using host.reachable_inv [OF assms(1)] assms(2) by (simp add: host_inv_def)
  then have id: "se_id e = i" using assms(3) by (auto simp: core_ok_def)
  let ?m = "(hc_leases c)\<lparr>lm_leases := jm_delete (se_currentLeaseId e) (lm_leases (hc_leases c))\<rparr>"
  let ?c = "c\<lparr>hc_leases := ?m\<rparr>"
  have c': "c' = fst (onLeaseExpire i ?c)"
    using assms(5-10) by (simp add: assms(11) host_timer_def timer_fire_def settle_def with_leases_def Let_def)
  have d: "dies i ?c e" using assms(3,4) by (simp add: dies_def isTerminal_def)
  note x = onLeaseExpire_dies [OF d]
  show ?thesis
    using x by (auto simp: c' id jm_get_set releaseForwardPorts_get lease_get_def jm_get_delete job_of_def
        revokeSandbox_def revoke_tickets_def jm_filter_def)
qed

theorem deadline_terminates_the_sandbox_witness:
  "\<exists>e. jm_get (hc_sandboxes (fst (host_timer (hm_core example_exposed) ''l'' 61000))) ''sbx_loc_a'' = Some e
     \<and> se_state e = Terminated"
proof -
  let ?c = "hm_core example_exposed"
  obtain e where e: "jm_get (hc_sandboxes ?c) ''sbx_loc_a'' = Some e" and st: "se_state e \<noteq> Terminated"
    and cl: "se_currentLeaseId e = ''l''"
  proof -
    have "map_option (\<lambda>e. (se_state e, se_currentLeaseId e)) (jm_get (hc_sandboxes ?c) ''sbx_loc_a'')
        = Some (Running, ''l'')" by code_simp
    then show thesis using that by auto
  qed
  let ?l = "\<lparr>le_id = ''l'', le_sandboxId = ''sbx_loc_a'', le_kind = DurationLease, le_generation = 1,
      le_deadlineUnixMs = Some 61000, le_timer = Some 61000, le_signal = None, le_micro = False, le_settled = False\<rparr>"
  have "jm_get (lm_leases (hc_leases ?c)) ''l'' = Some ?l" by code_simp
  then have l: "jm_get (lm_leases (hc_leases ?c)) (se_currentLeaseId e) = Some ?l" by (simp only: cl)
  from deadline_terminates_the_sandbox [OF example_exposed_reachable refl e st l _ _ _ _ order_refl refl, of 61000]
  show ?thesis unfolding cl by simp blast
qed

text \<open>The comparison loop finds a difference exactly when there is one.\<close>

lemma diff_loop_zero: "length l = length r \<Longrightarrow> diff_loop l r d = 0 \<longleftrightarrow> d = 0 \<and> l = r"
proof (induction l r d rule: diff_loop.induct)
  case (1 x xs y ys diff)
  have "or diff (xor x y) = 0 \<longleftrightarrow> diff = 0 \<and> x = y" by (auto simp: bit_eq_iff bit_simps)
  with 1 show ?case by auto
qed auto

lemma constantTimeEqual_iff: "constantTimeEqual l r \<longleftrightarrow> l = r"
  by (auto simp: constantTimeEqual_def diff_loop_zero)

text \<open>
  Only the owner attaches, and only to what is alive. \<open>attach\<close> succeeds exactly for a known sandbox with the
  very owner secret of its creation, not terminated and with its lease still in the table; it then returns the
  sandbox's and its current lease's data with an empty resume secret. A wrong secret is a permission error
  whatever the state of the sandbox, an unknown id is not found.
\<close>

theorem attach_needs_the_owner_secret:
  "(attach c i secret = Inr (sb, ls) \<longleftrightarrow>
      (\<exists>e l. jm_get (hc_sandboxes c) i = Some e \<and> secret = se_ownerSecret e \<and> se_state e \<noteq> Terminated
         \<and> lease_get (hc_leases c) (se_currentLeaseId e) = Some l
         \<and> sb = snapshotSandbox e \<and> ls = snapshotLease l (se_timeout e) []))
   \<and> (attach c i secret = Inl (HostControlError SBX_HOST_PERMISSION) \<longleftrightarrow>
      (\<exists>e. jm_get (hc_sandboxes c) i = Some e \<and> secret \<noteq> se_ownerSecret e))
   \<and> (attach c i secret = Inl (HostControlError SBX_HOST_NOT_FOUND) \<longleftrightarrow> jm_get (hc_sandboxes c) i = None)"
  by (cases "jm_get (hc_sandboxes c) i")
    (auto simp: attach_def requireEntry_def constantTimeEqual_iff isTerminal_def split: option.splits if_splits)

text \<open>
  The metadata of a sandbox does not follow its deadline. A successful \<open>extendTimeout\<close> moves the lease's
  deadline to a later time, which it returns, while \<open>metadata\<close> goes on reporting the deadline of the creation.
\<close>

theorem metadata_keeps_the_deadline_of_the_creation:
  assumes "jm_get (hc_sandboxes c) i = Some e"
    and "jm_get (lm_leases (hc_leases c)) (se_currentLeaseId e) = Some l" and "le_deadlineUnixMs l = Some d"
    and "extendTimeout c i ms now now = Inr ((c', calls), (d', g))" and "0 < lm_maxExtendMs (hc_leases c)"
  shows "d < d' \<and> metadata c' i = metadata c i
    \<and> map_option ls_deadlineUnixMs (lease_get (hc_leases c') (se_currentLeaseId e)) = Some (Some d')"
proof -
  let ?i = "se_currentLeaseId e"
  from assms(1,4) obtain m out e' where r: "requireExtendable (hc_leases c) ?i ms now now = Inr (m, out, e')"
    and c': "c' = fst (with_leases c (m, out))" and d': "d' = orElse (le_deadlineUnixMs e') 0"
    by (auto simp: extendTimeout_def requireEntry_def lease_extendTimeout_def mapLeaseError_def bindE_eq_Inr Let_def
        split: sum.splits lease_error.splits)
  let ?d = "d + min (int_of ms) (lm_maxExtendMs (hc_leases c))"
  from requireExtendable_Inr [OF r] assms(2,3) have "now < d" and ms: "0 < int_of ms"
    and x: "if now < ?d then out = [] \<and> e' = extended l ?d (Some ?d)
         \<and> m = (hc_leases c)\<lparr>lm_leases := jm_set ?i e' (lm_leases (hc_leases c))\<rparr>
       else (m, out) = settle ((hc_leases c)\<lparr>lm_leases := jm_set ?i (extended l ?d None) (lm_leases (hc_leases c))\<rparr>)
              (extended l ?d None) \<and> e' = (extended l ?d None)\<lparr>le_settled := True\<rparr>"
    by (auto simp: Let_def)
  have "d < ?d" using ms assms(5) by simp
  with x \<open>now < d\<close> have "out = []" "e' = extended l ?d (Some ?d)"
    "m = (hc_leases c)\<lparr>lm_leases := jm_set ?i e' (lm_leases (hc_leases c))\<rparr>" by (auto split: if_splits)
  then show ?thesis
    using \<open>d < ?d\<close> by (simp add: c' d' with_leases_def metadata_def requireEntry_def lease_get_def jm_get_set snapshot_def)
qed

theorem metadata_keeps_the_deadline_of_the_creation_witness:
  "\<exists>c' calls d' g. extendTimeout (hm_core example_running) ''sbx_loc_a'' (NumInt 5000) 2000 2000
       = Inr ((c', calls), (d', g)) \<and> 61000 < d' \<and> metadata c' ''sbx_loc_a'' = metadata (hm_core example_running) ''sbx_loc_a''"
proof -
  let ?c = "hm_core example_running" and ?r = "extendTimeout (hm_core example_running) ''sbx_loc_a'' (NumInt 5000) 2000 2000"
  have "is_ok ?r" by code_simp
  then obtain c' calls d' g where r: "?r = Inr ((c', calls), (d', g))" by (cases ?r) auto
  have "map_option se_currentLeaseId (jm_get (hc_sandboxes ?c) ''sbx_loc_a'') = Some ''l''" by code_simp
  then obtain e where e: "jm_get (hc_sandboxes ?c) ''sbx_loc_a'' = Some e" and cl: "se_currentLeaseId e = ''l''" by auto
  have "map_option le_deadlineUnixMs (jm_get (lm_leases (hc_leases ?c)) ''l'') = Some (Some 61000)" by code_simp
  then obtain l where l: "jm_get (lm_leases (hc_leases ?c)) (se_currentLeaseId e) = Some l" "le_deadlineUnixMs l = Some 61000"
    by (auto simp: cl)
  have "0 < lm_maxExtendMs (hc_leases ?c)" by code_simp
  from metadata_keeps_the_deadline_of_the_creation [OF e l r this] r show ?thesis by blast
qed

definition example_late_ticket :: host_machine where
  "example_late_ticket = (case tunnel_issue id (\<lambda>_. replicate 32 0) (hm_core example_killed) example_bridge_request example_tunnel_binding 3 2000 2000
     of (w, Inr f) \<Rightarrow> (apply_core example_killed w)\<lparr>hm_tunnels := [AwaitRegister f]\<rparr> | _ \<Rightarrow> example_killed)"

lemma example_late_ticket_eval [code]: "example_late_ticket = example_killed\<lparr>
    hm_tunnels := [AwaitRegister \<lparr>tf_sandboxId = ''sbx_loc_a'', tf_request = example_bridge_request,
      tf_binding = example_tunnel_binding, tf_bridge = 3, tf_ticket = (replicate 32 0, 17000)\<rparr>],
    hm_core := (hm_core example_killed)\<lparr>hc_tickets := \<lparr>ts_ttlMs = 15000, ts_maxOutstanding = 4096,
      ts_tickets = [(replicate 64 (CHR ''0''), \<lparr>tk_binding = example_tunnel_binding, tk_expiresAt = 17000\<rparr>)]\<rparr>\<rparr>\<rparr>"
  by code_simp

definition example_ghost :: host_machine where
  "example_ghost = (case hm_tunnels example_late_ticket of
      [AwaitRegister f] \<Rightarrow> (apply_core example_late_ticket (fst (tunnel_register (hm_core example_late_ticket) f (Some 5) [7] [])))
        \<lparr>hm_tunnels := []\<rparr>
    | _ \<Rightarrow> example_late_ticket)"

lemma example_ghost_reachable: "reachable host_init host_step example_ghost"
proof -
  let ?i = "tunnel_issue id (\<lambda>_. replicate 32 0) (hm_core example_killed) example_bridge_request example_tunnel_binding 3 2000 2000"
  have "is_ok (snd ?i)" by code_simp
  then obtain f where i: "?i = (fst ?i, Inr f)" by (cases "snd ?i") (auto simp: prod_eq_iff)
  have late: "example_late_ticket = (apply_core example_killed (fst ?i))\<lparr>hm_tunnels := [AwaitRegister f]\<rparr>"
    unfolding example_late_ticket_def by (subst i) simp
  have t: "hm_tunnels example_killed = [AwaitBridge example_bridge_request example_tunnel_binding]" by code_simp
  from host_step.tunnel_ticket [of example_killed "[]" example_bridge_request example_tunnel_binding "[]", OF _ i] t late
  have "host_step example_killed (HTunnel (br_sandboxId example_bridge_request)) example_late_ticket" by simp
  then have 1: "reachable host_init host_step example_late_ticket" by (rule reach_step [OF example_killed_reachable])
  have h: "hm_tunnels example_late_ticket = [AwaitRegister f]" by (simp add: late)
  let ?g = "tunnel_register (hm_core example_late_ticket) f (Some 5) [7] []"
  from host_step.tunnel_done [of example_late_ticket "[]" f "[]" "Some 5" "[7]" "[]" "fst ?g" "snd ?g"] h
  have "host_step example_late_ticket (HTunnel (tf_sandboxId f)) example_ghost" by (simp add: example_ghost_def h)
  then show ?thesis by (rule reach_step [OF 1])
qed

text \<open>
  A tunnel can outlive its sandbox. \<open>openTunnel\<close> checks the sandbox before it waits for the router and the
  bridge and not again afterwards, and the kill path revokes only what exists when it runs. So the host reaches
  states in which a terminated sandbox has an outstanding ticket and a registered route.
\<close>

theorem tunnel_outlives_its_sandbox:
  "\<exists>m i e k. reachable host_init host_step m \<and> jm_get (hc_sandboxes (hm_core m)) i = Some e
     \<and> se_state e = Terminated \<and> k \<in> snd ` set (ts_tickets (hc_tickets (hm_core m)))
     \<and> tb_sandboxId (tk_binding k) = i \<and> jm_get (hc_tunnels (hm_core m)) i = Some [5]"
proof -
  let ?c = "hm_core example_ghost"
  have 1: "map_option se_state (jm_get (hc_sandboxes ?c) ''sbx_loc_a'') = Some Terminated" by code_simp
  have 2: "jm_get (hc_tunnels ?c) ''sbx_loc_a'' = Some [5]" by code_simp
  have 3: "map (\<lambda>x. tb_sandboxId (tk_binding (snd x))) (ts_tickets (hc_tickets ?c)) = [''sbx_loc_a'']" by code_simp
  from 1 obtain e where "jm_get (hc_sandboxes ?c) ''sbx_loc_a'' = Some e" "se_state e = Terminated" by auto
  moreover from 3 obtain x where "ts_tickets (hc_tickets ?c) = [x]" "tb_sandboxId (tk_binding (snd x)) = ''sbx_loc_a''"
    by (cases "ts_tickets (hc_tickets ?c)") auto
  ultimately show ?thesis using example_ghost_reachable 2
    by (intro exI [of _ example_ghost] exI [of _ "''sbx_loc_a''"] exI [of _ e] exI [of _ "snd x"]) simp
qed

end
