(* ===== verification/Supervisor_Wire.thy ===== *)
theory Supervisor_Wire
  imports Prelude Js_Text Utf8
begin

text \<open>
  \<^verbatim>\<open>src/wire/supervisor.ts\<close>: the boundary checks of the supervisor interface, and the text and
  byte checks of \<^verbatim>\<open>src/wire/contract.ts\<close> they use.

  \<open>wire_val\<close> is what arrives at run time where a typed field is declared; an object is an association list
  of its own keys, \<open>None\<close> for something that is no object. A validator returns the typed request. An error carries
  the name of the field it reports.
\<close>

datatype wire_val =
    WUndef
  | WStr string
  | WNum js_number
  | WBool bool
  | WBytes bytes
  | WArr "wire_val list"
  | WOther

type_synonym wire_obj = "(string \<times> wire_val) list"

datatype wire_error = WireValidationError string

definition SUPERVISOR_CREDENTIAL_BYTES :: nat where
  "SUPERVISOR_CREDENTIAL_BYTES = 32"

definition BOOT_NONCE_BYTES :: nat where
  "BOOT_NONCE_BYTES = 32"

definition TUNNEL_NONCE_BYTES :: nat where
  "TUNNEL_NONCE_BYTES = 32"

definition MAX_BRIDGE_TTL_MS :: int where
  "MAX_BRIDGE_TTL_MS = 15000"

definition BRIDGE_SOCKET_ROOT :: string where
  "BRIDGE_SOCKET_ROOT = ''/run/studiobox/b/''"

definition UNIX_SOCKET_PATH_MAX_BYTES :: nat where
  "UNIX_SOCKET_PATH_MAX_BYTES = 103"

definition MAX_ALLOW_NET_ENTRIES :: nat where
  "MAX_ALLOW_NET_ENTRIES = 1024"

definition MAX_ALLOW_NET_ENTRY_BYTES :: nat where
  "MAX_ALLOW_NET_ENTRY_BYTES = 300"

definition MAX_LAUNCH_VCPUS :: int where
  "MAX_LAUNCH_VCPUS = 32"

record launch_request =
  lr_sandboxId :: string
  lr_executionId :: string
  lr_artifactId :: string
  lr_allocationId :: string
  lr_bootNonce :: bytes
  lr_idempotencyKey :: bytes
  lr_allowNet :: "string list option"
  lr_netless :: "bool option"
  lr_vcpus :: "int option"

record sup_bridge_request =
  br_sandboxId :: string
  br_executionId :: string
  br_leaseId :: string
  br_leaseGeneration :: int
  br_tunnelNonce :: bytes
  br_expiresAtUnixMs :: int

record bridge_grant =
  bg_bridgeId :: string
  bg_socketPath :: string
  bg_bridgeCredential :: bytes
  bg_agentCredential :: bytes
  bg_expiresAtUnixMs :: int

text \<open>The flat \<open>LaunchRequest\<close> of the wire schema, which has no optional fields.\<close>

record wire_launch_request =
  wl_sandboxId :: string
  wl_executionId :: string
  wl_artifactId :: string
  wl_allocationId :: string
  wl_bootNonce :: bytes
  wl_idempotencyKey :: bytes
  wl_allowNet :: "string list"
  wl_allowNetSet :: bool
  wl_netless :: bool
  wl_vcpus :: int

subsection \<open>Patterns\<close>

definition alnum_hyphen :: "char \<Rightarrow> bool" where
  "alnum_hyphen c = (is_alnum c \<or> c = CHR ''-'')"

definition logical_char :: "char \<Rightarrow> bool" where
  "logical_char c = (is_alnum c \<or> c \<in> set ''._:-'')"

text \<open>\<open>^[A-Za-z0-9]C{0,n}$\<close> for a class \<open>C\<close> of characters.\<close>

definition led_id :: "(char \<Rightarrow> bool) \<Rightarrow> nat \<Rightarrow> string \<Rightarrow> bool" where
  "led_id C n s = (case s of [] \<Rightarrow> False | c # cs \<Rightarrow> is_alnum c \<and> length cs \<le> n \<and> list_all C cs)"

definition SANDBOX_ID :: "string \<Rightarrow> bool" where
  "SANDBOX_ID s = (startsWith s ''sbx-'' \<and> led_id alnum_hyphen 59 (drop 4 s))"

definition EXECUTION_ID :: "string \<Rightarrow> bool" where
  "EXECUTION_ID s = led_id alnum_hyphen 63 s"

definition LOGICAL_ID :: "string \<Rightarrow> bool" where
  "LOGICAL_ID s = led_id logical_char 127 s"

definition BRIDGE_ID :: "string \<Rightarrow> bool" where
  "BRIDGE_ID s = led_id alnum_hyphen 63 s"

subsection \<open>Assertions\<close>

definition wget :: "wire_obj \<Rightarrow> string \<Rightarrow> wire_val" where
  "wget fs k = orElse (map_of fs k) WUndef"

definition containsAsciiControl :: "string \<Rightarrow> bool" where
  "containsAsciiControl s = list_ex (\<lambda>c. code c \<le> 31 \<or> code c = 127) s"

definition assertBoundedText :: "wire_val \<Rightarrow> nat \<Rightarrow> nat \<Rightarrow> string \<Rightarrow> wire_error + string" where
  "assertBoundedText v minBytes maxBytes field = (case v of
      WStr s \<Rightarrow> if byteLength s < minBytes \<or> maxBytes < byteLength s \<or> containsAsciiControl s
                then Inl (WireValidationError field) else Inr s
    | _ \<Rightarrow> Inl (WireValidationError field))"

definition assertPattern :: "wire_val \<Rightarrow> (string \<Rightarrow> bool) \<Rightarrow> string \<Rightarrow> wire_error + string" where
  "assertPattern v pattern field = (case v of
      WStr s \<Rightarrow> if pattern s then Inr s else Inl (WireValidationError field)
    | _ \<Rightarrow> Inl (WireValidationError field))"

definition assertByteRange :: "wire_val \<Rightarrow> nat \<Rightarrow> nat \<Rightarrow> string \<Rightarrow> wire_error + bytes" where
  "assertByteRange v minimum maximum field = (case v of
      WBytes bs \<Rightarrow> if length bs < minimum \<or> maximum < length bs then Inl (WireValidationError field)
                   else Inr bs
    | _ \<Rightarrow> Inl (WireValidationError field))"

definition assertExactBytes :: "wire_val \<Rightarrow> nat \<Rightarrow> string \<Rightarrow> wire_error + bytes" where
  "assertExactBytes v n field = assertByteRange v n n field"

definition assertSafeTimestamp :: "wire_val \<Rightarrow> string \<Rightarrow> wire_error + int" where
  "assertSafeTimestamp v field = (case v of
      WNum n \<Rightarrow> if isSafeInteger n \<and> 0 \<le> int_of n then Inr (int_of n)
                else Inl (WireValidationError field)
    | _ \<Rightarrow> Inl (WireValidationError field))"

definition assertPositiveSafeInteger :: "wire_val \<Rightarrow> string \<Rightarrow> wire_error + int" where
  "assertPositiveSafeInteger v field = (case v of
      WNum n \<Rightarrow> if isSafeInteger n \<and> 0 < int_of n then Inr (int_of n)
                else Inl (WireValidationError field)
    | _ \<Rightarrow> Inl (WireValidationError field))"

definition assertWireKeys :: "wire_obj option \<Rightarrow> string list \<Rightarrow> string list \<Rightarrow> wire_error + wire_obj" where
  "assertWireKeys value required optional = (case value of
      None \<Rightarrow> Inl (WireValidationError ''supervisor request'')
    | Some fs \<Rightarrow>
        bindE (mapE (\<lambda>e. requireE (fst e \<in> set (required @ optional)) (WireValidationError (fst e))) fs) (\<lambda>_.
        bindE (mapE (\<lambda>k. requireE (map_of fs k \<noteq> None) (WireValidationError k)) required) (\<lambda>_.
          Inr fs)))"

definition assertExactKeys :: "wire_obj option \<Rightarrow> string list \<Rightarrow> wire_error + wire_obj" where
  "assertExactKeys value allowed = assertWireKeys value allowed []"

definition validateSupervisorCredential :: "wire_val \<Rightarrow> wire_error + unit" where
  "validateSupervisorCredential credential =
     bindE (assertExactBytes credential SUPERVISOR_CREDENTIAL_BYTES ''supervisor credential'') (\<lambda>_. Inr ())"

subsection \<open>Launch requests\<close>

definition validateAllowNet :: "wire_val \<Rightarrow> wire_error + string list option" where
  "validateAllowNet v = (case v of
      WUndef \<Rightarrow> Inr None
    | WArr es \<Rightarrow>
        if MAX_ALLOW_NET_ENTRIES < length es then Inl (WireValidationError ''allowNet'')
        else bindE (mapE (\<lambda>e. assertBoundedText e 1 MAX_ALLOW_NET_ENTRY_BYTES ''allowNet entry'') es) (\<lambda>ss.
          Inr (Some ss))
    | _ \<Rightarrow> Inl (WireValidationError ''allowNet''))"

definition validateNetless :: "wire_val \<Rightarrow> wire_error + bool option" where
  "validateNetless v = (case v of
      WUndef \<Rightarrow> Inr None
    | WBool b \<Rightarrow> Inr (Some b)
    | _ \<Rightarrow> Inl (WireValidationError ''netless''))"

definition validateVcpus :: "wire_val \<Rightarrow> wire_error + int option" where
  "validateVcpus v = (case v of
      WUndef \<Rightarrow> Inr None
    | WNum n \<Rightarrow>
        if \<not> isSafeInteger n \<or> int_of n < 1 \<or> MAX_LAUNCH_VCPUS < int_of n
        then Inl (WireValidationError ''vcpus'')
        else if 1 < int_of n \<and> int_of n mod 2 \<noteq> 0 then Inl (WireValidationError ''vcpus'')
        else Inr (Some (int_of n))
    | _ \<Rightarrow> Inl (WireValidationError ''vcpus''))"

definition LAUNCH_REQUIRED_KEYS :: "string list" where
  "LAUNCH_REQUIRED_KEYS = [''sandboxId'', ''executionId'', ''artifactId'', ''allocationId'', ''bootNonce'',
     ''idempotencyKey'']"

definition LAUNCH_OPTIONAL_KEYS :: "string list" where
  "LAUNCH_OPTIONAL_KEYS = [''allowNet'', ''netless'', ''vcpus'']"

definition validateLaunchRequest :: "wire_obj option \<Rightarrow> wire_error + launch_request" where
  "validateLaunchRequest value =
     bindE (assertWireKeys value LAUNCH_REQUIRED_KEYS LAUNCH_OPTIONAL_KEYS) (\<lambda>fs.
     bindE (assertPattern (wget fs ''sandboxId'') SANDBOX_ID ''sandboxId'') (\<lambda>sandboxId.
     bindE (assertPattern (wget fs ''executionId'') EXECUTION_ID ''executionId'') (\<lambda>executionId.
     bindE (assertPattern (wget fs ''artifactId'') LOGICAL_ID ''artifactId'') (\<lambda>artifactId.
     bindE (assertPattern (wget fs ''allocationId'') LOGICAL_ID ''allocationId'') (\<lambda>allocationId.
     bindE (assertExactBytes (wget fs ''bootNonce'') BOOT_NONCE_BYTES ''bootNonce'') (\<lambda>bootNonce.
     bindE (assertByteRange (wget fs ''idempotencyKey'') 16 64 ''idempotencyKey'') (\<lambda>idempotencyKey.
     bindE (validateAllowNet (wget fs ''allowNet'')) (\<lambda>allowNet.
     bindE (validateNetless (wget fs ''netless'')) (\<lambda>netless.
     bindE (validateVcpus (wget fs ''vcpus'')) (\<lambda>vcpus.
       Inr \<lparr>lr_sandboxId = sandboxId, lr_executionId = executionId, lr_artifactId = artifactId,
            lr_allocationId = allocationId, lr_bootNonce = bootNonce, lr_idempotencyKey = idempotencyKey,
            lr_allowNet = allowNet, lr_netless = netless, lr_vcpus = vcpus\<rparr>))))))))))"

definition launchRequestToWire :: "launch_request \<Rightarrow> wire_launch_request" where
  "launchRequestToWire r = \<lparr>wl_sandboxId = lr_sandboxId r, wl_executionId = lr_executionId r,
     wl_artifactId = lr_artifactId r, wl_allocationId = lr_allocationId r, wl_bootNonce = lr_bootNonce r,
     wl_idempotencyKey = lr_idempotencyKey r, wl_allowNet = orElse (lr_allowNet r) [],
     wl_allowNetSet = (lr_allowNet r \<noteq> None), wl_netless = orElse (lr_netless r) False,
     wl_vcpus = orElse (lr_vcpus r) 0\<rparr>"

definition launchRequestFromWire :: "wire_launch_request \<Rightarrow> launch_request" where
  "launchRequestFromWire w = \<lparr>lr_sandboxId = wl_sandboxId w, lr_executionId = wl_executionId w,
     lr_artifactId = wl_artifactId w, lr_allocationId = wl_allocationId w, lr_bootNonce = wl_bootNonce w,
     lr_idempotencyKey = wl_idempotencyKey w,
     lr_allowNet = (if wl_allowNetSet w then Some (wl_allowNet w) else None),
     lr_netless = (if wl_netless w then Some True else None),
     lr_vcpus = (if 0 < wl_vcpus w then Some (wl_vcpus w) else None)\<rparr>"

subsection \<open>Bridges\<close>

definition within_bridge_ttl :: "int \<Rightarrow> int \<Rightarrow> bool" where
  "within_bridge_ttl t now = (\<not> (t \<le> now \<or> now + MAX_BRIDGE_TTL_MS < t))"

definition validateBridgeRequest :: "wire_obj option \<Rightarrow> int \<Rightarrow> wire_error + sup_bridge_request" where
  "validateBridgeRequest value now =
     bindE (assertExactKeys value [''sandboxId'', ''executionId'', ''leaseId'', ''leaseGeneration'',
       ''tunnelNonce'', ''expiresAtUnixMs'']) (\<lambda>fs.
     bindE (assertPattern (wget fs ''sandboxId'') SANDBOX_ID ''sandboxId'') (\<lambda>sandboxId.
     bindE (assertPattern (wget fs ''executionId'') EXECUTION_ID ''executionId'') (\<lambda>executionId.
     bindE (assertPattern (wget fs ''leaseId'') LOGICAL_ID ''leaseId'') (\<lambda>leaseId.
     bindE (assertPositiveSafeInteger (wget fs ''leaseGeneration'') ''leaseGeneration'') (\<lambda>generation.
     bindE (assertExactBytes (wget fs ''tunnelNonce'') TUNNEL_NONCE_BYTES ''tunnelNonce'') (\<lambda>nonce.
     bindE (assertSafeTimestamp (wget fs ''expiresAtUnixMs'') ''expiresAtUnixMs'') (\<lambda>expires.
     bindE (requireE (within_bridge_ttl expires now) (WireValidationError ''expiresAtUnixMs'')) (\<lambda>_.
       Inr \<lparr>br_sandboxId = sandboxId, br_executionId = executionId, br_leaseId = leaseId,
            br_leaseGeneration = generation, br_tunnelNonce = nonce, br_expiresAtUnixMs = expires\<rparr>))))))))"

definition validateBridgeSocketPath :: "wire_val \<Rightarrow> wire_error + string" where
  "validateBridgeSocketPath path =
     bindE (assertBoundedText path 1 UNIX_SOCKET_PATH_MAX_BYTES ''socketPath'') (\<lambda>p.
     bindE (requireE (startsWith p BRIDGE_SOCKET_ROOT) (WireValidationError ''socketPath'')) (\<lambda>_.
     bindE (requireE (BRIDGE_ID (drop (length BRIDGE_SOCKET_ROOT) p)
         \<and> CHR ''/'' \<notin> set (drop (length BRIDGE_SOCKET_ROOT) p)) (WireValidationError ''socketPath'')) (\<lambda>_.
     bindE (requireE (byteLength p \<le> UNIX_SOCKET_PATH_MAX_BYTES) (WireValidationError ''socketPath'')) (\<lambda>_.
       Inr p))))"

definition validateBridgeGrant :: "wire_obj option \<Rightarrow> int \<Rightarrow> wire_error + bridge_grant" where
  "validateBridgeGrant value now =
     bindE (assertExactKeys value [''bridgeId'', ''socketPath'', ''bridgeCredential'', ''agentCredential'',
       ''expiresAtUnixMs'']) (\<lambda>fs.
     bindE (assertPattern (wget fs ''bridgeId'') BRIDGE_ID ''bridgeId'') (\<lambda>bridgeId.
     bindE (validateBridgeSocketPath (wget fs ''socketPath'')) (\<lambda>socketPath.
     bindE (assertExactBytes (wget fs ''bridgeCredential'') 32 ''bridgeCredential'') (\<lambda>bridgeCredential.
     bindE (assertByteRange (wget fs ''agentCredential'') 32 512 ''agentCredential'') (\<lambda>agentCredential.
     bindE (assertSafeTimestamp (wget fs ''expiresAtUnixMs'') ''expiresAtUnixMs'') (\<lambda>expires.
     bindE (requireE (within_bridge_ttl expires now) (WireValidationError ''expiresAtUnixMs'')) (\<lambda>_.
       Inr \<lparr>bg_bridgeId = bridgeId, bg_socketPath = socketPath, bg_bridgeCredential = bridgeCredential,
            bg_agentCredential = agentCredential, bg_expiresAtUnixMs = expires\<rparr>)))))))"

subsection \<open>Typed requests as objects\<close>

definition wopt :: "string \<Rightarrow> ('a \<Rightarrow> wire_val) \<Rightarrow> 'a option \<Rightarrow> wire_obj" where
  "wopt k enc x = (case x of None \<Rightarrow> [] | Some a \<Rightarrow> [(k, enc a)])"

definition launch_obj :: "launch_request \<Rightarrow> wire_obj" where
  "launch_obj r =
     [(''sandboxId'', WStr (lr_sandboxId r)), (''executionId'', WStr (lr_executionId r)),
      (''artifactId'', WStr (lr_artifactId r)), (''allocationId'', WStr (lr_allocationId r)),
      (''bootNonce'', WBytes (lr_bootNonce r)), (''idempotencyKey'', WBytes (lr_idempotencyKey r))]
     @ wopt ''allowNet'' (\<lambda>es. WArr (map WStr es)) (lr_allowNet r)
     @ wopt ''netless'' WBool (lr_netless r)
     @ wopt ''vcpus'' (\<lambda>n. WNum (NumInt n)) (lr_vcpus r)"

definition grant_obj :: "bridge_grant \<Rightarrow> wire_obj" where
  "grant_obj g =
     [(''bridgeId'', WStr (bg_bridgeId g)), (''socketPath'', WStr (bg_socketPath g)),
      (''bridgeCredential'', WBytes (bg_bridgeCredential g)),
      (''agentCredential'', WBytes (bg_agentCredential g)),
      (''expiresAtUnixMs'', WNum (NumInt (bg_expiresAtUnixMs g)))]"

definition bridge_request_obj :: "sup_bridge_request \<Rightarrow> wire_obj" where
  "bridge_request_obj r =
     [(''sandboxId'', WStr (br_sandboxId r)), (''executionId'', WStr (br_executionId r)),
      (''leaseId'', WStr (br_leaseId r)), (''leaseGeneration'', WNum (NumInt (br_leaseGeneration r))),
      (''tunnelNonce'', WBytes (br_tunnelNonce r)),
      (''expiresAtUnixMs'', WNum (NumInt (br_expiresAtUnixMs r)))]"

subsection \<open>What an accepted request looks like\<close>

definition entry_ok :: "string \<Rightarrow> bool" where
  "entry_ok s = (1 \<le> byteLength s \<and> byteLength s \<le> MAX_ALLOW_NET_ENTRY_BYTES \<and> \<not> containsAsciiControl s)"

definition vcpus_ok :: "int \<Rightarrow> bool" where
  "vcpus_ok n = (n = 1 \<or> (2 \<le> n \<and> n \<le> MAX_LAUNCH_VCPUS \<and> even n))"

definition launch_ok :: "launch_request \<Rightarrow> bool" where
  "launch_ok r = (SANDBOX_ID (lr_sandboxId r) \<and> EXECUTION_ID (lr_executionId r)
     \<and> LOGICAL_ID (lr_artifactId r) \<and> LOGICAL_ID (lr_allocationId r)
     \<and> length (lr_bootNonce r) = BOOT_NONCE_BYTES
     \<and> 16 \<le> length (lr_idempotencyKey r) \<and> length (lr_idempotencyKey r) \<le> 64
     \<and> pred_option (\<lambda>es. length es \<le> MAX_ALLOW_NET_ENTRIES \<and> list_all entry_ok es) (lr_allowNet r)
     \<and> pred_option vcpus_ok (lr_vcpus r))"

lemma assertPattern_eq [simp, err_simps]:
  "assertPattern v P f = Inr s \<longleftrightarrow> v = WStr s \<and> P s"
  by (auto simp: assertPattern_def split: wire_val.splits)

lemma assertBoundedText_eq [simp, err_simps]:
  "assertBoundedText v m n f = Inr s \<longleftrightarrow>
     v = WStr s \<and> m \<le> byteLength s \<and> byteLength s \<le> n \<and> \<not> containsAsciiControl s"
  by (auto simp: assertBoundedText_def split: wire_val.splits)

lemma assertByteRange_eq [simp, err_simps]:
  "assertByteRange v m n f = Inr bs \<longleftrightarrow> v = WBytes bs \<and> m \<le> length bs \<and> length bs \<le> n"
  by (auto simp: assertByteRange_def split: wire_val.splits)

lemma assertExactBytes_eq [simp, err_simps]:
  "assertExactBytes v n f = Inr bs \<longleftrightarrow> v = WBytes bs \<and> length bs = n"
  by (auto simp: assertExactBytes_def)

lemma safe_int_of: "isSafeInteger n \<longleftrightarrow> (\<exists>i. n = NumInt i \<and> \<bar>i\<bar> \<le> MAX_SAFE_INTEGER)"
  by (cases n) auto

lemma assertSafeTimestamp_eq [simp, err_simps]:
  "assertSafeTimestamp v f = Inr i \<longleftrightarrow> v = WNum (NumInt i) \<and> 0 \<le> i \<and> i \<le> MAX_SAFE_INTEGER"
  by (auto simp: assertSafeTimestamp_def safe_int_of split: wire_val.splits)

lemma assertPositiveSafeInteger_eq [simp, err_simps]:
  "assertPositiveSafeInteger v f = Inr i \<longleftrightarrow> v = WNum (NumInt i) \<and> 0 < i \<and> i \<le> MAX_SAFE_INTEGER"
  by (auto simp: assertPositiveSafeInteger_def safe_int_of split: wire_val.splits)

lemma mapE_requireE:
  "mapE (\<lambda>x. requireE (P x) (e x)) xs = Inr ys \<longleftrightarrow> ys = replicate (length xs) () \<and> list_all P xs"
proof (induction xs arbitrary: ys)
  case (Cons x xs)
  then show ?case by (auto simp: bindE_eq_Inr)
qed auto

lemma assertWireKeys_eq [simp, err_simps]:
  "assertWireKeys v req opts = Inr fs \<longleftrightarrow>
     v = Some fs \<and> fst ` set fs \<subseteq> set (req @ opts) \<and> set req \<subseteq> fst ` set fs"
proof -
  have "list_all (\<lambda>k. map_of gs k \<noteq> None) req \<longleftrightarrow> set req \<subseteq> fst ` set gs" for gs :: wire_obj
    by (auto simp: list_all_iff map_of_eq_None_iff image_iff)
  moreover have "list_all (\<lambda>e. fst e \<in> set (req @ opts)) gs \<longleftrightarrow> fst ` set gs \<subseteq> set (req @ opts)"
    for gs :: wire_obj
    by (auto simp: list_all_iff)
  ultimately show ?thesis
    by (auto simp: assertWireKeys_def bindE_eq_Inr mapE_requireE simp del: set_append split: option.splits)
qed

lemma mapE_bounded:
  "mapE (\<lambda>e. assertBoundedText e m n f) vs = Inr ss \<longleftrightarrow>
     vs = map WStr ss \<and> list_all (\<lambda>s. m \<le> byteLength s \<and> byteLength s \<le> n \<and> \<not> containsAsciiControl s) ss"
proof (induction vs arbitrary: ss)
  case (Cons v vs)
  show ?case
    unfolding mapE.simps bindE_eq_Inr assertBoundedText_eq Cons.IH
    by (cases ss) auto
qed auto

text \<open>The value of an optional field.\<close>

definition wenc :: "('a \<Rightarrow> wire_val) \<Rightarrow> 'a option \<Rightarrow> wire_val" where
  "wenc enc x = (case x of None \<Rightarrow> WUndef | Some a \<Rightarrow> enc a)"

lemma validateAllowNet_eq [simp, err_simps]:
  "validateAllowNet v = Inr x \<longleftrightarrow> v = wenc (\<lambda>es. WArr (map WStr es)) x
     \<and> pred_option (\<lambda>es. length es \<le> MAX_ALLOW_NET_ENTRIES \<and> list_all entry_ok es) x"
  unfolding entry_ok_def
  by (cases x; cases v) (auto simp: validateAllowNet_def wenc_def bindE_eq_Inr mapE_bounded)

lemma validateNetless_eq [simp, err_simps]: "validateNetless v = Inr x \<longleftrightarrow> v = wenc WBool x"
  by (cases x; cases v) (auto simp: validateNetless_def wenc_def)

lemma validateVcpus_eq [simp, err_simps]:
  "validateVcpus v = Inr x \<longleftrightarrow> v = wenc (\<lambda>n. WNum (NumInt n)) x \<and> pred_option vcpus_ok x"
proof (cases v)
  case (WNum n)
  show ?thesis
    by (cases n; cases x) (auto simp: WNum validateVcpus_def wenc_def vcpus_ok_def MAX_SAFE_INTEGER_def
        MAX_LAUNCH_VCPUS_def)
qed (cases x; auto simp: validateVcpus_def wenc_def)+

lemma validateLaunchRequest_ok: "validateLaunchRequest v = Inr r \<Longrightarrow> launch_ok r"
  unfolding validateLaunchRequest_def bindE_eq_Inr
  by (elim exE conjE) (clarsimp simp: launch_ok_def)

lemma wenc_inject [simp]:
  "wenc (\<lambda>es. WArr (map WStr es)) x = wenc (\<lambda>es. WArr (map WStr es)) y \<longleftrightarrow> x = y"
  "wenc WBool b = wenc WBool c \<longleftrightarrow> b = c"
  "wenc (\<lambda>n. WNum (NumInt n)) m = wenc (\<lambda>n. WNum (NumInt n)) n \<longleftrightarrow> m = n"
  by (auto simp: wenc_def inj_map_eq_map inj_def split: option.splits)

lemma launch_obj_get:
  "wget (launch_obj r) ''sandboxId'' = WStr (lr_sandboxId r)"
  "wget (launch_obj r) ''executionId'' = WStr (lr_executionId r)"
  "wget (launch_obj r) ''artifactId'' = WStr (lr_artifactId r)"
  "wget (launch_obj r) ''allocationId'' = WStr (lr_allocationId r)"
  "wget (launch_obj r) ''bootNonce'' = WBytes (lr_bootNonce r)"
  "wget (launch_obj r) ''idempotencyKey'' = WBytes (lr_idempotencyKey r)"
  "wget (launch_obj r) ''allowNet'' = wenc (\<lambda>es. WArr (map WStr es)) (lr_allowNet r)"
  "wget (launch_obj r) ''netless'' = wenc WBool (lr_netless r)"
  "wget (launch_obj r) ''vcpus'' = wenc (\<lambda>n. WNum (NumInt n)) (lr_vcpus r)"
  by (simp_all add: wget_def launch_obj_def wopt_def wenc_def map_add_def split: option.split)

lemma launch_obj_keys:
  "assertWireKeys (Some (launch_obj r)) LAUNCH_REQUIRED_KEYS LAUNCH_OPTIONAL_KEYS = Inr (launch_obj r)"
  by (cases "lr_allowNet r"; cases "lr_netless r"; cases "lr_vcpus r")
    (simp_all add: launch_obj_def wopt_def LAUNCH_REQUIRED_KEYS_def LAUNCH_OPTIONAL_KEYS_def)

lemma validateLaunchRequest_obj:
  assumes "launch_ok r"
  shows "validateLaunchRequest (Some (launch_obj r)) = Inr r"
  unfolding validateLaunchRequest_def launch_obj_keys bindE_Inr launch_obj_get bindE_eq_Inr
  using assms by (simp add: launch_ok_def)

text \<open>
  C24. A launch request that passed the boundary check survives the flat wire encoding: what is decoded is the same
  request, but for a \<open>netless: false\<close>, which comes back as absent; the egress policy in particular comes back as it
  was, an absent one (unrestricted) never as the empty one (deny all). The decoded request passes the check again, to
  the same request.
\<close>

theorem launch_request_survives_the_wire:
  assumes "validateLaunchRequest v = Inr r"
  shows "let r' = launchRequestFromWire (launchRequestToWire r)
    in r' = r\<lparr>lr_netless := (if lr_netless r = Some True then Some True else None)\<rparr>
       \<and> lr_allowNet r' = lr_allowNet r
       \<and> validateLaunchRequest (Some (launch_obj r')) = Inr r'"
proof -
  have ok: "launch_ok r" using assms by (rule validateLaunchRequest_ok)
  let ?r = "launchRequestFromWire (launchRequestToWire r)"
  have pos: "n > 0" if "lr_vcpus r = Some n" for n
    using ok that by (auto simp: launch_ok_def vcpus_ok_def)
  have eq: "?r = r\<lparr>lr_netless := (if lr_netless r = Some True then Some True else None)\<rparr>"
    using pos by (cases "lr_allowNet r"; cases "lr_netless r"; cases "lr_vcpus r")
      (auto simp: launchRequestFromWire_def launchRequestToWire_def)
  have "launch_ok ?r" using ok by (simp add: eq launch_ok_def)
  then show ?thesis by (simp add: eq Let_def validateLaunchRequest_obj)
qed

lemma pred_option_code [code]: "pred_option P x = (case x of None \<Rightarrow> True | Some a \<Rightarrow> P a)"
  by (cases x) simp_all

definition example_launch :: launch_request where
  "example_launch = \<lparr>lr_sandboxId = ''sbx-a1'', lr_executionId = ''e-1'', lr_artifactId = ''img:1'',
     lr_allocationId = ''al.1'', lr_bootNonce = replicate 32 7, lr_idempotencyKey = replicate 16 9,
     lr_allowNet = Some [], lr_netless = Some False, lr_vcpus = Some 4\<rparr>"

lemma example_launch_valid: "validateLaunchRequest (Some (launch_obj example_launch)) = Inr example_launch"
  by (rule validateLaunchRequest_obj) code_simp

theorem launch_request_survives_the_wire_witness:
  "lr_allowNet (launchRequestFromWire (launchRequestToWire example_launch)) = Some []"
  using launch_request_survives_the_wire [OF example_launch_valid]
  by (simp add: Let_def example_launch_def)

end
