(* ===== verification/Supervisor_Journal.thy ===== *)
theory Supervisor_Journal
  imports Jail_Registry Supervisor_Wire Subnet_Allocator
begin

text \<open>
  \<^verbatim>\<open>src/rootd/supervisor_core.ts\<close>, the part below the operations: the state of the core, its
  errors, the bounded reason texts, and the guarded writes to the sandbox journal.

  An asynchronous method is a program of the type \<open>'a sup\<close>: it takes the state of the process and gives the state it
  leaves and a result or the error it throws. At every \<open>await\<close> anything else may run; \<open>sv_other\<close>, indexed by the number
  of the await, is what it did to the state, and the theorems hold for every such function unless they say otherwise.
  What the supervisor only calls (the planner, the Firecracker package behind the adapter, the guest's agent, the reclaim
  hooks, the installer of port forwards) is the rest of \<open>sup_env\<close>. \<open>ss_trace\<close> records what one method did, in order:
  each journal write with the record it replaced, each call out of the process. The adapter's own journal writes, those of
  the theory \<open>Jail_Registry\<close>, happen inside its calls and so belong to \<open>sv_other\<close>.
\<close>

subsection \<open>Reasons\<close>

definition MAX_REASON_LENGTH :: nat where
  "MAX_REASON_LENGTH = 512"

definition MAX_CAS_ATTEMPTS :: nat where
  "MAX_CAS_ATTEMPTS = 16"

definition utf8_size :: "utf16 \<Rightarrow> nat" where
  "utf8_size us = length (utf8_encode us)"

text \<open>The loop drops one code unit at a time, so it may split a surrogate pair.\<close>

function slice_reason :: "utf16 \<Rightarrow> utf16" where
  "slice_reason us =
     (if MAX_REASON_LENGTH - 3 < utf8_size us then slice_reason (butlast us) else us)"
  by auto

lemma utf8_size_Nil [simp]: "utf8_size [] = 0"
  by (simp add: utf8_size_def utf8_encode_def)

termination slice_reason
proof (relation "measure length")
  fix us assume "MAX_REASON_LENGTH - 3 < utf8_size us"
  then have "us \<noteq> []" by auto
  then show "(butlast us, us) \<in> measure length" by simp
qed simp

declare slice_reason.simps [simp del]

definition truncate_units :: "utf16 \<Rightarrow> utf16" where
  "truncate_units us =
     (if utf8_size us \<le> MAX_REASON_LENGTH then us else slice_reason us @ [46, 46, 46])"

text \<open>\<open>truncateReason\<close> on the development's strings.\<close>

definition truncateReason :: "string \<Rightarrow> string" where
  "truncateReason s = map char_of (truncate_units (latin1 s))"

subsection \<open>Errors\<close>

datatype sup_code =
    SBX_SUP_VALIDATION | SBX_SUP_DUPLICATE | SBX_SUP_NOT_FOUND | SBX_SUP_STATE | SBX_SUP_STALE
  | SBX_SUP_UNAVAILABLE

text \<open>
  \<open>SupModel\<close>, \<open>SupConflict\<close>, \<open>SupCorrupt\<close> and \<open>SupIo\<close> are the store's own errors, \<open>SupThrown\<close> an error of
  another class, with its text \<open>name: message\<close>.
\<close>

datatype sup_error =
    SupervisorError sup_code string
  | SupFc fc_error
  | SupModel model_error
  | SupConflict
  | SupCorrupt
  | SupIo
  | SupThrown string

fun sup_of_store :: "sup_error store_error \<Rightarrow> sup_error" where
  "sup_of_store StateConflict = SupConflict"
| "sup_of_store StateCorrupt = SupCorrupt"
| "sup_of_store (StoreTypeError e) = SupModel e"
| "sup_of_store StoreIoError = SupIo"
| "sup_of_store (UpdateThrew e) = e"

fun isCleanupIncomplete :: "sup_error \<Rightarrow> bool" where
  "isCleanupIncomplete (SupFc e) = (fe_code e = SBX_FC_CLEANUP)"
| "isCleanupIncomplete _ = False"

fun is_stale :: "sup_error \<Rightarrow> bool" where
  "is_stale (SupervisorError c m) = (c = SBX_SUP_STALE)"
| "is_stale _ = False"

text \<open>The text \<open>name: message\<close>; the messages of the store's errors are not modelled.\<close>

fun error_text :: "sup_error \<Rightarrow> string" where
  "error_text (SupervisorError c m) = ''SupervisorError: '' @ m"
| "error_text (SupFc e) = ''FirecrackerAdapterError: '' @ fe_message e"
| "error_text (SupModel e) = ''TypeError''"
| "error_text SupConflict = ''StateConflictError''"
| "error_text SupCorrupt = ''StateCorruptError''"
| "error_text SupIo = ''Error''"
| "error_text (SupThrown t) = t"

definition boundedReason :: "sup_error \<Rightarrow> string" where
  "boundedReason e = truncateReason (error_text e)"

subsection \<open>State\<close>

datatype vm_state = Configured | Starting | RunningVm | Paused | ShuttingDown | ExitedVm | Cleaned

record sup_machine =
  mc_executionId :: string
  mc_pid :: int
  mc_state :: vm_state

record observed_exit =
  ox_exitCode :: "int option"
  ox_atUnixMs :: int

record bridge_entry =
  be_grant :: bridge_grant
  be_sandboxId :: string
  be_executionId :: string
  be_consumed :: bool

datatype inflight_kind = OpLaunch | OpShutdown | OpKill

record inflight_op =
  io_operation :: inflight_kind
  io_executionId :: string

record res_patch =
  xp_uid :: "int option"
  xp_gid :: "int option"
  xp_overlayPath :: "string option"
  xp_tapName :: "string option"
  xp_netnsPath :: "string option"
  xp_hostIp :: "string option"
  xp_guestIp :: "string option"
  xp_subnet :: "string option"
  xp_dnsmasqPidfile :: "string option"
  xp_exposedPorts :: "exposed_port list option"

text \<open>
  A plan: \<open>recipe\<close> stands for the values the core only hands on to the package (jailer, stage, config, snapshot and
  readiness budget).
\<close>

record cold_plan =
  cp_recipe :: nat
  cp_agentVsockPort :: "int option"
  cp_artifact :: "artifact_reference option"
  cp_agentCredential :: "bytes option"
  cp_resources :: "res_patch option"

record restore_plan =
  rp_recipe :: nat
  rp_agentVsockPort :: int
  rp_artifact :: "artifact_reference option"
  rp_agentCredential :: bytes
  rp_resources :: "res_patch option"
  rp_fallback :: cold_plan

datatype launch_plan = ColdPlan cold_plan | RestorePlan restore_plan

datatype boot_kind = ColdBoot | SnapshotRestore

datatype sup_event =
    EvCreate sandbox_record
  | EvJournal sandbox_record sandbox_record
  | EvResolved launch_plan
  | EvSpawn boot_kind
  | EvSpawnFailed sup_error
  | EvDial int
  | EvPersonalize
  | EvDown "sup_error option" "sup_error option"
  | EvStop inflight_kind "sup_error option"
  | EvHook string "string option"
  | EvPackageReconcile
  | EvForward "exposed_port list"
  | EvUnforward

record sup_state =
  ss_file :: state_file
  ss_machines :: "(string, sup_machine) jsmap"
  ss_agentPorts :: "(string, int) jsmap"
  ss_agentCredentials :: "(string, bytes) jsmap"
  ss_exits :: "(string, observed_exit) jsmap"
  ss_bridges :: "(string, bridge_entry) jsmap"
  ss_inflight :: "inflight_op list"
  ss_exposeChain :: "(string, nat) jsmap"
  ss_reconciling :: bool
  ss_tick :: nat
  ss_trace :: "sup_event list"

type_synonym ('a, 'b) outcome = "nat \<Rightarrow> 'a \<Rightarrow> sup_error + 'b"

record package_result =
  pr_reclaimed :: "string list"
  pr_failures :: "(string \<times> sup_error) list"

record sup_env =
  sv_dateFinite :: "string \<Rightarrow> bool"
  sv_collate :: "string \<Rightarrow> string \<Rightarrow> bool"
  sv_other :: "nat \<Rightarrow> sup_state \<Rightarrow> sup_state"
  sv_io :: "nat \<Rightarrow> bool"
  sv_date :: "nat \<Rightarrow> string"
  sv_now :: "nat \<Rightarrow> int"
  sv_random :: "nat \<Rightarrow> bytes"
  sv_uuid :: "nat \<Rightarrow> string"
  sv_resolve :: "(launch_request, launch_plan) outcome"
  sv_launch :: "(nat, sup_machine) outcome"
  sv_restore :: "(nat, sup_machine) outcome"
  sv_dial :: "(int, unit) outcome"
  sv_personalize :: "(restore_plan, unit) outcome"
  sv_kill :: "(string, unit) outcome"
  sv_shutdown :: "(string, unit) outcome"
  sv_dispose :: "(string, unit) outcome"
  sv_package :: "(unit, package_result) outcome"
  sv_expose :: "((subnet_allocation \<times> string \<times> exposed_port list, unit) outcome
    \<times> (string, unit) outcome) option"
  sv_hooks :: "(string \<times> (nat \<Rightarrow> sandbox_record \<Rightarrow> sup_error + unit)) list"

subsection \<open>Programs\<close>

type_synonym 'a sup = "sup_state \<Rightarrow> sup_state \<times> (sup_error + 'a)"

definition ret :: "'a \<Rightarrow> 'a sup" where
  "ret x = (\<lambda>s. (s, Inr x))"

definition throw :: "sup_error \<Rightarrow> 'a sup" where
  "throw e = (\<lambda>s. (s, Inl e))"

definition bindS :: "'a sup \<Rightarrow> ('a \<Rightarrow> 'b sup) \<Rightarrow> 'b sup" where
  "bindS m f = (\<lambda>s. case m s of (t, Inl e) \<Rightarrow> (t, Inl e) | (t, Inr x) \<Rightarrow> f x t)"

definition catchS :: "'a sup \<Rightarrow> (sup_error \<Rightarrow> 'a sup) \<Rightarrow> 'a sup" where
  "catchS m h = (\<lambda>s. case m s of (t, Inl e) \<Rightarrow> h e t | (t, Inr x) \<Rightarrow> (t, Inr x))"

text \<open>A call whose error becomes a value.\<close>

definition attemptS :: "'a sup \<Rightarrow> (sup_error + 'a) sup" where
  "attemptS m = (\<lambda>s. case m s of (t, r) \<Rightarrow> (t, Inr r))"

definition readS :: "(sup_state \<Rightarrow> 'a) \<Rightarrow> 'a sup" where
  "readS f = (\<lambda>s. (s, Inr (f s)))"

definition modS :: "(sup_state \<Rightarrow> sup_state) \<Rightarrow> unit sup" where
  "modS f = (\<lambda>s. (f s, Inr ()))"

definition liftS :: "sup_error + 'a \<Rightarrow> 'a sup" where
  "liftS r = (\<lambda>s. (s, r))"

definition emit :: "sup_event \<Rightarrow> unit sup" where
  "emit ev = modS (\<lambda>s. s\<lparr>ss_trace := ss_trace s @ [ev]\<rparr>)"

fun forS :: "('a \<Rightarrow> 'b sup) \<Rightarrow> 'a list \<Rightarrow> 'b list sup" where
  "forS f [] = ret []"
| "forS f (x # xs) = bindS (f x) (\<lambda>y. bindS (forS f xs) (\<lambda>ys. ret (y # ys)))"

text \<open>An await: everything else runs; the trace is that of this method alone.\<close>

definition await :: "sup_env \<Rightarrow> sup_state \<Rightarrow> sup_state" where
  "await E s = (sv_other E (ss_tick s) s)\<lparr>ss_tick := Suc (ss_tick s), ss_trace := ss_trace s\<rparr>"

definition awaitS :: "sup_env \<Rightarrow> unit sup" where
  "awaitS E = modS (await E)"

text \<open>A call out of the process: its outcome is known after the await.\<close>

definition callS :: "sup_env \<Rightarrow> (nat \<Rightarrow> 'a \<Rightarrow> sup_error + 'b) \<Rightarrow> 'a \<Rightarrow> 'b sup" where
  "callS E f x = bindS (awaitS E) (\<lambda>_ s. (s, f (ss_tick s) x))"

subsection \<open>The journal\<close>

definition storeGet :: "sup_env \<Rightarrow> string \<Rightarrow> sandbox_record option sup" where
  "storeGet E i = bindS (awaitS E) (\<lambda>_ s.
     (s, case store_get (sv_dateFinite E) (ss_file s) i of
           Inl e \<Rightarrow> Inl (sup_of_store e) | Inr r \<Rightarrow> Inr r))"

definition storeList :: "sup_env \<Rightarrow> sandbox_record list sup" where
  "storeList E = bindS (awaitS E) (\<lambda>_ s.
     (s, case store_list (sv_dateFinite E) (sv_collate E) (ss_file s) of
           Inl e \<Rightarrow> Inl (sup_of_store e) | Inr rs \<Rightarrow> Inr rs))"

definition storeCreate :: "sup_env \<Rightarrow> sandbox_record \<Rightarrow> unit sup" where
  "storeCreate E r = bindS (awaitS E) (\<lambda>_ s.
     (let c = store_create (sv_dateFinite E) (sv_io E (ss_tick s)) (ss_file s) r
      in case snd c of
           Inl e \<Rightarrow> (s\<lparr>ss_file := fst c\<rparr>, Inl (sup_of_store e))
         | Inr _ \<Rightarrow> (s\<lparr>ss_file := fst c, ss_trace := ss_trace s @ [EvCreate r]\<rparr>, Inr ())))"

text \<open>The record under an id, for the trace.\<close>

definition journaled :: "(string \<Rightarrow> bool) \<Rightarrow> state_file \<Rightarrow> string \<Rightarrow> sandbox_record option" where
  "journaled df f i = (case store_get df f i :: unit store_error + sandbox_record option of
     Inl _ \<Rightarrow> None | Inr r \<Rightarrow> r)"

definition journal_event :: "sup_env \<Rightarrow> state_file \<Rightarrow> string \<Rightarrow> sandbox_record \<Rightarrow> sup_event list" where
  "journal_event E f i r' = (case journaled (sv_dateFinite E) f i of
     None \<Rightarrow> [] | Some r \<Rightarrow> [EvJournal r r'])"

definition sup_swap :: "sup_env \<Rightarrow> string \<Rightarrow> (sandbox_record \<Rightarrow> sup_error + sandbox_record) \<Rightarrow> int
    \<Rightarrow> sup_state \<Rightarrow> sup_state \<times> (sup_error + sandbox_record) option" where
  "sup_swap E i mutate revision s =
     (let c = compareAndSwap (sv_dateFinite E) (sv_io E (ss_tick s)) (sv_date E (ss_tick s)) (ss_file s) i
                revision mutate
      in case snd c of
           Inr r' \<Rightarrow> (s\<lparr>ss_file := fst c, ss_trace := ss_trace s @ journal_event E (ss_file s) i r'\<rparr>,
                      Some (Inr r'))
         | Inl StateConflict \<Rightarrow> (s\<lparr>ss_file := fst c\<rparr>, None)
         | Inl e \<Rightarrow> (s\<lparr>ss_file := fst c\<rparr>, Some (Inl (sup_of_store e))))"

definition sup_update_body :: "sup_env \<Rightarrow> string \<Rightarrow> (sandbox_record \<Rightarrow> sup_error + sandbox_record) \<Rightarrow> nat
    \<Rightarrow> sup_state \<Rightarrow> sup_state \<times> (sup_error + sandbox_record) option" where
  "sup_update_body E i mutate k s = (case storeGet E i s of
      (s1, Inl e) \<Rightarrow> (s1, Some (Inl e))
    | (s1, Inr None) \<Rightarrow> (s1, Some (Inl (SupervisorError SBX_SUP_NOT_FOUND
         (''sandbox '' @ i @ '' is not journaled''))))
    | (s1, Inr (Some current)) \<Rightarrow> sup_swap E i mutate (sb_revision current) (await E s1))"

definition sup_update :: "sup_env \<Rightarrow> string \<Rightarrow> (sandbox_record \<Rightarrow> sup_error + sandbox_record)
    \<Rightarrow> sandbox_record sup" where
  "sup_update E i mutate = (\<lambda>s. case attempt_loop (sup_update_body E i mutate) 0 MAX_CAS_ATTEMPTS s of
     (t, Some r) \<Rightarrow> (t, r) | (t, None) \<Rightarrow> (t, Inl SupConflict))"

definition TERMINAL_PHASES :: "sandbox_phase list" where
  "TERMINAL_PHASES = [Terminated, Quarantined]"

definition RECONCILED_PHASES :: "sandbox_phase list" where
  "RECONCILED_PHASES = [Reconciling, Terminated, Quarantined]"

definition lost_message :: "sandbox_record \<Rightarrow> string \<Rightarrow> string \<Rightarrow> string \<Rightarrow> string" where
  "lost_message current executionId operation winner = operation @ '' for execution '' @ executionId
     @ '' lost sandbox '' @ sb_id current @ '' to '' @ winner @ ''; the record was left alone''"

definition assertWriterOwns :: "sandbox_record \<Rightarrow> string \<Rightarrow> string \<Rightarrow> sup_error + unit" where
  "assertWriterOwns current executionId operation =
     bindE (case executionOf current of
         None \<Rightarrow> Inr ()
       | Some owner \<Rightarrow> requireE (owner = executionId) (SupervisorError SBX_SUP_STALE
           (lost_message current executionId operation (''execution '' @ owner)))) (\<lambda>_.
     requireE (sb_phase current \<notin> set RECONCILED_PHASES) (SupervisorError SBX_SUP_STALE
       (lost_message current executionId operation (''its '' @ phase_name (sb_phase current) @ '' state''))))"

definition mergeResources :: "res_patch \<Rightarrow> sandbox_resources \<Rightarrow> sandbox_resources" where
  "mergeResources p r = \<lparr>sr_uid = overlay (xp_uid p) (sr_uid r), sr_gid = overlay (xp_gid p) (sr_gid r),
     sr_overlayPath = overlay (xp_overlayPath p) (sr_overlayPath r),
     sr_tapName = overlay (xp_tapName p) (sr_tapName r),
     sr_netnsPath = overlay (xp_netnsPath p) (sr_netnsPath r),
     sr_hostIp = overlay (xp_hostIp p) (sr_hostIp r), sr_guestIp = overlay (xp_guestIp p) (sr_guestIp r),
     sr_subnet = overlay (xp_subnet p) (sr_subnet r),
     sr_dnsmasqPidfile = overlay (xp_dnsmasqPidfile p) (sr_dnsmasqPidfile r),
     sr_exposedPorts = orElse (xp_exposedPorts p) (sr_exposedPorts r)\<rparr>"

text \<open>The patch of a transition: the artifact and the template pin it sets.\<close>

record booting_patch =
  bp_artifact :: "artifact_reference option"
  bp_templatePinned :: "bool option"

definition no_patch :: booting_patch where
  "no_patch = \<lparr>bp_artifact = None, bp_templatePinned = None\<rparr>"

definition owned_move :: "string \<Rightarrow> string \<Rightarrow> sandbox_phase list \<Rightarrow> sandbox_phase \<Rightarrow> booting_patch \<Rightarrow> res_patch option
    \<Rightarrow> sandbox_record \<Rightarrow> sup_error + sandbox_record" where
  "owned_move sandboxId executionId allowedFrom to patch resources current =
     bindE (assertWriterOwns current executionId (''move to '' @ phase_name to)) (\<lambda>_.
     bindE (requireE (sb_phase current \<in> set allowedFrom) (SupervisorError SBX_SUP_STATE
       (''sandbox '' @ sandboxId @ '' cannot move '' @ phase_name (sb_phase current) @ '' -> '' @ phase_name to))) (\<lambda>_.
       Inr (current\<lparr>sb_artifact := overlay (bp_artifact patch) (sb_artifact current),
         sb_templatePinned := overlay (bp_templatePinned patch) (sb_templatePinned current),
         sb_resources := (case resources of None \<Rightarrow> sb_resources current
            | Some p \<Rightarrow> mergeResources p (sb_resources current)),
         sb_phase := to\<rparr>)))"

definition ownedTransition :: "sup_env \<Rightarrow> string \<Rightarrow> string \<Rightarrow> sandbox_phase list \<Rightarrow> sandbox_phase
    \<Rightarrow> booting_patch \<Rightarrow> res_patch option \<Rightarrow> unit sup" where
  "ownedTransition E sandboxId executionId allowedFrom to patch resources =
     bindS (sup_update E sandboxId (owned_move sandboxId executionId allowedFrom to patch resources)) (\<lambda>_. ret ())"

text \<open>
  The last write of a record, its phase and reason, by the execution and operation \<open>owner\<close> names; \<open>None\<close> is the
  sweep, which asks nobody.
\<close>

definition settle_record :: "(string \<times> string) option \<Rightarrow> sandbox_phase \<Rightarrow> string \<Rightarrow> sandbox_record \<Rightarrow> sup_error + sandbox_record" where
  "settle_record owner phase reason current =
     bindE (case owner of None \<Rightarrow> Inr () | Some (e, operation) \<Rightarrow> assertWriterOwns current e operation) (\<lambda>_.
       Inr (current\<lparr>sb_phase := phase, sb_terminationReason := Some reason\<rparr>))"

definition quarantine :: "sup_env \<Rightarrow> string \<Rightarrow> string \<Rightarrow> string option \<Rightarrow> sandbox_record sup" where
  "quarantine E sandboxId detail owner =
     sup_update E sandboxId (settle_record (map_option (\<lambda>e. (e, ''quarantine'')) owner) Quarantined (truncateReason detail))"

fun runHooks :: "sup_env \<Rightarrow> sandbox_record \<Rightarrow> (string \<times> (nat \<Rightarrow> sandbox_record \<Rightarrow> sup_error + unit)) list
    \<Rightarrow> string option sup" where
  "runHooks E r [] = ret None"
| "runHooks E r ((name, reclaim) # hooks) =
     bindS (attemptS (callS E reclaim r)) (\<lambda>out. case out of
         Inl e \<Rightarrow> bindS (emit (EvHook name (Some (boundedReason e)))) (\<lambda>_.
                   ret (Some (name @ '': '' @ boundedReason e)))
       | Inr _ \<Rightarrow> bindS (emit (EvHook name None)) (\<lambda>_. runHooks E r hooks))"

definition runReclaimHooks :: "sup_env \<Rightarrow> string \<Rightarrow> string option sup" where
  "runReclaimHooks E sandboxId =
     (if sv_hooks E = [] then ret None
      else bindS (storeGet E sandboxId) (\<lambda>record. case record of
          None \<Rightarrow> ret None | Some r \<Rightarrow> runHooks E r (sv_hooks E)))"

subsection \<open>Reasons are bounded\<close>

lemma slice_reason_prefix: "\<exists>n. slice_reason us = take n us"
proof (induction us rule: slice_reason.induct)
  case (1 us)
  show ?case
  proof (cases "MAX_REASON_LENGTH - 3 < utf8_size us")
    case True
    with 1 obtain n where n: "slice_reason (butlast us) = take n (butlast us)" by blast
    have "slice_reason us = slice_reason (butlast us)" using True by (subst slice_reason.simps) simp
    also have "\<dots> = take (min n (length us - 1)) us" unfolding n by (simp add: butlast_conv_take min.commute)
    finally show ?thesis by blast
  next
    case False
    then have "slice_reason us = take (length us) us" by (subst slice_reason.simps) simp
    then show ?thesis by blast
  qed
qed

lemma slice_reason_longest:
  "MAX_REASON_LENGTH - 3 < utf8_size us \<Longrightarrow> \<exists>n. n < length us \<and> slice_reason us = take n us
     \<and> MAX_REASON_LENGTH - 3 < utf8_size (take (Suc n) us)"
proof (induction us rule: slice_reason.induct)
  case (1 us)
  have eq: "slice_reason us = slice_reason (butlast us)" using 1(2) by (subst slice_reason.simps) simp
  have "us \<noteq> []" using 1(2) by auto
  then have len: "Suc (length us - 1) = length us" "butlast us = take (length us - 1) us"
    by (simp_all add: butlast_conv_take)
  show ?case
  proof (cases "MAX_REASON_LENGTH - 3 < utf8_size (butlast us)")
    case True
    with 1 obtain n where n: "n < length (butlast us)" "slice_reason (butlast us) = take n (butlast us)"
      "MAX_REASON_LENGTH - 3 < utf8_size (take (Suc n) (butlast us))" by blast
    then have "take n (butlast us) = take n us" "take (Suc n) (butlast us) = take (Suc n) us"
      by (simp_all add: take_butlast butlast_conv_take min_absorb1)
    with n eq show ?thesis by (intro exI [of _ n]) auto
  next
    case False
    then have "slice_reason (butlast us) = butlast us" by (subst slice_reason.simps) simp
    then show ?thesis
      using eq len 1(2) by (intro exI [of _ "length us - 1"]) simp
  qed
qed

lemma slice_reason_size: "utf8_size (slice_reason us) \<le> MAX_REASON_LENGTH - 3"
proof (induction us rule: slice_reason.induct)
  case (1 us)
  then show ?case
    by (cases "MAX_REASON_LENGTH - 3 < utf8_size us") (subst slice_reason.simps, simp)+
qed

lemma code_points_snoc:
  "\<not> is_low u \<Longrightarrow> \<not> is_high u \<Longrightarrow> code_points (us @ [u]) = code_points us @ [u]"
proof (induction us rule: code_points.induct)
  case (3 v w us)
  then show ?case by (cases "is_high v \<and> is_low w") auto
qed auto

lemma utf8_size_dot: "utf8_size (us @ [46]) = utf8_size us + 1"
  by (simp add: utf8_size_def utf8_encode_def code_points_snoc is_low_def is_high_def utf8_cp_def)

lemma utf8_size_dots: "utf8_size (us @ [46, 46, 46]) = utf8_size us + 3"
  using utf8_size_dot [of us] utf8_size_dot [of "us @ [46]"] utf8_size_dot [of "us @ [46, 46]"] by simp

lemma truncate_units_size: "utf8_size (truncate_units us) \<le> MAX_REASON_LENGTH"
  using slice_reason_size [of us] by (auto simp: truncate_units_def utf8_size_dots MAX_REASON_LENGTH_def)

lemma truncate_units_latin1: "latin1 (truncateReason s) = truncate_units (latin1 s)"
proof -
  obtain n where n: "slice_reason (latin1 s) = take n (latin1 s)" using slice_reason_prefix by blast
  have "map code (map char_of (take n (latin1 s))) = take n (latin1 s)"
    by (simp add: latin1_def take_map o_def)
  moreover have "map code (map char_of [46, 46, 46 :: nat]) = [46, 46, 46]" by (simp add: code_char_of)
  moreover have "map code (map char_of (latin1 s)) = latin1 s" by (simp add: latin1_def o_def)
  ultimately show ?thesis
    by (simp add: truncateReason_def truncate_units_def n latin1_def [of "map _ _"])
qed

lemma truncateReason_bytes: "byteLength (truncateReason s) \<le> MAX_REASON_LENGTH"
  using truncate_units_size [of "latin1 s"]
  by (simp add: byteLength_def truncate_units_latin1 utf8_size_def [symmetric])

lemma truncateReason_nonempty: "s \<noteq> [] \<Longrightarrow> truncateReason s \<noteq> []"
  by (simp add: truncateReason_def truncate_units_def latin1_def)

lemma truncateReason_ok: "s \<noteq> [] \<Longrightarrow> text_ok 512 (truncateReason s)"
  using truncateReason_bytes [of s] truncateReason_nonempty [of s]
  by (simp add: text_ok_def MAX_REASON_LENGTH_def)

text \<open>
  C25. The loop of \<open>truncateReason\<close> ends on every text, and what it returns is never longer than the 512 bytes of UTF-8 the
  sandbox record admits: a text that fits is kept; of a longer one the loop keeps a proper prefix of code units that fits
  with its dots, the next longer one not fitting, and appends the dots.
\<close>

theorem reasons_are_bounded:
  "utf8_size (truncate_units us) \<le> MAX_REASON_LENGTH
   \<and> (if utf8_size us \<le> MAX_REASON_LENGTH then truncate_units us = us
      else \<exists>n. n < length us \<and> truncate_units us = take n us @ [46, 46, 46]
        \<and> utf8_size (take n us) \<le> MAX_REASON_LENGTH - 3 \<and> MAX_REASON_LENGTH - 3 < utf8_size (take (Suc n) us))
   \<and> byteLength (truncateReason s) \<le> MAX_REASON_LENGTH \<and> (truncateReason s = [] \<longleftrightarrow> s = [])"
proof (intro conjI truncate_units_size truncateReason_bytes)
  show "if utf8_size us \<le> MAX_REASON_LENGTH then truncate_units us = us
      else \<exists>n. n < length us \<and> truncate_units us = take n us @ [46, 46, 46]
        \<and> utf8_size (take n us) \<le> MAX_REASON_LENGTH - 3 \<and> MAX_REASON_LENGTH - 3 < utf8_size (take (Suc n) us)"
  proof (cases "utf8_size us \<le> MAX_REASON_LENGTH")
    case False
    then have "MAX_REASON_LENGTH - 3 < utf8_size us" by (simp add: MAX_REASON_LENGTH_def)
    from slice_reason_longest [OF this] slice_reason_size [of us] False show ?thesis
      by (metis truncate_units_def)
  qed (simp add: truncate_units_def)
  show "truncateReason s = [] \<longleftrightarrow> s = []"
    using truncateReason_nonempty [of s] by (auto simp: truncateReason_def truncate_units_def latin1_def)
qed

subsection \<open>What an update does\<close>

lemma await_trace [simp]: "ss_trace (await E s) = ss_trace s"
  by (simp add: await_def)

definition awaited :: "sup_env \<Rightarrow> sup_state \<Rightarrow> sup_state \<Rightarrow> bool" where
  "awaited E s t = (\<exists>n. t = (await E ^^ n) s)"

lemma awaited_refl: "awaited E s s"
  unfolding awaited_def by (rule exI [of _ 0]) simp

lemma awaited_trans: "awaited E s t \<Longrightarrow> awaited E t u \<Longrightarrow> awaited E s u"
  unfolding awaited_def by (metis funpow_add comp_apply)

lemma awaited_step: "awaited E s (await E s)"
  unfolding awaited_def by (rule exI [of _ 1]) simp

lemma awaited_trace: "awaited E s t \<Longrightarrow> ss_trace t = ss_trace s"
proof -
  have "ss_trace ((await E ^^ n) s) = ss_trace s" for n by (induction n) simp_all
  then show "awaited E s t \<Longrightarrow> ss_trace t = ss_trace s" by (auto simp: awaited_def)
qed

text \<open>
  The step an update takes when it goes through: one swap of the record, from one the update accepts, and its entry in the
  trace.
\<close>

definition updates :: "sup_env \<Rightarrow> string \<Rightarrow> (sandbox_record \<Rightarrow> sup_error + sandbox_record) \<Rightarrow> sup_state
    \<Rightarrow> sup_error + sandbox_record \<Rightarrow> sup_state \<Rightarrow> bool" where
  "updates E i mutate t a t' = (case a of
      Inl _ \<Rightarrow> t' = t
    | Inr r' \<Rightarrow> (\<exists>m r c now. holds (sv_dateFinite E) (ss_file t) m \<and> jm_get m i = Some r \<and> mutate r = Inr c
        \<and> r' = c\<lparr>sb_revision := sb_revision r + 1, sb_updatedAt := now\<rparr> \<and> sb_id c = i
        \<and> record_ok (sv_dateFinite E) r'
        \<and> t' = t\<lparr>ss_file := Content (state_json (jm_set i r' m)), ss_trace := ss_trace t @ [EvJournal r r']\<rparr>))"

lemma storeGet_eq:
  "storeGet E i s = (await E s, case store_get (sv_dateFinite E) (ss_file (await E s)) i of
      Inl e \<Rightarrow> Inl (sup_of_store e) | Inr r \<Rightarrow> Inr r)"
  by (simp add: storeGet_def bindS_def awaitS_def modS_def split: sum.split)

lemma journaled_holds: "holds df f m \<Longrightarrow> journaled df f i = jm_get m i"
  by (simp add: journaled_def store_get_def holds_read)

lemma sup_swap_cases:
  assumes "sup_swap E i mutate n t = (s', a)"
  shows "case a of None \<Rightarrow> s' = t | Some b \<Rightarrow> updates E i mutate t b s'"
proof -
  let ?df = "sv_dateFinite E" and ?now = "sv_date E (ss_tick t)" and ?io = "sv_io E (ss_tick t)"
  obtain g y where cas: "compareAndSwap ?df ?io ?now (ss_file t) i n mutate = (g, y)" by (metis surj_pair)
  show ?thesis
  proof (cases y)
    case (Inl e)
    then have "g = ss_file t" using cas cas_fails by blast
    then have "t\<lparr>ss_file := g\<rparr> = t" by simp
    then show ?thesis
      using assms cas Inl by (cases e) (auto simp: sup_swap_def updates_def)
  next
    case (Inr r')
    obtain m where m: "holds ?df (ss_file t) m" using cas cas_holds_before Inr by blast
    have "compareAndSwap ?df ?io ?now (ss_file t) i n mutate = (g, Inr r')" using cas Inr by simp
    then obtain r c where r: "jm_get m i = Some r" "sb_revision r = n" "mutate r = Inr c" "sb_id c = i"
      "r' = c\<lparr>sb_revision := n + 1, sb_updatedAt := ?now\<rparr>" "record_ok ?df r'"
      "g = Content (state_json (jm_set i r' m))" unfolding cas_holds [OF m] by auto
    have "journal_event E (ss_file t) i r' = [EvJournal r r']"
      by (simp add: journal_event_def journaled_holds [OF m] r(1))
    then have s': "s' = t\<lparr>ss_file := g, ss_trace := ss_trace t @ [EvJournal r r']\<rparr>" and "a = Some (Inr r')"
      using assms cas Inr by (auto simp: sup_swap_def)
    have "updates E i mutate t (Inr r') s'"
      unfolding updates_def sum.case
      by (rule exI [of _ m], rule exI [of _ r], rule exI [of _ c], rule exI [of _ ?now]) (use m r s' in simp)
    with \<open>a = Some (Inr r')\<close> show ?thesis by simp
  qed
qed

lemma update_body_cases:
  assumes "sup_update_body E i mutate k s = (s', a)"
  shows "\<exists>t. awaited E s t \<and> (case a of None \<Rightarrow> s' = t | Some b \<Rightarrow> updates E i mutate t b s')"
proof -
  have a1: "awaited E s (await E s)" and a2: "awaited E s (await E (await E s))"
    by (rule awaited_step, rule awaited_trans [OF awaited_step awaited_step])
  obtain x where x: "storeGet E i s = (await E s, x)" by (simp add: storeGet_eq)
  show ?thesis
  proof (cases "\<exists>cur. x = Inr (Some cur)")
    case True
    then obtain cur where "x = Inr (Some cur)" by blast
    then have "sup_swap E i mutate (sb_revision cur) (await E (await E s)) = (s', a)"
      using assms x by (simp add: sup_update_body_def)
    from sup_swap_cases [OF this] a2 show ?thesis by blast
  next
    case False
    then obtain e where "a = Some (Inl e)" "s' = await E s"
      using assms x by (auto simp: sup_update_body_def split: sum.splits option.splits)
    with a1 show ?thesis by (auto simp: updates_def)
  qed
qed

interpretation upd: retry_loop "sup_update_body E i mutate" "awaited E" "updates E i mutate" for E i mutate
proof
  show "awaited E s s" for s by (rule awaited_refl)
  show "awaited E s t \<Longrightarrow> awaited E t u \<Longrightarrow> awaited E s u" for s t u by (rule awaited_trans)
  show "sup_update_body E i mutate k s = (s', None) \<Longrightarrow> awaited E s s'" for k s s'
    using update_body_cases [of E i mutate k s s' None] by auto
  show "sup_update_body E i mutate k s = (s', Some a) \<Longrightarrow> \<exists>t. awaited E s t \<and> updates E i mutate t a s'" for k s s' a
    using update_body_cases [of E i mutate k s s' "Some a"] by auto
qed

lemma sup_update_result:
  assumes "sup_update E i mutate s = (s', a)"
  shows "\<exists>t. awaited E s t \<and> updates E i mutate t a s'"
proof -
  obtain u x where loop: "attempt_loop (sup_update_body E i mutate) 0 MAX_CAS_ATTEMPTS s = (u, x)"
    by (metis surj_pair)
  show ?thesis
  proof (cases x)
    case None
    then have "awaited E s u" "s' = u" "a = Inl SupConflict"
      using assms loop upd.loop_None by (auto simp: sup_update_def)
    then show ?thesis by (auto simp: updates_def)
  next
    case (Some b)
    then have "s' = u" "a = b" using assms loop by (auto simp: sup_update_def)
    with upd.loop_Some [of E i mutate 0 MAX_CAS_ATTEMPTS s u b] loop Some show ?thesis by simp
  qed
qed

end
