(* ===== verification/Supervisor_Core.thy ===== *)
theory Supervisor_Core
  imports Supervisor_Journal
begin

text \<open>
  \<^verbatim>\<open>src/rootd/supervisor_core.ts\<close>, the operations: launch (cold, or from a snapshot with its
  fallback), the reads of one execution, port forwards, bridges, termination and the reconciliation sweep. The state
  and the journal writes are those of the theory \<open>Supervisor_Journal\<close>.
\<close>

subsection \<open>Programs with cleanup\<close>

definition finallyS :: "'a sup \<Rightarrow> (sup_state \<Rightarrow> sup_state) \<Rightarrow> 'a sup" where
  "finallyS m f = (\<lambda>s. case m s of (t, r) \<Rightarrow> (f t, r))"

definition guardS :: "bool \<Rightarrow> sup_error \<Rightarrow> unit sup" where
  "guardS b e = (if b then ret () else throw e)"

definition err_of :: "sup_error + 'a \<Rightarrow> sup_error option" where
  "err_of r = (case r of Inl e \<Rightarrow> Some e | Inr _ \<Rightarrow> None)"

definition rejectDuringReconcile :: "string \<Rightarrow> unit sup" where
  "rejectDuringReconcile operation = bindS (readS ss_reconciling) (\<lambda>b.
     guardS (\<not> b) (SupervisorError SBX_SUP_UNAVAILABLE
       (operation @ '' is unavailable while the supervisor reconciles'')))"

fun wire_message :: "wire_error \<Rightarrow> string" where
  "wire_message (WireValidationError field) = field"

definition validateS :: "wire_error + 'a \<Rightarrow> 'a sup" where
  "validateS r = (case r of
     Inl e \<Rightarrow> throw (SupervisorError SBX_SUP_VALIDATION (wire_message e)) | Inr x \<Rightarrow> ret x)"

definition begin_op :: "inflight_op \<Rightarrow> sup_state \<Rightarrow> sup_state" where
  "begin_op op s = s\<lparr>ss_inflight := ss_inflight s @ [op]\<rparr>"

definition end_op :: "inflight_op \<Rightarrow> sup_state \<Rightarrow> sup_state" where
  "end_op op s = s\<lparr>ss_inflight := remove1 op (ss_inflight s)\<rparr>"

subsection \<open>Status\<close>

datatype machine_state = LaunchingM | RunningM | StoppingM | ExitedM | CleanupPending

record machine_status =
  ms_sandboxId :: string
  ms_executionId :: string
  ms_state :: machine_state
  ms_pid :: "int option"
  ms_exitCode :: "int option"
  ms_exitedAtUnixMs :: "int option"
  ms_reason :: "string option"

fun liveState :: "vm_state \<Rightarrow> machine_state" where
  "liveState Configured = LaunchingM"
| "liveState Starting = LaunchingM"
| "liveState RunningVm = RunningM"
| "liveState Paused = RunningM"
| "liveState ShuttingDown = StoppingM"
| "liveState ExitedVm = ExitedM"
| "liveState Cleaned = ExitedM"

fun journaledState :: "sandbox_phase \<Rightarrow> machine_state" where
  "journaledState Allocating = LaunchingM"
| "journaledState Staging = LaunchingM"
| "journaledState Booting = LaunchingM"
| "journaledState Terminating = StoppingM"
| "journaledState Terminated = ExitedM"
| "journaledState Quarantined = ExitedM"
| "journaledState Ready = CleanupPending"
| "journaledState Reconciling = CleanupPending"

definition running_status :: "launch_request \<Rightarrow> sup_machine \<Rightarrow> machine_status" where
  "running_status v m = \<lparr>ms_sandboxId = lr_sandboxId v, ms_executionId = lr_executionId v, ms_state = RunningM,
     ms_pid = Some (mc_pid m), ms_exitCode = None, ms_exitedAtUnixMs = None, ms_reason = None\<rparr>"

definition statusOf :: "sup_state \<Rightarrow> sandbox_record \<Rightarrow> string \<Rightarrow> machine_status" where
  "statusOf s record executionId =
     (let machine = jm_get (ss_machines s) executionId;
          journaledPid = Option.bind (jailOf record) jr_pid;
          base = \<lparr>ms_sandboxId = sb_id record, ms_executionId = executionId, ms_state = ExitedM,
            ms_pid = overlay (map_option mc_pid machine) journaledPid, ms_exitCode = None,
            ms_exitedAtUnixMs = None, ms_reason = sb_terminationReason record\<rparr>
      in case jm_get (ss_exits s) executionId of
           Some exit \<Rightarrow> base\<lparr>ms_state := ExitedM, ms_exitCode := ox_exitCode exit,
             ms_exitedAtUnixMs := Some (ox_atUnixMs exit)\<rparr>
         | None \<Rightarrow> (case machine of
               Some m \<Rightarrow> base\<lparr>ms_state := liveState (mc_state m)\<rparr>
             | None \<Rightarrow> base\<lparr>ms_state := journaledState (sb_phase record)\<rparr>))"

definition requireReadyAndLive :: "sandbox_record \<Rightarrow> string \<Rightarrow> string \<Rightarrow> unit sup" where
  "requireReadyAndLive record executionId operation =
     bindS (guardS (sb_phase record = Ready) (SupervisorError SBX_SUP_STATE (operation @ '' requires a ready sandbox; ''
       @ sb_id record @ '' is '' @ phase_name (sb_phase record)))) (\<lambda>_.
     bindS (readS (\<lambda>s. jm_has (ss_machines s) executionId \<and> \<not> jm_has (ss_exits s) executionId)) (\<lambda>live.
       guardS live (SupervisorError SBX_SUP_STATE (operation @ '' requires a live machine for the execution''))))"

definition byExecution :: "sup_env \<Rightarrow> string \<Rightarrow> sandbox_record sup" where
  "byExecution E executionId =
     bindS (guardS (jail_id_ok executionId) (SupervisorError SBX_SUP_VALIDATION
       ''the execution id is not a valid logical identifier'')) (\<lambda>_.
     bindS (storeList E) (\<lambda>records.
       case find (\<lambda>r. executionOf r = Some executionId) records of
         None \<Rightarrow> throw (SupervisorError SBX_SUP_NOT_FOUND ''no journal entry resolves the execution id'')
       | Some r \<Rightarrow> ret r))"

definition track :: "sup_machine \<Rightarrow> sup_state \<Rightarrow> sup_state" where
  "track m s = s\<lparr>ss_machines := jm_set (mc_executionId m) m (ss_machines s)\<rparr>"

text \<open>What \<open>#track\<close> subscribed to: the exit of a machine, whenever it happens.\<close>

definition observeExit :: "string \<Rightarrow> int option \<Rightarrow> int \<Rightarrow> sup_state \<Rightarrow> sup_state" where
  "observeExit executionId exitCode now s =
     s\<lparr>ss_exits := jm_set executionId \<lparr>ox_exitCode = exitCode, ox_atUnixMs = now\<rparr> (ss_exits s)\<rparr>"

definition status :: "sup_env \<Rightarrow> string \<Rightarrow> machine_status sup" where
  "status E executionId = bindS (byExecution E executionId) (\<lambda>r. readS (\<lambda>s. statusOf s r executionId))"

text \<open>The accounting is all zeros; the check of the machine is what the call does.\<close>

definition usage :: "sup_env \<Rightarrow> string \<Rightarrow> int list sup" where
  "usage E executionId = bindS (byExecution E executionId) (\<lambda>r.
     bindS (requireReadyAndLive r executionId ''usage'') (\<lambda>_. ret [0, 0, 0, 0, 0, 0]))"

definition dialS :: "sup_env \<Rightarrow> int \<Rightarrow> unit sup" where
  "dialS E port = bindS (emit (EvDial port)) (\<lambda>_. callS E (sv_dial E) port)"

definition probeAgent :: "sup_env \<Rightarrow> string \<Rightarrow> unit sup" where
  "probeAgent E executionId = bindS (byExecution E executionId) (\<lambda>r.
     bindS (requireReadyAndLive r executionId ''probeAgent'') (\<lambda>_.
     bindS (readS (\<lambda>s. jm_get (ss_agentPorts s) executionId)) (\<lambda>port. case port of
         None \<Rightarrow> ret () | Some p \<Rightarrow> dialS E p)))"

definition connectAgent :: "sup_env \<Rightarrow> string \<Rightarrow> unit sup" where
  "connectAgent E executionId = bindS (byExecution E executionId) (\<lambda>r.
     bindS (requireReadyAndLive r executionId ''connectAgent'') (\<lambda>_.
     bindS (readS (\<lambda>s. jm_get (ss_agentPorts s) executionId)) (\<lambda>port. case port of
         None \<Rightarrow> throw (SupervisorError SBX_SUP_STATE (''execution '' @ executionId
           @ '' has no agent vsock port; the plan configured none''))
       | Some p \<Rightarrow> dialS E p)))"

definition connectBridge :: "sup_env \<Rightarrow> string \<Rightarrow> int \<Rightarrow> unit sup" where
  "connectBridge E executionId guestPort =
     bindS (rejectDuringReconcile ''connectBridge'') (\<lambda>_.
     bindS (guardS (jail_id_ok executionId) (SupervisorError SBX_SUP_VALIDATION
       ''the execution id is not a valid logical identifier'')) (\<lambda>_.
     bindS (byExecution E executionId) (\<lambda>r.
     bindS (requireReadyAndLive r executionId ''connectBridge'') (\<lambda>_. dialS E guestPort))))"

definition sup_ping :: "int \<Rightarrow> sup_error + int" where
  "sup_ping nonce = (if nonce < 0 \<or> 18446744073709551615 < nonce
     then Inl (SupervisorError SBX_SUP_VALIDATION ''ping nonce must be an unsigned 64-bit integer'')
     else Inr nonce)"

subsection \<open>Launch\<close>

definition killAndDispose :: "sup_env \<Rightarrow> string \<Rightarrow> (sup_error option \<times> sup_error option) sup" where
  "killAndDispose E executionId =
     bindS (attemptS (callS E (sv_kill E) executionId)) (\<lambda>k.
     bindS (attemptS (callS E (sv_dispose E) executionId)) (\<lambda>d.
     bindS (emit (EvDown (err_of k) (err_of d))) (\<lambda>_. ret (err_of k, err_of d))))"

text \<open>A boot by the adapter; the machine it returns is that of the requested execution.\<close>

definition spawnS :: "sup_env \<Rightarrow> boot_kind \<Rightarrow> (nat, sup_machine) outcome \<Rightarrow> nat \<Rightarrow> string \<Rightarrow> sup_machine sup" where
  "spawnS E kind boot recipe executionId =
     bindS (emit (EvSpawn kind)) (\<lambda>_.
     bindS (catchS (callS E boot recipe) (\<lambda>e. bindS (emit (EvSpawnFailed e)) (\<lambda>_. throw e))) (\<lambda>m.
       ret (m\<lparr>mc_executionId := executionId\<rparr>)))"

definition becomeReady :: "sup_env \<Rightarrow> launch_request \<Rightarrow> unit sup" where
  "becomeReady E v = ownedTransition E (lr_sandboxId v) (lr_executionId v) [Booting] Ready no_patch None"

definition bootColdPlan :: "sup_env \<Rightarrow> launch_request \<Rightarrow> cold_plan \<Rightarrow> machine_status sup" where
  "bootColdPlan E v plan =
     bindS (spawnS E ColdBoot (sv_launch E) (cp_recipe plan) (lr_executionId v)) (\<lambda>machine.
     bindS (catchS
         (bindS (case cp_agentVsockPort plan of None \<Rightarrow> ret () | Some p \<Rightarrow> dialS E p) (\<lambda>_. becomeReady E v))
         (\<lambda>e. bindS (killAndDispose E (lr_executionId v)) (\<lambda>_. throw e))) (\<lambda>_.
     bindS (modS (track machine)) (\<lambda>_.
     bindS (modS (\<lambda>s. case cp_agentVsockPort plan of None \<Rightarrow> s
       | Some p \<Rightarrow> s\<lparr>ss_agentPorts := jm_set (lr_executionId v) p (ss_agentPorts s)\<rparr>)) (\<lambda>_.
     bindS (modS (\<lambda>s. case cp_agentCredential plan of None \<Rightarrow> s
       | Some c \<Rightarrow> s\<lparr>ss_agentCredentials := jm_set (lr_executionId v) c (ss_agentCredentials s)\<rparr>)) (\<lambda>_.
       ret (running_status v machine))))))"

definition unbind_machine :: "string \<Rightarrow> sandbox_record \<Rightarrow> sup_error + sandbox_record" where
  "unbind_machine executionId current =
     bindE (assertWriterOwns current executionId ''restore fallback'') (\<lambda>_. Inr (current\<lparr>sb_machine := None\<rparr>))"

definition fallbackToCold :: "sup_env \<Rightarrow> launch_request \<Rightarrow> restore_plan \<Rightarrow> machine_status sup" where
  "fallbackToCold E v plan =
     bindS (sup_update E (lr_sandboxId v) (unbind_machine (lr_executionId v))) (\<lambda>_.
       bootColdPlan E v (rp_fallback plan))"

definition personalizeRestored :: "sup_env \<Rightarrow> restore_plan \<Rightarrow> unit sup" where
  "personalizeRestored E plan =
     bindS (dialS E (rp_agentVsockPort plan)) (\<lambda>_.
     bindS (emit EvPersonalize) (\<lambda>_. callS E (sv_personalize E) plan))"

definition cleanup_error :: "sup_error option \<Rightarrow> sup_error option \<Rightarrow> sup_error option" where
  "cleanup_error killed disposed =
     (case disposed of
        Some e \<Rightarrow> if isCleanupIncomplete e then Some e
                  else (case killed of Some e \<Rightarrow> if isCleanupIncomplete e then Some e else None | None \<Rightarrow> None)
      | None \<Rightarrow> (case killed of Some e \<Rightarrow> if isCleanupIncomplete e then Some e else None | None \<Rightarrow> None))"

definition putRestoredVmmDown :: "sup_env \<Rightarrow> string \<Rightarrow> sup_error option sup" where
  "putRestoredVmmDown E executionId =
     bindS (killAndDispose E executionId) (\<lambda>(k, d). ret (cleanup_error k d))"

text \<open>\<open>#launchRestore\<close>, its three parts: the restored machine becomes ready, or is put down for the fallback.\<close>

definition restoreReady :: "sup_env \<Rightarrow> launch_request \<Rightarrow> restore_plan \<Rightarrow> sup_machine \<Rightarrow> machine_status sup" where
  "restoreReady E v plan machine =
     bindS (catchS (becomeReady E v) (\<lambda>e. bindS (killAndDispose E (lr_executionId v)) (\<lambda>_. throw e))) (\<lambda>_.
     bindS (modS (track machine)) (\<lambda>_.
     bindS (modS (\<lambda>s. s\<lparr>ss_agentPorts :=
         jm_set (lr_executionId v) (rp_agentVsockPort plan) (ss_agentPorts s)\<rparr>)) (\<lambda>_.
     bindS (modS (\<lambda>s. s\<lparr>ss_agentCredentials :=
         jm_set (lr_executionId v) (rp_agentCredential plan) (ss_agentCredentials s)\<rparr>)) (\<lambda>_.
       ret (running_status v machine)))))"

definition restoreAbandoned :: "sup_env \<Rightarrow> launch_request \<Rightarrow> restore_plan \<Rightarrow> machine_status sup" where
  "restoreAbandoned E v plan =
     bindS (putRestoredVmmDown E (lr_executionId v)) (\<lambda>cleanupError. case cleanupError of
         Some e \<Rightarrow> throw e
       | None \<Rightarrow> fallbackToCold E v plan)"

definition launchRestore :: "sup_env \<Rightarrow> launch_request \<Rightarrow> restore_plan \<Rightarrow> machine_status sup" where
  "launchRestore E v plan =
     bindS (attemptS (spawnS E SnapshotRestore (sv_restore E) (rp_recipe plan) (lr_executionId v))) (\<lambda>restored.
       case restored of
         Inl e \<Rightarrow> if isCleanupIncomplete e then throw e else fallbackToCold E v plan
       | Inr machine \<Rightarrow>
           bindS (attemptS (personalizeRestored E plan)) (\<lambda>personalized. case personalized of
               Inl _ \<Rightarrow> restoreAbandoned E v plan
             | Inr _ \<Rightarrow> restoreReady E v plan machine))"

definition parkFailedLaunch :: "sup_env \<Rightarrow> string \<Rightarrow> string \<Rightarrow> sup_error \<Rightarrow> unit sup" where
  "parkFailedLaunch E sandboxId executionId error =
     (if is_stale error then ret ()
      else
        (let detail = ''launch failed: '' @ boundedReason error
         in catchS
              (bindS (runReclaimHooks E sandboxId) (\<lambda>hookDetail. case hookDetail of
                  Some d \<Rightarrow> bindS (quarantine E sandboxId d (Some executionId)) (\<lambda>_. ret ())
                | None \<Rightarrow>
                    if isCleanupIncomplete error
                    then bindS (quarantine E sandboxId detail (Some executionId)) (\<lambda>_. ret ())
                    else bindS (sup_update E sandboxId (settle_record (Some (executionId, ''park failed launch''))
                           Terminated (truncateReason detail))) (\<lambda>_. ret ())))
              (\<lambda>_. ret ())))"

fun plan_patch :: "launch_plan \<Rightarrow> booting_patch" where
  "plan_patch (ColdPlan p) = \<lparr>bp_artifact = cp_artifact p, bp_templatePinned = None\<rparr>"
| "plan_patch (RestorePlan p) = \<lparr>bp_artifact = rp_artifact p, bp_templatePinned = Some True\<rparr>"

fun plan_resources :: "launch_plan \<Rightarrow> res_patch option" where
  "plan_resources (ColdPlan p) = cp_resources p"
| "plan_resources (RestorePlan p) = rp_resources p"

definition createRecord :: "sup_env \<Rightarrow> launch_request \<Rightarrow> unit sup" where
  "createRecord E v =
     catchS
       (bindS (readS (\<lambda>s. sv_date E (ss_tick s))) (\<lambda>now.
        bindS (liftS (case newSandboxRecord (sv_dateFinite E) (lr_sandboxId v) None None now of
                 Inl e \<Rightarrow> Inl (SupModel e) | Inr r \<Rightarrow> Inr r)) (\<lambda>r. storeCreate E r)))
       (\<lambda>e. if e = SupConflict then throw (SupervisorError SBX_SUP_DUPLICATE
              (''sandbox '' @ lr_sandboxId v @ '' is already journaled'')) else throw e)"

definition bootResolved :: "sup_env \<Rightarrow> launch_request \<Rightarrow> launch_plan \<Rightarrow> machine_status sup" where
  "bootResolved E v plan = (case plan of
     RestorePlan p \<Rightarrow> launchRestore E v p | ColdPlan p \<Rightarrow> bootColdPlan E v p)"

definition launchJournaled :: "sup_env \<Rightarrow> launch_request \<Rightarrow> machine_status sup" where
  "launchJournaled E v =
     bindS (ownedTransition E (lr_sandboxId v) (lr_executionId v) [Allocating] Staging no_patch None) (\<lambda>_.
     bindS (callS E (sv_resolve E) v) (\<lambda>plan.
     bindS (emit (EvResolved plan)) (\<lambda>_.
     bindS (ownedTransition E (lr_sandboxId v) (lr_executionId v) [Staging] Booting (plan_patch plan)
       (plan_resources plan)) (\<lambda>_. bootResolved E v plan))))"

definition launchValidated :: "sup_env \<Rightarrow> launch_request \<Rightarrow> machine_status sup" where
  "launchValidated E v =
     bindS (createRecord E v) (\<lambda>_.
     catchS (launchJournaled E v) (\<lambda>e.
       bindS (parkFailedLaunch E (lr_sandboxId v) (lr_executionId v) e) (\<lambda>_. throw e)))"

definition sup_launch :: "sup_env \<Rightarrow> wire_obj option \<Rightarrow> machine_status sup" where
  "sup_launch E request =
     bindS (rejectDuringReconcile ''launch'') (\<lambda>_.
     bindS (validateS (validateLaunchRequest request)) (\<lambda>v.
     bindS (liftS (case assertSandboxId (lr_sandboxId v) of Inl e \<Rightarrow> Inl (SupModel e) | Inr u \<Rightarrow> Inr u)) (\<lambda>_.
     bindS (liftS (case assertExecutionId (lr_executionId v) of Inl e \<Rightarrow> Inl (SupFc e) | Inr u \<Rightarrow> Inr u)) (\<lambda>_.
     let op = \<lparr>io_operation = OpLaunch, io_executionId = lr_executionId v\<rparr>
     in bindS (modS (begin_op op)) (\<lambda>_. finallyS (launchValidated E v) (end_op op))))))"

subsection \<open>Bridges\<close>

definition revokeBridges :: "string \<Rightarrow> sup_state \<Rightarrow> sup_state" where
  "revokeBridges executionId s =
     s\<lparr>ss_bridges := jm_filter (\<lambda>b. be_executionId b \<noteq> executionId) (ss_bridges s)\<rparr>"

definition purgeExpiredBridges :: "int \<Rightarrow> sup_state \<Rightarrow> sup_state" where
  "purgeExpiredBridges now s =
     s\<lparr>ss_bridges := jm_filter (\<lambda>b. \<not> bg_expiresAtUnixMs (be_grant b) \<le> now) (ss_bridges s)\<rparr>"

definition nowS :: "sup_env \<Rightarrow> int sup" where
  "nowS E = readS (\<lambda>s. sv_now E (ss_tick s))"

definition new_grant :: "string \<Rightarrow> bytes \<Rightarrow> bytes \<Rightarrow> int \<Rightarrow> bridge_grant" where
  "new_grant uuid bridgeCredential agentCredential expires =
     (let bridgeId = ''b-'' @ filter (\<lambda>c. c \<noteq> CHR ''-'') uuid
      in \<lparr>bg_bridgeId = bridgeId, bg_socketPath = BRIDGE_SOCKET_ROOT @ bridgeId,
          bg_bridgeCredential = bridgeCredential, bg_agentCredential = agentCredential,
          bg_expiresAtUnixMs = expires\<rparr>)"

text \<open>The draws of one call: the id, the bridge's credential, and one for a guest without a token.\<close>

definition openBridge :: "sup_env \<Rightarrow> wire_obj option \<Rightarrow> bridge_grant sup" where
  "openBridge E request =
     bindS (rejectDuringReconcile ''openBridge'') (\<lambda>_.
     bindS (nowS E) (\<lambda>now.
     bindS (validateS (validateBridgeRequest request now)) (\<lambda>v.
     bindS (byExecution E (br_executionId v)) (\<lambda>record.
     bindS (guardS (sb_id record = br_sandboxId v) (SupervisorError SBX_SUP_STATE
       ''openBridge sandbox id does not own the target execution'')) (\<lambda>_.
     bindS (requireReadyAndLive record (br_executionId v) ''openBridge'') (\<lambda>_.
     bindS (readS (\<lambda>s. new_grant (sv_uuid E (ss_tick s)) (sv_random E (2 * ss_tick s))
        (orElse (jm_get (ss_agentCredentials s) (br_executionId v)) (sv_random E (2 * ss_tick s + 1)))
        (br_expiresAtUnixMs v))) (\<lambda>draft.
     bindS (liftS (case bindE (validateBridgeSocketPath (WStr (bg_socketPath draft))) (\<lambda>_.
              validateBridgeGrant (Some (grant_obj draft)) now) of
           Inl e \<Rightarrow> Inl (SupThrown (wire_message e)) | Inr g \<Rightarrow> Inr g)) (\<lambda>grant.
     bindS (nowS E) (\<lambda>later.
     bindS (modS (purgeExpiredBridges later)) (\<lambda>_.
     bindS (modS (\<lambda>s. s\<lparr>ss_bridges := jm_set (bg_bridgeId grant) \<lparr>be_grant = grant,
       be_sandboxId = br_sandboxId v, be_executionId = br_executionId v, be_consumed = False\<rparr> (ss_bridges s)\<rparr>)) (\<lambda>_.
       ret grant)))))))))))"

text \<open>A synchronous call at the time \<open>now\<close>.\<close>

definition takeBridgeGrant :: "int \<Rightarrow> string \<Rightarrow> bridge_grant sup" where
  "takeBridgeGrant now bridgeId =
     bindS (modS (purgeExpiredBridges now)) (\<lambda>_.
     bindS (readS (\<lambda>s. jm_get (ss_bridges s) bridgeId)) (\<lambda>entry. case entry of
         None \<Rightarrow> throw (SupervisorError SBX_SUP_NOT_FOUND ''the bridge grant does not exist or has expired'')
       | Some b \<Rightarrow>
           if be_consumed b
           then throw (SupervisorError SBX_SUP_STATE ''the bridge grant was already consumed'')
           else bindS (modS (\<lambda>s. s\<lparr>ss_bridges := jm_set bridgeId (b\<lparr>be_consumed := True\<rparr>) (ss_bridges s)\<rparr>)) (\<lambda>_.
             ret (be_grant b))))"

record health_report =
  sh_activeMachines :: nat
  sh_activeBridges :: nat
  sh_reconciling :: bool

definition sup_health :: "int \<Rightarrow> health_report sup" where
  "sup_health now = bindS (modS (purgeExpiredBridges now)) (\<lambda>_. readS (\<lambda>s.
     \<lparr>sh_activeMachines = length (filter (\<lambda>e. \<not> jm_has (ss_exits s) (fst e)) (ss_machines s)),
      sh_activeBridges = length (filter (\<lambda>e. \<not> be_consumed (snd e)) (ss_bridges s)),
      sh_reconciling = ss_reconciling s\<rparr>))"

subsection \<open>Port forwards\<close>

text \<open>The journal entry of a forward; a host port that is there already stays as it is.\<close>

definition add_forward :: "int \<Rightarrow> int \<Rightarrow> exposed_port list \<Rightarrow> exposed_port list" where
  "add_forward hostPort guestPort ports =
     (if list_ex (\<lambda>p. ep_hostPort p = hostPort) ports then ports
      else ports @ [\<lparr>ep_hostPort = hostPort, ep_guestPort = guestPort\<rparr>])"

definition journal_forward :: "string \<Rightarrow> int \<Rightarrow> int \<Rightarrow> sandbox_record \<Rightarrow> sup_error + sandbox_record" where
  "journal_forward executionId guestPort hostPort current =
     bindE (assertWriterOwns current executionId ''exposeHttp journal'') (\<lambda>_.
       Inr (current\<lparr>sb_resources := (sb_resources current)\<lparr>sr_exposedPorts :=
         add_forward hostPort guestPort (sr_exposedPorts (sb_resources current))\<rparr>\<rparr>))"

definition alloc_of_tap :: "string \<Rightarrow> sup_error + subnet_allocation" where
  "alloc_of_tap tapName = (case bindE (slotOfTapName tapName) (\<lambda>slot. subnetForSlot (NumInt slot) DEFAULT_POOL_CIDR) of
     Inl _ \<Rightarrow> Inl (SupThrown ''RangeError'') | Inr a \<Rightarrow> Inr a)"

text \<open>
  \<open>#doExposeHttp\<close>. An error of the installer arrives as \<open>SupThrown\<close>; it is a \<open>PortForwardError\<close> when its text starts with
  that name.
\<close>

definition is_port_forward_error :: "sup_error \<Rightarrow> bool" where
  "is_port_forward_error e = (case e of SupThrown t \<Rightarrow> startsWith t ''PortForwardError: '' | _ \<Rightarrow> False)"

definition doExposeHttp :: "sup_env \<Rightarrow> (subnet_allocation \<times> string \<times> exposed_port list, unit) outcome
    \<Rightarrow> (string, unit) outcome \<Rightarrow> string \<Rightarrow> int \<Rightarrow> int \<Rightarrow> unit sup" where
  "doExposeHttp E expose unexpose executionId guestPort hostPort =
     bindS (byExecution E executionId) (\<lambda>record.
     bindS (requireReadyAndLive record executionId ''exposeHttp'') (\<lambda>_.
     case (sr_tapName (sb_resources record), sr_guestIp (sb_resources record), sr_hostIp (sb_resources record)) of
       (Some tapName, Some _, Some _) \<Rightarrow>
         bindS (liftS (alloc_of_tap tapName)) (\<lambda>alloc.
         let forwards = add_forward hostPort guestPort (sr_exposedPorts (sb_resources record))
         in bindS (emit (EvForward forwards)) (\<lambda>_.
            bindS (catchS (callS E expose (alloc, sb_id record, forwards)) (\<lambda>e.
              if is_port_forward_error e
              then throw (SupervisorError SBX_SUP_STATE (''exposeHttp could not install the forward for '' @ sb_id record))
              else throw e)) (\<lambda>_.
            catchS (bindS (sup_update E (sb_id record) (journal_forward executionId guestPort hostPort)) (\<lambda>_. ret ()))
              (\<lambda>e. bindS (emit EvUnforward) (\<lambda>_.
                   bindS (attemptS (callS E unexpose (sb_id record))) (\<lambda>_. throw e))))))
     | _ \<Rightarrow> throw (SupervisorError SBX_SUP_STATE (''exposeHttp requires a network-provisioned sandbox; ''
              @ sb_id record @ '' journaled no TAP/addresses''))))"

text \<open>
  \<open>#withExposeLock\<close>: the tail of this call, named by the tick at which it was made, replaces the one it waits for, and
  is dropped at the end when it is still the last.
\<close>

definition withExposeLock :: "sup_env \<Rightarrow> string \<Rightarrow> 'a sup \<Rightarrow> 'a sup" where
  "withExposeLock E executionId fn = (\<lambda>s.
     let tail = ss_tick s
     in finallyS (bindS (modS (\<lambda>s. s\<lparr>ss_exposeChain := jm_set executionId tail (ss_exposeChain s)\<rparr>)) (\<lambda>_.
          bindS (awaitS E) (\<lambda>_. fn)))
        (\<lambda>t. if jm_get (ss_exposeChain t) executionId = Some tail
             then t\<lparr>ss_exposeChain := jm_delete executionId (ss_exposeChain t)\<rparr> else t) s)"

definition exposeHttp :: "sup_env \<Rightarrow> string \<Rightarrow> int \<Rightarrow> int \<Rightarrow> unit sup" where
  "exposeHttp E executionId guestPort hostPort =
     bindS (rejectDuringReconcile ''exposeHttp'') (\<lambda>_. case sv_expose E of
         None \<Rightarrow> throw (SupervisorError SBX_SUP_UNAVAILABLE
           ''exposeHttp is unavailable: no network dataplane is configured'')
       | Some (expose, unexpose) \<Rightarrow>
           withExposeLock E executionId (doExposeHttp E expose unexpose executionId guestPort hostPort))"

subsection \<open>Termination\<close>

definition mode_name :: "inflight_kind \<Rightarrow> string" where
  "mode_name mode = (case mode of OpLaunch \<Rightarrow> ''launch'' | OpShutdown \<Rightarrow> ''shutdown'' | OpKill \<Rightarrow> ''kill'')"

definition stopMachine :: "sup_env \<Rightarrow> inflight_kind \<Rightarrow> string \<Rightarrow> unit sup" where
  "stopMachine E mode executionId =
     bindS (attemptS (callS E (if mode = OpKill then sv_kill E else sv_shutdown E) executionId)) (\<lambda>k.
     bindS (emit (EvStop mode (err_of k))) (\<lambda>_. case k of
         Inl e \<Rightarrow> throw e
       | Inr _ \<Rightarrow> callS E (sv_dispose E) executionId))"

definition forget :: "string \<Rightarrow> sup_state \<Rightarrow> sup_state" where
  "forget executionId s = revokeBridges executionId (s\<lparr>ss_machines := jm_delete executionId (ss_machines s),
     ss_agentPorts := jm_delete executionId (ss_agentPorts s),
     ss_agentCredentials := jm_delete executionId (ss_agentCredentials s),
     ss_exits := jm_delete executionId (ss_exits s)\<rparr>)"

definition rethrowUnlessStale :: "sup_error \<Rightarrow> unit sup" where
  "rethrowUnlessStale e = (if is_stale e then ret () else throw e)"

definition terminateInflight :: "sup_env \<Rightarrow> string \<Rightarrow> inflight_kind \<Rightarrow> unit sup" where
  "terminateInflight E executionId mode =
     bindS (byExecution E executionId) (\<lambda>record.
     bindS (guardS (sb_phase record \<notin> set TERMINAL_PHASES) (SupervisorError SBX_SUP_STATE
       (mode_name mode @ '' is invalid for a '' @ phase_name (sb_phase record) @ '' sandbox''))) (\<lambda>_.
     bindS (readS (\<lambda>s. jm_has (ss_machines s) executionId)) (\<lambda>tracked.
     bindS (guardS tracked (SupervisorError SBX_SUP_STATE
       (mode_name mode @ '' has no live machine for the execution; run reconcile''))) (\<lambda>_.
     bindS (ownedTransition E (sb_id record) executionId [Booting, Ready, Terminating] Terminating no_patch None) (\<lambda>_.
     bindS (catchS (stopMachine E mode executionId) (\<lambda>e.
       bindS (catchS (bindS (quarantine E (sb_id record) (boundedReason e) (Some executionId)) (\<lambda>_. ret ()))
         rethrowUnlessStale) (\<lambda>_. throw e))) (\<lambda>_.
     bindS (runReclaimHooks E (sb_id record)) (\<lambda>hookDetail. case hookDetail of
         Some d \<Rightarrow> bindS (quarantine E (sb_id record) d (Some executionId)) (\<lambda>_.
           throw (SupervisorError SBX_SUP_STATE (mode_name mode @ '' reclaim quarantined sandbox '' @ sb_id record
             @ '': '' @ d)))
       | None \<Rightarrow>
           bindS (sup_update E (sb_id record) (settle_record (Some (executionId, mode_name mode @ '' completion''))
             Terminated (mode_name mode))) (\<lambda>_. modS (forget executionId)))))))))"

definition terminate :: "sup_env \<Rightarrow> string \<Rightarrow> inflight_kind \<Rightarrow> unit sup" where
  "terminate E executionId mode =
     bindS (rejectDuringReconcile (mode_name mode)) (\<lambda>_.
     let op = \<lparr>io_operation = mode, io_executionId = executionId\<rparr>
     in bindS (modS (begin_op op)) (\<lambda>_. finallyS (terminateInflight E executionId mode) (end_op op)))"

definition shutdown :: "sup_env \<Rightarrow> string \<Rightarrow> unit sup" where
  "shutdown E executionId = terminate E executionId OpShutdown"

definition sup_kill :: "sup_env \<Rightarrow> string \<Rightarrow> unit sup" where
  "sup_kill E executionId = terminate E executionId OpKill"

subsection \<open>Reconciliation\<close>

record reconcile_failure =
  rf_sandboxId :: string
  rf_executionId :: "string option"
  rf_detail :: string

record reconcile_summary =
  rs_examined :: nat
  rs_killed :: nat
  rs_reclaimed :: nat
  rs_quarantined :: nat
  rs_failures :: "reconcile_failure list"

definition markReconciling :: "sup_env \<Rightarrow> sandbox_record \<Rightarrow> unit sup" where
  "markReconciling E record =
     (if sb_phase record = Reconciling then ret ()
      else bindS (sup_update E (sb_id record) (\<lambda>current. Inr (current\<lparr>sb_phase := Reconciling\<rparr>))) (\<lambda>_. ret ()))"

text \<open>The failure the package reported last for an execution.\<close>

definition package_failure :: "package_result \<Rightarrow> string \<Rightarrow> string option" where
  "package_failure p executionId =
     jm_get (foldl (\<lambda>m f. jm_set (fst f) (boundedReason (snd f)) m) [] (pr_failures p)) executionId"

text \<open>One record of the sweep: \<open>None\<close> when it was reclaimed, its failure when it was quarantined.\<close>

definition convergeRecord :: "sup_env \<Rightarrow> package_result \<Rightarrow> sandbox_record \<Rightarrow> reconcile_failure option sup" where
  "convergeRecord E p record =
     bindS (case Option.bind (executionOf record) (package_failure p) of
         Some failure \<Rightarrow> ret (Some (''firecracker reclaim: '' @ failure))
       | None \<Rightarrow> runReclaimHooks E (sb_id record)) (\<lambda>detail. case detail of
         None \<Rightarrow> bindS (sup_update E (sb_id record) (settle_record None Terminated ''host-restart'')) (\<lambda>_. ret None)
       | Some d \<Rightarrow> bindS (quarantine E (sb_id record) d None) (\<lambda>_.
           ret (Some \<lparr>rf_sandboxId = sb_id record, rf_executionId = executionOf record, rf_detail = d\<rparr>)))"

definition clear_live :: "sup_state \<Rightarrow> sup_state" where
  "clear_live s = s\<lparr>ss_machines := [], ss_agentPorts := [], ss_agentCredentials := [], ss_exits := [],
     ss_bridges := []\<rparr>"

definition reconcileSweep :: "sup_env \<Rightarrow> reconcile_summary sup" where
  "reconcileSweep E =
     bindS (storeList E) (\<lambda>records.
     let open_records = filter (\<lambda>r. sb_phase r \<notin> set TERMINAL_PHASES) records
     in if open_records = []
        then ret \<lparr>rs_examined = 0, rs_killed = 0, rs_reclaimed = 0, rs_quarantined = 0, rs_failures = []\<rparr>
        else
          bindS (forS (markReconciling E) open_records) (\<lambda>_.
          bindS (emit EvPackageReconcile) (\<lambda>_.
          bindS (callS E (sv_package E) ()) (\<lambda>p.
          bindS (forS (convergeRecord E p) open_records) (\<lambda>results.
          bindS (modS clear_live) (\<lambda>_.
            ret \<lparr>rs_examined = length open_records, rs_killed = length (pr_reclaimed p),
                 rs_reclaimed = length (filter (\<lambda>x. x = None) results),
                 rs_quarantined = length (filter (\<lambda>x. x \<noteq> None) results),
                 rs_failures = concat (map (\<lambda>x. case x of None \<Rightarrow> [] | Some f \<Rightarrow> [f]) results)\<rparr>))))))"

text \<open>The operations in flight, as the error names them; \<open>sort\<close> orders them as the code units do.\<close>

definition inflight_text :: "inflight_op \<Rightarrow> string" where
  "inflight_text op = mode_name (io_operation op) @ '' '' @ io_executionId op"

definition inflight_detail :: "inflight_op list \<Rightarrow> string" where
  "inflight_detail ops = join '', '' (sort_by text_le (map inflight_text ops))"

definition reconcile :: "sup_env \<Rightarrow> reconcile_summary sup" where
  "reconcile E =
     bindS (readS ss_reconciling) (\<lambda>busy.
     bindS (guardS (\<not> busy) (SupervisorError SBX_SUP_UNAVAILABLE ''a reconciliation sweep is already running'')) (\<lambda>_.
     bindS (readS ss_inflight) (\<lambda>ops.
     bindS (guardS (ops = []) (SupervisorError SBX_SUP_UNAVAILABLE
       (''reconcile cannot start while operations are in flight ('' @ inflight_detail ops
         @ ''); retry once they settle''))) (\<lambda>_.
     bindS (modS (\<lambda>s. s\<lparr>ss_reconciling := True\<rparr>)) (\<lambda>_.
       finallyS (reconcileSweep E) (\<lambda>s. s\<lparr>ss_reconciling := False\<rparr>))))))"

end
