(* ===== verification/Supervisor_Logic.thy ===== *)
theory Supervisor_Logic
  imports Supervisor_Core
begin

text \<open>
  Reasoning about what a supervisor operation does, whatever else runs meanwhile: triples over the trace of its
  events, for the normal and the exceptional end (\<open>triple\<close>), and the invariants of a trace of the form ``every event is
  allowed after what came before it'' (\<open>all_ok\<close>). The rules are collected in \<open>sup_rules\<close> and \<open>keep_rules\<close>, and the three
  safety disciplines of the operations are instances of the locale \<open>discipline\<close>.
\<close>

named_theorems keep_rules

definition triple :: "(sup_event list \<Rightarrow> bool) \<Rightarrow> 'a sup \<Rightarrow> ('a \<Rightarrow> sup_event list \<Rightarrow> bool)
    \<Rightarrow> (sup_error \<Rightarrow> sup_event list \<Rightarrow> bool) \<Rightarrow> bool" where
  "triple P m Q R = (\<forall>s. P (ss_trace s) \<longrightarrow> (case m s of
     (t, Inr x) \<Rightarrow> Q x (ss_trace t) | (t, Inl e) \<Rightarrow> R e (ss_trace t)))"

lemma triple_ret: "(\<And>tr. P tr \<Longrightarrow> Q x tr) \<Longrightarrow> triple P (ret x) Q R"
  by (simp add: triple_def ret_def)

lemma triple_throw: "(\<And>tr. P tr \<Longrightarrow> R e tr) \<Longrightarrow> triple P (throw e) Q R"
  by (simp add: triple_def throw_def)

lemma triple_bind:
  assumes "triple P m M R" and "\<And>x. triple (M x) (f x) Q R"
  shows "triple P (bindS m f) Q R"
  using assms unfolding triple_def bindS_def by (fastforce split: prod.splits sum.splits)

lemma triple_catch:
  assumes "triple P m Q M" and "\<And>e. triple (M e) (h e) Q R"
  shows "triple P (catchS m h) Q R"
  using assms unfolding triple_def catchS_def by (fastforce split: prod.splits sum.splits)

lemma triple_attempt:
  assumes "triple P m (\<lambda>x. Q (Inr x)) (\<lambda>e. Q (Inl e))"
  shows "triple P (attemptS m) Q R"
  using assms unfolding triple_def attemptS_def by (fastforce split: prod.splits sum.splits)

lemma triple_read: "(\<And>x tr. P tr \<Longrightarrow> Q x tr) \<Longrightarrow> triple P (readS f) Q R"
  by (simp add: triple_def readS_def)

lemma triple_lift:
  "(\<And>x tr. r = Inr x \<Longrightarrow> P tr \<Longrightarrow> Q x tr) \<Longrightarrow> (\<And>e tr. r = Inl e \<Longrightarrow> P tr \<Longrightarrow> R e tr) \<Longrightarrow> triple P (liftS r) Q R"
  by (simp add: triple_def liftS_def split: sum.split)

lemma triple_mod:
  "(\<And>s. ss_trace (f s) = ss_trace s) \<Longrightarrow> (\<And>tr. P tr \<Longrightarrow> Q () tr) \<Longrightarrow> triple P (modS f) Q R"
  by (simp add: triple_def modS_def)

lemma triple_emit: "(\<And>tr. P tr \<Longrightarrow> Q () (tr @ [ev])) \<Longrightarrow> triple P (emit ev) Q R"
  by (simp add: triple_def emit_def modS_def)

lemma triple_await: "(\<And>tr. P tr \<Longrightarrow> Q () tr) \<Longrightarrow> triple P (awaitS E) Q R"
  unfolding awaitS_def by (rule triple_mod) simp_all

lemma triple_call:
  "(\<And>x tr. P tr \<Longrightarrow> Q x tr) \<Longrightarrow> (\<And>e tr. P tr \<Longrightarrow> R e tr) \<Longrightarrow> triple P (callS E f x) Q R"
  by (simp add: triple_def callS_def bindS_def awaitS_def modS_def split: sum.split)

lemma triple_finally:
  "(\<And>s. ss_trace (f s) = ss_trace s) \<Longrightarrow> triple P m Q R \<Longrightarrow> triple P (finallyS m f) Q R"
  unfolding triple_def finallyS_def by (fastforce split: prod.splits sum.splits)

lemma triple_weaken:
  assumes "triple P' m Q' R'" and "\<And>tr. P tr \<Longrightarrow> P' tr" and "\<And>x tr. Q' x tr \<Longrightarrow> Q x tr"
    and "\<And>e tr. R' e tr \<Longrightarrow> R e tr"
  shows "triple P m Q R"
  using assms unfolding triple_def by (fastforce split: prod.splits sum.splits)

lemma triple_update:
  assumes "\<And>tr r c n now. P tr \<Longrightarrow> mutate r = Inr c \<Longrightarrow>
      Q (c\<lparr>sb_revision := n, sb_updatedAt := now\<rparr>) (tr @ [EvJournal r (c\<lparr>sb_revision := n, sb_updatedAt := now\<rparr>)])"
    and "\<And>tr e. P tr \<Longrightarrow> R e tr"
  shows "triple P (sup_update E i mutate) Q R"
  unfolding triple_def
proof (intro allI impI)
  fix s :: sup_state assume P: "P (ss_trace s)"
  obtain s' a where eq: "sup_update E i mutate s = (s', a)" by (metis surj_pair)
  obtain t where t: "awaited E s t" and u: "updates E i mutate t a s'"
    using sup_update_result [OF eq] by blast
  have "P (ss_trace t)" using P awaited_trace [OF t] by simp
  then show "case sup_update E i mutate s of (t, Inr x) \<Rightarrow> Q x (ss_trace t) | (t, Inl e) \<Rightarrow> R e (ss_trace t)"
    using u assms eq by (cases a) (auto simp: updates_def)
qed

lemma triple_storeGet: "(\<And>x tr. P tr \<Longrightarrow> Q x tr) \<Longrightarrow> (\<And>e tr. P tr \<Longrightarrow> R e tr) \<Longrightarrow> triple P (storeGet E i) Q R"
  by (auto simp: triple_def storeGet_eq split: sum.splits)

lemma triple_storeList: "(\<And>x tr. P tr \<Longrightarrow> Q x tr) \<Longrightarrow> (\<And>e tr. P tr \<Longrightarrow> R e tr) \<Longrightarrow> triple P (storeList E) Q R"
  by (auto simp: triple_def storeList_def bindS_def awaitS_def modS_def split: sum.splits)

lemma triple_storeCreate:
  "(\<And>tr. P tr \<Longrightarrow> Q () (tr @ [EvCreate r])) \<Longrightarrow> (\<And>e tr. P tr \<Longrightarrow> R e tr) \<Longrightarrow> triple P (storeCreate E r) Q R"
  by (auto simp: triple_def storeCreate_def bindS_def awaitS_def modS_def Let_def split: sum.splits)

subsection \<open>Invariants of a trace\<close>

definition sup_keeps :: "(sup_event list \<Rightarrow> bool) \<Rightarrow> 'a sup \<Rightarrow> bool" where
  "sup_keeps I m = triple I m (\<lambda>_. I) (\<lambda>_. I)"

lemma keeps_run: "sup_keeps I m \<Longrightarrow> I (ss_trace s) \<Longrightarrow> m s = (t, r) \<Longrightarrow> I (ss_trace t)"
  unfolding sup_keeps_def triple_def by (auto split: sum.splits dest: spec [of _ s])

lemma keeps_ret [keep_rules]: "sup_keeps I (ret x)"
  unfolding sup_keeps_def by (rule triple_ret)

lemma keeps_throw [keep_rules]: "sup_keeps I (throw e)"
  unfolding sup_keeps_def by (rule triple_throw)

lemma keeps_bind [keep_rules]: "sup_keeps I m \<Longrightarrow> (\<And>x. sup_keeps I (f x)) \<Longrightarrow> sup_keeps I (bindS m f)"
  unfolding sup_keeps_def by (rule triple_bind)

lemma keeps_catch [keep_rules]: "sup_keeps I m \<Longrightarrow> (\<And>e. sup_keeps I (h e)) \<Longrightarrow> sup_keeps I (catchS m h)"
  unfolding sup_keeps_def by (rule triple_catch)

lemma keeps_attempt [keep_rules]: "sup_keeps I m \<Longrightarrow> sup_keeps I (attemptS m)"
  unfolding sup_keeps_def by (rule triple_attempt)

lemma keeps_read [keep_rules]: "sup_keeps I (readS f)"
  unfolding sup_keeps_def by (rule triple_read)

lemma keeps_lift [keep_rules]: "sup_keeps I (liftS r)"
  unfolding sup_keeps_def by (rule triple_lift)

lemma keeps_mod [keep_rules]: "(\<And>s. ss_trace (f s) = ss_trace s) \<Longrightarrow> sup_keeps I (modS f)"
  unfolding sup_keeps_def by (rule triple_mod)

lemma keeps_emit [keep_rules]: "(\<And>tr. I tr \<Longrightarrow> I (tr @ [ev])) \<Longrightarrow> sup_keeps I (emit ev)"
  unfolding sup_keeps_def by (rule triple_emit)

lemma keeps_await [keep_rules]: "sup_keeps I (awaitS E)"
  unfolding sup_keeps_def by (rule triple_await)

lemma keeps_call [keep_rules]: "sup_keeps I (callS E f x)"
  unfolding sup_keeps_def by (rule triple_call)

lemma keeps_finally [keep_rules]: "(\<And>s. ss_trace (f s) = ss_trace s) \<Longrightarrow> sup_keeps I m \<Longrightarrow> sup_keeps I (finallyS m f)"
  unfolding sup_keeps_def by (rule triple_finally)

lemma keeps_storeGet [keep_rules]: "sup_keeps I (storeGet E i)"
  unfolding sup_keeps_def by (rule triple_storeGet)

lemma keeps_storeList [keep_rules]: "sup_keeps I (storeList E)"
  unfolding sup_keeps_def by (rule triple_storeList)

lemma keeps_guard [keep_rules]: "sup_keeps I (guardS b e)"
  by (simp add: guardS_def keeps_ret keeps_throw)

lemma keeps_if [keep_rules]: "(b \<Longrightarrow> sup_keeps I m) \<Longrightarrow> (\<not> b \<Longrightarrow> sup_keeps I n) \<Longrightarrow> sup_keeps I (if b then m else n)"
  by simp

lemma keeps_option [keep_rules]:
  "sup_keeps I m \<Longrightarrow> (\<And>x. sup_keeps I (f x)) \<Longrightarrow> sup_keeps I (case y of None \<Rightarrow> m | Some x \<Rightarrow> f x)"
  by (cases y) simp_all

lemma keeps_sum [keep_rules]:
  "(\<And>x. sup_keeps I (f x)) \<Longrightarrow> (\<And>x. sup_keeps I (g x)) \<Longrightarrow> sup_keeps I (case y of Inl x \<Rightarrow> f x | Inr x \<Rightarrow> g x)"
  by (cases y) simp_all

lemma keeps_prod [keep_rules]: "(\<And>x y. sup_keeps I (f x y)) \<Longrightarrow> sup_keeps I (case z of (x, y) \<Rightarrow> f x y)"
  by (cases z) simp

lemma keeps_for [keep_rules]: "(\<And>x. sup_keeps I (f x)) \<Longrightarrow> sup_keeps I (forS f xs)"
  by (induction xs) (simp_all add: keep_rules)

lemma keeps_state: "(\<And>k. sup_keeps I (f k)) \<Longrightarrow> sup_keeps I (\<lambda>s. f (g s) s)"
  unfolding sup_keeps_def triple_def by simp

lemma keeps_update:
  "(\<And>tr r c n now. I tr \<Longrightarrow> mutate r = Inr c \<Longrightarrow>
     I (tr @ [EvJournal r (c\<lparr>sb_revision := n, sb_updatedAt := now\<rparr>)])) \<Longrightarrow> sup_keeps I (sup_update E i mutate)"
  unfolding sup_keeps_def by (rule triple_update)

subsection \<open>Disciplines\<close>

fun ok_from :: "(sup_event list \<Rightarrow> sup_event \<Rightarrow> bool) \<Rightarrow> sup_event list \<Rightarrow> sup_event list \<Rightarrow> bool" where
  "ok_from ok h [] = True"
| "ok_from ok h (ev # evs) = (ok h ev \<and> ok_from ok (h @ [ev]) evs)"

definition all_ok :: "(sup_event list \<Rightarrow> sup_event \<Rightarrow> bool) \<Rightarrow> sup_event list \<Rightarrow> bool" where
  "all_ok ok tr = ok_from ok [] tr"

lemma ok_from_append: "ok_from ok h (xs @ ys) \<longleftrightarrow> ok_from ok h xs \<and> ok_from ok (h @ xs) ys"
  by (induction xs arbitrary: h) auto

lemma all_ok_Nil [simp]: "all_ok ok []"
  by (simp add: all_ok_def)

lemma all_ok_snoc [simp]: "all_ok ok (tr @ [ev]) \<longleftrightarrow> all_ok ok tr \<and> ok tr ev"
  by (simp add: all_ok_def ok_from_append)

lemma all_ok_event: "all_ok ok tr \<Longrightarrow> tr = pre @ ev # post \<Longrightarrow> ok pre ev"
  by (simp add: all_ok_def ok_from_append)

definition writer_owns :: "string \<Rightarrow> sandbox_record \<Rightarrow> bool" where
  "writer_owns e r = ((executionOf r = None \<or> executionOf r = Some e) \<and> sb_phase r \<notin> set RECONCILED_PHASES)"

lemma assertWriterOwns_eq: "assertWriterOwns r e operation = Inr u \<longleftrightarrow> writer_owns e r"
  by (cases "executionOf r") (auto simp: assertWriterOwns_def writer_owns_def bindE_eq_Inr)

lemma assertWriterOwns_ok: "writer_owns e r \<Longrightarrow> assertWriterOwns r e operation = Inr ()"
  by (simp add: assertWriterOwns_eq)

lemma owned_move_Inr:
  "owned_move i e from to p res r = Inr c \<Longrightarrow> writer_owns e r \<and> sb_phase c = to
     \<and> sb_artifact c = overlay (bp_artifact p) (sb_artifact r)
     \<and> sb_templatePinned c = overlay (bp_templatePinned p) (sb_templatePinned r)
     \<and> sb_resources c = (case res of None \<Rightarrow> sb_resources r | Some x \<Rightarrow> mergeResources x (sb_resources r))"
  unfolding owned_move_def bindE_eq_Inr assertWriterOwns_eq by auto

lemma settle_Inr: "settle_record (Some (e, operation)) ph reason r = Inr c \<Longrightarrow> writer_owns e r"
  unfolding settle_record_def bindE_eq_Inr by (auto simp: assertWriterOwns_eq)

lemma unbind_machine_Inr: "unbind_machine e r = Inr c \<Longrightarrow> writer_owns e r"
  unfolding unbind_machine_def bindE_eq_Inr by (auto simp: assertWriterOwns_eq)

lemma journal_forward_Inr: "journal_forward e g h r = Inr c \<Longrightarrow> writer_owns e r"
  unfolding journal_forward_def bindE_eq_Inr by (auto simp: assertWriterOwns_eq)

text \<open>Events that neither write the journal nor start or stop a VMM.\<close>

fun plain :: "sup_event \<Rightarrow> bool" where
  "plain (EvJournal r r') = False"
| "plain (EvSpawn k) = False"
| "plain (EvSpawnFailed e) = False"
| "plain (EvDown k d) = False"
| "plain _ = True"

locale discipline =
  fixes I :: "sup_event list \<Rightarrow> bool"
    and e :: string
  assumes plain_kept: "I tr \<Longrightarrow> plain ev \<Longrightarrow> I (tr @ [ev])"
    and owned: "I tr \<Longrightarrow> writer_owns e r \<Longrightarrow> I (tr @ [EvJournal r r'])"
begin

lemma keeps_emit_plain: "plain ev \<Longrightarrow> sup_keeps I (emit ev)"
  by (rule keeps_emit) (rule plain_kept)

lemma keeps_transition: "sup_keeps I (ownedTransition E i e from to p res)"
  unfolding ownedTransition_def
  by (intro keep_rules keeps_update) (auto dest!: owned_move_Inr intro: owned)

lemma keeps_quarantine: "sup_keeps I (quarantine E i d (Some e))"
  unfolding quarantine_def by (intro keeps_update) (auto dest!: settle_Inr intro: owned)

lemma keeps_settle: "sup_keeps I (sup_update E i (settle_record (Some (e, operation)) ph reason))"
  by (intro keeps_update) (auto dest!: settle_Inr intro: owned)

lemma keeps_unbind: "sup_keeps I (sup_update E i (unbind_machine e))"
  by (intro keeps_update) (auto dest!: unbind_machine_Inr intro: owned)

lemma keeps_forward: "sup_keeps I (sup_update E i (journal_forward e g h))"
  by (intro keeps_update) (auto dest!: journal_forward_Inr intro: owned)

lemma keeps_runHooks: "sup_keeps I (runHooks E r hooks)"
  by (induction E r hooks rule: runHooks.induct) (auto intro!: keep_rules keeps_emit_plain)

lemma keeps_runReclaimHooks: "sup_keeps I (runReclaimHooks E i)"
  unfolding runReclaimHooks_def by (intro keep_rules keeps_runHooks)

lemma keeps_park: "sup_keeps I (parkFailedLaunch E i e x)"
  unfolding parkFailedLaunch_def Let_def
  by (intro keep_rules keeps_runReclaimHooks keeps_quarantine keeps_settle)

lemma keeps_dial: "sup_keeps I (dialS E p)"
  unfolding dialS_def by (intro keep_rules keeps_emit_plain) simp

lemma keeps_personalize: "sup_keeps I (personalizeRestored E p)"
  unfolding personalizeRestored_def by (intro keep_rules keeps_emit_plain keeps_dial) simp

lemma keeps_create: "sup_keeps I (createRecord E v)"
  unfolding createRecord_def
  by (intro keep_rules) (auto simp: sup_keeps_def intro!: triple_storeCreate plain_kept)

lemma keeps_stop: "sup_keeps I (stopMachine E mode x)"
  unfolding stopMachine_def by (intro keep_rules keeps_emit_plain) simp

lemma keeps_byExecution: "sup_keeps I (byExecution E x)"
  unfolding byExecution_def by (intro keep_rules)

lemma keeps_requireReady: "sup_keeps I (requireReadyAndLive r x operation)"
  unfolding requireReadyAndLive_def by (intro keep_rules)

lemma keeps_terminateInflight: "sup_keeps I (terminateInflight E e mode)"
  unfolding terminateInflight_def rethrowUnlessStale_def
  by (intro keep_rules keeps_byExecution keeps_transition keeps_stop keeps_quarantine keeps_runReclaimHooks
      keeps_settle) (simp add: forget_def revokeBridges_def)

lemma keeps_terminate: "sup_keeps I (terminate E e mode)"
  unfolding terminate_def rejectDuringReconcile_def Let_def
  by (intro keep_rules keeps_terminateInflight) (simp_all add: begin_op_def end_op_def)

lemma keeps_doExposeHttp: "sup_keeps I (doExposeHttp E expose unexpose e g h)"
  unfolding doExposeHttp_def Let_def
  by (intro keep_rules keeps_byExecution keeps_requireReady keeps_emit_plain keeps_forward) simp_all

lemma keeps_lock: "sup_keeps I m \<Longrightarrow> sup_keeps I (withExposeLock E x m)"
  unfolding withExposeLock_def Let_def
  by (rule keeps_state [where g = ss_tick]) (intro keep_rules; simp)

lemma keeps_exposeHttp: "sup_keeps I (exposeHttp E e g h)"
  unfolding exposeHttp_def rejectDuringReconcile_def by (intro keep_rules keeps_lock keeps_doExposeHttp)

end

text \<open>A discipline that allows every boot.\<close>

locale boot_discipline = discipline +
  assumes spawn: "I tr \<Longrightarrow> I (tr @ [EvSpawn k])"
    and spawn_failed: "I tr \<Longrightarrow> I (tr @ [EvSpawnFailed x])"
    and down: "I tr \<Longrightarrow> I (tr @ [EvDown a b])"
begin

lemma keeps_spawn: "sup_keeps I (spawnS E k boot recipe x)"
  unfolding spawnS_def by (intro keep_rules) (auto intro: spawn spawn_failed)

lemma keeps_killAndDispose: "sup_keeps I (killAndDispose E x)"
  unfolding killAndDispose_def by (intro keep_rules) (rule down)

lemma keeps_ready: "lr_executionId v = e \<Longrightarrow> sup_keeps I (becomeReady E v)"
  unfolding becomeReady_def using keeps_transition by simp

lemma keeps_bootColdPlan: "lr_executionId v = e \<Longrightarrow> sup_keeps I (bootColdPlan E v plan)"
  unfolding bootColdPlan_def
  by (intro keep_rules keeps_spawn keeps_dial keeps_ready keeps_killAndDispose)
    (auto simp: track_def split: option.splits)

lemma keeps_fallback: "lr_executionId v = e \<Longrightarrow> sup_keeps I (fallbackToCold E v plan)"
  unfolding fallbackToCold_def using keeps_unbind by (intro keep_rules keeps_bootColdPlan) auto

lemma keeps_launchRestore: "lr_executionId v = e \<Longrightarrow> sup_keeps I (launchRestore E v plan)"
  unfolding launchRestore_def restoreReady_def restoreAbandoned_def putRestoredVmmDown_def
  by (intro keep_rules keeps_spawn keeps_personalize keeps_fallback keeps_ready keeps_killAndDispose)
    (auto simp: track_def)

lemma keeps_bootResolved: "lr_executionId v = e \<Longrightarrow> sup_keeps I (bootResolved E v plan)"
  unfolding bootResolved_def by (cases plan) (simp_all add: keeps_launchRestore keeps_bootColdPlan)

lemma keeps_launchJournaled: "lr_executionId v = e \<Longrightarrow> sup_keeps I (launchJournaled E v)"
  unfolding launchJournaled_def using keeps_transition
  by (intro keep_rules keeps_bootResolved keeps_emit_plain) auto

lemma keeps_launchValidated: "lr_executionId v = e \<Longrightarrow> sup_keeps I (launchValidated E v)"
  unfolding launchValidated_def using keeps_park
  by (intro keep_rules keeps_create keeps_launchJournaled) auto

end

end
