(* ===== verification/Supervisor_Sweep.thy ===== *)
theory Supervisor_Sweep
  imports Supervisor_Logic
begin

text \<open>
  Runs of the supervisor with nobody else on the journal (\<open>quiet_env\<close>): every update goes through at its first attempt,
  and the sweep of \<open>reconcile\<close> is followed record by record.
\<close>

definition quiet_env :: "sup_env \<Rightarrow> bool" where
  "quiet_env E = ((\<forall>n s. sv_other E n s = s) \<and> (\<forall>n. sv_io E n) \<and> (\<forall>n. stamp_ok (sv_dateFinite E) (sv_date E n)))"

lemma quiet_await: "quiet_env E \<Longrightarrow> await E s = s\<lparr>ss_tick := Suc (ss_tick s)\<rparr>"
  by (simp add: quiet_env_def await_def)

lemma quiet_storeGet:
  "quiet_env E \<Longrightarrow> holds (sv_dateFinite E) (ss_file s) m \<Longrightarrow>
   storeGet E i s = (s\<lparr>ss_tick := Suc (ss_tick s)\<rparr>, Inr (jm_get m i))"
  by (simp add: storeGet_eq quiet_await store_get_def holds_read)

lemma quiet_call:
  "quiet_env E \<Longrightarrow> callS E f x s = (s\<lparr>ss_tick := Suc (ss_tick s)\<rparr>, f (Suc (ss_tick s)) x)"
  by (simp add: callS_def bindS_def awaitS_def modS_def quiet_await)

lemma quiet_storeList:
  "quiet_env E \<Longrightarrow> holds (sv_dateFinite E) (ss_file s) m \<Longrightarrow>
   storeList E s = (s\<lparr>ss_tick := Suc (ss_tick s)\<rparr>,
     Inr (sort_by (\<lambda>a b. sv_collate E (sb_id a) (sb_id b)) (map snd m)))"
  by (simp add: storeList_def bindS_def awaitS_def modS_def quiet_await store_list_def holds_read)

text \<open>The record an update leaves.\<close>

definition stamped :: "sup_env \<Rightarrow> sup_state \<Rightarrow> sandbox_record \<Rightarrow> sandbox_record \<Rightarrow> sandbox_record" where
  "stamped E s r c = c\<lparr>sb_revision := sb_revision r + 1, sb_updatedAt := sv_date E (Suc (Suc (ss_tick s)))\<rparr>"

lemma quiet_update:
  assumes "quiet_env E" and h: "holds (sv_dateFinite E) (ss_file s) m" and r: "jm_get m i = Some r"
    and c: "mutate r = Inr c" "sb_id c = i" and ok: "record_ok (sv_dateFinite E) (stamped E s r c)"
  shows "sup_update E i mutate s = (s\<lparr>ss_tick := Suc (Suc (ss_tick s)),
      ss_file := Content (state_json (jm_set i (stamped E s r c) m)),
      ss_trace := ss_trace s @ [EvJournal r (stamped E s r c)]\<rparr>, Inr (stamped E s r c))"
proof -
  let ?t = "s\<lparr>ss_tick := Suc (Suc (ss_tick s))\<rparr>"
  have cas: "compareAndSwap (sv_dateFinite E) True (sv_date E (ss_tick ?t)) (ss_file ?t) i (sb_revision r) mutate
      = (Content (state_json (jm_set i (stamped E s r c) m)), Inr (stamped E s r c))"
  proof -
    have "holds (sv_dateFinite E) (ss_file ?t) m" using h by simp
    from cas_holds [OF this, where io = True and update = mutate] show ?thesis
      using r c ok by (simp add: stamped_def)
  qed
  have ev: "journal_event E (ss_file s) i (stamped E s r c) = [EvJournal r (stamped E s r c)]"
    by (simp add: journal_event_def journaled_holds [OF h] r)
  have "sup_update_body E i mutate 0 s = (?t\<lparr>ss_file := Content (state_json (jm_set i (stamped E s r c) m)),
      ss_trace := ss_trace s @ [EvJournal r (stamped E s r c)]\<rparr>, Some (Inr (stamped E s r c)))"
    using assms(1) cas
    by (simp add: sup_update_body_def quiet_storeGet [OF assms(1) h] r quiet_await sup_swap_def quiet_env_def ev)
  then show ?thesis
    using upd.loop_first [of E i mutate 0 s _ _ 15] by (simp add: sup_update_def MAX_CAS_ATTEMPTS_def)
qed

subsection \<open>The hooks\<close>

lemma quiet_runHooks:
  assumes "quiet_env E"
  shows "\<exists>n evs d. runHooks E r hooks s = (s\<lparr>ss_tick := n, ss_trace := ss_trace s @ evs\<rparr>, Inr d)
    \<and> (\<forall>x. d = Some x \<longrightarrow> x \<noteq> [])"
proof (induction hooks arbitrary: s)
  case Nil
  show ?case by (rule exI [of _ "ss_tick s"], rule exI [of _ "[]"]) (simp add: ret_def)
next
  case (Cons hook hooks)
  obtain name reclaim where hook: "hook = (name, reclaim)" by (cases hook)
  show ?case
  proof (cases "reclaim (Suc (ss_tick s)) r")
    case (Inl e)
    show ?thesis
      by (rule exI [of _ "Suc (ss_tick s)"], rule exI [of _ "[EvHook name (Some (boundedReason e))]"])
        (simp add: hook bindS_def attemptS_def quiet_call [OF assms] Inl emit_def modS_def ret_def)
  next
    case (Inr u)
    let ?s = "s\<lparr>ss_tick := Suc (ss_tick s), ss_trace := ss_trace s @ [EvHook name None]\<rparr>"
    obtain n evs d where IH: "runHooks E r hooks ?s = (?s\<lparr>ss_tick := n, ss_trace := ss_trace ?s @ evs\<rparr>, Inr d)"
      "\<forall>x. d = Some x \<longrightarrow> x \<noteq> []" using Cons.IH by blast
    show ?thesis
      by (rule exI [of _ n], rule exI [of _ "EvHook name None # evs"], rule exI [of _ d])
        (use IH in \<open>simp add: hook bindS_def attemptS_def quiet_call [OF assms] Inr emit_def modS_def\<close>)
  qed
qed

lemma quiet_runReclaimHooks:
  assumes "quiet_env E" and h: "holds (sv_dateFinite E) (ss_file s) m"
  shows "\<exists>n evs d. runReclaimHooks E i s = (s\<lparr>ss_tick := n, ss_trace := ss_trace s @ evs\<rparr>, Inr d)
    \<and> (\<forall>x. d = Some x \<longrightarrow> x \<noteq> [])"
proof (cases "sv_hooks E = [] \<or> jm_get m i = None")
  case True
  then have "runReclaimHooks E i s = (if sv_hooks E = [] then s else s\<lparr>ss_tick := Suc (ss_tick s)\<rparr>, Inr None)"
    by (auto simp: runReclaimHooks_def bindS_def quiet_storeGet [OF assms] ret_def)
  then have "runReclaimHooks E i s =
      (s\<lparr>ss_tick := if sv_hooks E = [] then ss_tick s else Suc (ss_tick s), ss_trace := ss_trace s @ []\<rparr>, Inr None)"
    by simp
  then show ?thesis by blast
next
  case False
  then obtain r where r: "jm_get m i = Some r" and "sv_hooks E \<noteq> []" by auto
  with quiet_runHooks [OF assms(1), of r "sv_hooks E" "s\<lparr>ss_tick := Suc (ss_tick s)\<rparr>"] show ?thesis
    by (simp add: runReclaimHooks_def bindS_def quiet_storeGet [OF assms] r)
qed

subsection \<open>The sweep\<close>

text \<open>What a sweep does not touch of a record.\<close>

definition core_of :: "sandbox_record \<Rightarrow> sandbox_record" where
  "core_of r = r\<lparr>sb_phase := Allocating, sb_revision := 0, sb_updatedAt := [], sb_terminationReason := None\<rparr>"

text \<open>
  The journal in the middle of a sweep that began at \<open>m\<close>: each record is the one it was, but for what a sweep may change,
  with at most \<open>k\<close> revisions more; those in \<open>D\<close> satisfy \<open>P\<close>, the others are as they were in \<open>m\<close>.
\<close>

definition sweeping :: "sup_env \<Rightarrow> record_map \<Rightarrow> int \<Rightarrow> (sandbox_record \<Rightarrow> bool) \<Rightarrow> string set \<Rightarrow> sup_state \<Rightarrow> bool" where
  "sweeping E m k P D s = (\<exists>m'. holds (sv_dateFinite E) (ss_file s) m' \<and>
     (\<forall>i. jm_get m i = None \<longrightarrow> jm_get m' i = None) \<and>
     (\<forall>i r. jm_get m i = Some r \<longrightarrow> (\<exists>r'. jm_get m' i = Some r' \<and> core_of r' = core_of r
        \<and> sb_revision r \<le> sb_revision r' \<and> sb_revision r' \<le> sb_revision r + k
        \<and> (if i \<in> D then P r' else r' = r))))"

lemma sweepingE:
  assumes "sweeping E m k P D s"
  obtains m' where "holds (sv_dateFinite E) (ss_file s) m'" and "\<And>i. jm_get m i = None \<Longrightarrow> jm_get m' i = None"
    and "\<And>i r. jm_get m i = Some r \<Longrightarrow> \<exists>r'. jm_get m' i = Some r' \<and> core_of r' = core_of r
        \<and> sb_revision r \<le> sb_revision r' \<and> sb_revision r' \<le> sb_revision r + k
        \<and> (if i \<in> D then P r' else r' = r)"
  using assms unfolding sweeping_def by blast

lemma record_ok_core:
  "record_ok df r \<Longrightarrow> core_of c = core_of r \<Longrightarrow> 0 \<le> sb_revision c \<Longrightarrow> sb_revision c \<le> MAX_SAFE_INTEGER \<Longrightarrow>
   stamp_ok df (sb_updatedAt c) \<Longrightarrow> pred_option (text_ok 512) (sb_terminationReason c) \<Longrightarrow> record_ok df c"
  by (cases r; cases c) (auto simp: record_ok_def core_of_def)

lemma core_of_id: "core_of c = core_of r \<Longrightarrow> sb_id c = sb_id r"
  by (cases r; cases c) (auto simp: core_of_def)

lemma core_of_stamped [simp]: "core_of (stamped E s r c) = core_of c"
  by (simp add: core_of_def stamped_def)

lemma revision_stamped [simp]: "sb_revision (stamped E s r c) = sb_revision r + 1"
  by (simp add: stamped_def)

lemma core_of_upd [simp]:
  "core_of (r\<lparr>sb_phase := p\<rparr>) = core_of r"
  "core_of (r\<lparr>sb_phase := p, sb_terminationReason := q\<rparr>) = core_of r"
  by (simp_all add: core_of_def)

text \<open>One write of a sweep.\<close>

lemma sweep_write:
  assumes q: "quiet_env E" and sw: "sweeping E m k P D s" and r: "jm_get m i = Some r" and D: "i \<notin> D"
    and bound: "sb_revision r + 1 \<le> MAX_SAFE_INTEGER" and k: "1 \<le> k"
    and mutate: "mutate r = Inr c" and core: "core_of c = core_of r"
    and reason: "pred_option (text_ok 512) (sb_terminationReason c)" and P: "\<And>t. P (stamped E t r c)"
  shows "\<exists>t x. sup_update E i mutate s = (t, Inr x) \<and> sweeping E m k P (insert i D) t
    \<and> ss_reconciling t = ss_reconciling s"
proof -
  obtain m' where h: "holds (sv_dateFinite E) (ss_file s) m'"
    and none: "\<And>i. jm_get m i = None \<Longrightarrow> jm_get m' i = None"
    and some: "\<And>i r. jm_get m i = Some r \<Longrightarrow> \<exists>r'. jm_get m' i = Some r' \<and> core_of r' = core_of r
        \<and> sb_revision r \<le> sb_revision r' \<and> sb_revision r' \<le> sb_revision r + k
        \<and> (if i \<in> D then P r' else r' = r)"
    using sweepingE [OF sw] by blast
  have r': "jm_get m' i = Some r" using some [OF r] D by auto
  note rok = map_ok_get [OF holds_map_ok [OF h] r']
  let ?c = "stamped E s r c"
  have id: "sb_id c = i" "sb_id ?c = i" using core_of_id [OF core] rok by (simp_all add: stamped_def)
  have "0 \<le> sb_revision r" using rok by (simp add: record_ok_def)
  then have ok: "record_ok (sv_dateFinite E) ?c"
    by - (rule record_ok_core [where r = r], use rok core bound reason q in \<open>auto simp: stamped_def core_of_def quiet_env_def\<close>)
  note u = quiet_update [where E = E and s = s and mutate = mutate, OF q h r' mutate id(1) ok]
  let ?m = "jm_set i ?c m'"
  have "map_ok (sv_dateFinite E) ?m" using map_ok_set [OF holds_map_ok [OF h] ok id(2)] .
  then have h': "holds (sv_dateFinite E) (Content (state_json ?m)) ?m" by (rule holds_write)
  have none': "jm_get m j = None \<Longrightarrow> jm_get ?m j = None" for j
    using none [of j] r by (auto simp: jm_get_set)
  have some': "\<exists>x'. jm_get ?m j = Some x' \<and> core_of x' = core_of x
        \<and> sb_revision x \<le> sb_revision x' \<and> sb_revision x' \<le> sb_revision x + k
        \<and> (if j \<in> insert i D then P x' else x' = x)" if "jm_get m j = Some x" for j x
  proof (cases "j = i")
    case True
    then have "x = r" using that r by simp
    then show ?thesis using True core k P [of s] by (simp add: jm_get_set)
  qed (use some [OF that] in \<open>auto simp: jm_get_set\<close>)
  have "sweeping E m k P (insert i D) (fst (sup_update E i mutate s))"
    unfolding u sweeping_def using h' none' some' by (intro exI [of _ ?m]) auto
  then show ?thesis using u by simp
qed

text \<open>
  A loop over open records whose body takes each record of the list to \<open>P\<close>, in a journal where the others are as they
  were.
\<close>

lemma sweep_loop:
  assumes step: "\<And>r D s. r \<in> set rs \<Longrightarrow> sb_id r \<notin> D \<Longrightarrow> sweeping E m k P D s \<Longrightarrow>
      \<exists>t x. f r s = (t, Inr x) \<and> sweeping E m k P (insert (sb_id r) D) t \<and> ss_reconciling t = ss_reconciling s"
    and "distinct (map sb_id rs)" and "sb_id ` set rs \<inter> D = {}" and "sweeping E m k P D s"
  shows "\<exists>t xs. forS f rs s = (t, Inr xs) \<and> length xs = length rs
    \<and> sweeping E m k P (D \<union> sb_id ` set rs) t \<and> ss_reconciling t = ss_reconciling s"
  using assms
proof (induction rs arbitrary: D s)
  case Nil
  then show ?case by (auto simp: ret_def)
next
  case (Cons r rs)
  obtain t x where t: "f r s = (t, Inr x)" "sweeping E m k P (insert (sb_id r) D) t"
      "ss_reconciling t = ss_reconciling s"
    using Cons.prems(1) [of r D s] Cons.prems(2-4) by auto
  obtain u xs where u: "forS f rs t = (u, Inr xs)" "length xs = length rs"
      "sweeping E m k P (insert (sb_id r) D \<union> sb_id ` set rs) u" "ss_reconciling u = ss_reconciling t"
    using Cons.IH [of "insert (sb_id r) D" t] Cons.prems t by auto
  have "insert (sb_id r) D \<union> sb_id ` set rs = D \<union> sb_id ` set (r # rs)" by auto
  with t u show ?case by (auto simp: bindS_def ret_def)
qed

lemma sweeping_file: "sweeping E m k P D s \<Longrightarrow> ss_file t = ss_file s \<Longrightarrow> sweeping E m k P D t"
  by (simp add: sweeping_def)

lemma sweeping_start: "holds (sv_dateFinite E) (ss_file s) m \<Longrightarrow> 0 \<le> k \<Longrightarrow> sweeping E m k P {} s"
  unfolding sweeping_def by (rule exI [of _ m]) simp

lemma sweeping_skip:
  assumes "sweeping E m k P D s" and "jm_get m i = Some r" and "i \<notin> D" and "P r"
  shows "sweeping E m k P (insert i D) s"
proof -
  obtain m' where h: "holds (sv_dateFinite E) (ss_file s) m'" "\<And>i. jm_get m i = None \<Longrightarrow> jm_get m' i = None"
    and some: "\<And>i r. jm_get m i = Some r \<Longrightarrow> \<exists>r'. jm_get m' i = Some r' \<and> core_of r' = core_of r
        \<and> sb_revision r \<le> sb_revision r' \<and> sb_revision r' \<le> sb_revision r + k
        \<and> (if i \<in> D then P r' else r' = r)"
    using sweepingE [OF assms(1)] by blast
  have "\<exists>x'. jm_get m' j = Some x' \<and> core_of x' = core_of x
        \<and> sb_revision x \<le> sb_revision x' \<and> sb_revision x' \<le> sb_revision x + k
        \<and> (if j \<in> insert i D then P x' else x' = x)" if x: "jm_get m j = Some x" for j x
    using some [OF x] assms(2-4) x by (cases "j = i") auto
  with h show ?thesis unfolding sweeping_def by blast
qed

lemma mark_step:
  assumes q: "quiet_env E" and r: "jm_get m (sb_id r) = Some r" and D: "sb_id r \<notin> D"
    and bound: "sb_revision r + 1 \<le> MAX_SAFE_INTEGER" and ok: "record_ok (sv_dateFinite E) r"
    and sw: "sweeping E m 1 (\<lambda>x. sb_phase x = Reconciling) D s"
  shows "\<exists>t x. markReconciling E r s = (t, Inr x) \<and> sweeping E m 1 (\<lambda>x. sb_phase x = Reconciling) (insert (sb_id r) D) t
    \<and> ss_reconciling t = ss_reconciling s"
proof (cases "sb_phase r = Reconciling")
  case True
  have "sweeping E m 1 (\<lambda>x. sb_phase x = Reconciling) (insert (sb_id r) D) s"
    using sweeping_skip [OF sw r D] True by simp
  then show ?thesis using True by (simp add: markReconciling_def ret_def)
next
  case False
  let ?c = "r\<lparr>sb_phase := Reconciling\<rparr>"
  have "pred_option (text_ok 512) (sb_terminationReason ?c)" using ok by (simp add: record_ok_def)
  from sweep_write [OF q sw r D bound _ _ _ this, of "\<lambda>current. Inr (current\<lparr>sb_phase := Reconciling\<rparr>)"]
  obtain t x where "sup_update E (sb_id r) (\<lambda>current. Inr (current\<lparr>sb_phase := Reconciling\<rparr>)) s = (t, Inr x)"
    "sweeping E m 1 (\<lambda>x. sb_phase x = Reconciling) (insert (sb_id r) D) t" "ss_reconciling t = ss_reconciling s"
    by (auto simp: stamped_def)
  then show ?thesis using False by (simp add: markReconciling_def bindS_def ret_def)
qed

text \<open>How a sweep settles a record: terminated, or quarantined when its reclaim failed.\<close>

definition settled :: "package_result \<Rightarrow> sandbox_record \<Rightarrow> bool" where
  "settled p r = (case sb_phase r of
      Terminated \<Rightarrow> sb_terminationReason r = Some ''host-restart''
        \<and> Option.bind (executionOf r) (package_failure p) = None
    | Quarantined \<Rightarrow> sb_terminationReason r \<noteq> None
    | _ \<Rightarrow> False)"

lemma executionOf_core: "core_of c = core_of r \<Longrightarrow> executionOf c = executionOf r"
  by (cases r; cases c) (auto simp: core_of_def executionOf_def)

lemma host_restart_ok: "text_ok 512 ''host-restart''"
  by (simp add: text_ok_def byteLength_Cons code_def)

lemma converge_step:
  assumes q: "quiet_env E" and r: "jm_get m (sb_id r0) = Some r" and core: "core_of r = core_of r0"
    and D: "sb_id r0 \<notin> D" and bound: "sb_revision r + 1 \<le> MAX_SAFE_INTEGER"
    and sw: "sweeping E m 1 (settled p) D s"
  shows "\<exists>t x. convergeRecord E p r0 s = (t, Inr x) \<and> sweeping E m 1 (settled p) (insert (sb_id r0) D) t
    \<and> ss_reconciling t = ss_reconciling s"
proof -
  let ?fail = "Option.bind (executionOf r0) (package_failure p)"
  let ?pre = "case ?fail of Some failure \<Rightarrow> ret (Some (''firecracker reclaim: '' @ failure))
       | None \<Rightarrow> runReclaimHooks E (sb_id r0)"
  obtain m' where "holds (sv_dateFinite E) (ss_file s) m'" using sw by (auto simp: sweeping_def)
  from quiet_runReclaimHooks [OF q this, of "sb_id r0"]
  obtain n evs d where d: "?pre s = (s\<lparr>ss_tick := n, ss_trace := ss_trace s @ evs\<rparr>, Inr d)"
    and ne: "\<And>x. d = Some x \<Longrightarrow> x \<noteq> []" and fail: "?fail \<noteq> None \<Longrightarrow> d \<noteq> None"
  proof (cases ?fail)
    case (Some f)
    then have "?pre s = (s\<lparr>ss_tick := ss_tick s, ss_trace := ss_trace s @ []\<rparr>,
        Inr (Some (''firecracker reclaim: '' @ f)))" by (simp add: ret_def)
    then show ?thesis using that by blast
  qed (auto intro: that)
  let ?s = "s\<lparr>ss_tick := n, ss_trace := ss_trace s @ evs\<rparr>"
  have sw': "sweeping E m 1 (settled p) D ?s" using sw by (rule sweeping_file) simp
  have ex: "executionOf (stamped E u r c) = executionOf r0" if "core_of c = core_of r" for u c
    using that core executionOf_core [of "stamped E u r c" r0] by simp
  show ?thesis
  proof (cases d)
    case None
    let ?c = "r\<lparr>sb_phase := Terminated, sb_terminationReason := Some ''host-restart''\<rparr>"
    have "settled p (stamped E u r ?c)" for u
    proof -
      have "?fail = None" using fail None by blast
      then show ?thesis using ex [of ?c u] by (simp add: settled_def stamped_def)
    qed
    then obtain t x where "sup_update E (sb_id r0) (settle_record None Terminated ''host-restart'') ?s = (t, Inr x)"
      "sweeping E m 1 (settled p) (insert (sb_id r0) D) t" "ss_reconciling t = ss_reconciling ?s"
      using sweep_write [OF q sw' r D bound, of "settle_record None Terminated ''host-restart''" ?c] host_restart_ok
      by (auto simp: settle_record_def)
    then show ?thesis using d None by (simp add: convergeRecord_def bindS_def ret_def)
  next
    case (Some x)
    let ?c = "r\<lparr>sb_phase := Quarantined, sb_terminationReason := Some (truncateReason x)\<rparr>"
    have "settled p (stamped E u r ?c)" for u by (simp add: settled_def stamped_def)
    then obtain t y where "sup_update E (sb_id r0) (settle_record None Quarantined (truncateReason x)) ?s = (t, Inr y)"
      "sweeping E m 1 (settled p) (insert (sb_id r0) D) t" "ss_reconciling t = ss_reconciling ?s"
      using sweep_write [OF q sw' r D bound, of "settle_record None Quarantined (truncateReason x)" ?c]
        truncateReason_ok [OF ne [OF Some]]
      by (auto simp: settle_record_def)
    then show ?thesis using d Some by (simp add: convergeRecord_def quarantine_def bindS_def ret_def)
  qed
qed

lemma open_records:
  assumes "map_ok df m" and "rs = filter P (sort_by le (map snd m))"
  shows "distinct (map sb_id rs)" and "\<And>r. r \<in> set rs \<longleftrightarrow> jm_get m (sb_id r) = Some r \<and> P r"
    and "length rs = length (filter (\<lambda>e. P (snd e)) m)"
proof -
  have ids: "map sb_id (map snd m) = map fst m" using assms(1) by (auto simp: map_ok_def)
  have "mset (map sb_id (sort_by le (map snd m))) = mset (map sb_id (map snd m))"
    unfolding mset_map mset_sort_by ..
  then have "distinct (map sb_id (sort_by le (map snd m)))"
    using assms(1) unfolding ids map_ok_def jm_ok_def by (metis mset_eq_imp_distinct_iff)
  then show "distinct (map sb_id rs)" unfolding assms(2) by (rule distinct_map_filter)
  have "r \<in> snd ` set m \<longleftrightarrow> (sb_id r, r) \<in> set m" for r
    using assms(1) by (force simp: map_ok_def)
  then show "r \<in> set rs \<longleftrightarrow> jm_get m (sb_id r) = Some r \<and> P r" for r
    using assms by (simp add: set_sort_by map_ok_def jm_get_mem conj_commute)
  have "size (mset rs) = size (mset (filter P (map snd m)))"
    unfolding assms(2) mset_filter mset_sort_by ..
  then have "length rs = length (filter P (map snd m))" by (simp only: size_mset)
  then show "length rs = length (filter (\<lambda>e. P (snd e)) m)" by (simp add: filter_map o_def)
qed

text \<open>The two passes of a sweep over the open records \<open>rs\<close>, with the package's own reconciliation between them.\<close>

lemma sweep_passes:
  assumes q: "quiet_env E" and h: "holds (sv_dateFinite E) (ss_file s) m"
    and rs: "\<And>r. r \<in> set rs \<Longrightarrow> jm_get m (sb_id r) = Some r" "distinct (map sb_id rs)"
    and bound: "\<forall>(i, r) \<in> set m. sb_revision r + 2 \<le> MAX_SAFE_INTEGER" and pkg: "\<And>n. sv_package E n () = Inr p"
  shows "\<exists>t xs m'. bindS (forS (markReconciling E) rs) (\<lambda>_. bindS (emit EvPackageReconcile) (\<lambda>_.
      bindS (callS E (sv_package E) ()) (\<lambda>p. bindS (forS (convergeRecord E p) rs) (\<lambda>xs. ret (p, xs))))) s = (t, Inr (p, xs))
    \<and> length xs = length rs \<and> ss_reconciling t = ss_reconciling s \<and> holds (sv_dateFinite E) (ss_file t) m'
    \<and> (\<forall>i. jm_get m' i = None \<longleftrightarrow> jm_get m i = None)
    \<and> (\<forall>i r. jm_get m i = Some r \<longrightarrow> (\<exists>r'. jm_get m' i = Some r' \<and> core_of r' = core_of r
         \<and> (if i \<in> sb_id ` set rs then settled p r' else r' = r)))"
proof -
  have ok: "map_ok (sv_dateFinite E) m" using h by (rule holds_map_ok)
  have b: "sb_revision r + 2 \<le> MAX_SAFE_INTEGER" if "jm_get m i = Some r" for i r
    using bound that ok by (auto simp: map_ok_def jm_get_mem)
  have "\<exists>t x. markReconciling E r u = (t, Inr x)
      \<and> sweeping E m 1 (\<lambda>x. sb_phase x = Reconciling) (insert (sb_id r) D) t \<and> ss_reconciling t = ss_reconciling u"
    if "r \<in> set rs" "sb_id r \<notin> D" "sweeping E m 1 (\<lambda>x. sb_phase x = Reconciling) D u" for r D u
    using mark_step [OF q rs(1) [OF that(1)] that(2) _ _ that(3)] b [OF rs(1) [OF that(1)]]
      map_ok_get [OF ok rs(1) [OF that(1)]] by simp
  from sweep_loop [of rs E m 1 "\<lambda>x. sb_phase x = Reconciling" "markReconciling E" "{}" s, OF this rs(2) _ sweeping_start [OF h]]
  obtain t1 ys where t1: "forS (markReconciling E) rs s = (t1, Inr ys)"
    "sweeping E m 1 (\<lambda>x. sb_phase x = Reconciling) (sb_id ` set rs) t1" "ss_reconciling t1 = ss_reconciling s" by auto
  obtain m1 where m1: "holds (sv_dateFinite E) (ss_file t1) m1" "\<And>i. jm_get m i = None \<Longrightarrow> jm_get m1 i = None"
    and m1s: "\<And>i r. jm_get m i = Some r \<Longrightarrow> \<exists>r'. jm_get m1 i = Some r' \<and> core_of r' = core_of r
        \<and> sb_revision r' \<le> sb_revision r + 1 \<and> (i \<notin> sb_id ` set rs \<longrightarrow> r' = r)"
  proof (rule sweepingE [OF t1(2)])
    fix m' assume m': "holds (sv_dateFinite E) (ss_file t1) m'" "\<And>i. jm_get m i = None \<Longrightarrow> jm_get m' i = None"
      "\<And>i r. jm_get m i = Some r \<Longrightarrow> \<exists>r'. jm_get m' i = Some r' \<and> core_of r' = core_of r
        \<and> sb_revision r \<le> sb_revision r' \<and> sb_revision r' \<le> sb_revision r + 1
        \<and> (if i \<in> sb_id ` set rs then sb_phase r' = Reconciling else r' = r)"
    show thesis by (rule that [OF m'(1,2)], simp, drule m'(3)) (auto split: if_splits)
  qed
  let ?t = "t1\<lparr>ss_trace := ss_trace t1 @ [EvPackageReconcile], ss_tick := Suc (ss_tick t1)\<rparr>"
  have "\<exists>t x. convergeRecord E p r u = (t, Inr x) \<and> sweeping E m1 1 (settled p) (insert (sb_id r) D) t
      \<and> ss_reconciling t = ss_reconciling u"
    if "r \<in> set rs" "sb_id r \<notin> D" "sweeping E m1 1 (settled p) D u" for r D u
  proof -
    note r = rs(1) [OF that(1)]
    obtain r' where r': "jm_get m1 (sb_id r) = Some r'" "core_of r' = core_of r" "sb_revision r' \<le> sb_revision r + 1"
      using m1s [OF r] by blast
    moreover have "sb_revision r' + 1 \<le> MAX_SAFE_INTEGER" using r'(3) b [OF r] by simp
    ultimately show ?thesis using converge_step [OF q r'(1,2) that(2) _ that(3)] by blast
  qed
  from sweep_loop [of rs E m1 1 "settled p" "convergeRecord E p" "{}" ?t, OF this rs(2) _ sweeping_start] m1(1)
  obtain t2 xs where t2: "forS (convergeRecord E p) rs ?t = (t2, Inr xs)" "length xs = length rs"
    "sweeping E m1 1 (settled p) (sb_id ` set rs) t2" "ss_reconciling t2 = ss_reconciling ?t" by auto
  obtain m2 where m2: "holds (sv_dateFinite E) (ss_file t2) m2" "\<And>i. jm_get m1 i = None \<Longrightarrow> jm_get m2 i = None"
    and m2s: "\<And>i r. jm_get m1 i = Some r \<Longrightarrow> \<exists>r'. jm_get m2 i = Some r' \<and> core_of r' = core_of r
        \<and> (if i \<in> sb_id ` set rs then settled p r' else r' = r)"
  proof (rule sweepingE [OF t2(3)])
    fix m' assume m': "holds (sv_dateFinite E) (ss_file t2) m'" "\<And>i. jm_get m1 i = None \<Longrightarrow> jm_get m' i = None"
      "\<And>i r. jm_get m1 i = Some r \<Longrightarrow> \<exists>r'. jm_get m' i = Some r' \<and> core_of r' = core_of r
        \<and> sb_revision r \<le> sb_revision r' \<and> sb_revision r' \<le> sb_revision r + 1
        \<and> (if i \<in> sb_id ` set rs then settled p r' else r' = r)"
    show thesis by (rule that [OF m'(1,2)], simp, drule m'(3)) blast
  qed
  have run: "bindS (forS (markReconciling E) rs) (\<lambda>_. bindS (emit EvPackageReconcile) (\<lambda>_.
      bindS (callS E (sv_package E) ()) (\<lambda>p. bindS (forS (convergeRecord E p) rs) (\<lambda>xs. ret (p, xs))))) s = (t2, Inr (p, xs))"
    using t1 t2 by (simp add: bindS_def emit_def modS_def quiet_call [OF q] pkg ret_def)
  have main: "\<exists>r'. jm_get m2 i = Some r' \<and> core_of r' = core_of r \<and> (if i \<in> sb_id ` set rs then settled p r' else r' = r)"
    if i: "jm_get m i = Some r" for i r
  proof -
    obtain r1 where r1: "jm_get m1 i = Some r1" "core_of r1 = core_of r" "i \<notin> sb_id ` set rs \<Longrightarrow> r1 = r"
      using m1s [OF i] by blast
    from m2s [OF r1(1)] r1(2,3) show ?thesis by auto
  qed
  have dom: "jm_get m2 i = None \<longleftrightarrow> jm_get m i = None" for i
    using m1(2) m2(2) main [of i] by (cases "jm_get m i") auto
  show ?thesis
    by (rule exI [of _ t2], rule exI [of _ xs], rule exI [of _ m2])
      (intro conjI allI impI main dom; use run t1(3) t2 m2(1) in simp)
qed

end
