(* ===== verification/Supervisor_Runs.thy ===== *)
theory Supervisor_Runs
  imports Supervisor_Sweep
begin

text \<open>
  Whole runs of a launch and of an exposeHttp with nobody else on the journal, computed step by step, and the concrete
  environments the witnesses use.
\<close>

subsection \<open>A launch\<close>

definition moved :: "sandbox_phase \<Rightarrow> booting_patch \<Rightarrow> res_patch option \<Rightarrow> sandbox_record \<Rightarrow> sandbox_record" where
  "moved to patch res r = r\<lparr>sb_artifact := overlay (bp_artifact patch) (sb_artifact r),
     sb_templatePinned := overlay (bp_templatePinned patch) (sb_templatePinned r),
     sb_resources := (case res of None \<Rightarrow> sb_resources r | Some p \<Rightarrow> mergeResources p (sb_resources r)),
     sb_phase := to\<rparr>"

lemma owned_move_eq:
  assumes "writer_owns e r" and "sb_phase r \<in> set from"
  shows "owned_move i e from to patch res r = Inr (moved to patch res r)"
  using assms by (simp add: owned_move_def moved_def requireE_def assertWriterOwns_ok)

definition journal_state :: "sup_state \<Rightarrow> string \<Rightarrow> sandbox_record \<Rightarrow> sandbox_record \<Rightarrow> record_map \<Rightarrow> sup_state" where
  "journal_state s i r r' m = s\<lparr>ss_tick := Suc (Suc (ss_tick s)), ss_file := Content (state_json (jm_set i r' m)),
     ss_trace := ss_trace s @ [EvJournal r r']\<rparr>"

lemma quiet_transition:
  assumes "quiet_env E" and "holds (sv_dateFinite E) (ss_file s) m" and "jm_get m i = Some r"
    and "writer_owns e r" and "sb_phase r \<in> set from"
    and "record_ok (sv_dateFinite E) (stamped E s r (moved to patch res r))"
  shows "ownedTransition E i e from to patch res s =
    (journal_state s i r (stamped E s r (moved to patch res r)) m, Inr ())"
proof -
  have "sb_id (moved to patch res r) = i"
    using map_ok_get [OF holds_map_ok [OF assms(2)] assms(3)] by (simp add: moved_def)
  from quiet_update [where mutate = "owned_move i e from to patch res", OF assms(1-3) owned_move_eq [OF assms(4,5)] this assms(6)]
  show ?thesis
    by (simp add: ownedTransition_def bindS_def ret_def journal_state_def)
qed

lemma journal_state_holds:
  assumes "holds df (ss_file s) m" and "record_ok df r'" and "sb_id r' = i"
  shows "holds df (ss_file (journal_state s i r r' m)) (jm_set i r' m)"
  using holds_write [OF map_ok_set [OF holds_map_ok [OF assms(1)] assms(2,3)]] by (simp add: journal_state_def)

lemma new_record_fields:
  "newSandboxRecord df i createdAt generation now = Inr r \<Longrightarrow>
   sb_id r = i \<and> sb_phase r = Allocating \<and> sb_revision r = 0 \<and> sb_machine r = None"
  by (auto simp: newSandboxRecord_def err_simps)

definition created_state :: "sup_state \<Rightarrow> sandbox_record \<Rightarrow> record_map \<Rightarrow> sup_state" where
  "created_state s r m = s\<lparr>ss_tick := Suc (ss_tick s), ss_file := Content (state_json (jm_set (sb_id r) r m)),
     ss_trace := ss_trace s @ [EvCreate r]\<rparr>"

lemma quiet_createRecord:
  assumes "quiet_env E" and "holds (sv_dateFinite E) (ss_file s) m" and "jm_get m (lr_sandboxId v) = None"
    and "newSandboxRecord (sv_dateFinite E) (lr_sandboxId v) None None (sv_date E (ss_tick s)) = Inr r"
  shows "createRecord E v s = (created_state s r m, Inr ())"
proof -
  have "store_create (sv_dateFinite E) True (ss_file s) r
      = (Content (state_json (jm_set (sb_id r) r m)), Inr () :: sup_error store_error + unit)"
    unfolding create_holds [OF assms(2)]
    using assms(3) new_record_ok [OF assms(4)] new_record_fields [OF assms(4)] by auto
  then show ?thesis
    using assms(1) by (simp add: createRecord_def catchS_def bindS_def readS_def liftS_def assms(4) storeCreate_def
        awaitS_def modS_def quiet_await [OF assms(1)] Let_def created_state_def quiet_env_def)
qed

lemma record_ok_moved:
  assumes "record_ok (sv_dateFinite E) r" and "quiet_env E" and "sb_revision r + 1 \<le> MAX_SAFE_INTEGER"
  shows "record_ok (sv_dateFinite E) (stamped E s r (moved to no_patch None r))"
  using assms by (simp add: record_ok_def stamped_def moved_def no_patch_def quiet_env_def)

lemma writer_owns_moved [simp]:
  "writer_owns e (stamped E s r (moved to patch res r)) \<longleftrightarrow>
     (executionOf r = None \<or> executionOf r = Some e) \<and> to \<notin> set RECONCILED_PHASES"
  "sb_phase (stamped E s r (moved to patch res r)) = to"
  "sb_id (stamped E s r (moved to patch res r)) = sb_id r"
  by (simp_all add: writer_owns_def stamped_def moved_def executionOf_def)

text \<open>
  The environment in which the planner answers \<open>v\<close> with the cold plan \<open>plan\<close>, and the one of a cold launch that goes
  through: an agent on the port \<open>port\<close>, and the machine \<open>vm\<close>.
\<close>

definition plan_env :: "sup_env \<Rightarrow> launch_request \<Rightarrow> cold_plan \<Rightarrow> bool" where
  "plan_env E v plan = (quiet_env E \<and> (\<forall>n. sv_resolve E n v = Inr (ColdPlan plan)))"

definition cold_env :: "sup_env \<Rightarrow> launch_request \<Rightarrow> cold_plan \<Rightarrow> int \<Rightarrow> bytes \<Rightarrow> sup_machine \<Rightarrow> bool" where
  "cold_env E v plan port cred vm = (plan_env E v plan
     \<and> cp_agentVsockPort plan = Some port \<and> cp_agentCredential plan = Some cred
     \<and> (\<forall>n. sv_launch E n (cp_recipe plan) = Inr vm) \<and> (\<forall>n. sv_dial E n port = Inr ()))"

lemma quiet_bootColdPlan:
  assumes env: "cold_env E v plan port cred vm" and h: "holds (sv_dateFinite E) (ss_file s) m"
    and r: "jm_get m (lr_sandboxId v) = Some r" "writer_owns (lr_executionId v) r" "sb_phase r = Booting"
    and bound: "sb_revision r + 1 \<le> MAX_SAFE_INTEGER"
  shows "\<exists>t r'. bootColdPlan E v plan s = (t, Inr (running_status v (vm\<lparr>mc_executionId := lr_executionId v\<rparr>)))
    \<and> sb_phase r' = Ready \<and> sb_resources r' = sb_resources r \<and> sb_id r' = lr_sandboxId v
    \<and> holds (sv_dateFinite E) (ss_file t) (jm_set (lr_sandboxId v) r' m)
    \<and> ss_trace t = ss_trace s @ [EvSpawn ColdBoot, EvDial port, EvJournal r r']
    \<and> jm_get (ss_machines t) (lr_executionId v) = Some (vm\<lparr>mc_executionId := lr_executionId v\<rparr>)
    \<and> jm_get (ss_agentCredentials t) (lr_executionId v) = Some cred"
proof -
  have q: "quiet_env E" using env by (simp add: cold_env_def plan_env_def)
  let ?u = "s\<lparr>ss_trace := ss_trace s @ [EvSpawn ColdBoot, EvDial port], ss_tick := Suc (Suc (ss_tick s))\<rparr>"
  have id: "sb_id r = lr_sandboxId v" "record_ok (sv_dateFinite E) r"
    using map_ok_get [OF holds_map_ok [OF h] r(1)] by auto
  let ?r = "stamped E ?u r (moved Ready no_patch None r)"
  have hu: "holds (sv_dateFinite E) (ss_file ?u) m" using h by simp
  have ok: "record_ok (sv_dateFinite E) ?r" using record_ok_moved [OF id(2) q bound] .
  have ready: "becomeReady E v ?u = (journal_state ?u (lr_sandboxId v) r ?r m, Inr ())"
    unfolding becomeReady_def using quiet_transition [OF q hu r(1,2) _ ok] r(3) by simp
  have h': "holds (sv_dateFinite E) (ss_file (journal_state ?u (lr_sandboxId v) r ?r m)) (jm_set (lr_sandboxId v) ?r m)"
    by (rule journal_state_holds [OF hu ok]) (simp add: id)
  have e: "cp_agentVsockPort plan = Some port" "cp_agentCredential plan = Some cred"
    "\<And>n. sv_launch E n (cp_recipe plan) = Inr vm" "\<And>n. sv_dial E n port = Inr ()"
    using env by (auto simp: cold_env_def)
  have run: "bootColdPlan E v plan s = ((track (vm\<lparr>mc_executionId := lr_executionId v\<rparr>) (journal_state ?u (lr_sandboxId v) r ?r m))
      \<lparr>ss_agentPorts := jm_set (lr_executionId v) port (ss_agentPorts s),
       ss_agentCredentials := jm_set (lr_executionId v) cred (ss_agentCredentials s)\<rparr>,
      Inr (running_status v (vm\<lparr>mc_executionId := lr_executionId v\<rparr>)))"
    using ready by (simp add: bootColdPlan_def spawnS_def bindS_def catchS_def emit_def modS_def quiet_call [OF q] e
        dialS_def ret_def track_def journal_state_def)
  have res: "sb_resources ?r = sb_resources r" by (simp add: stamped_def moved_def)
  show ?thesis
    by (rule exI, rule exI [of _ ?r], rule conjI [OF run])
      (use h' res id in \<open>simp add: track_def journal_state_def jm_get_set\<close>)
qed

lemma SANDBOX_ID_ok: "SANDBOX_ID s \<Longrightarrow> sandbox_id_ok s"
proof -
  assume a: "SANDBOX_ID s"
  then have "take 4 s = ''sbx-''" by (simp add: SANDBOX_ID_def startsWith_def eval_nat_numeral)
  then have "s = ''sbx-'' @ drop 4 s" by (metis append_take_drop_id)
  moreover have "length (drop 4 s) \<le> 60 \<and> list_all alnum_hyphen (drop 4 s)"
    using a by (auto simp: SANDBOX_ID_def led_id_def alnum_hyphen_def simp del: length_drop split: list.splits)
  ultimately obtain rest where "s = ''sbx-'' @ rest" "length rest \<le> 60" "list_all alnum_hyphen rest" by blast
  then show ?thesis
    by (auto simp: sandbox_id_ok_def list_all_iff alnum_hyphen_def is_alnum_def is_lower_def is_digit_def
        is_upper_def code_def)
qed

lemma EXECUTION_ID_ok: "EXECUTION_ID s \<Longrightarrow> jail_id_ok s"
  by (auto simp: EXECUTION_ID_def led_id_def jail_id_ok_def alnum_hyphen_def list_all_iff split: list.splits)

definition empty_resources :: sandbox_resources where
  "empty_resources = \<lparr>sr_uid = None, sr_gid = None, sr_overlayPath = None, sr_tapName = None, sr_netnsPath = None,
     sr_hostIp = None, sr_guestIp = None, sr_subnet = None, sr_dnsmasqPidfile = None, sr_exposedPorts = []\<rparr>"

definition planned_resources :: "cold_plan \<Rightarrow> sandbox_resources" where
  "planned_resources plan = (case cp_resources plan of None \<Rightarrow> empty_resources
     | Some p \<Rightarrow> mergeResources p empty_resources)"

definition fresh_record :: "string \<Rightarrow> string \<Rightarrow> sandbox_record" where
  "fresh_record i now = \<lparr>sb_schemaVersion = 2, sb_id = i, sb_revision = 0, sb_generation = 0,
     sb_phase = Allocating, sb_createdAt = now, sb_updatedAt = now, sb_machine = None, sb_artifact = None,
     sb_templatePinned = None, sb_resources = empty_resources, sb_terminationReason = None\<rparr>"

lemma fresh_record_eq:
  "sandbox_id_ok i \<Longrightarrow> stamp_ok df now \<Longrightarrow> newSandboxRecord df i None None now = Inr (fresh_record i now)"
  by (simp add: newSandboxRecord_def assertSandboxId_def requireE_def assertTimestamp_def stamp_ok_def
      assertNonNegativeInteger_def assertUnsignedInteger_def MAX_SAFE_INTEGER_def SANDBOX_RECORD_VERSION_def
      fresh_record_def empty_resources_def)

text \<open>The records a launch walks through.\<close>

definition walk :: "cold_plan \<Rightarrow> sandbox_record \<Rightarrow> sandbox_record \<Rightarrow> sandbox_record \<Rightarrow> sandbox_record \<Rightarrow> bool" where
  "walk plan r0 r1 r2 r3 = (sb_phase r0 = Allocating \<and> sb_phase r1 = Staging \<and> sb_phase r2 = Booting
     \<and> sb_phase r3 = Ready \<and> sb_resources r2 = planned_resources plan \<and> sb_resources r3 = planned_resources plan
     \<and> sb_machine r0 = None \<and> sb_machine r1 = None \<and> sb_machine r2 = None)"

lemma quiet_prepare:
  assumes env: "plan_env E v plan" and h: "holds (sv_dateFinite E) (ss_file s) m"
    and fresh: "jm_get m (lr_sandboxId v) = None" and v: "launch_ok v"
  shows "\<exists>s1 s3 r0 r1 m'. createRecord E v s = (s1, Inr ())
    \<and> bindS (ownedTransition E (lr_sandboxId v) (lr_executionId v) [Allocating] Staging no_patch None) (\<lambda>_.
         bindS (callS E (sv_resolve E) v) (\<lambda>plan. bindS (emit (EvResolved plan)) (\<lambda>_. ret plan))) s1
       = (s3, Inr (ColdPlan plan))
    \<and> ss_trace s3 = ss_trace s @ [EvCreate r0, EvJournal r0 r1, EvResolved (ColdPlan plan)]
    \<and> holds (sv_dateFinite E) (ss_file s3) m' \<and> jm_get m' = (jm_get m)(lr_sandboxId v \<mapsto> r1)
    \<and> sb_phase r0 = Allocating \<and> sb_machine r0 = None \<and> sb_phase r1 = Staging \<and> sb_machine r1 = None
    \<and> sb_revision r1 = 1 \<and> sb_resources r1 = empty_resources \<and> sb_schemaVersion r1 = 2 \<and> sb_artifact r1 = None
    \<and> ss_machines s3 = ss_machines s"
proof -
  let ?df = "sv_dateFinite E" and ?i = "lr_sandboxId v" and ?e = "lr_executionId v"
  have q: "quiet_env E" using env by (simp add: plan_env_def)
  have idok: "sandbox_id_ok ?i" using v by (simp add: launch_ok_def SANDBOX_ID_ok)
  define r0 where "r0 = fresh_record ?i (sv_date E (ss_tick s))"
  have r0: "newSandboxRecord ?df ?i None None (sv_date E (ss_tick s)) = Inr r0"
    unfolding r0_def using q by (intro fresh_record_eq [OF idok]) (simp add: quiet_env_def)
  have f0: "sb_id r0 = ?i" "sb_machine r0 = None" "sb_phase r0 = Allocating" "sb_revision r0 = 0"
    "sb_resources r0 = empty_resources" "sb_artifact r0 = None" "sb_schemaVersion r0 = 2"
    by (simp_all add: r0_def fresh_record_def)
  have ok0: "record_ok ?df r0" by (rule new_record_ok [OF r0])
  let ?s1 = "created_state s r0 m" and ?m1 = "jm_set ?i r0 m"
  have c: "createRecord E v s = (?s1, Inr ())" by (rule quiet_createRecord [OF q h fresh r0])
  have h1: "holds ?df (ss_file ?s1) ?m1"
    using holds_write [OF map_ok_set [OF holds_map_ok [OF h] ok0 f0(1)]] by (simp add: created_state_def f0)
  let ?r1 = "stamped E ?s1 r0 (moved Staging no_patch None r0)"
  have ok1: "record_ok ?df ?r1" by (rule record_ok_moved [OF ok0 q]) (simp add: f0 MAX_SAFE_INTEGER_def)
  have own: "writer_owns ?e r0" by (simp add: writer_owns_def executionOf_def f0 RECONCILED_PHASES_def)
  let ?s2 = "journal_state ?s1 ?i r0 ?r1 ?m1" and ?m2 = "jm_set ?i ?r1 ?m1"
  have t1: "ownedTransition E ?i ?e [Allocating] Staging no_patch None ?s1 = (?s2, Inr ())"
    by (rule quiet_transition [OF q h1 _ own _ ok1]) (simp_all add: f0 jm_get_set)
  have h2: "holds ?df (ss_file ?s2) ?m2" by (rule journal_state_holds [OF h1 ok1]) (simp add: f0)
  have resolve: "sv_resolve E n v = Inr (ColdPlan plan)" for n using env by (simp add: plan_env_def)
  let ?s3 = "?s2\<lparr>ss_tick := Suc (ss_tick ?s2), ss_trace := ss_trace ?s2 @ [EvResolved (ColdPlan plan)]\<rparr>"
  have run: "bindS (ownedTransition E ?i ?e [Allocating] Staging no_patch None) (\<lambda>_.
         bindS (callS E (sv_resolve E) v) (\<lambda>plan. bindS (emit (EvResolved plan)) (\<lambda>_. ret plan))) ?s1
       = (?s3, Inr (ColdPlan plan))"
    using t1 by (simp add: bindS_def quiet_call [OF q] resolve emit_def modS_def ret_def)
  have tr: "ss_trace ?s3 = ss_trace s @ [EvCreate r0, EvJournal r0 ?r1, EvResolved (ColdPlan plan)]"
    by (simp add: journal_state_def created_state_def)
  have f1: "sb_phase ?r1 = Staging \<and> sb_machine ?r1 = None \<and> sb_revision ?r1 = 1
    \<and> sb_resources ?r1 = empty_resources \<and> sb_schemaVersion ?r1 = 2 \<and> sb_artifact ?r1 = None"
    by (simp add: stamped_def moved_def f0 no_patch_def)
  have "holds ?df (ss_file ?s3) ?m2" using h2 by simp
  moreover have "jm_get ?m2 = (jm_get m)(?i \<mapsto> ?r1)" by (simp add: jm_get_set)
  moreover have "ss_machines ?s3 = ss_machines s" by (simp add: journal_state_def created_state_def)
  ultimately show ?thesis using c run tr f0(2,3) f1 by blast
qed

text \<open>Up to the boot: the record is in \<open>booting\<close>, with the plan's network resources.\<close>

definition walk_to_boot :: "cold_plan \<Rightarrow> sandbox_record \<Rightarrow> sandbox_record \<Rightarrow> sandbox_record \<Rightarrow> bool" where
  "walk_to_boot plan r0 r1 r2 = (sb_phase r0 = Allocating \<and> sb_phase r1 = Staging \<and> sb_phase r2 = Booting
     \<and> sb_resources r2 = planned_resources plan
     \<and> sb_machine r0 = None \<and> sb_machine r1 = None \<and> sb_machine r2 = None \<and> sb_revision r2 = 2)"

lemma quiet_to_boot:
  assumes env: "plan_env E v plan" and h: "holds (sv_dateFinite E) (ss_file s) m"
    and fresh: "jm_get m (lr_sandboxId v) = None" and v: "launch_ok v"
    and plan: "resources_ok (planned_resources plan)"
      "pred_option (\<lambda>a. sha256_hex (ar_manifestHash a)) (cp_artifact plan)"
  shows "\<exists>s1 s4 r0 r1 r2 m4. createRecord E v s = (s1, Inr ()) \<and> launchJournaled E v s1 = bootColdPlan E v plan s4
    \<and> walk_to_boot plan r0 r1 r2
    \<and> ss_trace s4 = ss_trace s @ [EvCreate r0, EvJournal r0 r1, EvResolved (ColdPlan plan), EvJournal r1 r2]
    \<and> holds (sv_dateFinite E) (ss_file s4) m4 \<and> jm_get m4 = (jm_get m)(lr_sandboxId v \<mapsto> r2)
    \<and> ss_machines s4 = ss_machines s"
proof -
  let ?df = "sv_dateFinite E" and ?i = "lr_sandboxId v" and ?e = "lr_executionId v"
  have q: "quiet_env E" using env by (simp add: plan_env_def)
  obtain s1 s3 r0 r1 m2 where c: "createRecord E v s = (s1, Inr ())"
    and run: "bindS (ownedTransition E ?i ?e [Allocating] Staging no_patch None) (\<lambda>_.
         bindS (callS E (sv_resolve E) v) (\<lambda>plan. bindS (emit (EvResolved plan)) (\<lambda>_. ret plan))) s1 = (s3, Inr (ColdPlan plan))"
    and tr: "ss_trace s3 = ss_trace s @ [EvCreate r0, EvJournal r0 r1, EvResolved (ColdPlan plan)]"
    and h3: "holds ?df (ss_file s3) m2" "jm_get m2 = (jm_get m)(?i \<mapsto> r1)"
    and f: "sb_phase r0 = Allocating" "sb_machine r0 = None" "sb_phase r1 = Staging" "sb_machine r1 = None"
      "sb_revision r1 = 1" "sb_resources r1 = empty_resources" "sb_schemaVersion r1 = 2" "sb_artifact r1 = None"
    and mach: "ss_machines s3 = ss_machines s"
    using quiet_prepare [OF env h fresh v] by blast
  have r1: "jm_get m2 ?i = Some r1" using h3(2) by simp
  note ok1 = map_ok_get [OF holds_map_ok [OF h3(1)] r1]
  have own1: "writer_owns ?e r1" by (simp add: writer_owns_def executionOf_def f RECONCILED_PHASES_def)
  let ?r2 = "stamped E s3 r1 (moved Booting (plan_patch (ColdPlan plan)) (cp_resources plan) r1)"
  have f2: "sb_id ?r2 = ?i" "sb_machine ?r2 = None" "sb_phase ?r2 = Booting" "sb_revision ?r2 = 2"
    "sb_resources ?r2 = planned_resources plan" "sb_artifact ?r2 = cp_artifact plan"
    using ok1 by (simp_all add: stamped_def moved_def f planned_resources_def overlay_def split: option.split)
  have ok2: "record_ok ?df ?r2"
  proof -
    have "sandbox_id_ok ?i" using ok1 by (auto simp: record_ok_def)
    then show ?thesis
      using ok1 plan q f2
      by (simp add: record_ok_def f quiet_env_def) (simp add: stamped_def moved_def f MAX_SAFE_INTEGER_def)
  qed
  let ?s4 = "journal_state s3 ?i r1 ?r2 m2" and ?m4 = "jm_set ?i ?r2 m2"
  have t2: "ownedTransition E ?i ?e [Staging] Booting (plan_patch (ColdPlan plan)) (plan_resources (ColdPlan plan)) s3
      = (?s4, Inr ())"
    unfolding plan_resources.simps by (rule quiet_transition [OF q h3(1) r1 own1 _ ok2]) (simp add: f)
  have h4: "holds ?df (ss_file ?s4) ?m4" by (rule journal_state_holds [OF h3(1) ok2 f2(1)])
  have m4: "jm_get ?m4 = (jm_get m)(?i \<mapsto> ?r2)" by (simp add: jm_get_set h3(2))
  have J: "launchJournaled E v s1 = bootColdPlan E v plan ?s4"
    using run t2 by (auto simp: launchJournaled_def bindS_def ret_def bootResolved_def split: prod.splits sum.splits)
  have T: "ss_trace ?s4 = ss_trace s @ [EvCreate r0, EvJournal r0 r1, EvResolved (ColdPlan plan), EvJournal r1 ?r2]"
    by (simp add: journal_state_def tr)
  have "walk_to_boot plan r0 r1 ?r2" unfolding walk_to_boot_def using f f2 by simp
  moreover have "ss_machines ?s4 = ss_machines s" using mach by (simp add: journal_state_def)
  ultimately show ?thesis using c J T h4 m4 by blast
qed

lemma quiet_launchValidated:
  assumes env: "cold_env E v plan port cred vm" and h: "holds (sv_dateFinite E) (ss_file s) m"
    and fresh: "jm_get m (lr_sandboxId v) = None" and v: "launch_ok v"
    and plan: "resources_ok (planned_resources plan)"
      "pred_option (\<lambda>a. sha256_hex (ar_manifestHash a)) (cp_artifact plan)"
  shows "\<exists>t r0 r1 r2 r3. launchValidated E v s = (t, Inr (running_status v (vm\<lparr>mc_executionId := lr_executionId v\<rparr>)))
    \<and> walk plan r0 r1 r2 r3
    \<and> ss_trace t = ss_trace s @ [EvCreate r0, EvJournal r0 r1, EvResolved (ColdPlan plan), EvJournal r1 r2,
        EvSpawn ColdBoot, EvDial port, EvJournal r2 r3]
    \<and> (\<exists>m'. holds (sv_dateFinite E) (ss_file t) m' \<and> jm_get m' = (jm_get m)(lr_sandboxId v \<mapsto> r3))
    \<and> jm_get (ss_machines t) (lr_executionId v) = Some (vm\<lparr>mc_executionId := lr_executionId v\<rparr>)
    \<and> jm_get (ss_agentCredentials t) (lr_executionId v) = Some cred"
proof -
  let ?i = "lr_sandboxId v" and ?e = "lr_executionId v"
  have p: "plan_env E v plan" using env by (simp add: cold_env_def)
  obtain s1 s4 r0 r1 r2 m4 where c: "createRecord E v s = (s1, Inr ())" "launchJournaled E v s1 = bootColdPlan E v plan s4"
    and w: "walk_to_boot plan r0 r1 r2"
    and T: "ss_trace s4 = ss_trace s @ [EvCreate r0, EvJournal r0 r1, EvResolved (ColdPlan plan), EvJournal r1 r2]"
    and h4: "holds (sv_dateFinite E) (ss_file s4) m4" "jm_get m4 = (jm_get m)(?i \<mapsto> r2)"
    using quiet_to_boot [OF p h fresh v plan] by blast
  have own2: "writer_owns ?e r2" "sb_phase r2 = Booting" "sb_revision r2 + 1 \<le> MAX_SAFE_INTEGER"
    using w by (simp_all add: walk_to_boot_def writer_owns_def executionOf_def RECONCILED_PHASES_def MAX_SAFE_INTEGER_def)
  have "jm_get m4 ?i = Some r2" using h4(2) by simp
  from quiet_bootColdPlan [OF env h4(1) this own2]
  obtain t r3 where boot: "bootColdPlan E v plan s4 = (t, Inr (running_status v (vm\<lparr>mc_executionId := ?e\<rparr>)))"
    "sb_phase r3 = Ready" "sb_resources r3 = sb_resources r2"
    "holds (sv_dateFinite E) (ss_file t) (jm_set ?i r3 m4)"
    "ss_trace t = ss_trace s4 @ [EvSpawn ColdBoot, EvDial port, EvJournal r2 r3]"
    "jm_get (ss_machines t) ?e = Some (vm\<lparr>mc_executionId := ?e\<rparr>)" "jm_get (ss_agentCredentials t) ?e = Some cred"
    by blast
  have L: "launchValidated E v s = (t, Inr (running_status v (vm\<lparr>mc_executionId := ?e\<rparr>)))"
    using c boot(1) by (simp add: launchValidated_def bindS_def catchS_def)
  have w': "walk plan r0 r1 r2 r3" using w boot(2,3) by (simp add: walk_def walk_to_boot_def)
  have "jm_get (jm_set ?i r3 m4) = (jm_get m)(?i \<mapsto> r3)" by (simp add: jm_get_set h4(2))
  then show ?thesis using L w' boot(4-7) T by auto
qed

lemma launch_begins:
  assumes "\<not> ss_reconciling s" and "validateLaunchRequest request = Inr v"
  shows "sup_launch E request s =
    finallyS (launchValidated E v) (end_op \<lparr>io_operation = OpLaunch, io_executionId = lr_executionId v\<rparr>)
      (begin_op \<lparr>io_operation = OpLaunch, io_executionId = lr_executionId v\<rparr> s)"
proof -
  have "launch_ok v" using assms(2) by (rule validateLaunchRequest_ok)
  then have "assertSandboxId (lr_sandboxId v) = Inr ()" "assertExecutionId (lr_executionId v) = Inr ()"
    by (simp_all add: launch_ok_def assertSandboxId_def assertExecutionId_def requireE_def SANDBOX_ID_ok EXECUTION_ID_ok)
  then show ?thesis
    using assms by (simp add: sup_launch_def rejectDuringReconcile_def bindS_def readS_def guardS_def ret_def validateS_def
        liftS_def modS_def Let_def)
qed

text \<open>An execution that one record alone is bound to is found.\<close>

lemma find_unique:
  assumes "x \<in> set xs" and "P x" and "\<And>y. y \<in> set xs \<Longrightarrow> P y \<Longrightarrow> y = x"
  shows "find P xs = Some x"
proof (cases "find P xs")
  case None
  then show ?thesis using assms(1,2) by (auto simp: find_None_iff)
next
  case (Some y)
  then have "y \<in> set xs" "P y" by (auto simp: find_Some_iff)
  then show ?thesis using assms(3) Some by simp
qed

definition only_on :: "record_map \<Rightarrow> string \<Rightarrow> sandbox_record \<Rightarrow> bool" where
  "only_on m e r = (executionOf r = Some e \<and> (\<forall>r' \<in> snd ` set m. executionOf r' = Some e \<longrightarrow> r' = r))"

lemma quiet_byExecution:
  assumes "quiet_env E" and "holds (sv_dateFinite E) (ss_file s) m" and "jm_get m i = Some r"
    and "only_on m e r" and "jail_id_ok e"
  shows "byExecution E e s = (s\<lparr>ss_tick := Suc (ss_tick s)\<rparr>, Inr r)"
proof -
  have "(i, r) \<in> set m" using assms(3) holds_map_ok [OF assms(2)] by (simp add: map_ok_def jm_get_mem)
  then have "r \<in> snd ` set m" by force
  then have "find (\<lambda>r. executionOf r = Some e) (sort_by (\<lambda>a b. sv_collate E (sb_id a) (sb_id b)) (map snd m)) = Some r"
    using assms(4) by (intro find_unique) (auto simp: set_sort_by only_on_def)
  then show ?thesis
    using assms(5) by (simp add: byExecution_def bindS_def guardS_def ret_def quiet_storeList [OF assms(1,2)])
qed

subsection \<open>The environments of the examples\<close>

definition example_res_patch :: res_patch where
  "example_res_patch = \<lparr>xp_uid = None, xp_gid = None, xp_overlayPath = None, xp_tapName = Some ''sbxtap3'',
     xp_netnsPath = None, xp_hostIp = Some ''10.201.0.13'', xp_guestIp = Some ''10.201.0.14'', xp_subnet = None,
     xp_dnsmasqPidfile = None, xp_exposedPorts = None\<rparr>"

definition example_plan :: cold_plan where
  "example_plan = \<lparr>cp_recipe = 0, cp_agentVsockPort = Some 1024, cp_artifact = None,
     cp_agentCredential = Some (replicate 32 5), cp_resources = Some example_res_patch\<rparr>"

definition example_vm :: sup_machine where
  "example_vm = \<lparr>mc_executionId = [], mc_pid = 4242, mc_state = RunningVm\<rparr>"

definition example_sup :: sup_env where
  "example_sup = \<lparr>sv_dateFinite = (\<lambda>_. True), sv_collate = (\<lambda>_ _. True), sv_other = (\<lambda>_ s. s), sv_io = (\<lambda>_. True),
     sv_date = (\<lambda>_. ''2026-01-02''), sv_now = (\<lambda>_. 1000), sv_random = (\<lambda>_. replicate 32 1),
     sv_uuid = (\<lambda>_. ''0123-ab''), sv_resolve = (\<lambda>_ _. Inr (ColdPlan example_plan)),
     sv_launch = (\<lambda>_ _. Inr example_vm), sv_restore = (\<lambda>_ _. Inr example_vm), sv_dial = (\<lambda>_ _. Inr ()),
     sv_personalize = (\<lambda>_ _. Inr ()), sv_kill = (\<lambda>_ _. Inr ()), sv_shutdown = (\<lambda>_ _. Inr ()),
     sv_dispose = (\<lambda>_ _. Inr ()), sv_package = (\<lambda>_ _. Inr \<lparr>pr_reclaimed = [], pr_failures = []\<rparr>),
     sv_expose = Some (\<lambda>_ _. Inr (), \<lambda>_ _. Inr ()), sv_hooks = [(''network-dataplane'', \<lambda>_ _. Inr ())]\<rparr>"

definition sup_state_on :: "record_map \<Rightarrow> sup_state" where
  "sup_state_on m = \<lparr>ss_file = (if m = [] then Missing else Content (state_json m)), ss_machines = [],
     ss_agentPorts = [], ss_agentCredentials = [], ss_exits = [], ss_bridges = [], ss_inflight = [],
     ss_exposeChain = [], ss_reconciling = False, ss_tick = 0, ss_trace = []\<rparr>"

text \<open>A sandbox that runs, with a forward of its host port 40100, and the supervisor that holds its machine.\<close>

definition example_ready :: sandbox_record where
  "example_ready = (attached example_jail example_env example_record)\<lparr>sb_phase := Ready,
     sb_resources := example_resources\<lparr>sr_hostIp := Some ''10.201.0.13''\<rparr>\<rparr>"

definition example_live :: sup_state where
  "example_live = (sup_state_on [(''sbx-1'', example_ready)])\<lparr>ss_machines :=
     [(''sbx-e1'', example_vm\<lparr>mc_executionId := ''sbx-e1''\<rparr>)]\<rparr>"

lemma example_ready_fields:
  "sb_id example_ready = ''sbx-1''" "sb_phase example_ready = Ready" "executionOf example_ready = Some ''sbx-e1''"
  "sb_resources example_ready = example_resources\<lparr>sr_hostIp := Some ''10.201.0.13''\<rparr>"
  "sb_revision example_ready = 1"
  by (simp_all add: example_ready_def attached_def example_jail_def example_record_def executionOf_def)

lemma example_ready_ok: "record_ok (\<lambda>_. True) example_ready"
  using example_attached_ok
  by (simp add: record_ok_def example_ready_def example_resources_def attached_def example_record_def resources_ok_def
      ports_ok_def text_ok_def byteLength_Cons code_def)

lemma example_live_holds: "holds (sv_dateFinite example_sup) (ss_file example_live) [(''sbx-1'', example_ready)]"
proof -
  have "map_ok (\<lambda>_. True) [(''sbx-1'', example_ready)]"
    using example_ready_ok by (simp add: map_ok_def jm_ok_def example_ready_fields)
  then show ?thesis
    unfolding example_live_def sup_state_on_def example_sup_def by (simp add: holds_write)
qed

lemma example_id:
  "jail_id_ok ''sbx-e1''" "only_on [(''sbx-1'', example_ready)] ''sbx-e1'' example_ready"
  by (simp_all add: jail_id_ok_def is_alnum_def is_digit_def is_lower_def is_upper_def code_def only_on_def
      example_ready_fields)

lemma example_sup_quiet: "quiet_env example_sup"
  by (simp add: quiet_env_def example_sup_def stamp_ok_def)

lemma holds_Missing: "holds df Missing []"
  by (simp add: holds_def store_read_def)

lemma example_cold_env: "cold_env example_sup v example_plan 1024 (replicate 32 5) example_vm"
  using example_sup_quiet by (simp add: cold_env_def plan_env_def) (simp add: example_sup_def example_plan_def)

lemma planned_example: "planned_resources example_plan = \<lparr>sr_uid = None, sr_gid = None, sr_overlayPath = None,
    sr_tapName = Some ''sbxtap3'', sr_netnsPath = None, sr_hostIp = Some ''10.201.0.13'',
    sr_guestIp = Some ''10.201.0.14'', sr_subnet = None, sr_dnsmasqPidfile = None, sr_exposedPorts = []\<rparr>"
  by (simp add: planned_resources_def example_plan_def mergeResources_def example_res_patch_def empty_resources_def)

lemma planned_example_ok: "resources_ok (planned_resources example_plan)"
  by (simp add: planned_example resources_ok_def ports_ok_def text_ok_def byteLength_Cons code_def)

end
