(* ===== verification/Supervisor_Properties.thy ===== *)
theory Supervisor_Properties
  imports Supervisor_Runs
begin

text \<open>
  What the supervisor core promises: its writers leave records they lost alone, a VMM is spawned only after its
  artifact and resources are journaled and never beside another one of the same launch, reasons fit their field, the
  sweep converges every open record, a bridge grant is taken once; and the places where it does not keep what it says.
\<close>

subsection \<open>The three disciplines\<close>

fun owned_ok :: "string \<Rightarrow> sup_event list \<Rightarrow> sup_event \<Rightarrow> bool" where
  "owned_ok e h (EvJournal r r') = writer_owns e r"
| "owned_ok e h _ = True"

text \<open>The journal entry of a plan: the record in \<open>booting\<close> with everything the plan brought.\<close>

definition booting_entry :: "launch_plan \<Rightarrow> sup_event \<Rightarrow> bool" where
  "booting_entry plan ev = (case ev of
      EvJournal r r' \<Rightarrow> sb_phase r' = Booting
        \<and> sb_artifact r' = overlay (bp_artifact (plan_patch plan)) (sb_artifact r)
        \<and> sb_templatePinned r' = overlay (bp_templatePinned (plan_patch plan)) (sb_templatePinned r)
        \<and> sb_resources r' = (case plan_resources plan of None \<Rightarrow> sb_resources r
             | Some p \<Rightarrow> mergeResources p (sb_resources r))
    | _ \<Rightarrow> False)"

definition booted :: "sup_event list \<Rightarrow> bool" where
  "booted h = list_ex (\<lambda>ev. case ev of
     EvResolved plan \<Rightarrow> list_ex (booting_entry plan) h | _ \<Rightarrow> False) h"

fun spawn_ok :: "sup_event list \<Rightarrow> sup_event \<Rightarrow> bool" where
  "spawn_ok h (EvSpawn k) = booted h"
| "spawn_ok h _ = True"

text \<open>
  The VMMs of a launch that may be alive, by what was reported and not by how the core judges it: a boot starts one; a boot
  that failed ends it unless its error is \<open>SBX_FC_CLEANUP\<close>, the code by which the adapter reports that its reconcile of the
  jail failed or left a machine running (\<open>boot_failure\<close>; \<open>Firecracker\<close> shows which errors mask it); and a kill with a disposal end one only when neither failed.
  \<open>unconfirmed\<close>: a kill or disposal failed, but with no \<open>SBX_FC_CLEANUP\<close> among their errors.
\<close>

definition reports_leak :: "sup_error \<Rightarrow> bool" where
  "reports_leak e = (\<exists>f. e = SupFc f \<and> fe_code f = SBX_FC_CLEANUP)"

fun vmm_step :: "nat \<Rightarrow> sup_event \<Rightarrow> nat" where
  "vmm_step n (EvSpawn k) = n + 1"
| "vmm_step n (EvSpawnFailed e) = (if reports_leak e then n else n - 1)"
| "vmm_step n (EvDown k d) = (if k = None \<and> d = None then n - 1 else n)"
| "vmm_step n _ = n"

definition vmms :: "sup_event list \<Rightarrow> nat" where
  "vmms h = foldl vmm_step 0 h"

definition unconfirmed :: "sup_event list \<Rightarrow> bool" where
  "unconfirmed h = (\<exists>k d. EvDown k d \<in> set h \<and> (k \<noteq> None \<or> d \<noteq> None) \<and> (\<forall>e. k = Some e \<or> d = Some e \<longrightarrow> \<not> reports_leak e))"

fun single_ok :: "sup_event list \<Rightarrow> sup_event \<Rightarrow> bool" where
  "single_ok h (EvSpawn k) = (vmms h = 0 \<or> unconfirmed h)"
| "single_ok h _ = True"

lemma unconfirmed_snoc [simp]: "unconfirmed h \<Longrightarrow> unconfirmed (h @ [ev])"
  unfolding unconfirmed_def by fastforce

lemma leak_iff: "isCleanupIncomplete e \<longleftrightarrow> reports_leak e"
  by (cases e) (simp_all add: reports_leak_def)

lemma vmms_snoc [simp]: "vmms (tr @ [ev]) = vmm_step (vmms tr) ev"
  by (simp add: vmms_def)

lemma plain_ok:
  "plain ev \<Longrightarrow> owned_ok e h ev" "plain ev \<Longrightarrow> spawn_ok h ev" "plain ev \<Longrightarrow> single_ok h ev"
  "plain ev \<Longrightarrow> vmm_step n ev = n"
  by (cases ev; simp)+

lemma booted_iff:
  "booted h \<longleftrightarrow> (\<exists>plan ev. EvResolved plan \<in> set h \<and> ev \<in> set h \<and> booting_entry plan ev)"
proof
  assume "booted h"
  then obtain ev where "ev \<in> set h"
    and c: "case ev of EvResolved plan \<Rightarrow> list_ex (booting_entry plan) h | _ \<Rightarrow> False"
    unfolding booted_def list_ex_iff by blast
  moreover from c obtain plan where "ev = EvResolved plan" by (cases ev) simp_all
  ultimately show "\<exists>plan ev. EvResolved plan \<in> set h \<and> ev \<in> set h \<and> booting_entry plan ev"
    by (auto simp: list_ex_iff)
next
  assume "\<exists>plan ev. EvResolved plan \<in> set h \<and> ev \<in> set h \<and> booting_entry plan ev"
  then show "booted h"
    unfolding booted_def list_ex_iff by (force split: sup_event.split)
qed

lemma booted_snoc: "booted h \<Longrightarrow> booted (h @ [ev])"
  unfolding booted_iff by auto

interpretation owner: boot_discipline "all_ok (owned_ok e)" e for e
  by unfold_locales (auto simp: plain_ok)

interpretation unspawned: discipline "all_ok spawn_ok" e for e
  by unfold_locales (auto simp: plain_ok)

interpretation journaled: boot_discipline "\<lambda>tr. all_ok spawn_ok tr \<and> booted tr" e for e
  by unfold_locales (auto simp: plain_ok booted_snoc)

interpretation unsingle: discipline "all_ok single_ok" e for e
  by unfold_locales (auto simp: plain_ok)

interpretation single: discipline "\<lambda>tr. all_ok single_ok tr \<and> (vmms tr = n \<or> unconfirmed tr)" e for e n
  by unfold_locales (auto simp: plain_ok)

subsection \<open>Launches\<close>

text \<open>What the checks before a launch leave to the launch itself.\<close>

lemma sup_launch_trace:
  assumes "sup_launch E request s = (t, a)"
  shows "ss_trace t = ss_trace s \<and> (\<exists>e. a = Inl e) \<or> (\<exists>v u. validateLaunchRequest request = Inr v
    \<and> launchValidated E v (begin_op \<lparr>io_operation = OpLaunch, io_executionId = lr_executionId v\<rparr> s) = (u, a)
    \<and> ss_trace t = ss_trace u)"
  using assms
  by (auto simp: sup_launch_def rejectDuringReconcile_def bindS_def readS_def guardS_def ret_def throw_def
      validateS_def liftS_def modS_def finallyS_def Let_def end_op_def split: if_splits sum.splits prod.splits)

lemma begin_op_trace [simp]: "ss_trace (begin_op op s) = ss_trace s"
  by (simp add: begin_op_def)

lemma launch_keeps:
  assumes "\<And>v. sup_keeps I (launchValidated E v)" and "sup_launch E request s = (t, a)" and "I (ss_trace s)"
  shows "I (ss_trace t)"
  using sup_launch_trace [OF assms(2)] assms(3) keeps_run [OF assms(1)] by (metis begin_op_trace)

lemma booted_move:
  assumes "owned_move i e from Booting (plan_patch plan) (plan_resources plan) r = Inr c" and "EvResolved plan \<in> set tr"
  shows "booted (tr @ [EvJournal r (c\<lparr>sb_revision := n, sb_updatedAt := now\<rparr>)])"
proof -
  let ?ev = "EvJournal r (c\<lparr>sb_revision := n, sb_updatedAt := now\<rparr>)"
  have "booting_entry plan ?ev"
    using owned_move_Inr [OF assms(1)] by (simp add: booting_entry_def)
  then show ?thesis unfolding booted_iff using assms(2) by auto
qed

lemma launchValidated_spawn: "sup_keeps (all_ok spawn_ok) (launchValidated E v)"
proof -
  let ?e = "lr_executionId v"
  have boot: "triple (\<lambda>tr. all_ok spawn_ok tr \<and> EvResolved plan \<in> set tr)
      (bindS (ownedTransition E (lr_sandboxId v) ?e [Staging] Booting (plan_patch plan) (plan_resources plan))
        (\<lambda>_. bootResolved E v plan)) (\<lambda>_. all_ok spawn_ok) (\<lambda>_. all_ok spawn_ok)" for plan
  proof (rule triple_bind)
    show "triple (\<lambda>tr. all_ok spawn_ok tr \<and> EvResolved plan \<in> set tr)
      (ownedTransition E (lr_sandboxId v) ?e [Staging] Booting (plan_patch plan) (plan_resources plan))
      (\<lambda>_ tr. all_ok spawn_ok tr \<and> booted tr) (\<lambda>_. all_ok spawn_ok)"
      unfolding ownedTransition_def
      by (rule triple_bind [OF triple_update triple_ret]) (auto simp: booted_move)
    show "triple (\<lambda>tr. all_ok spawn_ok tr \<and> booted tr) (bootResolved E v plan)
      (\<lambda>_. all_ok spawn_ok) (\<lambda>_. all_ok spawn_ok)" for x :: unit
      using journaled.keeps_bootResolved [of v ?e E plan] unfolding sup_keeps_def
      by (rule triple_weaken) auto
  qed
  have "sup_keeps (all_ok spawn_ok) (launchJournaled E v)"
    unfolding launchJournaled_def sup_keeps_def
    by (rule triple_bind [OF unspawned.keeps_transition [unfolded sup_keeps_def]], rule triple_bind, rule triple_call,
        assumption, assumption, rule triple_bind [OF triple_emit boot]) simp
  then show ?thesis
    unfolding launchValidated_def by (intro keep_rules unspawned.keeps_create unspawned.keeps_park)
qed

lemma cold_launch_run:
  assumes "cold_env E v plan port cred vm" and "holds (sv_dateFinite E) (ss_file s) m"
    and "jm_get m (lr_sandboxId v) = None" and "validateLaunchRequest request = Inr v" and "\<not> ss_reconciling s"
    and "resources_ok (planned_resources plan)"
    and "pred_option (\<lambda>a. sha256_hex (ar_manifestHash a)) (cp_artifact plan)"
  shows "\<exists>t r0 r1 r2 r3. sup_launch E request s = (t, Inr (running_status v (vm\<lparr>mc_executionId := lr_executionId v\<rparr>)))
    \<and> walk plan r0 r1 r2 r3
    \<and> ss_trace t = ss_trace s @ [EvCreate r0, EvJournal r0 r1, EvResolved (ColdPlan plan), EvJournal r1 r2,
        EvSpawn ColdBoot, EvDial port, EvJournal r2 r3]
    \<and> (\<exists>m'. holds (sv_dateFinite E) (ss_file t) m' \<and> jm_get m' = (jm_get m)(lr_sandboxId v \<mapsto> r3))
    \<and> jm_get (ss_machines t) (lr_executionId v) = Some (vm\<lparr>mc_executionId := lr_executionId v\<rparr>)
    \<and> jm_get (ss_agentCredentials t) (lr_executionId v) = Some cred"
proof -
  let ?op = "\<lparr>io_operation = OpLaunch, io_executionId = lr_executionId v\<rparr>"
  have h: "holds (sv_dateFinite E) (ss_file (begin_op ?op s)) m" using assms(2) by (simp add: begin_op_def)
  from quiet_launchValidated [OF assms(1) h assms(3) validateLaunchRequest_ok [OF assms(4)] assms(6,7)]
  obtain t r0 r1 r2 r3 where "launchValidated E v (begin_op ?op s) = (t, Inr (running_status v (vm\<lparr>mc_executionId := lr_executionId v\<rparr>)))"
    and r: "walk plan r0 r1 r2 r3"
      "ss_trace t = ss_trace s @ [EvCreate r0, EvJournal r0 r1, EvResolved (ColdPlan plan), EvJournal r1 r2,
        EvSpawn ColdBoot, EvDial port, EvJournal r2 r3]"
      "\<exists>m'. holds (sv_dateFinite E) (ss_file t) m' \<and> jm_get m' = (jm_get m)(lr_sandboxId v \<mapsto> r3)"
      "jm_get (ss_machines t) (lr_executionId v) = Some (vm\<lparr>mc_executionId := lr_executionId v\<rparr>)"
      "jm_get (ss_agentCredentials t) (lr_executionId v) = Some cred"
    unfolding begin_op_trace by blast
  then have "sup_launch E request s = (end_op ?op t, Inr (running_status v (vm\<lparr>mc_executionId := lr_executionId v\<rparr>)))"
    by (simp add: launch_begins [OF assms(5,4)] finallyS_def)
  with r show ?thesis by (intro exI [of _ "end_op ?op t"] exI) (auto simp: end_op_def)
qed

lemma example_start:
  "holds (sv_dateFinite example_sup) (ss_file (sup_state_on [])) []"
  "\<not> ss_reconciling (sup_state_on [])"
  "jm_get [] (lr_sandboxId example_launch) = None"
  "ss_trace (sup_state_on m) = []"
  "pred_option (\<lambda>a. sha256_hex (ar_manifestHash a)) (cp_artifact example_plan)"
  by (simp_all add: sup_state_on_def holds_Missing example_plan_def)

lemma example_launch_run:
  obtains t a r0 r1 r2 r3 where "sup_launch example_sup (Some (launch_obj example_launch)) (sup_state_on []) = (t, Inr a)"
    and "walk example_plan r0 r1 r2 r3" and "ss_trace t = [EvCreate r0, EvJournal r0 r1, EvResolved (ColdPlan example_plan),
      EvJournal r1 r2, EvSpawn ColdBoot, EvDial 1024, EvJournal r2 r3]"
proof -
  from cold_launch_run [OF example_cold_env example_start(1,3) example_launch_valid example_start(2)
      planned_example_ok example_start(5)] that
  show ?thesis by (auto simp: example_start(4))
qed

text \<open>
  C4. Whatever else runs during its awaits, a launch, a shutdown or kill, and an exposeHttp of an execution replace a
  journal record only when that record is bound to no other execution and no sweep has taken or settled it: a writer
  that lost its record leaves the winner's alone.
\<close>

theorem writers_leave_lost_records_alone:
  assumes "(\<exists>request v a. sup_launch E request s = (t, a) \<and> validateLaunchRequest request = Inr v
        \<and> lr_executionId v = e)
      \<or> (\<exists>mode a. terminate E e mode s = (t, a)) \<or> (\<exists>g h a. exposeHttp E e g h s = (t, a))"
    and "ss_trace s = []" and "EvJournal r r' \<in> set (ss_trace t)"
  shows "(executionOf r = None \<or> executionOf r = Some e) \<and> sb_phase r \<notin> {Reconciling, Terminated, Quarantined}"
proof -
  have start: "all_ok (owned_ok e) (ss_trace s)" using assms(2) by simp
  have "all_ok (owned_ok e) (ss_trace t)"
    using assms(1)
  proof (elim disjE exE conjE)
    fix request v a
    assume l: "sup_launch E request s = (t, a)" and v: "validateLaunchRequest request = Inr v" "lr_executionId v = e"
    from sup_launch_trace [OF l] v show ?thesis
      using start keeps_run [OF owner.keeps_launchValidated [of v e E]] by (metis begin_op_trace sum.inject(2))
  next
    fix mode a assume "terminate E e mode s = (t, a)"
    then show ?thesis by (rule keeps_run [OF owner.keeps_terminate start])
  next
    fix g h a assume "exposeHttp E e g h s = (t, a)"
    then show ?thesis by (rule keeps_run [OF owner.keeps_exposeHttp start])
  qed
  moreover obtain pre post where "ss_trace t = pre @ EvJournal r r' # post"
    using assms(3) by (auto simp: in_set_conv_decomp)
  ultimately have "owned_ok e pre (EvJournal r r')" by (rule all_ok_event)
  then show ?thesis by (auto simp: writer_owns_def RECONCILED_PHASES_def)
qed

theorem writers_leave_lost_records_alone_witness:
  "\<exists>t a r r'. sup_launch example_sup (Some (launch_obj example_launch)) (sup_state_on []) = (t, Inr a)
     \<and> EvJournal r r' \<in> set (ss_trace t) \<and> sb_phase r \<notin> {Reconciling, Terminated, Quarantined}"
proof -
  obtain t a r0 r1 r2 r3 where run: "sup_launch example_sup (Some (launch_obj example_launch)) (sup_state_on []) = (t, Inr a)"
    "ss_trace t = [EvCreate r0, EvJournal r0 r1, EvResolved (ColdPlan example_plan),
      EvJournal r1 r2, EvSpawn ColdBoot, EvDial 1024, EvJournal r2 r3]"
    by (rule example_launch_run)
  have "ss_trace (sup_state_on []) = []" "EvJournal r1 r2 \<in> set (ss_trace t)" using run by (simp_all add: sup_state_on_def)
  with writers_leave_lost_records_alone [of example_sup "sup_state_on []" t "lr_executionId example_launch" r1 r2]
  show ?thesis using run(1) example_launch_valid by blast
qed

text \<open>
  C1. No process is spawned before its journal entry: when a launch calls the Firecracker adapter, be it for a cold
  boot, a snapshot restore or the fallback, the planner had resolved a plan and this launch had already committed the
  record in \<open>booting\<close> with the plan's artifact, its template pin and its network resources.
\<close>

theorem journal_before_spawn:
  assumes "sup_launch E request s = (t, a)" and "ss_trace s = []" and "ss_trace t = pre @ EvSpawn k # post"
  shows "\<exists>plan r r'. EvResolved plan \<in> set pre \<and> EvJournal r r' \<in> set pre \<and> sb_phase r' = Booting
    \<and> sb_artifact r' = overlay (bp_artifact (plan_patch plan)) (sb_artifact r)
    \<and> sb_templatePinned r' = overlay (bp_templatePinned (plan_patch plan)) (sb_templatePinned r)
    \<and> sb_resources r' = (case plan_resources plan of None \<Rightarrow> sb_resources r
         | Some p \<Rightarrow> mergeResources p (sb_resources r))"
proof -
  have "all_ok spawn_ok (ss_trace t)"
    using launch_keeps [OF launchValidated_spawn assms(1)] assms(2) by simp
  from all_ok_event [OF this assms(3)] have "booted pre" by simp
  then obtain plan ev' where ev': "EvResolved plan \<in> set pre" "ev' \<in> set pre" "booting_entry plan ev'"
    unfolding booted_iff by blast
  then obtain r r' where "ev' = EvJournal r r'" by (cases ev') (auto simp: booting_entry_def)
  with ev' show ?thesis by (auto simp: booting_entry_def)
qed

theorem journal_before_spawn_witness:
  "\<exists>t a pre post plan. sup_launch example_sup (Some (launch_obj example_launch)) (sup_state_on []) = (t, Inr a)
     \<and> ss_trace t = pre @ EvSpawn ColdBoot # post \<and> EvResolved plan \<in> set pre"
proof -
  obtain t a r0 r1 r2 r3 where run: "sup_launch example_sup (Some (launch_obj example_launch)) (sup_state_on []) = (t, Inr a)"
    "ss_trace t = [EvCreate r0, EvJournal r0 r1, EvResolved (ColdPlan example_plan),
      EvJournal r1 r2, EvSpawn ColdBoot, EvDial 1024, EvJournal r2 r3]"
    by (rule example_launch_run)
  have "ss_trace t = [EvCreate r0, EvJournal r0 r1, EvResolved (ColdPlan example_plan), EvJournal r1 r2]
      @ EvSpawn ColdBoot # [EvDial 1024, EvJournal r2 r3]" "ss_trace (sup_state_on []) = []"
    using run by (simp_all add: sup_state_on_def)
  with journal_before_spawn [OF run(1) this(2,1)] run(1) show ?thesis by blast
qed

text \<open>
  C5. A cold launch with nobody else on the journal succeeds, and walks its record through the phases: created in
  \<open>allocating\<close>, then \<open>staging\<close>, the plan resolved, \<open>booting\<close> with the plan's network resources, only then the spawn and
  the dial of the guest's agent, and last \<open>ready\<close>. The caller gets a running machine, which is tracked with its
  credential, and no in-flight operation is left behind.
\<close>

theorem launch_reaches_ready:
  assumes "cold_env E v plan port cred vm" and "holds (sv_dateFinite E) (ss_file s) m"
    and "jm_get m (lr_sandboxId v) = None" and "validateLaunchRequest request = Inr v" and "\<not> ss_reconciling s"
    and "resources_ok (planned_resources plan)"
    and "pred_option (\<lambda>a. sha256_hex (ar_manifestHash a)) (cp_artifact plan)"
  shows "\<exists>t r0 r1 r2 r3 m'. sup_launch E request s = (t, Inr (running_status v (vm\<lparr>mc_executionId := lr_executionId v\<rparr>)))
    \<and> map sb_phase [r0, r1, r2, r3] = [Allocating, Staging, Booting, Ready]
    \<and> sb_resources r2 = planned_resources plan \<and> sb_resources r3 = planned_resources plan
    \<and> ss_trace t = ss_trace s @ [EvCreate r0, EvJournal r0 r1, EvResolved (ColdPlan plan), EvJournal r1 r2,
        EvSpawn ColdBoot, EvDial port, EvJournal r2 r3]
    \<and> holds (sv_dateFinite E) (ss_file t) m' \<and> jm_get m' = (jm_get m)(lr_sandboxId v \<mapsto> r3)
    \<and> jm_get (ss_machines t) (lr_executionId v) = Some (vm\<lparr>mc_executionId := lr_executionId v\<rparr>)
    \<and> jm_get (ss_agentCredentials t) (lr_executionId v) = Some cred"
  using cold_launch_run [OF assms] unfolding walk_def by fastforce

theorem launch_reaches_ready_witness:
  "\<exists>t. sup_launch example_sup (Some (launch_obj example_launch)) (sup_state_on []) =
      (t, Inr (running_status example_launch (example_vm\<lparr>mc_executionId := ''e-1''\<rparr>)))
    \<and> jm_get (ss_agentCredentials t) ''e-1'' = Some (replicate 32 5)"
proof -
  have "lr_executionId example_launch = ''e-1''" by (simp add: example_launch_def)
  with launch_reaches_ready [OF example_cold_env example_start(1,3) example_launch_valid example_start(2)
      planned_example_ok example_start(5)]
  show ?thesis by auto
qed

subsection \<open>One VMM at a time\<close>

abbreviation one_at_a_time :: "nat \<Rightarrow> sup_event list \<Rightarrow> bool" where
  "one_at_a_time n tr \<equiv> all_ok single_ok tr \<and> (vmms tr = n \<or> unconfirmed tr)"

lemma triple_emit_seq:
  "(\<And>tr. P tr \<Longrightarrow> P' (tr @ [ev])) \<Longrightarrow> triple P' m Q R \<Longrightarrow> triple P (bindS (emit ev) (\<lambda>_. m)) Q R"
  by (rule triple_bind [where M = "\<lambda>_. P'"]) (rule triple_emit)

lemma spawn_single:
  "triple (one_at_a_time 0) (spawnS E k boot recipe x) (\<lambda>_. one_at_a_time 1)
     (\<lambda>e. one_at_a_time (if isCleanupIncomplete e then 1 else 0))"
proof -
  have fail: "triple (one_at_a_time 1) (bindS (emit (EvSpawnFailed e)) (\<lambda>_. throw e)) (\<lambda>_. one_at_a_time 1)
     (\<lambda>e. one_at_a_time (if isCleanupIncomplete e then 1 else 0))" for e
    by (rule triple_emit_seq [where P' = "one_at_a_time (if isCleanupIncomplete e then 1 else 0)"])
      (auto intro: triple_throw simp: leak_iff)
  have "triple (one_at_a_time 1) (catchS (callS E boot recipe) (\<lambda>e. bindS (emit (EvSpawnFailed e)) (\<lambda>_. throw e)))
      (\<lambda>_. one_at_a_time 1) (\<lambda>e. one_at_a_time (if isCleanupIncomplete e then 1 else 0))"
    by (rule triple_catch [OF triple_call fail])
  then show ?thesis
    unfolding spawnS_def
    by (intro triple_emit_seq [where P' = "one_at_a_time 1"] triple_bind [OF _ triple_ret]) auto
qed

lemma put_down_single:
  "triple (one_at_a_time 1) (killAndDispose E x)
     (\<lambda>y. one_at_a_time (if cleanup_error (fst y) (snd y) = None then 0 else 1)) R"
proof -
  have call: "triple (one_at_a_time 1) (attemptS (callS E f x)) (\<lambda>_. one_at_a_time 1) R" for f :: "(string, unit) outcome"
    by (rule triple_attempt [OF triple_call])
  have down: "one_at_a_time (if cleanup_error k d = None then 0 else 1) (tr @ [EvDown k d])" if "one_at_a_time 1 tr" for tr k d
  proof -
    have "unconfirmed (tr @ [EvDown k d])" if "k \<noteq> None \<or> d \<noteq> None" "cleanup_error k d = None"
      unfolding unconfirmed_def
    proof (intro exI conjI)
      show "\<forall>e. k = Some e \<or> d = Some e \<longrightarrow> \<not> reports_leak e"
        using that(2) by (auto simp: cleanup_error_def leak_iff split: option.splits if_splits)
    qed (use that(1) in auto)
    with that show ?thesis by (auto simp: cleanup_error_def)
  qed
  have out: "triple (one_at_a_time 1) (bindS (emit (EvDown k d)) (\<lambda>_. ret (k, d)))
     (\<lambda>y. one_at_a_time (if cleanup_error (fst y) (snd y) = None then 0 else 1)) R" for k d
    by (rule triple_emit_seq [where P' = "one_at_a_time (if cleanup_error k d = None then 0 else 1)"])
      (use down in \<open>auto intro: triple_ret\<close>)
  show ?thesis unfolding killAndDispose_def by (rule triple_bind [OF call triple_bind [OF call out]])
qed

lemma single_weak: "sup_keeps (one_at_a_time 1) m \<Longrightarrow> triple (one_at_a_time 1) m (\<lambda>_. one_at_a_time 1) (\<lambda>_. one_at_a_time 1)"
  by (simp add: sup_keeps_def)

lemma cleanup_then_throw:
  "triple (one_at_a_time 1) (bindS (killAndDispose E x) (\<lambda>_. throw e)) Q (\<lambda>_. all_ok single_ok)"
  by (rule triple_bind [OF put_down_single], rule triple_throw) simp

lemma keeps_ready_single: "sup_keeps (one_at_a_time n) (becomeReady E v)"
  unfolding becomeReady_def by (rule single.keeps_transition)

lemma ready_single:
  "sup_keeps (one_at_a_time 1) m \<Longrightarrow> triple (one_at_a_time 1)
     (catchS m (\<lambda>e. bindS (killAndDispose E x) (\<lambda>_. throw e))) (\<lambda>_. one_at_a_time 1) (\<lambda>_. all_ok single_ok)"
  by (rule triple_catch [OF single_weak cleanup_then_throw])

lemma tracked_single:
  "(\<And>s. ss_trace (f s) = ss_trace s) \<Longrightarrow> triple (one_at_a_time 1) m (\<lambda>_. one_at_a_time 1) (\<lambda>_. all_ok single_ok) \<Longrightarrow>
   triple (one_at_a_time 1) (bindS (modS f) (\<lambda>_. m)) (\<lambda>_. one_at_a_time 1) (\<lambda>_. all_ok single_ok)"
  by (rule triple_bind [OF triple_mod])

lemma boot_cold_single:
  "triple (one_at_a_time 0) (bootColdPlan E v plan) (\<lambda>_. one_at_a_time 1) (\<lambda>_. all_ok single_ok)"
proof -
  have ready: "sup_keeps (one_at_a_time 1) (bindS (case cp_agentVsockPort plan of None \<Rightarrow> ret () | Some p \<Rightarrow> dialS E p)
      (\<lambda>_. becomeReady E v))"
    by (intro keep_rules single.keeps_dial keeps_ready_single)
  show ?thesis
    unfolding bootColdPlan_def
    by (rule triple_bind [OF triple_weaken [OF spawn_single]], assumption, assumption, simp,
        rule triple_bind [OF ready_single [OF ready]],
        intro tracked_single triple_ret, simp_all add: track_def split: option.split)
qed

lemma fallback_single:
  "triple (one_at_a_time 0) (fallbackToCold E v plan) (\<lambda>_. one_at_a_time 1) (\<lambda>_. all_ok single_ok)"
  unfolding fallbackToCold_def
  by (rule triple_bind [OF triple_weaken [OF single.keeps_unbind [unfolded sup_keeps_def]] boot_cold_single]) auto

lemma restore_ready_single:
  "triple (one_at_a_time 1) (restoreReady E v plan machine) (\<lambda>_. one_at_a_time 1) (\<lambda>_. all_ok single_ok)"
  unfolding restoreReady_def
  by (rule triple_bind [OF ready_single [OF keeps_ready_single]], intro tracked_single triple_ret)
    (simp_all add: track_def)

lemma restore_abandoned_single:
  "triple (one_at_a_time 1) (restoreAbandoned E v plan) (\<lambda>_. one_at_a_time 1) (\<lambda>_. all_ok single_ok)"
  unfolding restoreAbandoned_def
proof (rule triple_bind [where M = "\<lambda>x. one_at_a_time (if x = None then 0 else 1)"])
  show "triple (one_at_a_time 1) (putRestoredVmmDown E (lr_executionId v))
      (\<lambda>x. one_at_a_time (if x = None then 0 else 1)) (\<lambda>_. all_ok single_ok)"
    unfolding putRestoredVmmDown_def
    by (rule triple_bind [OF put_down_single]) (auto intro: triple_ret split: prod.split)
  show "triple (one_at_a_time (if x = None then 0 else 1)) (case x of Some e \<Rightarrow> throw e | None \<Rightarrow> fallbackToCold E v plan)
      (\<lambda>_. one_at_a_time 1) (\<lambda>_. all_ok single_ok)" for x
    using fallback_single [of E v plan] by (cases x) (auto intro: triple_throw)
qed

lemma restored_single:
  "triple (one_at_a_time 1) (bindS (attemptS (personalizeRestored E plan)) (\<lambda>personalized. case personalized of
       Inl _ \<Rightarrow> restoreAbandoned E v plan | Inr _ \<Rightarrow> restoreReady E v plan machine))
     (\<lambda>_. one_at_a_time 1) (\<lambda>_. all_ok single_ok)"
proof (rule triple_bind [OF triple_attempt [OF single_weak [OF single.keeps_personalize]]])
  show "triple (one_at_a_time 1) (case x of Inl _ \<Rightarrow> restoreAbandoned E v plan | Inr _ \<Rightarrow> restoreReady E v plan machine)
     (\<lambda>_. one_at_a_time 1) (\<lambda>_. all_ok single_ok)" for x :: "sup_error + unit"
    using restore_abandoned_single restore_ready_single by (cases x) auto
qed

lemma restore_single:
  "triple (one_at_a_time 0) (launchRestore E v plan) (\<lambda>_. one_at_a_time 1) (\<lambda>_. all_ok single_ok)"
  unfolding launchRestore_def
proof (rule triple_bind [OF triple_attempt [where Q = "\<lambda>x. one_at_a_time (case x of Inr _ \<Rightarrow> 1
      | Inl e \<Rightarrow> if isCleanupIncomplete e then 1 else 0)"]], goal_cases)
  case 1
  show ?case by (rule triple_weaken [OF spawn_single]) simp_all
next
  case (2 x)
  show ?case
    using fallback_single [of E v plan] restored_single by (cases x) (auto intro: triple_throw)
qed

lemma launchValidated_single:
  "triple (one_at_a_time 0) (launchValidated E v) (\<lambda>_. one_at_a_time 1) (\<lambda>_. all_ok single_ok)"
proof -
  have boot: "triple (one_at_a_time 0) (bootResolved E v plan) (\<lambda>_. one_at_a_time 1) (\<lambda>_. all_ok single_ok)" for plan
    unfolding bootResolved_def using restore_single boot_cold_single by (cases plan) auto
  have weak: "triple (one_at_a_time 0) m (\<lambda>_. one_at_a_time 0) (\<lambda>_. all_ok single_ok)"
    if "sup_keeps (one_at_a_time 0) m" for m :: "'x sup"
    using that unfolding sup_keeps_def by (rule triple_weaken) auto
  have journaled: "triple (one_at_a_time 0) (launchJournaled E v) (\<lambda>_. one_at_a_time 1) (\<lambda>_. all_ok single_ok)"
    unfolding launchJournaled_def
    by (rule triple_bind [OF weak [OF single.keeps_transition]], rule triple_bind [OF weak [OF keeps_call]],
        rule triple_bind [OF weak [OF single.keeps_emit_plain]], simp,
        rule triple_bind [OF weak [OF single.keeps_transition] boot])
  have park: "triple (all_ok single_ok) (bindS (parkFailedLaunch E i e x) (\<lambda>_. throw x))
      (\<lambda>_. one_at_a_time 1) (\<lambda>_. all_ok single_ok)" for i e x
    by (rule triple_bind [OF unsingle.keeps_park [unfolded sup_keeps_def]], rule triple_throw)
  show ?thesis
    unfolding launchValidated_def
    by (rule triple_bind [OF weak [OF single.keeps_create] triple_catch [OF journaled park]])
qed

text \<open>
  C2. No double boot: whenever a launch starts a VMM, by a cold boot, a restore or the fallback of a restore, none that
  this launch started before may still be alive, and a launch that succeeds leaves exactly one; a started VMM counts as
  alive until its failed boot is reported without \<open>SBX_FC_CLEANUP\<close>, or its kill and its disposal both succeed. The one
  exception is a launch in which a kill or disposal failed with other errors than \<open>SBX_FC_CLEANUP\<close>.
\<close>

theorem launch_never_boots_beside_a_live_vmm:
  assumes "sup_launch E request s = (t, a)" and "ss_trace s = []"
  shows "(\<forall>pre k post. ss_trace t = pre @ EvSpawn k # post \<longrightarrow> vmms pre = 0 \<or> unconfirmed pre)
    \<and> (is_ok a \<longrightarrow> vmms (ss_trace t) = 1 \<or> unconfirmed (ss_trace t))"
proof -
  have start: "vmms [] = 0" by (simp add: vmms_def)
  have "all_ok single_ok (ss_trace t) \<and> (is_ok a \<longrightarrow> vmms (ss_trace t) = 1 \<or> unconfirmed (ss_trace t))"
    using sup_launch_trace [OF assms(1)]
  proof (elim disjE exE conjE)
    fix e assume "ss_trace t = ss_trace s" "a = Inl e"
    then show ?thesis using assms(2) by simp
  next
    fix v u
    assume run: "launchValidated E v (begin_op \<lparr>io_operation = OpLaunch, io_executionId = lr_executionId v\<rparr> s) = (u, a)"
      and tr: "ss_trace t = ss_trace u"
    show ?thesis
      using launchValidated_single [of E v, unfolded triple_def, rule_format,
          of "begin_op \<lparr>io_operation = OpLaunch, io_executionId = lr_executionId v\<rparr> s"] run tr start assms(2)
      by (cases a) auto
  qed
  then show ?thesis by (auto dest: all_ok_event)
qed

theorem launch_never_boots_beside_a_live_vmm_witness:
  "\<exists>t a. sup_launch example_sup (Some (launch_obj example_launch)) (sup_state_on []) = (t, Inr a) \<and> vmms (ss_trace t) = 1"
proof -
  obtain t a r0 r1 r2 r3 where run: "sup_launch example_sup (Some (launch_obj example_launch)) (sup_state_on []) = (t, Inr a)"
    and tr: "ss_trace t = [EvCreate r0, EvJournal r0 r1, EvResolved (ColdPlan example_plan),
      EvJournal r1 r2, EvSpawn ColdBoot, EvDial 1024, EvJournal r2 r3]"
    by (rule example_launch_run)
  moreover have "\<not> unconfirmed (ss_trace t)" using tr by (simp add: unconfirmed_def)
  ultimately show ?thesis using launch_never_boots_beside_a_live_vmm [OF run example_start(4)] by auto
qed

text \<open>
  The exception is real: the comment of \<open>#putRestoredVmmDown\<close> calls the VMM confirmed down when kill and disposal are
  clean, but a disposal that failed with another error than \<open>SBX_FC_CLEANUP\<close> (one of the registry that passes through the
  package, for instance) is dropped, and the fallback boots a second VMM.
\<close>

lemma failed_disposal_is_taken_for_down:
  assumes q: "quiet_env E" and k: "\<And>n. sv_kill E n x = Inr ()" and d: "\<And>n. sv_dispose E n x = Inl e"
    and e: "\<not> reports_leak e"
  shows "\<exists>t. putRestoredVmmDown E x s = (t, Inr None) \<and> ss_trace t = ss_trace s @ [EvDown None (Some e)]
    \<and> vmms (ss_trace t) = vmms (ss_trace s)"
  using e by (simp add: putRestoredVmmDown_def killAndDispose_def bindS_def attemptS_def quiet_call [OF q] k d emit_def modS_def
      ret_def err_of_def cleanup_error_def leak_iff)

subsection \<open>A cold boot that fails\<close>

lemma quiet_hooks_ok:
  assumes q: "quiet_env E" and "\<And>h n r. h \<in> set hs \<Longrightarrow> snd h n r = Inr ()"
  shows "\<exists>n. runHooks E r hs s = (s\<lparr>ss_tick := n, ss_trace := ss_trace s @ map (\<lambda>h. EvHook (fst h) None) hs\<rparr>, Inr None)"
  using assms(2)
proof (induction hs arbitrary: s)
  case Nil
  have "runHooks E r [] s = (s\<lparr>ss_tick := ss_tick s, ss_trace := ss_trace s @ []\<rparr>, Inr None)" by (simp add: ret_def)
  then show ?case by (intro exI [of _ "ss_tick s"]) simp
next
  case (Cons h hs)
  obtain name f where h: "h = (name, f)" by (cases h)
  have f: "f n r = Inr ()" for n using Cons.prems [of h] by (simp add: h)
  let ?s = "s\<lparr>ss_tick := Suc (ss_tick s), ss_trace := ss_trace s @ [EvHook name None]\<rparr>"
  obtain n where "runHooks E r hs ?s = (?s\<lparr>ss_tick := n, ss_trace := ss_trace ?s @ map (\<lambda>h. EvHook (fst h) None) hs\<rparr>, Inr None)"
    using Cons.IH [of ?s] Cons.prems by auto
  then show ?case
    by (auto simp: h bindS_def attemptS_def quiet_call [OF q] f emit_def modS_def)
qed

lemma vmms_hooks [simp]: "vmms (tr @ map (\<lambda>h. EvHook (f h) d) hs) = vmms tr"
  by (induction hs arbitrary: tr) (simp_all add: vmms_def)

lemma quiet_park:
  assumes q: "quiet_env E" and h: "holds (sv_dateFinite E) (ss_file s) m" and r: "jm_get m i = Some r"
    and own: "writer_owns x r" and bound: "sb_revision r + 1 \<le> MAX_SAFE_INTEGER"
    and e: "\<not> is_stale e" "\<not> isCleanupIncomplete e"
    and hooks: "\<forall>hk \<in> set (sv_hooks E). \<forall>n r. snd hk n r = Inr ()"
  shows "\<exists>t r'. parkFailedLaunch E i x e s = (t, Inr ()) \<and> vmms (ss_trace t) = vmms (ss_trace s)
    \<and> ss_machines t = ss_machines s \<and> holds (sv_dateFinite E) (ss_file t) (jm_set i r' m)
    \<and> sb_phase r' = Terminated
    \<and> sb_terminationReason r' = Some (truncateReason (''launch failed: '' @ boundedReason e))"
proof -
  let ?detail = "truncateReason (''launch failed: '' @ boundedReason e)"
  have id: "sb_id r = i" "record_ok (sv_dateFinite E) r" using map_ok_get [OF holds_map_ok [OF h] r] by auto
  obtain n evs where rec: "runReclaimHooks E i s = (s\<lparr>ss_tick := n, ss_trace := ss_trace s @ evs\<rparr>, Inr None)"
    and evs: "vmms (ss_trace s @ evs) = vmms (ss_trace s)"
  proof (cases "sv_hooks E = []")
    case True
    then have "runReclaimHooks E i s = (s\<lparr>ss_tick := ss_tick s, ss_trace := ss_trace s @ []\<rparr>, Inr None)"
      by (simp add: runReclaimHooks_def ret_def)
    then show ?thesis by (rule that) simp
  next
    case False
    let ?s = "s\<lparr>ss_tick := Suc (ss_tick s)\<rparr>"
    obtain n where n: "runHooks E r (sv_hooks E) ?s = (?s\<lparr>ss_tick := n, ss_trace := ss_trace ?s
        @ map (\<lambda>h. EvHook (fst h) None) (sv_hooks E)\<rparr>, Inr None)"
      using quiet_hooks_ok [OF q, of "sv_hooks E" r ?s] hooks by blast
    show ?thesis
      by (rule that [of "map (\<lambda>h. EvHook (fst h) None) (sv_hooks E)" n])
        (use False n in \<open>simp_all add: runReclaimHooks_def bindS_def quiet_storeGet [OF q h] r\<close>)
  qed
  let ?s = "s\<lparr>ss_tick := n, ss_trace := ss_trace s @ evs\<rparr>"
  let ?c = "r\<lparr>sb_phase := Terminated, sb_terminationReason := Some ?detail\<rparr>"
  let ?r = "stamped E ?s r ?c"
  have hs: "holds (sv_dateFinite E) (ss_file ?s) m" using h by simp
  have ok: "record_ok (sv_dateFinite E) ?r"
    using id(2) bound q truncateReason_ok [of "''launch failed: '' @ boundedReason e"]
    by (simp add: record_ok_def stamped_def quiet_env_def)
  have c: "settle_record (Some (x, ''park failed launch'')) Terminated ?detail r = Inr ?c"
    using own by (simp add: settle_record_def assertWriterOwns_ok)
  note upd = quiet_update [where mutate = "settle_record (Some (x, ''park failed launch'')) Terminated ?detail",
      OF q hs r c _ ok]
  let ?t = "?s\<lparr>ss_tick := Suc (Suc n), ss_file := Content (state_json (jm_set i ?r m)),
      ss_trace := (ss_trace s @ evs) @ [EvJournal r ?r]\<rparr>"
  have run: "parkFailedLaunch E i x e s = (?t, Inr ())"
    using upd e id(1) by (simp add: parkFailedLaunch_def catchS_def bindS_def rec ret_def Let_def)
  have "vmms (ss_trace ?t) = vmms (ss_trace s)"
    using vmms_snoc [of "ss_trace s @ evs" "EvJournal r ?r"] evs by simp
  moreover have "map_ok (sv_dateFinite E) (jm_set i ?r m)"
    by (rule map_ok_set [OF holds_map_ok [OF h] ok]) (simp add: stamped_def id)
  ultimately show ?thesis
    by (intro exI [of _ ?t] exI [of _ ?r] conjI run) (simp_all add: holds_write stamped_def)
qed

text \<open>
  C23. A cold launch whose agent does not answer, with nobody else on the journal. The caller gets the error of the dial,
  no machine is tracked, and the record ends terminated, with the bounded error as its reason. It does so whatever the
  kill and the disposal of the fresh VMM reported: when either failed the VMM may be alive under a terminated record, which
  no sweep opens again.
\<close>

theorem failed_cold_boot_is_parked_terminated:
  assumes "plan_env E v plan" and "holds (sv_dateFinite E) (ss_file s) m" and "jm_get m (lr_sandboxId v) = None"
    and "validateLaunchRequest request = Inr v" and "\<not> ss_reconciling s" and "ss_trace s = []"
    and "resources_ok (planned_resources plan)"
    and "pred_option (\<lambda>a. sha256_hex (ar_manifestHash a)) (cp_artifact plan)"
    and "cp_agentVsockPort plan = Some port" and "\<And>n. sv_launch E n (cp_recipe plan) = Inr vm"
    and "\<And>n. sv_dial E n port = Inl e" and "\<not> is_stale e" and "\<not> isCleanupIncomplete e"
    and "\<And>n. sv_kill E n (lr_executionId v) = k" and "\<And>n. sv_dispose E n (lr_executionId v) = d"
    and "\<forall>h \<in> set (sv_hooks E). \<forall>n r. snd h n r = Inr ()"
  shows "\<exists>t m' r'. sup_launch E request s = (t, Inl e) \<and> ss_machines t = ss_machines s
    \<and> holds (sv_dateFinite E) (ss_file t) m' \<and> jm_get m' = (jm_get m)(lr_sandboxId v \<mapsto> r')
    \<and> sb_phase r' = Terminated
    \<and> sb_terminationReason r' = Some (truncateReason (''launch failed: '' @ boundedReason e))
    \<and> vmms (ss_trace t) = (if is_ok k \<and> is_ok d then 0 else 1)"
proof -
  let ?i = "lr_sandboxId v" and ?x = "lr_executionId v"
  let ?op = "\<lparr>io_operation = OpLaunch, io_executionId = ?x\<rparr>"
  let ?s = "begin_op ?op s"
  have q: "quiet_env E" using assms(1) by (simp add: plan_env_def)
  have hs: "holds (sv_dateFinite E) (ss_file ?s) m" using assms(2) by (simp add: begin_op_def)
  obtain s1 s4 r0 r1 r2 m4 where c: "createRecord E v ?s = (s1, Inr ())" "launchJournaled E v s1 = bootColdPlan E v plan s4"
    and w: "walk_to_boot plan r0 r1 r2"
    and T: "ss_trace s4 = ss_trace ?s @ [EvCreate r0, EvJournal r0 r1, EvResolved (ColdPlan plan), EvJournal r1 r2]"
    and h4: "holds (sv_dateFinite E) (ss_file s4) m4" "jm_get m4 = (jm_get m)(?i \<mapsto> r2)"
    and M: "ss_machines s4 = ss_machines ?s"
    using quiet_to_boot [OF assms(1) hs assms(3) validateLaunchRequest_ok [OF assms(4)] assms(7,8)] by blast
  let ?u = "s4\<lparr>ss_trace := ss_trace s4 @ [EvSpawn ColdBoot, EvDial port, EvDown (err_of k) (err_of d)],
      ss_tick := Suc (Suc (Suc (Suc (ss_tick s4))))\<rparr>"
  have boot: "bootColdPlan E v plan s4 = (?u, Inl e)"
    by (simp add: bootColdPlan_def spawnS_def bindS_def catchS_def emit_def modS_def quiet_call [OF q] assms(9-11)
        assms(14,15) dialS_def ret_def throw_def killAndDispose_def attemptS_def)
  have hu: "holds (sv_dateFinite E) (ss_file ?u) m4" using h4(1) by simp
  have r2: "jm_get m4 ?i = Some r2" using h4(2) by simp
  have own: "writer_owns ?x r2" "sb_revision r2 + 1 \<le> MAX_SAFE_INTEGER"
    using w by (simp_all add: walk_to_boot_def writer_owns_def executionOf_def RECONCILED_PHASES_def MAX_SAFE_INTEGER_def)
  obtain t r' where p: "parkFailedLaunch E ?i ?x e ?u = (t, Inr ())" "vmms (ss_trace t) = vmms (ss_trace ?u)"
    "ss_machines t = ss_machines ?u" "holds (sv_dateFinite E) (ss_file t) (jm_set ?i r' m4)" "sb_phase r' = Terminated"
    "sb_terminationReason r' = Some (truncateReason (''launch failed: '' @ boundedReason e))"
    using quiet_park [OF q hu r2 own assms(12,13,16)] by blast
  have run: "sup_launch E request s = (end_op ?op t, Inl e)"
    using c boot p(1)
    by (simp add: launch_begins [OF assms(5,4)] finallyS_def launchValidated_def bindS_def catchS_def throw_def)
  have v: "vmms (ss_trace t) = (if is_ok k \<and> is_ok d then 0 else 1)"
    unfolding p(2) by (cases k; cases d) (simp_all add: T begin_op_def assms(6) vmms_def err_of_def)
  show ?thesis
    by (rule exI [of _ "end_op ?op t"], rule exI [of _ "jm_set ?i r' m4"], rule exI [of _ r'])
      (use run v p M in \<open>simp add: end_op_def begin_op_def jm_get_set h4(2)\<close>)
qed

definition example_leak :: fc_error where
  "example_leak = \<lparr>fe_code = SBX_FC_CLEANUP, fe_operation = ''dispose'', fe_message = ''busy'', fe_retryable = False,
     fe_details = no_details\<rparr>"

definition example_silent :: sup_env where
  "example_silent = example_sup\<lparr>sv_dial := (\<lambda>_ _. Inl (SupThrown ''Error: refused'')),
     sv_dispose := (\<lambda>_ _. Inl (SupFc example_leak))\<rparr>"

theorem failed_cold_boot_is_parked_terminated_witness:
  "\<exists>t m' r'. sup_launch example_silent (Some (launch_obj example_launch)) (sup_state_on []) =
      (t, Inl (SupThrown ''Error: refused''))
    \<and> jm_get m' ''sbx-a1'' = Some (r' :: sandbox_record) \<and> sb_phase r' = Terminated \<and> vmms (ss_trace t) = 1"
proof -
  have env: "plan_env example_silent example_launch example_plan"
    "cp_agentVsockPort example_plan = Some 1024" "\<And>n. sv_launch example_silent n (cp_recipe example_plan) = Inr example_vm"
    "\<And>n. sv_dial example_silent n 1024 = Inl (SupThrown ''Error: refused'')"
    "\<And>n. sv_kill example_silent n (lr_executionId example_launch) = Inr ()"
    "\<And>n. sv_dispose example_silent n (lr_executionId example_launch) = Inl (SupFc example_leak)"
    "\<forall>h \<in> set (sv_hooks example_silent). \<forall>n r. snd h n r = Inr ()"
    by (auto simp: plan_env_def quiet_env_def stamp_ok_def example_silent_def example_sup_def example_plan_def)
  have h: "holds (sv_dateFinite example_silent) (ss_file (sup_state_on [])) []"
    by (simp add: sup_state_on_def holds_Missing)
  have e: "\<not> is_stale (SupThrown ''Error: refused'')" "\<not> isCleanupIncomplete (SupThrown ''Error: refused'')"
    by simp_all
  have id: "lr_sandboxId example_launch = ''sbx-a1''" by (simp add: example_launch_def)
  from failed_cold_boot_is_parked_terminated [OF env(1) h example_start(3) example_launch_valid example_start(2,4)
      planned_example_ok example_start(5) env(2,3,4) e env(5,6,7)]
  obtain t m' and r' :: sandbox_record where "sup_launch example_silent (Some (launch_obj example_launch)) (sup_state_on []) =
      (t, Inl (SupThrown ''Error: refused''))" "jm_get m' = (jm_get [])(''sbx-a1'' \<mapsto> r')" "sb_phase r' = Terminated"
    "vmms (ss_trace t) = (if is_ok (Inr () :: sup_error + unit) \<and> is_ok (Inl (SupFc example_leak) :: sup_error + unit) then 0 else 1)"
    unfolding id by blast
  then have "vmms (ss_trace t) = 1" by (simp add: is_ok_def)
  then show ?thesis using \<open>sup_launch example_silent (Some (launch_obj example_launch)) (sup_state_on []) =
      (t, Inl (SupThrown ''Error: refused''))\<close> \<open>jm_get m' = (jm_get [])(''sbx-a1'' \<mapsto> r')\<close> \<open>sb_phase r' = Terminated\<close>
    by (intro exI [of _ t] exI [of _ m'] exI [of _ r']) simp
qed

subsection \<open>Reconciliation\<close>

text \<open>
  C3. A reconciliation with nobody else on the journal and nothing in flight converges: every open record ends
  terminated, for the reason \<open>host-restart\<close>, or quarantined with a reason, quarantined whenever the package reported a
  failure for its execution; nothing but its phase, reason, revision and time changes; terminal records and the set of
  sandboxes stay as they were; what the process held of live machines and bridges is dropped, and the summary counts
  the open records.
\<close>

theorem reconcile_converges_every_open_record:
  assumes q: "quiet_env E" and h: "holds (sv_dateFinite E) (ss_file s) m"
    and idle: "\<not> ss_reconciling s" "ss_inflight s = []"
    and bound: "\<forall>(i, r) \<in> set m. sb_revision r + 2 \<le> MAX_SAFE_INTEGER" and pkg: "\<And>n. sv_package E n () = Inr p"
  shows "\<exists>t summary m'. reconcile E s = (t, Inr summary) \<and> holds (sv_dateFinite E) (ss_file t) m'
    \<and> \<not> ss_reconciling t
    \<and> (\<forall>i. jm_get m' i = None \<longleftrightarrow> jm_get m i = None)
    \<and> (\<forall>i r. jm_get m i = Some r \<longrightarrow> (if sb_phase r \<in> {Terminated, Quarantined} then jm_get m' i = Some r
         else \<exists>r'. jm_get m' i = Some r' \<and> core_of r' = core_of r \<and> settled p r'))
    \<and> rs_examined summary = length (filter (\<lambda>e. sb_phase (snd e) \<notin> {Terminated, Quarantined}) m)
    \<and> rs_reclaimed summary + rs_quarantined summary = rs_examined summary
    \<and> (rs_examined summary \<noteq> 0 \<longrightarrow> ss_machines t = [] \<and> ss_exits t = [] \<and> ss_bridges t = []
         \<and> ss_agentPorts t = [] \<and> ss_agentCredentials t = [])"
proof -
  let ?s = "s\<lparr>ss_reconciling := True\<rparr>" and ?le = "\<lambda>a b. sv_collate E (sb_id a) (sb_id b)"
  let ?P = "\<lambda>r. sb_phase r \<notin> set TERMINAL_PHASES"
  have P: "?P r \<longleftrightarrow> sb_phase r \<notin> {Terminated, Quarantined}" for r by (simp add: TERMINAL_PHASES_def)
  define rs where "rs = filter ?P (sort_by ?le (map snd m))"
  note rs = open_records [OF holds_map_ok [OF h] rs_def]
  have len: "length rs = length (filter (\<lambda>e. sb_phase (snd e) \<notin> {Terminated, Quarantined}) m)"
    using rs(3) by (simp add: TERMINAL_PHASES_def)
  have ok: "map_ok (sv_dateFinite E) m" using h by (rule holds_map_ok)
  have start: "reconcile E s = (case reconcileSweep E ?s of (t, r) \<Rightarrow> (t\<lparr>ss_reconciling := False\<rparr>, r))"
    using idle by (simp add: reconcile_def bindS_def readS_def guardS_def ret_def modS_def finallyS_def)
  let ?u = "?s\<lparr>ss_tick := Suc (ss_tick s)\<rparr>"
  have hu: "holds (sv_dateFinite E) (ss_file ?u) m" using h by simp
  have ids: "i \<in> sb_id ` set rs \<longleftrightarrow> ?P r" if "jm_get m i = Some r" for i r
    using rs(2) map_ok_get [OF ok that] that by (force simp: image_iff)
  show ?thesis
  proof (cases "rs = []")
    case True
    let ?none = "\<lparr>rs_examined = 0, rs_killed = 0, rs_reclaimed = 0, rs_quarantined = 0, rs_failures = []\<rparr>"
    have "reconcileSweep E ?s = (?u, Inr ?none)"
      using True by (simp add: reconcileSweep_def bindS_def quiet_storeList [OF q, of ?s m] h rs_def Let_def ret_def)
    then show ?thesis
      using start h ids len True P by (intro exI [of _ "?u\<lparr>ss_reconciling := False\<rparr>"] exI [of _ ?none] exI [of _ m]) auto
  next
    case False
    obtain t xs m' where run: "bindS (forS (markReconciling E) rs) (\<lambda>_. bindS (emit EvPackageReconcile) (\<lambda>_.
        bindS (callS E (sv_package E) ()) (\<lambda>p. bindS (forS (convergeRecord E p) rs) (\<lambda>xs. ret (p, xs))))) ?u = (t, Inr (p, xs))"
      "length xs = length rs" "holds (sv_dateFinite E) (ss_file t) m'" "\<forall>i. jm_get m' i = None \<longleftrightarrow> jm_get m i = None"
      and m': "\<And>i r. jm_get m i = Some r \<Longrightarrow> \<exists>r'. jm_get m' i = Some r' \<and> core_of r' = core_of r
         \<and> (if i \<in> sb_id ` set rs then settled p r' else r' = r)"
      using sweep_passes [OF q hu _ rs(1) bound pkg] rs(2) by blast
    let ?all = "\<lparr>rs_examined = length rs, rs_killed = length (pr_reclaimed p),
        rs_reclaimed = length (filter (\<lambda>x. x = None) xs), rs_quarantined = length (filter (\<lambda>x. x \<noteq> None) xs),
        rs_failures = concat (map (\<lambda>x. case x of None \<Rightarrow> [] | Some f \<Rightarrow> [f]) xs)\<rparr>"
    have "reconcileSweep E ?s = (clear_live t, Inr ?all)"
      using False run(1)
      by (auto simp: reconcileSweep_def bindS_def quiet_storeList [OF q, of ?s m] h rs_def Let_def ret_def modS_def
          split: prod.splits sum.splits)
    moreover have "length (filter (\<lambda>x. x = None) xs) + length (filter (\<lambda>x. x \<noteq> None) xs) = length rs"
      using sum_length_filter_compl [of "\<lambda>x. x = None" xs] run(2) by simp
    moreover have "if sb_phase r \<in> {Terminated, Quarantined} then jm_get m' i = Some r
         else \<exists>r'. jm_get m' i = Some r' \<and> core_of r' = core_of r \<and> settled p r'" if "jm_get m i = Some r" for i r
      using m' [OF that] ids [OF that] P [of r] by auto
    ultimately show ?thesis
      using start run(3,4) len
      by (intro exI [of _ "clear_live t\<lparr>ss_reconciling := False\<rparr>"] exI [of _ ?all] exI [of _ m']) (auto simp: clear_live_def)
  qed
qed

theorem reconcile_converges_every_open_record_witness:
  "\<exists>t summary m' r'. reconcile example_sup (sup_state_on [(''sbx-1'', example_ready)]) = (t, Inr summary)
     \<and> rs_examined summary = 1 \<and> jm_get m' ''sbx-1'' = Some r'
     \<and> settled \<lparr>pr_reclaimed = [], pr_failures = []\<rparr> r'"
proof -
  let ?m = "[(''sbx-1'', example_ready)]" and ?s = "sup_state_on [(''sbx-1'', example_ready)]"
  have h: "holds (sv_dateFinite example_sup) (ss_file ?s) ?m" using example_live_holds by (simp add: example_live_def)
  have idle: "\<not> ss_reconciling ?s" "ss_inflight ?s = []" by (simp_all add: sup_state_on_def)
  have bound: "\<forall>(i, r) \<in> set ?m. sb_revision r + 2 \<le> MAX_SAFE_INTEGER"
    by (simp add: example_ready_fields MAX_SAFE_INTEGER_def)
  have pkg: "sv_package example_sup n () = Inr \<lparr>pr_reclaimed = [], pr_failures = []\<rparr>" for n by (simp add: example_sup_def)
  have r: "jm_get ?m ''sbx-1'' = Some example_ready" by (simp add: jm_get_def)
  from reconcile_converges_every_open_record [OF example_sup_quiet h idle bound pkg]
  obtain t summary m' where run: "reconcile example_sup ?s = (t, Inr summary)"
    and main: "\<And>i r. jm_get ?m i = Some r \<Longrightarrow> (if sb_phase r \<in> {Terminated, Quarantined} then jm_get m' i = Some r
        else \<exists>r'. jm_get m' i = Some r' \<and> core_of r' = core_of r \<and> settled \<lparr>pr_reclaimed = [], pr_failures = []\<rparr> r')"
    and n: "rs_examined summary = length (filter (\<lambda>e. sb_phase (snd e) \<notin> {Terminated, Quarantined}) ?m)"
    by blast
  obtain r' where "jm_get m' ''sbx-1'' = Some r'" "settled \<lparr>pr_reclaimed = [], pr_failures = []\<rparr> r'"
    using main [OF r] by (auto simp: example_ready_fields)
  moreover have "rs_examined summary = 1" using n by (simp add: example_ready_fields)
  ultimately show ?thesis using run by blast
qed

end
