(* ===== verification/Supervisor_Bridges.thy ===== *)
theory Supervisor_Bridges
  imports Supervisor_Runs
begin

text \<open>
  The bridge grants of \<^verbatim>\<open>src/rootd/supervisor_core.ts\<close>: what \<open>openBridge\<close> files, and the life of one
  grant through everything else the supervisor does to its table of bridges.
\<close>

lemma bindS_Inr: "bindS m f s = (t, Inr x) \<longleftrightarrow> (\<exists>u y. m s = (u, Inr y) \<and> f y u = (t, Inr x))"
  by (auto simp: bindS_def split: prod.splits sum.splits)

lemma openBridge_files:
  assumes "openBridge E request s = (t, Inr g)"
  shows "\<exists>v now. validateBridgeRequest request now = Inr v
    \<and> jm_get (ss_bridges t) (bg_bridgeId g) = Some \<lparr>be_grant = g, be_sandboxId = br_sandboxId v,
        be_executionId = br_executionId v, be_consumed = False\<rparr>"
proof -
  obtain v now where "validateBridgeRequest request now = Inr v"
    and "\<exists>u. t = u\<lparr>ss_bridges := jm_set (bg_bridgeId g) \<lparr>be_grant = g, be_sandboxId = br_sandboxId v,
          be_executionId = br_executionId v, be_consumed = False\<rparr> (ss_bridges u)\<rparr>"
    using assms unfolding openBridge_def bindS_Inr nowS_def readS_def
    by (elim exE conjE) (auto simp: validateS_def modS_def ret_def throw_def liftS_def split: sum.splits)
  then show ?thesis by (auto simp: jm_get_set)
qed

text \<open>
  One step of the supervisor, as far as the bridges go, in which no \<open>openBridge\<close> draws the id \<open>i\<close> again: the
  synchronous calls, the revocation at the end of a termination, the reset of the sweep, the last synchronous part of an
  \<open>openBridge\<close>, and everything that leaves the table alone.
\<close>

inductive bridge_step :: "string \<Rightarrow> sup_state \<Rightarrow> sup_state \<Rightarrow> bool" for i where
  take_step: "takeBridgeGrant now j s = (t, r) \<Longrightarrow> bridge_step i s t"
| health_step: "sup_health now s = (t, r) \<Longrightarrow> bridge_step i s t"
| forget_step: "bridge_step i s (forget e s)"
| clear_step: "bridge_step i s (clear_live s)"
| open_step: "j \<noteq> i \<Longrightarrow> bridge_step i s ((purgeExpiredBridges now s)\<lparr>ss_bridges :=
      jm_set j b (ss_bridges (purgeExpiredBridges now s))\<rparr>)"
| other_step: "ss_bridges t = ss_bridges s \<Longrightarrow> bridge_step i s t"

abbreviation bridge_run :: "string \<Rightarrow> sup_state \<Rightarrow> sup_state \<Rightarrow> bool" where
  "bridge_run i \<equiv> (bridge_step i)\<^sup>*\<^sup>*"

text \<open>What holds of the entry under \<open>i\<close> as long as there is one.\<close>

definition bridge_inv :: "string \<Rightarrow> (bridge_entry \<Rightarrow> bool) \<Rightarrow> sup_state \<Rightarrow> bool" where
  "bridge_inv i P s = (jm_ok (ss_bridges s) \<and> pred_option P (jm_get (ss_bridges s) i))"

lemma bridge_inv_filter:
  "bridge_inv i P s \<Longrightarrow> bridge_inv i P (s\<lparr>ss_bridges := jm_filter Q (ss_bridges s)\<rparr>)"
  by (auto simp: bridge_inv_def jm_get_filter jm_ok_jm_filter split: option.splits)

lemma bridge_inv_same: "ss_bridges t = ss_bridges s \<Longrightarrow> bridge_inv i P s \<Longrightarrow> bridge_inv i P t"
  by (simp add: bridge_inv_def)

lemma bridge_inv_set:
  "bridge_inv i P s \<Longrightarrow> (j = i \<Longrightarrow> P b) \<Longrightarrow> bridge_inv i P (s\<lparr>ss_bridges := jm_set j b (ss_bridges s)\<rparr>)"
  by (auto simp: bridge_inv_def jm_get_set jm_ok_set)

lemma bridge_inv_purge: "bridge_inv i P s \<Longrightarrow> bridge_inv i P (purgeExpiredBridges now s)"
  unfolding purgeExpiredBridges_def by (rule bridge_inv_filter)

lemma take_cases:
  "takeBridgeGrant now j s = (let u = purgeExpiredBridges now s in case jm_get (ss_bridges u) j of
       None \<Rightarrow> (u, Inl (SupervisorError SBX_SUP_NOT_FOUND ''the bridge grant does not exist or has expired''))
     | Some b \<Rightarrow> if be_consumed b
         then (u, Inl (SupervisorError SBX_SUP_STATE ''the bridge grant was already consumed''))
         else (u\<lparr>ss_bridges := jm_set j (b\<lparr>be_consumed := True\<rparr>) (ss_bridges u)\<rparr>, Inr (be_grant b)))"
  by (simp add: takeBridgeGrant_def bindS_def modS_def readS_def throw_def ret_def Let_def split: option.split)

lemma bridge_inv_step:
  assumes "bridge_step i s t" and "bridge_inv i P s" and mark: "\<And>b. P b \<Longrightarrow> P (b\<lparr>be_consumed := True\<rparr>)"
  shows "bridge_inv i P t"
  using assms(1)
proof (cases rule: bridge_step.cases)
  case (take_step now j r)
  let ?u = "purgeExpiredBridges now s"
  have u: "bridge_inv i P ?u" using assms(2) by (rule bridge_inv_purge)
  have set: "bridge_inv i P (?u\<lparr>ss_bridges := jm_set j (b\<lparr>be_consumed := True\<rparr>) (ss_bridges ?u)\<rparr>)"
    if "jm_get (ss_bridges ?u) j = Some b" for b
    using u by (rule bridge_inv_set) (use u that mark in \<open>simp add: bridge_inv_def\<close>)
  show ?thesis
    using take_step u set by (auto simp: take_cases Let_def split: option.splits if_splits)
next
  case (health_step now r)
  then have "t = purgeExpiredBridges now s" by (auto simp: sup_health_def bindS_def modS_def readS_def)
  then show ?thesis using assms(2) by (simp add: bridge_inv_purge)
next
  case (forget_step e)
  have "bridge_inv i P (s\<lparr>ss_bridges := jm_filter (\<lambda>b. be_executionId b \<noteq> e) (ss_bridges s)\<rparr>)"
    using assms(2) by (rule bridge_inv_filter)
  then show ?thesis by (rule bridge_inv_same [rotated]) (simp add: forget_step forget_def revokeBridges_def)
next
  case clear_step
  then show ?thesis by (simp add: clear_live_def bridge_inv_def)
next
  case (open_step j b now)
  show ?thesis
    unfolding open_step(1) by (rule bridge_inv_set [OF bridge_inv_purge [OF assms(2)]]) (use open_step(2) in simp)
next
  case other_step
  then show ?thesis using assms(2) by (rule bridge_inv_same)
qed

lemma bridge_inv_run:
  "bridge_run i s t \<Longrightarrow> bridge_inv i P s \<Longrightarrow> (\<And>b. P b \<Longrightarrow> P (b\<lparr>be_consumed := True\<rparr>)) \<Longrightarrow> bridge_inv i P t"
  by (induction rule: rtranclp_induct) (auto intro: bridge_inv_step)

lemma take_consumed_fails:
  assumes "bridge_inv i be_consumed s"
  shows "\<exists>t code text. takeBridgeGrant now i s = (t, Inl (SupervisorError code text))"
  using bridge_inv_purge [OF assms, of now]
  by (auto simp: take_cases Let_def bridge_inv_def split: option.splits)

lemma take_taken:
  assumes "takeBridgeGrant now i s = (t, Inr g)" and "jm_ok (ss_bridges s)"
  shows "now < bg_expiresAtUnixMs g \<and> (\<exists>b. jm_get (ss_bridges s) i = Some b \<and> be_grant b = g)
    \<and> bridge_inv i be_consumed t"
  using assms
  by (auto simp: take_cases Let_def purgeExpiredBridges_def jm_get_filter bridge_inv_def jm_get_set jm_ok_set
      jm_ok_jm_filter split: option.splits if_splits)

text \<open>
  C6. A bridge grant is one-shot. After \<open>openBridge\<close> returned a grant, and through any further calls, terminations,
  sweeps and bridges opened under other ids: a take of its id returns that very grant, only before its expiry, and once
  it did, every later take fails; and once the execution it was opened for is forgotten, every take fails too.
\<close>

theorem bridge_grant_is_one_shot:
  assumes "openBridge E request s = (t, Inr g)" and "jm_ok (ss_bridges t)"
  shows "(\<forall>u now v g'. bridge_run (bg_bridgeId g) t u \<and> takeBridgeGrant now (bg_bridgeId g) u = (v, Inr g') \<longrightarrow>
        g' = g \<and> now < bg_expiresAtUnixMs g
        \<and> (\<forall>w later. bridge_run (bg_bridgeId g) v w \<longrightarrow>
             (\<exists>x code text. takeBridgeGrant later (bg_bridgeId g) w = (x, Inl (SupervisorError code text)))))
    \<and> (\<exists>b. jm_get (ss_bridges t) (bg_bridgeId g) = Some b \<and> (\<forall>u w later. bridge_run (bg_bridgeId g) t u
        \<and> bridge_run (bg_bridgeId g) (forget (be_executionId b) u) w \<longrightarrow>
             (\<exists>x code text. takeBridgeGrant later (bg_bridgeId g) w = (x, Inl (SupervisorError code text)))))"
proof -
  let ?i = "bg_bridgeId g"
  obtain b where b: "jm_get (ss_bridges t) ?i = Some b" "be_grant b = g"
    using openBridge_files [OF assms(1)] by auto
  let ?P = "\<lambda>b'. be_grant b' = g \<and> be_executionId b' = be_executionId b"
  have own: "bridge_inv ?i ?P u" if "bridge_run ?i t u" for u
    using that by (rule bridge_inv_run) (use b assms(2) in \<open>simp_all add: bridge_inv_def\<close>)
  have spent: "\<exists>x code text. takeBridgeGrant later ?i w = (x, Inl (SupervisorError code text))"
    if "bridge_inv ?i be_consumed v" "bridge_run ?i v w" for v w later
    by (rule take_consumed_fails, rule bridge_inv_run [OF that(2,1)]) simp
  have "g' = g \<and> now < bg_expiresAtUnixMs g
        \<and> (\<forall>w later. bridge_run ?i v w \<longrightarrow> (\<exists>x code text. takeBridgeGrant later ?i w = (x, Inl (SupervisorError code text))))"
    if "bridge_run ?i t u" "takeBridgeGrant now ?i u = (v, Inr g')" for u now v g'
    using take_taken [OF that(2)] own [OF that(1)] spent by (auto simp: bridge_inv_def)
  moreover have "bridge_inv ?i be_consumed (forget (be_executionId b) u)" if "bridge_run ?i t u" for u
    using own [OF that]
    by (auto simp: bridge_inv_def forget_def revokeBridges_def jm_get_filter jm_ok_jm_filter split: option.splits)
  ultimately show ?thesis using b(1) spent by blast
qed

definition example_bridge :: sup_bridge_request where
  "example_bridge = \<lparr>br_sandboxId = ''sbx-1'', br_executionId = ''sbx-e1'', br_leaseId = ''l-1'',
     br_leaseGeneration = 1, br_tunnelNonce = replicate 32 3, br_expiresAtUnixMs = 2000\<rparr>"

lemma example_bridge_valid: "validateBridgeRequest (Some (bridge_request_obj example_bridge)) 1000 = Inr example_bridge"
  by code_simp

definition example_grant :: bridge_grant where
  "example_grant = new_grant ''0123-ab'' (replicate 32 1) (replicate 32 1) 2000"

lemma example_grant_fields:
  "bg_bridgeId example_grant = ''b-0123ab''" "bg_socketPath example_grant = ''/run/studiobox/b/b-0123ab''"
  "bg_bridgeCredential example_grant = replicate 32 1" "bg_agentCredential example_grant = replicate 32 1"
  "bg_expiresAtUnixMs example_grant = 2000"
  by (simp_all add: example_grant_def new_grant_def Let_def BRIDGE_SOCKET_ROOT_def)

lemma example_path_valid:
  "validateBridgeSocketPath (WStr ''/run/studiobox/b/b-0123ab'') = Inr ''/run/studiobox/b/b-0123ab''"
  by (simp add: validateBridgeSocketPath_def BRIDGE_SOCKET_ROOT_def assertBoundedText_def byteLength_Cons code_def
     UNIX_SOCKET_PATH_MAX_BYTES_def err_simps BRIDGE_ID_def led_id_def startsWith_def containsAsciiControl_def
     alnum_hyphen_def is_alnum_def is_digit_def is_lower_def is_upper_def)

lemma example_bridge_id: "BRIDGE_ID ''b-0123ab''"
  by (simp add: BRIDGE_ID_def led_id_def startsWith_def alnum_hyphen_def is_alnum_def is_digit_def is_lower_def is_upper_def code_def)

lemma example_grant_valid: "validateBridgeGrant (Some (grant_obj example_grant)) 1000 = Inr example_grant"
proof -
  have eq: "example_grant = \<lparr>bg_bridgeId = ''b-0123ab'', bg_socketPath = ''/run/studiobox/b/b-0123ab'',
     bg_bridgeCredential = replicate 32 1, bg_agentCredential = replicate 32 1, bg_expiresAtUnixMs = 2000\<rparr>"
    using example_grant_fields by simp
  show ?thesis
    by (simp add: eq [symmetric] example_grant_fields validateBridgeGrant_def grant_obj_def assertExactKeys_def assertWireKeys_def err_simps wget_def
        assertPattern_def example_bridge_id example_path_valid assertExactBytes_def assertByteRange_def assertSafeTimestamp_def
        within_bridge_ttl_def MAX_BRIDGE_TTL_MS_def orElse_def MAX_SAFE_INTEGER_def)
qed
lemma example_opened:
  "\<exists>t. openBridge example_sup (Some (bridge_request_obj example_bridge)) example_live = (t, Inr example_grant)
     \<and> ss_bridges t = [(bg_bridgeId example_grant, \<lparr>be_grant = example_grant, be_sandboxId = ''sbx-1'',
          be_executionId = ''sbx-e1'', be_consumed = False\<rparr>)]"
proof -
  let ?s = "example_live\<lparr>ss_tick := 1\<rparr>"
  have run: "byExecution example_sup ''sbx-e1'' example_live = (?s, Inr example_ready)"
    using quiet_byExecution [OF example_sup_quiet example_live_holds, where i = "''sbx-1''"] example_id
    by (simp add: jm_get_def example_live_def sup_state_on_def)
  have live: "requireReadyAndLive example_ready ''sbx-e1'' op ?s = (?s, Inr ())" for op
    by (simp add: requireReadyAndLive_def bindS_def guardS_def ret_def readS_def example_ready_fields example_live_def
        sup_state_on_def jm_has_def jm_get_def)
  have env: "sv_now example_sup = (\<lambda>_. 1000)" "sv_uuid example_sup = (\<lambda>_. ''0123-ab'')"
    "sv_random example_sup = (\<lambda>_. replicate 32 1)" by (simp_all add: example_sup_def)
  have b: "br_executionId example_bridge = ''sbx-e1''" "br_sandboxId example_bridge = ''sbx-1''"
    "br_expiresAtUnixMs example_bridge = 2000" by (simp_all add: example_bridge_def)
  have s: "ss_bridges ?s = []" "ss_agentCredentials ?s = []" "\<not> ss_reconciling example_live"
    by (simp_all add: example_live_def sup_state_on_def)
  show ?thesis
    using run live env s
    by (simp add: openBridge_def bindS_def rejectDuringReconcile_def readS_def guardS_def ret_def nowS_def validateS_def
        example_bridge_valid example_ready_fields liftS_def modS_def b orElse_def example_grant_def [symmetric]
        example_grant_fields(2) example_path_valid example_grant_valid purgeExpiredBridges_def jm_filter_def)
qed

theorem bridge_grant_is_one_shot_witness:
  "\<exists>t u x code text. openBridge example_sup (Some (bridge_request_obj example_bridge)) example_live = (t, Inr example_grant)
     \<and> takeBridgeGrant 1500 (bg_bridgeId example_grant) t = (u, Inr example_grant)
     \<and> takeBridgeGrant 1600 (bg_bridgeId example_grant) u = (x, Inl (SupervisorError code text))"
proof -
  obtain t where t: "openBridge example_sup (Some (bridge_request_obj example_bridge)) example_live = (t, Inr example_grant)"
    "ss_bridges t = [(bg_bridgeId example_grant, \<lparr>be_grant = example_grant, be_sandboxId = ''sbx-1'',
        be_executionId = ''sbx-e1'', be_consumed = False\<rparr>)]"
    using example_opened by blast
  have exp: "bg_expiresAtUnixMs example_grant = 2000" by (simp add: example_grant_def new_grant_def Let_def)
  have "\<exists>u. takeBridgeGrant 1500 (bg_bridgeId example_grant) t = (u, Inr example_grant)"
    by (simp add: take_cases Let_def purgeExpiredBridges_def t(2) jm_filter_def jm_get_def exp)
  moreover have "jm_ok (ss_bridges t)" by (simp add: t(2) jm_ok_def)
  ultimately show ?thesis
    using bridge_grant_is_one_shot [OF t(1)] t(1) by blast
qed

end
