(* ===== verification/Supervisor_Forwards.thy ===== *)
theory Supervisor_Forwards
  imports Supervisor_Bridges
begin

text \<open>
  The port forwards of \<^verbatim>\<open>src/rootd/supervisor_core.ts\<close>: an undisturbed \<open>exposeHttp\<close>, step by step.
\<close>

lemma add_forward_ports:
  assumes "ports_ok ps" and "40100 \<le> h" "h \<le> 40199" "1 \<le> g" "g \<le> 65535"
  shows "ports_ok (add_forward h g ps)"
  using assms by (auto simp: ports_ok_def add_forward_def list_ex_iff)

text \<open>What has to hold for \<open>exposeHttp\<close> to reach the installer.\<close>

definition exposable :: "sup_env \<Rightarrow> record_map \<Rightarrow> string \<Rightarrow> string \<Rightarrow> sandbox_record \<Rightarrow> sup_state \<Rightarrow> bool" where
  "exposable E m i e r s = (quiet_env E \<and> holds (sv_dateFinite E) (ss_file s) m \<and> jm_get m i = Some r
     \<and> only_on m e r \<and> jail_id_ok e \<and> sb_phase r = Ready \<and> jm_has (ss_machines s) e \<and> \<not> jm_has (ss_exits s) e
     \<and> \<not> ss_reconciling s \<and> sb_revision r + 1 \<le> MAX_SAFE_INTEGER
     \<and> (\<exists>tap alloc. sr_tapName (sb_resources r) = Some tap \<and> alloc_of_tap tap = Inr alloc)
     \<and> sr_guestIp (sb_resources r) \<noteq> None \<and> sr_hostIp (sb_resources r) \<noteq> None)"

definition forwarded :: "int \<Rightarrow> int \<Rightarrow> sandbox_record \<Rightarrow> sandbox_record" where
  "forwarded h g r = r\<lparr>sb_resources := (sb_resources r)\<lparr>sr_exposedPorts :=
     add_forward h g (sr_exposedPorts (sb_resources r))\<rparr>\<rparr>"

lemma forwarded_fields [simp]:
  "sb_id (forwarded h g r) = sb_id r" "sb_phase (forwarded h g r) = sb_phase r"
  "sb_machine (forwarded h g r) = sb_machine r" "sb_revision (forwarded h g r) = sb_revision r"
  by (simp_all add: forwarded_def)

lemma journal_forward_ok:
  "writer_owns e r \<Longrightarrow> journal_forward e g h r = Inr (forwarded h g r)"
  by (simp add: journal_forward_def forwarded_def assertWriterOwns_ok)

lemma quiet_doExposeHttp:
  assumes x: "exposable E m i e r s" and port: "40100 \<le> h" "h \<le> 40199" "1 \<le> g" "g \<le> 65535"
    and ok: "\<And>n a. ex n a = Inr ()"
  shows "\<exists>t r'. doExposeHttp E ex un e g h s = (t, Inr ())
    \<and> ss_trace t = ss_trace s @ [EvForward (add_forward h g (sr_exposedPorts (sb_resources r))), EvJournal r r']
    \<and> holds (sv_dateFinite E) (ss_file t) (jm_set i r' m)
    \<and> (\<exists>now. r' = (forwarded h g r)\<lparr>sb_revision := sb_revision r + 1, sb_updatedAt := now\<rparr>)"
proof -
  let ?fs = "add_forward h g (sr_exposedPorts (sb_resources r))"
  have q: "quiet_env E" and hm: "holds (sv_dateFinite E) (ss_file s) m" and r: "jm_get m i = Some r"
    and on: "only_on m e r" "jail_id_ok e" and live: "sb_phase r = Ready" "jm_has (ss_machines s) e" "\<not> jm_has (ss_exits s) e"
    using x by (simp_all add: exposable_def)
  have id: "sb_id r = i" "record_ok (sv_dateFinite E) r" using map_ok_get [OF holds_map_ok [OF hm] r] by auto
  obtain tap alloc gip hip where tap: "sr_tapName (sb_resources r) = Some tap" "alloc_of_tap tap = Inr alloc"
    "sr_guestIp (sb_resources r) = Some gip" "sr_hostIp (sb_resources r) = Some hip"
    using x by (auto simp: exposable_def)
  let ?u = "s\<lparr>ss_trace := ss_trace s @ [EvForward ?fs], ss_tick := Suc (Suc (ss_tick s))\<rparr>"
  let ?r = "stamped E ?u r (forwarded h g r)"
  have own: "writer_owns e r"
    using on(1) live(1) by (simp add: writer_owns_def only_on_def RECONCILED_PHASES_def)
  have "ports_ok ?fs" using id(2) port by (intro add_forward_ports) (auto simp: record_ok_def resources_ok_def)
  then have ok': "record_ok (sv_dateFinite E) ?r"
    using id(2) x by (simp add: record_ok_def stamped_def forwarded_def resources_ok_def exposable_def quiet_env_def)
  have hu: "holds (sv_dateFinite E) (ss_file ?u) m" using hm by simp
  have upd: "sup_update E i (journal_forward e g h) ?u = (?u\<lparr>ss_tick := Suc (Suc (ss_tick ?u)),
      ss_file := Content (state_json (jm_set i ?r m)), ss_trace := ss_trace ?u @ [EvJournal r ?r]\<rparr>, Inr ?r)"
    using quiet_update [where mutate = "journal_forward e g h", OF q hu r journal_forward_ok [OF own] _ ok'] id(1) by simp
  have ready: "requireReadyAndLive r e op (s\<lparr>ss_tick := n\<rparr>) = (s\<lparr>ss_tick := n\<rparr>, Inr ())" for op n
    using live by (simp add: requireReadyAndLive_def bindS_def guardS_def ret_def readS_def)
  let ?t = "?u\<lparr>ss_tick := Suc (Suc (ss_tick ?u)), ss_file := Content (state_json (jm_set i ?r m)),
      ss_trace := ss_trace ?u @ [EvJournal r ?r]\<rparr>"
  have run: "doExposeHttp E ex un e g h s = (?t, Inr ())"
    using upd ready
    by (simp add: doExposeHttp_def bindS_def quiet_byExecution [OF q hm r on] tap liftS_def emit_def modS_def
        catchS_def quiet_call [OF q] ok id(1) ret_def Let_def)
  have "map_ok (sv_dateFinite E) (jm_set i ?r m)"
    by (rule map_ok_set [OF holds_map_ok [OF hm] ok']) (simp add: stamped_def id)
  then have "holds (sv_dateFinite E) (ss_file ?t) (jm_set i ?r m)" by (simp add: holds_write)
  then show ?thesis
    by (intro exI [of _ ?t] exI [of _ ?r] conjI run) (auto simp: stamped_def)
qed

lemma quiet_exposeHttp:
  assumes x: "exposable E m i e r s" and port: "40100 \<le> h" "h \<le> 40199" "1 \<le> g" "g \<le> 65535"
    and inst: "sv_expose E = Some (ex, un)" "\<And>n a. ex n a = Inr ()"
  shows "\<exists>t r'. exposeHttp E e g h s = (t, Inr ())
    \<and> ss_trace t = ss_trace s @ [EvForward (add_forward h g (sr_exposedPorts (sb_resources r))), EvJournal r r']
    \<and> holds (sv_dateFinite E) (ss_file t) (jm_set i r' m)
    \<and> (\<exists>now. r' = (forwarded h g r)\<lparr>sb_revision := sb_revision r + 1, sb_updatedAt := now\<rparr>)"
proof -
  let ?tail = "ss_tick s"
  let ?s = "s\<lparr>ss_exposeChain := jm_set e ?tail (ss_exposeChain s), ss_tick := Suc (ss_tick s)\<rparr>"
  have q: "quiet_env E" and free: "\<not> ss_reconciling s" using x by (simp_all add: exposable_def)
  have "exposable E m i e r ?s" using x by (simp add: exposable_def)
  from quiet_doExposeHttp [OF this port, of ex un] inst(2) obtain t r' where t: "doExposeHttp E ex un e g h ?s = (t, Inr ())"
    "ss_trace t = ss_trace s @ [EvForward (add_forward h g (sr_exposedPorts (sb_resources r))), EvJournal r r']"
    "holds (sv_dateFinite E) (ss_file t) (jm_set i r' m)"
    "\<exists>now. r' = (forwarded h g r)\<lparr>sb_revision := sb_revision r + 1, sb_updatedAt := now\<rparr>" by auto
  let ?t = "if jm_get (ss_exposeChain t) e = Some ?tail then t\<lparr>ss_exposeChain := jm_delete e (ss_exposeChain t)\<rparr> else t"
  have "exposeHttp E e g h s = (?t, Inr ())"
    using t(1) free
    by (simp add: exposeHttp_def rejectDuringReconcile_def bindS_def readS_def guardS_def ret_def inst withExposeLock_def
        finallyS_def modS_def awaitS_def quiet_await [OF q] Let_def)
  then show ?thesis using t by (intro exI [of _ ?t] exI [of _ r'] conjI) auto
qed

text \<open>
  C7. What an undisturbed \<open>exposeHttp\<close> installs and journals for a running sandbox with a network. The table it installs
  and the one it then journals are the same; they keep every forward there was; a new host port is added with its guest
  port, and nothing else of the record changes. A host port that was journaled before keeps its old guest port, although
  the call succeeds: when the two guest ports differ, no forward to the requested one is installed.
\<close>

theorem expose_installs_what_it_journals:
  assumes "exposable E m i e r s" and "40100 \<le> h" "h \<le> 40199" "1 \<le> g" "g \<le> 65535"
    and "sv_expose E = Some (ex, un)" "\<And>n a. ex n a = Inr ()"
  shows "\<exists>t fs r' now m'. exposeHttp E e g h s = (t, Inr ())
    \<and> ss_trace t = ss_trace s @ [EvForward fs, EvJournal r r']
    \<and> holds (sv_dateFinite E) (ss_file t) m' \<and> jm_get m' = (jm_get m)(i \<mapsto> r')
    \<and> r' = r\<lparr>sb_resources := (sb_resources r)\<lparr>sr_exposedPorts := fs\<rparr>, sb_revision := sb_revision r + 1,
        sb_updatedAt := now\<rparr>
    \<and> set (sr_exposedPorts (sb_resources r)) \<subseteq> set fs
    \<and> (h \<notin> ep_hostPort ` set (sr_exposedPorts (sb_resources r)) \<longrightarrow>
         fs = sr_exposedPorts (sb_resources r) @ [\<lparr>ep_hostPort = h, ep_guestPort = g\<rparr>])
    \<and> (\<forall>g0. g0 \<noteq> g \<and> \<lparr>ep_hostPort = h, ep_guestPort = g0\<rparr> \<in> set (sr_exposedPorts (sb_resources r)) \<longrightarrow>
         fs = sr_exposedPorts (sb_resources r) \<and> \<lparr>ep_hostPort = h, ep_guestPort = g\<rparr> \<notin> set fs)"
proof -
  let ?ps = "sr_exposedPorts (sb_resources r)"
  from quiet_exposeHttp [OF assms] obtain t r' now where t: "exposeHttp E e g h s = (t, Inr ())"
    "ss_trace t = ss_trace s @ [EvForward (add_forward h g ?ps), EvJournal r r']"
    "holds (sv_dateFinite E) (ss_file t) (jm_set i r' m)"
    "r' = (forwarded h g r)\<lparr>sb_revision := sb_revision r + 1, sb_updatedAt := now\<rparr>" by blast
  have "record_ok (sv_dateFinite E) r"
    using assms(1) map_ok_get holds_map_ok unfolding exposable_def by blast
  then have "distinct (map ep_hostPort ?ps)" by (simp add: record_ok_def resources_ok_def ports_ok_def)
  then have uniq: "p = q" if "p \<in> set ?ps" "q \<in> set ?ps" "ep_hostPort p = ep_hostPort q" for p q
    using that by (auto simp: distinct_map inj_on_def)
  have old: "add_forward h g ?ps = ?ps \<and> \<lparr>ep_hostPort = h, ep_guestPort = g\<rparr> \<notin> set ?ps"
    if "g0 \<noteq> g" "\<lparr>ep_hostPort = h, ep_guestPort = g0\<rparr> \<in> set ?ps" for g0
  proof -
    have "list_ex (\<lambda>p. ep_hostPort p = h) ?ps" using that(2) by (force simp: list_ex_iff)
    moreover have "\<lparr>ep_hostPort = h, ep_guestPort = g\<rparr> \<notin> set ?ps"
      using uniq [OF that(2), of "\<lparr>ep_hostPort = h, ep_guestPort = g\<rparr>"] that(1) by auto
    ultimately show ?thesis by (simp add: add_forward_def)
  qed
  have grows: "set ?ps \<subseteq> set (add_forward h g ?ps)" by (auto simp: add_forward_def)
  have new: "add_forward h g ?ps = ?ps @ [\<lparr>ep_hostPort = h, ep_guestPort = g\<rparr>]" if "h \<notin> ep_hostPort ` set ?ps"
    using that by (auto simp: add_forward_def list_ex_iff)
  have r': "r' = r\<lparr>sb_resources := (sb_resources r)\<lparr>sr_exposedPorts := add_forward h g ?ps\<rparr>,
      sb_revision := sb_revision r + 1, sb_updatedAt := now\<rparr>" using t(4) by (simp add: forwarded_def)
  have m': "jm_get (jm_set i r' m) = (jm_get m)(i \<mapsto> r')" by (simp add: jm_get_set)
  show ?thesis
    by (rule exI [of _ t], rule exI [of _ "add_forward h g ?ps"], rule exI [of _ r'], rule exI [of _ now],
        rule exI [of _ "jm_set i r' m"], intro conjI t(1-3) m' r' grows allI impI) (use old new in auto)
qed

lemma example_exposable: "exposable example_sup [(''sbx-1'', example_ready)] ''sbx-1'' ''sbx-e1'' example_ready example_live"
proof -
  have "dec 3 = ''3''" by code_simp
  then have "slotOfTapName ''sbxtap3'' = Inr 3"
    using slotOfTapName_dec [of 3] by (simp add: TAP_NAME_PREFIX_def)
  moreover have "subnetForSlot (NumInt 3) DEFAULT_POOL_CIDR = Inr (computeAllocation 3 10 201)"
    by (simp add: subnetForSlot_def slot_in_range_def default_pool SLOT_COUNT_def
        SUBNET_PREFIX_def POOL_PREFIX_def)
  ultimately have "\<exists>a. alloc_of_tap ''sbxtap3'' = Inr a" by (auto simp: alloc_of_tap_def)
  then show ?thesis
    using example_sup_quiet example_live_holds example_id
    by (simp add: exposable_def example_ready_fields example_resources_def example_live_def sup_state_on_def jm_has_def
        jm_get_def MAX_SAFE_INTEGER_def)
qed

theorem expose_installs_what_it_journals_witness:
  "\<exists>t fs. exposeHttp example_sup ''sbx-e1'' 9000 40100 example_live = (t, Inr ())
     \<and> fs = sr_exposedPorts (sb_resources example_ready) \<and> \<lparr>ep_hostPort = 40100, ep_guestPort = 8000\<rparr> \<in> set fs
     \<and> (\<exists>r'. ss_trace t = [EvForward fs, EvJournal example_ready r'])"
proof -
  have inst: "sv_expose example_sup = Some (\<lambda>_ _. Inr (), \<lambda>_ _. Inr ())" by (simp add: example_sup_def)
  have old: "\<lparr>ep_hostPort = 40100, ep_guestPort = 8000\<rparr> \<in> set (sr_exposedPorts (sb_resources example_ready))"
    by (simp add: example_ready_fields example_resources_def)
  have start: "ss_trace example_live = []" by (simp add: example_live_def sup_state_on_def)
  let ?ps = "sr_exposedPorts (sb_resources example_ready)"
  have "(40100 :: int) \<le> 40100" "(40100 :: int) \<le> 40199" "(1 :: int) \<le> 9000" "(9000 :: int) \<le> 65535" by simp_all
  from expose_installs_what_it_journals [OF example_exposable this inst]
  obtain t fs r' where t: "exposeHttp example_sup ''sbx-e1'' 9000 40100 example_live = (t, Inr ())"
    "ss_trace t = ss_trace example_live @ [EvForward fs, EvJournal example_ready r']"
    and fs: "\<And>g0. g0 \<noteq> 9000 \<and> \<lparr>ep_hostPort = 40100, ep_guestPort = g0\<rparr> \<in> set ?ps \<Longrightarrow> fs = ?ps" by blast
  have "fs = ?ps" by (rule fs [of 8000]) (use old in simp)
  then show ?thesis using t old start by (intro exI [of _ t] exI [of _ fs]) auto
qed

end
