(* ===== verification/Egress_Spec.thy ===== *)
theory Egress_Spec
  imports Sandbox_Model
begin

text \<open>
  \<^verbatim>\<open>src/rootd/network/spec.ts\<close>: the grammar of \<open>allowNet\<close>. An entry is what arrives at run time
  (\<open>jsval\<close>), and an error carries its code and the excerpt of the entry.
\<close>

definition MAX_ENTRY_BYTES :: nat where
  "MAX_ENTRY_BYTES = 300"

definition MAX_HOSTNAME_LENGTH :: nat where
  "MAX_HOSTNAME_LENGTH = 253"

definition MAX_ENTRIES :: nat where
  "MAX_ENTRIES = 1024"

datatype egress_spec_code =
    SBX_EGRESS_SPEC_SHAPE | SBX_EGRESS_SPEC_ENTRY | SBX_EGRESS_SPEC_HOST | SBX_EGRESS_SPEC_PORT

record egress_spec_error =
  es_code :: egress_spec_code
  es_entry :: "string option"

definition egressSpecError :: "egress_spec_code \<Rightarrow> string option \<Rightarrow> egress_spec_error" where
  "egressSpecError c entry = \<lparr>es_code = c, es_entry = map_option (take 64) entry\<rparr>"

datatype host_kind = ExactHost | WildcardHost

datatype ip_family = V4 | V6

datatype egress_pattern =
    HostPattern host_kind string "nat option"
  | IpPattern ip_family string "nat option"

datatype egress_spec = Unrestricted | Restricted "egress_pattern list"

subsection \<open>Ports and literals\<close>

definition countChar :: "string \<Rightarrow> char \<Rightarrow> nat" where
  "countChar s c = length (filter (\<lambda>x. x = c) s)"

definition parsePort :: "string \<Rightarrow> string \<Rightarrow> egress_spec_error + nat" where
  "parsePort portRaw entry =
     (if \<not> (1 \<le> length portRaw \<and> length portRaw \<le> 5 \<and> list_all is_digit portRaw)
      then Inl (egressSpecError SBX_EGRESS_SPEC_PORT (Some entry))
      else (let port = parse_dec portRaw
            in if port < 1 \<or> 65535 < port then Inl (egressSpecError SBX_EGRESS_SPEC_PORT (Some entry))
               else Inr port))"

text \<open>\<open>/^(0|[1-9][0-9]{0,2})$/\<close>, and at most 255.\<close>

definition ipv4_part :: "string \<Rightarrow> bool" where
  "ipv4_part part = ((part = ''0'' \<or> (part \<noteq> [] \<and> length part \<le> 3 \<and> list_all is_digit part \<and> hd part \<noteq> CHR ''0''))
     \<and> parse_dec part \<le> 255)"

definition isIpv4 :: "string \<Rightarrow> bool" where
  "isIpv4 host = (let parts = split_on CHR ''.'' host in length parts = 4 \<and> list_all ipv4_part parts)"

definition hex_group :: "string \<Rightarrow> bool" where
  "hex_group g = (1 \<le> length g \<and> length g \<le> 4 \<and> list_all is_hex_lower g)"

definition groups_of :: "string \<Rightarrow> string list" where
  "groups_of s = (if s = [] then [] else split_on CHR '':'' s)"

text \<open>The loop over the groups: what is left of them, and the number of 16-bit groups seen so far.\<close>

fun ipv6_groups :: "string list \<Rightarrow> nat \<Rightarrow> nat option" where
  "ipv6_groups [] n = Some n"
| "ipv6_groups (g # gs) n =
     (if g = [] then None
      else if CHR ''.'' \<in> set g
      then (if gs \<noteq> [] then None else if isIpv4 g then ipv6_groups gs (n + 1) else None)
      else if hex_group g then ipv6_groups gs n else None)"

definition ipv6_char :: "char \<Rightarrow> bool" where
  "ipv6_char c = (is_hex_lower c \<or> c = CHR '':'' \<or> c = CHR ''.'')"

definition isIpv6 :: "string \<Rightarrow> bool" where
  "isIpv6 host =
     (if host = [] \<or> 45 < length host then False
      else if \<not> list_all ipv6_char host then False
      else if indexOf host ''::'' \<noteq> lastIndexOf host ''::'' then False
      else (let (compressed, head, tail) = (case indexOf host ''::'' of
                  Some i \<Rightarrow> (True, take i host, drop (i + 2) host) | None \<Rightarrow> (False, host, []));
                groups = groups_of head @ groups_of tail
            in case ipv6_groups groups (length groups) of
                 None \<Rightarrow> False
               | Some n \<Rightarrow> if compressed then n \<le> 7 else n = 8))"

definition parseIpLiteral :: "string \<Rightarrow> (ip_family \<times> string) option" where
  "parseIpLiteral host =
     (if isIpv4 host then Some (V4, host)
      else if isIpv6 (toLowerCase host) then Some (V6, toLowerCase host) else None)"

subsection \<open>Hosts\<close>

text \<open>\<open>/^[a-z0-9]([a-z0-9-]{0,61}[a-z0-9])?$/i\<close>\<close>

definition dns_label :: "string \<Rightarrow> bool" where
  "dns_label l = (1 \<le> length l \<and> length l \<le> 63 \<and> list_all (\<lambda>c. is_alnum c \<or> c = CHR ''-'') l
     \<and> is_alnum (hd l) \<and> is_alnum (last l))"

definition isHostname :: "string \<Rightarrow> bool" where
  "isHostname host =
     (let name = (if endsWith host ''.'' then butlast host else host)
      in name \<noteq> [] \<and> length name \<le> MAX_HOSTNAME_LENGTH \<and> list_all dns_label (split_on CHR ''.'' name))"

definition classifyHost :: "string \<Rightarrow> string \<Rightarrow> egress_spec_error + host_kind \<times> string" where
  "classifyHost host entry =
     (if startsWith host ''*.''
      then bindE (requireE (isHostname (drop 2 host)) (egressSpecError SBX_EGRESS_SPEC_HOST (Some entry)))
             (\<lambda>_. Inr (WildcardHost, toLowerCase (drop 2 host)))
      else bindE (requireE (isHostname host) (egressSpecError SBX_EGRESS_SPEC_HOST (Some entry)))
             (\<lambda>_. Inr (ExactHost, toLowerCase host)))"

subsection \<open>Entries\<close>

text \<open>The host, the port if any, and whether the host has to be an IPv6 literal.\<close>

definition splitHostPort :: "string \<Rightarrow> egress_spec_error + string \<times> string option \<times> bool" where
  "splitHostPort entry =
     (if startsWith entry ''[''
      then (case indexOf entry '']'' of
              None \<Rightarrow> Inl (egressSpecError SBX_EGRESS_SPEC_ENTRY (Some entry))
            | Some close \<Rightarrow>
                (let hostRaw = drop 1 (take close entry); rest = drop (close + 1) entry
                 in if rest = [] then Inr (hostRaw, None, True)
                    else if \<not> startsWith rest '':'' then Inl (egressSpecError SBX_EGRESS_SPEC_ENTRY (Some entry))
                    else Inr (hostRaw, Some (drop 1 rest), True)))
      else (let colons = countChar entry CHR '':''
            in if colons = 0 then Inr (entry, None, False)
               else if colons = 1
               then (case indexOf entry '':'' of
                       Some idx \<Rightarrow> Inr (take idx entry, Some (drop (idx + 1) entry), False)
                     | None \<Rightarrow> Inr (entry, None, False))
               else Inr (entry, None, True)))"

definition parse_text :: "string \<Rightarrow> egress_spec_error + egress_pattern" where
  "parse_text entry =
     bindE (requireE (entry \<noteq> [] \<and> length entry \<le> MAX_ENTRY_BYTES)
       (egressSpecError SBX_EGRESS_SPEC_ENTRY (Some entry))) (\<lambda>_.
     bindE (splitHostPort entry) (\<lambda>(hostRaw, portRaw, forceIpv6).
     bindE (case portRaw of None \<Rightarrow> Inr None
            | Some p \<Rightarrow> bindE (parsePort p entry) (\<lambda>n. Inr (Some n))) (\<lambda>port.
       case parseIpLiteral hostRaw of
         Some (family, address) \<Rightarrow> Inr (IpPattern family address port)
       | None \<Rightarrow>
           bindE (requireE (\<not> forceIpv6) (egressSpecError SBX_EGRESS_SPEC_HOST (Some entry))) (\<lambda>_.
           bindE (classifyHost hostRaw entry) (\<lambda>(kind, host). Inr (HostPattern kind host port))))))"

definition parseEntry :: "jsval \<Rightarrow> egress_spec_error + egress_pattern" where
  "parseEntry entry = (case entry of JStr s \<Rightarrow> parse_text s | _ \<Rightarrow> Inl (egressSpecError SBX_EGRESS_SPEC_ENTRY None))"

definition parseAllowNet :: "jsval \<Rightarrow> egress_spec_error + egress_spec" where
  "parseAllowNet input = (case input of
      JUndef \<Rightarrow> Inr Unrestricted
    | JArr entries \<Rightarrow>
        bindE (requireE (length entries \<le> MAX_ENTRIES) (egressSpecError SBX_EGRESS_SPEC_SHAPE None)) (\<lambda>_.
        bindE (mapE parseEntry entries) (\<lambda>patterns. Inr (Restricted patterns)))
    | _ \<Rightarrow> Inl (egressSpecError SBX_EGRESS_SPEC_SHAPE None))"

subsection \<open>The letters of a literal\<close>

lemma set_split_on: "set s \<subseteq> insert sep (\<Union> (set ` set (split_on sep s)))"
proof (induction s)
  case (Cons c s)
  then show ?case by (cases "split_on sep s") auto
qed simp

lemma split_on_count: "length (split_on sep s) = Suc (countChar s sep)"
proof (induction s)
  case (Cons c s)
  then show ?case by (cases "split_on sep s") (auto simp: countChar_def)
qed (simp add: countChar_def)

lemma ipv4_part_digits: "ipv4_part g \<Longrightarrow> c \<in> set g \<Longrightarrow> is_digit c"
  by (auto simp: ipv4_part_def list_all_iff is_digit_def code_def)

lemma ipv4_part_length: "ipv4_part g \<Longrightarrow> 1 \<le> length g \<and> length g \<le> 3"
  by (auto simp: ipv4_part_def Suc_le_eq)

lemma isIpv4_chars: "isIpv4 s \<Longrightarrow> c \<in> set s \<Longrightarrow> is_digit c \<or> c = CHR ''.''"
  using set_split_on [of s "CHR ''.''"] ipv4_part_digits by (auto simp: isIpv4_def Let_def list_all_iff)

lemma ipv6_char_colon [simp]: "ipv6_char CHR '':''" "ipv6_char CHR ''.''"
  by (simp_all add: ipv6_char_def)

lemma isIpv4_colon: "isIpv4 s \<Longrightarrow> CHR '':'' \<notin> set s"
  using isIpv4_chars [of s "CHR '':''"] by (auto simp: is_digit_def code_def)

lemma length_split4: "length (split_on sep s) = 4 \<Longrightarrow> \<forall>w \<in> set (split_on sep s). length w \<le> 3 \<Longrightarrow> length s \<le> 15"
proof -
  assume n: "length (split_on sep s) = 4" and w: "\<forall>w \<in> set (split_on sep s). length w \<le> 3"
  then obtain a b c d where parts: "split_on sep s = [a, b, c, d]" by (auto simp: length_Suc_conv numeral_eq_Suc)
  have "length (join [sep] (split_on sep s)) \<le> 15" using w unfolding parts by simp
  then show ?thesis by (simp only: join_split_on)
qed

lemma ipv4_length: "isIpv4 s \<Longrightarrow> length s \<le> 15"
  using length_split4 [of "CHR ''.''" s] ipv4_part_length by (auto simp: isIpv4_def Let_def list_all_iff)

lemma isIpv6_chars: "isIpv6 s \<Longrightarrow> c \<in> set s \<Longrightarrow> ipv6_char c"
  by (auto simp: isIpv6_def list_all_iff split: if_splits)

lemma isIpv6_length: "isIpv6 s \<Longrightarrow> s \<noteq> [] \<and> length s \<le> 45"
  by (auto simp: isIpv6_def split: if_splits)

lemma ipv6_groups_bound: "ipv6_groups gs n = Some k \<Longrightarrow> n \<le> k \<and> k \<le> n + 1"
proof (induction gs n rule: ipv6_groups.induct)
  case (2 g gs n)
  then show ?case by (cases gs) (auto split: if_splits)
qed simp

lemma indexOf_Some: "indexOf s pat = Some i \<Longrightarrow> startsWith (drop i s) pat \<and> i \<le> length s"
proof (induction s arbitrary: i)
  case Nil
  then show ?case by (auto simp: startsWith_def split: if_splits)
next
  case (Cons c s)
  then show ?case by (auto split: if_splits)
qed

lemma indexOf_char: "c \<notin> set u \<Longrightarrow> indexOf (u @ c # v) [c] = Some (length u)"
  by (induction u) (auto simp: startsWith_def)

lemma countChar_append: "countChar (u @ v) c = countChar u c + countChar v c"
  by (simp add: countChar_def)

lemma isIpv6_colons:
  assumes "isIpv6 s"
  shows "2 \<le> countChar s CHR '':''"
proof (cases "indexOf s ''::''")
  case (Some i)
  then have "take 2 (drop i s) = ''::''" using indexOf_Some [of s "''::''" i] by (auto simp: startsWith_def eval_nat_numeral)
  then have "s = take i s @ ''::'' @ drop 2 (drop i s)" by (metis append_take_drop_id)
  then have "countChar s CHR '':'' = countChar (take i s @ ''::'' @ drop 2 (drop i s)) CHR '':''" by simp
  then show ?thesis by (simp only: countChar_append) (simp add: countChar_def)
next
  case None
  with assms have "s \<noteq> []" "ipv6_groups (split_on CHR '':'' s) (length (split_on CHR '':'' s)) = Some 8"
    by (auto simp: isIpv6_def groups_of_def split: if_splits option.splits)
  with ipv6_groups_bound show ?thesis by (force simp: split_on_count)
qed

subsection \<open>Lower case\<close>

lemma code_lower: "code (lower_char c) = (if is_upper c \<or> (192 \<le> code c \<and> code c \<le> 222 \<and> code c \<noteq> 215) then code c + 32 else code c)"
  by (auto simp: lower_char_def is_upper_def code_char_of)

lemma lower_idem [simp]: "lower_char (lower_char c) = lower_char c"
  by (rule iffD1 [OF code_inject]) (auto simp: code_lower is_upper_def)

lemma toLowerCase_idem [simp]: "toLowerCase (toLowerCase s) = toLowerCase s"
  by (simp add: toLowerCase_def)

lemma lower_fixed: "code (lower_char c) < 97 \<Longrightarrow> lower_char c = c"
  by (rule iffD1 [OF code_inject]) (auto simp: code_lower is_upper_def split: if_splits)

lemma lower_alnum [simp]: "is_alnum (lower_char c) = is_alnum c"
  by (auto simp: is_alnum_def is_digit_def is_lower_def is_upper_def code_lower)

lemma lower_eq_low: "code d < 65 \<Longrightarrow> lower_char c = d \<longleftrightarrow> c = d"
  using lower_fixed [of c] by (auto simp: lower_char_def is_upper_def)

lemma split_on_lower:
  "code sep < 65 \<Longrightarrow> split_on sep (toLowerCase s) = map toLowerCase (split_on sep s)"
proof (induction s)
  case (Cons c s)
  then show ?case by (cases "split_on sep s") (auto simp: toLowerCase_def lower_eq_low)
qed (simp add: toLowerCase_def)

lemma lower_hostname: "isHostname h \<Longrightarrow> isHostname (toLowerCase h)"
proof -
  have lab: "dns_label (toLowerCase l) = dns_label l" for l
    by (cases "l = []") (auto simp: dns_label_def toLowerCase_def list_all_iff hd_map last_map lower_eq_low code_def)
  have dot: "endsWith (toLowerCase h) ''.'' = endsWith h ''.''"
  proof (cases h rule: rev_cases)
    case (snoc u c)
    then show ?thesis by (simp add: endsWith_def toLowerCase_def lower_eq_low code_def)
  qed (simp add: endsWith_def toLowerCase_def)
  have but: "butlast (toLowerCase h) = toLowerCase (butlast h)" by (simp add: toLowerCase_def map_butlast)
  have "split_on CHR ''.'' (toLowerCase s) = map toLowerCase (split_on CHR ''.'' s)" for s
    by (rule split_on_lower) (simp add: code_def)
  moreover have "length (toLowerCase s) = length s" "toLowerCase s = [] \<longleftrightarrow> s = []" for s
    by (simp_all add: toLowerCase_def)
  ultimately show "isHostname h \<Longrightarrow> isHostname (toLowerCase h)"
    unfolding isHostname_def Let_def dot by (auto simp: but list_all_iff lab)
qed

lemma lower_ipv4: "isIpv4 (toLowerCase s) \<Longrightarrow> toLowerCase s = s"
proof -
  assume a: "isIpv4 (toLowerCase s)"
  have "lower_char c = c" if "c \<in> set s" for c
  proof (rule lower_fixed)
    have "is_digit (lower_char c) \<or> lower_char c = CHR ''.''" using isIpv4_chars [OF a] that by (simp add: toLowerCase_def)
    then show "code (lower_char c) < 97" by (auto simp: is_digit_def code_def)
  qed
  then show ?thesis by (simp add: toLowerCase_def map_idI)
qed

lemma lower_ipv6: "isIpv6 s \<Longrightarrow> toLowerCase s = s"
proof -
  assume a: "isIpv6 s"
  have "lower_char c = c" if "c \<in> set s" for c
    using isIpv6_chars [OF a that] by (auto simp: lower_char_def ipv6_char_def is_hex_lower_def is_digit_def is_upper_def code_def)
  then show ?thesis by (simp add: toLowerCase_def map_idI)
qed

subsection \<open>Canonical patterns\<close>

definition port_ok :: "nat option \<Rightarrow> bool" where
  "port_ok p = pred_option (\<lambda>n. 1 \<le> n \<and> n \<le> 65535) p"

fun pattern_ok :: "egress_pattern \<Rightarrow> bool" where
  "pattern_ok (HostPattern k h p) = (isHostname h \<and> toLowerCase h = h \<and> port_ok p
     \<and> (k = ExactHost \<longrightarrow> parseIpLiteral h = None))"
| "pattern_ok (IpPattern f a p) = (parseIpLiteral a = Some (f, a) \<and> port_ok p)"

definition port_suffix :: "nat option \<Rightarrow> string" where
  "port_suffix p = (case p of None \<Rightarrow> [] | Some n \<Rightarrow> CHR '':'' # dec n)"

fun pattern_text :: "egress_pattern \<Rightarrow> string" where
  "pattern_text (HostPattern ExactHost h p) = h @ port_suffix p"
| "pattern_text (HostPattern WildcardHost h p) = ''*.'' @ h @ port_suffix p"
| "pattern_text (IpPattern V4 a p) = a @ port_suffix p"
| "pattern_text (IpPattern V6 a p) = (if p = None then a else CHR ''['' # a @ CHR '']'' # port_suffix p)"

lemma parsePort_Inr: "parsePort s e = Inr n \<Longrightarrow> 1 \<le> n \<and> n \<le> 65535"
  by (auto simp: parsePort_def Let_def split: if_splits)

lemma parse_text_ok:
  assumes "parse_text e = Inr p"
  shows "pattern_ok p"
proof -
  obtain host portRaw force port where s: "splitHostPort e = Inr (host, portRaw, force)"
    and port: "(case portRaw of None \<Rightarrow> Inr None | Some q \<Rightarrow> bindE (parsePort q e) (\<lambda>n. Inr (Some n))) = Inr port"
    and rest: "(case parseIpLiteral host of
         Some (family, address) \<Rightarrow> Inr (IpPattern family address port)
       | None \<Rightarrow>
           bindE (requireE (\<not> force) (egressSpecError SBX_EGRESS_SPEC_HOST (Some e))) (\<lambda>_.
           bindE (classifyHost host e) (\<lambda>(kind, host). Inr (HostPattern kind host port)))) = Inr p"
    using assms by (auto simp: parse_text_def bindE_eq_Inr)
  have "port_ok port" using port by (auto simp: port_ok_def bindE_eq_Inr dest: parsePort_Inr split: option.splits)
  show ?thesis
  proof (cases "parseIpLiteral host")
    case (Some r)
    have "parseIpLiteral (snd r) = Some r"
    proof (cases "isIpv4 host")
      case False
      then have "isIpv6 (toLowerCase host)" "r = (V6, toLowerCase host)"
        using Some by (auto simp: parseIpLiteral_def split: if_splits)
      moreover have "\<not> isIpv4 (toLowerCase host)" using lower_ipv4 [of host] False by force
      ultimately show ?thesis by (simp add: parseIpLiteral_def)
    qed (use Some in \<open>auto simp: parseIpLiteral_def\<close>)
    then show ?thesis using rest Some \<open>port_ok port\<close> by (cases r) auto
  next
    case None
    obtain kind h where k: "classifyHost host e = Inr (kind, h)" "p = HostPattern kind h port"
      using rest None by (auto simp: bindE_eq_Inr)
    have lit: "parseIpLiteral (toLowerCase host) = None"
      using None lower_ipv4 [of host] by (auto simp: parseIpLiteral_def split: if_splits)
    show ?thesis
      using k lit \<open>port_ok port\<close> lower_hostname by (auto simp: classifyHost_def bindE_eq_Inr split: if_splits)
  qed
qed

subsection \<open>Canonical patterns parse to themselves\<close>

lemma length_dec: "n < 10 ^ Suc k \<Longrightarrow> length (dec n) \<le> Suc k"
proof (induction k arbitrary: n)
  case 0
  then show ?case by (simp add: dec_def to_radix.simps [of 10 n])
next
  case (Suc k)
  show ?case
  proof (cases "n < 10")
    case True
    then show ?thesis by (simp add: dec_def to_radix.simps [of 10 n])
  next
    case False
    then have "length (dec n) = Suc (length (dec (n div 10)))" by (simp add: dec_def to_radix.simps [of 10 n])
    moreover have "n div 10 < 10 ^ Suc k" using Suc.prems by (simp add: less_mult_imp_div_less)
    ultimately show ?thesis using Suc.IH by simp
  qed
qed

lemma parsePort_dec:
  assumes "1 \<le> n" and "n \<le> 65535"
  shows "parsePort (dec n) e = Inr n"
proof -
  have "length (dec n) \<le> 5" using length_dec [of n 4] assms(2) by simp
  moreover have "1 \<le> length (dec n)" by (cases "dec n") auto
  moreover have "list_all is_digit (dec n)" using dec_digits by (simp add: list_all_iff)
  ultimately show ?thesis using assms by (simp add: parsePort_def parse_dec_dec Let_def)
qed

lemma dec_plain: "c \<in> {CHR '':'', CHR ''['', CHR '']''} \<Longrightarrow> c \<notin> set (dec n)"
  using dec_digits [of c n] by (auto simp: is_digit_def code_def)

lemma countChar_0 [simp]: "countChar s c = 0 \<longleftrightarrow> c \<notin> set s"
  by (auto simp: countChar_def filter_empty_conv)

lemma dns_label_chars: "dns_label l \<Longrightarrow> c \<in> set l \<Longrightarrow> is_alnum c \<or> c = CHR ''-''"
  by (auto simp: dns_label_def list_all_iff)

definition name_char :: "char \<Rightarrow> bool" where
  "name_char c = (is_alnum c \<or> c = CHR ''-'' \<or> c = CHR ''.'')"

lemma hostname_chars:
  assumes "isHostname h" and "c \<in> set h"
  shows "name_char c"
proof -
  let ?name = "if endsWith h ''.'' then butlast h else h"
  have labels: "list_all dns_label (split_on CHR ''.'' ?name)" using assms(1) by (simp add: isHostname_def Let_def)
  have "c \<in> set ?name \<or> c = CHR ''.''"
    using assms(2) by (cases h rule: rev_cases) (auto simp: endsWith_def)
  moreover have "name_char d" if "d \<in> set ?name" for d
    using set_split_on [of ?name "CHR ''.''"] that labels dns_label_chars by (auto simp: list_all_iff name_char_def)
  ultimately show ?thesis by (auto simp: name_char_def)
qed

lemma hostname_length: "isHostname h \<Longrightarrow> h \<noteq> [] \<and> length h \<le> 254"
  by (auto simp: isHostname_def Let_def MAX_HOSTNAME_LENGTH_def split: if_splits)

lemma hostname_hd:
  assumes "isHostname h"
  shows "is_alnum (hd h)"
proof -
  let ?name = "if endsWith h ''.'' then butlast h else h"
  have ne: "?name \<noteq> []" and labels: "list_all dns_label (split_on CHR ''.'' ?name)"
    using assms by (simp_all add: isHostname_def Let_def)
  obtain c n where n: "?name = c # n" using ne by (cases ?name) auto
  have "hd h = hd ?name" using ne by (cases h rule: rev_cases) (auto simp: endsWith_def hd_append)
  moreover have "is_alnum c"
    using labels unfolding n by (cases "c = CHR ''.''"; cases "split_on CHR ''.'' n") (auto simp: dns_label_def)
  ultimately show ?thesis using n by simp
qed

lemma split_plain:
  assumes "CHR '':'' \<notin> set u" and "u \<noteq> []" and "hd u \<noteq> CHR ''[''"
  shows "splitHostPort (u @ port_suffix p) = Inr (u, map_option dec p, False)"
proof -
  have b: "\<not> startsWith (u @ port_suffix p) ''[''" using assms(2,3) by (cases u) (auto simp: startsWith_def)
  show ?thesis
  proof (cases p)
    case None
    then show ?thesis using b assms(1) by (simp add: splitHostPort_def port_suffix_def)
  next
    case (Some n)
    have "countChar (u @ CHR '':'' # dec n) CHR '':'' = 1"
    proof -
      have "countChar u CHR '':'' = 0" "countChar (dec n) CHR '':'' = 0" using assms(1) dec_plain [of "CHR '':''" n] by simp_all
      then show ?thesis by (simp add: countChar_def)
    qed
    then show ?thesis
      using b Some indexOf_char [OF assms(1), of "dec n"] by (simp add: splitHostPort_def port_suffix_def)
  qed
qed

lemma parse_plain:
  assumes "CHR '':'' \<notin> set u" and "u \<noteq> []" and "hd u \<noteq> CHR ''[''" and "length u \<le> 256" and "port_ok p"
  shows "parse_text (u @ port_suffix p) = (case parseIpLiteral u of
      Some (family, address) \<Rightarrow> Inr (IpPattern family address p)
    | None \<Rightarrow> bindE (classifyHost u (u @ port_suffix p)) (\<lambda>(kind, host). Inr (HostPattern kind host p)))"
proof -
  have "length (port_suffix p) \<le> 6"
    using assms(5) length_dec [of _ 4] by (cases p) (auto simp: port_suffix_def port_ok_def)
  then have len: "length (u @ port_suffix p) \<le> MAX_ENTRY_BYTES" using assms(4) by (simp add: MAX_ENTRY_BYTES_def)
  show ?thesis
  proof (cases p)
    case None
    then show ?thesis
      using len assms(2) by (simp add: parse_text_def split_plain [OF assms(1-3)] requireE_def split: option.split)
  next
    case (Some n)
    then have "parsePort (dec n) e = Inr n" for e using assms(5) by (simp add: port_ok_def parsePort_dec)
    then show ?thesis
      using Some len assms(2) by (simp add: parse_text_def split_plain [OF assms(1-3)] requireE_def split: option.split)
  qed
qed

lemma parse_bracketed:
  assumes "isIpv6 a" and "1 \<le> n" and "n \<le> 65535"
  shows "parse_text (CHR ''['' # a @ CHR '']'' # port_suffix (Some n)) = Inr (IpPattern V6 a (Some n))"
proof -
  let ?e = "CHR ''['' # a @ CHR '']'' # port_suffix (Some n)"
  have plain: "CHR '']'' \<notin> set (CHR ''['' # a)"
    using isIpv6_chars [OF assms(1), of "CHR '']''"] by (auto simp: ipv6_char_def is_hex_lower_def is_digit_def code_def)
  have "indexOf ?e '']'' = Some (Suc (length a))"
    using indexOf_char [OF plain, of "port_suffix (Some n)"] by simp
  then have s: "splitHostPort ?e = Inr (a, Some (dec n), True)"
    by (simp add: splitHostPort_def startsWith_def port_suffix_def Let_def)
  have "length (dec n) \<le> 5" using length_dec [of n 4] assms(3) by simp
  then have len: "length ?e \<le> MAX_ENTRY_BYTES" using isIpv6_length [OF assms(1)] by (simp add: MAX_ENTRY_BYTES_def port_suffix_def)
  have "2 \<le> countChar a CHR '':''" by (rule isIpv6_colons [OF assms(1)])
  then have "CHR '':'' \<in> set a" using countChar_0 [of a "CHR '':''"] by linarith
  then have "\<not> isIpv4 a" using isIpv4_colon by blast
  then have "parseIpLiteral a = Some (V6, a)" using assms(1) lower_ipv6 [OF assms(1)] by (simp add: parseIpLiteral_def)
  then show ?thesis using len by (simp add: parse_text_def s parsePort_dec [OF assms(2,3)] requireE_def)
qed

lemma literal_chars: "parseIpLiteral s = Some r \<Longrightarrow> c \<in> set s \<Longrightarrow> is_alnum c \<or> c = CHR ''.'' \<or> c = CHR '':''"
proof -
  assume r: "parseIpLiteral s = Some r" and c: "c \<in> set s"
  show ?thesis
  proof (cases "isIpv4 s")
    case True
    then show ?thesis using isIpv4_chars c by (auto simp: is_alnum_def)
  next
    case False
    then have "isIpv6 (toLowerCase s)" using r by (auto simp: parseIpLiteral_def split: if_splits)
    from isIpv6_chars [OF this, of "lower_char c"] c
    have "is_alnum (lower_char c) \<or> lower_char c = CHR ''.'' \<or> lower_char c = CHR '':''"
      by (auto simp: toLowerCase_def ipv6_char_def is_hex_lower_def is_alnum_def is_lower_def)
    then show ?thesis by (simp add: lower_eq_low code_def)
  qed
qed

lemma parse_pattern_text:
  assumes "pattern_ok p"
  shows "parse_text (pattern_text p) = Inr p"
proof (cases p)
  case (HostPattern k h port)
  then have h: "isHostname h" "toLowerCase h = h" "port_ok port" "k = ExactHost \<Longrightarrow> parseIpLiteral h = None"
    using assms by auto
  have colon: "CHR '':'' \<notin> set h" using hostname_chars [OF h(1), of "CHR '':''"]
    by (auto simp: name_char_def is_alnum_def is_digit_def is_lower_def is_upper_def code_def)
  have hd: "hd h \<noteq> CHR ''[''" "\<not> startsWith h ''*.''"
    using hostname_hd [OF h(1)]
    by (cases h; auto simp: startsWith_def is_alnum_def is_digit_def is_lower_def is_upper_def code_def)+
  show ?thesis
  proof (cases k)
    case ExactHost
    then show ?thesis
      using parse_plain [OF colon _ hd(1) _ h(3)] hostname_length [OF h(1)] h hd(2) HostPattern
      by (simp add: classifyHost_def requireE_def)
  next
    case WildcardHost
    have "parseIpLiteral (''*.'' @ h) = None"
      using literal_chars [of "''*.'' @ h" _ "CHR ''*''"]
      by (cases "parseIpLiteral (''*.'' @ h)") (auto simp: is_alnum_def is_digit_def is_lower_def is_upper_def code_def)
    moreover have "startsWith (''*.'' @ h) ''*.''" by (simp add: startsWith_def)
    ultimately show ?thesis
      using parse_plain [of "''*.'' @ h" port] colon hostname_length [OF h(1)] h HostPattern WildcardHost
      by (simp add: classifyHost_def requireE_def eval_nat_numeral)
  qed
next
  case (IpPattern f a port)
  then have a: "parseIpLiteral a = Some (f, a)" "port_ok port" using assms by auto
  show ?thesis
  proof (cases f)
    case V4
    then have "isIpv4 a" using a(1) by (auto simp: parseIpLiteral_def split: if_splits)
    then have "CHR '':'' \<notin> set a" "a \<noteq> []" "hd a \<noteq> CHR ''[''" "length a \<le> 256"
    proof -
      assume v4: "isIpv4 a"
      show "CHR '':'' \<notin> set a" by (rule isIpv4_colon [OF v4])
      show "a \<noteq> []" using v4 by (auto simp: isIpv4_def)
      then show "hd a \<noteq> CHR ''[''" using isIpv4_chars [OF v4, of "hd a"] by (auto simp: is_digit_def code_def)
      show "length a \<le> 256" using ipv4_length [OF v4] by simp
    qed
    from parse_plain [OF this a(2)] show ?thesis using a(1) IpPattern V4 by simp
  next
    case V6
    then have v6: "isIpv6 a" using a(1) by (auto simp: parseIpLiteral_def split: if_splits)
    show ?thesis
    proof (cases port)
      case None
      have two: "2 \<le> countChar a CHR '':''" by (rule isIpv6_colons [OF v6])
      then have "countChar a CHR '':'' \<noteq> 0" by linarith
      then have "CHR '':'' \<in> set a" by simp
      moreover note two
      moreover have "\<not> startsWith a ''[''"
        using isIpv6_chars [OF v6, of "CHR ''[''"]
        by (cases a) (auto simp: startsWith_def ipv6_char_def is_hex_lower_def is_digit_def code_def)
      ultimately have "splitHostPort a = Inr (a, None, True)" by (simp add: splitHostPort_def)
      then show ?thesis
        using isIpv6_length [OF v6] a(1) IpPattern V6 None
        by (simp add: parse_text_def requireE_def MAX_ENTRY_BYTES_def)
    next
      case (Some n)
      then show ?thesis using parse_bracketed [OF v6] a(2) IpPattern V6 by (simp add: port_ok_def)
    qed
  qed
qed

text \<open>
  C22. The grammar of \<open>allowNet\<close> fails closed and is canonical. The patterns that some entry parses to are exactly the
  well-formed ones: a lower-case hostname, plain or under a wildcard, that is no literal, or an IP literal, with no port
  or one of 1..65535; and each of them, written out, parses back to itself. An unset list, and nothing else, is
  unrestricted; a list is accepted exactly when it has at most 1024 entries that all parse, and gives their patterns in
  order.
\<close>

theorem allow_net_patterns_are_canonical:
  "((\<exists>e. parseEntry e = Inr p) \<longleftrightarrow> pattern_ok p)
   \<and> (parseEntry (JStr (pattern_text p)) = Inr p \<longleftrightarrow> pattern_ok p)
   \<and> (parseAllowNet j = Inr Unrestricted \<longleftrightarrow> j = JUndef)
   \<and> (parseAllowNet j = Inr (Restricted ps) \<longleftrightarrow>
        (\<exists>es. j = JArr es \<and> length es \<le> 1024 \<and> list_all2 (\<lambda>e p. parseEntry e = Inr p) es ps))"
proof (intro conjI)
  have ok: "parseEntry e = Inr p \<Longrightarrow> pattern_ok p" for e
    by (cases e) (auto simp: parseEntry_def parse_text_ok)
  have printed: "pattern_ok p \<Longrightarrow> parseEntry (JStr (pattern_text p)) = Inr p"
    by (simp add: parseEntry_def parse_pattern_text)
  show "(\<exists>e. parseEntry e = Inr p) \<longleftrightarrow> pattern_ok p" using ok printed by blast
  show "parseEntry (JStr (pattern_text p)) = Inr p \<longleftrightarrow> pattern_ok p" using ok printed by blast
  show "parseAllowNet j = Inr Unrestricted \<longleftrightarrow> j = JUndef"
    by (cases j) (auto simp: parseAllowNet_def bindE_eq_Inr)
  show "parseAllowNet j = Inr (Restricted ps) \<longleftrightarrow>
      (\<exists>es. j = JArr es \<and> length es \<le> 1024 \<and> list_all2 (\<lambda>e p. parseEntry e = Inr p) es ps)"
    by (cases j) (auto simp: parseAllowNet_def bindE_eq_Inr mapE_eq_Inr MAX_ENTRIES_def)
qed

end
