(* ===== verification/Ip_Literals.thy ===== *)
theory Ip_Literals
  imports Egress_Spec
begin

text \<open>
  \<open>isIpv6\<close> of \<^verbatim>\<open>src/rootd/network/spec.ts\<close> against the textual grammar of RFC 4291, section 2.2: the pieces of an
  address, the address with all of them, and the one with \<open>::\<close> for the missing ones.
\<close>

text \<open>A list of pieces and the number of 16-bit groups it denotes: an IPv4 address may end it, and denotes two.\<close>

inductive ipv6_pieces :: "string list \<Rightarrow> nat \<Rightarrow> bool" where
  no_piece: "ipv6_pieces [] 0"
| hex_piece: "hex_group g \<Longrightarrow> ipv6_pieces gs n \<Longrightarrow> ipv6_pieces (g # gs) (Suc n)"
| v4_piece: "isIpv4 g \<Longrightarrow> ipv6_pieces [g] 2"

inductive_cases ipv6_pieces_Nil: "ipv6_pieces [] n"
inductive_cases ipv6_pieces_Cons: "ipv6_pieces (g # gs) n"
inductive_simps ipv6_pieces_simps: "ipv6_pieces [] n" "ipv6_pieces (g # gs) n"

inductive ipv6_address :: "string \<Rightarrow> bool" where
  all_groups: "ipv6_pieces gs 8 \<Longrightarrow> ipv6_address (join '':'' gs)"
| some_omitted: "list_all hex_group hs \<Longrightarrow> ipv6_pieces ts n \<Longrightarrow> length hs + n \<le> 7
    \<Longrightarrow> ipv6_address (join '':'' hs @ ''::'' @ join '':'' ts)"

subsection \<open>The pieces\<close>

lemma hex_group_plain: "hex_group g \<Longrightarrow> g \<noteq> [] \<and> CHR '':'' \<notin> set g \<and> CHR ''.'' \<notin> set g \<and> length g \<le> 4"
  by (auto simp: hex_group_def list_all_iff is_hex_lower_def is_digit_def code_def)

lemma isIpv4_plain: "isIpv4 g \<Longrightarrow> g \<noteq> [] \<and> CHR '':'' \<notin> set g \<and> CHR ''.'' \<in> set g \<and> length g \<le> 15"
  using isIpv4_colon [of g] ipv4_length [of g] split_on_fresh [of "CHR ''.''" g]
  by (cases "CHR ''.'' \<in> set g") (auto simp: isIpv4_def Let_def)

lemma ipv6_pieces_plain: "ipv6_pieces gs n \<Longrightarrow> g \<in> set gs \<Longrightarrow> g \<noteq> [] \<and> CHR '':'' \<notin> set g"
  by (induction rule: ipv6_pieces.induct) (auto dest: hex_group_plain isIpv4_plain)

lemma hex_pieces: "list_all hex_group hs \<Longrightarrow> ipv6_pieces hs (length hs)"
  by (induction hs) (auto intro: ipv6_pieces.intros)

lemma ipv6_groups_pieces: "ipv6_groups gs m = Some k \<longleftrightarrow> (\<exists>n. ipv6_pieces gs n \<and> k + length gs = m + n)"
proof (induction gs m rule: ipv6_groups.induct)
  case (1 m)
  then show ?case by (auto simp: ipv6_pieces_simps)
next
  case (2 g gs m)
  have excl: "isIpv4 g \<Longrightarrow> \<not> hex_group g" using hex_group_plain [of g] isIpv4_plain [of g] by blast
  consider "g = []" | "g \<noteq> []" "CHR ''.'' \<in> set g" | "g \<noteq> []" "CHR ''.'' \<notin> set g" by blast
  then show ?case
  proof cases
    case 1
    then show ?thesis using hex_group_plain [of g] isIpv4_plain [of g] by (auto simp: ipv6_pieces_simps)
  next
    case 2
    then have "\<not> hex_group g" using hex_group_plain [of g] by blast
    with 2 show ?thesis by (auto simp: ipv6_pieces_simps)
  next
    case 3
    then have "\<not> isIpv4 g" using isIpv4_plain [of g] by blast
    with 3 "2.IH"(2) show ?thesis by (auto simp: ipv6_pieces_simps)
  qed
qed

lemma ipv6_pieces_append:
  "list_all hex_group hs \<Longrightarrow> ipv6_pieces ts m \<Longrightarrow> ipv6_pieces (hs @ ts) (length hs + m)"
  by (induction hs) (auto intro: ipv6_pieces.intros)

lemma ipv6_pieces_split:
  "ipv6_pieces (hs @ ts) n \<Longrightarrow>
     (list_all hex_group hs \<and> (\<exists>m. ipv6_pieces ts m \<and> n = length hs + m))
     \<or> (ts = [] \<and> (\<exists>us v. hs = us @ [v] \<and> list_all hex_group us \<and> isIpv4 v \<and> n = length us + 2))"
proof (induction hs arbitrary: n)
  case (Cons h hs)
  from Cons.prems have "(\<exists>m. n = Suc m \<and> hex_group h \<and> ipv6_pieces (hs @ ts) m) \<or> (isIpv4 h \<and> hs = [] \<and> ts = [] \<and> n = 2)"
    by (auto simp: ipv6_pieces_simps)
  then consider m where "n = Suc m" "hex_group h" "ipv6_pieces (hs @ ts) m" | "isIpv4 h" "hs = []" "ts = []" "n = 2" by blast
  then show ?case
  proof cases
    case 1
    from Cons.IH [OF 1(3)] show ?thesis
    proof (elim disjE conjE exE)
      fix us v assume *: "ts = []" "hs = us @ [v]" "list_all hex_group us" "isIpv4 v" "m = length us + 2"
      have "h # hs = (h # us) @ [v] \<and> list_all hex_group (h # us) \<and> isIpv4 v \<and> n = length (h # us) + 2"
        using * 1(1,2) by simp
      with *(1) show ?thesis by blast
    qed (use 1(1,2) in simp)
  qed simp
qed simp

subsection \<open>Joining and splitting them\<close>

lemma split_join: "gs \<noteq> [] \<Longrightarrow> \<forall>g \<in> set gs. CHR '':'' \<notin> set g \<Longrightarrow> split_on CHR '':'' (join '':'' gs) = gs"
  by (induction "'':''" gs rule: join.induct) (auto simp: split_on_fresh split_on_append)

lemma join_Nil: "\<forall>g \<in> set gs. g \<noteq> [] \<Longrightarrow> join '':'' gs = [] \<longleftrightarrow> gs = []"
  by (induction "'':''" gs rule: join.induct) auto

lemma groups_of_join: "ipv6_pieces gs n \<Longrightarrow> groups_of (join '':'' gs) = gs"
  using ipv6_pieces_plain [of gs n] join_Nil [of gs] split_join [of gs] by (cases "gs = []") (auto simp: groups_of_def)

lemma join_groups_of [simp]: "join '':'' (groups_of s) = s"
  by (simp add: groups_of_def join_split_on)

text \<open>Two colons in a row, and where the first and the last of them are.\<close>

fun doubled :: "string \<Rightarrow> bool" where
  "doubled (a # b # s) = ((a = CHR '':'' \<and> b = CHR '':'') \<or> doubled (b # s))"
| "doubled s = False"

lemma startsWith_doubled: "startsWith s ''::'' \<longleftrightarrow> (\<exists>r. s = ''::'' @ r)"
  by (metis append_take_drop_id append_eq_conv_conj startsWith_def)

lemma indexOf_doubled: "\<not> doubled s \<Longrightarrow> indexOf s ''::'' = None \<and> lastIndexOf s ''::'' = None"
  by (induction s rule: doubled.induct) (auto simp: startsWith_def)

lemma doubled_append:
  "\<not> doubled u \<Longrightarrow> \<not> doubled v \<Longrightarrow> u = [] \<or> v = [] \<or> last u \<noteq> CHR '':'' \<or> hd v \<noteq> CHR '':'' \<Longrightarrow> \<not> doubled (u @ v)"
  by (induction u rule: doubled.induct; cases v) auto

definition clean :: "string \<Rightarrow> bool" where
  "clean s = (\<not> doubled s \<and> (s = [] \<or> (hd s \<noteq> CHR '':'' \<and> last s \<noteq> CHR '':'')))"

lemma clean_word: "CHR '':'' \<notin> set s \<Longrightarrow> clean s"
proof -
  assume a: "CHR '':'' \<notin> set s"
  then have "\<not> doubled s" by (induction s rule: doubled.induct) auto
  with a show ?thesis by (auto simp: clean_def dest: hd_in_set last_in_set)
qed

lemma clean_join: "\<forall>g \<in> set gs. g \<noteq> [] \<and> CHR '':'' \<notin> set g \<Longrightarrow> clean (join '':'' gs)"
proof (induction "'':''" gs rule: join.induct)
  case (3 w v ws)
  let ?r = "join '':'' (v # ws)"
  have r: "clean ?r" "?r \<noteq> []" using 3 join_Nil [of "v # ws"] by auto
  have w: "clean w" "w \<noteq> []" using 3 by (auto intro: clean_word)
  have "\<not> doubled (CHR '':'' # ?r)" using r by (cases ?r) (auto simp: clean_def)
  then have "\<not> doubled (w @ CHR '':'' # ?r)" using w by (intro doubled_append) (auto simp: clean_def)
  with w r show ?case by (auto simp: clean_def)
qed (auto simp: clean_word)

lemma indexOf_gap:
  assumes "clean l"
  shows "indexOf (l @ ''::'' @ r) ''::'' = Some (length l)"
proof -
  have "\<not> doubled l \<Longrightarrow> l = [] \<or> last l \<noteq> CHR '':'' \<Longrightarrow> ?thesis"
  proof (induction l rule: doubled.induct)
    case (1 a b s)
    then show ?case by (auto simp: startsWith_def split: if_splits)
  qed (auto simp: startsWith_def)
  with assms show ?thesis by (auto simp: clean_def)
qed

lemma lastIndexOf_gap:
  assumes "clean r"
  shows "lastIndexOf (l @ ''::'' @ r) ''::'' = Some (length l)"
proof (induction l)
  case Nil
  have "lastIndexOf r ''::'' = None" using assms indexOf_doubled by (auto simp: clean_def)
  moreover have "\<not> startsWith (CHR '':'' # r) ''::''" using assms by (cases r) (auto simp: clean_def startsWith_def)
  ultimately show ?case by (simp add: startsWith_def)
qed simp

subsection \<open>The routine and the grammar\<close>

lemma pieces_length: "ipv6_pieces gs n \<Longrightarrow> length (join '':'' gs) + 1 \<le> 5 * n + 6"
proof (induction rule: ipv6_pieces.induct)
  case (hex_piece g gs n)
  then show ?case using hex_group_plain [of g] by (cases gs) auto
qed (auto dest: isIpv4_plain)

lemma hex_length: "list_all hex_group hs \<Longrightarrow> length (join '':'' hs) \<le> 5 * length hs"
proof (induction hs)
  case (Cons h hs)
  then show ?case using hex_group_plain [of h] by (cases hs) auto
qed simp

lemma set_join: "set (join '':'' gs) \<subseteq> insert CHR '':'' (\<Union> (set ` set gs))"
  by (induction "'':''" gs rule: join.induct) auto

lemma pieces_chars: "ipv6_pieces gs n \<Longrightarrow> list_all ipv6_char (join '':'' gs)"
proof -
  assume p: "ipv6_pieces gs n"
  have "g \<in> set gs \<Longrightarrow> c \<in> set g \<Longrightarrow> ipv6_char c" for g c
    using p
  proof (induction rule: ipv6_pieces.induct)
    case (hex_piece h gs n)
    then show ?case by (auto simp: hex_group_def list_all_iff ipv6_char_def)
  next
    case (v4_piece h)
    then show ?case using isIpv4_chars [of h c] by (auto simp: ipv6_char_def is_hex_lower_def is_digit_def)
  qed simp
  with set_join [of gs] show ?thesis by (fastforce simp: list_all_iff)
qed

lemma pieces_clean: "ipv6_pieces gs n \<Longrightarrow> clean (join '':'' gs)"
  by (rule clean_join) (auto dest: ipv6_pieces_plain)

text \<open>An address with a gap, as \<open>isIpv6\<close> takes it apart: the IPv4 address may end the part before the gap.\<close>

lemma isIpv6_gap:
  assumes "ipv6_pieces hs a" "ipv6_pieces ts b" "ipv6_pieces (hs @ ts) n" "n \<le> 7"
    "length (join '':'' hs) + length (join '':'' ts) \<le> 43"
  shows "isIpv6 (join '':'' hs @ ''::'' @ join '':'' ts)"
proof -
  have "ipv6_groups (hs @ ts) (length (hs @ ts)) = Some n" using assms(3) by (simp only: ipv6_groups_pieces) auto
  then show ?thesis
    using indexOf_gap [OF pieces_clean [OF assms(1)], of "join '':'' ts"]
      lastIndexOf_gap [OF pieces_clean [OF assms(2)], of "join '':'' hs"]
      pieces_chars [OF assms(1)] pieces_chars [OF assms(2)] assms(4,5)
    by (simp add: isIpv6_def groups_of_join [OF assms(1)] groups_of_join [OF assms(2)])
qed

lemma isIpv6_full:
  assumes "ipv6_pieces gs 8"
  shows "isIpv6 (join '':'' gs)"
proof -
  have "\<exists>g. g \<in> set gs" using assms by (cases gs) (auto simp: ipv6_pieces_simps)
  then have ne: "join '':'' gs \<noteq> []" using join_Nil [of gs] ipv6_pieces_plain [OF assms] by auto
  have "ipv6_groups gs (length gs) = Some 8" using assms by (simp only: ipv6_groups_pieces) auto
  then show ?thesis
    using indexOf_doubled [of "join '':'' gs"] pieces_clean [OF assms] pieces_chars [OF assms] pieces_length [OF assms] ne
    by (simp add: isIpv6_def clean_def groups_of_join [OF assms]) (simp add: groups_of_def)
qed

lemma isIpv6_parts:
  assumes "isIpv6 s"
  shows "(\<exists>gs. s = join '':'' gs \<and> ipv6_pieces gs 8)
    \<or> (\<exists>hs ts n. s = join '':'' hs @ ''::'' @ join '':'' ts \<and> ipv6_pieces (hs @ ts) n \<and> n \<le> 7)"
proof (cases "indexOf s ''::''")
  case None
  with assms have "s \<noteq> []" "ipv6_groups (groups_of s) (length (groups_of s)) = Some 8"
    by (auto simp: isIpv6_def groups_of_def split: if_splits option.splits)
  then have "ipv6_pieces (groups_of s) 8" by (auto simp: ipv6_groups_pieces)
  then show ?thesis using join_groups_of [of s] by metis
next
  case (Some i)
  let ?h = "groups_of (take i s)" and ?t = "groups_of (drop (i + 2) s)"
  obtain r where "drop i s = ''::'' @ r" using indexOf_Some [OF Some] by (auto simp: startsWith_doubled)
  then have "drop (i + 2) s = r" "s = take i s @ ''::'' @ r"
    by (metis append_eq_conv_conj drop_drop add.commute length_Cons list.size(3) numeral_2_eq_2, metis append_take_drop_id)
  then have s: "s = join '':'' ?h @ ''::'' @ join '':'' ?t" by simp
  from assms Some obtain n where "ipv6_groups (?h @ ?t) (length (?h @ ?t)) = Some n" "n \<le> 7"
    by (auto simp: isIpv6_def split: if_splits option.splits)
  then have "ipv6_pieces (?h @ ?t) n" by (auto simp: ipv6_groups_pieces)
  with s \<open>n \<le> 7\<close> show ?thesis by blast
qed

text \<open>A gap right after an IPv4 address, at the end: no address.\<close>

definition v4_before_gap :: "string \<Rightarrow> bool" where
  "v4_before_gap s = (\<exists>hs v. list_all hex_group hs \<and> isIpv4 v \<and> length hs \<le> 5 \<and> s = join '':'' (hs @ [v]) @ ''::'')"

lemma isIpv6_accepts:
  assumes "isIpv6 s"
  shows "ipv6_address s \<or> v4_before_gap s"
proof -
  from assms consider gs where "s = join '':'' gs" "ipv6_pieces gs 8"
    | hs ts n where "s = join '':'' hs @ ''::'' @ join '':'' ts" "ipv6_pieces (hs @ ts) n" "n \<le> 7"
    using isIpv6_parts by blast
  then show ?thesis
  proof cases
    case 2
    from ipv6_pieces_split [OF 2(2)] show ?thesis
    proof (elim disjE conjE exE)
      fix m assume "list_all hex_group hs" "ipv6_pieces ts m" "n = length hs + m"
      with 2 show ?thesis using some_omitted [of hs ts m] by simp
    next
      fix us v assume "ts = []" "hs = us @ [v]" "list_all hex_group us" "isIpv4 v" "n = length us + 2"
      with 2 show ?thesis by (auto simp: v4_before_gap_def)
    qed
  qed (auto intro: all_groups)
qed

lemma address_accepted: "ipv6_address s \<Longrightarrow> isIpv6 s"
proof (induction rule: ipv6_address.induct)
  case (some_omitted hs ts n)
  have "length (join '':'' hs) + length (join '':'' ts) \<le> 43"
    using hex_length [OF some_omitted(1)] pieces_length [OF some_omitted(2)] some_omitted(3) by simp
  then show ?case
    using isIpv6_gap [OF hex_pieces [OF some_omitted(1)] some_omitted(2) ipv6_pieces_append [OF some_omitted(1,2)]]
      some_omitted(3) by simp
qed (simp add: isIpv6_full)

lemma v4_before_gap_accepted:
  assumes "v4_before_gap s"
  shows "isIpv6 s"
proof -
  obtain hs v where a: "list_all hex_group hs" "isIpv4 v" "length hs \<le> 5" "s = join '':'' (hs @ [v]) @ ''::''"
    using assms by (auto simp: v4_before_gap_def)
  have p: "ipv6_pieces (hs @ [v]) (length hs + 2)" by (rule ipv6_pieces_append [OF a(1) v4_piece [OF a(2)]])
  have "length (join '':'' (hs @ [v])) + length (join '':'' []) \<le> 43" using pieces_length [OF p] a(3) by simp
  then show ?thesis using isIpv6_gap [OF p no_piece] p a(3,4) by simp
qed

text \<open>
  C21. \<open>isIpv6\<close> against the grammar of RFC 4291: on lower-case text it accepts every address of the grammar and, beyond
  it, exactly the texts that end in \<open>::\<close> right after an IPv4 address, such as \<open>1.2.3.4::\<close>. It accepts nothing else:
  no second gap, no empty or five-digit group, no gap that omits no group, no IPv4 address anywhere but at the end of
  the pieces.
\<close>

theorem isIpv6_is_rfc4291: "isIpv6 s \<longleftrightarrow> ipv6_address s \<or> v4_before_gap s"
  using isIpv6_accepts address_accepted v4_before_gap_accepted by blast

end
