(* ===== verification/Egress_Resolver.thy ===== *)
theory Egress_Resolver
  imports Ip_Literals
begin

text \<open>
  \<^verbatim>\<open>src/rootd/network/resolver.ts\<close>: what \<open>allowNet\<close> comes to once its exact hostnames are looked up.

  The injected resolver is a parameter: its answer to the \<open>k\<close>-th lookup of a run for a hostname, \<open>None\<close> when it
  rejects. A \<open>Set\<close> is its distinct elements in insertion order, a \<open>Map\<close> a \<open>jsmap\<close>.
\<close>

record resolved_addresses =
  ra_v4 :: "string list"
  ra_v6 :: "string list"

type_synonym host_resolver = "nat \<Rightarrow> string \<Rightarrow> resolved_addresses option"

record resolved_wildcard =
  rw_index :: nat
  rw_baseDomain :: string
  rw_port :: "nat option"

record resolved_lists =
  re_exact4 :: "string list"
  re_exact6 :: "string list"
  re_exact4Port :: "(string \<times> nat) list"
  re_exact6Port :: "(string \<times> nat) list"
  re_wildcards :: "resolved_wildcard list"

datatype resolved_egress = ResolvedUnrestricted | ResolvedRestricted resolved_lists

datatype egress_resolve_error = EgressResolveError egress_pattern | ResolverRejected string

text \<open>\<open>DenoHostResolver\<close>: a lookup that fails answers nothing.\<close>

definition denoResolve :: "string list option \<Rightarrow> string list option \<Rightarrow> resolved_addresses" where
  "denoResolve a aaaa = \<lparr>ra_v4 = orElse a [], ra_v6 = orElse aaaa []\<rparr>"

record resolve_acc =
  ac_exact4 :: "string list"
  ac_exact6 :: "string list"
  ac_exact4Port :: "(string, string \<times> nat) jsmap"
  ac_exact6Port :: "(string, string \<times> nat) jsmap"
  ac_wildcards :: "resolved_wildcard list"

definition set_add :: "'a \<Rightarrow> 'a list \<Rightarrow> 'a list" where
  "set_add x xs = (if x \<in> set xs then xs else xs @ [x])"

definition pair_key :: "string \<Rightarrow> nat \<Rightarrow> string" where
  "pair_key address port = address @ ''#'' @ dec port"

definition addIp :: "ip_family \<Rightarrow> nat option \<Rightarrow> string \<Rightarrow> resolve_acc \<Rightarrow> resolve_acc" where
  "addIp family port address a = (case port of
      None \<Rightarrow> (case family of
          V4 \<Rightarrow> a\<lparr>ac_exact4 := set_add address (ac_exact4 a)\<rparr>
        | V6 \<Rightarrow> a\<lparr>ac_exact6 := set_add address (ac_exact6 a)\<rparr>)
    | Some p \<Rightarrow> (case family of
          V4 \<Rightarrow> a\<lparr>ac_exact4Port := jm_set (pair_key address p) (address, p) (ac_exact4Port a)\<rparr>
        | V6 \<Rightarrow> a\<lparr>ac_exact6Port := jm_set (pair_key address p) (address, p) (ac_exact6Port a)\<rparr>))"

definition add_wildcard :: "string \<Rightarrow> nat option \<Rightarrow> resolve_acc \<Rightarrow> resolve_acc" where
  "add_wildcard host port a = a\<lparr>ac_wildcards := ac_wildcards a
     @ [\<lparr>rw_index = length (ac_wildcards a), rw_baseDomain = host, rw_port = port\<rparr>]\<rparr>"

definition add_answers :: "nat option \<Rightarrow> resolved_addresses \<Rightarrow> resolve_acc \<Rightarrow> resolve_acc" where
  "add_answers port r a =
     fold (\<lambda>x. addIp V6 port (toLowerCase x)) (ra_v6 r) (fold (addIp V4 port) (ra_v4 r) a)"

fun resolve_patterns :: "host_resolver \<Rightarrow> bool \<Rightarrow> nat \<Rightarrow> egress_pattern list \<Rightarrow> resolve_acc
    \<Rightarrow> egress_resolve_error + resolve_acc" where
  "resolve_patterns rs tolerateEmpty k [] a = Inr a"
| "resolve_patterns rs tolerateEmpty k (IpPattern family address port # ps) a =
     resolve_patterns rs tolerateEmpty k ps (addIp family port address a)"
| "resolve_patterns rs tolerateEmpty k (HostPattern WildcardHost host port # ps) a =
     resolve_patterns rs tolerateEmpty k ps (add_wildcard host port a)"
| "resolve_patterns rs tolerateEmpty k (HostPattern ExactHost host port # ps) a = (case rs k host of
      None \<Rightarrow> Inl (ResolverRejected host)
    | Some r \<Rightarrow>
        if ra_v4 r = [] \<and> ra_v6 r = [] \<and> \<not> tolerateEmpty
        then Inl (EgressResolveError (HostPattern ExactHost host port))
        else resolve_patterns rs tolerateEmpty (Suc k) ps (add_answers port r a))"

definition pair_le :: "string \<times> nat \<Rightarrow> string \<times> nat \<Rightarrow> bool" where
  "pair_le a b = (if fst a \<noteq> fst b then text_le (fst a) (fst b) else snd a \<le> snd b)"

definition empty_acc :: resolve_acc where
  "empty_acc = \<lparr>ac_exact4 = [], ac_exact6 = [], ac_exact4Port = [], ac_exact6Port = [], ac_wildcards = []\<rparr>"

definition resolved_of :: "resolve_acc \<Rightarrow> resolved_lists" where
  "resolved_of a = \<lparr>re_exact4 = sort_by text_le (ac_exact4 a), re_exact6 = sort_by text_le (ac_exact6 a),
     re_exact4Port = sort_by pair_le (map snd (ac_exact4Port a)),
     re_exact6Port = sort_by pair_le (map snd (ac_exact6Port a)), re_wildcards = ac_wildcards a\<rparr>"

definition resolveSpec :: "host_resolver \<Rightarrow> bool option \<Rightarrow> egress_spec
    \<Rightarrow> egress_resolve_error + resolved_egress" where
  "resolveSpec rs tolerateEmpty spec = (case spec of
      Unrestricted \<Rightarrow> Inr ResolvedUnrestricted
    | Restricted patterns \<Rightarrow>
        bindE (resolve_patterns rs (orElse tolerateEmpty True) 0 patterns empty_acc)
          (\<lambda>a. Inr (ResolvedRestricted (resolved_of a))))"

subsection \<open>What a resolved list admits\<close>

text \<open>
  A destination: the family, the address in a spelling the sets hold, and the port of a TCP or UDP packet. The
  addresses are compared through \<open>same\<close>, by the value they denote.
\<close>

definition port_admits :: "nat option \<Rightarrow> nat option \<Rightarrow> bool" where
  "port_admits port dport = (port = None \<or> port = dport)"

definition acc_admits :: "(string \<Rightarrow> bool) \<Rightarrow> ip_family \<Rightarrow> nat option \<Rightarrow> resolve_acc \<Rightarrow> bool" where
  "acc_admits same family dport a = (case family of
      V4 \<Rightarrow> (\<exists>x \<in> set (ac_exact4 a). same x) \<or> (\<exists>(x, p) \<in> snd ` set (ac_exact4Port a). same x \<and> dport = Some p)
    | V6 \<Rightarrow> (\<exists>x \<in> set (ac_exact6 a). same x) \<or> (\<exists>(x, p) \<in> snd ` set (ac_exact6Port a). same x \<and> dport = Some p))"

text \<open>The keys of the two maps are those of their values, so no pair overwrites another.\<close>

definition keyed :: "(string, string \<times> nat) jsmap \<Rightarrow> bool" where
  "keyed m = (\<forall>e \<in> set m. fst e = pair_key (fst (snd e)) (snd (snd e)))"

definition acc_keyed :: "resolve_acc \<Rightarrow> bool" where
  "acc_keyed a = (keyed (ac_exact4Port a) \<and> keyed (ac_exact6Port a))"

lemma pair_key_inject: "pair_key a p = pair_key b q \<Longrightarrow> a = b \<and> p = q"
proof -
  assume eq: "pair_key a p = pair_key b q"
  have no: "CHR ''#'' \<notin> set (rev (dec n))" for n using dec_digits [of "CHR ''#''" n] by (auto simp: is_digit_def code_def)
  have "rev (dec p) @ CHR ''#'' # rev a = rev (dec q) @ CHR ''#'' # rev b"
    using arg_cong [OF eq, of rev] by (simp add: pair_key_def)
  then have "split_on CHR ''#'' (rev (dec p) @ CHR ''#'' # rev a) = split_on CHR ''#'' (rev (dec q) @ CHR ''#'' # rev b)"
    by simp
  then have d: "dec p = dec q" by (simp add: split_on_append [OF no])
  with eq show ?thesis by (simp add: pair_key_def)
qed

lemma set_set_add [simp]: "set (set_add x xs) = insert x (set xs)"
  by (auto simp: set_add_def)

lemma jm_set_pairs: "keyed m \<Longrightarrow> snd ` set (jm_set (pair_key x p) (x, p) m) = insert (x, p) (snd ` set m)"
proof (induction m)
  case (Cons e m)
  then show ?case using pair_key_inject [of "fst (snd e)" "snd (snd e)" x p] by (cases e) (auto simp: keyed_def)
qed simp

lemma jm_set_keyed: "keyed m \<Longrightarrow> keyed (jm_set (pair_key x p) (x, p) m)"
  by (induction m) (auto simp: keyed_def)

lemma addIp_admits:
  assumes "acc_keyed a"
  shows "acc_keyed (addIp f port x a)"
    "acc_admits same g dport (addIp f port x a) \<longleftrightarrow>
       (f = g \<and> same x \<and> port_admits port dport) \<or> acc_admits same g dport a"
    "ac_wildcards (addIp f port x a) = ac_wildcards a"
  using assms
  by (cases f; cases port; cases g;
      auto simp: addIp_def acc_keyed_def acc_admits_def port_admits_def jm_set_pairs jm_set_keyed)+

lemma fold_addIp_admits:
  "acc_keyed a \<Longrightarrow> acc_keyed (fold (\<lambda>x. addIp f port (g x)) xs a)
     \<and> (acc_admits same h dport (fold (\<lambda>x. addIp f port (g x)) xs a) \<longleftrightarrow>
         (f = h \<and> port_admits port dport \<and> (\<exists>x \<in> set xs. same (g x))) \<or> acc_admits same h dport a)
     \<and> ac_wildcards (fold (\<lambda>x. addIp f port (g x)) xs a) = ac_wildcards a"
proof (induction xs arbitrary: a)
  case (Cons x xs)
  from Cons.IH [OF addIp_admits(1) [OF Cons.prems]] addIp_admits(2,3) [OF Cons.prems] show ?case by auto
qed simp

text \<open>The addresses an exact hostname stands for, as they go into the sets.\<close>

fun answers :: "ip_family \<Rightarrow> resolved_addresses \<Rightarrow> string list" where
  "answers V4 r = ra_v4 r"
| "answers V6 r = map toLowerCase (ra_v6 r)"

lemma add_answers_admits:
  assumes "acc_keyed a"
  shows "acc_keyed (add_answers port r a)"
    "acc_admits same h dport (add_answers port r a) \<longleftrightarrow>
       (port_admits port dport \<and> (\<exists>x \<in> set (answers h r). same x)) \<or> acc_admits same h dport a"
    "ac_wildcards (add_answers port r a) = ac_wildcards a"
  using fold_addIp_admits [OF assms, of V4 port "\<lambda>x. x" "ra_v4 r" same h dport]
    fold_addIp_admits [of "fold (addIp V4 port) (ra_v4 r) a" V6 port toLowerCase "ra_v6 r" same h dport]
  by (cases h; auto simp: add_answers_def)+

subsection \<open>What the patterns admit\<close>

text \<open>
  The literals and the exact hostnames, the \<open>k\<close>-th lookup being the next one; and the wildcards, with their index.
\<close>

fun exact_admits :: "host_resolver \<Rightarrow> (string \<Rightarrow> bool) \<Rightarrow> ip_family \<Rightarrow> nat option \<Rightarrow> nat \<Rightarrow> egress_pattern list \<Rightarrow> bool" where
  "exact_admits rs same f dport k [] = False"
| "exact_admits rs same f dport k (IpPattern g address port # ps) =
     ((f = g \<and> same address \<and> port_admits port dport) \<or> exact_admits rs same f dport k ps)"
| "exact_admits rs same f dport k (HostPattern WildcardHost host port # ps) = exact_admits rs same f dport k ps"
| "exact_admits rs same f dport k (HostPattern ExactHost host port # ps) =
     ((case rs k host of None \<Rightarrow> False | Some r \<Rightarrow> port_admits port dport \<and> (\<exists>x \<in> set (answers f r). same x))
      \<or> exact_admits rs same f dport (Suc k) ps)"

fun wildcards_of :: "nat \<Rightarrow> egress_pattern list \<Rightarrow> resolved_wildcard list" where
  "wildcards_of i [] = []"
| "wildcards_of i (HostPattern WildcardHost host port # ps) =
     \<lparr>rw_index = i, rw_baseDomain = host, rw_port = port\<rparr> # wildcards_of (Suc i) ps"
| "wildcards_of i (p # ps) = wildcards_of i ps"

lemma resolve_patterns_admits:
  "resolve_patterns rs t k ps a = Inr b \<Longrightarrow> acc_keyed a \<Longrightarrow>
     acc_keyed b
     \<and> (acc_admits same f dport b \<longleftrightarrow> exact_admits rs same f dport k ps \<or> acc_admits same f dport a)
     \<and> ac_wildcards b = ac_wildcards a @ wildcards_of (length (ac_wildcards a)) ps"
proof (induction rs t k ps a rule: resolve_patterns.induct)
  case (2 rs t k g address port ps a)
  then show ?case using addIp_admits [where a = a and f = g and port = port and x = address] by auto
next
  case (3 rs t k host port ps a)
  have "acc_keyed (add_wildcard host port a)" "acc_admits same f dport (add_wildcard host port a) = acc_admits same f dport a"
    using 3(3) by (auto simp: add_wildcard_def acc_keyed_def acc_admits_def split: ip_family.splits)
  with 3 show ?case by (auto simp: add_wildcard_def)
next
  case (4 rs t k host port ps a)
  then show ?case
    using add_answers_admits [where a = a and port = port] by (auto split: option.splits if_splits)
qed simp

definition lists_admit :: "(string \<Rightarrow> bool) \<Rightarrow> ip_family \<Rightarrow> nat option \<Rightarrow> resolved_lists \<Rightarrow> bool" where
  "lists_admit same f dport r = (case f of
      V4 \<Rightarrow> (\<exists>x \<in> set (re_exact4 r). same x) \<or> (\<exists>(x, p) \<in> set (re_exact4Port r). same x \<and> dport = Some p)
    | V6 \<Rightarrow> (\<exists>x \<in> set (re_exact6 r). same x) \<or> (\<exists>(x, p) \<in> set (re_exact6Port r). same x \<and> dport = Some p))"

lemma lists_admit_of: "lists_admit same f dport (resolved_of a) = acc_admits same f dport a"
  by (auto simp: lists_admit_def acc_admits_def resolved_of_def set_sort_by split: ip_family.split)

text \<open>The lists hold what the patterns admit, and the wildcards are the patterns' own, numbered in order.\<close>

lemma resolveSpec_admits:
  assumes "resolveSpec rs t (Restricted ps) = Inr R"
  obtains r where "R = ResolvedRestricted r" "re_wildcards r = wildcards_of 0 ps"
    "\<And>same f dport. lists_admit same f dport r \<longleftrightarrow> exact_admits rs same f dport 0 ps"
proof -
  from assms obtain a where a: "resolve_patterns rs (orElse t True) 0 ps empty_acc = Inr a" "R = ResolvedRestricted (resolved_of a)"
    by (auto simp: resolveSpec_def bindE_eq_Inr)
  have e: "acc_keyed empty_acc" "ac_wildcards empty_acc = []" "\<not> acc_admits same f dport empty_acc" for same f dport
    by (auto simp: empty_acc_def acc_keyed_def keyed_def acc_admits_def split: ip_family.split)
  show thesis
  proof (rule that [OF a(2)])
    show "re_wildcards (resolved_of a) = wildcards_of 0 ps"
      using resolve_patterns_admits [OF a(1) e(1)] e(2) by (simp add: resolved_of_def)
    show "lists_admit same f dport (resolved_of a) \<longleftrightarrow> exact_admits rs same f dport 0 ps" for same f dport
      using resolve_patterns_admits [OF a(1) e(1), of same f dport] e(3) [of same f dport] by (simp add: lists_admit_of)
  qed
qed

text \<open>With the default options a host that answers nothing is let be, and the run fails only when the resolver rejects.\<close>

lemma resolve_tolerant:
  assumes "\<And>k h. rs k h \<noteq> None"
  shows "\<exists>b. resolve_patterns rs True k ps a = Inr b"
  using assms by (induction rs True k ps a rule: resolve_patterns.induct) (auto split: option.splits)

end
