(* ===== verification/Egress_Ruleset.thy ===== *)
theory Egress_Ruleset
  imports Egress_Resolver
begin

text \<open>
  \<^verbatim>\<open>src/rootd/network/ruleset.ts\<close> and the table names of \<^verbatim>\<open>port_forward.ts\<close>: the nft table of a sandbox, its sets and
  rules, and the scripts they are rendered to.

  The source keeps a rule as its text. The model keeps its matches and its verdict, and \<open>rule_text\<close> is the text the
  source pushes; a set element is kept the same way. A sandbox id is a full JavaScript string (\<open>utf16\<close>) here.
\<close>

datatype egress_ruleset_error = EgressRulesetError string

record sandbox_network_handle =
  nh_sandboxId :: utf16
  nh_tapDevice :: string
  nh_netns :: "string option"
  nh_guestIp :: string
  nh_guestIp6 :: "string option"

subsection \<open>Table names\<close>

definition TABLE_PREFIX :: string where
  "TABLE_PREFIX = ''sbx_eg_''"

definition PORT_FORWARD_PREFIX :: string where
  "PORT_FORWARD_PREFIX = ''sbx_pf_''"

definition MAX_ID_BYTES :: nat where
  "MAX_ID_BYTES = 80"

definition table_char :: "char \<Rightarrow> bool" where
  "table_char c = (is_lower c \<or> is_digit c \<or> c = CHR ''_'')"

definition plain_byte :: "nat \<Rightarrow> bool" where
  "plain_byte b = ((97 \<le> b \<and> b \<le> 122) \<or> (48 \<le> b \<and> b \<le> 57))"

definition encodeByte :: "nat \<Rightarrow> string" where
  "encodeByte b = (if plain_byte b then [char_of b] else ''_'' @ hex2 b)"

definition encodeIdToken :: "utf16 \<Rightarrow> string" where
  "encodeIdToken i = concat (map encodeByte (utf8_encode i))"

definition egressTableName :: "utf16 \<Rightarrow> egress_ruleset_error + string" where
  "egressTableName sandboxId =
     bindE (requireE (sandboxId \<noteq> []) (EgressRulesetError ''sandbox id must be a non-empty string'')) (\<lambda>_.
     bindE (requireE (length (utf8_encode sandboxId) \<le> MAX_ID_BYTES)
       (EgressRulesetError ''sandbox id is too long for a table name'')) (\<lambda>_.
     let name = TABLE_PREFIX @ encodeIdToken sandboxId
     in bindE (requireE (\<not> (255 < length name \<or> name = [] \<or> \<not> list_all table_char name))
          (EgressRulesetError ''sandbox id does not yield a valid table name'')) (\<lambda>_. Inr name)))"

definition portForwardTableName :: "utf16 \<Rightarrow> egress_ruleset_error + string" where
  "portForwardTableName sandboxId =
     bindE (egressTableName sandboxId) (\<lambda>egress. Inr (PORT_FORWARD_PREFIX @ drop (length TABLE_PREFIX) egress))"

subsection \<open>Sets and rules\<close>

datatype transport = TCP | UDP

datatype nft_element = AddrElem string | PairElem string nat | RangeElem string

datatype set_type = AddrSet ip_family | AddrPortSet ip_family

record nft_set =
  ns_name :: string
  ns_type :: set_type
  ns_elements :: "nft_element list"
  ns_flags :: "string list"

datatype nft_verdict = Accept | Drop

datatype nft_match =
    IifNot string
  | SrcNot ip_family string
  | NfprotoIpv6
  | CtEstablished
  | DstIs ip_family string
  | DstIn ip_family string
  | DstNotIn ip_family string
  | Dport transport nat
  | DstPortIn ip_family transport string

type_synonym nft_rule = "nft_match list \<times> nft_verdict"

record nft_ruleset =
  nr_tableName :: string
  nr_chainName :: string
  nr_sets :: "nft_set list"
  nr_rules :: "nft_rule list"
  nr_unrestricted :: bool

definition CHAIN_NAME :: string where
  "CHAIN_NAME = ''egress''"

definition DNS_PORT :: nat where
  "DNS_PORT = 53"

definition BLOCKED4_RANGES :: "string list" where
  "BLOCKED4_RANGES = [''10.0.0.0/8'', ''127.0.0.0/8'', ''169.254.0.0/16'', ''172.16.0.0/12'', ''192.168.0.0/16'']"

definition BLOCKED6_RANGES :: "string list" where
  "BLOCKED6_RANGES = [''::1/128'', ''fc00::/7'', ''fe80::/10'']"

definition blocked_name :: "ip_family \<Rightarrow> string" where
  "blocked_name f = (case f of V4 \<Rightarrow> ''blocked4'' | V6 \<Rightarrow> ''blocked6'')"

definition allow_name :: "ip_family \<Rightarrow> string" where
  "allow_name f = (case f of V4 \<Rightarrow> ''allow4'' | V6 \<Rightarrow> ''allow6'')"

definition allow_port_name :: "ip_family \<Rightarrow> string" where
  "allow_port_name f = allow_name f @ ''_port''"

definition wild_name :: "ip_family \<Rightarrow> nat \<Rightarrow> string" where
  "wild_name f i = (case f of V4 \<Rightarrow> ''wild4_'' | V6 \<Rightarrow> ''wild6_'') @ dec i"

definition address_set :: "string \<Rightarrow> ip_family \<Rightarrow> string list \<Rightarrow> nft_set" where
  "address_set name f xs = \<lparr>ns_name = name, ns_type = AddrSet f, ns_elements = map AddrElem xs, ns_flags = []\<rparr>"

definition pair_set :: "ip_family \<Rightarrow> (string \<times> nat) list \<Rightarrow> nft_set" where
  "pair_set f xs = \<lparr>ns_name = allow_port_name f, ns_type = AddrPortSet f,
     ns_elements = map (\<lambda>(a, p). PairElem a p) xs, ns_flags = []\<rparr>"

definition blocked_set :: "ip_family \<Rightarrow> string list \<Rightarrow> nft_set" where
  "blocked_set f ranges = \<lparr>ns_name = blocked_name f, ns_type = AddrSet f, ns_elements = map RangeElem ranges,
     ns_flags = [''interval'']\<rparr>"

definition tap_name_ok :: "string \<Rightarrow> bool" where
  "tap_name_ok tap = (1 \<le> length tap \<and> length tap \<le> 15
     \<and> list_all (\<lambda>c. is_alnum c \<or> c \<in> {CHR ''_'', CHR ''.'', CHR ''-''}) tap)"

definition requireTapName :: "string \<Rightarrow> egress_ruleset_error + string" where
  "requireTapName tap = bindE (requireE (tap_name_ok tap)
     (EgressRulesetError ''tapDevice must be a valid interface name'')) (\<lambda>_. Inr tap)"

definition family_digit :: "ip_family \<Rightarrow> string" where
  "family_digit f = (case f of V4 \<Rightarrow> ''v4'' | V6 \<Rightarrow> ''v6'')"

definition requireIp :: "string \<Rightarrow> ip_family \<Rightarrow> string \<Rightarrow> egress_ruleset_error + string" where
  "requireIp v family field = (case parseIpLiteral v of
      Some (f, address) \<Rightarrow> bindE (requireE (f = family)
        (EgressRulesetError (field @ '' must be a valid IP'' @ family_digit family @ '' address''))) (\<lambda>_. Inr address)
    | None \<Rightarrow> Inl (EgressRulesetError (field @ '' must be a valid IP'' @ family_digit family @ '' address'')))"

definition requireAnyIp :: "string \<Rightarrow> string \<Rightarrow> egress_ruleset_error + ip_family \<times> string" where
  "requireAnyIp v field = (case parseIpLiteral v of
      Some ip \<Rightarrow> Inr ip | None \<Rightarrow> Inl (EgressRulesetError (field @ '' must be a valid IP address'')))"

definition requireResolvers :: "string list \<Rightarrow> egress_ruleset_error + (ip_family \<times> string) list" where
  "requireResolvers rs =
     mapE (\<lambda>(i, a). requireAnyIp a (''resolvers['' @ dec i @ '']'')) (enumerate 0 rs)"

definition dns_rules :: "(ip_family \<times> string) list \<Rightarrow> nft_rule list" where
  "dns_rules rs = concat (map (\<lambda>(f, a). [([DstIs f a, Dport UDP DNS_PORT], Accept), ([DstIs f a, Dport TCP DNS_PORT], Accept)]) rs)"

definition exact_part :: "ip_family \<Rightarrow> string list \<Rightarrow> nft_set list \<times> nft_rule list" where
  "exact_part f xs = (if xs = [] then ([], [])
     else ([address_set (allow_name f) f xs], [([DstIn f (allow_name f)], Accept)]))"

definition port_part :: "ip_family \<Rightarrow> (string \<times> nat) list \<Rightarrow> nft_set list \<times> nft_rule list" where
  "port_part f xs = (if xs = [] then ([], [])
     else ([pair_set f xs], [([DstPortIn f TCP (allow_port_name f)], Accept), ([DstPortIn f UDP (allow_port_name f)], Accept)]))"

definition appendWildcard :: "resolved_wildcard \<Rightarrow> nft_set list \<times> nft_rule list" where
  "appendWildcard w =
     (let v4 = wild_name V4 (rw_index w); v6 = wild_name V6 (rw_index w);
          guard4 = [DstIn V4 v4, DstNotIn V4 (blocked_name V4)];
          guard6 = [DstIn V6 v6, DstNotIn V6 (blocked_name V6)]
      in ([address_set v4 V4 [], address_set v6 V6 []],
          case rw_port w of
            None \<Rightarrow> [(guard4, Accept), (guard6, Accept)]
          | Some p \<Rightarrow> [(guard4 @ [Dport TCP p], Accept), (guard4 @ [Dport UDP p], Accept),
                       (guard6 @ [Dport TCP p], Accept), (guard6 @ [Dport UDP p], Accept)]))"

definition join_parts :: "(nft_set list \<times> nft_rule list) list \<Rightarrow> nft_set list \<times> nft_rule list" where
  "join_parts ps = (concat (map fst ps), concat (map snd ps))"

definition wildcard_part :: "resolved_wildcard list \<Rightarrow> nft_set list \<times> nft_rule list" where
  "wildcard_part ws = (if ws = [] then ([], [])
     else join_parts (([blocked_set V4 BLOCKED4_RANGES, blocked_set V6 BLOCKED6_RANGES], []) # map appendWildcard ws))"

definition allow_part :: "resolved_lists \<Rightarrow> nft_set list \<times> nft_rule list" where
  "allow_part r = join_parts [exact_part V4 (re_exact4 r), exact_part V6 (re_exact6 r),
     port_part V4 (re_exact4Port r), port_part V6 (re_exact6Port r), wildcard_part (re_wildcards r)]"

definition preamble_rules :: "string \<Rightarrow> string \<Rightarrow> string option \<Rightarrow> nft_rule list" where
  "preamble_rules tap guestIp guestIp6 =
     [([IifNot tap], Accept), ([SrcNot V4 guestIp], Drop),
      (case guestIp6 of Some a \<Rightarrow> ([SrcNot V6 a], Drop) | None \<Rightarrow> ([NfprotoIpv6], Drop)),
      ([CtEstablished], Accept)]"

definition requireIp6 :: "string option \<Rightarrow> egress_ruleset_error + string option" where
  "requireIp6 v = (case v of None \<Rightarrow> Inr None | Some a \<Rightarrow> bindE (requireIp a V6 ''guestIp6'') (\<lambda>x. Inr (Some x)))"

definition generateRuleset :: "resolved_egress \<Rightarrow> sandbox_network_handle \<Rightarrow> string list
    \<Rightarrow> egress_ruleset_error + nft_ruleset" where
  "generateRuleset resolved handle resolvers =
     bindE (egressTableName (nh_sandboxId handle)) (\<lambda>tableName.
     bindE (requireTapName (nh_tapDevice handle)) (\<lambda>tap.
     bindE (requireIp (nh_guestIp handle) V4 ''guestIp'') (\<lambda>guestIp.
     bindE (requireIp6 (nh_guestIp6 handle)) (\<lambda>guestIp6.
     bindE (requireResolvers resolvers) (\<lambda>rs.
       case resolved of
         ResolvedUnrestricted \<Rightarrow> Inr \<lparr>nr_tableName = tableName, nr_chainName = CHAIN_NAME, nr_sets = [], nr_rules = [],
             nr_unrestricted = True\<rparr>
       | ResolvedRestricted r \<Rightarrow> Inr \<lparr>nr_tableName = tableName, nr_chainName = CHAIN_NAME, nr_sets = fst (allow_part r),
             nr_rules = preamble_rules tap guestIp guestIp6 @ dns_rules rs @ snd (allow_part r) @ [([], Drop)],
             nr_unrestricted = False\<rparr>)))))"

definition generateSealRuleset :: "sandbox_network_handle \<Rightarrow> egress_ruleset_error + nft_ruleset" where
  "generateSealRuleset handle =
     bindE (egressTableName (nh_sandboxId handle)) (\<lambda>tableName.
     bindE (requireTapName (nh_tapDevice handle)) (\<lambda>tap.
       Inr \<lparr>nr_tableName = tableName, nr_chainName = CHAIN_NAME, nr_sets = [],
         nr_rules = [([IifNot tap], Accept), ([], Drop)], nr_unrestricted = False\<rparr>))"

subsection \<open>The text of a ruleset\<close>

definition family_word :: "ip_family \<Rightarrow> string" where
  "family_word f = (case f of V4 \<Rightarrow> ''ip'' | V6 \<Rightarrow> ''ip6'')"

definition transport_word :: "transport \<Rightarrow> string" where
  "transport_word t = (case t of TCP \<Rightarrow> ''tcp'' | UDP \<Rightarrow> ''udp'')"

fun match_text :: "nft_match \<Rightarrow> string" where
  "match_text (IifNot tap) = ''iifname != \"'' @ tap @ ''\"''"
| "match_text (SrcNot f a) = family_word f @ '' saddr != '' @ a"
| "match_text NfprotoIpv6 = ''meta nfproto ipv6''"
| "match_text CtEstablished = ''ct state established,related''"
| "match_text (DstIs f a) = family_word f @ '' daddr '' @ a"
| "match_text (DstIn f s) = family_word f @ '' daddr @'' @ s"
| "match_text (DstNotIn f s) = family_word f @ '' daddr != @'' @ s"
| "match_text (Dport t n) = transport_word t @ '' dport '' @ dec n"
| "match_text (DstPortIn f t s) = family_word f @ '' daddr . '' @ transport_word t @ '' dport @'' @ s"

definition verdict_text :: "nft_verdict \<Rightarrow> string" where
  "verdict_text v = (case v of Accept \<Rightarrow> ''accept'' | Drop \<Rightarrow> ''drop'')"

definition rule_text :: "nft_rule \<Rightarrow> string" where
  "rule_text r = join '' '' (map match_text (fst r) @ [verdict_text (snd r)])"

fun element_text :: "nft_element \<Rightarrow> string" where
  "element_text (AddrElem a) = a"
| "element_text (PairElem a p) = a @ '' . '' @ dec p"
| "element_text (RangeElem a) = a"

definition type_text :: "set_type \<Rightarrow> string" where
  "type_text t = (case t of AddrSet V4 \<Rightarrow> ''ipv4_addr'' | AddrSet V6 \<Rightarrow> ''ipv6_addr''
     | AddrPortSet V4 \<Rightarrow> ''ipv4_addr . inet_service'' | AddrPortSet V6 \<Rightarrow> ''ipv6_addr . inet_service'')"

definition tab :: string where
  "tab = [CHR 0x09]"

definition newline :: string where
  "newline = [CHR 0x0A]"

definition set_lines :: "nft_set \<Rightarrow> string list" where
  "set_lines s =
     [tab @ ''set '' @ ns_name s @ '' {'', tab @ tab @ ''type '' @ type_text (ns_type s)]
     @ (if ns_flags s \<noteq> [] then [tab @ tab @ ''flags '' @ join '','' (ns_flags s)] else [])
     @ (if ns_elements s \<noteq> []
        then [tab @ tab @ ''elements = { '' @ join '', '' (map element_text (ns_elements s)) @ '' }''] else [])
     @ [tab @ ''}'']"

definition HOOK_DECL :: string where
  "HOOK_DECL = ''type filter hook forward priority 0; policy accept;''"

definition renderNftScript :: "nft_ruleset \<Rightarrow> string" where
  "renderNftScript r = join newline
     ([''table inet '' @ nr_tableName r @ '' {''] @ concat (map set_lines (nr_sets r))
      @ [tab @ ''chain '' @ nr_chainName r @ '' {'', tab @ tab @ HOOK_DECL]
      @ map (\<lambda>x. tab @ tab @ rule_text x) (nr_rules r) @ [tab @ ''}'', ''}'']) @ newline"

definition renderApplyScript :: "nft_ruleset \<Rightarrow> string" where
  "renderApplyScript r = join newline [''add table inet '' @ nr_tableName r, ''delete table inet '' @ nr_tableName r]
     @ newline @ renderNftScript r"

definition renderReclaimScript :: "string \<Rightarrow> string" where
  "renderReclaimScript tableName = join newline [''add table inet '' @ tableName, ''delete table inet '' @ tableName, []]"

definition renderDnsmasqFragment :: "resolved_egress \<Rightarrow> string \<Rightarrow> string" where
  "renderDnsmasqFragment resolved tableName = (case resolved of
      ResolvedUnrestricted \<Rightarrow> []
    | ResolvedRestricted r \<Rightarrow>
        if re_wildcards r = [] then []
        else join newline (''stop-dns-rebind'' # map (\<lambda>w.
          ''nftset=/'' @ rw_baseDomain w @ ''/4#inet#'' @ tableName @ ''#wild4_'' @ dec (rw_index w) @ '',''
          @ ''6#inet#'' @ tableName @ ''#wild6_'' @ dec (rw_index w)) (re_wildcards r)) @ newline)"

subsection \<open>The names are injective\<close>

lemma plain_byte_char: "plain_byte b \<Longrightarrow> b < 256 \<and> char_of b \<noteq> CHR ''_''"
proof -
  assume b: "plain_byte b"
  then have "b < 256" by (auto simp: plain_byte_def)
  then have "of_char (char_of b :: char) = b" by simp
  moreover have "of_char CHR ''_'' = (95 :: nat)" by simp
  ultimately have "char_of b = CHR ''_'' \<longrightarrow> b = 95" by metis
  with b \<open>b < 256\<close> show ?thesis by (auto simp: plain_byte_def)
qed

lemma char_of_inject: "b < 256 \<Longrightarrow> c < 256 \<Longrightarrow> char_of b = (char_of c :: char) \<longleftrightarrow> b = (c :: nat)"
  by (metis mod_less of_char_of)

lemma encodeByte_prefix:
  assumes "encodeByte b @ s = encodeByte c @ t" "b < 256" "c < 256"
  shows "b = c \<and> s = t"
proof (cases "plain_byte b"; cases "plain_byte c")
  assume n: "\<not> plain_byte b" "\<not> plain_byte c"
  with assms(1) have "hex2 b @ s = hex2 c @ t" by (simp add: encodeByte_def)
  moreover have "length (hex2 b) = length (hex2 c)" using assms(2,3) by simp
  ultimately show ?thesis using hex2_inject assms(2,3) by simp
next
  assume n: "plain_byte b" "\<not> plain_byte c"
  with assms(1) plain_byte_char [OF n(1)] show ?thesis by (simp add: encodeByte_def)
next
  assume n: "\<not> plain_byte b" "plain_byte c"
  with assms(1) plain_byte_char [OF n(2)] show ?thesis by (metis Cons_eq_appendI append_Cons encodeByte_def list.inject append_Nil)
qed (use assms char_of_inject in \<open>simp_all add: encodeByte_def\<close>)

lemma encodeBytes_inject:
  "concat (map encodeByte xs) = concat (map encodeByte ys) \<Longrightarrow> \<forall>b \<in> set xs. b < 256 \<Longrightarrow> \<forall>b \<in> set ys. b < 256 \<Longrightarrow> xs = ys"
proof (induction xs arbitrary: ys)
  case Nil
  have "encodeByte b \<noteq> []" for b by (simp add: encodeByte_def)
  with Nil show ?case by (cases ys) auto
next
  case (Cons b xs)
  then obtain c cs where ys: "ys = c # cs" by (cases ys) (auto simp: encodeByte_def split: if_splits)
  with encodeByte_prefix [of b "concat (map encodeByte xs)" c "concat (map encodeByte cs)"] Cons.prems Cons.IH [of cs]
  show ?case by auto
qed

lemma utf8_bytes: "well_formed us \<Longrightarrow> b \<in> set (utf8_encode us) \<Longrightarrow> b < 256"
  using code_points_range utf8_cp_byte by (fastforce simp: utf8_encode_def)

lemma encodeIdToken_inject: "well_formed a \<Longrightarrow> well_formed b \<Longrightarrow> encodeIdToken a = encodeIdToken b \<Longrightarrow> a = b"
  using encodeBytes_inject [of "utf8_encode a" "utf8_encode b"] utf8_bytes utf8_encode_inject
  by (auto simp: encodeIdToken_def)

text \<open>The length and the letters of a name never fail: 80 bytes give at most 247 characters, all of them allowed.\<close>

lemma table_char_hex: "n < 16 \<Longrightarrow> table_char (digit_char n)"
proof -
  assume "n < 16"
  then have "n \<in> set [0..<16]" by simp
  moreover have "list_all (\<lambda>n. table_char (digit_char n)) [0..<16]"
    by (simp add: upt_rec table_char_def is_lower_def is_digit_def digit_char_def code_def)
  ultimately show ?thesis by (simp only: list_all_iff)
qed

lemma encodeByte_ok: "b < 256 \<Longrightarrow> list_all table_char (encodeByte b) \<and> length (encodeByte b) \<le> 3"
proof (cases "plain_byte b")
  case True
  then have "code (char_of b) = b" using plain_byte_char by (simp add: code_def)
  with True show ?thesis by (auto simp: encodeByte_def plain_byte_def table_char_def is_lower_def is_digit_def)
next
  case False
  assume "b < 256"
  then have "b div 16 < 16" "b mod 16 < 16" by simp_all
  with \<open>b < 256\<close> False show ?thesis by (simp add: encodeByte_def hex2_two table_char_hex) (simp add: table_char_def)
qed

lemma encodeIdToken_ok:
  assumes "well_formed i"
  shows "list_all table_char (encodeIdToken i)" "length (encodeIdToken i) \<le> 3 * length (utf8_encode i)"
proof -
  have "\<forall>b \<in> set bs. b < 256 \<Longrightarrow> list_all table_char (concat (map encodeByte bs))
      \<and> length (concat (map encodeByte bs)) \<le> 3 * length bs" for bs
    using encodeByte_ok by (induction bs) fastforce+
  then show "list_all table_char (encodeIdToken i)" "length (encodeIdToken i) \<le> 3 * length (utf8_encode i)"
    using utf8_bytes [OF assms] by (auto simp: encodeIdToken_def)
qed

lemma egressTableName_eq:
  assumes "well_formed i"
  shows "egressTableName i = (if i = [] then Inl (EgressRulesetError ''sandbox id must be a non-empty string'')
    else if 80 < length (utf8_encode i) then Inl (EgressRulesetError ''sandbox id is too long for a table name'')
    else Inr (TABLE_PREFIX @ encodeIdToken i))"
  using encodeIdToken_ok [OF assms]
  by (auto simp: egressTableName_def requireE_def MAX_ID_BYTES_def Let_def TABLE_PREFIX_def table_char_def is_lower_def code_def)

text \<open>
  C20. The nft tables of two sandboxes never share a name. Every non-empty id of at most 80 bytes of UTF-8 has an egress
  table and a port forward table, whose names stay below nft's limit and alphabet; two well-formed ids that are
  different have different egress tables and different forward tables, and no egress table is named like a forward
  table. Only the injectivity needs well-formed UTF-16: two lone surrogates get one name.
\<close>

theorem table_names_are_injective:
  "(well_formed i \<longrightarrow> is_ok (egressTableName i) = (i \<noteq> [] \<and> length (utf8_encode i) \<le> 80))
   \<and> (well_formed i \<and> well_formed j \<and> egressTableName i = Inr n \<and> egressTableName j = Inr n \<longrightarrow> i = j)
   \<and> (well_formed i \<and> well_formed j \<and> portForwardTableName i = Inr n \<and> portForwardTableName j = Inr n \<longrightarrow> i = j)
   \<and> (egressTableName i = Inr n \<longrightarrow> portForwardTableName j \<noteq> Inr n
        \<and> length n \<le> 255 \<and> list_all table_char n \<and> take 7 n = TABLE_PREFIX)
   \<and> egressTableName [55296] = egressTableName [55297]"
proof (intro conjI impI)
  show "is_ok (egressTableName i) = (i \<noteq> [] \<and> length (utf8_encode i) \<le> 80)" if "well_formed i"
    by (auto simp: egressTableName_eq [OF that])
  have drop: "egressTableName i = Inr n \<Longrightarrow> n = TABLE_PREFIX @ encodeIdToken i" for i n
    by (auto simp: egressTableName_def bindE_eq_Inr Let_def)
  then have fwd: "portForwardTableName i = Inr n \<Longrightarrow> n = PORT_FORWARD_PREFIX @ encodeIdToken i" for i n
    by (fastforce simp: portForwardTableName_def bindE_eq_Inr)
  show "i = j" if "well_formed i \<and> well_formed j \<and> egressTableName i = Inr n \<and> egressTableName j = Inr n"
    using that encodeIdToken_inject [of i j] drop [of i n] drop [of j n] by simp
  show "i = j" if "well_formed i \<and> well_formed j \<and> portForwardTableName i = Inr n \<and> portForwardTableName j = Inr n"
    using that encodeIdToken_inject [of i j] fwd [of i n] fwd [of j n] by simp
  assume n: "egressTableName i = Inr n"
  show "portForwardTableName j \<noteq> Inr n"
    using drop [OF n] fwd [of j n] by (auto simp: TABLE_PREFIX_def PORT_FORWARD_PREFIX_def)
  show "length n \<le> 255" "list_all table_char n" using n by (auto simp: egressTableName_def bindE_eq_Inr Let_def)
  show "take 7 n = TABLE_PREFIX" using drop [OF n] by (simp add: TABLE_PREFIX_def)
next
  show "egressTableName [55296] = egressTableName [55297]"
    by (simp add: egressTableName_def encodeIdToken_def utf8_encode_def is_high_def is_low_def)
qed

text \<open>The two ids of the source's comment, \<open>sbx-a-b\<close> and \<open>sbx-a_b\<close>, and their tables.\<close>

lemma example_table: "egressTableName (latin1 ''a-b'') = Inr ''sbx_eg_a_2db''"
proof -
  have bytes: "utf8_encode (latin1 ''a-b'') = [97, 45, 98]"
    by (simp add: latin1_def utf8_encode_def code_def is_high_def is_low_def utf8_cp_def)
  have "encodeIdToken (latin1 ''a-b'') = ''a_2db''"
    by (simp add: encodeIdToken_def bytes encodeByte_def plain_byte_def hex2_two digit_char_def) (simp add: char_of_def bit_iff_odd)
  then show ?thesis
    using egressTableName_eq [OF latin1_well_formed [of "''a-b''"]] bytes
    by (simp add: TABLE_PREFIX_def) (simp add: latin1_def)
qed

theorem table_names_are_injective_witness:
  "well_formed (latin1 ''a-b'') \<and> egressTableName (latin1 ''a-b'') = Inr ''sbx_eg_a_2db''
   \<and> portForwardTableName (latin1 ''a_b'') \<noteq> Inr ''sbx_eg_a_2db'' \<and> egressTableName (latin1 ''a_b'') \<noteq> Inr ''sbx_eg_a_2db''"
  using table_names_are_injective [of "latin1 ''a-b''" "latin1 ''a_b''" "''sbx_eg_a_2db''"]
    example_table latin1_well_formed [of "''a-b''"] latin1_well_formed [of "''a_b''"] latin1_inject [of "''a-b''" "''a_b''"]
  by auto

end
