(* ===== verification/Egress_Policy.thy ===== *)
theory Egress_Policy
  imports Egress_Ruleset
begin

text \<open>
  What the rules of \<^verbatim>\<open>ruleset.ts\<close> mean, and that they enforce \<open>allowNet\<close>.

  nft is not part of the repository. What it makes of a rule's text is the parameter \<open>nft\<close> of this theory, and \<open>nft_reads\<close>
  states what nft(8) documents for the forms of rule that the source emits. Addresses are the numbers their literals
  denote (\<open>nw_addr\<close>), a range of a blocked set is the block of addresses that its CIDR text denotes (\<open>cidr_holds\<close>), and
  \<open>nw_filled\<close> is what dnsmasq has put into a set by the time of the packet.
\<close>

record packet =
  pk_iif :: string
  pk_family :: ip_family
  pk_src :: nat
  pk_dst :: nat
  pk_proto :: "transport option"
  pk_dport :: nat
  pk_established :: bool

record nft_world =
  nw_addr :: "string \<Rightarrow> nat"
  nw_filled :: "string \<Rightarrow> nat \<Rightarrow> bool"

definition pk_port :: "packet \<Rightarrow> nat option" where
  "pk_port p = (if pk_proto p = None then None else Some (pk_dport p))"

subsection \<open>The documented meaning of a rule\<close>

text \<open>The number of an address in dotted or colon notation, and the addresses in \<open>base/length\<close>.\<close>

definition ip4_number :: "string \<Rightarrow> nat" where
  "ip4_number s = foldl (\<lambda>n part. 256 * n + parse_dec part) 0 (split_on CHR ''.'' s)"

definition hex_number :: "string \<Rightarrow> nat" where
  "hex_number g = foldl (\<lambda>n c. 16 * n + (if is_digit c then code c - 48 else code c - 87)) 0 g"

definition groups_number :: "string list \<Rightarrow> nat" where
  "groups_number gs = foldl (\<lambda>n g. 65536 * n + hex_number g) 0 gs"

definition ip6_number :: "string \<Rightarrow> nat" where
  "ip6_number s = (case indexOf s ''::'' of
      None \<Rightarrow> groups_number (groups_of s)
    | Some i \<Rightarrow>
        (let h = groups_of (take i s); t = groups_of (drop (i + 2) s)
         in groups_number (h @ replicate (8 - (length h + length t)) ''0'' @ t)))"

definition cidr_holds :: "string \<Rightarrow> nat \<Rightarrow> bool" where
  "cidr_holds x a = (case split_on CHR ''/'' x of
      [base, len] \<Rightarrow>
        (if CHR '':'' \<in> set base then a div 2 ^ (128 - parse_dec len) = ip6_number base div 2 ^ (128 - parse_dec len)
         else a div 2 ^ (32 - parse_dec len) = ip4_number base div 2 ^ (32 - parse_dec len))
    | _ \<Rightarrow> False)"

fun addr_elem :: "nft_world \<Rightarrow> nat \<Rightarrow> nft_element \<Rightarrow> bool" where
  "addr_elem W a (AddrElem x) = (a = nw_addr W x)"
| "addr_elem W a (RangeElem x) = cidr_holds x a"
| "addr_elem W a (PairElem x p) = False"

fun pair_elem :: "nft_world \<Rightarrow> nat \<Rightarrow> nat \<Rightarrow> nft_element \<Rightarrow> bool" where
  "pair_elem W a n (PairElem x p) = (a = nw_addr W x \<and> n = p)"
| "pair_elem W a n e = False"

definition in_set :: "nft_world \<Rightarrow> nft_set list \<Rightarrow> string \<Rightarrow> nat \<Rightarrow> bool" where
  "in_set W sets name a = (nw_filled W name a \<or> (\<exists>s \<in> set sets. ns_name s = name \<and> (\<exists>e \<in> set (ns_elements s). addr_elem W a e)))"

definition in_pair_set :: "nft_world \<Rightarrow> nft_set list \<Rightarrow> string \<Rightarrow> nat \<Rightarrow> nat \<Rightarrow> bool" where
  "in_pair_set W sets name a n = (\<exists>s \<in> set sets. ns_name s = name \<and> (\<exists>e \<in> set (ns_elements s). pair_elem W a n e))"

fun match_holds :: "nft_world \<Rightarrow> nft_set list \<Rightarrow> packet \<Rightarrow> nft_match \<Rightarrow> bool" where
  "match_holds W sets p (IifNot tap) = (pk_iif p \<noteq> tap)"
| "match_holds W sets p (SrcNot f a) = (pk_family p = f \<and> pk_src p \<noteq> nw_addr W a)"
| "match_holds W sets p NfprotoIpv6 = (pk_family p = V6)"
| "match_holds W sets p CtEstablished = pk_established p"
| "match_holds W sets p (DstIs f a) = (pk_family p = f \<and> pk_dst p = nw_addr W a)"
| "match_holds W sets p (DstIn f s) = (pk_family p = f \<and> in_set W sets s (pk_dst p))"
| "match_holds W sets p (DstNotIn f s) = (pk_family p = f \<and> \<not> in_set W sets s (pk_dst p))"
| "match_holds W sets p (Dport t n) = (pk_proto p = Some t \<and> pk_dport p = n)"
| "match_holds W sets p (DstPortIn f t s) =
     (pk_family p = f \<and> pk_proto p = Some t \<and> in_pair_set W sets s (pk_dst p) (pk_dport p))"

definition rule_verdict :: "nft_world \<Rightarrow> nft_set list \<Rightarrow> packet \<Rightarrow> nft_rule \<Rightarrow> nft_verdict option" where
  "rule_verdict W sets p r = (if list_all (match_holds W sets p) (fst r) then Some (snd r) else None)"

definition nft_reads :: "(string \<Rightarrow> packet \<Rightarrow> nft_verdict option) \<Rightarrow> nft_world \<Rightarrow> nft_ruleset \<Rightarrow> bool" where
  "nft_reads nft W R = (\<forall>r \<in> set (nr_rules R). \<forall>p. nft (rule_text r) p = rule_verdict W (nr_sets R) p r)"

text \<open>A base chain: the first rule with a verdict decides, else its policy, \<open>accept\<close>.\<close>

fun chain_verdict :: "(string \<Rightarrow> packet \<Rightarrow> nft_verdict option) \<Rightarrow> string list \<Rightarrow> packet \<Rightarrow> nft_verdict" where
  "chain_verdict nft [] p = Accept"
| "chain_verdict nft (r # rs) p = (case nft r p of Some v \<Rightarrow> v | None \<Rightarrow> chain_verdict nft rs p)"

definition passes :: "(string \<Rightarrow> packet \<Rightarrow> nft_verdict option) \<Rightarrow> nft_ruleset \<Rightarrow> packet \<Rightarrow> bool" where
  "passes nft R p = (chain_verdict nft (map rule_text (nr_rules R)) p = Accept)"

fun rules_verdict :: "nft_world \<Rightarrow> nft_set list \<Rightarrow> nft_rule list \<Rightarrow> packet \<Rightarrow> nft_verdict" where
  "rules_verdict W sets [] p = Accept"
| "rules_verdict W sets (r # rs) p =
     (case rule_verdict W sets p r of Some v \<Rightarrow> v | None \<Rightarrow> rules_verdict W sets rs p)"

lemma passes_eq: "nft_reads nft W R \<Longrightarrow> passes nft R p \<longleftrightarrow> rules_verdict W (nr_sets R) (nr_rules R) p = Accept"
proof -
  assume n: "nft_reads nft W R"
  have "set rs \<subseteq> set (nr_rules R) \<Longrightarrow> chain_verdict nft (map rule_text rs) p = rules_verdict W (nr_sets R) rs p" for rs
    using n by (induction rs) (auto simp: nft_reads_def split: option.split)
  then show ?thesis by (simp add: passes_def)
qed

lemma rules_verdict_append:
  "rules_verdict W sets (rs @ rs') p = (case find (\<lambda>r. list_all (match_holds W sets p) (fst r)) rs of
     Some r \<Rightarrow> snd r | None \<Rightarrow> rules_verdict W sets rs' p)"
  by (induction rs) (auto simp: rule_verdict_def)

lemma rules_verdict_accepts:
  "\<forall>r \<in> set rs. snd r = Accept \<Longrightarrow>
     rules_verdict W sets (rs @ [([], Drop)]) p = Accept \<longleftrightarrow> (\<exists>r \<in> set rs. list_all (match_holds W sets p) (fst r))"
  by (induction rs) (auto simp: rule_verdict_def)

subsection \<open>The sets of a ruleset\<close>

lemma wild_name_fresh [simp]: "allow_name f \<noteq> wild_name g i" "allow_port_name f \<noteq> wild_name g i" "blocked_name f \<noteq> wild_name g i"
  by (cases f; cases g; simp add: allow_name_def allow_port_name_def blocked_name_def wild_name_def)+

lemma wild_name_inject [simp]: "wild_name f i = wild_name g j \<longleftrightarrow> f = g \<and> i = j"
  by (cases f; cases g) (auto simp: wild_name_def)

lemma names_inject [simp]:
  "allow_name f = allow_name g \<longleftrightarrow> f = g" "allow_port_name f = allow_port_name g \<longleftrightarrow> f = g"
  "blocked_name f = blocked_name g \<longleftrightarrow> f = g" "allow_name f \<noteq> allow_port_name g" "allow_name f \<noteq> blocked_name g"
  "allow_port_name f \<noteq> blocked_name g" "allow_port_name f \<noteq> allow_name g" "blocked_name f \<noteq> allow_name g"
  "blocked_name f \<noteq> allow_port_name g"
  by (cases f; cases g; simp add: allow_name_def allow_port_name_def blocked_name_def)+

definition wildcard_sets :: "resolved_wildcard list \<Rightarrow> nft_set list" where
  "wildcard_sets ws = concat (map (\<lambda>w. fst (appendWildcard w)) ws)"

definition wildcard_rules :: "resolved_wildcard list \<Rightarrow> nft_rule list" where
  "wildcard_rules ws = concat (map (\<lambda>w. snd (appendWildcard w)) ws)"

lemma wildcard_part_eq:
  "wildcard_part ws = (if ws = [] then [] else [blocked_set V4 BLOCKED4_RANGES, blocked_set V6 BLOCKED6_RANGES] @ wildcard_sets ws,
     wildcard_rules ws)"
  by (auto simp: wildcard_part_def join_parts_def wildcard_sets_def wildcard_rules_def comp_def)

lemma allow_part_eq:
  "fst (allow_part r) = fst (exact_part V4 (re_exact4 r)) @ fst (exact_part V6 (re_exact6 r))
     @ fst (port_part V4 (re_exact4Port r)) @ fst (port_part V6 (re_exact6Port r)) @ fst (wildcard_part (re_wildcards r))"
  "snd (allow_part r) = snd (exact_part V4 (re_exact4 r)) @ snd (exact_part V6 (re_exact6 r))
     @ snd (port_part V4 (re_exact4Port r)) @ snd (port_part V6 (re_exact6Port r)) @ wildcard_rules (re_wildcards r)"
  by (simp_all add: allow_part_def join_parts_def wildcard_part_eq)

text \<open>dnsmasq fills the sets that its \<open>nftset\<close> lines name, which are those of the wildcards.\<close>

definition fills_wildcards_only :: "nft_world \<Rightarrow> bool" where
  "fills_wildcards_only W = (\<forall>name a. nw_filled W name a \<longrightarrow> (\<exists>f i. name = wild_name f i))"

fun exact_of :: "ip_family \<Rightarrow> resolved_lists \<Rightarrow> string list" where
  "exact_of V4 r = re_exact4 r"
| "exact_of V6 r = re_exact6 r"

fun pairs_of :: "ip_family \<Rightarrow> resolved_lists \<Rightarrow> (string \<times> nat) list" where
  "pairs_of V4 r = re_exact4Port r"
| "pairs_of V6 r = re_exact6Port r"

fun blocked_ranges :: "ip_family \<Rightarrow> string list" where
  "blocked_ranges V4 = BLOCKED4_RANGES"
| "blocked_ranges V6 = BLOCKED6_RANGES"

lemma wildcard_set_cases: "s \<in> set (wildcard_sets ws) \<Longrightarrow> ns_elements s = [] \<and> (\<exists>f i. ns_name s = wild_name f i)"
  by (auto simp: wildcard_sets_def appendWildcard_def address_set_def Let_def)

lemma part_sets:
  "s \<in> set (fst (exact_part f xs)) \<Longrightarrow> s = address_set (allow_name f) f xs"
  "s \<in> set (fst (port_part f ps)) \<Longrightarrow> s = pair_set f ps"
  by (simp_all add: exact_part_def port_part_def split: if_splits)

lemma wildcard_part_sets:
  "s \<in> set (fst (wildcard_part ws)) \<Longrightarrow>
     (ws \<noteq> [] \<and> (s = blocked_set V4 BLOCKED4_RANGES \<or> s = blocked_set V6 BLOCKED6_RANGES)) \<or> s \<in> set (wildcard_sets ws)"
  by (simp add: wildcard_part_eq split: if_splits)

lemma allow_set_cases:
  assumes "s \<in> set (fst (allow_part r))"
  shows "(\<exists>f. s = address_set (allow_name f) f (exact_of f r)) \<or> (\<exists>f. s = pair_set f (pairs_of f r))
     \<or> (\<exists>f. s = blocked_set f (blocked_ranges f) \<and> re_wildcards r \<noteq> [])
     \<or> (ns_elements s = [] \<and> (\<exists>f i. ns_name s = wild_name f i))"
proof -
  from assms consider "s \<in> set (fst (exact_part V4 (re_exact4 r)))" | "s \<in> set (fst (exact_part V6 (re_exact6 r)))"
    | "s \<in> set (fst (port_part V4 (re_exact4Port r)))" | "s \<in> set (fst (port_part V6 (re_exact6Port r)))"
    | "s \<in> set (fst (wildcard_part (re_wildcards r)))"
    unfolding allow_part_eq set_append by blast
  then show ?thesis
  proof cases
    case 1
    then show ?thesis using part_sets(1) exact_of.simps(1) [of r] by metis
  next
    case 2
    then show ?thesis using part_sets(1) exact_of.simps(2) [of r] by metis
  next
    case 3
    then show ?thesis using part_sets(2) pairs_of.simps(1) [of r] by metis
  next
    case 4
    then show ?thesis using part_sets(2) pairs_of.simps(2) [of r] by metis
  next
    case 5
    then show ?thesis using wildcard_part_sets wildcard_set_cases blocked_ranges.simps by metis
  qed
qed

lemma allow_sets:
  "exact_of f r \<noteq> [] \<Longrightarrow> address_set (allow_name f) f (exact_of f r) \<in> set (fst (allow_part r))"
  "pairs_of f r \<noteq> [] \<Longrightarrow> pair_set f (pairs_of f r) \<in> set (fst (allow_part r))"
  "re_wildcards r \<noteq> [] \<Longrightarrow> blocked_set f (blocked_ranges f) \<in> set (fst (allow_part r))"
  by (cases f; simp add: allow_part_eq exact_part_def port_part_def wildcard_part_eq)+

text \<open>A set that is there when it has elements, and alone under its name.\<close>

definition holds_alone :: "nft_set list \<Rightarrow> nft_set \<Rightarrow> bool" where
  "holds_alone sets s0 = ((ns_elements s0 \<noteq> [] \<longrightarrow> s0 \<in> set sets)
     \<and> (\<forall>s \<in> set sets. ns_name s = ns_name s0 \<longrightarrow> s = s0 \<or> ns_elements s = []))"

lemma in_set_alone:
  "holds_alone sets s0 \<Longrightarrow> \<not> nw_filled W (ns_name s0) a \<Longrightarrow>
     in_set W sets (ns_name s0) a \<longleftrightarrow> (\<exists>e \<in> set (ns_elements s0). addr_elem W a e)"
  by (cases "ns_elements s0 = []") (fastforce simp: holds_alone_def in_set_def)+

lemma in_pair_set_alone:
  "holds_alone sets s0 \<Longrightarrow> in_pair_set W sets (ns_name s0) a n \<longleftrightarrow> (\<exists>e \<in> set (ns_elements s0). pair_elem W a n e)"
  by (cases "ns_elements s0 = []") (fastforce simp: holds_alone_def in_pair_set_def)+

lemma address_set_simps [simp]:
  "ns_name (address_set name f xs) = name" "ns_elements (address_set name f xs) = map AddrElem xs"
  "ns_name (pair_set f ps) = allow_port_name f" "ns_elements (pair_set f ps) = map (\<lambda>(a, p). PairElem a p) ps"
  "ns_name (blocked_set f xs) = blocked_name f" "ns_elements (blocked_set f xs) = map RangeElem xs"
  by (simp_all add: address_set_def pair_set_def blocked_set_def)

lemma allow_set_alone:
  "holds_alone (fst (allow_part r)) (address_set (allow_name f) f (exact_of f r))"
  "holds_alone (fst (allow_part r)) (pair_set f (pairs_of f r))"
  "re_wildcards r \<noteq> [] \<Longrightarrow> holds_alone (fst (allow_part r)) (blocked_set f (blocked_ranges f))"
  using allow_sets [where f = f and r = r] by (auto simp: holds_alone_def dest!: allow_set_cases)

lemma not_filled:
  "fills_wildcards_only W \<Longrightarrow> \<not> nw_filled W (allow_name f) a" "fills_wildcards_only W \<Longrightarrow> \<not> nw_filled W (blocked_name f) a"
  by (auto simp: fills_wildcards_only_def)

lemma in_allow_set:
  assumes "fills_wildcards_only W"
  shows "in_set W (fst (allow_part r)) (allow_name f) a \<longleftrightarrow> (\<exists>x \<in> set (exact_of f r). nw_addr W x = a)"
  using in_set_alone [OF allow_set_alone(1) [of r f], of W a] not_filled(1) [OF assms, of f a] by auto

lemma in_allow_port_set:
  "in_pair_set W (fst (allow_part r)) (allow_port_name f) a n \<longleftrightarrow> (\<exists>(x, p) \<in> set (pairs_of f r). nw_addr W x = a \<and> n = p)"
  using in_pair_set_alone [OF allow_set_alone(2) [of r f], of W a n] by (auto simp: split_def)

text \<open>
  The addresses that no wildcard may open, written out from the documentation and not from the source's list: the private
  networks 10/8, 172.16/12 and 192.168/16, loopback, link-local with the metadata address 169.254.169.254, and for IPv6
  loopback, fc00::/7 and fe80::/10.
\<close>

definition guarded :: "ip_family \<Rightarrow> nat \<Rightarrow> bool" where
  "guarded f a = (case f of
      V4 \<Rightarrow> a div 2 ^ 24 = 10 \<or> a div 2 ^ 20 = 16 * 172 + 1 \<or> a div 2 ^ 16 = 256 * 192 + 168
         \<or> a div 2 ^ 24 = 127 \<or> a div 2 ^ 16 = 256 * 169 + 254
    | V6 \<Rightarrow> a = 1 \<or> a div 2 ^ 121 = 126 \<or> a div 2 ^ 118 = 1018)"

lemma blocked4: "(\<exists>x \<in> set BLOCKED4_RANGES. cidr_holds x a) \<longleftrightarrow> guarded V4 a"
  by (simp add: BLOCKED4_RANGES_def cidr_holds_def ip4_number_def parse_dec_def code_def guarded_def) auto

lemma groups6:
  "groups_number (replicate 7 ''0'' @ [''1'']) = 1"
  "groups_number (''fc00'' # replicate 7 ''0'') = 126 * 2 ^ 121"
  "groups_number (''fe80'' # replicate 7 ''0'') = 1018 * 2 ^ 118"
proof -
  have seven: "replicate 7 x = [x, x, x, x, x, x, x]" for x :: string by (simp add: eval_nat_numeral)
  show "groups_number (replicate 7 ''0'' @ [''1'']) = 1" "groups_number (''fc00'' # replicate 7 ''0'') = 126 * 2 ^ 121"
    "groups_number (''fe80'' # replicate 7 ''0'') = 1018 * 2 ^ 118"
    by (simp_all add: seven groups_number_def hex_number_def is_digit_def code_def)
qed

lemma numbers6:
  "ip6_number ''::1'' = 1" "ip6_number ''fc00::'' = 126 * 2 ^ 121" "ip6_number ''fe80::'' = 1018 * 2 ^ 118"
  using groups6 by (simp_all add: ip6_number_def groups_of_def startsWith_def Let_def)

lemma blocked6: "(\<exists>x \<in> set BLOCKED6_RANGES. cidr_holds x a) \<longleftrightarrow> guarded V6 a"
proof -
  have "cidr_holds ''::1/128'' a \<longleftrightarrow> a = 1" by (simp add: cidr_holds_def numbers6 parse_dec_def code_def)
  moreover have "cidr_holds ''fc00::/7'' a \<longleftrightarrow> a div 2 ^ 121 = 126"
    by (simp add: cidr_holds_def numbers6 parse_dec_def code_def)
  moreover have "cidr_holds ''fe80::/10'' a \<longleftrightarrow> a div 2 ^ 118 = 1018"
    by (simp add: cidr_holds_def numbers6 parse_dec_def code_def)
  ultimately show ?thesis by (simp add: BLOCKED6_RANGES_def guarded_def)
qed

text \<open>100.64.0.0/10, which the documentation names among the blocked ranges, is in none of them.\<close>

lemma cgnat_is_not_blocked: "a div 2 ^ 22 = 4 * 100 + 1 \<Longrightarrow> \<not> (\<exists>x \<in> set BLOCKED4_RANGES. cidr_holds x a)"
  unfolding blocked4 by (auto simp: guarded_def)

lemma in_blocked_set:
  assumes "fills_wildcards_only W" "re_wildcards r \<noteq> []"
  shows "in_set W (fst (allow_part r)) (blocked_name f) a \<longleftrightarrow> guarded f a"
  using in_set_alone [OF allow_set_alone(3) [OF assms(2), of f], of W a] not_filled(2) [OF assms(1), of f a] blocked4 blocked6
  by (cases f) auto

lemma in_wild_set: "in_set W (fst (allow_part r)) (wild_name f i) a \<longleftrightarrow> nw_filled W (wild_name f i) a"
proof -
  have n: "wild_name f i \<noteq> allow_name g" "wild_name f i \<noteq> allow_port_name g" "wild_name f i \<noteq> blocked_name g" for g
    using wild_name_fresh [of g f i] by metis+
  have "\<not> (\<exists>s \<in> set (fst (allow_part r)). ns_name s = wild_name f i \<and> (\<exists>e \<in> set (ns_elements s). addr_elem W a e))"
    by (auto dest!: allow_set_cases simp: n [symmetric])
  then show ?thesis unfolding in_set_def by blast
qed

subsection \<open>The policy\<close>

definition own_source :: "nft_world \<Rightarrow> string \<Rightarrow> string option \<Rightarrow> packet \<Rightarrow> bool" where
  "own_source W guestIp guestIp6 p = (case pk_family p of
      V4 \<Rightarrow> pk_src p = nw_addr W guestIp
    | V6 \<Rightarrow> (case guestIp6 of None \<Rightarrow> False | Some a \<Rightarrow> pk_src p = nw_addr W a))"

definition to_resolver :: "nft_world \<Rightarrow> (ip_family \<times> string) list \<Rightarrow> packet \<Rightarrow> bool" where
  "to_resolver W rs p = (pk_port p = Some 53 \<and> (\<exists>a. (pk_family p, a) \<in> set rs \<and> nw_addr W a = pk_dst p))"

definition through_wildcard :: "nft_world \<Rightarrow> resolved_wildcard list \<Rightarrow> packet \<Rightarrow> bool" where
  "through_wildcard W ws p = (\<not> guarded (pk_family p) (pk_dst p)
     \<and> (\<exists>w \<in> set ws. port_admits (rw_port w) (pk_port p) \<and> nw_filled W (wild_name (pk_family p) (rw_index w)) (pk_dst p)))"

definition permitted :: "nft_world \<Rightarrow> resolved_lists \<Rightarrow> packet \<Rightarrow> bool" where
  "permitted W r p = (lists_admit (\<lambda>x. nw_addr W x = pk_dst p) (pk_family p) (pk_port p) r
     \<or> through_wildcard W (re_wildcards r) p)"

lemma exact_rules:
  assumes "fills_wildcards_only W"
  shows "(\<exists>q \<in> set (snd (exact_part f (exact_of f r))). list_all (match_holds W (fst (allow_part r)) p) (fst q)) \<longleftrightarrow>
    pk_family p = f \<and> (\<exists>x \<in> set (exact_of f r). nw_addr W x = pk_dst p)"
  by (auto simp: exact_part_def in_allow_set [OF assms])

lemma port_rules:
  "(\<exists>q \<in> set (snd (port_part f (pairs_of f r))). list_all (match_holds W (fst (allow_part r)) p) (fst q)) \<longleftrightarrow>
     pk_family p = f \<and> (\<exists>(x, n) \<in> set (pairs_of f r). nw_addr W x = pk_dst p \<and> pk_port p = Some n)"
proof -
  have t: "pk_proto p = None \<or> pk_proto p = Some TCP \<or> pk_proto p = Some UDP" by (cases "pk_proto p") (auto intro: transport.exhaust)
  then show ?thesis by (auto simp: port_part_def in_allow_port_set pk_port_def split: if_splits)
qed

lemma wildcard_rule:
  assumes "fills_wildcards_only W" "re_wildcards r \<noteq> []"
  shows "(\<exists>q \<in> set (snd (appendWildcard w)). list_all (match_holds W (fst (allow_part r)) p) (fst q)) \<longleftrightarrow>
    \<not> guarded (pk_family p) (pk_dst p) \<and> port_admits (rw_port w) (pk_port p)
    \<and> nw_filled W (wild_name (pk_family p) (rw_index w)) (pk_dst p)"
proof -
  have t: "pk_proto p = None \<or> pk_proto p = Some TCP \<or> pk_proto p = Some UDP" by (cases "pk_proto p") (auto intro: transport.exhaust)
  then show ?thesis
    by (cases "pk_family p"; cases "rw_port w")
      (auto simp: appendWildcard_def Let_def in_wild_set in_blocked_set [OF assms] port_admits_def pk_port_def)
qed

lemma wildcard_rules_hold:
  assumes "fills_wildcards_only W"
  shows "(\<exists>q \<in> set (wildcard_rules (re_wildcards r)). list_all (match_holds W (fst (allow_part r)) p) (fst q)) \<longleftrightarrow>
    through_wildcard W (re_wildcards r) p"
proof (cases "re_wildcards r = []")
  case False
  have "(\<exists>q \<in> set (wildcard_rules (re_wildcards r)). list_all (match_holds W (fst (allow_part r)) p) (fst q)) \<longleftrightarrow>
      (\<exists>w \<in> set (re_wildcards r). \<exists>q \<in> set (snd (appendWildcard w)). list_all (match_holds W (fst (allow_part r)) p) (fst q))"
    by (auto simp: wildcard_rules_def)
  then show ?thesis by (auto simp: wildcard_rule [OF assms False] through_wildcard_def)
qed (simp add: wildcard_rules_def through_wildcard_def)

lemma allow_rules_hold:
  assumes "fills_wildcards_only W"
  shows "(\<exists>q \<in> set (snd (allow_part r)). list_all (match_holds W (fst (allow_part r)) p) (fst q)) \<longleftrightarrow> permitted W r p"
  using exact_rules [OF assms, of V4 r p] exact_rules [OF assms, of V6 r p] port_rules [of V4 r W p] port_rules [of V6 r W p]
    wildcard_rules_hold [OF assms, of r p]
  unfolding allow_part_eq(2) permitted_def lists_admit_def set_append bex_Un
  by (cases "pk_family p") simp_all

lemma pk_port_cases:
  "pk_port p = Some n \<longleftrightarrow> (pk_proto p = Some TCP \<or> pk_proto p = Some UDP) \<and> pk_dport p = n"
  by (cases "pk_proto p") (auto simp: pk_port_def intro: transport.exhaust)

lemma dns_rules_hold:
  "(\<exists>q \<in> set (dns_rules rs). list_all (match_holds W sets p) (fst q)) \<longleftrightarrow> to_resolver W rs p"
proof (induction rs)
  case (Cons r rs)
  have "dns_rules (r # rs) = [([DstIs (fst r) (snd r), Dport UDP DNS_PORT], Accept),
      ([DstIs (fst r) (snd r), Dport TCP DNS_PORT], Accept)] @ dns_rules rs"
    by (cases r) (simp add: dns_rules_def)
  then have "(\<exists>q \<in> set (dns_rules (r # rs)). list_all (match_holds W sets p) (fst q)) \<longleftrightarrow>
      (pk_family p = fst r \<and> pk_dst p = nw_addr W (snd r) \<and> pk_port p = Some 53) \<or> to_resolver W rs p"
    using Cons.IH by (auto simp: pk_port_cases DNS_PORT_def)
  then show ?case by (cases r) (auto simp: to_resolver_def)
qed (simp add: dns_rules_def to_resolver_def)

lemma allow_rules_accept: "q \<in> set (snd (allow_part r)) \<Longrightarrow> snd q = Accept" "q \<in> set (dns_rules rs) \<Longrightarrow> snd q = Accept"
  by (auto simp: allow_part_eq exact_part_def port_part_def wildcard_rules_def appendWildcard_def dns_rules_def Let_def
      split: if_splits option.splits)

lemma preamble_verdict:
  "rules_verdict W sets (preamble_rules tap guestIp guestIp6 @ rs) p =
     (if pk_iif p \<noteq> tap then Accept
      else if \<not> own_source W guestIp guestIp6 p then Drop
      else if pk_established p then Accept else rules_verdict W sets rs p)"
  by (cases "pk_family p"; cases guestIp6) (simp_all add: preamble_rules_def rule_verdict_def own_source_def)

lemma ruleset_verdict:
  assumes "fills_wildcards_only W"
  shows "rules_verdict W (fst (allow_part r))
      (preamble_rules tap guestIp guestIp6 @ dns_rules rs @ snd (allow_part r) @ [([], Drop)]) p = Accept \<longleftrightarrow>
    pk_iif p \<noteq> tap \<or> (own_source W guestIp guestIp6 p \<and> (pk_established p \<or> to_resolver W rs p \<or> permitted W r p))"
proof -
  have "rules_verdict W (fst (allow_part r)) ((dns_rules rs @ snd (allow_part r)) @ [([], Drop)]) p = Accept
      \<longleftrightarrow> to_resolver W rs p \<or> permitted W r p"
    using allow_rules_accept dns_rules_hold [of rs W "fst (allow_part r)" p] allow_rules_hold [OF assms, of r p]
    by (subst rules_verdict_accepts) auto
  then show ?thesis by (simp add: preamble_verdict)
qed

subsection \<open>From \<open>allowNet\<close> to the verdict\<close>

definition literal :: "string \<Rightarrow> string" where
  "literal a = (case parseIpLiteral a of Some (f, x) \<Rightarrow> x | None \<Rightarrow> a)"

definition literals :: "string list \<Rightarrow> (ip_family \<times> string) list" where
  "literals rs = map (\<lambda>a. the (parseIpLiteral a)) rs"

text \<open>The packets that a sandbox's \<open>allowNet\<close> lets through, in terms of its patterns.\<close>

definition spec_permits :: "nft_world \<Rightarrow> host_resolver \<Rightarrow> sandbox_network_handle \<Rightarrow> string list \<Rightarrow> egress_spec \<Rightarrow> packet \<Rightarrow> bool" where
  "spec_permits W rs handle resolvers spec p = (case spec of
      Unrestricted \<Rightarrow> True
    | Restricted ps \<Rightarrow>
        pk_iif p \<noteq> nh_tapDevice handle
        \<or> (own_source W (literal (nh_guestIp handle)) (map_option literal (nh_guestIp6 handle)) p
           \<and> (pk_established p \<or> to_resolver W (literals resolvers) p
              \<or> exact_admits rs (\<lambda>x. nw_addr W x = pk_dst p) (pk_family p) (pk_port p) 0 ps
              \<or> through_wildcard W (wildcards_of 0 ps) p)))"

lemma requireIp_Inr: "requireIp v f field = Inr x \<Longrightarrow> x = literal v"
  by (auto simp: requireIp_def literal_def bindE_eq_Inr split: option.splits)

lemma requireIp6_Inr: "requireIp6 v = Inr x \<Longrightarrow> x = map_option literal v"
  by (auto simp: requireIp6_def bindE_eq_Inr dest: requireIp_Inr split: option.splits)

lemma requireResolvers_Inr: "requireResolvers rs = Inr xs \<Longrightarrow> xs = literals rs"
proof -
  have "mapE (\<lambda>(i, a). requireAnyIp a (''resolvers['' @ dec i @ '']'')) (enumerate n rs) = Inr xs \<Longrightarrow> xs = literals rs" for n
    by (induction rs arbitrary: n xs)
      (auto simp: bindE_eq_Inr literals_def requireAnyIp_def split: option.splits)
  then show "requireResolvers rs = Inr xs \<Longrightarrow> xs = literals rs" by (simp add: requireResolvers_def)
qed

lemma generateRuleset_restricted:
  assumes "generateRuleset (ResolvedRestricted r) handle resolvers = Inr R"
  shows "nr_sets R = fst (allow_part r)"
    "nr_rules R = preamble_rules (nh_tapDevice handle) (literal (nh_guestIp handle)) (map_option literal (nh_guestIp6 handle))
       @ dns_rules (literals resolvers) @ snd (allow_part r) @ [([], Drop)]"
  using assms
  by (auto simp: generateRuleset_def requireTapName_def bindE_eq_Inr dest!: requireIp_Inr requireIp6_Inr requireResolvers_Inr)

text \<open>
  C8. The installed rules enforce \<open>allowNet\<close>, from the raw value to the verdict on a packet. With an unset list everything
  passes. With a list, a packet that came from the sandbox's TAP passes exactly when its source is the sandbox's own
  address (no IPv6 at all without an IPv6 address) and it belongs to an established flow, asks a configured resolver on
  port 53, goes to a literal or to a looked-up address of an exact hostname of the list at the port given there, or to
  an address that dnsmasq filed under a wildcard of the list, at its port, and outside the private, loopback and link-local
  ranges (\<open>guarded\<close>), whatever dnsmasq filed; carrier-grade NAT, 100.64.0.0/10, is not kept from it. Packets of other interfaces pass. What nft makes of the text of a rule is a parameter; the assumption
  is nft's documented meaning of the rules of this table, and that dnsmasq fills no other set than the wildcards'.
\<close>

theorem ruleset_enforces_allow_net:
  assumes "parseAllowNet allowNet = Inr spec" "resolveSpec rs t spec = Inr resolved"
    "generateRuleset resolved handle resolvers = Inr R"
    "nft_reads nft W R" "fills_wildcards_only W"
  shows "passes nft R p \<longleftrightarrow> spec_permits W rs handle resolvers spec p"
proof (cases spec)
  case Unrestricted
  with assms(2,3) have "nr_rules R = []" by (auto simp: resolveSpec_def generateRuleset_def bindE_eq_Inr)
  with Unrestricted show ?thesis by (simp add: passes_def spec_permits_def)
next
  case (Restricted ps)
  from resolveSpec_admits [OF assms(2) [unfolded Restricted]] obtain r where r: "resolved = ResolvedRestricted r"
    "re_wildcards r = wildcards_of 0 ps" "\<And>same f n. lists_admit same f n r = exact_admits rs same f n 0 ps" by blast
  from generateRuleset_restricted [OF assms(3) [unfolded r(1)]] show ?thesis
    unfolding passes_eq [OF assms(4)]
    by (simp only: ruleset_verdict [OF assms(5)] permitted_def r(2,3) spec_permits_def Restricted egress_spec.case)
qed

text \<open>A sandbox that may reach one literal on one port.\<close>

definition example_handle :: sandbox_network_handle where
  "example_handle = \<lparr>nh_sandboxId = latin1 ''a-b'', nh_tapDevice = ''sbxtap0'', nh_netns = None,
     nh_guestIp = ''10.201.0.2'', nh_guestIp6 = None\<rparr>"

definition example_patterns :: "egress_pattern list" where
  "example_patterns = [IpPattern V4 ''1.2.3.4'' (Some 443)]"

definition example_world :: nft_world where
  "example_world = \<lparr>nw_addr = (\<lambda>s. if s = ''1.2.3.4'' then 1 else if s = ''10.201.0.2'' then 2 else 0),
     nw_filled = (\<lambda>_ _. False)\<rparr>"

definition example_packet :: "nat \<Rightarrow> packet" where
  "example_packet n = \<lparr>pk_iif = ''sbxtap0'', pk_family = V4, pk_src = 2, pk_dst = 1, pk_proto = Some TCP, pk_dport = n,
     pk_established = False\<rparr>"

definition nft_of :: "nft_world \<Rightarrow> nft_ruleset \<Rightarrow> string \<Rightarrow> packet \<Rightarrow> nft_verdict option" where
  "nft_of W R s p = (case find (\<lambda>r. rule_text r = s) (nr_rules R) of
      Some r \<Rightarrow> rule_verdict W (nr_sets R) p r | None \<Rightarrow> None)"

definition example_ruleset :: nft_ruleset where
  "example_ruleset = \<lparr>nr_tableName = ''sbx_eg_a_2db'', nr_chainName = ''egress'', nr_sets = [pair_set V4 [(''1.2.3.4'', 443)]],
     nr_rules = [([IifNot ''sbxtap0''], Accept), ([SrcNot V4 ''10.201.0.2''], Drop), ([NfprotoIpv6], Drop),
       ([CtEstablished], Accept), ([DstPortIn V4 TCP ''allow4_port''], Accept), ([DstPortIn V4 UDP ''allow4_port''], Accept),
       ([], Drop)], nr_unrestricted = False\<rparr>"

lemma nft_of_reads: "distinct (map rule_text (nr_rules R)) \<Longrightarrow> nft_reads (nft_of W R) W R"
proof -
  assume d: "distinct (map rule_text (nr_rules R))"
  have "r \<in> set rs \<Longrightarrow> distinct (map rule_text rs) \<Longrightarrow> find (\<lambda>q. rule_text q = rule_text r) rs = Some r" for r rs
    by (induction rs) force+
  with d show ?thesis by (simp add: nft_reads_def nft_of_def)
qed

lemma example_distinct: "distinct (map rule_text (nr_rules example_ruleset))"
  by (simp add: example_ruleset_def rule_text_def family_word_def transport_word_def verdict_text_def)

lemma example_literals: "isIpv4 ''1.2.3.4''" "isIpv4 ''10.201.0.2''"
  by (simp_all add: isIpv4_def ipv4_part_def is_digit_def code_def parse_dec_def)

lemma example_generates:
  "generateRuleset (ResolvedRestricted \<lparr>re_exact4 = [], re_exact6 = [], re_exact4Port = [(''1.2.3.4'', 443)],
     re_exact6Port = [], re_wildcards = []\<rparr>) example_handle [] = Inr example_ruleset"
  using example_literals example_table
  by (simp add: generateRuleset_def requireE_def example_handle_def example_ruleset_def requireTapName_def tap_name_ok_def is_alnum_def
      is_lower_def is_digit_def code_def requireIp_def parseIpLiteral_def requireIp6_def requireResolvers_def allow_part_def
      join_parts_def exact_part_def port_part_def wildcard_part_def preamble_rules_def dns_rules_def CHAIN_NAME_def
      allow_port_name_def allow_name_def)

theorem ruleset_enforces_allow_net_witness:
  "parseAllowNet (JArr [JStr ''1.2.3.4:443'']) = Inr (Restricted example_patterns)
   \<and> resolveSpec (\<lambda>_ _. None) None (Restricted example_patterns) = Inr (ResolvedRestricted
        \<lparr>re_exact4 = [], re_exact6 = [], re_exact4Port = [(''1.2.3.4'', 443)], re_exact6Port = [], re_wildcards = []\<rparr>)
   \<and> passes (nft_of example_world example_ruleset) example_ruleset (example_packet 443)
   \<and> \<not> passes (nft_of example_world example_ruleset) example_ruleset (example_packet 80)"
proof -
  have printed: "pattern_text (IpPattern V4 ''1.2.3.4'' (Some 443)) = ''1.2.3.4:443''"
    by (simp add: port_suffix_def dec_def to_radix.simps digit_char_def) (simp add: char_of_def bit_iff_odd)
  have "pattern_ok (IpPattern V4 ''1.2.3.4'' (Some 443))"
    using example_literals by (simp add: parseIpLiteral_def port_ok_def)
  from parse_pattern_text [OF this] have parse: "parseAllowNet (JArr [JStr ''1.2.3.4:443'']) = Inr (Restricted example_patterns)"
    unfolding printed by (simp add: parseAllowNet_def requireE_def parseEntry_def example_patterns_def MAX_ENTRIES_def)
  have resolve: "resolveSpec (\<lambda>_ _. None) None (Restricted example_patterns) = Inr (ResolvedRestricted
        \<lparr>re_exact4 = [], re_exact6 = [], re_exact4Port = [(''1.2.3.4'', 443)], re_exact6Port = [], re_wildcards = []\<rparr>)"
    by (simp add: resolveSpec_def example_patterns_def addIp_def empty_acc_def resolved_of_def sort_by_def)
  have fills: "fills_wildcards_only example_world" by (simp add: fills_wildcards_only_def example_world_def)
  show ?thesis
    using parse resolve ruleset_enforces_allow_net [OF parse resolve example_generates nft_of_reads [OF example_distinct] fills]
      example_literals
    by (simp add: spec_permits_def example_packet_def example_world_def example_handle_def example_patterns_def own_source_def
        literal_def parseIpLiteral_def literals_def to_resolver_def pk_port_def port_admits_def through_wildcard_def)
qed

end
