(* ===== verification/Network_Control.thy ===== *)
theory Network_Control
  imports Egress_Policy Subnet_Allocator
begin

text \<open>
  The imperative shells of the network: \<open>EgressController\<close> (\<^verbatim>\<open>src/rootd/network/apply.ts\<close>), \<open>NetworkController\<close>
  (\<^verbatim>\<open>dataplane.ts\<close>), \<open>DnsmasqController\<close> (\<^verbatim>\<open>dnsmasq.ts\<close>) and \<open>PortForwardController\<close> (\<^verbatim>\<open>port_forward.ts\<close>).

  Their seams (commands, files, signals) are the environment \<open>net_env\<close>: what each call answers, given all that
  happened before. Every call is an event of the trace, with its answer; the slots that the allocator hands out and takes
  back are events too. While a call is under way other operations may change the allocator (\<open>ne_other\<close>).
\<close>

subsection \<open>Effects\<close>

record command_result =
  cr_success :: bool
  cr_code :: nat
  cr_stderr :: string

datatype net_event =
    Ran string "string list" string "command_result option"
  | WroteFile string string bool
  | ReadFile string "string option"
  | RemovedFile string bool
  | Signalled int bool
  | SlotAllocated int
  | SlotReleased int

type_synonym net_trace = "net_event list"

record net_env =
  ne_run :: "net_trace \<Rightarrow> string \<Rightarrow> string list \<Rightarrow> string \<Rightarrow> command_result option"
  ne_write :: "net_trace \<Rightarrow> string \<Rightarrow> string \<Rightarrow> bool"
  ne_read :: "net_trace \<Rightarrow> string \<Rightarrow> string option"
  ne_remove :: "net_trace \<Rightarrow> string \<Rightarrow> bool"
  ne_signal :: "net_trace \<Rightarrow> int \<Rightarrow> bool"
  ne_other :: "net_trace \<Rightarrow> subnet_allocator \<Rightarrow> subnet_allocator"

record net_state =
  nt_trace :: net_trace
  nt_alloc :: subnet_allocator

text \<open>\<open>SeamRejected\<close>: the injected seam itself threw, as \<open>Deno.Command\<close> does when the binary is missing.\<close>

datatype net_exn =
    NetSpec egress_spec_error
  | NetResolve egress_resolve_error
  | NetRuleset egress_ruleset_error
  | EgressApplyError string bool
  | EgressReclaimError string
  | NetworkControllerError string
  | DnsmasqError string
  | PortForwardError string
  | PortForwardReclaimError string
  | NetSubnet net_error
  | SeamRejected

type_synonym 'a net = "net_state \<Rightarrow> net_state \<times> (net_exn + 'a)"

definition retN :: "'a \<Rightarrow> 'a net" where
  "retN x = (\<lambda>s. (s, Inr x))"

definition throwN :: "net_exn \<Rightarrow> 'a net" where
  "throwN e = (\<lambda>s. (s, Inl e))"

definition bindN :: "'a net \<Rightarrow> ('a \<Rightarrow> 'b net) \<Rightarrow> 'b net" where
  "bindN m f = (\<lambda>s. case m s of (t, Inl e) \<Rightarrow> (t, Inl e) | (t, Inr x) \<Rightarrow> f x t)"

definition attemptN :: "'a net \<Rightarrow> (net_exn + 'a) net" where
  "attemptN m = (\<lambda>s. case m s of (t, r) \<Rightarrow> (t, Inr r))"

text \<open>\<open>.catch(() => {})\<close>\<close>

definition ignoreN :: "'a net \<Rightarrow> unit net" where
  "ignoreN m = (\<lambda>s. (fst (m s), Inr ()))"

definition liftN :: "('e \<Rightarrow> net_exn) \<Rightarrow> 'e + 'a \<Rightarrow> 'a net" where
  "liftN f r = (case r of Inl e \<Rightarrow> throwN (f e) | Inr x \<Rightarrow> retN x)"

definition logN :: "net_event \<Rightarrow> net_state \<Rightarrow> net_state" where
  "logN e s = s\<lparr>nt_trace := nt_trace s @ [e]\<rparr>"

text \<open>An awaited call: its event, and what the others did to the allocator meanwhile.\<close>

definition awaitN :: "net_env \<Rightarrow> (net_trace \<Rightarrow> 'r) \<Rightarrow> ('r \<Rightarrow> net_event) \<Rightarrow> (net_state \<Rightarrow> net_state \<times> 'r)" where
  "awaitN E call ev = (\<lambda>s. let r = call (nt_trace s)
     in ((logN (ev r) s)\<lparr>nt_alloc := ne_other E (nt_trace s) (nt_alloc s)\<rparr>, r))"

definition runN :: "net_env \<Rightarrow> string \<Rightarrow> string list \<Rightarrow> string \<Rightarrow> command_result net" where
  "runN E bin args stdin = (\<lambda>s. case awaitN E (\<lambda>tr. ne_run E tr bin args stdin) (Ran bin args stdin) s of
      (t, None) \<Rightarrow> (t, Inl SeamRejected) | (t, Some r) \<Rightarrow> (t, Inr r))"

definition writeN :: "net_env \<Rightarrow> string \<Rightarrow> string \<Rightarrow> unit net" where
  "writeN E path contents = (\<lambda>s. case awaitN E (\<lambda>tr. ne_write E tr path contents) (WroteFile path contents) s of
      (t, ok) \<Rightarrow> (t, if ok then Inr () else Inl SeamRejected))"

definition readN :: "net_env \<Rightarrow> string \<Rightarrow> string net" where
  "readN E path = (\<lambda>s. case awaitN E (\<lambda>tr. ne_read E tr path) (ReadFile path) s of
      (t, None) \<Rightarrow> (t, Inl SeamRejected) | (t, Some x) \<Rightarrow> (t, Inr x))"

definition removeN :: "net_env \<Rightarrow> string \<Rightarrow> unit net" where
  "removeN E path = (\<lambda>s. case awaitN E (\<lambda>tr. ne_remove E tr path) (RemovedFile path) s of
      (t, ok) \<Rightarrow> (t, if ok then Inr () else Inl SeamRejected))"

text \<open>\<open>ProcessSignaller.signal\<close> is synchronous.\<close>

definition signalN :: "net_env \<Rightarrow> int \<Rightarrow> unit net" where
  "signalN E pid = (\<lambda>s. let ok = ne_signal E (nt_trace s) pid
     in (logN (Signalled pid ok) s, if ok then Inr () else Inl SeamRejected))"

subsection \<open>The egress controller\<close>

record egress_config =
  eg_nftBin :: string
  eg_ipBin :: string
  eg_resolvers :: "string list"
  eg_tolerateEmpty :: bool

definition egressConfig :: "string option \<Rightarrow> string option \<Rightarrow> string list option \<Rightarrow> bool option \<Rightarrow> egress_config" where
  "egressConfig nftBin ipBin resolvers tolerateEmpty =
     \<lparr>eg_nftBin = orElse nftBin ''nft'', eg_ipBin = orElse ipBin ''ip'', eg_resolvers = orElse resolvers [],
      eg_tolerateEmpty = orElse tolerateEmpty True\<rparr>"

record egress_applied =
  ap_tableName :: string
  ap_ruleset :: nft_ruleset
  ap_dnsmasqFragment :: string

definition egress_nft :: "net_env \<Rightarrow> egress_config \<Rightarrow> string \<Rightarrow> string option \<Rightarrow> command_result net" where
  "egress_nft E C script netns = (case netns of
      Some ns \<Rightarrow> runN E (eg_ipBin C) [''netns'', ''exec'', ns, eg_nftBin C, ''-f'', ''-''] script
    | None \<Rightarrow> runN E (eg_nftBin C) [''-f'', ''-''] script)"

definition egress_seal :: "net_env \<Rightarrow> egress_config \<Rightarrow> sandbox_network_handle \<Rightarrow> bool net" where
  "egress_seal E C handle =
     bindN (attemptN (bindN (liftN NetRuleset (generateSealRuleset handle)) (\<lambda>seal.
       bindN (egress_nft E C (renderApplyScript seal) (nh_netns handle)) (\<lambda>r. retN (cr_success r)))))
     (\<lambda>out. retN (case out of Inl _ \<Rightarrow> False | Inr sealed \<Rightarrow> sealed))"

definition egress_generate :: "egress_config \<Rightarrow> host_resolver \<Rightarrow> egress_spec \<Rightarrow> sandbox_network_handle \<Rightarrow> string list
    \<Rightarrow> net_exn + nft_ruleset \<times> string" where
  "egress_generate C rs spec handle resolvers = (case resolveSpec rs (Some (eg_tolerateEmpty C)) spec of
      Inl e \<Rightarrow> Inl (NetResolve e)
    | Inr resolved \<Rightarrow> (case generateRuleset resolved handle resolvers of
        Inl e \<Rightarrow> Inl (NetRuleset e)
      | Inr R \<Rightarrow> Inr (R, renderDnsmasqFragment resolved (nr_tableName R))))"

definition egress_apply :: "net_env \<Rightarrow> egress_config \<Rightarrow> host_resolver \<Rightarrow> egress_spec \<Rightarrow> sandbox_network_handle
    \<Rightarrow> string list option \<Rightarrow> egress_applied net" where
  "egress_apply E C rs spec handle resolvers = (case egress_generate C rs spec handle (orElse resolvers (eg_resolvers C)) of
      Inl _ \<Rightarrow> bindN (egress_seal E C handle) (\<lambda>sealed. throwN (EgressApplyError ''failed to generate egress ruleset'' sealed))
    | Inr (R, fragment) \<Rightarrow>
        bindN (egress_nft E C (renderApplyScript R) (nh_netns handle)) (\<lambda>r.
          if \<not> cr_success r
          then bindN (egress_seal E C handle) (\<lambda>sealed.
            throwN (EgressApplyError (''nft apply failed (exit '' @ dec (cr_code r) @ '')'') sealed))
          else retN \<lparr>ap_tableName = nr_tableName R, ap_ruleset = R, ap_dnsmasqFragment = fragment\<rparr>))"

definition applyAllowNet :: "net_env \<Rightarrow> egress_config \<Rightarrow> host_resolver \<Rightarrow> jsval \<Rightarrow> sandbox_network_handle
    \<Rightarrow> string list option \<Rightarrow> egress_applied net" where
  "applyAllowNet E C rs allowNet handle resolvers =
     bindN (liftN NetSpec (parseAllowNet allowNet)) (\<lambda>spec. egress_apply E C rs spec handle resolvers)"

definition egress_reclaim :: "net_env \<Rightarrow> egress_config \<Rightarrow> utf16 \<Rightarrow> string option \<Rightarrow> unit net" where
  "egress_reclaim E C sandboxId netns =
     bindN (liftN NetRuleset (egressTableName sandboxId)) (\<lambda>tableName.
     bindN (egress_nft E C (renderReclaimScript tableName) netns) (\<lambda>r.
       if \<not> cr_success r
       then throwN (EgressReclaimError (''nft reclaim failed for table '' @ tableName @ '' (exit '' @ dec (cr_code r) @ '')''))
       else retN ()))"

subsection \<open>The TAP devices and the shared tables\<close>

record network_config =
  nc_ipBin :: string
  nc_sysctlBin :: string
  nc_nftBin :: string
  nc_poolCidr :: string

definition networkConfig :: "string option \<Rightarrow> string option \<Rightarrow> string option \<Rightarrow> string option \<Rightarrow> network_config" where
  "networkConfig ipBin sysctlBin nftBin poolCidr =
     \<lparr>nc_ipBin = orElse ipBin ''ip'', nc_sysctlBin = orElse sysctlBin ''sysctl'', nc_nftBin = orElse nftBin ''nft'',
      nc_poolCidr = orElse poolCidr DEFAULT_POOL_CIDR\<rparr>"

definition GONE_MARKERS :: "string list" where
  "GONE_MARKERS = [''Cannot find device'', ''No such device'', ''No such file'', ''does not exist'', ''No such table'']"

definition EXISTS_MARKERS :: "string list" where
  "EXISTS_MARKERS = [''File exists'']"

definition net_tolerated :: "string list \<Rightarrow> command_result \<Rightarrow> bool" where
  "net_tolerated tolerate r = (cr_success r \<or> list_ex (\<lambda>marker. indexOf (cr_stderr r) marker \<noteq> None) tolerate)"

definition net_check :: "string \<Rightarrow> string list \<Rightarrow> command_result \<Rightarrow> string list \<Rightarrow> unit net" where
  "net_check bin args r tolerate = (if net_tolerated tolerate r then retN ()
     else throwN (NetworkControllerError
       (bin @ '' '' @ join '' '' args @ '' failed (exit '' @ dec (cr_code r) @ ''): '' @ cr_stderr r)))"

definition net_ip :: "net_env \<Rightarrow> network_config \<Rightarrow> string list \<Rightarrow> string list \<Rightarrow> unit net" where
  "net_ip E C args tolerate = bindN (runN E (nc_ipBin C) args []) (\<lambda>r. net_check (nc_ipBin C) args r tolerate)"

definition net_sysctl :: "net_env \<Rightarrow> network_config \<Rightarrow> string \<Rightarrow> unit net" where
  "net_sysctl E C kv = (let args = [''-w'', kv]
     in bindN (runN E (nc_sysctlBin C) args []) (\<lambda>r. net_check (nc_sysctlBin C) args r []))"

definition net_nft :: "net_env \<Rightarrow> network_config \<Rightarrow> string \<Rightarrow> unit net" where
  "net_nft E C script = (let args = [''-f'', ''-'']
     in bindN (runN E (nc_nftBin C) args script) (\<lambda>r. net_check (nc_nftBin C) args r []))"

definition chain_script :: "string \<Rightarrow> string \<Rightarrow> string \<Rightarrow> string \<Rightarrow> string list \<Rightarrow> string" where
  "chain_script family table chain hook rules = join newline
     ([''add table '' @ family @ '' '' @ table, ''delete table '' @ family @ '' '' @ table,
       ''table '' @ family @ '' '' @ table @ '' {'', tab @ ''chain '' @ chain @ '' {'', tab @ tab @ hook]
      @ map (\<lambda>r. tab @ tab @ r) rules @ [tab @ ''}'', ''}'', []])"

definition natScript :: "string \<Rightarrow> string" where
  "natScript poolCidr = chain_script ''ip'' ''studiobox_nat'' ''postrouting''
     ''type nat hook postrouting priority srcnat; policy accept;''
     [''ip saddr '' @ poolCidr @ '' oifname != \"'' @ TAP_NAME_PREFIX @ ''*\" masquerade'']"

definition isolationScript :: "string \<Rightarrow> string" where
  "isolationScript poolCidr = chain_script ''inet'' ''studiobox_isolation'' ''forward''
     ''type filter hook forward priority -10; policy accept;''
     [''ip saddr '' @ poolCidr @ '' ip daddr '' @ poolCidr @ '' drop'']"

definition hostguardScript :: "string \<Rightarrow> string" where
  "hostguardScript poolCidr = (let i = ''iifname \"'' @ TAP_NAME_PREFIX @ ''*\" ''
     in chain_script ''inet'' ''studiobox_hostguard'' ''input'' ''type filter hook input priority -10; policy accept;''
       [i @ ''ct state established,related accept'',
        i @ ''ip daddr '' @ poolCidr @ '' udp dport 53 accept'',
        i @ ''ip daddr '' @ poolCidr @ '' tcp dport 53 accept'',
        i @ ''icmp type echo-request accept'',
        i @ ''icmpv6 type echo-request accept'',
        i @ ''drop''])"

definition ensureGlobal :: "net_env \<Rightarrow> network_config \<Rightarrow> unit net" where
  "ensureGlobal E C =
     bindN (net_sysctl E C ''net.ipv4.ip_forward=1'') (\<lambda>_.
     bindN (net_nft E C (natScript (nc_poolCidr C))) (\<lambda>_.
     bindN (net_nft E C (isolationScript (nc_poolCidr C))) (\<lambda>_.
       net_nft E C (hostguardScript (nc_poolCidr C)))))"

definition provision_tap :: "net_env \<Rightarrow> network_config \<Rightarrow> subnet_allocation \<Rightarrow> nat \<Rightarrow> nat \<Rightarrow> unit net" where
  "provision_tap E C alloc uid gid =
     bindN (net_ip E C [''tuntap'', ''add'', ''dev'', sn_tapName alloc, ''mode'', ''tap'', ''user'', dec uid, ''group'', dec gid]
       EXISTS_MARKERS) (\<lambda>_.
     bindN (net_ip E C [''addr'', ''add'', sn_hostIp alloc @ ''/'' @ dec SUBNET_PREFIX, ''dev'', sn_tapName alloc]
       EXISTS_MARKERS) (\<lambda>_.
     bindN (net_ip E C [''link'', ''set'', ''dev'', sn_tapName alloc, ''up''] []) (\<lambda>_.
       net_sysctl E C (''net.ipv4.conf.'' @ sn_tapName alloc @ ''.route_localnet=1''))))"

definition teardown_args :: "string \<Rightarrow> string list" where
  "teardown_args tapName = [''link'', ''del'', ''dev'', tapName]"

definition teardown_tap :: "net_env \<Rightarrow> network_config \<Rightarrow> subnet_allocation \<Rightarrow> unit net" where
  "teardown_tap E C alloc = net_ip E C (teardown_args (sn_tapName alloc)) GONE_MARKERS"

definition delete_script :: "string \<Rightarrow> string \<Rightarrow> string" where
  "delete_script family name =
     join newline [''add table '' @ family @ '' '' @ name, ''delete table '' @ family @ '' '' @ name, []]"

definition reapTable :: "net_env \<Rightarrow> network_config \<Rightarrow> string \<Rightarrow> string \<Rightarrow> unit net" where
  "reapTable E C family name = net_nft E C (delete_script family name)"

subsection \<open>dnsmasq\<close>

record dnsmasq_config =
  dc_dnsmasqBin :: string
  dc_runDir :: string

definition DNS_RUN_DIR :: string where
  "DNS_RUN_DIR = ''/run/studiobox/dns''"

definition dnsmasqConfig :: "string option \<Rightarrow> string option \<Rightarrow> dnsmasq_config" where
  "dnsmasqConfig bin runDir = \<lparr>dc_dnsmasqBin = orElse bin ''dnsmasq'', dc_runDir = orElse runDir DNS_RUN_DIR\<rparr>"

record dnsmasq_instance =
  dq_pidfile :: string
  dq_confFile :: "string option"

definition pidfilePath :: "dnsmasq_config \<Rightarrow> int \<Rightarrow> string" where
  "pidfilePath C slot = dc_runDir C @ ''/'' @ octet slot @ ''.pid''"

definition confPath :: "dnsmasq_config \<Rightarrow> int \<Rightarrow> string" where
  "confPath C slot = dc_runDir C @ ''/'' @ octet slot @ ''.conf''"

definition confPathFor :: "string \<Rightarrow> string" where
  "confPathFor pidfile = (if endsWith pidfile ''.pid'' then take (length pidfile - 4) pidfile @ ''.conf'' else pidfile)"

definition dnsmasq_args :: "dnsmasq_config \<Rightarrow> subnet_allocation \<Rightarrow> string \<Rightarrow> string option \<Rightarrow> string list" where
  "dnsmasq_args C alloc upstream confFile =
     [''--pid-file='' @ pidfilePath C (sn_slot alloc), ''--listen-address='' @ sn_hostIp alloc, ''--bind-interfaces'',
      ''--interface='' @ sn_tapName alloc, ''--except-interface=lo'', ''--no-resolv'', ''--server='' @ upstream]
     @ (case confFile of Some f \<Rightarrow> [''--conf-file='' @ f] | None \<Rightarrow> [])"

definition dnsmasq_install :: "net_env \<Rightarrow> dnsmasq_config \<Rightarrow> subnet_allocation \<Rightarrow> string \<Rightarrow> string \<Rightarrow> dnsmasq_instance net" where
  "dnsmasq_install E C alloc fragment upstream =
     (let confFile = (if fragment \<noteq> [] then Some (confPath C (sn_slot alloc)) else None)
      in bindN (runN E ''mkdir'' [''-p'', dc_runDir C] []) (\<lambda>mkdir.
         if \<not> cr_success mkdir
         then throwN (DnsmasqError (''dnsmasq run dir '' @ dc_runDir C @ '' could not be created: '' @ cr_stderr mkdir))
         else bindN (case confFile of Some f \<Rightarrow> writeN E f fragment | None \<Rightarrow> retN ()) (\<lambda>_.
         bindN (runN E (dc_dnsmasqBin C) (dnsmasq_args C alloc upstream confFile) []) (\<lambda>r.
           if \<not> cr_success r
           then throwN (DnsmasqError (''dnsmasq spawn failed (exit '' @ dec (cr_code r) @ ''): '' @ cr_stderr r))
           else retN \<lparr>dq_pidfile = pidfilePath C (sn_slot alloc), dq_confFile = confFile\<rparr>))))"

text \<open>
  \<open>Number.parseInt(text, 10)\<close> as the pidfile reader uses it: the digits after white space and an optional sign, rounded
  like every number, and only a positive integer.
\<close>

definition parsePid :: "string \<Rightarrow> int option" where
  "parsePid contents =
     (let t = js_trim contents; digits = takeWhile is_digit (if startsWith t ''+'' then drop 1 t else t)
      in if digits = [] then None
         else case js_Number digits of NumInt pid \<Rightarrow> (if 0 < pid then Some pid else None) | NumOther \<Rightarrow> None)"

definition readPid :: "net_env \<Rightarrow> string \<Rightarrow> int option net" where
  "readPid E pidfile = bindN (attemptN (readN E pidfile)) (\<lambda>r.
     retN (case r of Inl _ \<Rightarrow> None | Inr contents \<Rightarrow> parsePid contents))"

definition dnsmasq_reap :: "net_env \<Rightarrow> string \<Rightarrow> unit net" where
  "dnsmasq_reap E pidfile =
     bindN (readPid E pidfile) (\<lambda>pid.
     bindN (case pid of Some p \<Rightarrow> ignoreN (signalN E p) | None \<Rightarrow> retN ()) (\<lambda>_.
     bindN (ignoreN (removeN E pidfile)) (\<lambda>_.
       ignoreN (removeN E (confPathFor pidfile)))))"

subsection \<open>Port forwards\<close>

definition renderPortForwardApply :: "string \<Rightarrow> (nat \<times> nat) list \<Rightarrow> string \<Rightarrow> string \<Rightarrow> string" where
  "renderPortForwardApply tableName forwards guestIp hostIp = join newline
     ([''add table ip '' @ tableName, ''delete table ip '' @ tableName, ''table ip '' @ tableName @ '' {'',
       tab @ ''chain output {'', tab @ tab @ ''type nat hook output priority -100; policy accept;'']
      @ map (\<lambda>(hostPort, guestPort). tab @ tab @ ''ip daddr 127.0.0.1 tcp dport '' @ dec hostPort @ '' dnat to '' @ guestIp
          @ '':'' @ dec guestPort) forwards
      @ [tab @ ''}'', tab @ ''chain postrouting {'', tab @ tab @ ''type nat hook postrouting priority 100; policy accept;'']
      @ map (\<lambda>(hostPort, guestPort). tab @ tab @ ''ip daddr '' @ guestIp @ '' tcp dport '' @ dec guestPort @ '' snat to ''
          @ hostIp) forwards
      @ [tab @ ''}'', ''}'', []])"

definition renderPortForwardReclaim :: "string \<Rightarrow> string" where
  "renderPortForwardReclaim tableName = delete_script ''ip'' tableName"

definition pf_expose :: "net_env \<Rightarrow> string \<Rightarrow> subnet_allocation \<Rightarrow> utf16 \<Rightarrow> (nat \<times> nat) list \<Rightarrow> string net" where
  "pf_expose E nftBin alloc sandboxId forwards =
     bindN (liftN NetRuleset (portForwardTableName sandboxId)) (\<lambda>tableName.
     bindN (runN E nftBin [''-f'', ''-''] (renderPortForwardApply tableName forwards (sn_guestIp alloc) (sn_hostIp alloc))) (\<lambda>r.
       if \<not> cr_success r
       then throwN (PortForwardError (''nft port-forward install failed for '' @ tableName @ '' (exit '' @ dec (cr_code r)
         @ ''): '' @ cr_stderr r))
       else retN tableName))"

definition pf_reclaim :: "net_env \<Rightarrow> string \<Rightarrow> utf16 \<Rightarrow> unit net" where
  "pf_reclaim E nftBin sandboxId =
     bindN (liftN NetRuleset (portForwardTableName sandboxId)) (\<lambda>tableName.
     bindN (runN E nftBin [''-f'', ''-''] (renderPortForwardReclaim tableName)) (\<lambda>r.
       if \<not> cr_success r
       then throwN (PortForwardReclaimError (''nft port-forward reclaim failed for '' @ tableName @ '' (exit ''
         @ dec (cr_code r) @ ''): '' @ cr_stderr r))
       else retN ()))"

subsection \<open>What the controllers leave in the trace\<close>

lemmas net_simps = retN_def throwN_def bindN_def attemptN_def ignoreN_def liftN_def logN_def awaitN_def runN_def writeN_def
  readN_def removeN_def signalN_def Let_def

definition nft_event :: "egress_config \<Rightarrow> string option \<Rightarrow> string \<Rightarrow> command_result option \<Rightarrow> net_event" where
  "nft_event C netns script reply = (case netns of
      Some ns \<Rightarrow> Ran (eg_ipBin C) [''netns'', ''exec'', ns, eg_nftBin C, ''-f'', ''-''] script reply
    | None \<Rightarrow> Ran (eg_nftBin C) [''-f'', ''-''] script reply)"

text \<open>One command: the event it leaves, and its result.\<close>

lemma runN_eq:
  "runN E bin args stdin s = (let reply = ne_run E (nt_trace s) bin args stdin
     in (s\<lparr>nt_trace := nt_trace s @ [Ran bin args stdin reply], nt_alloc := ne_other E (nt_trace s) (nt_alloc s)\<rparr>,
         case reply of None \<Rightarrow> Inl SeamRejected | Some r \<Rightarrow> Inr r))"
  by (simp add: net_simps split: option.split)

lemma egress_nft_out:
  obtains reply where "nt_trace (fst (egress_nft E C script netns s)) = nt_trace s @ [nft_event C netns script reply]"
    "snd (egress_nft E C script netns s) = (case reply of None \<Rightarrow> Inl SeamRejected | Some r \<Rightarrow> Inr r)"
  by (cases netns) (auto simp: egress_nft_def nft_event_def runN_eq Let_def)

definition sealed_by :: "egress_config \<Rightarrow> sandbox_network_handle \<Rightarrow> bool \<Rightarrow> net_event list \<Rightarrow> bool" where
  "sealed_by C h sealed evs = (case generateSealRuleset h of
      Inl _ \<Rightarrow> evs = [] \<and> \<not> sealed
    | Inr seal \<Rightarrow> (\<exists>reply. evs = [nft_event C (nh_netns h) (renderApplyScript seal) reply]
        \<and> sealed = (case reply of None \<Rightarrow> False | Some r \<Rightarrow> cr_success r)))"

lemma egress_seal_out:
  obtains sealed evs where "snd (egress_seal E C h s) = Inr sealed"
    "nt_trace (fst (egress_seal E C h s)) = nt_trace s @ evs" "sealed_by C h sealed evs"
proof (cases "generateSealRuleset h")
  case (Inl e)
  show ?thesis by (rule that [of False "[]"]) (use Inl in \<open>auto simp: egress_seal_def net_simps sealed_by_def\<close>)
next
  case (Inr seal)
  obtain reply where r: "nt_trace (fst (egress_nft E C (renderApplyScript seal) (nh_netns h) s)) =
      nt_trace s @ [nft_event C (nh_netns h) (renderApplyScript seal) reply]"
    "snd (egress_nft E C (renderApplyScript seal) (nh_netns h) s) = (case reply of None \<Rightarrow> Inl SeamRejected | Some r \<Rightarrow> Inr r)"
    by (rule egress_nft_out)
  obtain t out where n: "egress_nft E C (renderApplyScript seal) (nh_netns h) s = (t, out)" by fastforce
  show ?thesis
    by (rule that [of "case reply of None \<Rightarrow> False | Some r \<Rightarrow> cr_success r"
          "[nft_event C (nh_netns h) (renderApplyScript seal) reply]"])
      (use Inr r n in \<open>auto simp: egress_seal_def bindN_def attemptN_def liftN_def retN_def sealed_by_def split: option.splits\<close>)
qed

lemma seal_drops:
  assumes "generateSealRuleset h = Inr seal" "nft_reads nft W seal"
  shows "passes nft seal p \<longleftrightarrow> pk_iif p \<noteq> nh_tapDevice h"
proof -
  have "nr_rules seal = [([IifNot (nh_tapDevice h)], Accept), ([], Drop)]"
    using assms(1) by (auto simp: generateSealRuleset_def requireTapName_def bindE_eq_Inr)
  then show ?thesis by (simp add: passes_eq [OF assms(2)] rule_verdict_def)
qed

text \<open>The outcomes of \<open>apply\<close>, given what \<open>egress_generate\<close> came to, and the events each one leaves.\<close>

definition apply_event :: "egress_config \<Rightarrow> sandbox_network_handle \<Rightarrow> nft_ruleset \<Rightarrow> command_result option \<Rightarrow> net_event" where
  "apply_event C h R reply = nft_event C (nh_netns h) (renderApplyScript R) reply"

fun apply_outcome :: "egress_config \<Rightarrow> sandbox_network_handle \<Rightarrow> net_exn + nft_ruleset \<times> string
    \<Rightarrow> net_exn + egress_applied \<Rightarrow> net_event list \<Rightarrow> bool" where
  "apply_outcome C h (Inl _) out evs = (\<exists>m sealed. out = Inl (EgressApplyError m sealed) \<and> sealed_by C h sealed evs)"
| "apply_outcome C h (Inr (R, fragment)) out evs = (\<exists>reply rest. evs = apply_event C h R reply # rest \<and> (case reply of
      None \<Rightarrow> out = Inl SeamRejected \<and> rest = []
    | Some r \<Rightarrow>
        if cr_success r
        then rest = [] \<and> out = Inr \<lparr>ap_tableName = nr_tableName R, ap_ruleset = R, ap_dnsmasqFragment = fragment\<rparr>
        else \<exists>m sealed. out = Inl (EgressApplyError m sealed) \<and> sealed_by C h sealed rest))"

lemma egress_apply_outcome:
  assumes "egress_apply E C rs spec h resolvers s = (t, out)"
  shows "\<exists>evs. nt_trace t = nt_trace s @ evs
    \<and> apply_outcome C h (egress_generate C rs spec h (orElse resolvers (eg_resolvers C))) out evs"
    (is "\<exists>evs. _ \<and> apply_outcome C h ?G out evs")
proof (cases ?G)
  case (Inl e)
  obtain sealed evs where "snd (egress_seal E C h s) = Inr sealed"
    "nt_trace (fst (egress_seal E C h s)) = nt_trace s @ evs" "sealed_by C h sealed evs" by (rule egress_seal_out)
  moreover from this(1) assms Inl have "t = fst (egress_seal E C h s)"
    "out = Inl (EgressApplyError ''failed to generate egress ruleset'' sealed)"
    by (auto simp: egress_apply_def bindN_def throwN_def split: prod.splits)
  ultimately show ?thesis using Inl by auto
next
  case (Inr g)
  obtain R fragment where g: "g = (R, fragment)" by fastforce
  let ?nft = "egress_nft E C (renderApplyScript R) (nh_netns h) s"
  obtain reply where n: "nt_trace (fst ?nft) = nt_trace s @ [apply_event C h R reply]"
    "snd ?nft = (case reply of None \<Rightarrow> Inl SeamRejected | Some r \<Rightarrow> Inr r)"
    unfolding apply_event_def by (rule egress_nft_out)
  obtain u where u: "?nft = (u, case reply of None \<Rightarrow> Inl SeamRejected | Some r \<Rightarrow> Inr r)" using n(2) by (metis prod.collapse)
  show ?thesis
  proof (cases "\<exists>r. reply = Some r \<and> \<not> cr_success r")
    case True
    then obtain r where r: "reply = Some r" "\<not> cr_success r" by blast
    obtain sealed evs where seal: "snd (egress_seal E C h u) = Inr sealed"
      "nt_trace (fst (egress_seal E C h u)) = nt_trace u @ evs" "sealed_by C h sealed evs" by (rule egress_seal_out)
    from seal(1) assms Inr g u r have "t = fst (egress_seal E C h u)" "\<exists>m. out = Inl (EgressApplyError m sealed)"
      by (auto simp: egress_apply_def bindN_def throwN_def split: prod.splits)
    with seal n(1) u r Inr g show ?thesis by (intro exI [of _ "apply_event C h R reply # evs"]) auto
  next
    case False
    with assms Inr g u n show ?thesis
      by (cases reply) (auto simp: egress_apply_def bindN_def throwN_def retN_def)
  qed
qed

text \<open>
  C9. Applying egress rules fails closed. When \<open>apply\<close> succeeds it ran one nft script, the one of the ruleset generated
  for the spec, and nft accepted it. When it throws its typed error, no script but that one and then the seal was run,
  the first one was not accepted, and the error says whether nft accepted the seal; the seal lets no packet of the
  sandbox's TAP pass. The one way out without a seal is a command seam that throws while the ruleset is applied.
\<close>

theorem egress_apply_is_fail_closed:
  assumes "egress_apply E C rs spec h resolvers s = (t, out)"
  shows "(\<exists>evs. nt_trace t = nt_trace s @ evs
      \<and> apply_outcome C h (egress_generate C rs spec h (orElse resolvers (eg_resolvers C))) out evs)
    \<and> (generateSealRuleset h = Inr seal \<and> nft_reads nft W seal \<longrightarrow> passes nft seal p = (pk_iif p \<noteq> nh_tapDevice h))"
  using egress_apply_outcome [OF assms] seal_drops by blast

text \<open>A handle whose guest address is no literal: nothing can be generated, and the seal goes in.\<close>

definition example_bad_handle :: sandbox_network_handle where
  "example_bad_handle = example_handle\<lparr>nh_guestIp := ''guest''\<rparr>"

definition example_seal :: nft_ruleset where
  "example_seal = \<lparr>nr_tableName = ''sbx_eg_a_2db'', nr_chainName = ''egress'', nr_sets = [],
     nr_rules = [([IifNot ''sbxtap0''], Accept), ([], Drop)], nr_unrestricted = False\<rparr>"

definition example_ok :: command_result where
  "example_ok = \<lparr>cr_success = True, cr_code = 0, cr_stderr = []\<rparr>"

definition example_net_env :: net_env where
  "example_net_env = \<lparr>ne_run = (\<lambda>_ _ _ _. Some example_ok), ne_write = (\<lambda>_ _ _. True), ne_read = (\<lambda>_ _. None),
     ne_remove = (\<lambda>_ _. True), ne_signal = (\<lambda>_ _. True), ne_other = (\<lambda>_ a. a)\<rparr>"

definition example_net_state :: net_state where
  "example_net_state = \<lparr>nt_trace = [], nt_alloc = example_pool\<rparr>"

lemma example_seal_generated:
  "generateSealRuleset example_bad_handle = Inr example_seal" "nft_reads (nft_of W example_seal) W example_seal"
proof -
  show "generateSealRuleset example_bad_handle = Inr example_seal"
    using example_table
    by (simp add: generateSealRuleset_def example_bad_handle_def example_handle_def example_seal_def requireTapName_def
        requireE_def tap_name_ok_def is_alnum_def is_lower_def is_digit_def code_def CHAIN_NAME_def)
  show "nft_reads (nft_of W example_seal) W example_seal"
    by (rule nft_of_reads) (simp add: example_seal_def rule_text_def verdict_text_def)
qed

lemma example_bad_generate:
  "\<exists>e. egress_generate (egressConfig None None None None) (\<lambda>_ _. None) Unrestricted example_bad_handle [] = Inl e"
  using example_table
  by (simp add: egress_generate_def resolveSpec_def generateRuleset_def example_bad_handle_def example_handle_def
      requireTapName_def requireE_def tap_name_ok_def is_alnum_def is_lower_def is_digit_def code_def requireIp_def
      parseIpLiteral_def isIpv4_def isIpv6_def toLowerCase_def lower_char_def is_upper_def ipv6_char_def is_hex_lower_def)

theorem egress_apply_is_fail_closed_witness:
  "(\<exists>m sealed. snd (egress_apply example_net_env (egressConfig None None None None) (\<lambda>_ _. None) Unrestricted
      example_bad_handle None example_net_state) = Inl (EgressApplyError m sealed))
   \<and> \<not> passes (nft_of example_world example_seal) example_seal (example_packet 443)"
proof -
  obtain t out where run: "egress_apply example_net_env (egressConfig None None None None) (\<lambda>_ _. None) Unrestricted
      example_bad_handle None example_net_state = (t, out)" by fastforce
  obtain e where e: "egress_generate (egressConfig None None None None) (\<lambda>_ _. None) Unrestricted example_bad_handle [] = Inl e"
    using example_bad_generate by blast
  show ?thesis
    using egress_apply_is_fail_closed [OF run, of example_seal "nft_of example_world example_seal" example_world "example_packet 443"]
      example_seal_generated run e
    by (auto simp: egressConfig_def example_packet_def example_bad_handle_def example_handle_def)
qed

end
