(* ===== verification/Network_Lifecycle.thy ===== *)
theory Network_Lifecycle
  imports Network_Control
begin

text \<open>
  A sandbox's network over its life: \<open>#provisionNetwork\<close> and \<open>#unwindNetwork\<close> of
  \<^verbatim>\<open>src/rootd/launch_planner.ts\<close>, the reclaim hooks of \<^verbatim>\<open>src/rootd/network/reclaim_hook.ts\<close>, and the
  start-up steps of \<^verbatim>\<open>src/rootd/network/orphan_sweep.ts\<close>.

  The read-only enumerations of the sweep (\<open>ip -o link show\<close>, \<open>nft list tables\<close>, the pidfiles) are parameters: the
  text, or the paths, they give after the trace so far.
\<close>

record net_deps =
  nd_network :: network_config
  nd_dnsmasq :: dnsmasq_config
  nd_egress :: egress_config
  nd_portForward :: "string option"

subsection \<open>Launch\<close>

definition allocateN :: "subnet_allocation net" where
  "allocateN = (\<lambda>s. case allocate (nt_alloc s) of
      Inl e \<Rightarrow> (s, Inl (NetSubnet e))
    | Inr (a, x) \<Rightarrow> ((logN (SlotAllocated (sn_slot x)) s)\<lparr>nt_alloc := a\<rparr>, Inr x))"

definition releaseN :: "int \<Rightarrow> unit net" where
  "releaseN slot = (\<lambda>s. case release_slot (nt_alloc s) (NumInt slot) of
      Inl e \<Rightarrow> (s, Inl (NetSubnet e))
    | Inr a \<Rightarrow> ((logN (SlotReleased slot) s)\<lparr>nt_alloc := a\<rparr>, Inr ()))"

record net_request =
  nq_sandboxId :: string
  nq_allowNet :: jsval
  nq_netless :: "bool option"
  nq_uid :: nat
  nq_gid :: nat
  nq_upstreamDns :: string

record provisioned_network =
  pn_alloc :: subnet_allocation
  pn_tapName :: string
  pn_hostIp :: string
  pn_guestIp :: string
  pn_subnet :: string
  pn_dnsmasqPidfile :: string

definition launch_handle :: "net_request \<Rightarrow> subnet_allocation \<Rightarrow> sandbox_network_handle" where
  "launch_handle q alloc = \<lparr>nh_sandboxId = latin1 (nq_sandboxId q), nh_tapDevice = sn_tapName alloc, nh_netns = None,
     nh_guestIp = sn_guestIp alloc, nh_guestIp6 = None\<rparr>"

definition provision_steps :: "net_env \<Rightarrow> net_deps \<Rightarrow> host_resolver \<Rightarrow> net_request \<Rightarrow> subnet_allocation
    \<Rightarrow> provisioned_network net" where
  "provision_steps E D rs q alloc =
     bindN (provision_tap E (nd_network D) alloc (nq_uid q) (nq_gid q)) (\<lambda>_.
     bindN (liftN NetSpec (parseAllowNet (nq_allowNet q))) (\<lambda>spec.
     bindN (egress_apply E (nd_egress D) rs spec (launch_handle q alloc) (Some [sn_hostIp alloc])) (\<lambda>applied.
     bindN (dnsmasq_install E (nd_dnsmasq D) alloc (ap_dnsmasqFragment applied) (nq_upstreamDns q)) (\<lambda>inst.
       retN \<lparr>pn_alloc = alloc, pn_tapName = sn_tapName alloc, pn_hostIp = sn_hostIp alloc, pn_guestIp = sn_guestIp alloc,
         pn_subnet = sn_subnet alloc, pn_dnsmasqPidfile = dq_pidfile inst\<rparr>))))"

definition unwindNetwork :: "net_env \<Rightarrow> net_deps \<Rightarrow> string \<Rightarrow> subnet_allocation \<Rightarrow> unit net" where
  "unwindNetwork E D sandboxId alloc =
     bindN (ignoreN (dnsmasq_reap E (pidfilePath (nd_dnsmasq D) (sn_slot alloc)))) (\<lambda>_.
     bindN (ignoreN (egress_reclaim E (nd_egress D) (latin1 sandboxId) None)) (\<lambda>_.
     bindN (ignoreN (teardown_tap E (nd_network D) alloc)) (\<lambda>_.
       releaseN (sn_slot alloc))))"

definition provisionNetwork :: "net_env \<Rightarrow> net_deps option \<Rightarrow> host_resolver \<Rightarrow> net_request
    \<Rightarrow> provisioned_network option net" where
  "provisionNetwork E dataplane rs q = (case dataplane of
      None \<Rightarrow> retN None
    | Some D \<Rightarrow>
        if nq_netless q = Some True then retN None
        else bindN allocateN (\<lambda>alloc.
          bindN (attemptN (provision_steps E D rs q alloc)) (\<lambda>out. case out of
              Inr network \<Rightarrow> retN (Some network)
            | Inl e \<Rightarrow> bindN (unwindNetwork E D (nq_sandboxId q) alloc) (\<lambda>_. throwN e))))"

subsection \<open>Reclaim\<close>

definition egressReclaimHook :: "net_env \<Rightarrow> egress_config \<Rightarrow> (sandbox_record \<Rightarrow> string option) \<Rightarrow> sandbox_record
    \<Rightarrow> unit net" where
  "egressReclaimHook E C netnsFor r = (case sr_tapName (sb_resources r) of
      None \<Rightarrow> retN () | Some _ \<Rightarrow> egress_reclaim E C (latin1 (sb_id r)) (netnsFor r))"

definition networkReclaim :: "net_env \<Rightarrow> net_deps \<Rightarrow> sandbox_record \<Rightarrow> unit net" where
  "networkReclaim E D r = (case sr_tapName (sb_resources r) of
      None \<Rightarrow> retN ()
    | Some tapName \<Rightarrow>
        bindN (liftN NetSubnet (slotOfTapName tapName)) (\<lambda>slot.
        bindN (liftN NetSubnet (subnetForSlot (NumInt slot) DEFAULT_POOL_CIDR)) (\<lambda>alloc.
        bindN (case sr_dnsmasqPidfile (sb_resources r) of Some f \<Rightarrow> dnsmasq_reap E f | None \<Rightarrow> retN ()) (\<lambda>_.
        bindN (egress_reclaim E (nd_egress D) (latin1 (sb_id r)) None) (\<lambda>_.
        bindN (case nd_portForward D of Some nftBin \<Rightarrow> pf_reclaim E nftBin (latin1 (sb_id r)) | None \<Rightarrow> retN ()) (\<lambda>_.
        bindN (teardown_tap E (nd_network D) alloc) (\<lambda>_.
          releaseN slot)))))))"

subsection \<open>Start-up\<close>

definition isLive :: "sandbox_record \<Rightarrow> bool" where
  "isLive r = (sb_phase r \<noteq> Terminated)"

fun reserveLiveSlots :: "subnet_allocator \<Rightarrow> sandbox_record list \<Rightarrow> net_error + subnet_allocator" where
  "reserveLiveSlots a [] = Inr a"
| "reserveLiveSlots a (r # rs) =
     (if \<not> isLive r then reserveLiveSlots a rs
      else (case sr_tapName (sb_resources r) of
          None \<Rightarrow> reserveLiveSlots a rs
        | Some tapName \<Rightarrow> bindE (slotOfTapName tapName) (\<lambda>slot.
            bindE (reserve_slot a (NumInt slot)) (\<lambda>b. reserveLiveSlots b rs))))"

text \<open>\<open>/^\s*\d+:\s+([^:@\s]+)/\<close>\<close>

definition tap_line :: "string \<Rightarrow> string option" where
  "tap_line line =
     (let a = dropWhile is_space line; rest = dropWhile is_digit a
      in if takeWhile is_digit a = [] then None
         else (case rest of
             [] \<Rightarrow> None
           | c # s \<Rightarrow>
               (let w = takeWhile (\<lambda>x. x \<noteq> CHR '':'' \<and> x \<noteq> CHR ''@'' \<and> \<not> is_space x) (dropWhile is_space s)
                in if c \<noteq> CHR '':'' \<or> s = [] \<or> \<not> is_space (hd s) \<or> w = [] then None else Some w)))"

text \<open>\<open>/^sbxtap\d+$/\<close>\<close>

definition sbxtap_name :: "string \<Rightarrow> bool" where
  "sbxtap_name name = (startsWith name TAP_NAME_PREFIX \<and> drop (length TAP_NAME_PREFIX) name \<noteq> []
     \<and> list_all is_digit (drop (length TAP_NAME_PREFIX) name))"

definition lines_of :: "string \<Rightarrow> string list" where
  "lines_of stdout = split_on (CHR 0x0A) stdout"

definition words_of :: "string \<Rightarrow> string list" where
  "words_of line = filter (\<lambda>w. w \<noteq> []) (split_on (CHR '' '') (map (\<lambda>c. if is_space c then CHR '' '' else c) line))"

fun collect_taps :: "string list \<Rightarrow> string list \<Rightarrow> string list" where
  "collect_taps [] names = names"
| "collect_taps (line # ls) names = (case tap_line line of
      None \<Rightarrow> collect_taps ls names
    | Some name \<Rightarrow> collect_taps ls (if sbxtap_name name \<and> name \<notin> set names then names @ [name] else names))"

definition parseTapNames :: "string \<Rightarrow> string list" where
  "parseTapNames stdout = collect_taps (lines_of stdout) []"

text \<open>\<open>/^\s*table\s+(\S+)\s+(\S+)\s*(\{)?\s*$/\<close>\<close>

definition table_line :: "string \<Rightarrow> (string \<times> string) option" where
  "table_line line = (case words_of line of
      [w, family, name] \<Rightarrow> if w = ''table'' then Some (family, name) else None
    | [w, family, name, brace] \<Rightarrow> if w = ''table'' \<and> brace = ''{'' then Some (family, name) else None
    | _ \<Rightarrow> None)"

definition sbx_table :: "string \<times> string \<Rightarrow> bool" where
  "sbx_table x = ((fst x = ''ip'' \<or> fst x = ''inet'')
     \<and> (startsWith (snd x) TABLE_PREFIX \<or> startsWith (snd x) PORT_FORWARD_PREFIX))"

fun collect_tables :: "string list \<Rightarrow> (string \<times> string) list \<Rightarrow> (string \<times> string) list" where
  "collect_tables [] out = out"
| "collect_tables (line # ls) out = (case table_line line of
      None \<Rightarrow> collect_tables ls out
    | Some x \<Rightarrow> collect_tables ls (if sbx_table x \<and> snd x \<notin> snd ` set out then out @ [x] else out))"

definition parseSbxTables :: "string \<Rightarrow> (string \<times> string) list" where
  "parseSbxTables stdout = collect_tables (lines_of stdout) []"

record sweep_seams =
  sw_link :: "net_trace \<Rightarrow> string"
  sw_tables :: "net_trace \<Rightarrow> string"
  sw_pidfiles :: "net_trace \<Rightarrow> string list"

record sweep_result =
  sw_taps :: "string list"
  sw_reaped :: "string list"
  sw_pids :: "string list"

definition ownedTaps :: "sandbox_record list \<Rightarrow> string set" where
  "ownedTaps rs = {tap. \<exists>r \<in> set rs. isLive r \<and> sr_tapName (sb_resources r) = Some tap}"

definition ownedPidfiles :: "sandbox_record list \<Rightarrow> string set" where
  "ownedPidfiles rs = {f. \<exists>r \<in> set rs. isLive r \<and> sr_dnsmasqPidfile (sb_resources r) = Some f}"

definition ownedTables :: "sandbox_record list \<Rightarrow> string set" where
  "ownedTables rs = {n. \<exists>r \<in> set rs. isLive r \<and>
     (egressTableName (latin1 (sb_id r)) = Inr n \<or> portForwardTableName (latin1 (sb_id r)) = Inr n)}"

fun forN :: "('a \<Rightarrow> unit net) \<Rightarrow> 'a list \<Rightarrow> unit net" where
  "forN f [] = retN ()"
| "forN f (x # xs) = bindN (f x) (\<lambda>_. forN f xs)"

definition readTrace :: "(net_trace \<Rightarrow> 'a) \<Rightarrow> 'a net" where
  "readTrace f = (\<lambda>s. (s, Inr (f (nt_trace s))))"

definition teardownOrphan :: "net_env \<Rightarrow> net_deps \<Rightarrow> string \<Rightarrow> unit net" where
  "teardownOrphan E D tap =
     bindN (liftN NetSubnet (slotOfTapName tap)) (\<lambda>slot.
     bindN (liftN NetSubnet (subnetForSlot (NumInt slot) DEFAULT_POOL_CIDR)) (\<lambda>alloc.
       teardown_tap E (nd_network D) alloc))"

definition sweepNetworkOrphans :: "net_env \<Rightarrow> net_deps \<Rightarrow> sweep_seams \<Rightarrow> sandbox_record list \<Rightarrow> sweep_result net" where
  "sweepNetworkOrphans E D S rs =
     bindN (readTrace (\<lambda>tr. filter (\<lambda>tap. tap \<notin> ownedTaps rs) (parseTapNames (sw_link S tr)))) (\<lambda>taps.
     bindN (forN (teardownOrphan E D) taps) (\<lambda>_.
     bindN (readTrace (\<lambda>tr. filter (\<lambda>x. snd x \<notin> ownedTables rs) (parseSbxTables (sw_tables S tr)))) (\<lambda>tables.
     bindN (forN (\<lambda>x. reapTable E (nd_network D) (fst x) (snd x)) tables) (\<lambda>_.
     bindN (readTrace (\<lambda>tr. filter (\<lambda>f. f \<notin> ownedPidfiles rs) (sw_pidfiles S tr))) (\<lambda>pids.
     bindN (forN (dnsmasq_reap E) pids) (\<lambda>_.
       retN \<lparr>sw_taps = taps, sw_reaped = map snd tables, sw_pids = pids\<rparr>))))))"

subsection \<open>Reasoning about traces\<close>

text \<open>\<open>m\<close> only appends to the trace, and its result and what it appended satisfy \<open>P\<close>.\<close>

definition leaves :: "'a net \<Rightarrow> net_state \<Rightarrow> (net_exn + 'a \<Rightarrow> net_event list \<Rightarrow> bool) \<Rightarrow> bool" where
  "leaves m s P = (\<exists>evs. nt_trace (fst (m s)) = nt_trace s @ evs \<and> P (snd (m s)) evs)"

lemma leaves_mono: "leaves m s P \<Longrightarrow> (\<And>r evs. P r evs \<Longrightarrow> Q r evs) \<Longrightarrow> leaves m s Q"
  by (auto simp: leaves_def)

lemma leaves_ret: "P (Inr x) [] \<Longrightarrow> leaves (retN x) s P"
  by (simp add: leaves_def retN_def)

lemma leaves_throw: "P (Inl e) [] \<Longrightarrow> leaves (throwN e) s P"
  by (simp add: leaves_def throwN_def)

lemma leaves_lift: "(\<And>e. r = Inl e \<Longrightarrow> P (Inl (f e)) []) \<Longrightarrow> (\<And>x. r = Inr x \<Longrightarrow> P (Inr x) []) \<Longrightarrow> leaves (liftN f r) s P"
  by (cases r) (auto simp: leaves_def liftN_def retN_def throwN_def)

lemma leaves_bind_at:
  assumes "leaves m s P"
    "\<And>x evs t. P (Inr x) evs \<Longrightarrow> nt_trace t = nt_trace s @ evs \<Longrightarrow> leaves (f x) t (\<lambda>r evs'. Q r (evs @ evs'))"
    "\<And>e evs. P (Inl e) evs \<Longrightarrow> Q (Inl e) evs"
  shows "leaves (bindN m f) s Q"
proof -
  obtain t out where m: "m s = (t, out)" by fastforce
  with assms(1) obtain evs where e: "nt_trace t = nt_trace s @ evs" "P out evs" by (auto simp: leaves_def)
  show ?thesis
  proof (cases out)
    case (Inl x)
    with m e assms(3) show ?thesis by (auto simp: leaves_def bindN_def)
  next
    case (Inr x)
    from assms(2) [OF e(2) [unfolded Inr] e(1)] m Inr e(1) show ?thesis by (auto simp: leaves_def bindN_def)
  qed
qed

lemma leaves_bind:
  assumes "leaves m s P" "\<And>x evs t. P (Inr x) evs \<Longrightarrow> leaves (f x) t (\<lambda>r evs'. Q r (evs @ evs'))"
    "\<And>e evs. P (Inl e) evs \<Longrightarrow> Q (Inl e) evs"
  shows "leaves (bindN m f) s Q"
  using assms by (intro leaves_bind_at [OF assms(1)])

lemma leaves_ignore: "leaves m s P \<Longrightarrow> (\<And>r evs. P r evs \<Longrightarrow> Q (Inr ()) evs) \<Longrightarrow> leaves (ignoreN m) s Q"
  by (auto simp: leaves_def ignoreN_def)

lemma leaves_attempt: "leaves m s P \<Longrightarrow> (\<And>r evs. P r evs \<Longrightarrow> Q (Inr r) evs) \<Longrightarrow> leaves (attemptN m) s Q"
  by (auto simp: leaves_def attemptN_def split: prod.splits)

lemma leaves_run:
  "(\<And>reply. P (case reply of None \<Rightarrow> Inl SeamRejected | Some r \<Rightarrow> Inr r) [Ran bin args stdin reply]) \<Longrightarrow>
   leaves (runN E bin args stdin) s P"
  by (auto simp: leaves_def runN_eq Let_def)

lemma leaves_for:
  assumes "\<And>x s. x \<in> set xs \<Longrightarrow> leaves (f x) s (\<lambda>r evs. P x evs \<and> (is_ok r \<longrightarrow> Q x evs))"
  shows "leaves (forN f xs) s (\<lambda>r evs. \<exists>parts. evs = concat (map snd parts) \<and> (\<forall>(x, e) \<in> set parts. x \<in> set xs \<and> P x e)
    \<and> (is_ok r \<longrightarrow> map fst parts = xs \<and> (\<forall>(x, e) \<in> set parts. Q x e)))"
  using assms
proof (induction xs arbitrary: s)
  case (Cons x xs)
  have IH: "leaves (forN f xs) t (\<lambda>r evs. \<exists>parts. evs = concat (map snd parts) \<and> (\<forall>(x, e) \<in> set parts. x \<in> set xs \<and> P x e)
    \<and> (is_ok r \<longrightarrow> map fst parts = xs \<and> (\<forall>(x, e) \<in> set parts. Q x e)))" for t
    using Cons by simp
  show ?case
  proof (simp only: forN.simps, rule leaves_bind [OF Cons.prems [of x s]], goal_cases)
    case (2 u evs t)
    show ?case
    proof (rule leaves_mono [OF IH], elim exE conjE)
      fix r evs' parts
      assume *: "evs' = concat (map snd parts)" "\<forall>(y, e) \<in> set parts. y \<in> set xs \<and> P y e"
        "is_ok r \<longrightarrow> map fst parts = xs \<and> (\<forall>(y, e) \<in> set parts. Q y e)"
      show "\<exists>parts. evs @ evs' = concat (map snd parts) \<and> (\<forall>(y, e) \<in> set parts. y \<in> set (x # xs) \<and> P y e)
        \<and> (is_ok r \<longrightarrow> map fst parts = x # xs \<and> (\<forall>(y, e) \<in> set parts. Q y e))"
        using * 2 by (intro exI [of _ "(x, evs) # parts"]) auto
    qed
  next
    case (3 e evs)
    then show ?case by (intro exI [of _ "[(x, evs)]"]) auto
  qed simp
qed (simp add: leaves_ret)

end
