(* ===== verification/Network_Properties.thy ===== *)
theory Network_Properties
  imports Network_Lifecycle
begin

text \<open>
  What the network operations leave behind: the order of reclaim, what a failed provision unwinds, what the orphan sweep may
  reap, and which slots a restarted supervisor hands out.
\<close>

subsection \<open>The events of one step\<close>

definition pid_of :: "string option \<Rightarrow> int option" where
  "pid_of c = (case c of None \<Rightarrow> None | Some x \<Rightarrow> parsePid x)"

definition kill_events :: "int option \<Rightarrow> net_event list \<Rightarrow> bool" where
  "kill_events pid evs = (case pid of None \<Rightarrow> evs = [] | Some p \<Rightarrow> (\<exists>ok. evs = [Signalled p ok]))"

definition reap_events :: "string \<Rightarrow> net_event list \<Rightarrow> bool" where
  "reap_events f evs = (\<exists>c kill b b'. evs = ReadFile f c # kill @ [RemovedFile f b, RemovedFile (confPathFor f) b']
     \<and> kill_events (pid_of c) kill)"

definition accepted :: "command_result option \<Rightarrow> bool" where
  "accepted reply = (case reply of None \<Rightarrow> False | Some r \<Rightarrow> cr_success r)"

definition gone :: "command_result option \<Rightarrow> bool" where
  "gone reply = (case reply of None \<Rightarrow> False | Some r \<Rightarrow> net_tolerated GONE_MARKERS r)"

definition egress_deleted :: "net_deps \<Rightarrow> utf16 \<Rightarrow> command_result option \<Rightarrow> net_event list \<Rightarrow> bool" where
  "egress_deleted D i reply evs =
     (\<exists>name. egressTableName i = Inr name \<and> evs = [nft_event (nd_egress D) None (renderReclaimScript name) reply])"

definition forwards_deleted :: "string \<Rightarrow> utf16 \<Rightarrow> command_result option \<Rightarrow> net_event list \<Rightarrow> bool" where
  "forwards_deleted nftBin i reply evs =
     (\<exists>name. portForwardTableName i = Inr name \<and> evs = [Ran nftBin [''-f'', ''-''] (renderPortForwardReclaim name) reply])"

definition tap_deleted :: "net_deps \<Rightarrow> string \<Rightarrow> command_result option \<Rightarrow> net_event list \<Rightarrow> bool" where
  "tap_deleted D tap reply evs = (evs = [Ran (nc_ipBin (nd_network D)) (teardown_args tap) [] reply])"

lemma reap_leaves: "leaves (dnsmasq_reap E f) s (\<lambda>r evs. r = Inr () \<and> reap_events f evs)"
proof -
  have rd: "leaves (readPid E f) s (\<lambda>r evs. \<exists>c. evs = [ReadFile f c] \<and> r = Inr (pid_of c))" for s
    by (auto simp: leaves_def readPid_def net_simps pid_of_def split: option.split)
  have kill: "leaves (case pid of Some p \<Rightarrow> ignoreN (signalN E p) | None \<Rightarrow> retN ()) s
      (\<lambda>r evs. r = Inr () \<and> kill_events pid evs)" for pid s
    by (cases pid) (auto simp: leaves_def net_simps kill_events_def)
  have rm: "leaves (ignoreN (removeN E g)) s (\<lambda>r evs. r = Inr () \<and> (\<exists>b. evs = [RemovedFile g b]))" for g s
    by (auto simp: leaves_def net_simps)
  show ?thesis
    unfolding dnsmasq_reap_def
    by (rule leaves_bind [OF rd], rule leaves_bind [OF kill], rule leaves_bind [OF rm], rule leaves_mono [OF rm])
      (auto simp: reap_events_def)
qed

lemma reclaim_leaves:
  "leaves (egress_reclaim E (nd_egress D) i None) s (\<lambda>r evs.
     (\<exists>e. r = Inl e \<and> evs = []) \<or> (\<exists>reply. egress_deleted D i reply evs \<and> is_ok r = accepted reply))"
  unfolding egress_reclaim_def egress_nft_def option.case
  by (rule leaves_bind [OF leaves_lift [where P = "\<lambda>r evs. evs = [] \<and> (\<forall>n. r = Inr n \<longrightarrow> egressTableName i = Inr n)"]];
      (rule leaves_bind [OF leaves_run [where P = "\<lambda>r evs. \<exists>n reply. egressTableName i = Inr n
        \<and> evs = [nft_event (nd_egress D) None (renderReclaimScript n) reply]
        \<and> r = (case reply of None \<Rightarrow> Inl SeamRejected | Some x \<Rightarrow> Inr x)"]])?)
    (auto simp: egress_deleted_def accepted_def nft_event_def leaves_def retN_def throwN_def split: option.splits)

lemma forwards_leaves:
  "leaves (pf_reclaim E nftBin i) s (\<lambda>r evs.
     (\<exists>e. r = Inl e \<and> evs = []) \<or> (\<exists>reply. forwards_deleted nftBin i reply evs \<and> is_ok r = accepted reply))"
  unfolding pf_reclaim_def
  by (rule leaves_bind [OF leaves_lift [where P = "\<lambda>r evs. evs = [] \<and> (\<forall>n. r = Inr n \<longrightarrow> portForwardTableName i = Inr n)"]];
      (rule leaves_bind [OF leaves_run [where P = "\<lambda>r evs. \<exists>n reply. portForwardTableName i = Inr n
        \<and> evs = [Ran nftBin [''-f'', ''-''] (renderPortForwardReclaim n) reply]
        \<and> r = (case reply of None \<Rightarrow> Inl SeamRejected | Some x \<Rightarrow> Inr x)"]])?)
    (auto simp: forwards_deleted_def accepted_def leaves_def retN_def throwN_def split: option.splits)

lemma command_leaves:
  "leaves (bindN (runN E bin args stdin) (\<lambda>r. net_check bin args r tolerate)) s (\<lambda>r evs. \<exists>reply. evs = [Ran bin args stdin reply]
     \<and> is_ok r = (case reply of None \<Rightarrow> False | Some x \<Rightarrow> net_tolerated tolerate x))"
  by (auto simp: leaves_def runN_eq bindN_def net_check_def retN_def throwN_def Let_def split: option.split)

lemma teardown_leaves:
  "leaves (teardown_tap E (nd_network D) alloc) s (\<lambda>r evs. \<exists>reply. tap_deleted D (sn_tapName alloc) reply evs \<and> is_ok r = gone reply)"
  unfolding teardown_tap_def net_ip_def tap_deleted_def gone_def by (rule command_leaves)

lemma release_leaves:
  "leaves (releaseN slot) s (\<lambda>r evs. (r = Inr () \<and> evs = [SlotReleased slot]) \<or> (\<exists>e. r = Inl e \<and> evs = []))"
  by (auto simp: leaves_def releaseN_def logN_def split: sum.split)

subsection \<open>Reclaim\<close>

text \<open>The events of a complete reclaim, and those it may leave when it fails.\<close>

definition optional_reap :: "sandbox_record \<Rightarrow> net_event list \<Rightarrow> bool" where
  "optional_reap r evs = (case sr_dnsmasqPidfile (sb_resources r) of None \<Rightarrow> evs = [] | Some f \<Rightarrow> reap_events f evs)"

definition optional_forwards :: "net_deps \<Rightarrow> sandbox_record \<Rightarrow> bool \<Rightarrow> net_event list \<Rightarrow> bool" where
  "optional_forwards D r ok evs = (case nd_portForward D of
      None \<Rightarrow> evs = [] \<and> ok
    | Some nftBin \<Rightarrow> (evs = [] \<and> \<not> ok) \<or> (\<exists>reply. forwards_deleted nftBin (latin1 (sb_id r)) reply evs \<and> ok = accepted reply))"

definition tap_of_slot :: "int \<Rightarrow> string" where
  "tap_of_slot slot = TAP_NAME_PREFIX @ octet slot"

definition reclaimed :: "net_deps \<Rightarrow> sandbox_record \<Rightarrow> int \<Rightarrow> net_event list \<Rightarrow> bool" where
  "reclaimed D r slot evs = (\<exists>dns eg fw tap reply reply'. evs = dns @ eg @ fw @ tap @ [SlotReleased slot]
     \<and> optional_reap r dns
     \<and> egress_deleted D (latin1 (sb_id r)) reply eg \<and> accepted reply
     \<and> optional_forwards D r True fw
     \<and> tap_deleted D (tap_of_slot slot) reply' tap \<and> gone reply')"

lemma subnet_tap: "subnetForSlot (NumInt slot) c = Inr alloc \<Longrightarrow> sn_tapName alloc = tap_of_slot slot \<and> sn_slot alloc = slot"
  by (auto simp: subnetForSlot_def bindE_eq_Inr tap_of_slot_def computeAllocation_eq split: if_splits)

definition no_release :: "net_event list \<Rightarrow> bool" where
  "no_release evs = (\<forall>slot. SlotReleased slot \<notin> set evs)"

lemma no_release_simps [simp]:
  "no_release []" "no_release (a @ b) = (no_release a \<and> no_release b)"
  "no_release (e # evs) = ((\<forall>slot. e \<noteq> SlotReleased slot) \<and> no_release evs)"
  by (auto simp: no_release_def)

lemma reap_no_release: "reap_events f evs \<Longrightarrow> no_release evs"
  by (auto simp: reap_events_def kill_events_def split: option.splits)

lemma no_release_steps:
  "reap_events f evs \<Longrightarrow> no_release evs" "egress_deleted D i reply evs \<Longrightarrow> no_release evs"
  "forwards_deleted n i reply evs \<Longrightarrow> no_release evs" "tap_deleted D tap reply evs \<Longrightarrow> no_release evs"
  "optional_reap r evs \<Longrightarrow> no_release evs" "optional_forwards D r ok evs \<Longrightarrow> no_release evs"
  by (auto simp: reap_no_release egress_deleted_def forwards_deleted_def tap_deleted_def optional_reap_def
      optional_forwards_def nft_event_def split: option.splits)

lemma optional_reap_leaves:
  "leaves (case sr_dnsmasqPidfile (sb_resources r) of Some f \<Rightarrow> dnsmasq_reap E f | None \<Rightarrow> retN ()) s
     (\<lambda>x evs. x = Inr () \<and> optional_reap r evs)"
  using reap_leaves by (auto simp: optional_reap_def intro: leaves_ret split: option.split)

lemma optional_forwards_leaves:
  "leaves (case nd_portForward D of Some nftBin \<Rightarrow> pf_reclaim E nftBin (latin1 (sb_id r)) | None \<Rightarrow> retN ()) s
     (\<lambda>x evs. optional_forwards D r (is_ok x) evs)"
  by (cases "nd_portForward D") (auto simp: optional_forwards_def intro: leaves_ret leaves_mono [OF forwards_leaves])

text \<open>
  C10. Reclaiming a sandbox's network gives its slot back last, and only when everything else is gone. A record without
  a journaled TAP is left alone. Otherwise a reclaim that returns has, in this order, reaped the journaled dnsmasq,
  deleted the egress table and the forward table of the record's own id, both accepted by nft, and deleted the TAP of
  the slot or found it gone; then the slot is released. A reclaim that throws releases no slot, so no launch gets a slot
  whose TAP or tables may still be up.
\<close>

theorem reclaim_releases_the_slot_last:
  assumes "networkReclaim E D r s = (t, out)"
  shows "\<exists>evs. nt_trace t = nt_trace s @ evs \<and> (case sr_tapName (sb_resources r) of
      None \<Rightarrow> out = Inr () \<and> evs = []
    | Some tap \<Rightarrow> (if is_ok out then \<exists>slot. slotOfTapName tap = Inr slot \<and> reclaimed D r slot evs else no_release evs))"
proof (cases "sr_tapName (sb_resources r)")
  case None
  with assms show ?thesis by (auto simp: networkReclaim_def retN_def)
next
  case (Some tap)
  let ?Q = "\<lambda>x evs. if is_ok x then \<exists>slot. slotOfTapName tap = Inr slot \<and> reclaimed D r slot evs else no_release evs"
  have "leaves (networkReclaim E D r) s ?Q"
    unfolding networkReclaim_def Some option.case
  proof (rule leaves_bind [OF leaves_lift [where P = "\<lambda>x evs. evs = [] \<and> (\<forall>n. x = Inr n \<longrightarrow> slotOfTapName tap = Inr n)"]], goal_cases)
    case (3 slot evs t)
    note slot = this
    show ?case
    proof (rule leaves_bind [OF leaves_lift [where P = "\<lambda>x evs. evs = []
          \<and> (\<forall>a. x = Inr a \<longrightarrow> sn_tapName a = tap_of_slot slot \<and> sn_slot a = slot)"]], goal_cases)
      case (3 alloc evs' t)
      note alloc = this
      show ?case
      proof (rule leaves_bind [OF optional_reap_leaves], rule leaves_bind [OF reclaim_leaves],
          rule leaves_bind [OF optional_forwards_leaves], rule leaves_bind [OF teardown_leaves], rule leaves_mono [OF release_leaves],
          goal_cases)
        case (1 u dns s1 v eg s2 w fw s3 y tp s4 x rel)
        then obtain reply reply' where *: "optional_reap r dns" "egress_deleted D (latin1 (sb_id r)) reply eg" "accepted reply"
          "optional_forwards D r True fw" "tap_deleted D (tap_of_slot slot) reply' tp" "gone reply'"
          using alloc by auto
        show ?case
        proof (cases "is_ok x")
          case True
          then have "rel = [SlotReleased slot]" using 1 alloc by auto
          then have "reclaimed D r slot (dns @ eg @ fw @ tp @ rel)" using * unfolding reclaimed_def by blast
          with slot alloc True show ?thesis by auto
        next
          case False
          then have "rel = []" using 1 by auto
          with slot alloc False * show ?thesis by (auto dest: no_release_steps)
        qed
      qed (use slot alloc in \<open>auto dest: no_release_steps\<close>)
    qed (use slot subnet_tap in auto)
  qed auto
  with assms Some show ?thesis by (simp add: leaves_def)
qed

subsection \<open>Launch\<close>

text \<open>A step that logs no release, whatever it answers.\<close>

definition releases_nothing :: "'a net \<Rightarrow> bool" where
  "releases_nothing m = (\<forall>s. leaves m s (\<lambda>r evs. no_release evs))"

lemma releases_nothing_bind:
  assumes "releases_nothing m" "\<And>x. releases_nothing (f x)"
  shows "releases_nothing (bindN m f)"
  unfolding releases_nothing_def
proof
  fix s
  have m: "leaves m s (\<lambda>r evs. no_release evs)" using assms(1) by (simp add: releases_nothing_def)
  show "leaves (bindN m f) s (\<lambda>r evs. no_release evs)"
    by (rule leaves_bind [OF m]) (use assms(2) in \<open>auto simp: releases_nothing_def elim: leaves_mono\<close>)
qed

lemma releases_nothing_basic:
  "releases_nothing (retN x)" "releases_nothing (throwN e)" "releases_nothing (liftN f r)"
  "releases_nothing (runN E bin args stdin)" "releases_nothing (writeN E path contents)"
  by (auto simp: releases_nothing_def leaves_def net_simps split: option.split sum.split)

lemma releases_nothing_attempt: "releases_nothing m \<Longrightarrow> releases_nothing (attemptN m)"
  by (auto simp: releases_nothing_def intro: leaves_attempt)

lemma releases_nothing_if: "releases_nothing a \<Longrightarrow> releases_nothing b \<Longrightarrow> releases_nothing (if c then a else b)"
  by simp

lemmas releases_nothing_rules = releases_nothing_bind releases_nothing_basic releases_nothing_attempt releases_nothing_if

lemma egress_apply_releases_nothing: "releases_nothing (egress_apply E C rs spec h resolvers)"
proof -
  have nft: "releases_nothing (egress_nft E C script ns)" for script ns
    by (cases ns) (simp_all add: egress_nft_def releases_nothing_basic)
  have seal: "releases_nothing (egress_seal E C h)"
    unfolding egress_seal_def by (intro releases_nothing_rules nft)
  show ?thesis
    unfolding egress_apply_def
    by (cases "egress_generate C rs spec h (orElse resolvers (eg_resolvers C))")
      (auto intro!: releases_nothing_rules nft seal split: prod.split)
qed

lemma check_releases_nothing: "releases_nothing (net_check bin args r tolerate)"
  by (simp add: net_check_def releases_nothing_basic)

lemma net_ip_releases_nothing: "releases_nothing (net_ip E C args tolerate)" "releases_nothing (net_sysctl E C kv)"
  unfolding net_ip_def net_sysctl_def Let_def by (intro releases_nothing_rules check_releases_nothing)+

lemma install_releases_nothing: "releases_nothing (dnsmasq_install E C alloc fragment upstream)"
  unfolding dnsmasq_install_def Let_def
  by (intro releases_nothing_rules) (auto intro: releases_nothing_basic split: option.split)

lemma provision_tap_releases_nothing: "releases_nothing (provision_tap E C alloc uid gid)"
  unfolding provision_tap_def by (intro releases_nothing_rules net_ip_releases_nothing)

text \<open>
  The steps of a launch, as they leave the trace when they succeed: the TAP is made, addressed and brought up; nft
  accepts the rules of the sandbox's own \<open>allowNet\<close>; dnsmasq starts.
\<close>

definition tap_up :: "net_deps \<Rightarrow> net_request \<Rightarrow> subnet_allocation \<Rightarrow> net_event list \<Rightarrow> bool" where
  "tap_up D q alloc evs = (\<exists>r1 r2 r3 r4. evs =
     [Ran (nc_ipBin (nd_network D)) [''tuntap'', ''add'', ''dev'', sn_tapName alloc, ''mode'', ''tap'', ''user'', dec (nq_uid q),
        ''group'', dec (nq_gid q)] [] (Some r1),
      Ran (nc_ipBin (nd_network D)) [''addr'', ''add'', sn_hostIp alloc @ ''/'' @ dec SUBNET_PREFIX, ''dev'', sn_tapName alloc] [] (Some r2),
      Ran (nc_ipBin (nd_network D)) [''link'', ''set'', ''dev'', sn_tapName alloc, ''up''] [] (Some r3),
      Ran (nc_sysctlBin (nd_network D)) [''-w'', ''net.ipv4.conf.'' @ sn_tapName alloc @ ''.route_localnet=1''] [] (Some r4)]
     \<and> net_tolerated EXISTS_MARKERS r1 \<and> net_tolerated EXISTS_MARKERS r2 \<and> cr_success r3 \<and> cr_success r4)"

definition dnsmasq_up :: "net_deps \<Rightarrow> net_request \<Rightarrow> subnet_allocation \<Rightarrow> string \<Rightarrow> net_event list \<Rightarrow> bool" where
  "dnsmasq_up D q alloc fragment evs = (\<exists>r1 r2 conf.
     conf = (if fragment \<noteq> [] then Some (confPath (nd_dnsmasq D) (sn_slot alloc)) else None)
     \<and> evs = Ran ''mkdir'' [''-p'', dc_runDir (nd_dnsmasq D)] [] (Some r1)
        # (case conf of None \<Rightarrow> [] | Some f \<Rightarrow> [WroteFile f fragment True])
        @ [Ran (dc_dnsmasqBin (nd_dnsmasq D)) (dnsmasq_args (nd_dnsmasq D) alloc (nq_upstreamDns q) conf) [] (Some r2)]
     \<and> cr_success r1 \<and> cr_success r2)"

definition provisioned :: "net_deps \<Rightarrow> host_resolver \<Rightarrow> net_request \<Rightarrow> subnet_allocation \<Rightarrow> net_event list \<Rightarrow> bool" where
  "provisioned D rs q alloc evs = (\<exists>spec R fragment r pre post. parseAllowNet (nq_allowNet q) = Inr spec
     \<and> egress_generate (nd_egress D) rs spec (launch_handle q alloc) [sn_hostIp alloc] = Inr (R, fragment)
     \<and> evs = pre @ apply_event (nd_egress D) (launch_handle q alloc) R (Some r) # post
     \<and> tap_up D q alloc pre \<and> cr_success r \<and> dnsmasq_up D q alloc fragment post)"

lemma ip_leaves:
  "leaves (net_ip E C args tolerate) s (\<lambda>r evs. is_ok r \<longrightarrow> (\<exists>x. evs = [Ran (nc_ipBin C) args [] (Some x)] \<and> net_tolerated tolerate x))"
  unfolding net_ip_def by (rule leaves_mono [OF command_leaves]) (auto split: option.splits)

lemma sysctl_leaves:
  "leaves (net_sysctl E C kv) s (\<lambda>r evs. is_ok r \<longrightarrow> (\<exists>x. evs = [Ran (nc_sysctlBin C) [''-w'', kv] [] (Some x)] \<and> cr_success x))"
  unfolding net_sysctl_def Let_def by (rule leaves_mono [OF command_leaves]) (auto simp: net_tolerated_def split: option.splits)

lemma provision_tap_leaves:
  "leaves (provision_tap E (nd_network D) alloc (nq_uid q) (nq_gid q)) s (\<lambda>r evs. is_ok r \<longrightarrow> tap_up D q alloc evs)"
  unfolding provision_tap_def
  by (rule leaves_bind [OF ip_leaves], rule leaves_bind [OF ip_leaves], rule leaves_bind [OF ip_leaves],
      rule leaves_mono [OF sysctl_leaves]) (auto simp: tap_up_def net_tolerated_def)

lemma install_leaves:
  "leaves (dnsmasq_install E (nd_dnsmasq D) alloc fragment (nq_upstreamDns q)) s (\<lambda>r evs. is_ok r \<longrightarrow> dnsmasq_up D q alloc fragment evs)"
  by (cases "fragment = []")
    (auto simp: leaves_def dnsmasq_install_def dnsmasq_up_def runN_eq writeN_def awaitN_def logN_def bindN_def retN_def
      throwN_def Let_def split: option.splits)

lemma apply_leaves:
  "leaves (egress_apply E C rs spec h resolvers) s (\<lambda>out evs. is_ok out \<longrightarrow>
     (\<exists>R fragment r. egress_generate C rs spec h (orElse resolvers (eg_resolvers C)) = Inr (R, fragment)
       \<and> evs = [apply_event C h R (Some r)] \<and> cr_success r \<and> (\<forall>a. out = Inr a \<longrightarrow> ap_dnsmasqFragment a = fragment)))"
proof -
  obtain t out where run: "egress_apply E C rs spec h resolvers s = (t, out)" by fastforce
  from egress_apply_outcome [OF run] obtain evs where "nt_trace t = nt_trace s @ evs"
    "apply_outcome C h (egress_generate C rs spec h (orElse resolvers (eg_resolvers C))) out evs" by blast
  moreover have "\<exists>R fragment r. egress_generate C rs spec h (orElse resolvers (eg_resolvers C)) = Inr (R, fragment)
       \<and> evs = [apply_event C h R (Some r)] \<and> cr_success r \<and> (\<forall>a. out = Inr a \<longrightarrow> ap_dnsmasqFragment a = fragment)"
    if "is_ok out"
  proof (cases "egress_generate C rs spec h (orElse resolvers (eg_resolvers C))")
    case (Inl e)
    with calculation(2) that show ?thesis by auto
  next
    case (Inr g)
    obtain R fragment where g: "g = (R, fragment)" by fastforce
    with calculation(2) Inr obtain reply rest where "evs = apply_event C h R reply # rest" "case reply of
      None \<Rightarrow> out = Inl SeamRejected \<and> rest = []
    | Some r \<Rightarrow>
        if cr_success r
        then rest = [] \<and> out = Inr \<lparr>ap_tableName = nr_tableName R, ap_ruleset = R, ap_dnsmasqFragment = fragment\<rparr>
        else \<exists>m sealed. out = Inl (EgressApplyError m sealed) \<and> sealed_by C h sealed rest" by auto
    with that Inr g show ?thesis by (cases reply) (auto split: if_splits)
  qed
  ultimately show ?thesis using run by (auto simp: leaves_def)
qed

lemma provision_steps_leaves:
  "leaves (provision_steps E D rs q alloc) s (\<lambda>r evs. no_release evs \<and> (is_ok r \<longrightarrow> provisioned D rs q alloc evs))"
proof -
  have "releases_nothing (provision_steps E D rs q alloc)"
    unfolding provision_steps_def
    by (intro releases_nothing_rules provision_tap_releases_nothing egress_apply_releases_nothing install_releases_nothing)
  then have n: "leaves (provision_steps E D rs q alloc) s (\<lambda>r evs. no_release evs)" by (simp add: releases_nothing_def)
  moreover have "leaves (provision_steps E D rs q alloc) s (\<lambda>r evs. is_ok r \<longrightarrow> provisioned D rs q alloc evs)"
    unfolding provision_steps_def
  proof (rule leaves_bind [OF provision_tap_leaves],
      rule leaves_bind [OF leaves_lift [where P = "\<lambda>x evs. evs = [] \<and> (\<forall>n. x = Inr n \<longrightarrow> parseAllowNet (nq_allowNet q) = Inr n)"]],
      goal_cases)
    case (3 x pre s1 spec evs s2)
    show ?case
      by (rule leaves_bind [OF apply_leaves], rule leaves_bind [OF install_leaves], rule leaves_ret)
        (use 3 in \<open>(auto simp: provisioned_def, blast)\<close>)
  qed auto
  ultimately show ?thesis by (auto simp: leaves_def)
qed

text \<open>What unwinding leaves: every step is tried, whatever the others answer, and the slot is released.\<close>

definition unwound :: "net_deps \<Rightarrow> string \<Rightarrow> subnet_allocation \<Rightarrow> net_event list \<Rightarrow> bool" where
  "unwound D i alloc evs = (\<exists>dns eg tap reply reply'. evs = dns @ eg @ tap @ [SlotReleased (sn_slot alloc)]
     \<and> reap_events (pidfilePath (nd_dnsmasq D) (sn_slot alloc)) dns
     \<and> (eg = [] \<or> egress_deleted D (latin1 i) reply eg) \<and> tap_deleted D (sn_tapName alloc) reply' tap)"

lemma unwind_leaves:
  assumes "0 \<le> sn_slot alloc" "sn_slot alloc < SLOT_COUNT"
  shows "leaves (unwindNetwork E D i alloc) s (\<lambda>r evs. r = Inr () \<and> unwound D i alloc evs)"
proof -
  have dns: "leaves (ignoreN (dnsmasq_reap E f)) s (\<lambda>r evs. r = Inr () \<and> reap_events f evs)" for f s
    by (rule leaves_ignore [OF reap_leaves]) auto
  have eg: "leaves (ignoreN (egress_reclaim E (nd_egress D) (latin1 i) None)) s
      (\<lambda>r evs. r = Inr () \<and> (evs = [] \<or> (\<exists>reply. egress_deleted D (latin1 i) reply evs)))" for s
    by (rule leaves_ignore [OF reclaim_leaves]) auto
  have tp: "leaves (ignoreN (teardown_tap E (nd_network D) alloc)) s
      (\<lambda>r evs. r = Inr () \<and> (\<exists>reply. tap_deleted D (sn_tapName alloc) reply evs))" for s
    by (rule leaves_ignore [OF teardown_leaves]) auto
  have rl: "leaves (releaseN (sn_slot alloc)) s (\<lambda>r evs. r = Inr () \<and> evs = [SlotReleased (sn_slot alloc)])" for s
    using assms by (auto simp: leaves_def releaseN_def logN_def release_slot_def slot_in_range_def split: sum.split)
  show ?thesis
    unfolding unwindNetwork_def
  proof (rule leaves_bind [OF dns], rule leaves_bind [OF eg], rule leaves_bind [OF tp], rule leaves_mono [OF rl], goal_cases)
    case (1 x ds s1 y eg s2 z tp s3 r rl)
    then have "unwound D i alloc (ds @ eg @ tp @ rl)" unfolding unwound_def by blast
    with 1 show ?case by simp
  qed auto
qed

lemma allocateN_leaves:
  "leaves allocateN s (\<lambda>r evs. (case r of
      Inr alloc \<Rightarrow> evs = [SlotAllocated (sn_slot alloc)] \<and> 0 \<le> sn_slot alloc \<and> sn_slot alloc < SLOT_COUNT
        \<and> (\<exists>a. allocate (nt_alloc s) = Inr (a, alloc))
    | Inl e \<Rightarrow> evs = [] \<and> (\<exists>e'. allocate (nt_alloc s) = Inl e')))"
proof (cases "allocate (nt_alloc s)")
  case (Inr p)
  then obtain slot where "first_from (\<lambda>slot. sa_used (nt_alloc s) slot = 0) 0 SLOT_COUNT = Some slot" "sn_slot (snd p) = slot"
    by (auto simp: allocate_def computeAllocation_eq split: option.splits)
  with first_from_Some Inr show ?thesis by (cases p) (fastforce simp: leaves_def allocateN_def logN_def)
qed (simp add: leaves_def allocateN_def)

text \<open>
  C11. A launch either provisions its whole network or tries to take all of it down. When it returns a network, it
  allocated a slot, brought its TAP up, got the rules generated for the request's own \<open>allowNet\<close> accepted by nft, and only
  then started dnsmasq; nothing was released. When it throws, either there was no slot to allocate, or, after the steps
  that ran, dnsmasq, egress table and TAP were each tried and the slot was released, exactly once and at the end. That
  release does not depend on what nft and ip answered: a TAP that could not be deleted is left under a slot that the next
  launch gets, unlike in a reclaim.
\<close>

theorem provision_is_unwound_on_failure:
  assumes "provisionNetwork E (Some D) rs q s = (t, out)" "nq_netless q \<noteq> Some True"
  shows "\<exists>evs. nt_trace t = nt_trace s @ evs \<and>
    ((\<exists>e. out = Inl e \<and> evs = [] \<and> \<not> is_ok (allocate (nt_alloc s)))
     \<or> (\<exists>a alloc steps. allocate (nt_alloc s) = Inr (a, alloc) \<and> no_release steps \<and> (case out of
          Inr None \<Rightarrow> False
        | Inr (Some n) \<Rightarrow> evs = SlotAllocated (sn_slot alloc) # steps \<and> provisioned D rs q alloc steps
        | Inl e \<Rightarrow> \<exists>undo. evs = SlotAllocated (sn_slot alloc) # steps @ undo \<and> unwound D (nq_sandboxId q) alloc undo)))"
proof -
  let ?Q = "\<lambda>out evs. (\<exists>e. out = Inl e \<and> evs = [] \<and> \<not> is_ok (allocate (nt_alloc s)))
     \<or> (\<exists>a alloc steps. allocate (nt_alloc s) = Inr (a, alloc) \<and> no_release steps \<and> (case out of
          Inr None \<Rightarrow> False
        | Inr (Some n) \<Rightarrow> evs = SlotAllocated (sn_slot alloc) # steps \<and> provisioned D rs q alloc steps
        | Inl e \<Rightarrow> \<exists>undo. evs = SlotAllocated (sn_slot alloc) # steps @ undo \<and> unwound D (nq_sandboxId q) alloc undo))"
  have "leaves (provisionNetwork E (Some D) rs q) s ?Q"
    unfolding provisionNetwork_def option.case if_not_P [OF assms(2)]
  proof (rule leaves_bind [OF allocateN_leaves], goal_cases)
    case (1 alloc al u)
    then obtain a where a: "al = [SlotAllocated (sn_slot alloc)]" "0 \<le> sn_slot alloc" "sn_slot alloc < SLOT_COUNT"
      "allocate (nt_alloc s) = Inr (a, alloc)" by auto
    have steps: "leaves (attemptN (provision_steps E D rs q alloc)) u
        (\<lambda>r evs. \<exists>x. r = Inr x \<and> no_release evs \<and> (is_ok x \<longrightarrow> provisioned D rs q alloc evs))"
      by (rule leaves_attempt [OF provision_steps_leaves]) auto
    show ?case
    proof (rule leaves_bind [OF steps], goal_cases)
      case (1 x evs v)
      show ?case
      proof (cases x)
        case (Inl e)
        show ?thesis
          unfolding Inl sum.case
          by (rule leaves_bind [OF unwind_leaves [OF a(2,3)]], rule leaves_throw) (use 1 a in auto)
      next
        case (Inr n)
        show ?thesis
          unfolding Inr sum.case by (rule leaves_ret) (use 1 Inr a in auto)
      qed
    qed auto
  qed auto
  with assms(1) show ?thesis by (simp add: leaves_def)
qed

subsection \<open>A host that refuses every command\<close>

definition example_busy :: command_result where
  "example_busy = \<lparr>cr_success = False, cr_code = 1, cr_stderr = ''busy''\<rparr>"

definition example_busy_env :: net_env where
  "example_busy_env = example_net_env\<lparr>ne_run := (\<lambda>_ _ _ _. Some example_busy)\<rparr>"

definition example_deps :: net_deps where
  "example_deps = \<lparr>nd_network = networkConfig None None None None, nd_dnsmasq = dnsmasqConfig None None,
     nd_egress = egressConfig None None None None, nd_portForward = None\<rparr>"

definition example_request :: net_request where
  "example_request = \<lparr>nq_sandboxId = ''a-b'', nq_allowNet = JUndef, nq_netless = None, nq_uid = 1, nq_gid = 1,
     nq_upstreamDns = ''1.1.1.1''\<rparr>"

lemma busy_not_tolerated: "\<not> net_tolerated GONE_MARKERS example_busy" "\<not> net_tolerated EXISTS_MARKERS example_busy"
  by (simp_all add: net_tolerated_def GONE_MARKERS_def EXISTS_MARKERS_def example_busy_def startsWith_def)

lemma busy_steps: "\<exists>e. snd (provision_steps example_busy_env example_deps rs example_request alloc s) = Inl e"
  using busy_not_tolerated
  by (simp add: provision_steps_def provision_tap_def net_ip_def net_check_def runN_eq bindN_def throwN_def Let_def
      example_busy_env_def example_net_env_def)

text \<open>
  The first command fails, so does the deletion of the TAP, and slot 0 is handed out again.
\<close>

theorem provision_is_unwound_on_failure_witness:
  "\<exists>t e alloc undo. provisionNetwork example_busy_env (Some example_deps) (\<lambda>_ _. None) example_request example_net_state = (t, Inl e)
     \<and> (\<exists>a. allocate example_pool = Inr (a, alloc)) \<and> unwound example_deps ''a-b'' alloc undo
     \<and> (\<exists>pre. nt_trace t = pre @ undo)"
proof -
  let ?run = "provisionNetwork example_busy_env (Some example_deps) (\<lambda>_ _. None) example_request example_net_state"
  obtain t out where run: "?run = (t, out)" by fastforce
  have net: "nq_netless example_request \<noteq> Some True" by (simp add: example_request_def)
  have ok: "is_ok (allocate example_pool)" using example_first_slot by simp
  then obtain a alloc where al: "allocate example_pool = Inr (a, alloc)" by (cases "allocate example_pool") auto
  obtain e where e: "snd (provision_steps example_busy_env example_deps (\<lambda>_ _. None) example_request alloc
      ((logN (SlotAllocated (sn_slot alloc)) example_net_state)\<lparr>nt_alloc := a\<rparr>)) = Inl e" using busy_steps by blast
  have "\<exists>e. out = Inl e"
    using run al e net
    by (auto simp: provisionNetwork_def bindN_def attemptN_def allocateN_def throwN_def example_net_state_def
        split: prod.splits sum.splits)
  with provision_is_unwound_on_failure [OF run net] ok al show ?thesis
    unfolding run by (fastforce simp: example_net_state_def example_request_def)
qed

lemma example_slot: "slotOfTapName ''sbxtap3'' = Inr 3"
proof -
  have "dec 3 = ''3''" by code_simp
  then show ?thesis using slotOfTapName_dec [of 3] by (simp add: TAP_NAME_PREFIX_def)
qed

lemma example_reclaim_ok: "is_ok (snd (networkReclaim example_net_env example_deps example_record example_net_state))"
proof -
  have table: "is_ok (egressTableName (latin1 ''sbx-1''))"
    using egressTableName_eq [OF latin1_well_formed [of "''sbx-1''"]]
    by (simp add: latin1_def utf8_encode_def code_def is_high_def is_low_def utf8_cp_def)
  then obtain name where "egressTableName (latin1 ''sbx-1'') = Inr name" by (cases "egressTableName (latin1 ''sbx-1'')") auto
  moreover have "subnetForSlot (NumInt 3) DEFAULT_POOL_CIDR = Inr (computeAllocation 3 10 201)"
    by (simp add: subnetForSlot_def slot_in_range_def SLOT_COUNT_eq default_pool)
  ultimately show ?thesis
    using example_slot
    by (simp add: networkReclaim_def example_record_def example_resources_def example_deps_def egress_reclaim_def egress_nft_def
        egressConfig_def liftN_def bindN_def retN_def throwN_def runN_eq Let_def example_net_env_def example_ok_def
        teardown_tap_def net_ip_def net_check_def net_tolerated_def releaseN_def release_slot_def slot_in_range_def SLOT_COUNT_eq
        example_net_state_def example_pool_def)
qed

theorem reclaim_releases_the_slot_last_witness:
  "\<exists>t. networkReclaim example_net_env example_deps example_record example_net_state = (t, Inr ())
     \<and> reclaimed example_deps example_record 3 (nt_trace t)"
proof -
  obtain t out where run: "networkReclaim example_net_env example_deps example_record example_net_state = (t, out)" by fastforce
  then have out: "out = Inr ()" using example_reclaim_ok by (cases out) auto
  from reclaim_releases_the_slot_last [OF run] run out example_slot show ?thesis
    by (auto simp: example_net_state_def example_record_def example_resources_def)
qed

end
