(* ===== verification/Network_Startup.thy ===== *)
theory Network_Startup
  imports Network_Properties
begin

text \<open>
  The start of rootd, as far as the network goes (\<^verbatim>\<open>src/rootd/network/orphan_sweep.ts\<close>): the slots that the journal
  still owns, and the sweep of what no record owns.
\<close>

subsection \<open>The slots of live records\<close>

lemma reserveLiveSlots_used:
  "reserveLiveSlots a rs = Inr b \<Longrightarrow> allocator_ok a \<Longrightarrow>
     allocator_ok b \<and> (\<forall>k. slot_used a k \<longrightarrow> slot_used b k)
     \<and> (\<forall>r \<in> set rs. isLive r \<longrightarrow> (case sr_tapName (sb_resources r) of
          None \<Rightarrow> True | Some tap \<Rightarrow> \<exists>k. slotOfTapName tap = Inr k \<and> slot_used b k))"
proof (induction a rs rule: reserveLiveSlots.induct)
  case (2 a r rs)
  show ?case
  proof (cases "isLive r")
    case False
    with 2 show ?thesis by auto
  next
    case True
    show ?thesis
    proof (cases "sr_tapName (sb_resources r)")
      case None
      with True 2 show ?thesis by auto
    next
      case (Some tap)
      with True "2.prems"(1) obtain k c where k: "slotOfTapName tap = Inr k" "reserve_slot a (NumInt k) = Inr c"
        "reserveLiveSlots c rs = Inr b" by (auto simp: bindE_eq_Inr)
      from reserve_slot_ok [OF "2.prems"(2) k(2)] have c: "allocator_ok c" "slot_used c = (slot_used a)(k := True)" by simp_all
      from "2.IH"(3) [OF _ Some k(3) c(1)] True c(2) k(1) Some show ?thesis by auto
    qed
  qed
qed simp

text \<open>
  C12. A restarted supervisor hands out no slot that the journal still owns. When the slots of the live records could be
  reserved in a new allocator, every live record with a TAP has a slot, and after any calls none of which releases that
  slot, an allocation gets another slot and a TAP of another name. A record is live in every phase but terminated, so
  this covers quarantined records, whose devices may be up.
\<close>

theorem startup_reserves_live_slots:
  assumes "new_allocator pool = Inr a0" "reserveLiveSlots a0 rs = Inr a"
    and "r \<in> set rs" "sb_phase r \<noteq> Terminated" "sr_tapName (sb_resources r) = Some tap"
  shows "\<exists>k. slotOfTapName tap = Inr k \<and>
    (\<forall>ps a' x. (\<forall>n. NRelease n \<in> set ps \<longrightarrow> int_of n \<noteq> k) \<and> allocate (foldl net_exec a ps) = Inr (a', x)
       \<longrightarrow> sn_slot x \<noteq> k \<and> sn_tapName x \<noteq> tap)"
proof -
  have ok: "allocator_ok a0" using new_allocator_ok [OF assms(1)] by simp
  note used = reserveLiveSlots_used [OF assms(2) ok]
  have "isLive r" using assms(4) by (simp add: isLive_def)
  with used assms(3,5) have "\<exists>k. slotOfTapName tap = Inr k \<and> slot_used a k" by force
  with used obtain k where k: "allocator_ok a" "slotOfTapName tap = Inr k" "slot_used a k" by blast
  have "sn_slot x \<noteq> k \<and> sn_tapName x \<noteq> tap"
    if "\<forall>n. NRelease n \<in> set ps \<longrightarrow> int_of n \<noteq> k" "allocate (foldl net_exec a ps) = Inr (a', x)" for ps a' x
  proof -
    from net_run_keeps [OF k(1,3) that(1)] have u: "slot_used (foldl net_exec a ps) k" "allocator_ok (foldl net_exec a ps)" by simp_all
    from allocate_Inr [OF u(2) that(2)] u(1) have ne: "sn_slot x \<noteq> k" and v: "0 \<le> sn_slot x" "sn_slot x < SLOT_COUNT"
      by (auto simp: slot_valid_def)
    have "sn_tapName x = TAP_NAME_PREFIX @ dec (nat (sn_slot x))"
      using that(2) by (auto simp: allocate_def computeAllocation_eq octet_def split: option.splits)
    with slotOfTapName_dec [of "nat (sn_slot x)"] v have "slotOfTapName (sn_tapName x) = Inr (sn_slot x)" by (simp add: SLOT_COUNT_eq)
    with k(2) ne show ?thesis by auto
  qed
  with k(2) show ?thesis by blast
qed

lemma example_reserves: "\<exists>a. reserveLiveSlots example_pool [example_record] = Inr a"
  using example_slot
  by (simp add: isLive_def example_record_def example_resources_def reserve_slot_def slot_in_range_def SLOT_COUNT_eq
      example_pool_def)

theorem startup_reserves_live_slots_witness:
  "\<exists>a. reserveLiveSlots example_pool [example_record] = Inr a
     \<and> (\<forall>a' x. allocate a = Inr (a', x) \<longrightarrow> sn_slot x \<noteq> 3 \<and> sn_tapName x \<noteq> ''sbxtap3'')"
proof -
  obtain a where a: "reserveLiveSlots example_pool [example_record] = Inr a" using example_reserves by blast
  have r: "example_record \<in> set [example_record]" "sb_phase example_record \<noteq> Terminated"
    "sr_tapName (sb_resources example_record) = Some ''sbxtap3''" by (simp_all add: example_record_def example_resources_def)
  from startup_reserves_live_slots [OF example_pool_new a r] obtain k where k: "slotOfTapName ''sbxtap3'' = Inr k"
    "\<forall>ps a' x. (\<forall>n. NRelease n \<in> set ps \<longrightarrow> int_of n \<noteq> k) \<and> allocate (foldl net_exec a ps) = Inr (a', x)
       \<longrightarrow> sn_slot x \<noteq> k \<and> sn_tapName x \<noteq> ''sbxtap3''" by blast
  from k(1) example_slot have "k = 3" by simp
  with k(2) [THEN spec, of "[]"] a show ?thesis by auto
qed

subsection \<open>The sweep\<close>

lemma collect_taps_sbx: "\<forall>n \<in> set names. sbxtap_name n \<Longrightarrow> n \<in> set (collect_taps ls names) \<Longrightarrow> sbxtap_name n"
proof (induction ls arbitrary: names)
  case (Cons l ls)
  show ?case
  proof (cases "tap_line l")
    case (Some x)
    with Cons.prems(1) have "\<forall>n \<in> set (if sbxtap_name x \<and> x \<notin> set names then names @ [x] else names). sbxtap_name n" by auto
    from Cons.IH [OF this] Cons.prems(2) Some show ?thesis by simp
  qed (use Cons in simp)
qed simp

lemma parseTapNames_sbx: "n \<in> set (parseTapNames out) \<Longrightarrow> sbxtap_name n"
  using collect_taps_sbx [of "[]"] by (auto simp: parseTapNames_def)

lemma collect_tables_sbx: "\<forall>x \<in> set xs. sbx_table x \<Longrightarrow> x \<in> set (collect_tables ls xs) \<Longrightarrow> sbx_table x"
proof (induction ls arbitrary: xs)
  case (Cons l ls)
  show ?case
  proof (cases "table_line l")
    case (Some y)
    with Cons.prems(1) have "\<forall>x \<in> set (if sbx_table y \<and> snd y \<notin> snd ` set xs then xs @ [y] else xs). sbx_table x" by auto
    from Cons.IH [OF this] Cons.prems(2) Some show ?thesis by simp
  qed (use Cons in simp)
qed simp

lemma parseSbxTables_sbx: "x \<in> set (parseSbxTables out) \<Longrightarrow> sbx_table x"
  using collect_tables_sbx [of "[]"] by (auto simp: parseSbxTables_def)

definition table_deleted :: "net_deps \<Rightarrow> string \<times> string \<Rightarrow> command_result option \<Rightarrow> net_event list \<Rightarrow> bool" where
  "table_deleted D x reply evs = (evs = [Ran (nc_nftBin (nd_network D)) [''-f'', ''-''] (delete_script (fst x) (snd x)) reply])"

lemma reapTable_leaves:
  "leaves (reapTable E (nd_network D) (fst x) (snd x)) s (\<lambda>r evs. \<exists>reply. table_deleted D x reply evs \<and> is_ok r = accepted reply)"
  unfolding reapTable_def net_nft_def Let_def table_deleted_def
  by (rule leaves_mono [OF command_leaves]) (auto simp: accepted_def net_tolerated_def split: option.splits)

text \<open>
  The device that the sweep deletes for a listed name: the one of the slot that the digits of the name read as. It is the
  listed name itself when this is spelled as studiobox spells it.
\<close>

definition device_of :: "string \<Rightarrow> string \<Rightarrow> bool" where
  "device_of tap d = (\<exists>k < 16384. slotOfTapName tap = Inr (int k) \<and> d = TAP_NAME_PREFIX @ dec k)"

lemma device_of_own: "k < 16384 \<Longrightarrow> device_of (TAP_NAME_PREFIX @ dec k) d \<longleftrightarrow> d = TAP_NAME_PREFIX @ dec k"
  by (auto simp: device_of_def slotOfTapName_dec)

lemma orphan_leaves:
  "leaves (teardownOrphan E D tap) s (\<lambda>r evs. (evs = [] \<and> \<not> is_ok r)
     \<or> (\<exists>d reply. device_of tap d \<and> tap_deleted D d reply evs \<and> is_ok r = gone reply))"
proof (cases "\<exists>k < 16384. slotOfTapName tap = Inr (int k)")
  case True
  then obtain k where k: "k < 16384" "slotOfTapName tap = Inr (int k)" by blast
  have "subnetForSlot (NumInt (int k)) DEFAULT_POOL_CIDR = Inr (computeAllocation (int k) 10 201)"
    using k(1) by (simp add: subnetForSlot_def slot_in_range_def SLOT_COUNT_eq default_pool)
  then have run: "teardownOrphan E D tap = teardown_tap E (nd_network D) (computeAllocation (int k) 10 201)"
    by (simp add: teardownOrphan_def liftN_def bindN_def retN_def k(2))
  have dev: "device_of tap (sn_tapName (computeAllocation (int k) 10 201))"
    unfolding device_of_def by (rule exI [of _ k]) (simp add: k computeAllocation_eq octet_def)
  show ?thesis
    unfolding run using dev by (intro leaves_mono [OF teardown_leaves]) blast
next
  case False
  have "subnetForSlot (NumInt slot) DEFAULT_POOL_CIDR = Inl NetRangeError" if "slotOfTapName tap = Inr slot" for slot
  proof -
    have "\<not> (0 \<le> slot \<and> slot < 16384)"
    proof
      assume "0 \<le> slot \<and> slot < 16384"
      then have "nat slot < 16384" "slot = int (nat slot)" by linarith+
      with False that show False by metis
    qed
    then show ?thesis by (auto simp: subnetForSlot_def slot_in_range_def SLOT_COUNT_eq)
  qed
  then show ?thesis
    by (cases "slotOfTapName tap") (simp_all add: leaves_def teardownOrphan_def liftN_def bindN_def throwN_def retN_def is_ok_def)
qed

text \<open>
  The events a sweep may leave: the three kinds of reaping. A table or a pidfile is one that no live record owns; a device
  is that of a listed name that no live record owns.
\<close>

definition reaps_orphan :: "net_deps \<Rightarrow> sandbox_record list \<Rightarrow> string list \<Rightarrow> net_event \<Rightarrow> bool" where
  "reaps_orphan D rs listed e = (
     (\<exists>tap d reply part. tap \<in> set listed \<and> tap \<notin> ownedTaps rs \<and> sbxtap_name tap \<and> device_of tap d
        \<and> tap_deleted D d reply part \<and> e \<in> set part)
     \<or> (\<exists>x reply part. snd x \<notin> ownedTables rs \<and> sbx_table x \<and> table_deleted D x reply part \<and> e \<in> set part)
     \<or> (\<exists>f part. f \<notin> ownedPidfiles rs \<and> reap_events f part \<and> e \<in> set part))"

lemma leaves_read: "leaves (readTrace f) s (\<lambda>r evs. evs = [] \<and> r = Inr (f (nt_trace s)))"
  by (simp add: leaves_def readTrace_def)

definition sweep_done :: "net_deps \<Rightarrow> sandbox_record list \<Rightarrow> sweep_seams \<Rightarrow> net_trace \<Rightarrow> sweep_result \<Rightarrow> net_event list \<Rightarrow> bool" where
  "sweep_done D rs S tr res evs = (\<exists>ts bs ps.
     evs = concat (map snd ts) @ concat (map snd bs) @ concat (map snd ps)
     \<and> sw_taps res = map fst ts \<and> sw_reaped res = map (snd \<circ> fst) bs \<and> sw_pids res = map fst ps
     \<and> map fst ts = filter (\<lambda>tap. tap \<notin> ownedTaps rs) (parseTapNames (sw_link S tr))
     \<and> map fst bs = filter (\<lambda>x. snd x \<notin> ownedTables rs) (parseSbxTables (sw_tables S (tr @ concat (map snd ts))))
     \<and> map fst ps = filter (\<lambda>f. f \<notin> ownedPidfiles rs) (sw_pidfiles S (tr @ concat (map snd ts) @ concat (map snd bs)))
     \<and> (\<forall>(tap, e) \<in> set ts. \<exists>d reply. device_of tap d \<and> tap_deleted D d reply e \<and> gone reply)
     \<and> (\<forall>(x, e) \<in> set bs. \<exists>reply. table_deleted D x reply e \<and> accepted reply)
     \<and> (\<forall>(f, e) \<in> set ps. reap_events f e))"

text \<open>The three loops of the sweep, over names of which none is owned.\<close>

lemma taps_loop:
  assumes "\<forall>tap \<in> set taps. tap \<in> set listed \<and> tap \<notin> ownedTaps rs \<and> sbxtap_name tap"
  shows "leaves (forN (teardownOrphan E D) taps) s (\<lambda>r evs. (\<forall>e \<in> set evs. reaps_orphan D rs listed e)
    \<and> (is_ok r \<longrightarrow> (\<exists>parts. evs = concat (map snd parts) \<and> map fst parts = taps
        \<and> (\<forall>(tap, e) \<in> set parts. \<exists>d reply. device_of tap d \<and> tap_deleted D d reply e \<and> gone reply))))"
proof (rule leaves_mono [OF leaves_for [where P = "\<lambda>tap e. e = [] \<or> (\<exists>d reply. device_of tap d \<and> tap_deleted D d reply e)"
      and Q = "\<lambda>tap e. \<exists>d reply. device_of tap d \<and> tap_deleted D d reply e \<and> gone reply"]], goal_cases)
  case (1 tap s)
  show ?case by (rule leaves_mono [OF orphan_leaves]) auto
next
  case (2 r evs)
  then obtain parts where p: "evs = concat (map snd parts)"
    "\<forall>(tap, e) \<in> set parts. tap \<in> set taps \<and> (e = [] \<or> (\<exists>d reply. device_of tap d \<and> tap_deleted D d reply e))"
    "is_ok r \<longrightarrow> map fst parts = taps \<and> (\<forall>(tap, e) \<in> set parts. \<exists>d reply. device_of tap d \<and> tap_deleted D d reply e \<and> gone reply)"
    by blast
  have "reaps_orphan D rs listed e" if "e \<in> set evs" for e
  proof -
    from that p(1) obtain tap part where t: "(tap, part) \<in> set parts" "e \<in> set part" by auto
    with p(2) obtain d reply where "tap \<in> set taps" "device_of tap d" "tap_deleted D d reply part" by fastforce
    with assms t(2) show ?thesis unfolding reaps_orphan_def by blast
  qed
  with p show ?case by blast
qed

lemma tables_loop:
  assumes "\<forall>x \<in> set xs. snd x \<notin> ownedTables rs \<and> sbx_table x"
  shows "leaves (forN (\<lambda>x. reapTable E (nd_network D) (fst x) (snd x)) xs) s (\<lambda>r evs. (\<forall>e \<in> set evs. reaps_orphan D rs listed e)
    \<and> (is_ok r \<longrightarrow> (\<exists>parts. evs = concat (map snd parts) \<and> map fst parts = xs
        \<and> (\<forall>(x, e) \<in> set parts. \<exists>reply. table_deleted D x reply e \<and> accepted reply))))"
proof (rule leaves_mono [OF leaves_for [where P = "\<lambda>x e. \<exists>reply. table_deleted D x reply e"
      and Q = "\<lambda>x e. \<exists>reply. table_deleted D x reply e \<and> accepted reply"]], goal_cases)
  case (1 x s)
  then show ?case by (intro leaves_mono [OF reapTable_leaves]) auto
next
  case (2 r evs)
  then obtain parts where p: "evs = concat (map snd parts)" "\<forall>(x, e) \<in> set parts. x \<in> set xs \<and> (\<exists>reply. table_deleted D x reply e)"
    "is_ok r \<longrightarrow> map fst parts = xs \<and> (\<forall>(x, e) \<in> set parts. \<exists>reply. table_deleted D x reply e \<and> accepted reply)" by blast
  have "\<forall>e \<in> set evs. reaps_orphan D rs listed e"
    using p(1,2) assms unfolding reaps_orphan_def by fastforce
  with p show ?case by blast
qed

lemma pids_loop:
  assumes "\<forall>f \<in> set fs. f \<notin> ownedPidfiles rs"
  shows "leaves (forN (dnsmasq_reap E) fs) s (\<lambda>r evs. (\<forall>e \<in> set evs. reaps_orphan D rs listed e)
    \<and> (is_ok r \<longrightarrow> (\<exists>parts. evs = concat (map snd parts) \<and> map fst parts = fs \<and> (\<forall>(f, e) \<in> set parts. reap_events f e))))"
proof (rule leaves_mono [OF leaves_for [where P = reap_events and Q = reap_events]], goal_cases)
  case (1 f s)
  then show ?case by (intro leaves_mono [OF reap_leaves]) auto
next
  case (2 r evs)
  then obtain parts where p: "evs = concat (map snd parts)" "\<forall>(f, e) \<in> set parts. f \<in> set fs \<and> reap_events f e"
    "is_ok r \<longrightarrow> map fst parts = fs \<and> (\<forall>(f, e) \<in> set parts. reap_events f e)" by blast
  have "\<forall>e \<in> set evs. reaps_orphan D rs listed e"
    using p(1,2) assms unfolding reaps_orphan_def by fastforce
  with p show ?case by blast
qed

lemma sweep_leaves:
  "leaves (sweepNetworkOrphans E D S rs) s (\<lambda>out evs.
    (\<forall>e \<in> set evs. reaps_orphan D rs (parseTapNames (sw_link S (nt_trace s))) e)
    \<and> (\<forall>res. out = Inr res \<longrightarrow> sweep_done D rs S (nt_trace s) res evs))"
  unfolding sweepNetworkOrphans_def
proof (rule leaves_bind_at [OF leaves_read], goal_cases)
  case (1 taps none s1)
  then have taps: "none = []" "taps = filter (\<lambda>tap. tap \<notin> ownedTaps rs) (parseTapNames (sw_link S (nt_trace s)))"
    "nt_trace s1 = nt_trace s" by auto
  then have "\<forall>tap \<in> set taps. tap \<in> set (parseTapNames (sw_link S (nt_trace s))) \<and> tap \<notin> ownedTaps rs \<and> sbxtap_name tap"
    using parseTapNames_sbx by auto
  from taps_loop [OF this] show ?case
  proof (rule leaves_bind_at, goal_cases)
    case (1 u e1 s2)
    then obtain ts where ts: "e1 = concat (map snd ts)" "map fst ts = taps"
      "\<forall>(tap, e) \<in> set ts. \<exists>d reply. device_of tap d \<and> tap_deleted D d reply e \<and> gone reply" by auto
    note e1 = 1
    show ?case
    proof (rule leaves_bind_at [OF leaves_read], goal_cases)
      case (1 xs none' s3)
      then have xs: "none' = []" "xs = filter (\<lambda>x. snd x \<notin> ownedTables rs) (parseSbxTables (sw_tables S (nt_trace s @ e1)))"
        "nt_trace s3 = nt_trace s @ e1" using e1 taps by auto
      then have "\<forall>x \<in> set xs. snd x \<notin> ownedTables rs \<and> sbx_table x" using parseSbxTables_sbx by auto
      from tables_loop [OF this, where listed = "parseTapNames (sw_link S (nt_trace s))"] show ?case
      proof (rule leaves_bind_at, goal_cases)
        case (1 v e2 s4)
        then obtain bs where bs: "e2 = concat (map snd bs)" "map fst bs = xs"
          "\<forall>(x, e) \<in> set bs. \<exists>reply. table_deleted D x reply e \<and> accepted reply" by auto
        note e2 = 1
        show ?case
        proof (rule leaves_bind_at [OF leaves_read], goal_cases)
          case (1 fs none'' s5)
          then have fs: "none'' = []" "fs = filter (\<lambda>f. f \<notin> ownedPidfiles rs) (sw_pidfiles S (nt_trace s @ e1 @ e2))"
            using e2 xs by auto
          then have "\<forall>f \<in> set fs. f \<notin> ownedPidfiles rs" by auto
          from pids_loop [OF this, where D = D and listed = "parseTapNames (sw_link S (nt_trace s))"] show ?case
          proof (rule leaves_bind_at, goal_cases)
            case (1 w e3 s6)
            then obtain ps where ps: "e3 = concat (map snd ps)" "map fst ps = fs" "\<forall>(f, e) \<in> set ps. reap_events f e" by auto
            have "sweep_done D rs S (nt_trace s) \<lparr>sw_taps = taps, sw_reaped = map snd xs, sw_pids = fs\<rparr> (e1 @ e2 @ e3)"
              unfolding sweep_done_def
              by (rule exI [of _ ts], rule exI [of _ bs], rule exI [of _ ps])
                (use ts bs ps taps xs fs in \<open>simp add: map_map [symmetric]\<close>)
            with 1 e1 e2 taps xs fs show ?case by (intro leaves_ret) auto
          qed (use e1 e2 taps xs fs in auto)
        qed auto
      qed (use e1 taps xs in auto)
    qed auto
  qed (use taps in auto)
qed auto

text \<open>
  C13. The orphan sweep takes only what no live record owns, and all of it. Whatever the commands answer, and also when
  the sweep throws half-way, every event it leaves belongs to the deletion of a table with one of the two per-sandbox
  prefixes or to the reaping of a pidfile that no record outside the phase terminated owns, or to the deletion of the
  device of the slot of a listed TAP name that no such record owns: that very TAP when the name is spelled as studiobox
  spells it, and for another spelling, as with leading zeros, the TAP of the same slot, owned or not. When it returns, every unowned TAP, table and pidfile that
  the host listed was dealt with, in this order, each device gone and each deletion accepted by nft, and they are what it
  reports; a listed name that is no slot's makes it throw.
\<close>

theorem sweep_spares_what_live_records_own:
  assumes "sweepNetworkOrphans E D S rs s = (t, out)"
  shows "\<exists>evs. nt_trace t = nt_trace s @ evs
    \<and> (\<forall>e \<in> set evs. reaps_orphan D rs (parseTapNames (sw_link S (nt_trace s))) e)
    \<and> (\<forall>res. out = Inr res \<longrightarrow> sweep_done D rs S (nt_trace s) res evs)"
  using sweep_leaves [of E D S rs s] assms by (simp add: leaves_def)

text \<open>
  The exception is real: for a listed \<^verbatim>\<open>sbxtap007\<close> the sweep deletes \<^verbatim>\<open>sbxtap7\<close>, and a listed \<^verbatim>\<open>sbxtap99999\<close> has no device
  and stops the sweep.
\<close>

lemma padded_tap_takes_another_device:
  "device_of ''sbxtap007'' ''sbxtap7''" "\<not> device_of ''sbxtap99999'' d"
  "sbxtap_name ''sbxtap007''" "sbxtap_name ''sbxtap99999''"
proof -
  have d: "list_all is_digit ''007''" "list_all is_digit ''99999''" by (simp_all add: is_digit_def code_def)
  have n: "parse_dec ''007'' = 7" "parse_dec ''99999'' = 99999" by (simp_all add: parse_dec_def code_def)
  have r: "to_js_number (rnd (of_nat m)) = NumInt (int m)" if "m < 100000" for m
    using js_Number_dec [of m] js_Number_digits [of "dec m"] dec_digits that by (simp add: list_all_iff parse_dec_dec)
  have j: "js_Number ''007'' = NumInt 7" "js_Number ''99999'' = NumInt 99999"
    using js_Number_digits [OF d(1)] js_Number_digits [OF d(2)] r [of 7] r [of 99999] by (simp_all add: n)
  have "dec 7 = ''7''" by code_simp
  moreover have s: "slotOfTapName ''sbxtap007'' = Inr 7" "slotOfTapName ''sbxtap99999'' = Inr 99999"
    using d j by (simp_all add: slotOfTapName_def TAP_NAME_PREFIX_def startsWith_def)
  ultimately show "device_of ''sbxtap007'' ''sbxtap7''" "\<not> device_of ''sbxtap99999'' d"
    by (auto simp: device_of_def TAP_NAME_PREFIX_def intro: exI [of _ 7])
  show "sbxtap_name ''sbxtap007''" "sbxtap_name ''sbxtap99999''"
    using d by (simp_all add: sbxtap_name_def TAP_NAME_PREFIX_def startsWith_def)
qed

text \<open>A TAP of slot 5 that no record names, and a table of a sandbox that is gone.\<close>

definition example_seams :: sweep_seams where
  "example_seams = \<lparr>sw_link = (\<lambda>_. ''7: sbxtap3: <UP>'' @ newline @ ''9: sbxtap5@if2: <UP>''),
     sw_tables = (\<lambda>_. ''table inet sbx_eg_a''), sw_pidfiles = (\<lambda>_. [])\<rparr>"

lemma example_taps: "parseTapNames (sw_link example_seams tr) = [''sbxtap3'', ''sbxtap5'']"
  by (simp add: parseTapNames_def lines_of_def example_seams_def newline_def tap_line_def is_space_def is_digit_def code_def
      sbxtap_name_def startsWith_def TAP_NAME_PREFIX_def)

theorem sweep_spares_what_live_records_own_witness:
  "\<exists>t out evs. sweepNetworkOrphans example_net_env example_deps example_seams [example_record] example_net_state = (t, out)
     \<and> nt_trace t = evs \<and> (\<forall>e \<in> set evs. reaps_orphan example_deps [example_record] [''sbxtap3'', ''sbxtap5''] e)
     \<and> ''sbxtap3'' \<in> ownedTaps [example_record]"
proof -
  obtain t out where run: "sweepNetworkOrphans example_net_env example_deps example_seams [example_record] example_net_state = (t, out)"
    by fastforce
  from sweep_spares_what_live_records_own [OF run] run show ?thesis
    by (auto simp: example_net_state_def example_taps ownedTaps_def isLive_def example_record_def example_resources_def)
qed

end
