(* ===== verification/Sha256.thy ===== *)
theory Sha256
  imports Js_Text
begin

unbundle bit_operations_syntax

text \<open>
  \<^verbatim>\<open>src/agent/sha256.ts\<close>: the streaming SHA-256 of the transfer receipts, and its equivalence with the digest of the whole
  message as FIPS 180-4 defines it.

  The numbers of the source are 32-bit words here: every sum ends in \<open>>>> 0\<close> and every store is into a \<open>Uint32Array\<close>, so
  each operation is the one on words. The block is an array of 64 bytes of which the first \<open>sh_blockLength\<close> count; the
  schedule array is scratch, written before it is read in every compression, and is a local list.
\<close>

type_synonym sha_word = "32 word"

subsection \<open>The hasher\<close>

text \<open>The round constants, four in a row.\<close>

definition K :: "sha_word list" where
  "K = concat [
     [0x428a2f98, 0x71374491, 0xb5c0fbcf, 0xe9b5dba5], [0x3956c25b, 0x59f111f1, 0x923f82a4, 0xab1c5ed5],
     [0xd807aa98, 0x12835b01, 0x243185be, 0x550c7dc3], [0x72be5d74, 0x80deb1fe, 0x9bdc06a7, 0xc19bf174],
     [0xe49b69c1, 0xefbe4786, 0x0fc19dc6, 0x240ca1cc], [0x2de92c6f, 0x4a7484aa, 0x5cb0a9dc, 0x76f988da],
     [0x983e5152, 0xa831c66d, 0xb00327c8, 0xbf597fc7], [0xc6e00bf3, 0xd5a79147, 0x06ca6351, 0x14292967],
     [0x27b70a85, 0x2e1b2138, 0x4d2c6dfc, 0x53380d13], [0x650a7354, 0x766a0abb, 0x81c2c92e, 0x92722c85],
     [0xa2bfe8a1, 0xa81a664b, 0xc24b8b70, 0xc76c51a3], [0xd192e819, 0xd6990624, 0xf40e3585, 0x106aa070],
     [0x19a4c116, 0x1e376c08, 0x2748774c, 0x34b0bcb5], [0x391c0cb3, 0x4ed8aa4a, 0x5b9cca4f, 0x682e6ff3],
     [0x748f82ee, 0x78a5636f, 0x84c87814, 0x8cc70208], [0x90befffa, 0xa4506ceb, 0xbef9a3f7, 0xc67178f2]]"

definition initial_state :: "sha_word list" where
  "initial_state = [
     0x6a09e667, 0xbb67ae85, 0x3c6ef372, 0xa54ff53a, 0x510e527f, 0x9b05688c, 0x1f83d9ab, 0x5be0cd19]"

record sha_hasher =
  sh_state :: "sha_word list"
  sh_block :: bytes
  sh_blockLength :: nat
  sh_bytesHashed :: nat
  sh_digest :: "bytes option"

datatype sha_error = ShaFinalized

definition new_hasher :: sha_hasher where
  "new_hasher = \<lparr>sh_state = initial_state, sh_block = replicate 64 0, sh_blockLength = 0, sh_bytesHashed = 0, sh_digest = None\<rparr>"

definition rotr :: "sha_word \<Rightarrow> nat \<Rightarrow> sha_word" where
  "rotr v bits = drop_bit bits v OR push_bit (32 - bits) v"

definition load_word :: "bytes \<Rightarrow> nat \<Rightarrow> sha_word" where
  "load_word bs base = push_bit 24 (ucast (bs ! base)) OR push_bit 16 (ucast (bs ! (base + 1)))
     OR push_bit 8 (ucast (bs ! (base + 2))) OR ucast (bs ! (base + 3))"

definition schedule_step :: "nat \<Rightarrow> sha_word list \<Rightarrow> sha_word list" where
  "schedule_step i w =
     (let s0 = rotr (w ! (i - 15)) 7 XOR rotr (w ! (i - 15)) 18 XOR drop_bit 3 (w ! (i - 15));
          s1 = rotr (w ! (i - 2)) 17 XOR rotr (w ! (i - 2)) 19 XOR drop_bit 10 (w ! (i - 2))
      in w @ [w ! (i - 16) + s0 + w ! (i - 7) + s1])"

definition schedule :: "bytes \<Rightarrow> nat \<Rightarrow> sha_word list" where
  "schedule bs offset = fold schedule_step [16..<64] (map (\<lambda>i. load_word bs (offset + i * 4)) [0..<16])"

type_synonym sha_vars = "sha_word \<times> sha_word \<times> sha_word \<times> sha_word \<times> sha_word \<times> sha_word \<times> sha_word \<times> sha_word"

definition round_step :: "sha_word list \<Rightarrow> nat \<Rightarrow> sha_vars \<Rightarrow> sha_vars" where
  "round_step w i = (\<lambda>(a, b, c, d, e, f, g, h).
     let s1 = rotr e 6 XOR rotr e 11 XOR rotr e 25;
         ch = (e AND f) XOR (NOT e AND g);
         temp1 = h + s1 + ch + K ! i + w ! i;
         s0 = rotr a 2 XOR rotr a 13 XOR rotr a 22;
         maj = (a AND b) XOR (a AND c) XOR (b AND c);
         temp2 = s0 + maj
     in (temp1 + temp2, a, b, c, d + temp1, e, f, g))"

definition compress :: "sha_word list \<Rightarrow> bytes \<Rightarrow> nat \<Rightarrow> sha_word list" where
  "compress st bs offset =
     (case fold (round_step (schedule bs offset)) [0..<64] (st ! 0, st ! 1, st ! 2, st ! 3, st ! 4, st ! 5, st ! 6, st ! 7) of
        (a, b, c, d, e, f, g, h) \<Rightarrow>
          [st ! 0 + a, st ! 1 + b, st ! 2 + c, st ! 3 + d, st ! 4 + e, st ! 5 + f, st ! 6 + g, st ! 7 + h])"

text \<open>The loop over the complete blocks of the data: the state and the offset it ends with.\<close>

function full_blocks :: "sha_word list \<Rightarrow> bytes \<Rightarrow> nat \<Rightarrow> sha_word list \<times> nat" where
  "full_blocks st data offset =
     (if offset + 64 \<le> length data then full_blocks (compress st data offset) data (offset + 64) else (st, offset))"
  by pat_completeness auto
termination by (relation "measure (\<lambda>(st, data, offset). length data - offset)") auto

declare full_blocks.simps [simp del]

text \<open>\<open>array.set(values, at)\<close>\<close>

definition array_set :: "bytes \<Rightarrow> bytes \<Rightarrow> nat \<Rightarrow> bytes" where
  "array_set arr vs at = take at arr @ vs @ drop (at + length vs) arr"

text \<open>Filling up the block that an earlier call left; the offset in the data after that.\<close>

definition fill_block :: "bytes \<Rightarrow> sha_hasher \<Rightarrow> sha_hasher \<times> nat" where
  "fill_block data h =
     (if 0 < sh_blockLength h
      then (let tk = min (64 - sh_blockLength h) (length data);
                h1 = h\<lparr>sh_block := array_set (sh_block h) (take tk data) (sh_blockLength h),
                       sh_blockLength := sh_blockLength h + tk\<rparr>
            in (if sh_blockLength h1 = 64
                then h1\<lparr>sh_state := compress (sh_state h1) (sh_block h1) 0, sh_blockLength := 0\<rparr> else h1, tk))
      else (h, 0))"

definition sha_update :: "bytes \<Rightarrow> sha_hasher \<Rightarrow> sha_error + sha_hasher" where
  "sha_update data h =
     (if sh_digest h \<noteq> None then Inl ShaFinalized
      else (let h0 = h\<lparr>sh_bytesHashed := sh_bytesHashed h + length data\<rparr>;
                (h1, offset) = fill_block data h0;
                (st, offset') = full_blocks (sh_state h1) data offset;
                h2 = h1\<lparr>sh_state := st\<rparr>
            in Inr (if offset' < length data
                    then h2\<lparr>sh_block := array_set (sh_block h2) (drop offset' data) 0, sh_blockLength := length data - offset'\<rparr>
                    else h2)))"

text \<open>\<open>setUint32(at, value, false)\<close>: four bytes, the high one first.\<close>

definition word_bytes :: "sha_word \<Rightarrow> bytes" where
  "word_bytes w = [ucast (drop_bit 24 w), ucast (drop_bit 16 w), ucast (drop_bit 8 w), ucast w]"

definition padded_block :: "sha_hasher \<Rightarrow> bytes" where
  "padded_block h =
     (let size = (if sh_blockLength h \<le> 55 then 64 else 128);
          bitLengthHigh = word_of_nat (sh_bytesHashed h div 0x20000000);
          bitLengthLow = push_bit 3 (word_of_nat (sh_bytesHashed h));
          p0 = array_set (replicate size 0) (take (sh_blockLength h) (sh_block h)) 0;
          p1 = p0[sh_blockLength h := 0x80];
          p2 = array_set p1 (word_bytes bitLengthHigh) (size - 8)
      in array_set p2 (word_bytes bitLengthLow) (size - 4))"

definition sha_digest :: "sha_hasher \<Rightarrow> sha_hasher \<times> bytes" where
  "sha_digest h = (case sh_digest h of
      Some d \<Rightarrow> (h, d)
    | None \<Rightarrow>
        (let st = fst (full_blocks (sh_state h) (padded_block h) 0); out = concat (map word_bytes st)
         in (h\<lparr>sh_state := st, sh_digest := Some out\<rparr>, out)))"

definition sha256 :: "bytes \<Rightarrow> sha_error + bytes" where
  "sha256 data = bindE (sha_update data new_hasher) (\<lambda>h. Inr (snd (sha_digest h)))"

subsection \<open>FIPS 180-4\<close>

text \<open>The message schedule, the compression of a block and the padding as sections 5 and 6.2 define them.\<close>

definition fips_word :: "bytes \<Rightarrow> nat \<Rightarrow> sha_word" where
  "fips_word block t = word_of_nat (unat (block ! (4 * t)) * 2 ^ 24 + unat (block ! (4 * t + 1)) * 2 ^ 16
     + unat (block ! (4 * t + 2)) * 2 ^ 8 + unat (block ! (4 * t + 3)))"

definition small_sigma0 :: "sha_word \<Rightarrow> sha_word" where
  "small_sigma0 x = word_rotr 7 x XOR word_rotr 18 x XOR drop_bit 3 x"

definition small_sigma1 :: "sha_word \<Rightarrow> sha_word" where
  "small_sigma1 x = word_rotr 17 x XOR word_rotr 19 x XOR drop_bit 10 x"

definition big_sigma0 :: "sha_word \<Rightarrow> sha_word" where
  "big_sigma0 x = word_rotr 2 x XOR word_rotr 13 x XOR word_rotr 22 x"

definition big_sigma1 :: "sha_word \<Rightarrow> sha_word" where
  "big_sigma1 x = word_rotr 6 x XOR word_rotr 11 x XOR word_rotr 25 x"

fun fips_schedule :: "bytes \<Rightarrow> nat \<Rightarrow> sha_word" where
  "fips_schedule block t = (if t < 16 then fips_word block t
     else small_sigma1 (fips_schedule block (t - 2)) + fips_schedule block (t - 7)
       + small_sigma0 (fips_schedule block (t - 15)) + fips_schedule block (t - 16))"

declare fips_schedule.simps [simp del]

fun fips_rounds :: "bytes \<Rightarrow> nat \<Rightarrow> sha_vars \<Rightarrow> sha_vars" where
  "fips_rounds block 0 v = v"
| "fips_rounds block (Suc t) v = (case fips_rounds block t v of (a, b, c, d, e, f, g, h) \<Rightarrow>
     let t1 = h + big_sigma1 e + ((e AND f) XOR (NOT e AND g)) + K ! t + fips_schedule block t;
         t2 = big_sigma0 a + ((a AND b) XOR (a AND c) XOR (b AND c))
     in (t1 + t2, a, b, c, d + t1, e, f, g))"

definition fips_compress :: "sha_word list \<Rightarrow> bytes \<Rightarrow> sha_word list" where
  "fips_compress st block =
     (case fips_rounds block 64 (st ! 0, st ! 1, st ! 2, st ! 3, st ! 4, st ! 5, st ! 6, st ! 7) of
        (a, b, c, d, e, f, g, h) \<Rightarrow> map2 (+) [a, b, c, d, e, f, g, h] (take 8 st))"

definition fips_padding :: "nat \<Rightarrow> bytes" where
  "fips_padding n = 0x80 # replicate ((119 - n mod 64) mod 64) 0
     @ map (\<lambda>i. word_of_nat (8 * n div 2 ^ (8 * (7 - i)))) [0..<8]"

function fips_blocks :: "sha_word list \<Rightarrow> bytes \<Rightarrow> sha_word list" where
  "fips_blocks st msg = (if length msg < 64 then st else fips_blocks (fips_compress st (take 64 msg)) (drop 64 msg))"
  by pat_completeness auto
termination by (relation "measure (\<lambda>(st, msg). length msg)") auto

declare fips_blocks.simps [simp del]

definition fips_sha256 :: "bytes \<Rightarrow> bytes" where
  "fips_sha256 msg = concat (map (\<lambda>w. map (\<lambda>i. word_of_nat (unat w div 2 ^ (8 * (3 - i)))) [0..<4])
     (fips_blocks initial_state (msg @ fips_padding (length msg))))"

subsection \<open>The compression of a block\<close>

lemma rotr_word_rotr: "n < 32 \<Longrightarrow> rotr v n = word_rotr n v"
proof (rule bit_word_eqI)
  fix i assume n: "n < 32" and i: "i < LENGTH(32)"
  have len: "LENGTH(32) = 32" by simp
  have m: "(i + n) mod 32 = (if i + n < 32 then i + n else i + n - 32)" using n i by (auto simp: mod_if)
  have "\<not> bit v (n + i)" if "\<not> i + n < 32" using that bit_imp_le_length [of v "n + i"] len by auto
  then show "bit (rotr v n) i = bit (word_rotr n v) i"
    using n i unfolding bit_word_rotr_iff len m rotr_def bit_or_iff bit_drop_bit_eq bit_push_bit_iff
    by (auto simp: bit_simps add.commute)
qed

lemma load_word_fips:
  assumes "offset + 4 * t + 3 < length bs"
  shows "load_word bs (offset + 4 * t) = fips_word (drop offset bs) t"
proof -
  have or_add: "push_bit 24 a OR push_bit 16 b OR push_bit 8 c OR d = push_bit 24 a + push_bit 16 b + push_bit 8 c + d"
    if "a = ucast (a' :: byte)" "b = ucast (b' :: byte)" "c = ucast (c' :: byte)" "d = ucast (d' :: byte)" for a b c d :: sha_word and a' b' c' d'
  proof -
    have 1: "push_bit 24 a AND push_bit 16 b = 0"
      by (rule bit_word_eqI) (use that in \<open>auto simp: bit_simps dest: bit_imp_le_length\<close>)
    have 2: "(push_bit 24 a OR push_bit 16 b) AND push_bit 8 c = 0"
      by (rule bit_word_eqI) (use that in \<open>auto simp: bit_simps dest: bit_imp_le_length\<close>)
    have 3: "((push_bit 24 a OR push_bit 16 b) OR push_bit 8 c) AND d = 0"
      by (rule bit_word_eqI) (use that in \<open>auto simp: bit_simps dest: bit_imp_le_length\<close>)
    show ?thesis
      by (simp only: disjunctive_add_eq_or [OF 1] disjunctive_add_eq_or [OF 2] disjunctive_add_eq_or [OF 3])
        (simp only: or.assoc)
  qed
  show ?thesis
    unfolding load_word_def or_add [OF refl refl refl refl]
    using assms by (simp add: fips_word_def push_bit_eq_mult add.assoc)
qed

lemma schedule_fips:
  assumes "offset + 64 \<le> length bs" "i < 64"
  shows "length (schedule bs offset) = 64 \<and> schedule bs offset ! i = fips_schedule (drop offset bs) i"
proof -
  let ?w = "map (\<lambda>i. load_word bs (offset + i * 4)) [0..<16]"
  have "length (fold schedule_step [16..<n] ?w) = n
      \<and> (\<forall>i < n. fold schedule_step [16..<n] ?w ! i = fips_schedule (drop offset bs) i)" if "16 \<le> n" "n \<le> 64" for n
    using that
  proof (induction rule: dec_induct)
    case base
    have "?w ! i = fips_schedule (drop offset bs) i" if "i < 16" for i
      using that assms(1) load_word_fips [of offset i bs] fips_schedule.simps [of "drop offset bs" i] by (simp add: mult.commute)
    then show ?case by simp
  next
    case (step n)
    let ?u = "fold schedule_step [16..<n] ?w"
    from step have u: "length ?u = n" "\<And>i. i < n \<Longrightarrow> ?u ! i = fips_schedule (drop offset bs) i" by auto
    have "fold schedule_step [16..<Suc n] ?w = schedule_step n ?u" using step(1) by simp
    moreover have "schedule_step n ?u = ?u @ [fips_schedule (drop offset bs) n]"
      using step(1) fips_schedule.simps [of "drop offset bs" n]
      by (simp add: schedule_step_def u rotr_word_rotr small_sigma0_def small_sigma1_def add_ac)
    ultimately show ?case using u by (auto simp: nth_append less_Suc_eq)
  qed
  from this [of 64] assms(2) show ?thesis by (simp add: schedule_def)
qed

lemma rounds_fips:
  assumes "\<And>i. i < n \<Longrightarrow> w ! i = fips_schedule block i"
  shows "fold (round_step w) [0..<n] v = fips_rounds block n v"
  using assms
proof (induction n)
  case (Suc n)
  then have IH: "fold (round_step w) [0..<n] v = fips_rounds block n v" by simp
  obtain a b c d e f g h where r: "fips_rounds block n v = (a, b, c, d, e, f, g, h)"
    by (cases "fips_rounds block n v") auto
  have "fold (round_step w) [0..<Suc n] v = round_step w n (a, b, c, d, e, f, g, h)" by (simp add: IH r)
  moreover have "round_step w n (a, b, c, d, e, f, g, h) = fips_rounds block (Suc n) v"
    using Suc.prems [of n] by (simp add: r round_step_def big_sigma0_def big_sigma1_def rotr_word_rotr Let_def)
  ultimately show ?case by simp
qed simp

lemma fips_schedule_take: "t < 64 \<Longrightarrow> fips_schedule (take 64 block) t = fips_schedule block t"
proof (induction block t rule: fips_schedule.induct)
  case (1 block t)
  then show ?case
    using fips_schedule.simps [of "take 64 block" t] fips_schedule.simps [of block t] by (simp add: fips_word_def)
qed

lemma list8: "length st = 8 \<Longrightarrow> st = [st ! 0, st ! 1, st ! 2, st ! 3, st ! 4, st ! 5, st ! 6, st ! 7]"
  by (rule nth_equalityI) (auto simp: less_Suc_eq numeral_eq_Suc)

lemma compress_fips:
  assumes "offset + 64 \<le> length bs" "length st = 8"
  shows "compress st bs offset = fips_compress st (take 64 (drop offset bs))"
proof -
  have "fold (round_step (schedule bs offset)) [0..<64] v = fips_rounds (take 64 (drop offset bs)) 64 v" for v
    by (rule rounds_fips) (use schedule_fips [OF assms(1)] fips_schedule_take in auto)
  moreover obtain a b c d e f g h where "st = [a, b, c, d, e, f, g, h]" using list8 [OF assms(2)] by metis
  ultimately show ?thesis by (simp add: compress_def fips_compress_def add.commute split: prod.split)
qed

lemma fips_compress_length: "length st = 8 \<Longrightarrow> length (fips_compress st block) = 8"
  by (simp add: fips_compress_def split: prod.split)

subsection \<open>Chunks\<close>

definition whole :: "bytes \<Rightarrow> nat" where
  "whole m = 64 * (length m div 64)"

lemma fips_blocks_length: "length st = 8 \<Longrightarrow> length (fips_blocks st m) = 8"
proof (induction st m rule: fips_blocks.induct)
  case (1 st m)
  then show ?case using fips_blocks.simps [of st m] by (simp add: fips_compress_length)
qed

lemma fips_blocks_append: "fips_blocks st (m @ d) = fips_blocks (fips_blocks st m) (drop (whole m) m @ d)"
proof (induction st m rule: fips_blocks.induct)
  case (1 st m)
  show ?case
  proof (cases "length m < 64")
    case True
    then show ?thesis using fips_blocks.simps [of st m] by (simp add: whole_def)
  next
    case False
    then have w: "drop (whole (drop 64 m)) (drop 64 m) = drop (whole m) m"
      using le_div_geq [of 64 "length m"] by (simp add: whole_def add.commute)
    with 1 [OF False] False show ?thesis
      using fips_blocks.simps [of st "m @ d"] fips_blocks.simps [of st m] by simp
  qed
qed

lemma full_blocks_fips:
  "offset \<le> length data \<Longrightarrow> length st = 8 \<Longrightarrow>
     full_blocks st data offset = (fips_blocks st (drop offset data), offset + whole (drop offset data))"
proof (induction st data offset rule: full_blocks.induct)
  case (1 st data offset)
  show ?case
  proof (cases "offset + 64 \<le> length data")
    case True
    have l: "length (compress st data offset) = 8" by (simp add: compress_fips [OF True 1(3)] fips_compress_length 1(3))
    have w: "64 + whole (drop (offset + 64) data) = whole (drop offset data)"
      using True by (simp add: whole_def le_div_geq [of 64 "length data - offset"] diff_diff_eq)
    have ge: "\<not> length data - offset < 64" using True by simp
    from 1(1) [OF True _ l] True w ge show ?thesis
      using full_blocks.simps [of st data offset] fips_blocks.simps [of st "drop offset data"] compress_fips [OF True 1(3)]
      by (simp add: add.commute)
  next
    case False
    then have "length data - offset < 64" by simp
    with False show ?thesis
      using full_blocks.simps [of st data offset] fips_blocks.simps [of st "drop offset data"] by (simp add: whole_def)
  qed
qed

subsection \<open>The hasher and the message so far\<close>

definition hashes :: "sha_hasher \<Rightarrow> bytes \<Rightarrow> bool" where
  "hashes h m = (sh_state h = fips_blocks initial_state m \<and> length (sh_block h) = 64
     \<and> sh_blockLength h = length m mod 64 \<and> take (sh_blockLength h) (sh_block h) = drop (whole m) m
     \<and> sh_bytesHashed h = length m \<and> sh_digest h = None)"

lemma initial_length [simp]: "length initial_state = 8"
  by (simp add: initial_state_def)

lemma new_hasher_hashes: "hashes new_hasher []"
  by (simp add: hashes_def new_hasher_def whole_def fips_blocks.simps)

lemma array_set_length [simp]: "at + length vs \<le> length arr \<Longrightarrow> length (array_set arr vs at) = length arr"
  by (simp add: array_set_def)

lemma array_set_take: "at + length vs \<le> length arr \<Longrightarrow> take (at + length vs) (array_set arr vs at) = take at arr @ vs"
  by (simp add: array_set_def)

lemma whole_le: "whole m \<le> length m" "length m - whole m = length m mod 64" "whole m + length m mod 64 = length m"
  by (simp_all add: whole_def minus_mult_div_eq_mod)

lemma rest_short: "length d < 64 \<Longrightarrow> fips_blocks st d = st"
  using fips_blocks.simps [of st d] by simp

lemma whole_append: "whole (m @ d) = whole m + whole (drop (whole m) m @ d)"
proof -
  obtain q r where qr: "length m = 64 * q + r" "r < 64" using mult_div_mod_eq [of 64 "length m"] by (metis mod_less_divisor zero_less_numeral)
  have "whole m = 64 * q" using qr by (simp add: whole_def)
  moreover have "(64 * q + r + length d) div 64 = q + (r + length d) div 64" by (simp add: add.assoc)
  ultimately show ?thesis using qr by (simp add: whole_def)
qed

lemma whole_drop: "drop (whole (m @ d)) (m @ d) = drop (whole (drop (whole m) m @ d)) (drop (whole m) m @ d)"
  using whole_le(1) [of m] by (simp add: whole_append [of m d] add.commute [of "whole m"] flip: drop_drop)

lemma length_rest: "length (drop (whole m) m) = length m mod 64"
  using whole_le(2) by simp

text \<open>The blocks and the rest of what an empty block and the data from an offset on hold.\<close>

lemma absorb_tail:
  assumes "length st = 8" "offset \<le> length data" "length block = 64"
  defines "d \<equiv> drop offset data"
  shows "full_blocks st data offset = (fips_blocks st d, offset + whole d)"
    and "drop (offset + whole d) data = drop (whole d) d"
    and "length data - (offset + whole d) = length d mod 64"
    and "offset + whole d < length data \<longleftrightarrow> length d mod 64 \<noteq> 0"
    and "length (array_set block (drop (whole d) d) 0) = 64"
    and "take (length d mod 64) (array_set block (drop (whole d) d) 0) = drop (whole d) d"
proof -
  show "full_blocks st data offset = (fips_blocks st d, offset + whole d)" unfolding d_def by (rule full_blocks_fips [OF assms(2,1)])
  show "drop (offset + whole d) data = drop (whole d) d" by (simp add: d_def add.commute)
  have "length d = length data - offset" by (simp add: d_def)
  then show "length data - (offset + whole d) = length d mod 64" "offset + whole d < length data \<longleftrightarrow> length d mod 64 \<noteq> 0"
    using whole_le [of d] assms(2) by linarith+
  have l: "0 + length (drop (whole d) d) \<le> length block" unfolding length_rest using assms(3) by simp
  show "length (array_set block (drop (whole d) d) 0) = 64" using array_set_length [OF l] assms(3) by simp
  show "take (length d mod 64) (array_set block (drop (whole d) d) 0) = drop (whole d) d"
    using array_set_take [OF l] unfolding length_rest by simp
qed

lemma fips_blocks_block: "length b = 64 \<Longrightarrow> fips_blocks st (b @ d) = fips_blocks (fips_compress st b) d"
  using fips_blocks.simps [of st "b @ d"] by simp

lemma whole_block: "length b = 64 \<Longrightarrow> drop (whole (b @ d)) (b @ d) = drop (whole d) d"
  unfolding whole_drop [of b] by (simp add: whole_def)

lemma update_tail_hashes:
  assumes h: "length (sh_state h) = 8" "length (sh_block h) = 64" "sh_blockLength h = 0" "sh_digest h = None" "sh_bytesHashed h = length m"
    and o: "offset \<le> length data"
    and m: "fips_blocks initial_state m = fips_blocks (sh_state h) (drop offset data)"
      "drop (whole m) m = drop (whole (drop offset data)) (drop offset data)"
  shows "hashes (case full_blocks (sh_state h) data offset of (st, offset') \<Rightarrow>
     if offset' < length data
     then h\<lparr>sh_state := st, sh_block := array_set (sh_block h) (drop offset' data) 0, sh_blockLength := length data - offset'\<rparr>
     else h\<lparr>sh_state := st\<rparr>) m"
proof -
  note t = absorb_tail [OF h(1) o h(2)]
  have "length m mod 64 = length (drop offset data) mod 64"
    using arg_cong [OF m(2), of length] unfolding length_rest .
  then show ?thesis
    unfolding t(1) prod.case t(2-4) using h m t(5,6)
    by (cases "length (drop offset data) mod 64 = 0") (simp_all add: hashes_def length_rest [symmetric] del: length_drop)
qed

lemma sha_update_filled:
  assumes "sh_digest h = None" "fill_block data (h\<lparr>sh_bytesHashed := sh_bytesHashed h + length data\<rparr>) = (h1, offset)"
  shows "sha_update data h = Inr (case full_blocks (sh_state h1) data offset of (st, offset') \<Rightarrow>
     if offset' < length data
     then h1\<lparr>sh_state := st, sh_block := array_set (sh_block h1) (drop offset' data) 0, sh_blockLength := length data - offset'\<rparr>
     else h1\<lparr>sh_state := st\<rparr>)"
  using assms by (cases "full_blocks (sh_state h1) data offset") (simp add: sha_update_def)

lemma sha_update_hashes:
  assumes "hashes h m"
  shows "\<exists>h'. sha_update data h = Inr h' \<and> hashes h' (m @ data)"
proof -
  let ?bl = "length m mod 64" and ?rest = "drop (whole m) m"
  let ?st = "fips_blocks initial_state m"
  have inv: "sh_state h = ?st" "length (sh_block h) = 64" "sh_blockLength h = ?bl" "take ?bl (sh_block h) = ?rest"
      "sh_bytesHashed h = length m" "sh_digest h = None"
    using assms unfolding hashes_def by auto
  have len8: "length ?st = 8" by (simp add: fips_blocks_length)
  have blocks: "fips_blocks initial_state (m @ data) = fips_blocks ?st (?rest @ data)" by (rule fips_blocks_append)
  have left: "drop (whole (m @ data)) (m @ data) = drop (whole (?rest @ data)) (?rest @ data)" by (rule whole_drop)
  have total: "length m + length data = length (m @ data)" by simp
  consider "?bl = 0" | "0 < ?bl" "?bl + length data < 64" | "0 < ?bl" "64 \<le> ?bl + length data" by linarith
  then show ?thesis
  proof cases
    case 1
    then have "?rest = []" using length_rest [of m] by simp
    let ?h = "h\<lparr>sh_bytesHashed := length m + length data\<rparr>"
    have "hashes (case full_blocks (sh_state ?h) data 0 of (st, offset') \<Rightarrow>
       if offset' < length data
       then ?h\<lparr>sh_state := st, sh_block := array_set (sh_block ?h) (drop offset' data) 0, sh_blockLength := length data - offset'\<rparr>
       else ?h\<lparr>sh_state := st\<rparr>) (m @ data)"
      by (rule update_tail_hashes) (use blocks left \<open>?rest = []\<close> inv 1 len8 in simp_all)
    moreover have "fill_block data (h\<lparr>sh_bytesHashed := sh_bytesHashed h + length data\<rparr>) = (?h, 0)"
      using 1 inv by (simp add: fill_block_def)
    ultimately show ?thesis using sha_update_filled [OF inv(6)] by blast
  next
    case 2
    let ?b = "array_set (sh_block h) data ?bl"
    have fit: "?bl + length data \<le> length (sh_block h)" using 2 inv(2) by simp
    have "length (?rest @ data) < 64" using 2 length_rest [of m] by simp
    then have short: "fips_blocks ?st (?rest @ data) = ?st" "whole (?rest @ data) = 0"
      by (simp_all only: rest_short whole_def) simp
    have bl: "length (m @ data) mod 64 = ?bl + length data" using 2 mod_add_left_eq [of "length m" 64 "length data"] by simp
    have "sha_update data h = Inr (h\<lparr>sh_bytesHashed := length m + length data, sh_block := ?b, sh_blockLength := ?bl + length data\<rparr>)"
      using 2 inv full_blocks.simps [of ?st data "length data"] by (simp add: sha_update_def fill_block_def Let_def min_absorb2)
    moreover have "hashes (h\<lparr>sh_bytesHashed := length m + length data, sh_block := ?b, sh_blockLength := ?bl + length data\<rparr>) (m @ data)"
      unfolding hashes_def blocks left short bl
      using inv array_set_length [OF fit] array_set_take [OF fit] by simp
    ultimately show ?thesis by blast
  next
    case 3
    let ?tk = "64 - ?bl"
    let ?b = "array_set (sh_block h) (take ?tk data) ?bl"
    have lt: "length (take ?tk data) = ?tk" "?bl + ?tk = 64" using 3 by auto
    have fit: "?bl + length (take ?tk data) \<le> length (sh_block h)" unfolding lt using inv(2) by simp
    have bl: "length ?b = 64" using array_set_length [OF fit] inv(2) by (simp only:)
    have "take 64 ?b = ?rest @ take ?tk data" using array_set_take [OF fit] inv(4) unfolding lt by (simp only:)
    with bl have b: "?b = ?rest @ take ?tk data" "length ?b = 64" by (simp_all only: take_all_iff [THEN iffD2] order_refl)
    let ?h = "h\<lparr>sh_bytesHashed := length m + length data, sh_block := ?b, sh_blockLength := 0, sh_state := compress ?st ?b 0\<rparr>"
    have c: "compress ?st ?b 0 = fips_compress ?st (?rest @ take ?tk data)"
    proof -
      have "0 + 64 \<le> length ?b" "take 64 (drop 0 ?b) = ?b" using bl by simp_all
      with compress_fips [of 0 ?b ?st] len8 show ?thesis by (simp only: b(1))
    qed
    have lr: "length (?rest @ take ?tk data) = 64" using b by (simp only:)
    have split: "?rest @ data = (?rest @ take ?tk data) @ drop ?tk data" by simp
    have fb: "fips_blocks ?st (?rest @ data) = fips_blocks (fips_compress ?st (?rest @ take ?tk data)) (drop ?tk data)"
      unfolding split by (rule fips_blocks_block [OF lr])
    have wh: "drop (whole (?rest @ data)) (?rest @ data) = drop (whole (drop ?tk data)) (drop ?tk data)"
      unfolding split by (rule whole_block [OF lr])
    have "hashes (case full_blocks (sh_state ?h) data ?tk of (st, offset') \<Rightarrow>
       if offset' < length data
       then ?h\<lparr>sh_state := st, sh_block := array_set (sh_block ?h) (drop offset' data) 0, sh_blockLength := length data - offset'\<rparr>
       else ?h\<lparr>sh_state := st\<rparr>) (m @ data)"
    proof (rule update_tail_hashes)
      show "length (sh_state ?h) = 8" unfolding c using fips_compress_length [OF len8] by simp
      show "length (sh_block ?h) = 64" using bl by simp
      show "?tk \<le> length data" using 3(2) by linarith
      show "fips_blocks initial_state (m @ data) = fips_blocks (sh_state ?h) (drop ?tk data)" unfolding blocks fb c by simp
      show "drop (whole (m @ data)) (m @ data) = drop (whole (drop ?tk data)) (drop ?tk data)" unfolding left by (rule wh)
    qed (use inv in simp_all)
    moreover have "fill_block data (h\<lparr>sh_bytesHashed := sh_bytesHashed h + length data\<rparr>) = (?h, ?tk)"
      using 3 inv by (simp add: fill_block_def Let_def min_absorb1)
    ultimately show ?thesis using sha_update_filled [OF inv(6)] by blast
  qed
qed

subsection \<open>The padding and the digest\<close>

lemma byte_of_word: "k \<le> 24 \<Longrightarrow> (ucast (drop_bit k (word_of_nat x :: sha_word)) :: byte) = word_of_nat (x div 2 ^ k)"
  by (rule bit_word_eqI) (auto simp: bit_simps simp flip: drop_bit_eq_div)

lemma word_bytes_nat: "word_bytes (word_of_nat x) = map (\<lambda>i. word_of_nat (x div 2 ^ (8 * (3 - i)))) [0..<4]"
  using byte_of_word [of 24 x] byte_of_word [of 16 x] byte_of_word [of 8 x] byte_of_word [of 0 x]
  by (simp add: word_bytes_def upt_rec)

lemma word_bytes_unat: "word_bytes w = map (\<lambda>i. word_of_nat (unat w div 2 ^ (8 * (3 - i)))) [0..<4]"
  using word_bytes_nat [of "unat w"] by simp

lemma length_bytes:
  "word_bytes (word_of_nat (n div 0x20000000)) @ word_bytes (push_bit 3 (word_of_nat n))
     = map (\<lambda>i. word_of_nat (8 * n div 2 ^ (8 * (7 - i)))) [0..<8]"
proof -
  have "push_bit 3 (word_of_nat n :: sha_word) = word_of_nat (8 * n)" by (simp add: push_bit_eq_mult)
  then have lo: "word_bytes (push_bit 3 (word_of_nat n)) = map (\<lambda>i. word_of_nat (8 * n div 2 ^ (8 * (3 - i)))) [0..<4]"
    by (simp only: word_bytes_nat)
  have "n div 0x20000000 = 8 * n div 2 ^ 32" using div_mult_mult1 [of "8::nat" n "0x20000000"] by simp
  then have hi: "word_bytes (word_of_nat (n div 0x20000000)) = map (\<lambda>i. word_of_nat (8 * n div 2 ^ 32 div 2 ^ (8 * (3 - i)))) [0..<4]"
    by (simp only: word_bytes_nat)
  show ?thesis unfolding lo hi by (simp add: upt_rec flip: div_mult2_eq)
qed

lemma array_set_mid: "length p = at \<Longrightarrow> length vs = length old \<Longrightarrow> array_set (p @ old @ q) vs at = p @ vs @ q"
  by (auto simp: array_set_def)

lemma padding_zeros: "b < 64 \<Longrightarrow> (119 - b) mod 64 = (if b \<le> 55 then 64 else 128) - b - (9 :: nat)"
  by (cases "b \<le> 55") (simp_all add: le_mod_geq)

lemma padded_block_fips:
  assumes "hashes h m"
  shows "padded_block h = drop (whole m) m @ fips_padding (length m)"
proof -
  let ?bl = "length m mod 64" and ?rest = "drop (whole m) m"
  define size :: nat where "size = (if ?bl \<le> 55 then 64 else 128)"
  have bl: "?bl < 64" "?bl + 9 \<le> size" by (auto simp: size_def)
  have z: "(119 - ?bl) mod 64 = size - ?bl - 9" unfolding size_def by (rule padding_zeros [OF bl(1)])
  have r: "length ?rest = ?bl" by (rule length_rest)
  have 1: "array_set (replicate size 0) ?rest 0 = ?rest @ replicate (size - ?bl) 0"
    unfolding array_set_def by (simp only: r drop_replicate take_0 append_Nil add_0)
  have 2: "(?rest @ replicate (size - ?bl) 0)[?bl := 0x80] = ?rest @ 0x80 # replicate (size - ?bl - 9) 0 @ replicate 8 0"
  proof -
    have "size - ?bl = Suc (size - ?bl - 9 + 8)" using bl(2) by simp
    then have "replicate (size - ?bl) (0 :: byte) = 0 # replicate (size - ?bl - 9) 0 @ replicate 8 0"
      by (metis replicate_Suc replicate_add)
    then show ?thesis unfolding list_update_append r by simp
  qed
  let ?p = "?rest @ 0x80 # replicate (size - ?bl - 9) 0"
  have p: "length ?p = size - 8" using bl(2) r by simp
  have w4: "length (word_bytes w) = 4" for w by (simp add: word_bytes_def)
  have eight: "replicate 8 (0 :: byte) = replicate 4 0 @ replicate 4 0" by (simp flip: replicate_add)
  have 3: "array_set (?p @ replicate 8 0) (word_bytes w) (size - 8) = ?p @ word_bytes w @ replicate 4 0" for w
    unfolding eight by (rule array_set_mid [OF p]) (simp add: w4)
  have 4: "array_set (?p @ word_bytes w @ replicate 4 0) (word_bytes v) (size - 4) = ?p @ word_bytes w @ word_bytes v" for w v
  proof -
    have "length (?p @ word_bytes w) = size - 8 + 4" by (simp only: length_append [of ?p] p w4)
    then have l: "length (?p @ word_bytes w) = size - 4" using bl(2) by linarith
    show ?thesis using array_set_mid [OF l, of "word_bytes v" "replicate 4 0" "[]"] by (simp only: append_assoc append_Nil2 w4 length_replicate)
  qed
  have inv: "sh_blockLength h = ?bl" "take ?bl (sh_block h) = ?rest" "sh_bytesHashed h = length m"
    using assms unfolding hashes_def by auto
  have "padded_block h = ?p @ word_bytes (word_of_nat (length m div 0x20000000)) @ word_bytes (push_bit 3 (word_of_nat (length m)))"
    unfolding padded_block_def Let_def inv size_def [symmetric] 1 2
    using 3 4 by simp
  then show ?thesis unfolding fips_padding_def z length_bytes by simp
qed

lemma sha_digest_kept: "sh_digest (fst (sha_digest h)) = Some (snd (sha_digest h))"
  by (simp add: sha_digest_def Let_def split: option.split)

lemma sha_digest_hashes:
  assumes "hashes h m"
  shows "snd (sha_digest h) = fips_sha256 m"
proof -
  have "fst (full_blocks (sh_state h) (padded_block h) 0) = fips_blocks initial_state (m @ fips_padding (length m))"
  proof -
    have st: "sh_state h = fips_blocks initial_state m" using assms by (simp only: hashes_def)
    have len: "length (sh_state h) = 8" unfolding st by (rule fips_blocks_length) simp
    have "fst (full_blocks (sh_state h) (padded_block h) 0) = fips_blocks (sh_state h) (padded_block h)"
      using full_blocks_fips [OF le0 len] by (simp only: fst_conv drop_0)
    also have "\<dots> = fips_blocks initial_state (m @ fips_padding (length m))"
      unfolding padded_block_fips [OF assms] st by (rule fips_blocks_append [symmetric])
    finally show ?thesis .
  qed
  moreover have "sh_digest h = None" using assms by (simp add: hashes_def)
  ultimately show "snd (sha_digest h) = fips_sha256 m"
    by (simp only: sha_digest_def fips_sha256_def Let_def option.case fst_conv snd_conv sha_hasher.simps word_bytes_unat [abs_def])
qed

text \<open>Feeding a hasher chunk by chunk, as the transfer code does.\<close>

definition feed :: "bytes list \<Rightarrow> sha_hasher \<Rightarrow> sha_error + sha_hasher" where
  "feed chunks h = fold (\<lambda>c r. bindE r (sha_update c)) chunks (Inr h)"

lemma feed_hashes: "hashes h m \<Longrightarrow> \<exists>h'. feed chunks h = Inr h' \<and> hashes h' (m @ concat chunks)"
proof (induction chunks arbitrary: h m)
  case (Cons c chunks)
  obtain h1 where "sha_update c h = Inr h1" "hashes h1 (m @ c)" using sha_update_hashes [OF Cons.prems] by blast
  with Cons.IH [of h1 "m @ c"] show ?case by (auto simp: feed_def)
qed (simp add: feed_def)

text \<open>
  C40. For every list of chunks, a new hasher accepts them all and its digest is the SHA-256 of their concatenation as
  FIPS 180-4 defines it, whatever the chunk boundaries; the digest can be read again and is the same; after it every update is
  refused; and the one-shot function is the digest of its argument.
\<close>

theorem sha256_stream_is_fips:
  "(\<exists>h. feed chunks new_hasher = Inr h
      \<and> snd (sha_digest h) = fips_sha256 (concat chunks)
      \<and> snd (sha_digest (fst (sha_digest h))) = fips_sha256 (concat chunks)
      \<and> sha_update late (fst (sha_digest h)) = Inl ShaFinalized)
    \<and> sha256 data = Inr (fips_sha256 data)"
proof -
  obtain h where h: "feed chunks new_hasher = Inr h" "hashes h (concat chunks)"
    using feed_hashes [OF new_hasher_hashes, of chunks] by auto
  obtain h' where h': "sha_update data new_hasher = Inr h'" "hashes h' data"
    using sha_update_hashes [OF new_hasher_hashes, of data] by auto
  have "snd (sha_digest (fst (sha_digest h))) = snd (sha_digest h)"
    using sha_digest_kept [of h] by (simp add: sha_digest_def [of "fst (sha_digest h)"])
  moreover have "sha_update late (fst (sha_digest h)) = Inl ShaFinalized"
    by (simp add: sha_update_def sha_digest_kept)
  moreover have "sha256 data = Inr (fips_sha256 data)"
    by (simp add: sha256_def h'(1) sha_digest_hashes [OF h'(2)])
  ultimately show ?thesis using h(1) sha_digest_hashes [OF h(2)] by auto
qed

end
