(* ===== verification/Wire_Contract.thy ===== *)
theory Wire_Contract
  imports Supervisor_Wire
begin

unbundle bit_operations_syntax

text \<open>
  \<^verbatim>\<open>src/wire/contract.ts\<close>: the validation of an offer at the boundary and the negotiation of a connection, which fixes its
  protocol version, features and transport limits or refuses it.

  Numbers are \<open>js_number\<close>s, bigints are \<open>int\<close>s with the bitwise operations of \<open>int\<close> (both are two's complement without a
  bound); a field has the type the source declares for it. As in \<open>Supervisor_Wire\<close>, a validation error carries the name
  of the field it reports.
\<close>

definition SHA256_BYTES :: nat where
  "SHA256_BYTES = 32"

definition UINT16_MAX :: int where
  "UINT16_MAX = 0xffff"

definition UINT32_MAX :: int where
  "UINT32_MAX = 0xffffffff"

definition UINT64_MAX :: int where
  "UINT64_MAX = push_bit 64 1 - 1"

subsection \<open>Data\<close>

record protocol_version =
  pv_major :: js_number
  pv_minor :: js_number

record contract_identity =
  ci_protocol :: protocol_version
  ci_featureBits :: int
  ci_schemaHash :: bytes
  ci_capnpDenoVersion :: string
  ci_wasmAbi :: js_number
  ci_wasmSha256 :: bytes
  ci_buildId :: string
  ci_artifactHash :: bytes
  ci_firecrackerPackage :: string
  ci_firecrackerSha256 :: bytes
  ci_firecrackerPinned :: string
  ci_firecrackerMin :: string

record transport_limits =
  tl_maxFrameBytes :: js_number
  tl_maxSegments :: js_number
  tl_maxNestingDepth :: js_number
  tl_maxTraversalWords :: js_number
  tl_maxQueuedFrames :: js_number
  tl_maxQueuedBytes :: js_number
  tl_maxInFlightCalls :: js_number
  tl_maxExports :: js_number
  tl_maxCompletedAnswers :: js_number
  tl_maxChunkBytes :: js_number
  tl_maxChunksInFlight :: js_number

definition DEFAULT_TRANSPORT_LIMITS :: transport_limits where
  "DEFAULT_TRANSPORT_LIMITS = \<lparr>tl_maxFrameBytes = NumInt (1024 * 1024), tl_maxSegments = NumInt 64,
     tl_maxNestingDepth = NumInt 32, tl_maxTraversalWords = NumInt (128 * 1024), tl_maxQueuedFrames = NumInt 32,
     tl_maxQueuedBytes = NumInt (4 * 1024 * 1024), tl_maxInFlightCalls = NumInt 128, tl_maxExports = NumInt 1024,
     tl_maxCompletedAnswers = NumInt 1024, tl_maxChunkBytes = NumInt (64 * 1024), tl_maxChunksInFlight = NumInt 4\<rparr>"

record protocol_offer =
  po_identity :: contract_identity
  po_limits :: transport_limits
  po_requiredFeatureBits :: int

record negotiated_contract =
  nc_identity :: contract_identity
  nc_limits :: transport_limits
  nc_selectedFeatureBits :: int

datatype sbx_error_code =
    E_unknown | E_invalidArgument | E_unauthenticated | E_permissionDenied | E_notFound | E_alreadyExists
  | E_failedPrecondition | E_resourceExhausted | E_aborted | E_deadlineExceeded | E_unavailable | E_internal
  | E_incompatibleProtocol | E_incompatibleSchema | E_incompatibleRuntime | E_hostCapacity | E_sandboxTerminated
  | E_unsupportedFeature | E_conflict | E_cleanupIncomplete

record sbx_error =
  sx_code :: sbx_error_code
  sx_message :: string
  sx_retryable :: bool
  sx_operationId :: string
  sx_sandboxId :: string
  sx_details :: "(string \<times> string) list"

record known_schema_pair =
  ks_remoteSchemaHash :: bytes
  ks_localSchemaHash :: bytes
  ks_requiredFeatureBits :: int

record known_runtime_pair =
  kr_remoteVersion :: string
  kr_remoteWasmAbi :: js_number
  kr_remoteWasmSha256 :: bytes

record negotiation_policy =
  np_identity :: contract_identity
  np_ceiling :: "transport_limits option"
  np_requiredPeerFeatureBits :: "int option"
  np_knownSchemaPairs :: "known_schema_pair list option"
  np_knownRuntimePairs :: "known_runtime_pair list option"

subsection \<open>Validation\<close>

text \<open>A sequence of assertions: the first one that throws.\<close>

fun allE :: "('e + unit) list \<Rightarrow> 'e + unit" where
  "allE [] = Inr ()"
| "allE (c # cs) = bindE c (\<lambda>_. allE cs)"

definition wire_unsigned :: "js_number \<Rightarrow> int \<Rightarrow> string \<Rightarrow> wire_error + unit" where
  "wire_unsigned value maximum field =
     (if \<not> isInteger value \<or> int_of value < 0 \<or> maximum < int_of value then Inl (WireValidationError field) else Inr ())"

definition assertPositiveInteger :: "js_number \<Rightarrow> int \<Rightarrow> string \<Rightarrow> wire_error + unit" where
  "assertPositiveInteger value maximum field =
     bindE (wire_unsigned value maximum field) (\<lambda>_.
       if value = NumInt 0 then Inl (WireValidationError field) else Inr ())"

definition limit_safe_integer :: "js_number \<Rightarrow> string \<Rightarrow> wire_error + unit" where
  "limit_safe_integer value field =
     (if \<not> isSafeInteger value \<or> int_of value \<le> 0 then Inl (WireValidationError field) else Inr ())"

definition assertUInt64 :: "int \<Rightarrow> string \<Rightarrow> wire_error + unit" where
  "assertUInt64 value field = (if value < 0 \<or> UINT64_MAX < value then Inl (WireValidationError field) else Inr ())"

definition assertDigest :: "bytes \<Rightarrow> string \<Rightarrow> wire_error + unit" where
  "assertDigest value field = (if length value \<noteq> SHA256_BYTES then Inl (WireValidationError field) else Inr ())"

definition assert_text :: "string \<Rightarrow> nat \<Rightarrow> nat \<Rightarrow> string \<Rightarrow> wire_error + unit" where
  "assert_text value minBytes maxBytes field = bindE (assertBoundedText (WStr value) minBytes maxBytes field) (\<lambda>_. Inr ())"

definition validateContractIdentity :: "contract_identity \<Rightarrow> wire_error + unit" where
  "validateContractIdentity i = allE
     [wire_unsigned (pv_major (ci_protocol i)) UINT16_MAX ''protocol.major'',
      wire_unsigned (pv_minor (ci_protocol i)) UINT16_MAX ''protocol.minor'',
      assertUInt64 (ci_featureBits i) ''featureBits'',
      assertDigest (ci_schemaHash i) ''schemaHash'',
      assert_text (ci_capnpDenoVersion i) 1 64 ''capnpDenoVersion'',
      wire_unsigned (ci_wasmAbi i) UINT32_MAX ''wasmAbi'',
      assertDigest (ci_wasmSha256 i) ''wasmSha256'',
      assert_text (ci_buildId i) 1 128 ''buildId'',
      assertDigest (ci_artifactHash i) ''artifactHash'',
      assert_text (ci_firecrackerPackage i) 1 128 ''firecrackerPackage'',
      assertDigest (ci_firecrackerSha256 i) ''firecrackerSha256'',
      assert_text (ci_firecrackerPinned i) 1 32 ''firecrackerPinned'',
      assert_text (ci_firecrackerMin i) 1 32 ''firecrackerMin'']"

definition validateTransportLimits :: "transport_limits \<Rightarrow> wire_error + unit" where
  "validateTransportLimits l = allE
     [assertPositiveInteger (tl_maxFrameBytes l) UINT32_MAX ''maxFrameBytes'',
      assertPositiveInteger (tl_maxSegments l) UINT16_MAX ''maxSegments'',
      assertPositiveInteger (tl_maxNestingDepth l) UINT16_MAX ''maxNestingDepth'',
      limit_safe_integer (tl_maxTraversalWords l) ''maxTraversalWords'',
      assertPositiveInteger (tl_maxQueuedFrames l) UINT16_MAX ''maxQueuedFrames'',
      assertPositiveInteger (tl_maxQueuedBytes l) UINT32_MAX ''maxQueuedBytes'',
      assertPositiveInteger (tl_maxInFlightCalls l) UINT16_MAX ''maxInFlightCalls'',
      assertPositiveInteger (tl_maxExports l) UINT16_MAX ''maxExports'',
      assertPositiveInteger (tl_maxCompletedAnswers l) UINT16_MAX ''maxCompletedAnswers'',
      assertPositiveInteger (tl_maxChunkBytes l) UINT32_MAX ''maxChunkBytes'',
      assertPositiveInteger (tl_maxChunksInFlight l) UINT16_MAX ''maxChunksInFlight'',
      requireE (int_of (tl_maxChunkBytes l) \<le> int_of (tl_maxFrameBytes l)) (WireValidationError ''maxChunkBytes''),
      requireE (int_of (tl_maxFrameBytes l) \<le> int_of (tl_maxQueuedBytes l)) (WireValidationError ''maxQueuedBytes''),
      requireE (int_of (tl_maxChunksInFlight l) \<le> int_of (tl_maxInFlightCalls l)) (WireValidationError ''maxChunksInFlight'')]"

subsection \<open>Comparing without a data-dependent exit\<close>

definition byte_at :: "bytes \<Rightarrow> nat \<Rightarrow> int" where
  "byte_at bs i = (if i < length bs then uint (bs ! i) else 0)"

definition timingSafeEqual :: "bytes \<Rightarrow> bytes \<Rightarrow> bool" where
  "timingSafeEqual left right =
     (fold (\<lambda>i difference. difference OR (byte_at left i XOR byte_at right i)) [0..<max (length left) (length right)]
        (int (length left) XOR int (length right)) = 0)"

subsection \<open>Negotiation\<close>

definition schemaCompatible :: "contract_identity \<Rightarrow> contract_identity \<Rightarrow> int \<Rightarrow> known_schema_pair list \<Rightarrow> bool" where
  "schemaCompatible remote local selected pairs =
     (timingSafeEqual (ci_schemaHash remote) (ci_schemaHash local)
      \<or> list_ex (\<lambda>p. timingSafeEqual (ci_schemaHash remote) (ks_remoteSchemaHash p)
          \<and> timingSafeEqual (ci_schemaHash local) (ks_localSchemaHash p)
          \<and> ks_requiredFeatureBits p AND selected = ks_requiredFeatureBits p) pairs)"

definition runtimeCompatible :: "contract_identity \<Rightarrow> contract_identity \<Rightarrow> known_runtime_pair list \<Rightarrow> bool" where
  "runtimeCompatible remote local pairs =
     ((ci_capnpDenoVersion remote = ci_capnpDenoVersion local \<and> ci_wasmAbi remote = ci_wasmAbi local
        \<and> timingSafeEqual (ci_wasmSha256 remote) (ci_wasmSha256 local))
      \<or> list_ex (\<lambda>p. kr_remoteVersion p = ci_capnpDenoVersion remote \<and> kr_remoteWasmAbi p = ci_wasmAbi remote
          \<and> timingSafeEqual (kr_remoteWasmSha256 p) (ci_wasmSha256 remote)) pairs)"

text \<open>\<open>Math.min\<close> on integers; both arguments have been validated where it is used.\<close>

fun num_min :: "js_number \<Rightarrow> js_number \<Rightarrow> js_number" where
  "num_min (NumInt a) (NumInt b) = NumInt (min a b)"
| "num_min _ _ = NumOther"

definition intersectLimits :: "transport_limits \<Rightarrow> transport_limits \<Rightarrow> transport_limits" where
  "intersectLimits a b =
    \<lparr>tl_maxFrameBytes = num_min (tl_maxFrameBytes a) (tl_maxFrameBytes b),
     tl_maxSegments = num_min (tl_maxSegments a) (tl_maxSegments b),
     tl_maxNestingDepth = num_min (tl_maxNestingDepth a) (tl_maxNestingDepth b),
     tl_maxTraversalWords = num_min (tl_maxTraversalWords a) (tl_maxTraversalWords b),
     tl_maxQueuedFrames = num_min (tl_maxQueuedFrames a) (tl_maxQueuedFrames b),
     tl_maxQueuedBytes = num_min (tl_maxQueuedBytes a) (tl_maxQueuedBytes b),
     tl_maxInFlightCalls = num_min (tl_maxInFlightCalls a) (tl_maxInFlightCalls b),
     tl_maxExports = num_min (tl_maxExports a) (tl_maxExports b),
     tl_maxCompletedAnswers = num_min (tl_maxCompletedAnswers a) (tl_maxCompletedAnswers b),
     tl_maxChunkBytes = num_min (tl_maxChunkBytes a) (tl_maxChunkBytes b),
     tl_maxChunksInFlight = num_min (tl_maxChunksInFlight a) (tl_maxChunksInFlight b)\<rparr>"

definition rejected :: "sbx_error_code \<Rightarrow> string \<Rightarrow> sbx_error" where
  "rejected c message = \<lparr>sx_code = c, sx_message = take 512 message, sx_retryable = False,
     sx_operationId = [], sx_sandboxId = [], sx_details = []\<rparr>"

definition policy_ceiling :: "negotiation_policy \<Rightarrow> transport_limits" where
  "policy_ceiling p = orElse (np_ceiling p) DEFAULT_TRANSPORT_LIMITS"

definition policy_required :: "negotiation_policy \<Rightarrow> int" where
  "policy_required p = orElse (np_requiredPeerFeatureBits p) 0"

definition validate_parties :: "protocol_offer \<Rightarrow> negotiation_policy \<Rightarrow> wire_error + unit" where
  "validate_parties offer policy = allE
     [validateContractIdentity (po_identity offer),
      validateContractIdentity (np_identity policy),
      validateTransportLimits (po_limits offer),
      validateTransportLimits (policy_ceiling policy),
      assertUInt64 (po_requiredFeatureBits offer) ''requiredFeatureBits'',
      assertUInt64 (policy_required policy) ''requiredPeerFeatureBits'']"

fun error_field :: "wire_error \<Rightarrow> string" where
  "error_field (WireValidationError field) = field"

text \<open>\<open>`protocol major ${a} is incompatible with ${b}`\<close>\<close>

definition major_text :: "js_number \<Rightarrow> js_number \<Rightarrow> string" where
  "major_text a b = ''protocol major '' @ dec (nat (int_of a)) @ '' is incompatible with '' @ dec (nat (int_of b))"

definition pins_differ :: "contract_identity \<Rightarrow> contract_identity \<Rightarrow> bool" where
  "pins_differ remote local =
     (\<not> timingSafeEqual (ci_artifactHash remote) (ci_artifactHash local)
      \<or> ci_firecrackerPackage remote \<noteq> ci_firecrackerPackage local
      \<or> \<not> timingSafeEqual (ci_firecrackerSha256 remote) (ci_firecrackerSha256 local)
      \<or> ci_firecrackerPinned remote \<noteq> ci_firecrackerPinned local
      \<or> ci_firecrackerMin remote \<noteq> ci_firecrackerMin local)"

definition negotiateProtocol :: "protocol_offer \<Rightarrow> negotiation_policy \<Rightarrow> sbx_error + negotiated_contract" where
  "negotiateProtocol offer policy = (case validate_parties offer policy of
      Inl e \<Rightarrow> Inl (rejected E_invalidArgument (error_field e))
    | Inr _ \<Rightarrow>
       (let remote = po_identity offer; local = np_identity policy;
            selected = ci_featureBits remote AND ci_featureBits local
        in if pv_major (ci_protocol remote) \<noteq> pv_major (ci_protocol local)
           then Inl (rejected E_incompatibleProtocol (major_text (pv_major (ci_protocol remote)) (pv_major (ci_protocol local))))
           else if po_requiredFeatureBits offer AND selected \<noteq> po_requiredFeatureBits offer
           then Inl (rejected E_unsupportedFeature ''required peer features are unavailable'')
           else if policy_required policy AND selected \<noteq> policy_required policy
           then Inl (rejected E_unsupportedFeature ''required local features are unavailable'')
           else if \<not> runtimeCompatible remote local (orElse (np_knownRuntimePairs policy) [])
           then Inl (rejected E_incompatibleRuntime ''capnp-deno version, WASM ABI, or WASM hash is incompatible'')
           else if \<not> schemaCompatible remote local selected (orElse (np_knownSchemaPairs policy) [])
           then Inl (rejected E_incompatibleSchema ''schema hash is not an admitted contract'')
           else if pins_differ remote local
           then Inl (rejected E_incompatibleRuntime ''artifact or Firecracker compatibility identity differs'')
           else Inr \<lparr>nc_identity = local\<lparr>ci_protocol := \<lparr>pv_major = pv_major (ci_protocol local),
                        pv_minor = num_min (pv_minor (ci_protocol remote)) (pv_minor (ci_protocol local))\<rparr>,
                      ci_featureBits := selected\<rparr>,
                     nc_limits = intersectLimits (po_limits offer) (policy_ceiling policy),
                     nc_selectedFeatureBits = selected\<rparr>))"

subsection \<open>What passes the validation\<close>

definition positive_within :: "int \<Rightarrow> js_number \<Rightarrow> bool" where
  "positive_within maximum n = (case n of NumInt i \<Rightarrow> 1 \<le> i \<and> i \<le> maximum | NumOther \<Rightarrow> False)"

definition unsigned_within :: "int \<Rightarrow> js_number \<Rightarrow> bool" where
  "unsigned_within maximum n = (case n of NumInt i \<Rightarrow> 0 \<le> i \<and> i \<le> maximum | NumOther \<Rightarrow> False)"

definition text_within :: "nat \<Rightarrow> string \<Rightarrow> bool" where
  "text_within maximum s = (1 \<le> byteLength s \<and> byteLength s \<le> maximum \<and> \<not> containsAsciiControl s)"

definition identity_ok :: "contract_identity \<Rightarrow> bool" where
  "identity_ok i = (unsigned_within UINT16_MAX (pv_major (ci_protocol i)) \<and> unsigned_within UINT16_MAX (pv_minor (ci_protocol i))
     \<and> unsigned_within UINT32_MAX (ci_wasmAbi i) \<and> 0 \<le> ci_featureBits i \<and> ci_featureBits i \<le> UINT64_MAX
     \<and> list_all (\<lambda>d. length d = SHA256_BYTES) [ci_schemaHash i, ci_wasmSha256 i, ci_artifactHash i, ci_firecrackerSha256 i]
     \<and> text_within 64 (ci_capnpDenoVersion i) \<and> text_within 128 (ci_buildId i) \<and> text_within 128 (ci_firecrackerPackage i)
     \<and> text_within 32 (ci_firecrackerPinned i) \<and> text_within 32 (ci_firecrackerMin i))"

definition limits_ok :: "transport_limits \<Rightarrow> bool" where
  "limits_ok l = (list_all (positive_within UINT32_MAX) [tl_maxFrameBytes l, tl_maxQueuedBytes l, tl_maxChunkBytes l]
     \<and> list_all (positive_within UINT16_MAX) [tl_maxSegments l, tl_maxNestingDepth l, tl_maxQueuedFrames l,
          tl_maxInFlightCalls l, tl_maxExports l, tl_maxCompletedAnswers l, tl_maxChunksInFlight l]
     \<and> positive_within MAX_SAFE_INTEGER (tl_maxTraversalWords l)
     \<and> int_of (tl_maxChunkBytes l) \<le> int_of (tl_maxFrameBytes l)
     \<and> int_of (tl_maxFrameBytes l) \<le> int_of (tl_maxQueuedBytes l)
     \<and> int_of (tl_maxChunksInFlight l) \<le> int_of (tl_maxInFlightCalls l))"

definition limit_list :: "transport_limits \<Rightarrow> int list" where
  "limit_list l = map int_of [tl_maxFrameBytes l, tl_maxSegments l, tl_maxNestingDepth l, tl_maxTraversalWords l,
     tl_maxQueuedFrames l, tl_maxQueuedBytes l, tl_maxInFlightCalls l, tl_maxExports l, tl_maxCompletedAnswers l,
     tl_maxChunkBytes l, tl_maxChunksInFlight l]"

lemma allE_ok: "allE cs = Inr u \<longleftrightarrow> list_all (\<lambda>c. c = Inr ()) cs"
  by (induction cs) (auto simp: err_simps)

lemma assert_ok [simp]:
  "wire_unsigned n m f = Inr u \<longleftrightarrow> unsigned_within m n"
  "assertPositiveInteger n m f = Inr u \<longleftrightarrow> positive_within m n"
  "limit_safe_integer n f = Inr u \<longleftrightarrow> positive_within MAX_SAFE_INTEGER n"
  "assertUInt64 b f = Inr u \<longleftrightarrow> 0 \<le> b \<and> b \<le> UINT64_MAX"
  "assertDigest d f = Inr u \<longleftrightarrow> length d = SHA256_BYTES"
  "assert_text s (Suc 0) k f = Inr u \<longleftrightarrow> text_within k s"
  by (cases n; auto simp: wire_unsigned_def assertPositiveInteger_def limit_safe_integer_def assertUInt64_def
      assertDigest_def assert_text_def unsigned_within_def positive_within_def text_within_def err_simps)+

lemma validateContractIdentity_ok: "validateContractIdentity i = Inr u \<longleftrightarrow> identity_ok i"
  unfolding validateContractIdentity_def allE_ok by (auto simp: identity_ok_def)

lemma validateTransportLimits_ok: "validateTransportLimits l = Inr u \<longleftrightarrow> limits_ok l"
  unfolding validateTransportLimits_def allE_ok by (auto simp: limits_ok_def)

lemma default_limits_ok: "limits_ok DEFAULT_TRANSPORT_LIMITS"
  by (simp add: limits_ok_def DEFAULT_TRANSPORT_LIMITS_def positive_within_def UINT32_MAX_def UINT16_MAX_def MAX_SAFE_INTEGER_def)

lemma positive_within_min:
  "positive_within m a \<Longrightarrow> positive_within m b \<Longrightarrow> positive_within m (num_min a b) \<and> int_of (num_min a b) = min (int_of a) (int_of b)"
  by (cases a; cases b) (auto simp: positive_within_def)

lemma intersectLimits_ok:
  assumes "limits_ok a" "limits_ok b"
  shows "limits_ok (intersectLimits a b)" "limit_list (intersectLimits a b) = map2 min (limit_list a) (limit_list b)"
  using assms positive_within_min by (auto simp: limits_ok_def intersectLimits_def limit_list_def)

subsection \<open>Equality of digests\<close>

lemma fold_or_zero: "fold (\<lambda>i d. d OR f i) xs d = 0 \<longleftrightarrow> d = (0 :: int) \<and> (\<forall>i \<in> set xs. f i = 0)"
  by (induction xs arbitrary: d) (auto simp: or_eq_0_iff)

lemma xor_zero: "a XOR b = 0 \<longleftrightarrow> a = (b :: int)"
proof
  assume "a XOR b = 0"
  then have "bit a n = bit b n" for n using bit_xor_iff [of a b n] by auto
  then show "a = b" by (intro bit_eqI) simp
qed simp

lemma timingSafeEqual_iff: "timingSafeEqual l r \<longleftrightarrow> l = r"
proof
  assume "timingSafeEqual l r"
  then have len: "length l = length r" and at: "\<forall>i \<in> {0..<length l}. byte_at l i = byte_at r i"
    unfolding timingSafeEqual_def fold_or_zero xor_zero by simp_all
  show "l = r"
  proof (rule nth_equalityI [OF len])
    fix i assume i: "i < length l"
    with at have "uint (l ! i) = uint (r ! i)" using len by (simp add: byte_at_def)
    then show "l ! i = r ! i" by (simp only: word_uint_eq_iff)
  qed
next
  assume "l = r"
  then show "timingSafeEqual l r" unfolding timingSafeEqual_def fold_or_zero xor_zero by simp
qed

subsection \<open>What is negotiated\<close>

definition compatible :: "protocol_offer \<Rightarrow> negotiation_policy \<Rightarrow> bool" where
  "compatible offer policy =
     (let remote = po_identity offer; local = np_identity policy; selected = ci_featureBits remote AND ci_featureBits local
      in pv_major (ci_protocol remote) = pv_major (ci_protocol local)
       \<and> po_requiredFeatureBits offer AND selected = po_requiredFeatureBits offer
       \<and> policy_required policy AND selected = policy_required policy
       \<and> runtimeCompatible remote local (orElse (np_knownRuntimePairs policy) [])
       \<and> schemaCompatible remote local selected (orElse (np_knownSchemaPairs policy) [])
       \<and> \<not> pins_differ remote local)"

definition contract_of :: "protocol_offer \<Rightarrow> negotiation_policy \<Rightarrow> negotiated_contract" where
  "contract_of offer policy =
     (let remote = po_identity offer; local = np_identity policy; selected = ci_featureBits remote AND ci_featureBits local
      in \<lparr>nc_identity = local\<lparr>ci_protocol := \<lparr>pv_major = pv_major (ci_protocol local),
                        pv_minor = num_min (pv_minor (ci_protocol remote)) (pv_minor (ci_protocol local))\<rparr>,
                      ci_featureBits := selected\<rparr>,
          nc_limits = intersectLimits (po_limits offer) (policy_ceiling policy), nc_selectedFeatureBits = selected\<rparr>)"

definition parties_ok :: "protocol_offer \<Rightarrow> negotiation_policy \<Rightarrow> bool" where
  "parties_ok offer policy = (identity_ok (po_identity offer) \<and> identity_ok (np_identity policy)
     \<and> limits_ok (po_limits offer) \<and> limits_ok (policy_ceiling policy)
     \<and> po_requiredFeatureBits offer \<in> {0..UINT64_MAX} \<and> policy_required policy \<in> {0..UINT64_MAX})"

lemma validate_parties_ok: "validate_parties offer policy = Inr u \<longleftrightarrow> parties_ok offer policy"
  unfolding validate_parties_def allE_ok
  by (auto simp: validateContractIdentity_ok validateTransportLimits_ok parties_ok_def)

lemma negotiate_iff:
  "negotiateProtocol offer policy = Inr c \<longleftrightarrow>
     parties_ok offer policy \<and> compatible offer policy \<and> c = contract_of offer policy"
proof (cases "validate_parties offer policy")
  case (Inl e)
  then have "\<not> parties_ok offer policy" using validate_parties_ok [of offer policy "()"] by auto
  with Inl show ?thesis by (simp add: negotiateProtocol_def)
next
  case (Inr u)
  then have "parties_ok offer policy" using validate_parties_ok by blast
  with Inr show ?thesis
    by (auto simp: negotiateProtocol_def compatible_def contract_of_def Let_def)
qed

lemma and_absorb_iff: "r AND s = (r :: int) \<longleftrightarrow> (\<forall>n. bit r n \<longrightarrow> bit s n)"
  by (auto simp: bit_eq_iff bit_simps)

lemma runtime_cases:
  assumes "runtimeCompatible remote local pairs"
  shows "(ci_capnpDenoVersion remote, ci_wasmAbi remote, ci_wasmSha256 remote)
       = (ci_capnpDenoVersion local, ci_wasmAbi local, ci_wasmSha256 local)
     \<or> \<lparr>kr_remoteVersion = ci_capnpDenoVersion remote, kr_remoteWasmAbi = ci_wasmAbi remote,
         kr_remoteWasmSha256 = ci_wasmSha256 remote\<rparr> \<in> set pairs"
proof -
  have "p = \<lparr>kr_remoteVersion = kr_remoteVersion p, kr_remoteWasmAbi = kr_remoteWasmAbi p,
      kr_remoteWasmSha256 = kr_remoteWasmSha256 p\<rparr>" for p :: known_runtime_pair by simp
  with assms show ?thesis
    unfolding runtimeCompatible_def timingSafeEqual_iff list_ex_iff by metis
qed

lemma schema_cases:
  "schemaCompatible remote local selected pairs \<Longrightarrow>
     ci_schemaHash remote = ci_schemaHash local
     \<or> (\<exists>p \<in> set pairs. ks_remoteSchemaHash p = ci_schemaHash remote \<and> ks_localSchemaHash p = ci_schemaHash local
         \<and> (\<forall>n. bit (ks_requiredFeatureBits p) n \<longrightarrow> bit selected n))"
  by (auto simp: schemaCompatible_def timingSafeEqual_iff list_ex_iff and_absorb_iff)

lemma contract_identity_ok:
  assumes "parties_ok offer policy"
  shows "identity_ok (nc_identity (contract_of offer policy))"
proof -
  let ?r = "po_identity offer" and ?l = "np_identity policy"
  from assms have ok: "identity_ok ?r" "identity_ok ?l" by (auto simp: parties_ok_def)
  then have "unsigned_within UINT16_MAX (num_min (pv_minor (ci_protocol ?r)) (pv_minor (ci_protocol ?l)))"
    by (cases "pv_minor (ci_protocol ?r)"; cases "pv_minor (ci_protocol ?l)")
      (auto simp: identity_ok_def unsigned_within_def)
  moreover have "0 \<le> ci_featureBits ?r AND ci_featureBits ?l" "ci_featureBits ?r AND ci_featureBits ?l \<le> UINT64_MAX"
    using ok AND_upper1' [of "ci_featureBits ?r" UINT64_MAX "ci_featureBits ?l"] by (auto simp: identity_ok_def)
  ultimately show ?thesis using ok(2) by (auto simp: contract_of_def identity_ok_def Let_def)
qed

text \<open>
  C16. A connection is negotiated only on valid offers and policies of the same major version with the same artifact and
  Firecracker pins, and with the same runtime and schema or an admitted pair of them. What comes out is a valid identity and
  valid limits, which are fieldwise the smaller ones of both sides; the selected features are those of both sides, and
  contain what the offer, the policy and the admitted schema pair require; the minor version is the smaller one.
\<close>

theorem negotiation_is_sound:
  assumes "negotiateProtocol offer policy = Inr c"
  defines "remote \<equiv> po_identity offer" and "local \<equiv> np_identity policy"
  shows "identity_ok remote \<and> identity_ok local \<and> identity_ok (nc_identity c)
    \<and> limits_ok (nc_limits c) \<and> limit_list (nc_limits c) = map2 min (limit_list (po_limits offer)) (limit_list (policy_ceiling policy))
    \<and> (\<forall>n. bit (nc_selectedFeatureBits c) n \<longleftrightarrow> bit (ci_featureBits remote) n \<and> bit (ci_featureBits local) n)
    \<and> ci_featureBits (nc_identity c) = nc_selectedFeatureBits c
    \<and> (\<forall>n. bit (po_requiredFeatureBits offer) n \<or> bit (policy_required policy) n \<longrightarrow> bit (nc_selectedFeatureBits c) n)
    \<and> pv_major (ci_protocol remote) = pv_major (ci_protocol local)
    \<and> ci_protocol (nc_identity c) = \<lparr>pv_major = pv_major (ci_protocol local),
         pv_minor = num_min (pv_minor (ci_protocol remote)) (pv_minor (ci_protocol local))\<rparr>
    \<and> ((ci_capnpDenoVersion remote, ci_wasmAbi remote, ci_wasmSha256 remote)
           = (ci_capnpDenoVersion local, ci_wasmAbi local, ci_wasmSha256 local)
       \<or> \<lparr>kr_remoteVersion = ci_capnpDenoVersion remote, kr_remoteWasmAbi = ci_wasmAbi remote,
            kr_remoteWasmSha256 = ci_wasmSha256 remote\<rparr> \<in> set (orElse (np_knownRuntimePairs policy) []))
    \<and> (ci_schemaHash remote = ci_schemaHash local
       \<or> (\<exists>p \<in> set (orElse (np_knownSchemaPairs policy) []).
            ks_remoteSchemaHash p = ci_schemaHash remote \<and> ks_localSchemaHash p = ci_schemaHash local
            \<and> (\<forall>n. bit (ks_requiredFeatureBits p) n \<longrightarrow> bit (nc_selectedFeatureBits c) n)))
    \<and> (ci_artifactHash remote, ci_firecrackerPackage remote, ci_firecrackerSha256 remote, ci_firecrackerPinned remote,
         ci_firecrackerMin remote)
       = (ci_artifactHash local, ci_firecrackerPackage local, ci_firecrackerSha256 local, ci_firecrackerPinned local,
         ci_firecrackerMin local)"
proof -
  from assms(1) have ok: "parties_ok offer policy" and com: "compatible offer policy" and c: "c = contract_of offer policy"
    by (auto simp: negotiate_iff)
  have lim: "limits_ok (po_limits offer)" "limits_ok (policy_ceiling policy)" and id: "identity_ok remote" "identity_ok local"
    using ok by (auto simp: parties_ok_def remote_def local_def)
  have sel: "nc_selectedFeatureBits c = ci_featureBits remote AND ci_featureBits local"
      "nc_limits c = intersectLimits (po_limits offer) (policy_ceiling policy)"
      "ci_featureBits (nc_identity c) = nc_selectedFeatureBits c"
      "ci_protocol (nc_identity c) = \<lparr>pv_major = pv_major (ci_protocol local),
         pv_minor = num_min (pv_minor (ci_protocol remote)) (pv_minor (ci_protocol local))\<rparr>"
    by (simp_all add: c contract_of_def Let_def remote_def local_def)
  from com have req: "po_requiredFeatureBits offer AND nc_selectedFeatureBits c = po_requiredFeatureBits offer"
      "policy_required policy AND nc_selectedFeatureBits c = policy_required policy"
    and rt: "runtimeCompatible remote local (orElse (np_knownRuntimePairs policy) [])"
    and sc: "schemaCompatible remote local (nc_selectedFeatureBits c) (orElse (np_knownSchemaPairs policy) [])"
    and maj: "pv_major (ci_protocol remote) = pv_major (ci_protocol local)" and pins: "\<not> pins_differ remote local"
    by (simp_all add: compatible_def Let_def sel(1) remote_def local_def)
  have bits: "bit (nc_selectedFeatureBits c) n \<longleftrightarrow> bit (ci_featureBits remote) n \<and> bit (ci_featureBits local) n" for n
    by (simp add: sel(1) bit_and_iff)
  show ?thesis
    using id contract_identity_ok [OF ok] intersectLimits_ok [OF lim] sel bits req maj pins runtime_cases [OF rt] schema_cases [OF sc]
    unfolding c [symmetric] and_absorb_iff pins_differ_def timingSafeEqual_iff by auto
qed

definition example_identity :: contract_identity where
  "example_identity = \<lparr>ci_protocol = \<lparr>pv_major = NumInt 1, pv_minor = NumInt 0\<rparr>, ci_featureBits = 3,
     ci_schemaHash = replicate 32 1, ci_capnpDenoVersion = ''0.3.0'', ci_wasmAbi = NumInt 1, ci_wasmSha256 = replicate 32 2,
     ci_buildId = ''b1'', ci_artifactHash = replicate 32 3, ci_firecrackerPackage = ''fc'',
     ci_firecrackerSha256 = replicate 32 4, ci_firecrackerPinned = ''1.7.0'', ci_firecrackerMin = ''1.5.0''\<rparr>"

definition example_offer :: protocol_offer where
  "example_offer = \<lparr>po_identity = example_identity\<lparr>ci_featureBits := 7\<rparr>, po_limits = DEFAULT_TRANSPORT_LIMITS, po_requiredFeatureBits = 1\<rparr>"

definition example_policy :: negotiation_policy where
  "example_policy = \<lparr>np_identity = example_identity, np_ceiling = None, np_requiredPeerFeatureBits = Some 2,
     np_knownSchemaPairs = None, np_knownRuntimePairs = None\<rparr>"

lemma example_negotiates: "negotiateProtocol example_offer example_policy = Inr (contract_of example_offer example_policy)"
proof -
  have "text_within 64 ''0.3.0''" "text_within 128 ''b1''" "text_within 128 ''fc''" "text_within 32 ''1.7.0''" "text_within 32 ''1.5.0''"
    by (simp_all add: text_within_def byteLength_Cons containsAsciiControl_def code_def)
  then have "identity_ok example_identity" "identity_ok (example_identity\<lparr>ci_featureBits := 7\<rparr>)"
    by (simp_all add: identity_ok_def example_identity_def unsigned_within_def SHA256_BYTES_def UINT16_MAX_def UINT32_MAX_def UINT64_MAX_def)
  then have "parties_ok example_offer example_policy"
    by (simp add: parties_ok_def example_offer_def example_policy_def policy_ceiling_def policy_required_def default_limits_ok
        UINT64_MAX_def orElse_def)
  moreover have "compatible example_offer example_policy"
    by (simp add: compatible_def example_offer_def example_policy_def example_identity_def policy_required_def orElse_def Let_def
        runtimeCompatible_def schemaCompatible_def pins_differ_def timingSafeEqual_iff)
  ultimately show ?thesis by (simp add: negotiate_iff)
qed

theorem negotiation_is_sound_witness:
  "limits_ok (nc_limits (contract_of example_offer example_policy))
   \<and> nc_selectedFeatureBits (contract_of example_offer example_policy) = 3"
proof
  show "limits_ok (nc_limits (contract_of example_offer example_policy))"
    using negotiation_is_sound [OF example_negotiates] by (elim conjE)
  show "nc_selectedFeatureBits (contract_of example_offer example_policy) = 3"
    by (simp add: contract_of_def example_offer_def example_policy_def example_identity_def Let_def)
qed

end
