(* ===== verification/Wire_Bootstrap.thy ===== *)
theory Wire_Bootstrap
  imports Wire_Contract
begin

text \<open>
  \<^verbatim>\<open>src/wire/bootstrap_gate.ts\<close>, the gate every connection has before its service can be used, and the bootstrap
  objects that drive it: \<open>createHostControlWireConnection\<close> of \<^verbatim>\<open>src/hostd/service.ts\<close> and
  \<open>createSupervisorWireConnection\<close> of \<^verbatim>\<open>src/rootd/service.ts\<close>.

  The decoding of an offer from the generated wire structs is a parameter: a call carries its result, an offer or the error the
  service answers. Session ids are drawn at random and arrive as an argument. A gate operation returns the gate it leaves
  behind and the result or the error it throws.
\<close>

definition FEATURE_typedErrors :: int where "FEATURE_typedErrors = push_bit 0 1"

definition FEATURE_boundedStreams :: int where "FEATURE_boundedStreams = push_bit 1 1"

definition FEATURE_durableLeases :: int where "FEATURE_durableLeases = push_bit 2 1"

definition FEATURE_rawAgentTunnel :: int where "FEATURE_rawAgentTunnel = push_bit 3 1"

definition FEATURE_rootSupervisor :: int where "FEATURE_rootSupervisor = push_bit 4 1"

definition FEATURE_httpExposure :: int where "FEATURE_httpExposure = push_bit 5 1"

definition HOST_FEATURE_BITS :: int where
  "HOST_FEATURE_BITS = FEATURE_typedErrors OR FEATURE_durableLeases OR FEATURE_rawAgentTunnel OR FEATURE_httpExposure"

definition SUPERVISOR_FEATURE_BITS :: int where
  "SUPERVISOR_FEATURE_BITS = FEATURE_typedErrors OR FEATURE_boundedStreams OR FEATURE_rootSupervisor"

subsection \<open>The gate\<close>

datatype bootstrap_phase = PhConnected | PhNegotiated | PhAuthenticated | PhClosed

datatype gate_error =
    BootstrapStateError string
  | BootstrapRejectedError sbx_error
  | AuthenticationRejectedError bool

record bootstrap_gate =
  gt_phase :: bootstrap_phase
  gt_contract :: "negotiated_contract option"
  gt_authenticationFailures :: nat
  gt_maxAuthenticationFailures :: nat

text \<open>The constructor; \<open>None\<close> is the \<open>RangeError\<close> it throws.\<close>

definition new_gate :: "js_number \<Rightarrow> bootstrap_gate option" where
  "new_gate n =
     (if \<not> isSafeInteger n \<or> int_of n < 1 \<or> 16 < int_of n then None
      else Some \<lparr>gt_phase = PhConnected, gt_contract = None, gt_authenticationFailures = 0,
                 gt_maxAuthenticationFailures = nat (int_of n)\<rparr>)"

fun phase_text :: "bootstrap_phase \<Rightarrow> string" where
  "phase_text PhConnected = ''connected''"
| "phase_text PhNegotiated = ''negotiated''"
| "phase_text PhAuthenticated = ''authenticated''"
| "phase_text PhClosed = ''closed''"

text \<open>\<open>#requirePhase\<close>: the gate it leaves and the error, if it throws.\<close>

definition requirePhase :: "bootstrap_phase \<Rightarrow> string \<Rightarrow> bootstrap_gate \<Rightarrow> bootstrap_gate \<times> gate_error option" where
  "requirePhase expected operation g =
     (if gt_phase g \<noteq> expected
      then (g\<lparr>gt_phase := PhClosed\<rparr>,
            Some (BootstrapStateError (operation @ '' requires '' @ phase_text expected @ '' phase, received ''
              @ phase_text (gt_phase g))))
      else (g, None))"

definition acceptNegotiation ::
    "sbx_error + negotiated_contract \<Rightarrow> bootstrap_gate \<Rightarrow> bootstrap_gate \<times> (gate_error + negotiated_contract)" where
  "acceptNegotiation result g = (case requirePhase PhConnected ''negotiate'' g of
      (g', Some e) \<Rightarrow> (g', Inl e)
    | (g', None) \<Rightarrow> (case result of
          Inl e \<Rightarrow> (g'\<lparr>gt_phase := PhClosed\<rparr>, Inl (BootstrapRejectedError e))
        | Inr c \<Rightarrow> (g'\<lparr>gt_contract := Some c, gt_phase := PhNegotiated\<rparr>, Inr c)))"

definition recordAuthentication :: "bool \<Rightarrow> bootstrap_gate \<Rightarrow> bootstrap_gate \<times> (gate_error + unit)" where
  "recordAuthentication verified g = (case requirePhase PhNegotiated ''authenticate'' g of
      (g', Some e) \<Rightarrow> (g', Inl e)
    | (g', None) \<Rightarrow>
        (if verified then (g'\<lparr>gt_phase := PhAuthenticated\<rparr>, Inr ())
         else (let g1 = g'\<lparr>gt_authenticationFailures := gt_authenticationFailures g' + 1\<rparr>;
                   g2 = (if gt_maxAuthenticationFailures g1 \<le> gt_authenticationFailures g1
                         then g1\<lparr>gt_phase := PhClosed\<rparr> else g1)
               in (g2, Inl (AuthenticationRejectedError (gt_phase g2 = PhClosed))))))"

definition assertAuthorized :: "bootstrap_gate \<Rightarrow> bootstrap_gate \<times> (gate_error + unit)" where
  "assertAuthorized g =
     (if gt_phase g \<noteq> PhAuthenticated
      then (g\<lparr>gt_phase := PhClosed\<rparr>, Inl (BootstrapStateError ''service capability requested before authentication''))
      else (g, Inr ()))"

definition gate_close :: "bootstrap_gate \<Rightarrow> bootstrap_gate" where
  "gate_close g = g\<lparr>gt_phase := PhClosed, gt_contract := None\<rparr>"

subsection \<open>The bootstrap of a connection to hostd or rootd\<close>

record wire_options =
  wo_identity :: contract_identity
  wo_credential :: bytes
  wo_limitsCeiling :: "transport_limits option"
  wo_requiredPeerFeatureBits :: "int option"
  wo_knownSchemaPairs :: "known_schema_pair list option"
  wo_knownRuntimePairs :: "known_runtime_pair list option"
  wo_maxAuthenticationFailures :: "js_number option"

definition wire_policy :: "int \<Rightarrow> wire_options \<Rightarrow> negotiation_policy" where
  "wire_policy defaultBits opts = \<lparr>np_identity = wo_identity opts, np_ceiling = wo_limitsCeiling opts,
     np_requiredPeerFeatureBits = Some (orElse (wo_requiredPeerFeatureBits opts) defaultBits),
     np_knownSchemaPairs = wo_knownSchemaPairs opts, np_knownRuntimePairs = wo_knownRuntimePairs opts\<rparr>"

definition host_policy :: "wire_options \<Rightarrow> negotiation_policy" where
  "host_policy = wire_policy HOST_FEATURE_BITS"

definition supervisor_policy :: "wire_options \<Rightarrow> negotiation_policy" where
  "supervisor_policy = wire_policy SUPERVISOR_FEATURE_BITS"

definition truncateMessage :: "string \<Rightarrow> string" where
  "truncateMessage s = (if 512 < length s then take (512 - 3) s @ ''...'' else s)"

definition wireError :: "sbx_error_code \<Rightarrow> string \<Rightarrow> bool \<Rightarrow> sbx_error" where
  "wireError c message retryable = \<lparr>sx_code = c, sx_message = truncateMessage message, sx_retryable = retryable,
     sx_operationId = [], sx_sandboxId = [], sx_details = []\<rparr>"

datatype bootstrap_call =
    Negotiate "sbx_error + protocol_offer"
  | Authenticate wire_val bytes
  | Service
  | TransportClosed

datatype bootstrap_reply =
    Accepted negotiated_contract
  | Session bytes
  | ServiceGranted
  | WireFault sbx_error
  | RpcException gate_error
  | NoReply

definition do_negotiate :: "negotiation_policy \<Rightarrow> sbx_error + protocol_offer \<Rightarrow> bootstrap_gate \<Rightarrow> bootstrap_gate \<times> bootstrap_reply" where
  "do_negotiate policy decoded g = (case decoded of
      Inl fault \<Rightarrow> (gate_close g, WireFault fault)
    | Inr offer \<Rightarrow> (case acceptNegotiation (negotiateProtocol offer policy) g of
          (g', Inr c) \<Rightarrow> (g', Accepted c)
        | (g', Inl (BootstrapRejectedError e)) \<Rightarrow> (g', WireFault e)
        | (g', Inl (BootstrapStateError m)) \<Rightarrow> (g', WireFault (wireError E_failedPrecondition m False))
        | (g', Inl e) \<Rightarrow> (g', RpcException e)))"

definition credential_verified :: "bytes \<Rightarrow> wire_val \<Rightarrow> bool" where
  "credential_verified expected credential = (case validateSupervisorCredential credential of
      Inl _ \<Rightarrow> False
    | Inr _ \<Rightarrow> (case credential of WBytes bs \<Rightarrow> timingSafeEqual bs expected | _ \<Rightarrow> False))"

definition do_authenticate :: "bytes \<Rightarrow> wire_val \<Rightarrow> bytes \<Rightarrow> bootstrap_gate \<Rightarrow> bootstrap_gate \<times> bootstrap_reply" where
  "do_authenticate expected credential sessionId g =
     (case recordAuthentication (credential_verified expected credential) g of
        (g', Inr _) \<Rightarrow> (g', Session sessionId)
      | (g', Inl (AuthenticationRejectedError closed)) \<Rightarrow>
          (g', WireFault (wireError E_unauthenticated
            (if closed then ''authentication failed; the connection is closed'' else ''authentication failed'') (\<not> closed)))
      | (g', Inl (BootstrapStateError m)) \<Rightarrow> (g', WireFault (wireError E_failedPrecondition m False))
      | (g', Inl e) \<Rightarrow> (g', RpcException e))"

definition do_service :: "bootstrap_gate \<Rightarrow> bootstrap_gate \<times> bootstrap_reply" where
  "do_service g = (case assertAuthorized g of (g', Inr _) \<Rightarrow> (g', ServiceGranted) | (g', Inl e) \<Rightarrow> (g', RpcException e))"

definition serve_call :: "negotiation_policy \<Rightarrow> bytes \<Rightarrow> bootstrap_call \<Rightarrow> bootstrap_gate \<Rightarrow> bootstrap_gate \<times> bootstrap_reply" where
  "serve_call policy expected call g = (case call of
      Negotiate decoded \<Rightarrow> do_negotiate policy decoded g
    | Authenticate credential sessionId \<Rightarrow> do_authenticate expected credential sessionId g
    | Service \<Rightarrow> do_service g
    | TransportClosed \<Rightarrow> (gate_close g, NoReply))"

definition serve_calls :: "negotiation_policy \<Rightarrow> bytes \<Rightarrow> bootstrap_call list \<Rightarrow> bootstrap_gate \<Rightarrow> bootstrap_gate" where
  "serve_calls policy expected calls g = fold (\<lambda>call g. fst (serve_call policy expected call g)) calls g"

text \<open>
  \<open>createHostControlWireConnection\<close>: what it answers to a call after the calls before it. \<open>None\<close>: the options are refused
  (a credential that is not 32 bytes, a failure limit out of range) and there is no connection.
\<close>

definition connection_reply ::
    "(wire_options \<Rightarrow> negotiation_policy) \<Rightarrow> wire_options \<Rightarrow> bootstrap_call list \<Rightarrow> bootstrap_call \<Rightarrow> bootstrap_reply option" where
  "connection_reply policy opts calls call = (case new_gate (orElse (wo_maxAuthenticationFailures opts) (NumInt 3)) of
      None \<Rightarrow> None
    | Some g \<Rightarrow>
        (if is_ok (validateSupervisorCredential (WBytes (wo_credential opts)))
         then Some (snd (serve_call (policy opts) (wo_credential opts) call
                (serve_calls (policy opts) (wo_credential opts) calls g)))
         else None))"

definition host_reply :: "wire_options \<Rightarrow> bootstrap_call list \<Rightarrow> bootstrap_call \<Rightarrow> bootstrap_reply option" where
  "host_reply = connection_reply host_policy"

definition supervisor_reply :: "wire_options \<Rightarrow> bootstrap_call list \<Rightarrow> bootstrap_call \<Rightarrow> bootstrap_reply option" where
  "supervisor_reply = connection_reply supervisor_policy"

subsection \<open>The only way to the service\<close>

lemma credential_verified_iff: "credential_verified expected v \<longleftrightarrow> v = WBytes expected \<and> length expected = 32"
  by (cases v) (auto simp: credential_verified_def validateSupervisorCredential_def assertExactBytes_def assertByteRange_def
      SUPERVISOR_CREDENTIAL_BYTES_def timingSafeEqual_iff)

definition wrong_attempt :: "bytes \<Rightarrow> bootstrap_call \<Rightarrow> bool" where
  "wrong_attempt expected call = (case call of Authenticate v _ \<Rightarrow> v \<noteq> WBytes expected | _ \<Rightarrow> False)"

text \<open>What a gate has seen that is in a phase.\<close>

definition saw_negotiation :: "negotiation_policy \<Rightarrow> bytes \<Rightarrow> nat \<Rightarrow> bootstrap_call list \<Rightarrow> nat \<Rightarrow> bool" where
  "saw_negotiation policy expected M calls n =
     (\<exists>offer wrong. calls = Negotiate (Inr offer) # wrong \<and> is_ok (negotiateProtocol offer policy)
        \<and> list_all (wrong_attempt expected) wrong \<and> length wrong = n \<and> n < M)"

definition saw_handshake :: "negotiation_policy \<Rightarrow> bytes \<Rightarrow> nat \<Rightarrow> bootstrap_call list \<Rightarrow> bool" where
  "saw_handshake policy expected M calls =
     (\<exists>start sid k n. calls = start @ Authenticate (WBytes expected) sid # replicate k Service
        \<and> saw_negotiation policy expected M start n)"

definition gate_history :: "negotiation_policy \<Rightarrow> bytes \<Rightarrow> nat \<Rightarrow> bootstrap_call list \<Rightarrow> bootstrap_gate \<Rightarrow> bool" where
  "gate_history policy expected M calls g = (gt_maxAuthenticationFailures g = M \<and> (case gt_phase g of
      PhConnected \<Rightarrow> calls = [] \<and> gt_authenticationFailures g = 0
    | PhNegotiated \<Rightarrow> saw_negotiation policy expected M calls (gt_authenticationFailures g)
    | PhAuthenticated \<Rightarrow> saw_handshake policy expected M calls
    | PhClosed \<Rightarrow> \<not> saw_handshake policy expected M calls \<and> calls \<noteq> [] \<and> (\<forall>n. \<not> saw_negotiation policy expected M calls n)))"

lemmas gate_defs = serve_call_def do_negotiate_def do_authenticate_def do_service_def acceptNegotiation_def recordAuthentication_def
  assertAuthorized_def requirePhase_def gate_close_def Let_def

lemma saw_negotiation_snoc:
  "saw_negotiation policy expected M (calls @ [call]) n \<longleftrightarrow>
     (calls = [] \<and> n = 0 \<and> 0 < M \<and> (\<exists>offer. call = Negotiate (Inr offer) \<and> is_ok (negotiateProtocol offer policy)))
     \<or> (\<exists>m. n = Suc m \<and> n < M \<and> wrong_attempt expected call \<and> saw_negotiation policy expected M calls m)"
proof (cases calls)
  case Nil
  then show ?thesis by (auto simp: saw_negotiation_def)
next
  case (Cons c cs)
  then show ?thesis by (auto simp: saw_negotiation_def)
qed

lemma saw_handshake_snoc:
  "saw_handshake policy expected M (calls @ [call]) \<longleftrightarrow>
     (\<exists>sid n. call = Authenticate (WBytes expected) sid \<and> saw_negotiation policy expected M calls n)
     \<or> (call = Service \<and> saw_handshake policy expected M calls)"
proof
  assume "saw_handshake policy expected M (calls @ [call])"
  then obtain start sid k n where eq: "calls @ [call] = start @ Authenticate (WBytes expected) sid # replicate k Service"
    and start: "saw_negotiation policy expected M start n" unfolding saw_handshake_def by blast
  show "(\<exists>sid n. call = Authenticate (WBytes expected) sid \<and> saw_negotiation policy expected M calls n)
     \<or> (call = Service \<and> saw_handshake policy expected M calls)"
  proof (cases k)
    case 0
    with eq start show ?thesis by auto
  next
    case (Suc j)
    then have "replicate k Service = replicate j Service @ [Service]" by (simp add: replicate_append_same)
    with eq have "calls = start @ Authenticate (WBytes expected) sid # replicate j Service" "call = Service" by auto
    with start show ?thesis unfolding saw_handshake_def by blast
  qed
next
  assume "(\<exists>sid n. call = Authenticate (WBytes expected) sid \<and> saw_negotiation policy expected M calls n)
     \<or> (call = Service \<and> saw_handshake policy expected M calls)"
  then consider sid n where "call = Authenticate (WBytes expected) sid" "saw_negotiation policy expected M calls n"
    | "call = Service" "saw_handshake policy expected M calls" by blast
  then show "saw_handshake policy expected M (calls @ [call])"
  proof cases
    case 1
    then have "calls @ [call] = calls @ Authenticate (WBytes expected) sid # replicate 0 Service" by simp
    with 1 show ?thesis unfolding saw_handshake_def by blast
  next
    case 2
    then obtain start sid k n where "calls = start @ Authenticate (WBytes expected) sid # replicate k Service"
      and start: "saw_negotiation policy expected M start n" unfolding saw_handshake_def by blast
    with 2(1) have "calls @ [call] = start @ Authenticate (WBytes expected) sid # replicate (Suc k) Service"
      by (simp add: replicate_append_same)
    with start show ?thesis unfolding saw_handshake_def by blast
  qed
qed

lemma saw_exclusive:
  "saw_negotiation policy expected M calls n \<Longrightarrow> \<not> saw_handshake policy expected M calls"
  "saw_negotiation policy expected M calls n \<Longrightarrow> saw_negotiation policy expected M calls m \<Longrightarrow> n = m"
  "saw_negotiation policy expected M calls n \<Longrightarrow> calls \<noteq> []" "saw_handshake policy expected M calls \<Longrightarrow> calls \<noteq> []"
  by (auto simp: saw_negotiation_def saw_handshake_def wrong_attempt_def)

lemma gate_history_step:
  assumes "gate_history policy expected M calls g" "length expected = 32" "0 < M"
  shows "gate_history policy expected M (calls @ [call]) (fst (serve_call policy expected call g))"
proof (cases "gt_phase g")
  case PhConnected
  with assms have c: "calls = []" "gt_authenticationFailures g = 0" "gt_maxAuthenticationFailures g = M" by (auto simp: gate_history_def)
  have none: "\<not> saw_negotiation policy expected M [] n" "\<not> saw_handshake policy expected M []" for n
    by (auto simp: saw_negotiation_def saw_handshake_def)
  show ?thesis
    using PhConnected c(2,3) none assms(3) unfolding c(1) gate_history_def saw_negotiation_snoc saw_handshake_snoc
    by (cases call) (auto simp: gate_defs wrong_attempt_def split: sum.splits)
next
  case PhNegotiated
  with assms have c: "saw_negotiation policy expected M calls (gt_authenticationFailures g)" "gt_maxAuthenticationFailures g = M"
    by (auto simp: gate_history_def)
  note ex = saw_exclusive(1,3) [OF c(1)] saw_exclusive(2) [OF c(1)]
  show ?thesis
  proof (cases call)
    case (Authenticate v sid)
    show ?thesis
    proof (cases "v = WBytes expected")
      case True
      with Authenticate assms(2) PhNegotiated have "fst (serve_call policy expected call g) = g\<lparr>gt_phase := PhAuthenticated\<rparr>"
        by (simp add: gate_defs credential_verified_iff)
      moreover have "saw_handshake policy expected M (calls @ [call])"
        unfolding saw_handshake_snoc Authenticate True using c(1) by blast
      ultimately show ?thesis by (simp add: gate_history_def c(2))
    next
      case False
      let ?n = "Suc (gt_authenticationFailures g)"
      have w: "wrong_attempt expected call" "call \<noteq> Service" using False Authenticate by (simp_all add: wrong_attempt_def)
      have "fst (serve_call policy expected call g)
          = g\<lparr>gt_authenticationFailures := ?n, gt_phase := (if M \<le> ?n then PhClosed else PhNegotiated)\<rparr>"
        using False Authenticate PhNegotiated c(2) by (auto simp: gate_defs credential_verified_iff)
      moreover have "saw_negotiation policy expected M (calls @ [call]) k \<longleftrightarrow> k = ?n \<and> \<not> M \<le> ?n" for k
      proof -
        have "saw_negotiation policy expected M calls m \<longleftrightarrow> m = gt_authenticationFailures g" for m
          using c(1) ex(3) by blast
        then show ?thesis unfolding saw_negotiation_snoc using w(1) ex(2) by (simp add: not_le) blast
      qed
      moreover have "\<not> saw_handshake policy expected M (calls @ [call])"
        unfolding saw_handshake_snoc using w(2) False Authenticate by simp
      ultimately show ?thesis using c(2) by (simp add: gate_history_def)
    qed
  qed (use PhNegotiated c(2) ex(1,2) in \<open>auto simp: gate_history_def saw_negotiation_snoc saw_handshake_snoc gate_defs
      wrong_attempt_def split: sum.splits\<close>)
next
  case PhAuthenticated
  with assms have c: "saw_handshake policy expected M calls" "gt_maxAuthenticationFailures g = M" by (auto simp: gate_history_def)
  have ex: "\<not> saw_negotiation policy expected M calls n" "calls \<noteq> []" for n
    using c(1) saw_exclusive by blast+
  show ?thesis
    using PhAuthenticated c ex unfolding gate_history_def saw_negotiation_snoc saw_handshake_snoc
    by (cases call) (auto simp: gate_defs split: sum.splits)
next
  case PhClosed
  with assms have c: "\<not> saw_handshake policy expected M calls" "calls \<noteq> []" "\<And>n. \<not> saw_negotiation policy expected M calls n"
      "gt_maxAuthenticationFailures g = M"
    by (auto simp: gate_history_def)
  have "gt_phase (fst (serve_call policy expected call g)) = PhClosed \<and> gt_maxAuthenticationFailures (fst (serve_call policy expected call g)) = M"
    using PhClosed c(4) by (auto simp: gate_defs split: bootstrap_call.splits sum.splits)
  with c show ?thesis by (simp add: gate_history_def saw_negotiation_snoc saw_handshake_snoc)
qed

lemma serve_calls_history:
  assumes "length expected = 32" "0 < M"
    "g = \<lparr>gt_phase = PhConnected, gt_contract = None, gt_authenticationFailures = 0, gt_maxAuthenticationFailures = M\<rparr>"
  shows "gate_history policy expected M calls (serve_calls policy expected calls g)"
proof (induction calls rule: rev_induct)
  case Nil
  then show ?case by (simp add: serve_calls_def gate_history_def assms(3))
next
  case (snoc call calls)
  then show ?case using gate_history_step [OF snoc assms(1,2), of call] by (simp add: serve_calls_def)
qed

lemma service_granted_iff: "snd (serve_call policy expected Service g) = ServiceGranted \<longleftrightarrow> gt_phase g = PhAuthenticated"
  by (simp add: gate_defs)

lemma history_authenticated: "gate_history policy expected M calls g \<Longrightarrow>
    gt_phase g = PhAuthenticated \<longleftrightarrow> saw_handshake policy expected M calls"
  using saw_exclusive(1,4) by (cases "gt_phase g") (fastforce simp: gate_history_def)+

lemma saw_handshake_iff:
  "saw_handshake policy expected M calls \<longleftrightarrow>
     (\<exists>offer wrong sid k. calls = Negotiate (Inr offer) # wrong @ Authenticate (WBytes expected) sid # replicate k Service
        \<and> is_ok (negotiateProtocol offer policy) \<and> list_all (wrong_attempt expected) wrong \<and> length wrong < M)"
proof
  assume "saw_handshake policy expected M calls"
  then obtain start sid k n where c: "calls = start @ Authenticate (WBytes expected) sid # replicate k Service"
    and "saw_negotiation policy expected M start n" unfolding saw_handshake_def by blast
  then show "\<exists>offer wrong sid k. calls = Negotiate (Inr offer) # wrong @ Authenticate (WBytes expected) sid # replicate k Service
        \<and> is_ok (negotiateProtocol offer policy) \<and> list_all (wrong_attempt expected) wrong \<and> length wrong < M"
    unfolding saw_negotiation_def by (metis append_Cons)
next
  assume "\<exists>offer wrong sid k. calls = Negotiate (Inr offer) # wrong @ Authenticate (WBytes expected) sid # replicate k Service
        \<and> is_ok (negotiateProtocol offer policy) \<and> list_all (wrong_attempt expected) wrong \<and> length wrong < M"
  then obtain offer wrong sid k where c: "calls = (Negotiate (Inr offer) # wrong) @ Authenticate (WBytes expected) sid # replicate k Service"
      and ok: "is_ok (negotiateProtocol offer policy)" "list_all (wrong_attempt expected) wrong" "length wrong < M" by auto
  from ok have "saw_negotiation policy expected M (Negotiate (Inr offer) # wrong) (length wrong)"
    by (simp add: saw_negotiation_def)
  with c show "saw_handshake policy expected M calls" unfolding saw_handshake_def by blast
qed

definition failure_limit :: "wire_options \<Rightarrow> nat" where
  "failure_limit opts = nat (int_of (orElse (wo_maxAuthenticationFailures opts) (NumInt 3)))"

lemma connection_reply_service:
  "connection_reply policy opts calls Service = Some ServiceGranted \<longleftrightarrow>
     failure_limit opts \<in> {1..16} \<and> isInteger (orElse (wo_maxAuthenticationFailures opts) (NumInt 3))
     \<and> length (wo_credential opts) = 32 \<and> saw_handshake (policy opts) (wo_credential opts) (failure_limit opts) calls"
proof -
  let ?n = "orElse (wo_maxAuthenticationFailures opts) (NumInt 3)" and ?cred = "wo_credential opts"
  have cred: "is_ok (validateSupervisorCredential (WBytes ?cred)) \<longleftrightarrow> length ?cred = 32"
    by (simp add: validateSupervisorCredential_def SUPERVISOR_CREDENTIAL_BYTES_def is_ok_def assertExactBytes_def assertByteRange_def)
  have lim: "new_gate ?n = (if failure_limit opts \<in> {1..16} \<and> isInteger ?n then Some \<lparr>gt_phase = PhConnected, gt_contract = None,
      gt_authenticationFailures = 0, gt_maxAuthenticationFailures = failure_limit opts\<rparr> else None)"
    by (cases ?n) (auto simp: new_gate_def failure_limit_def MAX_SAFE_INTEGER_def)
  show ?thesis
    using service_granted_iff history_authenticated [OF serve_calls_history [OF _ _ refl]]
    unfolding connection_reply_def lim by (auto simp: cred)
qed

text \<open>
  C14. A connection to hostd hands out its control service exactly after a complete handshake: the first call negotiated
  successfully, then fewer failed authentications than the limit, then one with the configured credential, and since then
  only requests for the service. Any other call, in any other order, and any fault has shut the connection for good. The
  same holds for the supervisor of rootd with its own required features.
\<close>

theorem service_needs_the_handshake:
  "(host_reply opts calls Service = Some ServiceGranted \<longleftrightarrow>
     failure_limit opts \<in> {1..16} \<and> isInteger (orElse (wo_maxAuthenticationFailures opts) (NumInt 3))
     \<and> length (wo_credential opts) = 32
     \<and> (\<exists>offer wrong sid k.
          calls = Negotiate (Inr offer) # wrong @ Authenticate (WBytes (wo_credential opts)) sid # replicate k Service
          \<and> is_ok (negotiateProtocol offer (host_policy opts))
          \<and> list_all (wrong_attempt (wo_credential opts)) wrong \<and> length wrong < failure_limit opts))
   \<and> (supervisor_reply opts calls Service = Some ServiceGranted \<longleftrightarrow>
     failure_limit opts \<in> {1..16} \<and> isInteger (orElse (wo_maxAuthenticationFailures opts) (NumInt 3))
     \<and> length (wo_credential opts) = 32
     \<and> (\<exists>offer wrong sid k.
          calls = Negotiate (Inr offer) # wrong @ Authenticate (WBytes (wo_credential opts)) sid # replicate k Service
          \<and> is_ok (negotiateProtocol offer (supervisor_policy opts))
          \<and> list_all (wrong_attempt (wo_credential opts)) wrong \<and> length wrong < failure_limit opts))"
  unfolding host_reply_def supervisor_reply_def connection_reply_service saw_handshake_iff by simp

end
