(* ===== verification/Agent_Personalize.thy ===== *)
theory Agent_Personalize
  imports Wire_Bootstrap
begin

text \<open>
  \<^verbatim>\<open>src/agent/personalize.ts\<close>: the identity of a restored guest, injected once after its restore, and the bootstrap of
  the agent's connections in \<open>createAgentWireConnection\<close> of \<^verbatim>\<open>src/agent/service.ts\<close>, which all share it.

  \<open>personalize\<close> is cut at its awaits: \<open>personalize_begin\<close> runs up to the first command, \<open>personalize_end\<close> after
  the last; calls of other connections may come in between. The commands and the file write answer as the parameter \<open>exec\<close>
  says, \<open>None\<close> for success and \<open>Some\<close> message for an error.
\<close>

subsection \<open>The controller\<close>

datatype personalization_state = Pending | Personalized

record personalize_input =
  pi_credential :: bytes
  pi_bootNonce :: bytes
  pi_sandboxId :: string
  pi_guestCidr :: string
  pi_gateway :: string
  pi_dns :: string
  pi_iface :: string

datatype personalization_error = AlreadyPersonalized | InvalidRequest string | NetworkApplyFailed string

record personalization_controller =
  pc_state :: personalization_state
  pc_claimed :: bool
  pc_credential :: "bytes option"
  pc_expectedSandboxId :: "string option"
  pc_expectedBootNonce :: "bytes option"
  pc_deps :: bool
  pc_resolvConfPath :: string

definition MIN_CREDENTIAL_BYTES :: nat where "MIN_CREDENTIAL_BYTES = 16"

definition MAX_CREDENTIAL_BYTES :: nat where "MAX_CREDENTIAL_BYTES = 512"

definition DEFAULT_RESOLV_CONF_PATH :: string where "DEFAULT_RESOLV_CONF_PATH = ''/etc/resolv.conf''"

definition pending :: "string option \<Rightarrow> personalization_controller" where
  "pending resolvConfPath = \<lparr>pc_state = Pending, pc_claimed = False, pc_credential = None, pc_expectedSandboxId = None,
     pc_expectedBootNonce = None, pc_deps = True, pc_resolvConfPath = orElse resolvConfPath DEFAULT_RESOLV_CONF_PATH\<rparr>"

definition personalized :: "bytes option \<Rightarrow> string option \<Rightarrow> bytes option \<Rightarrow> personalization_controller" where
  "personalized credential expectedSandboxId expectedBootNonce = \<lparr>pc_state = Personalized, pc_claimed = False,
     pc_credential = credential, pc_expectedSandboxId = expectedSandboxId, pc_expectedBootNonce = expectedBootNonce,
     pc_deps = False, pc_resolvConfPath = DEFAULT_RESOLV_CONF_PATH\<rparr>"

definition validateInput :: "personalize_input \<Rightarrow> personalization_error + unit" where
  "validateInput i =
     (if length (pi_credential i) < MIN_CREDENTIAL_BYTES \<or> MAX_CREDENTIAL_BYTES < length (pi_credential i)
      then Inl (InvalidRequest ''credential must decode to 16..512 bytes'')
      else if length (pi_bootNonce i) = 0 then Inl (InvalidRequest ''bootNonce must be non-empty'')
      else if pi_sandboxId i = [] then Inl (InvalidRequest ''sandboxId must be non-empty'')
      else if pi_guestCidr i \<noteq> [] \<and> pi_iface i = [] then Inl (InvalidRequest ''a networked personalize requires network.iface'')
      else Inr ())"

datatype nic_action = RunCommand "string list" | WriteFile string string

definition nic_actions :: "string \<Rightarrow> personalize_input \<Rightarrow> nic_action list" where
  "nic_actions resolvConfPath i =
     [RunCommand [''ip'', ''addr'', ''flush'', ''dev'', pi_iface i],
      RunCommand [''ip'', ''addr'', ''add'', pi_guestCidr i, ''dev'', pi_iface i],
      RunCommand [''ip'', ''link'', ''set'', pi_iface i, ''up'']]
     @ (if pi_gateway i \<noteq> [] then [RunCommand [''ip'', ''route'', ''replace'', ''default'', ''via'', pi_gateway i]] else [])
     @ (if pi_dns i \<noteq> [] then [WriteFile resolvConfPath (''nameserver '' @ pi_dns i @ [CHR 0x0A])] else [])"

text \<open>One action after the other, up to the first that throws: what was done, and the error.\<close>

fun run_actions :: "(nic_action \<Rightarrow> string option) \<Rightarrow> nic_action list \<Rightarrow> nic_action list \<times> string option" where
  "run_actions exec [] = ([], None)"
| "run_actions exec (a # as) = (case exec a of
      Some message \<Rightarrow> ([a], Some message)
    | None \<Rightarrow> (let r = run_actions exec as in (a # fst r, snd r)))"

definition applyNetwork ::
    "personalization_controller \<Rightarrow> (nic_action \<Rightarrow> string option) \<Rightarrow> personalize_input
       \<Rightarrow> nic_action list \<times> (personalization_error + string)" where
  "applyNetwork c exec i =
     (if pi_guestCidr i = [] then ([], Inr [])
      else if \<not> pc_deps c
      then ([], Inl (NetworkApplyFailed ''personalization controller has no command runner (not template mode)''))
      else (case run_actions exec (nic_actions (pc_resolvConfPath c) i) of
          (done, Some message) \<Rightarrow> (done, Inl (NetworkApplyFailed (''failed to apply guest network: '' @ message)))
        | (done, None) \<Rightarrow> (done, Inr (pi_guestCidr i))))"

definition personalize_begin ::
    "personalize_input \<Rightarrow> personalization_controller \<Rightarrow> personalization_error + personalization_controller" where
  "personalize_begin i c =
     (if pc_state c \<noteq> Pending \<or> pc_claimed c then Inl AlreadyPersonalized
      else bindE (validateInput i) (\<lambda>_. Inr (c\<lparr>pc_claimed := True\<rparr>)))"

definition personalize_end ::
    "(nic_action \<Rightarrow> string option) \<Rightarrow> personalize_input \<Rightarrow> personalization_controller
       \<Rightarrow> personalization_controller \<times> (personalization_error + string)" where
  "personalize_end exec i c = (case snd (applyNetwork c exec i) of
      Inl e \<Rightarrow> (c\<lparr>pc_claimed := False\<rparr>, Inl e)
    | Inr appliedCidr \<Rightarrow>
        (c\<lparr>pc_credential := Some (pi_credential i), pc_expectedBootNonce := Some (pi_bootNonce i), pc_state := Personalized\<rparr>,
         Inr appliedCidr))"

subsection \<open>The connections\<close>

record auth_params =
  au_credential :: bytes
  au_sandboxId :: string
  au_bootNonce :: bytes

text \<open>\<open>textEncoder.encode\<close>\<close>

definition encoded :: "string \<Rightarrow> bytes" where
  "encoded s = map word_of_nat (utf8_encode (latin1 s))"

definition credentialAccepted :: "personalization_controller \<Rightarrow> auth_params \<Rightarrow> bool" where
  "credentialAccepted c p = (case pc_credential c of
      None \<Rightarrow> False
    | Some expected \<Rightarrow>
        (if length expected = 0 then False
         else (let a0 = timingSafeEqual (au_credential p) expected;
                   a1 = (case pc_expectedSandboxId c of None \<Rightarrow> a0
                         | Some s \<Rightarrow> timingSafeEqual (encoded (au_sandboxId p)) (encoded s) \<and> a0)
               in case pc_expectedBootNonce c of None \<Rightarrow> a1
                  | Some n \<Rightarrow> timingSafeEqual (au_bootNonce p) n \<and> a1)))"

datatype agent_error = AgentState string | GateFault gate_error

definition agent_authenticate ::
    "personalization_controller \<Rightarrow> auth_params \<Rightarrow> bootstrap_gate \<Rightarrow> bootstrap_gate \<times> (sbx_error + unit)" where
  "agent_authenticate c p g =
     (if pc_state c = Pending
      then (g, Inl (wireError E_failedPrecondition ''sandbox not yet personalized'' False))
      else (case recordAuthentication (credentialAccepted c p) g of
          (g', Inr _) \<Rightarrow> (g', Inr ())
        | (g', Inl (AuthenticationRejectedError closed)) \<Rightarrow>
            (g', Inl (wireError E_unauthenticated
              (if closed then ''authentication rejected; attempt limit reached'' else ''authentication rejected'') False))
        | (g', Inl (BootstrapStateError m)) \<Rightarrow> (g', Inl (wireError E_failedPrecondition m False))
        | (g', Inl (BootstrapRejectedError e)) \<Rightarrow> (g', Inl e)))"

definition agent_service :: "personalization_controller \<Rightarrow> bootstrap_gate \<Rightarrow> bootstrap_gate \<times> (agent_error + unit)" where
  "agent_service c g =
     (if pc_state c = Pending then (g, Inl (AgentState ''sandbox not yet personalized''))
      else (case assertAuthorized g of (g', Inr _) \<Rightarrow> (g', Inr ()) | (g', Inl e) \<Rightarrow> (g', Inl (GateFault e))))"

text \<open>
  The process: the shared controller, the gate of every connection, the personalizations between their two halves. Two
  histories are kept for the statements: the inputs that were applied and the parameters with which connections authenticated.
\<close>

record agent_plane =
  ap_controller :: personalization_controller
  ap_gates :: "(nat, bootstrap_gate) jsmap"
  ap_calls :: "(nat \<times> personalize_input) list"
  ap_applied :: "personalize_input list"
  ap_sessions :: "(nat \<times> auth_params) list"

datatype agent_event =
    AgConnect nat
  | AgNegotiate nat protocol_offer
  | AgAuthenticate nat auth_params
  | AgAgent nat
  | AgPersonalize nat personalize_input
  | AgApplied nat personalize_input "nic_action \<Rightarrow> string option"
  | AgClose nat

definition agent_gate :: bootstrap_gate where
  "agent_gate = \<lparr>gt_phase = PhConnected, gt_contract = None, gt_authenticationFailures = 0, gt_maxAuthenticationFailures = 3\<rparr>"

definition on_gate :: "nat \<Rightarrow> (bootstrap_gate \<Rightarrow> bootstrap_gate) \<Rightarrow> agent_plane \<Rightarrow> agent_plane option" where
  "on_gate n f p = map_option (\<lambda>g. p\<lparr>ap_gates := jm_set n (f g) (ap_gates p)\<rparr>) (jm_get (ap_gates p) n)"

definition authenticate_on :: "nat \<Rightarrow> auth_params \<Rightarrow> agent_plane \<Rightarrow> agent_plane option" where
  "authenticate_on n a p = map_option (\<lambda>g.
       (case agent_authenticate (ap_controller p) a g of
          (g', Inr _) \<Rightarrow> p\<lparr>ap_gates := jm_set n g' (ap_gates p), ap_sessions := (n, a) # ap_sessions p\<rparr>
        | (g', Inl _) \<Rightarrow> p\<lparr>ap_gates := jm_set n g' (ap_gates p)\<rparr>)) (jm_get (ap_gates p) n)"

text \<open>The \<open>personalize\<close> handler: the phase of the connection, then the controller.\<close>

definition personalize_on :: "nat \<Rightarrow> personalize_input \<Rightarrow> agent_plane \<Rightarrow> agent_plane option" where
  "personalize_on n i p = map_option (\<lambda>g.
       (if gt_phase g \<noteq> PhNegotiated then p
        else (case personalize_begin i (ap_controller p) of
            Inl _ \<Rightarrow> p
          | Inr c \<Rightarrow> p\<lparr>ap_controller := c, ap_calls := (n, i) # ap_calls p\<rparr>))) (jm_get (ap_gates p) n)"

definition applied_on :: "nat \<Rightarrow> personalize_input \<Rightarrow> (nic_action \<Rightarrow> string option) \<Rightarrow> agent_plane \<Rightarrow> agent_plane option" where
  "applied_on n i exec p =
     (if (n, i) \<in> set (ap_calls p)
      then (case personalize_end exec i (ap_controller p) of
          (c, Inl _) \<Rightarrow> Some (p\<lparr>ap_controller := c, ap_calls := remove1 (n, i) (ap_calls p)\<rparr>)
        | (c, Inr _) \<Rightarrow> Some (p\<lparr>ap_controller := c, ap_calls := remove1 (n, i) (ap_calls p), ap_applied := i # ap_applied p\<rparr>))
      else None)"

definition agent_next :: "negotiation_policy \<Rightarrow> agent_event \<Rightarrow> agent_plane \<Rightarrow> agent_plane option" where
  "agent_next policy ev p = (case ev of
      AgConnect n \<Rightarrow> (if jm_get (ap_gates p) n = None then Some (p\<lparr>ap_gates := jm_set n agent_gate (ap_gates p)\<rparr>) else None)
    | AgNegotiate n offer \<Rightarrow> on_gate n (\<lambda>g. fst (acceptNegotiation (negotiateProtocol offer policy) g)) p
    | AgAuthenticate n a \<Rightarrow> authenticate_on n a p
    | AgAgent n \<Rightarrow> on_gate n (\<lambda>g. fst (agent_service (ap_controller p) g)) p
    | AgPersonalize n i \<Rightarrow> personalize_on n i p
    | AgApplied n i exec \<Rightarrow> applied_on n i exec p
    | AgClose n \<Rightarrow> on_gate n gate_close p)"

definition AGENT_PLANE_FEATURES :: int where
  "AGENT_PLANE_FEATURES = FEATURE_typedErrors OR FEATURE_boundedStreams"

definition agent_policy :: "wire_options \<Rightarrow> negotiation_policy" where
  "agent_policy opts = \<lparr>np_identity = wo_identity opts,
     np_ceiling = Some (orElse (wo_limitsCeiling opts) DEFAULT_TRANSPORT_LIMITS),
     np_requiredPeerFeatureBits = Some (orElse (wo_requiredPeerFeatureBits opts) AGENT_PLANE_FEATURES),
     np_knownSchemaPairs = None, np_knownRuntimePairs = None\<rparr>"

inductive agent_step :: "negotiation_policy \<Rightarrow> agent_plane \<Rightarrow> agent_event \<Rightarrow> agent_plane \<Rightarrow> bool" for policy where
  agent_step: "agent_next policy ev p = Some p' \<Longrightarrow> agent_step policy p ev p'"

inductive_cases agent_stepE: "agent_step policy p ev p'"

definition template_boot :: "agent_plane \<Rightarrow> bool" where
  "template_boot p = (\<exists>path. p = \<lparr>ap_controller = pending path, ap_gates = [], ap_calls = [], ap_applied = [], ap_sessions = []\<rparr>)"

subsection \<open>One personalization\<close>

definition authenticated_gate :: "agent_plane \<Rightarrow> nat \<Rightarrow> bool" where
  "authenticated_gate p n = (case jm_get (ap_gates p) n of None \<Rightarrow> False | Some g \<Rightarrow> gt_phase g = PhAuthenticated)"

definition bound_to :: "personalize_input \<Rightarrow> auth_params \<Rightarrow> bool" where
  "bound_to i a = (au_credential a = pi_credential i \<and> au_bootNonce a = pi_bootNonce i)"

definition identity_of :: "personalization_controller \<Rightarrow> personalize_input list \<Rightarrow> (nat \<times> auth_params) list \<Rightarrow> bool" where
  "identity_of c applied sessions = (case applied of
      [] \<Rightarrow> pc_state c = Pending \<and> pc_credential c = None \<and> sessions = []
    | [i] \<Rightarrow> pc_state c = Personalized \<and> pc_claimed c \<and> pc_credential c = Some (pi_credential i)
        \<and> pc_expectedBootNonce c = Some (pi_bootNonce i)
        \<and> validateInput i = Inr () \<and> (\<forall>s \<in> set sessions. bound_to i (snd s))
    | _ \<Rightarrow> False)"

definition plane_inv :: "agent_plane \<Rightarrow> bool" where
  "plane_inv p = (identity_of (ap_controller p) (ap_applied p) (ap_sessions p)
     \<and> (ap_calls p = [] \<or> (\<exists>n i. ap_calls p = [(n, i)] \<and> validateInput i = Inr () \<and> ap_applied p = [] \<and> pc_claimed (ap_controller p)))
     \<and> (\<forall>n. authenticated_gate p n \<longrightarrow> n \<in> fst ` set (ap_sessions p)))"

lemma credentialAccepted_bound:
  assumes "identity_of c [i] sessions" "credentialAccepted c a"
  shows "bound_to i a"
  using assms by (auto simp: identity_of_def credentialAccepted_def bound_to_def timingSafeEqual_iff Let_def
      split: option.splits if_splits)

lemma gate_keeps_out:
  "gt_phase (fst (acceptNegotiation r g)) \<noteq> PhAuthenticated"
  "gt_phase (gate_close g) \<noteq> PhAuthenticated"
  "gt_phase (fst (agent_service c g)) = PhAuthenticated \<Longrightarrow> gt_phase g = PhAuthenticated"
  "gt_phase agent_gate \<noteq> PhAuthenticated"
  "agent_authenticate c a g = (g', Inl e) \<Longrightarrow> gt_phase g' = PhAuthenticated \<Longrightarrow> gt_phase g = PhAuthenticated"
  by (auto simp: gate_defs agent_service_def agent_gate_def agent_authenticate_def split: sum.splits if_splits)

lemma agent_authenticate_accepted:
  "agent_authenticate c a g = (g', Inr u) \<Longrightarrow> pc_state c = Personalized \<and> credentialAccepted c a"
  by (cases "pc_state c"; cases "gt_phase g = PhNegotiated"; cases "credentialAccepted c a")
    (simp_all add: agent_authenticate_def recordAuthentication_def requirePhase_def Let_def)

lemma authenticated_upd:
  "authenticated_gate (p\<lparr>ap_gates := jm_set n g gs\<rparr>) m \<longleftrightarrow>
     (if m = n then gt_phase g = PhAuthenticated else authenticated_gate (p\<lparr>ap_gates := gs\<rparr>) m)"
  by (simp add: authenticated_gate_def jm_get_set)

lemma on_gate_inv:
  assumes "plane_inv p" "on_gate n f p = Some p'" "\<And>g. gt_phase (f g) = PhAuthenticated \<Longrightarrow> gt_phase g = PhAuthenticated"
  shows "plane_inv p'"
proof -
  from assms(2) obtain g where g: "jm_get (ap_gates p) n = Some g" "p' = p\<lparr>ap_gates := jm_set n (f g) (ap_gates p)\<rparr>"
    by (auto simp: on_gate_def)
  then have "authenticated_gate p m" if "authenticated_gate p' m" for m
    using that assms(3) by (auto simp: authenticated_gate_def jm_get_set split: if_splits option.splits)
  with assms(1) g(2) show ?thesis by (auto simp: plane_inv_def)
qed

lemma plane_inv_step:
  assumes "plane_inv p" "agent_next policy ev p = Some p'"
  shows "plane_inv p'"
proof (cases ev)
  case (AgConnect n)
  with assms show ?thesis
    by (auto simp: agent_next_def plane_inv_def authenticated_upd gate_keeps_out(4) split: if_splits)
next
  case (AgNegotiate n offer)
  with assms(2) have "on_gate n (\<lambda>g. fst (acceptNegotiation (negotiateProtocol offer policy) g)) p = Some p'"
    by (simp add: agent_next_def)
  from on_gate_inv [OF assms(1) this] show ?thesis using gate_keeps_out(1) by blast
next
  case (AgAgent n)
  with assms(2) have "on_gate n (\<lambda>g. fst (agent_service (ap_controller p) g)) p = Some p'" by (simp add: agent_next_def)
  from on_gate_inv [OF assms(1) this] show ?thesis using gate_keeps_out(3) by blast
next
  case (AgClose n)
  with assms(2) have "on_gate n gate_close p = Some p'" by (simp add: agent_next_def)
  from on_gate_inv [OF assms(1) this] show ?thesis using gate_keeps_out(2) by blast
next
  case (AgAuthenticate n a)
  with assms(2) obtain g where g: "jm_get (ap_gates p) n = Some g" and p': "authenticate_on n a p = Some p'"
    by (auto simp: agent_next_def authenticate_on_def)
  obtain g' r where r: "agent_authenticate (ap_controller p) a g = (g', r)" by fastforce
  show ?thesis
  proof (cases r)
    case (Inl e)
    with p' g r have "p' = p\<lparr>ap_gates := jm_set n g' (ap_gates p)\<rparr>" by (simp add: authenticate_on_def)
    then have "on_gate n (\<lambda>_. g') p = Some p'" by (simp add: on_gate_def g)
    moreover have "authenticated_gate p m" if "authenticated_gate p' m" for m
      using that g \<open>p' = _\<close> gate_keeps_out(5) [OF r [unfolded Inl]]
      by (auto simp: authenticated_gate_def jm_get_set split: if_splits option.splits)
    ultimately show ?thesis using assms(1) \<open>p' = _\<close> by (auto simp: plane_inv_def)
  next
    case (Inr u)
    note acc = agent_authenticate_accepted [OF r [unfolded Inr]]
    have p'': "p' = p\<lparr>ap_gates := jm_set n g' (ap_gates p), ap_sessions := (n, a) # ap_sessions p\<rparr>"
      using p' g r Inr by (simp add: authenticate_on_def)
    from assms(1) have id: "identity_of (ap_controller p) (ap_applied p) (ap_sessions p)" by (simp add: plane_inv_def)
    with acc obtain i where i: "ap_applied p = [i]"
      by (auto simp: identity_of_def split: list.splits)
    have "bound_to i a" using credentialAccepted_bound id acc unfolding i by blast
    with id i have "identity_of (ap_controller p') (ap_applied p') (ap_sessions p')" by (simp add: p'' identity_of_def)
    moreover have "m \<in> fst ` set (ap_sessions p')" if "authenticated_gate p' m" for m
      using that assms(1) by (auto simp: p'' plane_inv_def authenticated_gate_def jm_get_set split: if_splits option.splits)
    ultimately show ?thesis using assms(1) by (auto simp: plane_inv_def p'')
  qed
next
  case (AgPersonalize n i)
  with assms(2) obtain g where g: "jm_get (ap_gates p) n = Some g" and p': "personalize_on n i p = Some p'"
    by (auto simp: agent_next_def personalize_on_def)
  show ?thesis
  proof (cases "p' = p")
    case False
    have eq: "p' = (if gt_phase g \<noteq> PhNegotiated then p
        else (case personalize_begin i (ap_controller p) of
            Inl _ \<Rightarrow> p
          | Inr c \<Rightarrow> p\<lparr>ap_controller := c, ap_calls := (n, i) # ap_calls p\<rparr>))"
      using p' unfolding personalize_on_def g by simp
    obtain c where c: "personalize_begin i (ap_controller p) = Inr c"
      "p' = p\<lparr>ap_controller := c, ap_calls := (n, i) # ap_calls p\<rparr>"
      using eq False by (cases "gt_phase g = PhNegotiated"; cases "personalize_begin i (ap_controller p)") simp_all
    then have st: "pc_state (ap_controller p) = Pending" "\<not> pc_claimed (ap_controller p)" "validateInput i = Inr ()"
      "c = ap_controller p\<lparr>pc_claimed := True\<rparr>"
      by (auto simp: personalize_begin_def err_simps split: if_splits)
    have "ap_applied p = []" using assms(1) st(1) by (auto simp: plane_inv_def identity_of_def split: list.splits)
    with st c(2) assms(1) show ?thesis by (auto simp: plane_inv_def identity_of_def authenticated_gate_def)
  qed (use assms(1) in simp)
next
  case (AgApplied n i exec)
  with assms(2) have mem: "(n, i) \<in> set (ap_calls p)" and p': "applied_on n i exec p = Some p'"
    by (auto simp: agent_next_def applied_on_def split: if_splits)
  with assms(1) have one: "ap_calls p = [(n, i)]" "ap_applied p = []" "validateInput i = Inr ()" "pc_claimed (ap_controller p)"
    by (auto simp: plane_inv_def)
  then have id: "pc_state (ap_controller p) = Pending" "pc_credential (ap_controller p) = None" "ap_sessions p = []"
    using assms(1) by (auto simp: plane_inv_def identity_of_def)
  have auth: "\<not> authenticated_gate p m" for m using assms(1) id(3) by (auto simp: plane_inv_def)
  show ?thesis
    using p' one id auth by (auto simp: applied_on_def personalize_end_def plane_inv_def identity_of_def authenticated_gate_def
        split: sum.splits)
qed

interpretation agent_system: step_system template_boot "agent_step policy" plane_inv
proof
  fix p :: agent_plane
  show "template_boot p \<Longrightarrow> plane_inv p"
    by (auto simp: template_boot_def plane_inv_def identity_of_def pending_def authenticated_gate_def)
next
  fix p ev p'
  assume "plane_inv p" "agent_step policy p ev p'"
  then show "plane_inv p'" by (auto elim: agent_stepE intro: plane_inv_step)
qed

text \<open>A personalization that failed leaves no identity behind, and the next one is accepted.\<close>

lemma failed_personalize_can_be_retried:
  assumes "pc_state c = Pending" "personalize_end exec i c = (c', Inl e)" "validateInput j = Inr ()"
  shows "pc_credential c' = pc_credential c \<and> personalize_begin j c' = Inr (c'\<lparr>pc_claimed := True\<rparr>)"
  using assms by (auto simp: personalize_end_def personalize_begin_def split: sum.splits)

text \<open>On the cold path nothing can be personalized.\<close>

lemma cold_controller_rejects: "personalize_begin i (personalized cred sid nonce) = Inl AlreadyPersonalized"
  by (simp add: personalize_begin_def personalized_def)

text \<open>A run: template boot, a negotiated connection that personalizes, and a second one that authenticates.\<close>

fun agent_run :: "negotiation_policy \<Rightarrow> agent_event list \<Rightarrow> agent_plane \<Rightarrow> agent_plane option" where
  "agent_run policy [] p = Some p"
| "agent_run policy (ev # evs) p = (case agent_next policy ev p of None \<Rightarrow> None | Some p' \<Rightarrow> agent_run policy evs p')"

lemma agent_run_reachable:
  "reachable template_boot (agent_step policy) p \<Longrightarrow> agent_run policy evs p = Some p' \<Longrightarrow> reachable template_boot (agent_step policy) p'"
  by (induction evs arbitrary: p) (auto intro: reach_step agent_step split: option.splits)

definition example_personalize :: personalize_input where
  "example_personalize = \<lparr>pi_credential = replicate 32 9, pi_bootNonce = [1, 2], pi_sandboxId = ''sbx'', pi_guestCidr = ''10.201.0.2/30'',
     pi_gateway = ''10.201.0.1'', pi_dns = [], pi_iface = ''eth0''\<rparr>"

definition example_agent_run :: "agent_plane option" where
  "example_agent_run = agent_run example_policy
     [AgConnect 0, AgNegotiate 0 example_offer, AgPersonalize 0 example_personalize, AgApplied 0 example_personalize (\<lambda>_. None),
      AgConnect 1, AgNegotiate 1 example_offer,
      AgAuthenticate 1 \<lparr>au_credential = replicate 32 9, au_sandboxId = ''any'', au_bootNonce = [1, 2]\<rparr>]
     \<lparr>ap_controller = pending None, ap_gates = [], ap_calls = [], ap_applied = [], ap_sessions = []\<rparr>"

lemma example_agent_authenticates: "\<exists>p. example_agent_run = Some p \<and> authenticated_gate p 1 \<and> ap_applied p = [example_personalize]"
proof -
  have v: "validateInput example_personalize = Inr ()"
    by (simp add: validateInput_def example_personalize_def MIN_CREDENTIAL_BYTES_def MAX_CREDENTIAL_BYTES_def)
  show ?thesis
    unfolding example_agent_run_def
    by (simp add: agent_next_def on_gate_def jm_get_def example_negotiates acceptNegotiation_def requirePhase_def agent_gate_def
        personalize_on_def personalize_begin_def v pending_def applied_on_def personalize_end_def applyNetwork_def
        authenticate_on_def agent_authenticate_def recordAuthentication_def credentialAccepted_def timingSafeEqual_iff
        nic_actions_def authenticated_gate_def Let_def)
      (simp add: example_personalize_def Let_def)
qed

text \<open>
  C15. However the calls of any number of connections interleave, also between the two halves of a personalization, a guest
  booted in template mode takes on at most one identity. Before that no connection is authenticated, and no credential
  exists. After it the credential and the boot nonce are those of the one valid input that was applied, no other
  personalization is under way, and every connection that is authenticated presented exactly them.
\<close>

theorem guest_is_personalized_once:
  assumes "reachable template_boot (agent_step policy) p"
  shows "length (ap_applied p) \<le> 1 \<and> length (ap_calls p) \<le> 1
    \<and> (ap_applied p = [] \<longrightarrow> pc_credential (ap_controller p) = None \<and> (\<forall>n. \<not> authenticated_gate p n))
    \<and> (\<forall>i \<in> set (ap_applied p).
         validateInput i = Inr () \<and> pc_credential (ap_controller p) = Some (pi_credential i)
         \<and> pc_expectedBootNonce (ap_controller p) = Some (pi_bootNonce i) \<and> ap_calls p = []
         \<and> (\<forall>j. personalize_begin j (ap_controller p) = Inl AlreadyPersonalized)
         \<and> (\<forall>n. authenticated_gate p n \<longrightarrow>
              (\<exists>a. (n, a) \<in> set (ap_sessions p) \<and> au_credential a = pi_credential i \<and> au_bootNonce a = pi_bootNonce i)))"
proof -
  from assms have inv: "plane_inv p" by (rule agent_system.reachable_inv)
  then consider "ap_applied p = []" | i where "ap_applied p = [i]"
    by (auto simp: plane_inv_def identity_of_def split: list.splits)
  then show ?thesis
  proof cases
    case 1
    with inv show ?thesis by (auto simp: plane_inv_def identity_of_def)
  next
    case (2 i)
    from inv have calls: "ap_calls p = []" and id: "identity_of (ap_controller p) [i] (ap_sessions p)"
      and auth: "\<And>n. authenticated_gate p n \<Longrightarrow> n \<in> fst ` set (ap_sessions p)"
      by (auto simp: plane_inv_def 2)
    have "\<exists>a. (n, a) \<in> set (ap_sessions p) \<and> au_credential a = pi_credential i \<and> au_bootNonce a = pi_bootNonce i"
      if "authenticated_gate p n" for n
      using auth [OF that] id by (fastforce simp: identity_of_def bound_to_def)
    with calls id 2 show ?thesis by (simp add: identity_of_def personalize_begin_def)
  qed
qed

theorem guest_is_personalized_once_witness:
  "\<exists>p. example_agent_run = Some p \<and> authenticated_gate p 1 \<and> pc_credential (ap_controller p) = Some (replicate 32 9)"
proof -
  obtain p where p: "example_agent_run = Some p" "authenticated_gate p 1" "ap_applied p = [example_personalize]"
    using example_agent_authenticates by blast
  have "reachable template_boot (agent_step example_policy) p"
  proof (rule agent_run_reachable)
    show "agent_run example_policy
       [AgConnect 0, AgNegotiate 0 example_offer, AgPersonalize 0 example_personalize, AgApplied 0 example_personalize (\<lambda>_. None),
        AgConnect 1, AgNegotiate 1 example_offer,
        AgAuthenticate 1 \<lparr>au_credential = replicate 32 9, au_sandboxId = ''any'', au_bootNonce = [1, 2]\<rparr>]
       \<lparr>ap_controller = pending None, ap_gates = [], ap_calls = [], ap_applied = [], ap_sessions = []\<rparr> = Some p"
      using p(1) by (simp only: example_agent_run_def)
  qed (rule reach_init, auto simp: template_boot_def)
  from guest_is_personalized_once [OF this] p(3) have "pc_credential (ap_controller p) = Some (pi_credential example_personalize)" by simp
  with p(1,2) show ?thesis by (auto simp: example_personalize_def)
qed

end
