(* ===== verification/Prefaces.thy ===== *)
theory Prefaces
  imports Complex_Main Js_Text
begin

text \<open>
  \<^verbatim>\<open>src/transports/bridge_preface.ts\<close> and \<^verbatim>\<open>src/transports/tunnel_preface.ts\<close>: the fixed frames that
  authorize a byte stream, and the reader that takes exactly one frame off a stream that arrives in pieces.

  The two modules differ in their magic bytes and statuses only. A status is its number; encoding and decoding check it
  against the values of the enumeration. \<open>read_frame\<close> is driven by what happens to the reader: a read that delivers a
  number of bytes, the end of the stream, a read that throws, the deadline or a cancellation.
\<close>

subsection \<open>Frames\<close>

datatype bridge_status = BrOk | BrAuthenticationFailed | BrDialFailed | BrProtocolError | BrInternalError

fun bridge_status_number :: "bridge_status \<Rightarrow> nat" where
  "bridge_status_number BrOk = 0"
| "bridge_status_number BrAuthenticationFailed = 1"
| "bridge_status_number BrDialFailed = 2"
| "bridge_status_number BrProtocolError = 3"
| "bridge_status_number BrInternalError = 255"

datatype tunnel_status = TuOk | TuAuthenticationFailed | TuSupervisorUnavailable | TuDialFailed | TuProtocolError
  | TuCapacityExceeded | TuInternalError

fun tunnel_status_number :: "tunnel_status \<Rightarrow> nat" where
  "tunnel_status_number TuOk = 0"
| "tunnel_status_number TuAuthenticationFailed = 1"
| "tunnel_status_number TuSupervisorUnavailable = 2"
| "tunnel_status_number TuDialFailed = 3"
| "tunnel_status_number TuProtocolError = 4"
| "tunnel_status_number TuCapacityExceeded = 5"
| "tunnel_status_number TuInternalError = 255"

definition BRIDGE_KNOWN :: "nat list" where
  "BRIDGE_KNOWN = map bridge_status_number [BrOk, BrAuthenticationFailed, BrDialFailed, BrProtocolError, BrInternalError]"

definition TUNNEL_KNOWN :: "nat list" where
  "TUNNEL_KNOWN = map tunnel_status_number [TuOk, TuAuthenticationFailed, TuSupervisorUnavailable, TuDialFailed,
     TuProtocolError, TuCapacityExceeded, TuInternalError]"

definition ascii :: "string \<Rightarrow> bytes" where
  "ascii s = map (\<lambda>c. word_of_nat (code c)) s"

definition BRIDGE_REQUEST_MAGIC :: bytes where "BRIDGE_REQUEST_MAGIC = ascii ''SBXBRG1'' @ [0]"

definition BRIDGE_RESPONSE_MAGIC :: bytes where "BRIDGE_RESPONSE_MAGIC = ascii ''SBXBRA1'' @ [0]"

definition TUNNEL_REQUEST_MAGIC :: bytes where "TUNNEL_REQUEST_MAGIC = ascii ''SBXTUN1'' @ [0]"

definition TUNNEL_RESPONSE_MAGIC :: bytes where "TUNNEL_RESPONSE_MAGIC = ascii ''SBXACK1'' @ [0]"

datatype preface_error = PrefaceRangeError string | PrefaceError string | PrefaceAborted string

text \<open>\<open>setUint16\<close> and \<open>getUint16\<close>, the high byte first.\<close>

definition uint16 :: "nat \<Rightarrow> bytes" where
  "uint16 n = [word_of_nat (n div 256), word_of_nat n]"

definition getUint16 :: "bytes \<Rightarrow> nat \<Rightarrow> nat" where
  "getUint16 bs pos = unat (bs ! pos) * 256 + unat (bs ! (pos + 1))"

fun bytes_difference :: "bytes \<Rightarrow> bytes \<Rightarrow> byte \<Rightarrow> byte" where
  "bytes_difference (x # xs) (y # ys) difference = bytes_difference xs ys (or difference (xor x y))"
| "bytes_difference _ _ difference = difference"

definition equalBytes :: "bytes \<Rightarrow> bytes \<Rightarrow> bool" where
  "equalBytes left right = (if length left \<noteq> length right then False else bytes_difference left right 0 = 0)"

definition encode_request :: "bytes \<Rightarrow> string \<Rightarrow> bytes \<Rightarrow> preface_error + bytes" where
  "encode_request magic what secret =
     (if length secret \<noteq> 32 then Inl (PrefaceRangeError (what @ '' must be exactly 32 bytes''))
      else Inr (magic @ uint16 1 @ uint16 0 @ secret))"

definition decode_request :: "bytes \<Rightarrow> string \<Rightarrow> bytes \<Rightarrow> preface_error + bytes" where
  "decode_request magic what input =
     (if length input \<noteq> 44 then Inl (PrefaceError (what @ '' request must be exactly 44 bytes''))
      else if \<not> equalBytes (take 8 input) magic then Inl (PrefaceError (''invalid '' @ what @ '' request magic''))
      else if getUint16 input 8 \<noteq> 1
      then Inl (PrefaceError (''unsupported '' @ what @ '' protocol version '' @ dec (getUint16 input 8)))
      else if getUint16 input 10 \<noteq> 0 then Inl (PrefaceError (what @ '' request flags must be zero''))
      else Inr (drop 12 input))"

definition encode_response :: "bytes \<Rightarrow> nat list \<Rightarrow> string \<Rightarrow> nat \<Rightarrow> preface_error + bytes" where
  "encode_response magic known what status =
     (if status \<notin> set known then Inl (PrefaceRangeError (''unknown '' @ what @ '' status '' @ dec status))
      else Inr (magic @ uint16 status @ [0, 0]))"

definition decode_response :: "bytes \<Rightarrow> nat list \<Rightarrow> string \<Rightarrow> bytes \<Rightarrow> preface_error + nat" where
  "decode_response magic known what input =
     (if length input \<noteq> 12 then Inl (PrefaceError (what @ '' response must be exactly 12 bytes''))
      else if \<not> equalBytes (take 8 input) magic then Inl (PrefaceError (''invalid '' @ what @ '' response magic''))
      else if getUint16 input 10 \<noteq> 0 then Inl (PrefaceError (what @ '' response reserved bytes must be zero''))
      else if getUint16 input 8 \<notin> set known
      then Inl (PrefaceError (''unknown '' @ what @ '' status '' @ dec (getUint16 input 8)))
      else Inr (getUint16 input 8))"

definition encodeBridgeRequest :: "bytes \<Rightarrow> preface_error + bytes" where
  "encodeBridgeRequest = encode_request BRIDGE_REQUEST_MAGIC ''bridge credential''"

definition decodeBridgeRequest :: "bytes \<Rightarrow> preface_error + bytes" where
  "decodeBridgeRequest = decode_request BRIDGE_REQUEST_MAGIC ''bridge''"

definition encodeBridgeResponse :: "nat \<Rightarrow> preface_error + bytes" where
  "encodeBridgeResponse = encode_response BRIDGE_RESPONSE_MAGIC BRIDGE_KNOWN ''bridge''"

definition decodeBridgeResponse :: "bytes \<Rightarrow> preface_error + nat" where
  "decodeBridgeResponse = decode_response BRIDGE_RESPONSE_MAGIC BRIDGE_KNOWN ''bridge''"

definition encodeTunnelRequest :: "bytes \<Rightarrow> preface_error + bytes" where
  "encodeTunnelRequest = encode_request TUNNEL_REQUEST_MAGIC ''tunnel ticket''"

definition decodeTunnelRequest :: "bytes \<Rightarrow> preface_error + bytes" where
  "decodeTunnelRequest = decode_request TUNNEL_REQUEST_MAGIC ''tunnel''"

definition encodeTunnelResponse :: "nat \<Rightarrow> preface_error + bytes" where
  "encodeTunnelResponse = encode_response TUNNEL_RESPONSE_MAGIC TUNNEL_KNOWN ''tunnel''"

definition decodeTunnelResponse :: "bytes \<Rightarrow> preface_error + nat" where
  "decodeTunnelResponse = decode_response TUNNEL_RESPONSE_MAGIC TUNNEL_KNOWN ''tunnel''"

subsection \<open>Reading a frame\<close>

datatype reader_event =
    Delivered js_number
  | EndOfStream
  | ReadFails string
  | DeadlineExceeded
  | Cancelled string

text \<open>
  The connection while a frame is read: the bytes not yet taken off it, the bytes read so far, whether the reader was
  closed, and the outcome once there is one.
\<close>

record frame_read =
  fr_stream :: bytes
  fr_output :: bytes
  fr_closed :: bool
  fr_result :: "(preface_error + bytes) option"

definition read_event :: "nat \<Rightarrow> string \<Rightarrow> reader_event \<Rightarrow> frame_read \<Rightarrow> frame_read" where
  "read_event n label ev r = (case fr_result r of Some _ \<Rightarrow> r | None \<Rightarrow> (case ev of
      EndOfStream \<Rightarrow> r\<lparr>fr_result := Some (Inl (PrefaceError (label @ '' ended before '' @ dec n @ '' bytes'')))\<rparr>
    | ReadFails message \<Rightarrow> r\<lparr>fr_result := Some (Inl (PrefaceAborted message))\<rparr>
    | DeadlineExceeded \<Rightarrow> r\<lparr>fr_closed := True, fr_result := Some (Inl (PrefaceError (label @ '' deadline exceeded'')))\<rparr>
    | Cancelled reason \<Rightarrow> r\<lparr>fr_closed := True, fr_result := Some (Inl (PrefaceAborted reason))\<rparr>
    | Delivered m \<Rightarrow>
        (if \<not> isSafeInteger m \<or> int_of m \<le> 0 \<or> int (n - length (fr_output r)) < int_of m
         then r\<lparr>fr_result := Some (Inl (PrefaceError (label @ '' reader returned an invalid byte count'')))\<rparr>
         else (let k = nat (int_of m); output = fr_output r @ take k (fr_stream r)
               in r\<lparr>fr_output := output, fr_stream := drop k (fr_stream r),
                    fr_result := (if length output < n then None else Some (Inr output))\<rparr>))))"

text \<open>A deadline is a finite number of milliseconds or not finite.\<close>

datatype preface_timeout = FiniteMs rat | NotFinite

definition readExactly ::
    "nat \<Rightarrow> string \<Rightarrow> preface_timeout \<Rightarrow> bool \<Rightarrow> reader_event list \<Rightarrow> bytes \<Rightarrow> frame_read" where
  "readExactly n label timeoutMs alreadyAborted events stream =
     (let r = \<lparr>fr_stream = stream, fr_output = [], fr_closed = False, fr_result = None\<rparr>
      in if (case timeoutMs of FiniteMs t \<Rightarrow> t \<le> 0 | NotFinite \<Rightarrow> True)
         then r\<lparr>fr_result := Some (Inl (PrefaceRangeError ''preface timeout must be positive''))\<rparr>
         else fold (read_event n label) ((if alreadyAborted then [Cancelled ''AbortError''] else []) @ events) r)"

definition decoded_read :: "(bytes \<Rightarrow> preface_error + 'a) \<Rightarrow> frame_read \<Rightarrow> (preface_error + 'a) option" where
  "decoded_read decode r = map_option (\<lambda>b. bindE b decode) (fr_result r)"

definition readBridgeRequest :: "preface_timeout option \<Rightarrow> bool \<Rightarrow> reader_event list \<Rightarrow> bytes \<Rightarrow> frame_read \<times> (preface_error + bytes) option" where
  "readBridgeRequest timeoutMs aborted events stream =
     (let r = readExactly 44 ''bridge request'' (orElse timeoutMs (FiniteMs 5000)) aborted events stream
      in (r, decoded_read decodeBridgeRequest r))"

definition readBridgeResponse :: "preface_timeout option \<Rightarrow> bool \<Rightarrow> reader_event list \<Rightarrow> bytes \<Rightarrow> frame_read \<times> (preface_error + nat) option" where
  "readBridgeResponse timeoutMs aborted events stream =
     (let r = readExactly 12 ''bridge response'' (orElse timeoutMs (FiniteMs 8000)) aborted events stream
      in (r, decoded_read decodeBridgeResponse r))"

definition readTunnelRequest :: "preface_timeout option \<Rightarrow> bool \<Rightarrow> reader_event list \<Rightarrow> bytes \<Rightarrow> frame_read \<times> (preface_error + bytes) option" where
  "readTunnelRequest timeoutMs aborted events stream =
     (let r = readExactly 44 ''tunnel request'' (orElse timeoutMs (FiniteMs 5000)) aborted events stream
      in (r, decoded_read decodeTunnelRequest r))"

definition readTunnelResponse :: "preface_timeout option \<Rightarrow> bool \<Rightarrow> reader_event list \<Rightarrow> bytes \<Rightarrow> frame_read \<times> (preface_error + nat) option" where
  "readTunnelResponse timeoutMs aborted events stream =
     (let r = readExactly 12 ''tunnel response'' (orElse timeoutMs (FiniteMs 12000)) aborted events stream
      in (r, decoded_read decodeTunnelResponse r))"

subsection \<open>The codecs are inverse\<close>

lemma bytes_difference_zero: "length l = length r \<Longrightarrow> bytes_difference l r d = 0 \<longleftrightarrow> d = 0 \<and> l = r"
proof (induction l r d rule: bytes_difference.induct)
  case (1 x xs y ys d)
  have "xor x y = 0 \<longleftrightarrow> x = y" by (metis xor.left_commute xor.right_neutral xor_self_eq)
  with 1 show ?case by (auto simp: or_eq_0_iff)
qed auto

lemma equalBytes_iff [simp]: "equalBytes l r \<longleftrightarrow> l = r"
  by (auto simp: equalBytes_def bytes_difference_zero)

lemma uint16_at: "length p = pos \<Longrightarrow> n < 65536 \<Longrightarrow> getUint16 (p @ uint16 n @ q) pos = n"
  by (auto simp: getUint16_def uint16_def nth_append unat_of_nat take_bit_nat_def)

lemma uint16_of_get:
  assumes "pos + 1 < length bs"
  shows "uint16 (getUint16 bs pos) = [bs ! pos, bs ! (pos + 1)]"
proof -
  have "(unat (bs ! pos) * 256 + unat (bs ! (pos + 1))) div 256 = unat (bs ! pos)" by simp
  moreover have "word_of_nat (unat (bs ! pos) * 256 + unat (bs ! (pos + 1))) = (bs ! (pos + 1) :: byte)"
  proof -
    have z: "(256 :: byte) = 0" by (rule word_unat_eq_iff [THEN iffD2]) simp
    have "x * 256 = 0" for x :: byte unfolding z by (rule mult_zero_right)
    then show ?thesis by simp
  qed
  ultimately show ?thesis by (simp add: uint16_def getUint16_def)
qed

lemma frame_split:
  assumes "12 \<le> length bs"
  shows "bs = take 8 bs @ uint16 (getUint16 bs 8) @ uint16 (getUint16 bs 10) @ drop 12 bs"
proof -
  have "bs ! 8 # bs ! 9 # bs ! 10 # bs ! 11 # drop 12 bs = drop 8 bs"
    using assms by (simp add: Cons_nth_drop_Suc numeral_eq_Suc)
  then show ?thesis using assms append_take_drop_id [of 8 bs] by (simp add: uint16_of_get)
qed

locale preface_codec =
  fixes magic :: bytes and known :: "nat list" and what secret_name :: string
  assumes magic_length: "length magic = 8"
    and known_range: "s \<in> set known \<Longrightarrow> s < 65536"
begin

lemma request_roundtrip: "encode_request magic secret_name secret = Inr bs \<longleftrightarrow> decode_request magic what bs = Inr secret"
proof
  assume "encode_request magic secret_name secret = Inr bs"
  then have "length secret = 32" "bs = magic @ uint16 1 @ uint16 0 @ secret" by (auto simp: encode_request_def split: if_splits)
  then show "decode_request magic what bs = Inr secret"
    using magic_length uint16_at [of magic 8 1 "uint16 0 @ secret"] uint16_at [of "magic @ uint16 1" 10 0 secret]
    by (simp add: decode_request_def uint16_def)
next
  assume "decode_request magic what bs = Inr secret"
  then have d: "length bs = 44" "take 8 bs = magic" "getUint16 bs 8 = 1" "getUint16 bs 10 = 0" "secret = drop 12 bs"
    by (auto simp: decode_request_def split: if_splits)
  then show "encode_request magic secret_name secret = Inr bs"
    using frame_split [of bs] by (simp add: encode_request_def)
qed

lemma response_roundtrip: "encode_response magic known what s = Inr bs \<longleftrightarrow> decode_response magic known what bs = Inr s"
proof
  assume "encode_response magic known what s = Inr bs"
  then have s: "s \<in> set known" "bs = magic @ uint16 s @ uint16 0" by (auto simp: encode_response_def uint16_def split: if_splits)
  then show "decode_response magic known what bs = Inr s"
    using magic_length known_range [OF s(1)] uint16_at [of magic 8 s "uint16 0"] uint16_at [of "magic @ uint16 s" 10 0 "[]"]
    by (simp add: decode_response_def uint16_def)
next
  assume "decode_response magic known what bs = Inr s"
  then have d: "length bs = 12" "take 8 bs = magic" "getUint16 bs 10 = 0" "s = getUint16 bs 8" "s \<in> set known"
    by (auto simp: decode_response_def split: if_splits)
  then show "encode_response magic known what s = Inr bs"
    using frame_split [of bs] by (simp add: encode_response_def uint16_def)
qed

end

interpretation bridge_request: preface_codec BRIDGE_REQUEST_MAGIC BRIDGE_KNOWN "''bridge''" "''bridge credential''"
  by unfold_locales (auto simp: BRIDGE_REQUEST_MAGIC_def ascii_def BRIDGE_KNOWN_def)

interpretation bridge_response: preface_codec BRIDGE_RESPONSE_MAGIC BRIDGE_KNOWN "''bridge''" "''bridge credential''"
  by unfold_locales (auto simp: BRIDGE_RESPONSE_MAGIC_def ascii_def BRIDGE_KNOWN_def)

interpretation tunnel_request: preface_codec TUNNEL_REQUEST_MAGIC TUNNEL_KNOWN "''tunnel''" "''tunnel ticket''"
  by unfold_locales (auto simp: TUNNEL_REQUEST_MAGIC_def ascii_def TUNNEL_KNOWN_def)

interpretation tunnel_response: preface_codec TUNNEL_RESPONSE_MAGIC TUNNEL_KNOWN "''tunnel''" "''tunnel ticket''"
  by unfold_locales (auto simp: TUNNEL_RESPONSE_MAGIC_def ascii_def TUNNEL_KNOWN_def)

lemmas codec_defs = encodeBridgeRequest_def decodeBridgeRequest_def encodeBridgeResponse_def decodeBridgeResponse_def
  encodeTunnelRequest_def decodeTunnelRequest_def encodeTunnelResponse_def decodeTunnelResponse_def

subsection \<open>Exactly one frame is read\<close>

definition frame_inv :: "nat \<Rightarrow> bytes \<Rightarrow> frame_read \<Rightarrow> bool" where
  "frame_inv n stream r = (fr_output r @ fr_stream r = stream \<and> length (fr_output r) \<le> n
     \<and> (case fr_result r of None \<Rightarrow> length (fr_output r) < n \<and> \<not> fr_closed r
        | Some (Inl _) \<Rightarrow> True
        | Some (Inr b) \<Rightarrow> b = fr_output r \<and> length b = n \<and> \<not> fr_closed r))"

lemma frame_inv_event: "frame_inv n stream r \<Longrightarrow> frame_inv n stream (read_event n label ev r)"
  by (cases "fr_result r"; cases ev) (auto simp: read_event_def frame_inv_def Let_def split: sum.splits)

lemma frame_inv_fold: "frame_inv n stream r \<Longrightarrow> frame_inv n stream (fold (read_event n label) events r)"
  by (induction events arbitrary: r) (auto intro: frame_inv_event)

lemma readExactly_inv:
  assumes "0 < n"
  shows "frame_inv n stream (readExactly n label t a events stream)"
proof -
  let ?r = "\<lparr>fr_stream = stream, fr_output = [], fr_closed = False, fr_result = None\<rparr>"
  have "frame_inv n stream (fold (read_event n label) evs ?r)" for evs
    by (rule frame_inv_fold) (simp add: frame_inv_def assms)
  moreover have "frame_inv n stream (?r\<lparr>fr_result := Some (Inl e)\<rparr>)" for e by (simp add: frame_inv_def)
  ultimately show ?thesis unfolding readExactly_def Let_def by presburger
qed

text \<open>An outcome is final.\<close>

lemma read_event_done: "fr_result r = Some x \<Longrightarrow> fold (read_event n label) events r = r"
  by (induction events) (simp_all add: read_event_def)

text \<open>The pieces in which a frame arrives do not matter.\<close>

lemma read_pieces:
  assumes "\<forall>k \<in> set ks. 0 < k" "length out + sum_list ks = n" "sum_list ks \<le> length rest" "0 < sum_list ks" "n \<le> 65535"
  shows "fold (read_event n label) (map (\<lambda>k. Delivered (NumInt (int k))) ks)
       \<lparr>fr_stream = rest, fr_output = out, fr_closed = False, fr_result = None\<rparr>
     = \<lparr>fr_stream = drop (sum_list ks) rest, fr_output = out @ take (sum_list ks) rest, fr_closed = False,
        fr_result = Some (Inr (out @ take (sum_list ks) rest))\<rparr>"
  using assms
proof (induction ks arbitrary: out rest)
  case (Cons k ks)
  have k: "0 < k" "int k \<le> int (n - length out)" "\<bar>int k\<bar> \<le> MAX_SAFE_INTEGER" "k \<le> length rest"
    using Cons.prems by (auto simp: MAX_SAFE_INTEGER_def)
  show ?case
  proof (cases ks)
    case Nil
    with Cons.prems k show ?thesis by (simp add: read_event_def Let_def)
  next
    case (Cons j js)
    have "0 < sum_list ks" using Cons Cons.prems(1) by (simp add: add_pos_nonneg)
    moreover from this have "length (out @ take k rest) < n" using Cons.prems(2) k by simp
    ultimately show ?thesis
      using Cons.IH [of "out @ take k rest" "drop k rest"] Cons.prems k
      by (simp add: read_event_def Let_def take_add add.commute)
  qed
qed simp

lemma readExactly_pieces:
  assumes "\<forall>k \<in> set ks. 0 < k" "sum_list ks = n" "length frame = n" "0 < n" "n \<le> 65535" "0 < t"
  shows "readExactly n label (FiniteMs t) False (map (\<lambda>k. Delivered (NumInt (int k))) ks) (frame @ rest)
     = \<lparr>fr_stream = rest, fr_output = frame, fr_closed = False, fr_result = Some (Inr frame)\<rparr>"
  using assms read_pieces [of ks "[]" n "frame @ rest" label] by (simp add: readExactly_def Let_def)

lemma decoded_read_frame:
  assumes "r = readExactly 44 label t aborted events stream" "decoded_read decode r = Some (Inr secret)"
  shows "stream = fr_output r @ fr_stream r \<and> \<not> fr_closed r \<and> decode (fr_output r) = Inr secret"
  using readExactly_inv [of 44 stream label t aborted events] assms
  by (auto simp: decoded_read_def frame_inv_def bindE_eq_Inr split: option.splits)

lemma read_bridge_frame:
  assumes "readBridgeRequest timeout aborted events stream = (r, Some (Inr secret))"
  shows "\<exists>frame. encodeBridgeRequest secret = Inr frame \<and> stream = frame @ fr_stream r \<and> \<not> fr_closed r"
proof -
  from assms have "r = readExactly 44 ''bridge request'' (orElse timeout (FiniteMs 5000)) aborted events stream"
    "decoded_read decodeBridgeRequest r = Some (Inr secret)" by (simp_all add: readBridgeRequest_def Let_def) auto
  from decoded_read_frame [OF this] show ?thesis
    unfolding codec_defs bridge_request.request_roundtrip by blast
qed

lemma read_tunnel_frame:
  assumes "readTunnelRequest timeout aborted events stream = (r, Some (Inr secret))"
  shows "\<exists>frame. encodeTunnelRequest secret = Inr frame \<and> stream = frame @ fr_stream r \<and> \<not> fr_closed r"
proof -
  from assms have "r = readExactly 44 ''tunnel request'' (orElse timeout (FiniteMs 5000)) aborted events stream"
    "decoded_read decodeTunnelRequest r = Some (Inr secret)" by (simp_all add: readTunnelRequest_def Let_def) auto
  from decoded_read_frame [OF this] show ?thesis
    unfolding codec_defs tunnel_request.request_roundtrip by blast
qed

lemma decode_request_length: "decode_request magic what bs = Inr secret \<Longrightarrow> length bs = 44"
  by (auto simp: decode_request_def split: if_splits)

text \<open>
  C19. The prefaces. Every codec is exact: a frame decodes to a value precisely when encoding that value gives this frame.
  Reading a request takes exactly one frame off the stream and leaves what was pipelined behind it: when it succeeds, the
  stream was the encoding of the secret followed by the bytes that are left, and the reader was not closed. It does succeed
  in whatever pieces the frame arrives.
\<close>

theorem prefaces_are_exact:
  "(encodeBridgeRequest secret = Inr bs \<longleftrightarrow> decodeBridgeRequest bs = Inr secret)
   \<and> (encodeTunnelRequest secret = Inr bs \<longleftrightarrow> decodeTunnelRequest bs = Inr secret)
   \<and> (encodeBridgeResponse status = Inr bs \<longleftrightarrow> decodeBridgeResponse bs = Inr status)
   \<and> (encodeTunnelResponse status = Inr bs \<longleftrightarrow> decodeTunnelResponse bs = Inr status)
   \<and> (readBridgeRequest timeout aborted events stream = (r, Some (Inr secret)) \<longrightarrow>
        (\<exists>frame. encodeBridgeRequest secret = Inr frame \<and> stream = frame @ fr_stream r \<and> \<not> fr_closed r))
   \<and> (readTunnelRequest timeout aborted events stream = (r, Some (Inr secret)) \<longrightarrow>
        (\<exists>frame. encodeTunnelRequest secret = Inr frame \<and> stream = frame @ fr_stream r \<and> \<not> fr_closed r))
   \<and> (encodeBridgeRequest secret = Inr bs \<and> sum_list ks = 44 \<and> 0 \<notin> set ks \<longrightarrow>
        snd (readBridgeRequest None False (map (\<lambda>k. Delivered (NumInt (int k))) ks) (bs @ rest)) = Some (Inr secret)
        \<and> fr_stream (fst (readBridgeRequest None False (map (\<lambda>k. Delivered (NumInt (int k))) ks) (bs @ rest))) = rest)
   \<and> (encodeTunnelRequest secret = Inr bs \<and> sum_list ks = 44 \<and> 0 \<notin> set ks \<longrightarrow>
        snd (readTunnelRequest None False (map (\<lambda>k. Delivered (NumInt (int k))) ks) (bs @ rest)) = Some (Inr secret)
        \<and> fr_stream (fst (readTunnelRequest None False (map (\<lambda>k. Delivered (NumInt (int k))) ks) (bs @ rest))) = rest)"
proof (intro conjI)
  show b: "encodeBridgeRequest secret = Inr bs \<longleftrightarrow> decodeBridgeRequest bs = Inr secret" for secret bs
    unfolding codec_defs by (rule bridge_request.request_roundtrip)
  show t: "encodeTunnelRequest secret = Inr bs \<longleftrightarrow> decodeTunnelRequest bs = Inr secret" for secret bs
    unfolding codec_defs by (rule tunnel_request.request_roundtrip)
  show "encodeBridgeResponse status = Inr bs \<longleftrightarrow> decodeBridgeResponse bs = Inr status"
    unfolding codec_defs by (rule bridge_response.response_roundtrip)
  show "encodeTunnelResponse status = Inr bs \<longleftrightarrow> decodeTunnelResponse bs = Inr status"
    unfolding codec_defs by (rule tunnel_response.response_roundtrip)
  show "readBridgeRequest timeout aborted events stream = (r, Some (Inr secret)) \<longrightarrow>
        (\<exists>frame. encodeBridgeRequest secret = Inr frame \<and> stream = frame @ fr_stream r \<and> \<not> fr_closed r)"
    using read_bridge_frame by blast
  show "readTunnelRequest timeout aborted events stream = (r, Some (Inr secret)) \<longrightarrow>
        (\<exists>frame. encodeTunnelRequest secret = Inr frame \<and> stream = frame @ fr_stream r \<and> \<not> fr_closed r)"
    using read_tunnel_frame by blast
  have pieces: "readExactly 44 label (FiniteMs 5000) False (map (\<lambda>k. Delivered (NumInt (int k))) ks) (bs @ rest)
      = \<lparr>fr_stream = rest, fr_output = bs, fr_closed = False, fr_result = Some (Inr bs)\<rparr>"
    if "sum_list ks = 44" "0 \<notin> set ks" "length bs = 44" for label
  proof (rule readExactly_pieces)
    show "\<forall>k \<in> set ks. 0 < k" using that(2) by (auto intro: gr0I)
  qed (use that in simp_all)
  show "encodeBridgeRequest secret = Inr bs \<and> sum_list ks = 44 \<and> 0 \<notin> set ks \<longrightarrow>
        snd (readBridgeRequest None False (map (\<lambda>k. Delivered (NumInt (int k))) ks) (bs @ rest)) = Some (Inr secret)
        \<and> fr_stream (fst (readBridgeRequest None False (map (\<lambda>k. Delivered (NumInt (int k))) ks) (bs @ rest))) = rest"
  proof (intro impI, elim conjE)
    assume "encodeBridgeRequest secret = Inr bs" and ks: "sum_list ks = 44" "0 \<notin> set ks"
    then have d: "decodeBridgeRequest bs = Inr secret" by (simp only: b)
    then have "length bs = 44" unfolding decodeBridgeRequest_def by (rule decode_request_length)
    from pieces [OF ks this] d show "snd (readBridgeRequest None False (map (\<lambda>k. Delivered (NumInt (int k))) ks) (bs @ rest)) = Some (Inr secret)
        \<and> fr_stream (fst (readBridgeRequest None False (map (\<lambda>k. Delivered (NumInt (int k))) ks) (bs @ rest))) = rest"
      by (simp add: readBridgeRequest_def Let_def orElse_def decoded_read_def)
  qed
  show "encodeTunnelRequest secret = Inr bs \<and> sum_list ks = 44 \<and> 0 \<notin> set ks \<longrightarrow>
        snd (readTunnelRequest None False (map (\<lambda>k. Delivered (NumInt (int k))) ks) (bs @ rest)) = Some (Inr secret)
        \<and> fr_stream (fst (readTunnelRequest None False (map (\<lambda>k. Delivered (NumInt (int k))) ks) (bs @ rest))) = rest"
  proof (intro impI, elim conjE)
    assume "encodeTunnelRequest secret = Inr bs" and ks: "sum_list ks = 44" "0 \<notin> set ks"
    then have d: "decodeTunnelRequest bs = Inr secret" by (simp only: t)
    then have "length bs = 44" unfolding decodeTunnelRequest_def by (rule decode_request_length)
    from pieces [OF ks this] d show "snd (readTunnelRequest None False (map (\<lambda>k. Delivered (NumInt (int k))) ks) (bs @ rest)) = Some (Inr secret)
        \<and> fr_stream (fst (readTunnelRequest None False (map (\<lambda>k. Delivered (NumInt (int k))) ks) (bs @ rest))) = rest"
      by (simp add: readTunnelRequest_def Let_def orElse_def decoded_read_def)
  qed
qed

theorem prefaces_are_exact_witness:
  "snd (readBridgeRequest None False [Delivered (NumInt 40), Delivered (NumInt 4)]
      (BRIDGE_REQUEST_MAGIC @ uint16 1 @ uint16 0 @ replicate 32 7 @ [1, 2])) = Some (Inr (replicate 32 7))"
proof -
  let ?bs = "BRIDGE_REQUEST_MAGIC @ uint16 1 @ uint16 0 @ replicate 32 7"
  have "encodeBridgeRequest (replicate 32 7) = Inr ?bs" by (simp add: encodeBridgeRequest_def encode_request_def)
  with prefaces_are_exact [of "replicate 32 7" ?bs _ _ _ _ _ _ "[40, 4]" "[1, 2]"] show ?thesis by simp
qed

end
