(* ===== verification/Bridge_Server.thy ===== *)
theory Bridge_Server
  imports Prefaces
begin

text \<open>
  \<^verbatim>\<open>src/rootd/bridge_server.ts\<close>: the endpoint of one bridge grant. Connections are handled concurrently; a handler
  is cut at its awaits, and the events say what each await answered. \<open>BsPreface\<close> carries the reader of the connection,
  so what it presented is what \<open>readBridgeRequest\<close> takes off its stream. Listening, the socket file and the bytes of the
  splice are outside; the trace (newest first) keeps the dial of the guest, the response frames, the splice and the closes.
\<close>

datatype handler_stage = HsReading | HsDialing | HsRefusing | HsAcking | HsSplicing | HsDone

datatype bridge_effect =
    GuestDialed nat bytes
  | ResponseSent nat bridge_status
  | SpliceStarted nat
  | ConnClosed nat
  | GuestClosed nat

record bridge_server =
  bs_credential :: bytes
  bs_timeout :: "preface_timeout option"
  bs_claimed :: bool
  bs_closed :: bool
  bs_ttlTimer :: bool
  bs_handlers :: "(nat, handler_stage) jsmap"
  bs_trace :: "bridge_effect list"

datatype bridge_event =
    BsAccept nat
  | BsPreface nat bool "reader_event list" bytes
  | BsDialed nat bool
  | BsRefused nat
  | BsAcked nat bool
  | BsSpliced nat
  | BsTtl
  | BsClose

text \<open>\<open>BridgeServer.open\<close>; \<open>None\<close> is its \<open>RangeError\<close>.\<close>

definition bridge_open :: "bytes \<Rightarrow> preface_timeout option \<Rightarrow> bridge_server option" where
  "bridge_open credential timeoutMs =
     (if length credential \<noteq> 32 then None
      else Some \<lparr>bs_credential = credential, bs_timeout = timeoutMs, bs_claimed = False, bs_closed = False, bs_ttlTimer = True,
                 bs_handlers = [], bs_trace = []\<rparr>)"

definition bridge_close :: "bridge_server \<Rightarrow> bridge_server" where
  "bridge_close s = (if bs_closed s then s else s\<lparr>bs_closed := True, bs_ttlTimer := False\<rparr>)"

definition to_stage :: "nat \<Rightarrow> handler_stage \<Rightarrow> bridge_effect list \<Rightarrow> bridge_server \<Rightarrow> bridge_server" where
  "to_stage n st effects s = s\<lparr>bs_handlers := jm_set n st (bs_handlers s), bs_trace := rev effects @ bs_trace s\<rparr>"

text \<open>\<open>#handle\<close> from the preface to the dial.\<close>

definition handle_preface :: "nat \<Rightarrow> bytes \<Rightarrow> preface_error + bytes \<Rightarrow> bridge_server \<Rightarrow> bridge_server" where
  "handle_preface n stream request s = (case request of
      Inl _ \<Rightarrow> to_stage n HsDone [ConnClosed n] s
    | Inr credential \<Rightarrow>
        (if \<not> equalBytes credential (bs_credential s) then to_stage n HsDone [ConnClosed n] s
         else if bs_claimed s \<or> bs_closed s then to_stage n HsDone [ConnClosed n] s
         else to_stage n HsDialing [GuestDialed n stream] (s\<lparr>bs_claimed := True, bs_ttlTimer := False\<rparr>)))"

definition at_stage :: "nat \<Rightarrow> handler_stage \<Rightarrow> bridge_server \<Rightarrow> bool" where
  "at_stage n st s = (jm_get (bs_handlers s) n = Some st)"

definition bridge_next :: "bridge_event \<Rightarrow> bridge_server \<Rightarrow> bridge_server option" where
  "bridge_next ev s = (case ev of
      BsAccept n \<Rightarrow>
        (if \<not> bs_closed s \<and> jm_get (bs_handlers s) n = None then Some (to_stage n HsReading [] s) else None)
    | BsPreface n aborted events stream \<Rightarrow>
        (if at_stage n HsReading s
         then map_option (\<lambda>request. handle_preface n stream request s)
                (snd (readBridgeRequest (Some (orElse (bs_timeout s) (FiniteMs 5000))) aborted events stream))
         else None)
    | BsDialed n ok \<Rightarrow>
        (if at_stage n HsDialing s
         then Some (if ok then to_stage n HsAcking [] s else to_stage n HsRefusing [ResponseSent n BrDialFailed] s)
         else None)
    | BsRefused n \<Rightarrow> (if at_stage n HsRefusing s then Some (bridge_close (to_stage n HsDone [ConnClosed n] s)) else None)
    | BsAcked n ok \<Rightarrow>
        (if at_stage n HsAcking s
         then Some (if ok then to_stage n HsSplicing [ResponseSent n BrOk, SpliceStarted n] s
                    else bridge_close (to_stage n HsDone [GuestClosed n, ConnClosed n] s))
         else None)
    | BsSpliced n \<Rightarrow>
        (if at_stage n HsSplicing s then Some (bridge_close (to_stage n HsDone [ConnClosed n, GuestClosed n] s)) else None)
    | BsTtl \<Rightarrow> (if bs_ttlTimer s then Some (bridge_close s) else None)
    | BsClose \<Rightarrow> Some (bridge_close s))"

inductive endpoint_step :: "bridge_server \<Rightarrow> bridge_event \<Rightarrow> bridge_server \<Rightarrow> bool" where
  endpoint_step: "bridge_next ev s = Some s' \<Longrightarrow> endpoint_step s ev s'"

inductive_cases endpoint_stepE: "endpoint_step s ev s'"

definition bridge_init :: "bytes \<Rightarrow> preface_timeout option \<Rightarrow> bridge_server \<Rightarrow> bool" where
  "bridge_init credential timeoutMs s = (bridge_open credential timeoutMs = Some s)"

subsection \<open>One dial, for the credential\<close>

definition dials :: "bridge_effect list \<Rightarrow> (nat \<times> bytes) list" where
  "dials tr = concat (map (\<lambda>e. case e of GuestDialed n b \<Rightarrow> [(n, b)] | _ \<Rightarrow> []) tr)"

definition presented :: "bytes \<Rightarrow> bytes \<Rightarrow> bool" where
  "presented credential stream = (\<exists>frame rest. encodeBridgeRequest credential = Inr frame \<and> stream = frame @ rest)"

text \<open>A response other than a refusal, and the splice, belong to the connection that dialed.\<close>

definition served :: "bridge_effect list \<Rightarrow> nat set" where
  "served tr = {n. \<exists>st. ResponseSent n st \<in> set tr \<or> SpliceStarted n \<in> set tr \<or> GuestClosed n \<in> set tr}"

definition endpoint_inv :: "bytes \<Rightarrow> bridge_server \<Rightarrow> bool" where
  "endpoint_inv credential s = (bs_credential s = credential
     \<and> (if bs_claimed s then \<exists>n b. dials (bs_trace s) = [(n, b)] \<and> presented credential b else dials (bs_trace s) = [])
     \<and> (\<forall>n st. jm_get (bs_handlers s) n = Some st \<and> st \<in> {HsDialing, HsRefusing, HsAcking, HsSplicing} \<longrightarrow>
          n \<in> fst ` set (dials (bs_trace s)))
     \<and> served (bs_trace s) \<subseteq> fst ` set (dials (bs_trace s)))"

lemma dials_simps [simp]:
  "dials [] = []" "dials (GuestDialed n b # tr) = (n, b) # dials tr" "dials (ResponseSent n st # tr) = dials tr"
  "dials (SpliceStarted n # tr) = dials tr" "dials (ConnClosed n # tr) = dials tr" "dials (GuestClosed n # tr) = dials tr"
  by (simp_all add: dials_def)

lemma served_simps [simp]:
  "served [] = {}" "served (GuestDialed n b # tr) = served tr" "served (ResponseSent n st # tr) = insert n (served tr)"
  "served (SpliceStarted n # tr) = insert n (served tr)" "served (ConnClosed n # tr) = served tr"
  "served (GuestClosed n # tr) = insert n (served tr)"
  by (auto simp: served_def)

lemma bridge_close_simps [simp]:
  "bs_credential (bridge_close s) = bs_credential s" "bs_claimed (bridge_close s) = bs_claimed s"
  "bs_handlers (bridge_close s) = bs_handlers s" "bs_trace (bridge_close s) = bs_trace s"
  by (simp_all add: bridge_close_def)

lemma endpoint_inv_close [simp]: "endpoint_inv credential (bridge_close s) = endpoint_inv credential s"
  by (simp add: endpoint_inv_def)

lemma to_stage_simps [simp]:
  "bs_credential (to_stage n st es s) = bs_credential s" "bs_claimed (to_stage n st es s) = bs_claimed s"
  "jm_get (bs_handlers (to_stage n st es s)) = (jm_get (bs_handlers s))(n \<mapsto> st)"
  "bs_trace (to_stage n st es s) = rev es @ bs_trace s"
  by (simp_all add: to_stage_def jm_get_set)

lemma read_presents:
  assumes "snd (readBridgeRequest timeout aborted events stream) = Some (Inr credential)"
  shows "presented credential stream"
proof -
  let ?r = "fst (readBridgeRequest timeout aborted events stream)"
  from assms have "readBridgeRequest timeout aborted events stream = (?r, Some (Inr credential))"
    by (metis prod.collapse)
  then show ?thesis using read_bridge_frame unfolding presented_def by blast
qed

lemma endpoint_idle_inv:
  assumes inv: "endpoint_inv credential s" and st: "st' \<in> {HsReading, HsDone}" and es: "es = [] \<or> es = [ConnClosed m]"
  shows "endpoint_inv credential (to_stage n st' es s)"
proof -
  have tr: "dials (rev es @ bs_trace s) = dials (bs_trace s)" "served (rev es @ bs_trace s) = served (bs_trace s)"
    using es by auto
  have "k \<in> fst ` set (dials (bs_trace s))"
    if "((jm_get (bs_handlers s))(n \<mapsto> st')) k = Some sk" "sk \<in> {HsDialing, HsRefusing, HsAcking, HsSplicing}" for k sk
    using that st inv unfolding endpoint_inv_def by (cases "k = n") auto
  then show ?thesis using inv unfolding endpoint_inv_def to_stage_simps tr by blast
qed

lemma endpoint_preface_inv:
  assumes inv: "endpoint_inv credential s" and st: "at_stage n HsReading s"
    and request: "\<And>c. request = Inr c \<Longrightarrow> presented c stream"
  shows "endpoint_inv credential (handle_preface n stream request s)"
proof (cases "\<exists>c. request = Inr c \<and> c = bs_credential s \<and> \<not> bs_claimed s \<and> \<not> bs_closed s")
  case True
  then have eq: "handle_preface n stream request s
      = to_stage n HsDialing [GuestDialed n stream] (s\<lparr>bs_claimed := True, bs_ttlTimer := False\<rparr>)"
    and p: "presented credential stream" "dials (bs_trace s) = []" "\<not> bs_claimed s"
    using inv request by (auto simp: handle_preface_def endpoint_inv_def split: if_splits)
  then have "served (bs_trace s) = {}" "bs_credential s = credential"
    "\<And>m st. jm_get (bs_handlers s) m = Some st \<Longrightarrow> st \<notin> {HsDialing, HsRefusing, HsAcking, HsSplicing}"
    using inv by (auto simp: endpoint_inv_def)
  with p eq show ?thesis by (auto simp: endpoint_inv_def)
next
  case False
  then have "handle_preface n stream request s = to_stage n HsDone [ConnClosed n] s"
    by (auto simp: handle_preface_def split: sum.splits)
  then show ?thesis using endpoint_idle_inv [OF inv, of HsDone "[ConnClosed n]"] by simp
qed

lemma endpoint_stage_inv:
  assumes inv: "endpoint_inv credential s" and at: "at_stage n st s" "st \<in> {HsDialing, HsRefusing, HsAcking, HsSplicing}"
    and es: "dials (rev es @ bs_trace s) = dials (bs_trace s)" "served (rev es @ bs_trace s) \<subseteq> insert n (served (bs_trace s))"
  shows "endpoint_inv credential (to_stage n st' es s)"
proof -
  have n: "n \<in> fst ` set (dials (bs_trace s))" using inv at unfolding endpoint_inv_def at_stage_def by blast
  have "m \<in> fst ` set (dials (bs_trace s))"
    if "((jm_get (bs_handlers s))(n \<mapsto> st')) m = Some sm" "sm \<in> {HsDialing, HsRefusing, HsAcking, HsSplicing}" for m sm
    using that n inv unfolding endpoint_inv_def by (cases "m = n") auto
  then show ?thesis
    using inv n es(2) unfolding endpoint_inv_def to_stage_simps es(1) by blast
qed

lemma endpoint_inv_step:
  assumes inv: "endpoint_inv credential s" and next_: "bridge_next ev s = Some s'"
  shows "endpoint_inv credential s'"
proof (cases ev)
  case (BsPreface n aborted events stream)
  with next_ obtain request where r: "at_stage n HsReading s" "s' = handle_preface n stream request s"
    "snd (readBridgeRequest (Some (orElse (bs_timeout s) (FiniteMs 5000))) aborted events stream) = Some request"
    by (auto simp: bridge_next_def split: if_splits)
  have "endpoint_inv credential (handle_preface n stream request s)"
    by (rule endpoint_preface_inv [OF inv r(1)]) (use r(3) read_presents in blast)
  then show ?thesis by (simp only: r(2))
next
  case (BsAccept n)
  with next_ have "s' = to_stage n HsReading [] s" by (auto simp: bridge_next_def split: if_splits)
  then show ?thesis using endpoint_idle_inv [OF inv, of HsReading "[]"] by simp
next
  case (BsDialed n ok)
  with next_ have "at_stage n HsDialing s"
    "s' = (if ok then to_stage n HsAcking [] s else to_stage n HsRefusing [ResponseSent n BrDialFailed] s)"
    by (auto simp: bridge_next_def split: if_splits)
  then show ?thesis by (auto intro!: endpoint_stage_inv [OF inv, where st = HsDialing])
next
  case (BsRefused n)
  with next_ have "at_stage n HsRefusing s" "s' = bridge_close (to_stage n HsDone [ConnClosed n] s)"
    by (auto simp: bridge_next_def split: if_splits)
  then show ?thesis by (auto intro!: endpoint_stage_inv [OF inv, where st = HsRefusing])
next
  case (BsAcked n ok)
  with next_ have "at_stage n HsAcking s"
    "s' = (if ok then to_stage n HsSplicing [ResponseSent n BrOk, SpliceStarted n] s
           else bridge_close (to_stage n HsDone [GuestClosed n, ConnClosed n] s))"
    by (auto simp: bridge_next_def split: if_splits)
  then show ?thesis by (auto intro!: endpoint_stage_inv [OF inv, where st = HsAcking])
next
  case (BsSpliced n)
  with next_ have "at_stage n HsSplicing s" "s' = bridge_close (to_stage n HsDone [ConnClosed n, GuestClosed n] s)"
    by (auto simp: bridge_next_def split: if_splits)
  then show ?thesis by (auto intro!: endpoint_stage_inv [OF inv, where st = HsSplicing])
qed (use next_ inv in \<open>auto simp: bridge_next_def split: if_splits\<close>)

interpretation endpoint_system: step_system "bridge_init credential timeoutMs" endpoint_step "endpoint_inv credential"
proof
  fix s :: bridge_server
  show "bridge_init credential timeoutMs s \<Longrightarrow> endpoint_inv credential s"
    by (auto simp: bridge_init_def bridge_open_def endpoint_inv_def split: if_splits)
next
  fix s ev s'
  assume "endpoint_inv credential s" "endpoint_step s ev s'"
  then show "endpoint_inv credential s'" by (auto elim: endpoint_stepE intro: endpoint_inv_step)
qed

text \<open>
  C18. However the handlers of a bridge endpoint interleave, the guest is dialed at most once, and only for a connection
  whose stream began with the request frame of the credential of this grant. No other connection ever gets a response,
  reaches the guest or is spliced to it.
\<close>

theorem bridge_endpoint_dials_once:
  assumes "reachable (bridge_init credential timeoutMs) endpoint_step s"
  shows "length (dials (bs_trace s)) \<le> 1
    \<and> (\<forall>n stream. GuestDialed n stream \<in> set (bs_trace s) \<longrightarrow>
         (\<exists>frame rest. encodeBridgeRequest credential = Inr frame \<and> stream = frame @ rest)
         \<and> served (bs_trace s) \<subseteq> {n})
    \<and> (dials (bs_trace s) = [] \<longrightarrow> served (bs_trace s) = {})"
proof -
  from assms have inv: "endpoint_inv credential s" by (rule endpoint_system.reachable_inv)
  have mem: "GuestDialed n b \<in> set tr \<Longrightarrow> (n, b) \<in> set (dials tr)" for n b tr
    by (induction tr) (auto split: bridge_effect.splits simp: dials_def)
  from inv consider "dials (bs_trace s) = []" "served (bs_trace s) = {}"
    | n b where "dials (bs_trace s) = [(n, b)]" "presented credential b" "served (bs_trace s) \<subseteq> {n}"
    by (auto simp: endpoint_inv_def split: if_splits)
  then show ?thesis
  proof cases
    case 1
    with mem [of _ _ "bs_trace s"] show ?thesis by auto
  next
    case (2 n b)
    with mem [of _ _ "bs_trace s"] show ?thesis by (auto simp: presented_def)
  qed
qed

definition example_preface :: bytes where
  "example_preface = BRIDGE_REQUEST_MAGIC @ uint16 1 @ uint16 0 @ replicate 32 7"

definition example_endpoint :: "bool \<Rightarrow> (nat, handler_stage) jsmap \<Rightarrow> bridge_effect list \<Rightarrow> bridge_server" where
  "example_endpoint claimed handlers tr = \<lparr>bs_credential = replicate 32 7, bs_timeout = None, bs_claimed = claimed, bs_closed = False,
     bs_ttlTimer = \<not> claimed, bs_handlers = handlers, bs_trace = tr\<rparr>"

lemma example_preface_read: "snd (readBridgeRequest None False [Delivered (NumInt 44)] (example_preface @ [5])) = Some (Inr (replicate 32 7))"
proof -
  have d: "decodeBridgeRequest example_preface = Inr (replicate 32 7)"
    unfolding codec_defs bridge_request.request_roundtrip [symmetric] by (simp add: encode_request_def example_preface_def)
  then have l: "length example_preface = 44" unfolding codec_defs by (rule decode_request_length)
  from readExactly_pieces [of "[44]" 44 example_preface 5000 "''bridge request''" "[5]"] l d show ?thesis
    by (simp add: readBridgeRequest_def orElse_def decoded_read_def)
qed

lemma example_endpoint_reachable:
  "reachable (bridge_init (replicate 32 7) None) endpoint_step
     (example_endpoint True [(0, HsDialing)] [GuestDialed 0 (example_preface @ [5])])"
proof -
  let ?R = "reachable (bridge_init (replicate 32 7) None) endpoint_step"
  have "?R (example_endpoint False [] [])"
    by (rule reach_init) (simp add: bridge_init_def bridge_open_def example_endpoint_def)
  moreover have "endpoint_step (example_endpoint False [] []) (BsAccept 0) (example_endpoint False [(0, HsReading)] [])"
    by (rule endpoint_step) (simp add: bridge_next_def example_endpoint_def to_stage_def)
  moreover have "endpoint_step (example_endpoint False [(0, HsReading)] [])
      (BsPreface 0 False [Delivered (NumInt 44)] (example_preface @ [5]))
      (example_endpoint True [(0, HsDialing)] [GuestDialed 0 (example_preface @ [5])])"
    using example_preface_read
    by (intro endpoint_step) (simp add: bridge_next_def example_endpoint_def at_stage_def jm_get_def handle_preface_def to_stage_def
        readBridgeRequest_def orElse_def)
  ultimately show ?thesis by (blast intro: reach_step)
qed

theorem bridge_endpoint_dials_once_witness:
  "\<exists>frame. encodeBridgeRequest (replicate 32 7) = Inr frame \<and> length frame \<le> length (example_preface @ [5])"
proof -
  from bridge_endpoint_dials_once [OF example_endpoint_reachable] obtain frame rest where
    "encodeBridgeRequest (replicate 32 7) = Inr frame" "example_preface @ [5] = frame @ rest"
    by (auto simp: example_endpoint_def)
  then have "length (example_preface @ [5]) = length frame + length rest" by (metis length_append)
  with \<open>encodeBridgeRequest (replicate 32 7) = Inr frame\<close> show ?thesis by auto
qed

end
