(* ===== verification/Tunnel_Router.thy ===== *)
theory Tunnel_Router
  imports Tickets Prefaces
begin

text \<open>
  \<^verbatim>\<open>src/hostd/tunnel_router.ts\<close>: the one listener behind which every tunnel of a host is found by its ticket. It composes
  the preface reader (\<open>Prefaces\<close>), the ticket store and the tunnel authorizer (\<open>Tickets\<close>).

  A route entry is a mutable object that its handle, its timer and its handlers share: entries live in a store under an id,
  and \<open>tr_routes\<close> maps a verifier to an id. The handler of a connection is cut at its awaits; the digest of a ticket is the
  parameter \<open>digest\<close>, as in \<open>Tickets\<close>. The ticket store belongs to the whole host, so any ticket operation may run between
  two steps. Three histories are kept for the statements: the tickets issued, the tickets that connections burned, and the
  bridges dialed on them.
\<close>

record route_entry =
  re_verifier :: string
  re_binding :: tunnel_binding
  re_bridgeRequest :: bridge_request
  re_aborted :: bool
  re_ttlTimer :: bool
  re_claimed :: bool
  re_settled :: bool

datatype tunnel_handler =
    ThReading
  | ThHashing bytes bytes
  | ThAuthorizing bytes bytes nat
  | ThDialing string nat
  | ThRefusing nat
  | ThAcking nat
  | ThSplicing nat
  | ThDone

datatype tunnel_effect =
    TunnelResponse nat tunnel_status
  | TunnelSplice nat
  | TunnelConnClosed nat
  | TunnelBridgeClosed nat

record burned_ticket =
  bt_conn :: nat
  bt_stream :: bytes
  bt_ticket :: bytes
  bt_binding :: tunnel_binding

record tunnel_router =
  tr_timeout :: "preface_timeout option"
  tr_closed :: bool
  tr_entries :: "(nat, route_entry) jsmap"
  tr_routes :: "(string, nat) jsmap"
  tr_handlers :: "(nat, tunnel_handler) jsmap"
  tr_store :: ticket_store
  tr_trace :: "tunnel_effect list"
  tr_issued :: "(string \<times> tunnel_binding) list"
  tr_burned :: "burned_ticket list"
  tr_dialed :: "(burned_ticket \<times> bridge_request) list"

datatype router_event =
    RvRegister nat string tunnel_binding bridge_request
  | RvAccept nat
  | RvPreface nat bool "reader_event list" bytes
  | RvHashed nat
  | RvAuthorized nat int
  | RvDialed nat "bool option"
  | RvRefused nat
  | RvAcked nat bool
  | RvSpliced nat
  | RvTtl nat
  | RvCloseRoute nat
  | RvClose
  | RvTickets ticket_op

definition router_open :: "preface_timeout option \<Rightarrow> ticket_store \<Rightarrow> tunnel_router" where
  "router_open timeoutMs st = \<lparr>tr_timeout = timeoutMs, tr_closed = False, tr_entries = [], tr_routes = [], tr_handlers = [],
     tr_store = st, tr_trace = [], tr_issued = [], tr_burned = [], tr_dialed = []\<rparr>"

definition entry_of :: "tunnel_router \<Rightarrow> nat \<Rightarrow> route_entry option" where
  "entry_of r i = jm_get (tr_entries r) i"

definition set_entry :: "nat \<Rightarrow> route_entry \<Rightarrow> tunnel_router \<Rightarrow> tunnel_router" where
  "set_entry i e r = r\<lparr>tr_entries := jm_set i e (tr_entries r)\<rparr>"

text \<open>\<open>register\<close>; \<open>None\<close> when the router is closed (it throws).\<close>

definition register_route ::
    "nat \<Rightarrow> string \<Rightarrow> tunnel_binding \<Rightarrow> bridge_request \<Rightarrow> tunnel_router \<Rightarrow> tunnel_router option" where
  "register_route i verifier binding request r =
     (if tr_closed r then None
      else Some ((set_entry i \<lparr>re_verifier = verifier, re_binding = binding, re_bridgeRequest = request, re_aborted = False,
             re_ttlTimer = True, re_claimed = False, re_settled = False\<rparr> r)\<lparr>tr_routes := jm_set verifier i (tr_routes r)\<rparr>))"

definition finishRoute :: "nat \<Rightarrow> tunnel_router \<Rightarrow> tunnel_router" where
  "finishRoute i r = (case entry_of r i of
      None \<Rightarrow> r
    | Some e \<Rightarrow> (if re_settled e then r
                else (set_entry i (e\<lparr>re_settled := True, re_ttlTimer := False\<rparr>) r)
                       \<lparr>tr_routes := jm_delete (re_verifier e) (tr_routes r)\<rparr>))"

definition closeRoute :: "nat \<Rightarrow> tunnel_router \<Rightarrow> tunnel_router" where
  "closeRoute i r = (case entry_of r i of
      None \<Rightarrow> r
    | Some e \<Rightarrow> (if re_settled e then r
                else (set_entry i (e\<lparr>re_settled := True, re_ttlTimer := False, re_aborted := True\<rparr>) r)
                       \<lparr>tr_routes := jm_delete (re_verifier e) (tr_routes r)\<rparr>))"

definition router_close :: "tunnel_router \<Rightarrow> tunnel_router" where
  "router_close r =
     (if tr_closed r then r
      else (let settle = (\<lambda>i r. case entry_of r i of None \<Rightarrow> r
                            | Some e \<Rightarrow> set_entry i (e\<lparr>re_ttlTimer := False, re_aborted := True, re_settled := True\<rparr>) r)
            in (fold settle (map snd (tr_routes r)) (r\<lparr>tr_closed := True\<rparr>))\<lparr>tr_routes := []\<rparr>))"

definition move_to :: "nat \<Rightarrow> tunnel_handler \<Rightarrow> tunnel_effect list \<Rightarrow> tunnel_router \<Rightarrow> tunnel_router" where
  "move_to n st es r = r\<lparr>tr_handlers := jm_set n st (tr_handlers r), tr_trace := rev es @ tr_trace r\<rparr>"

text \<open>The lookup of the ticket's route, without burning the ticket.\<close>

definition handle_hashed :: "(bytes \<Rightarrow> bytes) \<Rightarrow> nat \<Rightarrow> bytes \<Rightarrow> bytes \<Rightarrow> tunnel_router \<Rightarrow> tunnel_router" where
  "handle_hashed digest n ticket stream r = (case jm_get (tr_routes r) (ticketVerifier digest ticket) of
      None \<Rightarrow> move_to n ThDone [TunnelConnClosed n] r
    | Some i \<Rightarrow> (case entry_of r i of
          None \<Rightarrow> r
        | Some e \<Rightarrow> (if re_claimed e \<or> re_settled e then move_to n ThDone [TunnelConnClosed n] r
                    else move_to n (ThAuthorizing ticket stream i) [] r)))"

text \<open>\<open>authorizeAndOpen\<close> up to the call of the bridge factory, and what becomes of its errors.\<close>

definition handle_authorized :: "(bytes \<Rightarrow> bytes) \<Rightarrow> nat \<Rightarrow> bytes \<Rightarrow> bytes \<Rightarrow> nat \<Rightarrow> route_entry \<Rightarrow> int \<Rightarrow> tunnel_router \<Rightarrow> tunnel_router" where
  "handle_authorized digest n ticket stream i e now r =
     (let b = \<lparr>bt_conn = n, bt_stream = stream, bt_ticket = ticket, bt_binding = re_binding e\<rparr>;
          burn = (if snd (consume digest (tr_store r) ticket (re_binding e) now) = Inr () then [b] else [])
      in case authorizeAndOpen digest (tr_store r) ticket (re_binding e) (re_bridgeRequest e) (re_aborted e) now of
        (st, Inr request) \<Rightarrow>
          move_to n (ThDialing (ticketVerifier digest ticket) i) []
            (r\<lparr>tr_store := st, tr_burned := burn @ tr_burned r, tr_dialed := (b, request) # tr_dialed r\<rparr>)
      | (st, Inl TicketRejectedError) \<Rightarrow> move_to n ThDone [TunnelConnClosed n] (r\<lparr>tr_store := st, tr_burned := burn @ tr_burned r\<rparr>)
      | (st, Inl _) \<Rightarrow> move_to n (ThRefusing i) [TunnelResponse n TuDialFailed] (r\<lparr>tr_store := st, tr_burned := burn @ tr_burned r\<rparr>))"

text \<open>
  The dial's answer: a bridge, or an error, which says by its code whether the supervisor is unavailable
  (\<open>bridgeFailureStatus\<close>).
\<close>

definition handle_dialed :: "nat \<Rightarrow> string \<Rightarrow> nat \<Rightarrow> route_entry \<Rightarrow> bool option \<Rightarrow> tunnel_router \<Rightarrow> tunnel_router" where
  "handle_dialed n verifier i e answer r = (case answer of
      Some unavailable \<Rightarrow>
        move_to n (ThRefusing i) [TunnelResponse n (if unavailable then TuSupervisorUnavailable else TuDialFailed)] r
    | None \<Rightarrow>
        (if re_claimed e \<or> re_settled e then move_to n ThDone [TunnelBridgeClosed n, TunnelConnClosed n] r
         else move_to n (ThAcking i) []
                ((set_entry i (e\<lparr>re_claimed := True, re_ttlTimer := False\<rparr>) r)\<lparr>tr_routes := jm_delete verifier (tr_routes r)\<rparr>)))"

definition issued_by :: "(bytes \<Rightarrow> bytes) \<Rightarrow> ticket_store \<Rightarrow> ticket_op \<Rightarrow> (string \<times> tunnel_binding) list" where
  "issued_by digest st op = (case op of
      OpIssueLoop draw b now i n \<Rightarrow> (case snd (issue_loop digest draw st b now i n) of
          Inr (ticket, _) \<Rightarrow> [(ticketVerifier digest ticket, b)]
        | Inl _ \<Rightarrow> [])
    | _ \<Rightarrow> [])"

text \<open>
  One step of a connection's handler (\<open>#handle\<close>), of the accept loop, of a route's timer or handle, or of another user of
  the tickets. An accept that had resolved when the router closed is still handled, so \<open>RvAccept\<close> has no guard on it.
\<close>

definition router_next :: "(bytes \<Rightarrow> bytes) \<Rightarrow> router_event \<Rightarrow> tunnel_router \<Rightarrow> tunnel_router option" where
  "router_next digest ev r = (case ev of
      RvRegister i verifier binding request \<Rightarrow>
        (if entry_of r i = None then register_route i verifier binding request r else None)
    | RvAccept n \<Rightarrow>
        (if jm_get (tr_handlers r) n = None then Some (move_to n ThReading [] r) else None)
    | RvPreface n aborted events stream \<Rightarrow>
        (if jm_get (tr_handlers r) n = Some ThReading
         then (case snd (readTunnelRequest (Some (orElse (tr_timeout r) (FiniteMs 5000))) aborted events stream) of
             None \<Rightarrow> None
           | Some (Inl _) \<Rightarrow> Some (move_to n ThDone [TunnelConnClosed n] r)
           | Some (Inr ticket) \<Rightarrow> Some (move_to n (ThHashing ticket stream) [] r))
         else None)
    | RvHashed n \<Rightarrow> (case jm_get (tr_handlers r) n of
          Some (ThHashing ticket stream) \<Rightarrow> Some (handle_hashed digest n ticket stream r)
        | _ \<Rightarrow> None)
    | RvAuthorized n now \<Rightarrow> (case jm_get (tr_handlers r) n of
          Some (ThAuthorizing ticket stream i) \<Rightarrow>
            map_option (\<lambda>e. handle_authorized digest n ticket stream i e now r) (entry_of r i)
        | _ \<Rightarrow> None)
    | RvDialed n answer \<Rightarrow> (case jm_get (tr_handlers r) n of
          Some (ThDialing verifier i) \<Rightarrow> map_option (\<lambda>e. handle_dialed n verifier i e answer r) (entry_of r i)
        | _ \<Rightarrow> None)
    | RvRefused n \<Rightarrow> (case jm_get (tr_handlers r) n of
          Some (ThRefusing i) \<Rightarrow> Some (finishRoute i (move_to n ThDone [TunnelConnClosed n] r))
        | _ \<Rightarrow> None)
    | RvAcked n ok \<Rightarrow> (case jm_get (tr_handlers r) n of
          Some (ThAcking i) \<Rightarrow>
            Some (if ok then move_to n (ThSplicing i) [TunnelResponse n TuOk, TunnelSplice n] r
                  else finishRoute i (move_to n ThDone [TunnelBridgeClosed n, TunnelConnClosed n] r))
        | _ \<Rightarrow> None)
    | RvSpliced n \<Rightarrow> (case jm_get (tr_handlers r) n of
          Some (ThSplicing i) \<Rightarrow> Some (finishRoute i (move_to n ThDone [TunnelConnClosed n, TunnelBridgeClosed n] r))
        | _ \<Rightarrow> None)
    | RvTtl i \<Rightarrow> (case entry_of r i of Some e \<Rightarrow> (if re_ttlTimer e then Some (closeRoute i r) else None) | None \<Rightarrow> None)
    | RvCloseRoute i \<Rightarrow> Some (closeRoute i r)
    | RvClose \<Rightarrow> Some (router_close r)
    | RvTickets op \<Rightarrow> Some (r\<lparr>tr_store := ticket_step digest (tr_store r) op, tr_issued := issued_by digest (tr_store r) op @ tr_issued r\<rparr>))"

inductive router_step :: "(bytes \<Rightarrow> bytes) \<Rightarrow> tunnel_router \<Rightarrow> router_event \<Rightarrow> tunnel_router \<Rightarrow> bool" for digest where
  router_step: "router_next digest ev r = Some r' \<Longrightarrow> router_step digest r ev r'"

inductive_cases router_stepE: "router_step digest r ev r'"

definition router_init :: "preface_timeout option \<Rightarrow> js_number option \<Rightarrow> js_number option \<Rightarrow> tunnel_router \<Rightarrow> bool" where
  "router_init timeoutMs ttl cap r = (\<exists>st. new_ticket_store ttl cap = Inr st \<and> r = router_open timeoutMs st)"

subsection \<open>Every bridge was dialed on a burned ticket\<close>

definition presents :: "bytes \<Rightarrow> bytes \<Rightarrow> bool" where
  "presents ticket stream = (\<exists>frame rest. encodeTunnelRequest ticket = Inr frame \<and> stream = frame @ rest)"

definition times_burned :: "(bytes \<Rightarrow> bytes) \<Rightarrow> string \<Rightarrow> burned_ticket list \<Rightarrow> nat" where
  "times_burned digest v bs = length (filter (\<lambda>b. ticketVerifier digest (bt_ticket b) = v) bs)"

definition times_issued :: "string \<Rightarrow> (string \<times> tunnel_binding) list \<Rightarrow> nat" where
  "times_issued v is = length (filter (\<lambda>p. fst p = v) is)"

definition accounts :: "(bytes \<Rightarrow> bytes) \<Rightarrow> ticket_store \<Rightarrow> (string \<times> tunnel_binding) list \<Rightarrow> burned_ticket list \<Rightarrow> bool" where
  "accounts digest st is bs = (tickets_ok st
     \<and> (\<forall>v. times_burned digest v bs + (if jm_get (ts_tickets st) v = None then 0 else 1) \<le> times_issued v is)
     \<and> (\<forall>v t. jm_get (ts_tickets st) v = Some t \<longrightarrow> (v, tk_binding t) \<in> set is))"

definition burned_ok :: "(bytes \<Rightarrow> bytes) \<Rightarrow> (string \<times> tunnel_binding) list \<Rightarrow> burned_ticket \<Rightarrow> bool" where
  "burned_ok digest is b = (presents (bt_ticket b) (bt_stream b) \<and> (ticketVerifier digest (bt_ticket b), bt_binding b) \<in> set is)"

definition dialed_ok :: "burned_ticket list \<Rightarrow> burned_ticket \<times> bridge_request \<Rightarrow> bool" where
  "dialed_ok bs d = (fst d \<in> set bs \<and> br_sandboxId (snd d) = tb_sandboxId (bt_binding (fst d)) \<and> assertBridgeRequest (snd d) = Inr ())"

definition dialed_conn :: "(burned_ticket \<times> bridge_request) list \<Rightarrow> nat \<Rightarrow> bool" where
  "dialed_conn ds n = (\<exists>d \<in> set ds. bt_conn (fst d) = n)"

definition burned_conn :: "burned_ticket list \<Rightarrow> nat \<Rightarrow> bool" where
  "burned_conn bs n = (\<exists>b \<in> set bs. bt_conn b = n)"

text \<open>A route whose own binding is malformed; the store throws at it before it looks at the ticket.\<close>

definition malformed_route :: "tunnel_router \<Rightarrow> bool" where
  "malformed_route r = (\<exists>i e. entry_of r i = Some e \<and> assertBinding (re_binding e) \<noteq> Inr ())"

definition handler_ok :: "(burned_ticket \<times> bridge_request) list \<Rightarrow> nat \<Rightarrow> tunnel_handler \<Rightarrow> bool" where
  "handler_ok ds n h = (case h of
      ThHashing t s \<Rightarrow> presents t s
    | ThAuthorizing t s i \<Rightarrow> presents t s
    | ThDialing v i \<Rightarrow> dialed_conn ds n
    | ThAcking i \<Rightarrow> dialed_conn ds n
    | ThSplicing i \<Rightarrow> dialed_conn ds n
    | _ \<Rightarrow> True)"

definition answer_ok :: "tunnel_router \<Rightarrow> nat \<Rightarrow> tunnel_status \<Rightarrow> bool" where
  "answer_ok r n s = (s = TuOk \<and> dialed_conn (tr_dialed r) n
     \<or> (s = TuDialFailed \<or> s = TuSupervisorUnavailable) \<and> (burned_conn (tr_burned r) n \<or> malformed_route r))"

definition effects_ok :: "tunnel_router \<Rightarrow> tunnel_effect list \<Rightarrow> bool" where
  "effects_ok r tr = ((\<forall>n s. TunnelResponse n s \<in> set tr \<longrightarrow> answer_ok r n s)
     \<and> (\<forall>n. TunnelSplice n \<in> set tr \<longrightarrow> dialed_conn (tr_dialed r) n))"

definition router_inv :: "(bytes \<Rightarrow> bytes) \<Rightarrow> tunnel_router \<Rightarrow> bool" where
  "router_inv digest r = (accounts digest (tr_store r) (tr_issued r) (tr_burned r)
     \<and> (\<forall>b \<in> set (tr_burned r). burned_ok digest (tr_issued r) b)
     \<and> (\<forall>d \<in> set (tr_dialed r). dialed_ok (tr_burned r) d)
     \<and> (\<forall>n h. jm_get (tr_handlers r) n = Some h \<longrightarrow> handler_ok (tr_dialed r) n h)
     \<and> effects_ok r (tr_trace r))"

text \<open>A change of the routes: it touches nothing else, and an entry keeps its binding.\<close>

definition same_dials :: "tunnel_router \<Rightarrow> tunnel_router \<Rightarrow> bool" where
  "same_dials r r' = (tr_store r' = tr_store r \<and> tr_issued r' = tr_issued r \<and> tr_burned r' = tr_burned r
     \<and> tr_dialed r' = tr_dialed r \<and> tr_handlers r' = tr_handlers r \<and> tr_trace r' = tr_trace r
     \<and> (\<forall>i e. entry_of r i = Some e \<longrightarrow> (\<exists>e'. entry_of r' i = Some e' \<and> re_binding e' = re_binding e)))"

lemma effects_ok_mono:
  assumes "effects_ok r tr" "set (tr_burned r) \<subseteq> set (tr_burned r')" "set (tr_dialed r) \<subseteq> set (tr_dialed r')"
    "malformed_route r \<Longrightarrow> malformed_route r'"
  shows "effects_ok r' tr"
  using assms unfolding effects_ok_def answer_ok_def dialed_conn_def burned_conn_def by (meson subset_iff)

lemma same_dials_malformed: "same_dials r r' \<Longrightarrow> malformed_route r \<Longrightarrow> malformed_route r'"
  unfolding same_dials_def malformed_route_def by metis

lemma same_dials_inv: "same_dials r r' \<Longrightarrow> router_inv digest r \<Longrightarrow> router_inv digest r'"
  using effects_ok_mono [of r "tr_trace r" r'] same_dials_malformed [of r r'] by (simp add: same_dials_def router_inv_def)

lemma same_dials_set_entry:
  "(\<And>f. entry_of r i = Some f \<Longrightarrow> re_binding f = re_binding e) \<Longrightarrow> same_dials r (set_entry i e r)"
  by (simp add: same_dials_def set_entry_def entry_of_def jm_get_set)

lemma same_dials_refl [simp]: "same_dials r r"
  by (simp add: same_dials_def)

lemma same_dials_trans: "same_dials r r' \<Longrightarrow> same_dials r' r'' \<Longrightarrow> same_dials r r''"
  unfolding same_dials_def by metis

lemma same_dials_fold: "(\<And>i r. same_dials r (f i r)) \<Longrightarrow> same_dials r (fold f is r)"
  by (induction "is" arbitrary: r) (auto intro: same_dials_trans)

lemma same_dials_routes:
  "same_dials r (finishRoute i r)" "same_dials r (closeRoute i r)" "same_dials r (router_close r)"
  "register_route i v b q r = Some r' \<Longrightarrow> entry_of r i = None \<Longrightarrow> same_dials r r'"
proof -
  have upd: "same_dials r (r'\<lparr>tr_routes := x\<rparr>)" if "same_dials r r'" for r' x
    using that by (simp add: same_dials_def entry_of_def)
  show "same_dials r (finishRoute i r)" "same_dials r (closeRoute i r)"
    by (auto simp: finishRoute_def closeRoute_def intro!: upd same_dials_set_entry split: option.splits)
  show "register_route i v b q r = Some r' \<Longrightarrow> entry_of r i = None \<Longrightarrow> same_dials r r'"
    by (auto simp: register_route_def intro!: upd same_dials_set_entry split: if_splits)
  let ?settle = "\<lambda>i r. case entry_of r i of None \<Rightarrow> r
      | Some e \<Rightarrow> set_entry i (e\<lparr>re_ttlTimer := False, re_aborted := True, re_settled := True\<rparr>) r"
  have "same_dials (r\<lparr>tr_closed := True\<rparr>) (fold ?settle is (r\<lparr>tr_closed := True\<rparr>))" for "is"
    by (rule same_dials_fold) (auto intro: same_dials_set_entry split: option.split)
  moreover have "same_dials r (r\<lparr>tr_closed := True\<rparr>)" by (simp add: same_dials_def entry_of_def)
  ultimately show "same_dials r (router_close r)"
    unfolding router_close_def Let_def by (auto intro: upd same_dials_trans)
qed

lemma dialed_burned: "router_inv digest r \<Longrightarrow> dialed_conn (tr_dialed r) n \<Longrightarrow> burned_conn (tr_burned r) n"
  unfolding router_inv_def dialed_conn_def burned_conn_def dialed_ok_def by blast

lemma move_to_fields [simp]:
  "tr_store (move_to n h es r) = tr_store r" "tr_issued (move_to n h es r) = tr_issued r"
  "tr_burned (move_to n h es r) = tr_burned r" "tr_dialed (move_to n h es r) = tr_dialed r"
  "entry_of (move_to n h es r) i = entry_of r i"
  by (simp_all add: move_to_def entry_of_def)

lemma move_to_inv:
  assumes "router_inv digest r" "handler_ok (tr_dialed r) n h" "effects_ok r es"
  shows "router_inv digest (move_to n h es r)"
proof -
  have "effects_ok r (rev es @ tr_trace r)" using assms(1,3) by (auto simp: router_inv_def effects_ok_def)
  then have "effects_ok (move_to n h es r) (rev es @ tr_trace r)"
    by (rule effects_ok_mono) (simp_all add: malformed_route_def)
  with assms(1,2) show ?thesis unfolding router_inv_def by (auto simp: move_to_def jm_get_set split: if_splits)
qed

lemma read_presents_ticket:
  assumes "snd (readTunnelRequest timeout aborted events stream) = Some (Inr ticket)"
  shows "presents ticket stream"
proof -
  let ?r = "fst (readTunnelRequest timeout aborted events stream)"
  from assms have "readTunnelRequest timeout aborted events stream = (?r, Some (Inr ticket))" by (metis prod.collapse)
  then show ?thesis using read_tunnel_frame unfolding presents_def by blast
qed

lemma accounts_smaller:
  assumes "accounts digest st is bs" "tickets_ok st'" "\<And>v t. jm_get (ts_tickets st') v = Some t \<Longrightarrow> jm_get (ts_tickets st) v = Some t"
  shows "accounts digest st' is bs"
proof -
  have "times_burned digest v bs + (if jm_get (ts_tickets st') v = None then 0 else 1) \<le> times_issued v is" for v
    using assms(1) assms(3) [of v] unfolding accounts_def by (cases "jm_get (ts_tickets st') v") (auto split: if_splits dest: spec [of _ v])
  with assms show ?thesis unfolding accounts_def by blast
qed

lemma ticket_step_smaller:
  assumes "tickets_ok st" "\<And>draw b now i n. op \<noteq> OpIssueLoop draw b now i n"
    and "jm_get (ts_tickets (ticket_step digest st op)) v = Some t"
  shows "jm_get (ts_tickets st) v = Some t"
proof (cases op)
  case (OpAdmit b now)
  with assms show ?thesis
    by (auto simp: issue_admit_def sweepExpired_def Let_def revoke_tickets_get split: sum.splits option.splits if_splits)
next
  case (OpConsume ticket b now)
  with assms show ?thesis by (auto simp: consume_def Let_def jm_get_delete split: sum.splits if_splits)
qed (use assms in \<open>auto simp: revoke_defs revoke_tickets_get split: option.splits if_splits\<close>)

lemma issued_by_other: "\<not> (\<exists>draw b now i n. op = OpIssueLoop draw b now i n) \<Longrightarrow> issued_by digest st op = []"
  by (cases op) (auto simp: issued_by_def)

lemma ticket_step_accounts:
  assumes "accounts digest st is bs"
  shows "accounts digest (ticket_step digest st op) (issued_by digest st op @ is) bs"
proof (cases "\<exists>draw b now i n. op = OpIssueLoop draw b now i n")
  case False
  have ok: "tickets_ok st" using assms by (simp add: accounts_def)
  have "accounts digest (ticket_step digest st op) is bs"
  proof (rule accounts_smaller [OF assms])
    show "tickets_ok (ticket_step digest st op)" by (rule ticket_step_ok [OF ok])
    show "jm_get (ts_tickets (ticket_step digest st op)) v = Some t \<Longrightarrow> jm_get (ts_tickets st) v = Some t" for v t
      using ticket_step_smaller [OF ok] False by blast
  qed
  then show ?thesis by (simp add: issued_by_other [OF False])
next
  case True
  then obtain draw b now i n where op: "op = OpIssueLoop draw b now i n" by blast
  obtain st' x where eq: "issue_loop digest draw st b now i n = (st', x)" by (cases "issue_loop digest draw st b now i n")
  from issue_loop_cases [OF eq] consider "st' = st" "x = Inl UniqueTicketError"
    | j where "jm_get (ts_tickets st) (ticketVerifier digest (draw j)) = None" "x = Inr (draw j, now + ts_ttlMs st)"
      "st' = st\<lparr>ts_tickets := jm_set (ticketVerifier digest (draw j))
                     \<lparr>tk_binding = b, tk_expiresAt = now + ts_ttlMs st\<rparr> (ts_tickets st)\<rparr>" by blast
  then show ?thesis
  proof cases
    case 1
    with assms show ?thesis by (simp add: op eq issued_by_def)
  next
    case (2 j)
    let ?v = "ticketVerifier digest (draw j)"
    have "tickets_ok st'" using assms 2(3) by (auto simp: accounts_def tickets_ok_def jm_ok_set)
    moreover have "times_burned digest v bs + (if jm_get (ts_tickets st') v = None then 0 else 1) \<le> times_issued v ((?v, b) # is)" for v
      using assms 2 by (cases "v = ?v") (auto simp: accounts_def times_issued_def jm_get_set dest: spec [of _ v])
    moreover have "(v, tk_binding t) \<in> set ((?v, b) # is)" if "jm_get (ts_tickets st') v = Some t" for v t
      using assms that 2(3) by (auto simp: accounts_def jm_get_set split: if_splits)
    ultimately have "accounts digest st' ((?v, b) # is) bs" unfolding accounts_def by blast
    then show ?thesis by (simp add: op eq issued_by_def 2(2))
  qed
qed

lemma authorize_cases:
  assumes "authorizeAndOpen digest st ticket b q aborted now = (st', x)"
  shows "st' = fst (consume digest st ticket b now)"
    and "x = Inr q' \<Longrightarrow> q' = q \<and> snd (consume digest st ticket b now) = Inr () \<and> br_sandboxId q = tb_sandboxId b
           \<and> assertBridgeRequest q = Inr ()"
  using assms by (auto simp: authorizeAndOpen_def bindE_eq_Inr split: prod.splits sum.splits if_splits)

lemma consume_smaller:
  "jm_get (ts_tickets (fst (consume digest st ticket b now))) v = Some t \<Longrightarrow> jm_get (ts_tickets st) v = Some t"
  by (auto simp: consume_def Let_def jm_get_delete split: sum.splits if_splits)

lemma sameBinding_eq: "sameBinding l r \<longleftrightarrow> l = r"
  by (cases l; cases r) (auto simp: sameBinding_def)

text \<open>A dial spends the one ticket that is stored under its verifier.\<close>

lemma burn_accounts:
  assumes acc: "accounts digest st is bs" and con: "snd (consume digest st ticket c now) = Inr ()"
    and b: "bt_ticket b = ticket" "bt_binding b = c"
  shows "accounts digest (fst (consume digest st ticket c now)) is (b # bs)"
    and "(ticketVerifier digest ticket, c) \<in> set is"
proof -
  let ?v = "ticketVerifier digest ticket"
  have st': "fst (consume digest st ticket c now) = st\<lparr>ts_tickets := jm_delete ?v (ts_tickets st)\<rparr>"
    by (rule consume_Inr_store [OF con])
  from con obtain t where t: "jm_get (ts_tickets st) ?v = Some t" "sameBinding (tk_binding t) c"
    unfolding consume_Inr_iff by blast
  with acc show "(?v, c) \<in> set is" by (auto simp: accounts_def sameBinding_eq)
  have "times_burned digest v (b # bs) + (if jm_get (ts_tickets (fst (consume digest st ticket c now))) v = None then 0 else 1)
      \<le> times_issued v is" for v
    using acc t(1) unfolding st' accounts_def
    by (cases "v = ?v") (auto simp: times_burned_def jm_get_delete b dest: spec [of _ v])
  moreover have "tickets_ok (fst (consume digest st ticket c now))" using acc by (auto simp: accounts_def intro: consume_ok)
  ultimately show "accounts digest (fst (consume digest st ticket c now)) is (b # bs)"
    using acc consume_smaller unfolding accounts_def by blast
qed

lemma authorized_inv:
  assumes inv: "router_inv digest r" and p: "presents ticket stream" and e: "entry_of r i = Some e"
  shows "router_inv digest (handle_authorized digest n ticket stream i e now r)"
proof -
  obtain st x where eq: "authorizeAndOpen digest (tr_store r) ticket (re_binding e) (re_bridgeRequest e) (re_aborted e) now = (st, x)"
    by fastforce
  note a = authorize_cases [OF eq]
  let ?ok = "snd (consume digest (tr_store r) ticket (re_binding e) now) = Inr ()"
  let ?b = "\<lparr>bt_conn = n, bt_stream = stream, bt_ticket = ticket, bt_binding = re_binding e\<rparr>"
  let ?burn = "if ?ok then [?b] else []"
  let ?r = "r\<lparr>tr_store := st, tr_burned := ?burn @ tr_burned r\<rparr>"
  from inv have acc: "accounts digest (tr_store r) (tr_issued r) (tr_burned r)" by (simp add: router_inv_def)
  have acc': "accounts digest st (tr_issued r) (?burn @ tr_burned r)" "?ok \<Longrightarrow> burned_ok digest (tr_issued r) ?b"
  proof -
    have "accounts digest st (tr_issued r) (tr_burned r)"
      unfolding a(1)
    proof (rule accounts_smaller [OF acc])
      show "tickets_ok (fst (consume digest (tr_store r) ticket (re_binding e) now))"
        using acc by (auto simp: accounts_def intro: consume_ok)
    qed (rule consume_smaller)
    then show "accounts digest st (tr_issued r) (?burn @ tr_burned r)"
      using burn_accounts(1) [OF acc, of ticket "re_binding e" now ?b] by (auto simp: a(1))
    show "?ok \<Longrightarrow> burned_ok digest (tr_issued r) ?b"
      using burn_accounts(2) [OF acc, of ticket "re_binding e" now ?b] p by (simp add: burned_ok_def)
  qed
  have eff: "effects_ok ?r (tr_trace r)"
    by (rule effects_ok_mono [of r]) (use inv in \<open>auto simp: router_inv_def malformed_route_def entry_of_def\<close>)
  have inv': "router_inv digest ?r"
    using inv acc' eff by (auto simp: router_inv_def dialed_ok_def)
  show ?thesis
  proof (cases x)
    case (Inl err)
    have burned: "effects_ok ?r [TunnelResponse n TuDialFailed]" if "err \<noteq> TicketRejectedError"
    proof -
      have "?ok \<or> assertBinding (re_binding e) \<noteq> Inr ()"
        using eq that unfolding Inl
        by (auto simp: authorizeAndOpen_def consume_def Let_def requireE_def split: prod.splits sum.splits if_splits option.splits)
      with e show ?thesis
        by (auto simp: effects_ok_def answer_ok_def burned_conn_def malformed_route_def entry_of_def)
    qed
    have "handle_authorized digest n ticket stream i e now r =
        (if err = TicketRejectedError then move_to n ThDone [TunnelConnClosed n] ?r
         else move_to n (ThRefusing i) [TunnelResponse n TuDialFailed] ?r)"
      by (cases err) (simp_all add: handle_authorized_def eq Inl Let_def)
    then show ?thesis using inv' burned by (auto intro!: move_to_inv simp: handler_ok_def effects_ok_def [of _ "[TunnelConnClosed n]"])
  next
    case (Inr q)
    note q = a(2) [OF Inr]
    let ?r' = "?r\<lparr>tr_dialed := (?b, q) # tr_dialed r\<rparr>"
    have "effects_ok ?r' (tr_trace r)"
      by (rule effects_ok_mono [OF eff]) (auto simp: malformed_route_def entry_of_def)
    moreover have "handler_ok ((?b, q) # tr_dialed r) m h" if "handler_ok (tr_dialed r) m h" for m h
      using that by (auto simp: handler_ok_def dialed_conn_def split: tunnel_handler.splits)
    moreover have "dialed_ok (?burn @ tr_burned r) (?b, q)" using q by (simp add: dialed_ok_def)
    ultimately have "router_inv digest ?r'"
      using inv' by (auto simp: router_inv_def)
    moreover have "handle_authorized digest n ticket stream i e now r = move_to n (ThDialing (ticketVerifier digest ticket) i) [] ?r'"
      by (simp add: handle_authorized_def eq Inr Let_def)
    ultimately show ?thesis by (auto intro!: move_to_inv simp: handler_ok_def effects_ok_def dialed_conn_def)
  qed
qed

lemma router_inv_step:
  assumes inv: "router_inv digest r" and next_: "router_next digest ev r = Some r'"
  shows "router_inv digest r'"
proof -
  have handlers: "handler_ok (tr_dialed r) n h" if "jm_get (tr_handlers r) n = Some h" for n h
    using inv that by (simp add: router_inv_def)
  note routes = same_dials_inv [OF same_dials_routes(1)] same_dials_inv [OF same_dials_routes(2)] same_dials_inv [OF same_dials_routes(3)]
  note move = move_to_inv [OF inv]
  show ?thesis
  proof (cases ev)
    case (RvRegister i v b q)
    with next_ have "register_route i v b q r = Some r'" "entry_of r i = None" by (auto simp: router_next_def split: if_splits)
    then show ?thesis using same_dials_inv [OF same_dials_routes(4)] inv by blast
  next
    case (RvAccept n)
    with next_ have "r' = move_to n ThReading [] r" by (auto simp: router_next_def split: if_splits)
    then show ?thesis by (auto intro!: move simp: handler_ok_def effects_ok_def)
  next
    case (RvPreface n aborted events stream)
    with next_ obtain x where x: "snd (readTunnelRequest (Some (orElse (tr_timeout r) (FiniteMs 5000))) aborted events stream) = Some x"
      "r' = (case x of Inl _ \<Rightarrow> move_to n ThDone [TunnelConnClosed n] r | Inr t \<Rightarrow> move_to n (ThHashing t stream) [] r)"
      by (auto simp: router_next_def split: if_splits option.splits sum.splits)
    then show ?thesis using read_presents_ticket
      by (auto intro!: move simp: handler_ok_def effects_ok_def split: sum.splits)
  next
    case (RvHashed n)
    with next_ obtain t s where h: "jm_get (tr_handlers r) n = Some (ThHashing t s)" "r' = handle_hashed digest n t s r"
      by (auto simp: router_next_def split: option.splits tunnel_handler.splits)
    from handlers [OF h(1)] have "presents t s" by (simp add: handler_ok_def)
    then show ?thesis using inv unfolding h(2) handle_hashed_def
      by (auto intro!: move simp: handler_ok_def effects_ok_def split: option.splits)
  next
    case (RvAuthorized n now)
    with next_ obtain t s i e where h: "jm_get (tr_handlers r) n = Some (ThAuthorizing t s i)"
      "r' = handle_authorized digest n t s i e now r" "entry_of r i = Some e"
      by (auto simp: router_next_def split: option.splits tunnel_handler.splits)
    from handlers [OF h(1)] have "presents t s" by (simp add: handler_ok_def)
    then show ?thesis unfolding h(2) by (rule authorized_inv [OF inv _ h(3)])
  next
    case (RvDialed n answer)
    with next_ obtain v i e where h: "jm_get (tr_handlers r) n = Some (ThDialing v i)" "r' = handle_dialed n v i e answer r"
      "entry_of r i = Some e"
      by (auto simp: router_next_def split: option.splits tunnel_handler.splits)
    from handlers [OF h(1)] have n: "dialed_conn (tr_dialed r) n" by (simp add: handler_ok_def)
    let ?r = "(set_entry i (e\<lparr>re_claimed := True, re_ttlTimer := False\<rparr>) r)\<lparr>tr_routes := jm_delete v (tr_routes r)\<rparr>"
    have same: "same_dials r ?r"
      using h(3) by (auto simp: same_dials_def set_entry_def entry_of_def jm_get_set)
    have "handler_ok (tr_dialed ?r) n (ThAcking i)" using n by (simp add: handler_ok_def set_entry_def)
    then have claim: "router_inv digest (move_to n (ThAcking i) [] ?r)"
      by (rule move_to_inv [OF same_dials_inv [OF same inv]]) (simp add: effects_ok_def)
    have burned: "burned_conn (tr_burned r) n"
      by (rule dialed_burned [OF inv n])
    have rest: "router_inv digest (move_to n h es r)" if "h = ThRefusing i \<or> h = ThDone" "effects_ok r es" for h es
      by (rule move [OF _ that(2)]) (use that(1) in \<open>auto simp: handler_ok_def\<close>)
    show ?thesis
    proof (cases answer)
      case None
      with claim rest [of ThDone] show ?thesis by (simp add: h(2) handle_dialed_def effects_ok_def)
    next
      case (Some u)
      with rest [of "ThRefusing i"] burned show ?thesis by (simp add: h(2) handle_dialed_def effects_ok_def answer_ok_def)
    qed
  next
    case (RvRefused n)
    with next_ obtain i where "r' = finishRoute i (move_to n ThDone [TunnelConnClosed n] r)"
      by (auto simp: router_next_def split: option.splits tunnel_handler.splits)
    then show ?thesis by (auto simp: handler_ok_def effects_ok_def intro!: routes move)
  next
    case (RvAcked n ok)
    with next_ obtain i where h: "jm_get (tr_handlers r) n = Some (ThAcking i)"
      "r' = (if ok then move_to n (ThSplicing i) [TunnelResponse n TuOk, TunnelSplice n] r
             else finishRoute i (move_to n ThDone [TunnelBridgeClosed n, TunnelConnClosed n] r))"
      by (auto simp: router_next_def split: option.splits tunnel_handler.splits)
    from handlers [OF h(1)] have n: "dialed_conn (tr_dialed r) n" by (simp add: handler_ok_def)
    then have "router_inv digest (move_to n (ThSplicing i) [TunnelResponse n TuOk, TunnelSplice n] r)"
      by (intro move) (auto simp: handler_ok_def effects_ok_def answer_ok_def)
    moreover have "router_inv digest (move_to n ThDone [TunnelBridgeClosed n, TunnelConnClosed n] r)"
      by (intro move) (auto simp: handler_ok_def effects_ok_def)
    ultimately show ?thesis unfolding h(2) by (simp add: routes)
  next
    case (RvSpliced n)
    with next_ obtain i where "r' = finishRoute i (move_to n ThDone [TunnelConnClosed n, TunnelBridgeClosed n] r)"
      by (auto simp: router_next_def split: option.splits tunnel_handler.splits)
    then show ?thesis by (auto simp: handler_ok_def effects_ok_def intro!: routes move)
  next
    case (RvTickets op)
    with next_ have r': "r' = r\<lparr>tr_store := ticket_step digest (tr_store r) op, tr_issued := issued_by digest (tr_store r) op @ tr_issued r\<rparr>"
      by (simp add: router_next_def)
    from inv have "accounts digest (tr_store r) (tr_issued r) (tr_burned r)" by (simp add: router_inv_def)
    from ticket_step_accounts [OF this] have "accounts digest (tr_store r') (tr_issued r') (tr_burned r')" by (simp add: r')
    moreover have "burned_ok digest (tr_issued r') b" if "burned_ok digest (tr_issued r) b" for b
      using that by (simp add: burned_ok_def r')
    moreover have "effects_ok r' (tr_trace r)"
      by (rule effects_ok_mono [of r]) (use inv in \<open>auto simp: router_inv_def r' malformed_route_def entry_of_def\<close>)
    ultimately show ?thesis using inv by (simp add: router_inv_def r')
  qed (use next_ inv in \<open>auto simp: router_next_def intro: routes split: option.splits if_splits\<close>)
qed

interpretation router_system: step_system "router_init timeoutMs ttl cap" "router_step digest" "router_inv digest"
proof
  fix r :: tunnel_router
  assume "router_init timeoutMs ttl cap r"
  then obtain st where "new_ticket_store ttl cap = Inr st" "r = router_open timeoutMs st" by (auto simp: router_init_def)
  then show "router_inv digest r"
    by (auto simp: new_ticket_store_def Let_def router_inv_def router_open_def accounts_def tickets_ok_def times_burned_def
        effects_ok_def split: if_splits)
next
  fix r ev r'
  assume "router_inv digest r" "router_step digest r ev r'"
  then show "router_inv digest r'" by (auto elim: router_stepE intro: router_inv_step)
qed

text \<open>
  C17. Under any interleaving of the connections of a tunnel listener, its routes and every other use of the host's tickets:
  a connection burns only a ticket that it presented in its preface and that was issued for exactly the binding of the
  route, and no ticket is burned more often than it was issued. A bridge is dialed only for a connection that burned a
  ticket, and its request names the sandbox of that binding. Only a connection with a dialed bridge is answered positively
  or spliced; the only other answers are that the dial failed or the supervisor is unavailable, and they only go to a
  connection that burned its ticket, or when a route was registered with a malformed binding: a rejected ticket gets no
  answer at all.
\<close>

theorem tunnels_are_paid_with_tickets:
  assumes "reachable (router_init timeoutMs ttl cap) (router_step digest) r"
  shows "(\<forall>b \<in> set (tr_burned r).
         (\<exists>frame rest. encodeTunnelRequest (bt_ticket b) = Inr frame \<and> bt_stream b = frame @ rest)
         \<and> (ticketVerifier digest (bt_ticket b), bt_binding b) \<in> set (tr_issued r))
    \<and> (\<forall>v. length (filter (\<lambda>b. ticketVerifier digest (bt_ticket b) = v) (tr_burned r))
           \<le> length (filter (\<lambda>p. fst p = v) (tr_issued r)))
    \<and> (\<forall>(b, q) \<in> set (tr_dialed r). b \<in> set (tr_burned r)
           \<and> br_sandboxId q = tb_sandboxId (bt_binding b) \<and> assertBridgeRequest q = Inr ())
    \<and> (\<forall>n. TunnelResponse n TuOk \<in> set (tr_trace r) \<or> TunnelSplice n \<in> set (tr_trace r)
           \<longrightarrow> (\<exists>(b, q) \<in> set (tr_dialed r). bt_conn b = n))
    \<and> (\<forall>n s. TunnelResponse n s \<in> set (tr_trace r) \<longrightarrow>
           (s = TuOk \<or> s = TuDialFailed \<or> s = TuSupervisorUnavailable)
           \<and> ((\<exists>b \<in> set (tr_burned r). bt_conn b = n)
              \<or> (\<exists>i e. entry_of r i = Some e \<and> assertBinding (re_binding e) \<noteq> Inr ())))"
proof -
  from assms have inv: "router_inv digest r" by (rule router_system.reachable_inv)
  have "times_burned digest v (tr_burned r) \<le> times_issued v (tr_issued r)" for v
    using inv by (auto simp: router_inv_def accounts_def dest: spec [of _ v])
  moreover have "(s = TuOk \<or> s = TuDialFailed \<or> s = TuSupervisorUnavailable) \<and> (burned_conn (tr_burned r) n \<or> malformed_route r)"
    if "TunnelResponse n s \<in> set (tr_trace r)" for n s
  proof -
    from that inv have "answer_ok r n s" by (simp add: router_inv_def effects_ok_def)
    then show ?thesis using dialed_burned [OF inv] by (auto simp: answer_ok_def)
  qed
  moreover have "\<exists>(b, q) \<in> set (tr_dialed r). bt_conn b = n"
    if "TunnelResponse n TuOk \<in> set (tr_trace r) \<or> TunnelSplice n \<in> set (tr_trace r)" for n
  proof -
    from that inv have "dialed_conn (tr_dialed r) n" by (auto simp: router_inv_def effects_ok_def answer_ok_def)
    then show ?thesis unfolding dialed_conn_def by (simp add: split_def)
  qed
  moreover have "\<forall>b \<in> set (tr_burned r). burned_ok digest (tr_issued r) b" "\<forall>d \<in> set (tr_dialed r). dialed_ok (tr_burned r) d"
    using inv by (simp_all add: router_inv_def)
  ultimately show ?thesis
    unfolding times_burned_def times_issued_def burned_ok_def presents_def dialed_ok_def burned_conn_def malformed_route_def
    by (simp add: split_def)
qed

definition example_tunnel_stream :: bytes where
  "example_tunnel_stream = TUNNEL_REQUEST_MAGIC @ uint16 1 @ uint16 0 @ example_ticket @ [5]"

definition example_tunnel_request :: bridge_request where
  "example_tunnel_request = \<lparr>br_sandboxId = ''sbx_loc_a'', br_executionId = ''exec-a'', br_guestPort = NumInt 1024\<rparr>"

text \<open>A router with one issued ticket, its route, and one connection.\<close>

definition example_router :: "ticket_store \<Rightarrow> (nat, tunnel_handler) jsmap \<Rightarrow> (burned_ticket \<times> bridge_request) list \<Rightarrow> tunnel_router" where
  "example_router st handlers ds =
     (let v = ticketVerifier id example_ticket
      in \<lparr>tr_timeout = None, tr_closed = False,
           tr_entries = [(0, \<lparr>re_verifier = v, re_binding = example_binding, re_bridgeRequest = example_tunnel_request,
             re_aborted = False, re_ttlTimer = True, re_claimed = False, re_settled = False\<rparr>)],
           tr_routes = [(v, 0)], tr_handlers = handlers, tr_store = st, tr_trace = [],
           tr_issued = [(v, example_binding)], tr_burned = map fst ds, tr_dialed = ds\<rparr>)"

definition example_dial :: "burned_ticket \<times> bridge_request" where
  "example_dial = (\<lparr>bt_conn = 0, bt_stream = example_tunnel_stream, bt_ticket = example_ticket, bt_binding = example_binding\<rparr>,
     example_tunnel_request)"

lemma example_tunnel_read:
  "snd (readTunnelRequest (Some (FiniteMs 5000)) False [Delivered (NumInt 44)] example_tunnel_stream) = Some (Inr example_ticket)"
proof -
  let ?frame = "TUNNEL_REQUEST_MAGIC @ uint16 1 @ uint16 0 @ example_ticket"
  have d: "decodeTunnelRequest ?frame = Inr example_ticket"
    unfolding codec_defs tunnel_request.request_roundtrip [symmetric] by (simp add: encode_request_def example_ticket_def)
  then have l: "length ?frame = 44" unfolding codec_defs by (rule decode_request_length)
  from readExactly_pieces [of "[44]" 44 ?frame 5000 "''tunnel request''" "[5]"] l d show ?thesis
    by (simp add: readTunnelRequest_def orElse_def decoded_read_def example_tunnel_stream_def)
qed

lemma example_authorize:
  "authorizeAndOpen id example_store example_ticket example_binding example_tunnel_request False 9
     = (example_store\<lparr>ts_tickets := []\<rparr>, Inr example_tunnel_request)"
  by (simp add: authorizeAndOpen_def consume_def assertBinding_def requireE_def example_binding_def example_store_def
      example_ticket_def TUNNEL_TICKET_BYTES_def ticketVerifier_def sameBinding_def jm_get_def jm_delete_def
      MAX_SAFE_INTEGER_def example_tunnel_request_def assertBridgeRequest_def Let_def)

lemma example_spent: "snd (consume id example_store example_ticket example_binding 9) = Inr ()"
  by (simp add: consume_Inr_iff assertBinding_def requireE_def example_binding_def example_store_def example_ticket_def
      TUNNEL_TICKET_BYTES_def ticketVerifier_def sameBinding_def jm_get_def MAX_SAFE_INTEGER_def)

lemma example_router_reachable:
  "reachable (router_init None None None) (router_step id)
     (example_router (example_store\<lparr>ts_tickets := []\<rparr>) [(0, ThDialing (ticketVerifier id example_ticket) 0)] [example_dial])"
proof -
  let ?R = "reachable (router_init None None None) (router_step id)"
  let ?st = "\<lparr>ts_ttlMs = 15000, ts_maxOutstanding = 4096, ts_tickets = []\<rparr>"
  let ?r0 = "router_open None ?st"
  let ?r1 = "?r0\<lparr>tr_store := example_store, tr_issued := [(ticketVerifier id example_ticket, example_binding)]\<rparr>"
  have "?R ?r0"
    by (rule reach_init) (simp add: router_init_def new_ticket_store_def orElse_def MAX_SAFE_INTEGER_def
        DEFAULT_TUNNEL_TICKET_TTL_MS_def Let_def)
  moreover have "router_step id ?r0 (RvTickets (OpIssueLoop (\<lambda>_. example_ticket) example_binding 0 0 4)) ?r1"
    by (rule router_step) (simp add: router_next_def router_open_def issued_by_def issue_loop_fresh jm_get_def
        example_store_def ticketVerifier_def)
  ultimately have "?R ?r1" by (rule reach_step)
  moreover have "router_step id ?r1 (RvRegister 0 (ticketVerifier id example_ticket) example_binding example_tunnel_request)
      (example_router example_store [] [])"
    by (rule router_step) (simp add: router_next_def router_open_def register_route_def entry_of_def set_entry_def jm_get_def
        example_router_def Let_def)
  ultimately have "?R (example_router example_store [] [])" by (rule reach_step)
  moreover have "router_step id (example_router example_store [] []) (RvAccept 0) (example_router example_store [(0, ThReading)] [])"
    by (rule router_step) (simp add: router_next_def move_to_def jm_get_def example_router_def Let_def)
  ultimately have "?R (example_router example_store [(0, ThReading)] [])" by (rule reach_step)
  moreover have "router_step id (example_router example_store [(0, ThReading)] [])
      (RvPreface 0 False [Delivered (NumInt 44)] example_tunnel_stream)
      (example_router example_store [(0, ThHashing example_ticket example_tunnel_stream)] [])"
    using example_tunnel_read
    by (intro router_step) (simp add: router_next_def move_to_def jm_get_def example_router_def Let_def orElse_def)
  ultimately have "?R (example_router example_store [(0, ThHashing example_ticket example_tunnel_stream)] [])" by (rule reach_step)
  moreover have "router_step id (example_router example_store [(0, ThHashing example_ticket example_tunnel_stream)] []) (RvHashed 0)
      (example_router example_store [(0, ThAuthorizing example_ticket example_tunnel_stream 0)] [])"
    by (rule router_step) (simp add: router_next_def handle_hashed_def entry_of_def move_to_def jm_get_def
        example_router_def Let_def)
  ultimately have "?R (example_router example_store [(0, ThAuthorizing example_ticket example_tunnel_stream 0)] [])"
    by (rule reach_step)
  moreover have "router_step id (example_router example_store [(0, ThAuthorizing example_ticket example_tunnel_stream 0)] [])
      (RvAuthorized 0 9)
      (example_router (example_store\<lparr>ts_tickets := []\<rparr>) [(0, ThDialing (ticketVerifier id example_ticket) 0)] [example_dial])"
    using example_authorize example_spent
    by (intro router_step) (simp add: router_next_def handle_authorized_def entry_of_def move_to_def jm_get_def
        example_router_def Let_def example_dial_def)
  ultimately show ?thesis by (rule reach_step)
qed

theorem tunnels_are_paid_with_tickets_witness:
  "(ticketVerifier id example_ticket, example_binding) \<in> set (tr_issued (example_router (example_store\<lparr>ts_tickets := []\<rparr>)
       [(0, ThDialing (ticketVerifier id example_ticket) 0)] [example_dial]))
   \<and> (\<exists>frame rest. encodeTunnelRequest example_ticket = Inr frame \<and> example_tunnel_stream = frame @ rest)"
  using tunnels_are_paid_with_tickets [OF example_router_reachable]
  by (simp add: example_router_def example_dial_def Let_def)

end
