(* ===== verification/Spec2Isabelle.thy ===== *)
theory Spec2Isabelle
  imports Prelude Js_Text Utf8 Tickets Leases Memory_Grammar Capacity Sandbox_Model State_Store
    Firecracker Jail_Registry Subnet_Allocator Host_Properties Supervisor_Properties Supervisor_Forwards
    Network_Startup Sha256 Wire_Contract Wire_Bootstrap Agent_Personalize Prefaces Bridge_Server
    Tunnel_Router
begin

text \<open>
  A verification development for studiobox, which runs sandboxes as Firecracker microVMs on a host of one's own. All paths
  below are under \<^verbatim>\<open>src/\<close> of the repository.

  \<^bold>\<open>The program.\<close> Three processes. \<^emph>\<open>hostd\<close> is the unprivileged control plane: it admits sandboxes
  against a capacity ledger, keeps their leases, hands out single-use tunnel tickets, and asks rootd for everything that
  needs privileges. \<^emph>\<open>rootd\<close> is the supervisor: it journals every sandbox in a crash-safe store, stages and boots its
  microVM through the Firecracker package, gives it a network with a default-deny egress policy, serves bridges to its agent,
  and after a crash reconciles the journal with what is left. \<^emph>\<open>studioboxd\<close>, the agent in the guest, serves processes and
  files to the authenticated client. Connections between them start with a negotiation and an authentication, byte
  streams with a fixed preface.

  \<^bold>\<open>Conventions.\<close> A class is a record of its fields and one definition per method; a method that can throw returns
  \<open>Inl\<close> of an error datatype or \<open>Inr\<close> of its result, and one that changes state before it throws returns the
  state beside the result. A method with \<open>await\<close>s is cut at them: in the host and on the connections the pieces are the
  steps of an inductive relation that interleaves them freely; in the supervisor and the network operations every
  await is followed by an arbitrary change of what is shared (\<open>sv_other\<close>, \<open>ne_other\<close>). Code outside the repository
  or the process is a parameter: the clock, randomness, digests, DNS, the Firecracker package, commands, files, signals and the
  generated Cap'n Proto bindings. A JavaScript number is an integer or not one (\<open>js_number\<close>; exact doubles are in
  \<open>Js_Number\<close> where rounding matters), a \<open>Map\<close> an association list in insertion order (\<open>jsmap\<close>), a
  string a list of Latin-1 characters, or of UTF-16 code units where lone surrogates matter.

  \<^bold>\<open>The library.\<close> \<open>Prelude\<close>: results, maps, bounded loops and the interfaces \<open>keyed_map\<close>,
  \<open>lowest_free\<close> (allocators), \<open>retry_loop\<close> (compare-and-swap loops) and \<open>step_system\<close> (invariants of step
  relations), each interpreted on the model's own definitions. \<open>Js_Text\<close>, \<open>Js_Number\<close> and \<open>Utf8\<close>:
  strings, bytes, \<open>Number()\<close> and \<open>TextEncoder\<close>.

  \<^bold>\<open>hostd.\<close>
  \<^item> \<open>Tickets\<close> (\<^verbatim>\<open>security/tickets.ts\<close>, \<^verbatim>\<open>hostd/tunnel_authorizer.ts\<close>): a ticket is accepted at
    most once and no bridge is opened without burning one.
  \<^item> \<open>Leases\<close> (\<^verbatim>\<open>hostd/leases.ts\<close>): a lease fires at most once, at its deadline, and extending it is capped.
  \<^item> \<open>Memory_Grammar\<close>, \<open>Capacity\<close> (\<^verbatim>\<open>api/memory.ts\<close>, \<^verbatim>\<open>hostd/capacity.ts\<close>): the size
    grammar with its rounding, and the ledger, which never commits more than it has.
  \<^item> \<open>Host_Control\<close>, \<open>Host_Machine\<close>, \<open>Host_Properties\<close> (\<^verbatim>\<open>hostd/control_core.ts\<close>): the core
    over these components, its step relation, and its invariants under any interleaving: capacity and forward ports are held
    exactly by living sandboxes, one kill per terminated sandbox, a restart rolls back creates in flight.

  \<^bold>\<open>The journal.\<close>
  \<^item> \<open>Sandbox_Model\<close> (\<^verbatim>\<open>state/model.ts\<close>): records and the validation of the JSON that stands for them.
  \<^item> \<open>State_Store\<close> (\<^verbatim>\<open>state/store.ts\<close>): the store refines a map with revisions, and a write is atomic under
    a crash or a failure at any step, its clean-up included.

  \<^bold>\<open>rootd.\<close>
  \<^item> \<open>Firecracker\<close>, \<open>Jail_Registry\<close> (\<^verbatim>\<open>rootd/firecracker/\<close>): error translation, the adapter, and the
    registry of the package kept in the journal, whose compare-and-swap loops (at most 16 attempts, as in the code) change only
    records of the execution they name.
  \<^item> \<open>Supervisor_Journal\<close>, \<open>Supervisor_Core\<close> (\<^verbatim>\<open>rootd/supervisor_core.ts\<close>): guarded journal
    writes and every operation over them. \<open>Supervisor_Logic\<close> has the triples over event traces, \<open>Supervisor_Sweep\<close> and
    \<open>Supervisor_Runs\<close> undisturbed runs; \<open>Supervisor_Properties\<close>, \<open>Supervisor_Bridges\<close> and
    \<open>Supervisor_Forwards\<close> the theorems: the journal comes before the VMM, a launch boots beside no VMM that may be alive, except after
    a kill or disposal that failed with an error the code does not look for, writers
    leave lost records alone, reconciliation converges every open record, a bridge grant is taken once.
  \<^item> \<open>Supervisor_Wire\<close> (\<^verbatim>\<open>wire/supervisor.ts\<close>): validators, and the launch request on the wire.
  \<^item> \<open>Subnet_Allocator\<close> (\<^verbatim>\<open>rootd/network/allocator.ts\<close>): slots and their addresses.
  \<^item> \<open>Egress_Spec\<close>, \<open>Ip_Literals\<close>, \<open>Egress_Resolver\<close>, \<open>Egress_Ruleset\<close>, \<open>Egress_Policy\<close>
    (\<^verbatim>\<open>rootd/network/spec.ts\<close>, \<^verbatim>\<open>resolver.ts\<close>, \<^verbatim>\<open>ruleset.ts\<close>): the grammar of \<open>allowNet\<close>, its
    resolution and the nft rules made of it. That the rules enforce \<open>allowNet\<close> rests on \<open>nft_reads\<close>, the documented
    meaning of the rule texts the source emits, and on dnsmasq filling no set but the wildcard ones; the ranges that a wildcard
    cannot open are stated as numbers, and the CIDR texts of the source are shown to denote them.
  \<^item> \<open>Network_Control\<close>, \<open>Network_Lifecycle\<close>, \<open>Network_Properties\<close>, \<open>Network_Startup\<close>
    (\<^verbatim>\<open>rootd/network/apply.ts\<close>, \<^verbatim>\<open>dataplane.ts\<close>, \<^verbatim>\<open>dnsmasq.ts\<close>, \<^verbatim>\<open>port_forward.ts\<close>,
    \<^verbatim>\<open>reclaim_hook.ts\<close>, \<^verbatim>\<open>orphan_sweep.ts\<close> and the network part of \<^verbatim>\<open>rootd/launch_planner.ts\<close>): the
    controllers over commands that answer anything, with the trace of what was run: rules are applied or sealed, a failed provision is
    unwound, reclaim releases the slot last, a restart reserves the slots of live records and sweeps the tables, pidfiles and
    TAP slots that are listed without an owner.

  \<^bold>\<open>Connections and streams.\<close>
  \<^item> \<open>Wire_Contract\<close>, \<open>Wire_Bootstrap\<close> (\<^verbatim>\<open>wire/contract.ts\<close>, \<^verbatim>\<open>wire/bootstrap_gate.ts\<close>, the
    bootstraps of \<^verbatim>\<open>hostd/service.ts\<close> and \<^verbatim>\<open>rootd/service.ts\<close>): what is negotiated, and the exact sequences of
    calls after which a connection hands out its service.
  \<^item> \<open>Agent_Personalize\<close> (\<^verbatim>\<open>agent/personalize.ts\<close>, the bootstrap of \<^verbatim>\<open>agent/service.ts\<close>): a restored
    guest takes on one identity, whatever its connections do.
  \<^item> \<open>Prefaces\<close>, \<open>Bridge_Server\<close> (\<^verbatim>\<open>transports/bridge_preface.ts\<close>, \<^verbatim>\<open>tunnel_preface.ts\<close>,
    \<^verbatim>\<open>rootd/bridge_server.ts\<close>): the preface codecs and readers, and the endpoint that dials the guest once.
  \<^item> \<open>Tunnel_Router\<close> (\<^verbatim>\<open>hostd/tunnel_router.ts\<close>): the one listener of all tunnels, which composes the preface
    reader, the tickets and the authorizer; every bridge it dials is paid with a ticket, and a rejected ticket gets no answer.
  \<^item> \<open>Sha256\<close> (\<^verbatim>\<open>agent/sha256.ts\<close>): the streaming hasher computes SHA-256 as FIPS 180-4 defines it.

  \<^bold>\<open>Bounds.\<close> All recursion of the model is on data or by a decreasing measure, and no fuel is used but the loop bounds
  of the source (\<open>MAX_CAS_ATTEMPTS\<close> is 16, port and slot ranges). Loops that could run on are shown to end
  (\<open>reasons_are_bounded\<close>). The revision of a record and the byte count of the hasher are unbounded here; the store refuses
  a revision beyond 2^53 - 1 as the code does, and the code's byte count is exact below that.

  \<^bold>\<open>Not modelled.\<close> The generated wire code and the adapters that only convert between it and the cores (the service
  objects behind the bootstraps, the SDK); sockets, listeners and the pumping of spliced bytes; the default seams that call
  Deno; the command line, provisioning and baking; the template and artifact caches on disk and the rest of the launch
  planner; the agent's processes and file system, which are calls into the guest's kernel. Of these the model takes what the
  modelled code relies on as parameters.
\<close>

end
